(* ===== verification/PyText.thy ===== *)
theory PyText
  imports Prelude "HOL-Library.Char_ord" "HOL-Library.List_Lexorder" "HOL-Library.Sublist"
begin

text \<open>
  The string operations of Python's \<open>str\<close> and \<open>os.path\<close> that the code uses, on \<open>string\<close>
  (lists of characters; the texts of the modelled programs are ASCII): decimal numerals,
  \<open>split\<close> and \<open>join\<close>, \<open>replace\<close>, \<open>strip\<close>, \<open>lower\<close>/\<open>upper\<close>, and the POSIX
  \<open>os.path.join\<close>, \<open>split\<close> and \<open>dirname\<close>.
\<close>

section \<open>Decimal numerals\<close>

definition is_digit :: "char \<Rightarrow> bool" where
  "is_digit c \<longleftrightarrow> c \<in> set ''0123456789''"

definition digit_val :: "char \<Rightarrow> nat" where
  "digit_val c = of_char c - 48"

definition digit_char :: "nat \<Rightarrow> char" where
  "digit_char n = ''0123456789'' ! n"

definition all_digits :: "string \<Rightarrow> bool" where
  "all_digits s \<longleftrightarrow> list_all is_digit s"

text \<open>\<open>s.isdigit()\<close>: at least one character, all digits.\<close>

definition isdigit :: "string \<Rightarrow> bool" where
  "isdigit s \<longleftrightarrow> s \<noteq> [] \<and> all_digits s"

text \<open>\<open>int(s)\<close> on a string of digits.\<close>

definition nat_of_digits :: "string \<Rightarrow> nat" where
  "nat_of_digits s = foldl (\<lambda>n c. n * 10 + digit_val c) 0 s"

text \<open>\<open>'%d' % n\<close>.\<close>

fun str_of_nat :: "nat \<Rightarrow> string" where
  "str_of_nat n =
     (if n < 10 then [digit_char n] else str_of_nat (n div 10) @ [digit_char (n mod 10)])"

declare str_of_nat.simps [simp del]

definition str_of_int :: "int \<Rightarrow> string" where
  "str_of_int i = (if i < 0 then CHR ''-'' # str_of_nat (nat (- i)) else str_of_nat (nat i))"

lemma less_10_cases: "n < 10 \<Longrightarrow> n \<in> {0, 1, 2, 3, 4, 5, 6, 7, 8, 9 :: nat}"
  by auto

lemma digit_char_digit [simp]: "n < 10 \<Longrightarrow> is_digit (digit_char n)"
  unfolding is_digit_def digit_char_def by (rule nth_mem) simp

lemma digit_val_char [simp]: "n < 10 \<Longrightarrow> digit_val (digit_char n) = n"
  by (drule less_10_cases) (auto simp: digit_char_def digit_val_def)

lemma digit_char_val [simp]: "is_digit c \<Longrightarrow> digit_char (digit_val c) = c"
  by (auto simp: is_digit_def digit_char_def digit_val_def)

lemma digit_val_less: "is_digit c \<Longrightarrow> digit_val c < 10"
  by (auto simp: is_digit_def digit_val_def)

lemma digit_val_0_iff: "is_digit c \<Longrightarrow> digit_val c = 0 \<longleftrightarrow> c = CHR ''0''"
  by (auto simp: is_digit_def digit_val_def)

lemma digit_char_0 [simp]: "digit_char 0 = CHR ''0''"
  by (simp add: digit_char_def)

lemma all_digits_simps [simp]:
  "all_digits []"
  "all_digits (c # s) \<longleftrightarrow> is_digit c \<and> all_digits s"
  "all_digits (s @ t) \<longleftrightarrow> all_digits s \<and> all_digits t"
  by (auto simp: all_digits_def)

lemma all_digits_set: "all_digits s \<longleftrightarrow> (\<forall>c\<in>set s. is_digit c)"
  by (simp add: all_digits_def list_all_iff)

lemma nat_of_digits_snoc: "nat_of_digits (s @ [c]) = nat_of_digits s * 10 + digit_val c"
  by (simp add: nat_of_digits_def)

lemma nat_of_digits_Nil [simp]: "nat_of_digits [] = 0"
  by (simp add: nat_of_digits_def)

lemma str_of_nat_not_Nil [simp]: "str_of_nat n \<noteq> []"
  by (subst str_of_nat.simps) simp

lemma str_of_nat_digits [simp]: "all_digits (str_of_nat n)"
proof (induction n rule: str_of_nat.induct)
  case (1 n)
  then show ?case by (cases "n < 10") (simp_all add: str_of_nat.simps [of n])
qed

lemma isdigit_str_of_nat [simp]: "isdigit (str_of_nat n)"
  by (simp add: isdigit_def)

lemma nat_of_str_of_nat [simp]: "nat_of_digits (str_of_nat n) = n"
proof (induction n rule: str_of_nat.induct)
  case (1 n)
  show ?case
  proof (cases "n < 10")
    case True
    then show ?thesis by (simp add: str_of_nat.simps [of n] nat_of_digits_def)
  next
    case False
    with 1 show ?thesis by (simp add: str_of_nat.simps [of n] nat_of_digits_snoc)
  qed
qed

lemma str_of_nat_hd: "n \<noteq> 0 \<Longrightarrow> hd (str_of_nat n) \<noteq> CHR ''0''"
proof (induction n rule: str_of_nat.induct)
  case (1 n)
  show ?case
  proof (cases "n < 10")
    case True
    with 1 digit_val_char [of n] show ?thesis
      by (auto simp: str_of_nat.simps [of n] digit_val_def)
  next
    case False
    with 1 show ?thesis by (simp add: str_of_nat.simps [of n])
  qed
qed

lemma str_of_nat_0 [simp]: "str_of_nat 0 = ''0''"
  by (simp add: str_of_nat.simps)

text \<open>A numeral without a leading zero is what its value prints as.\<close>

definition leading_zero :: "string \<Rightarrow> bool" where
  "leading_zero s \<longleftrightarrow> s \<noteq> [] \<and> hd s = CHR ''0'' \<and> isdigit s \<and> s \<noteq> ''0''"

lemma nat_of_digits_0: "all_digits s \<Longrightarrow> nat_of_digits s = 0 \<Longrightarrow> set s \<subseteq> {CHR ''0''}"
  by (induction s rule: rev_induct) (auto simp: nat_of_digits_snoc digit_val_0_iff)

lemma str_of_nat_of_digits:
  assumes "isdigit s" and "\<not> leading_zero s"
  shows "str_of_nat (nat_of_digits s) = s"
  using assms
proof (induction s rule: rev_induct)
  case Nil
  then show ?case by (simp add: isdigit_def)
next
  case (snoc c s)
  from snoc.prems have c: "is_digit c" and s: "all_digits s" by (auto simp: isdigit_def)
  show ?case
  proof (cases "s = []")
    case True
    with c show ?thesis
      by (subst str_of_nat.simps) (simp add: nat_of_digits_def digit_val_less)
  next
    case False
    with snoc.prems s have s': "isdigit s" "hd s \<noteq> CHR ''0''"
      by (auto simp: isdigit_def leading_zero_def)
    with snoc.IH have IH: "str_of_nat (nat_of_digits s) = s" by (simp add: leading_zero_def)
    have "nat_of_digits s \<noteq> 0"
      using nat_of_digits_0 [OF s] s' False by (cases s) auto
    with c digit_val_less [OF c] IH show ?thesis
      by (subst str_of_nat.simps) (simp add: nat_of_digits_snoc)
  qed
qed

lemma not_leading_zero_str [simp]: "\<not> leading_zero (str_of_nat n)"
  using str_of_nat_hd [of n] by (cases "n = 0") (auto simp: leading_zero_def)

section \<open>Splitting and joining\<close>

text \<open>\<open>s.split(c)\<close> for one separating character, and \<open>sep.join(parts)\<close>.\<close>

fun split_on :: "char \<Rightarrow> string \<Rightarrow> string list" where
  "split_on d [] = [[]]"
| "split_on d (c # s) =
     (if c = d then [] # split_on d s
      else (case split_on d s of [] \<Rightarrow> [[c]] | p # ps \<Rightarrow> (c # p) # ps))"

fun join_with :: "string \<Rightarrow> string list \<Rightarrow> string" where
  "join_with sep [] = []"
| "join_with sep [p] = p"
| "join_with sep (p # q # ps) = p @ sep @ join_with sep (q # ps)"

lemma split_on_not_Nil [simp]: "split_on d s \<noteq> []"
  by (induction s) (auto split: list.splits)

lemma join_with_Cons: "ps \<noteq> [] \<Longrightarrow> join_with sep (p # ps) = p @ sep @ join_with sep ps"
  by (cases ps) auto

lemma join_split [simp]: "join_with [d] (split_on d s) = s"
proof (induction s)
  case (Cons c s)
  obtain p ps where p: "split_on d s = p # ps" by (cases "split_on d s") auto
  with Cons show ?case by (cases ps) (auto simp: join_with_Cons)
qed simp

lemma split_on_free: "d \<notin> set p \<Longrightarrow> split_on d p = [p]"
  by (induction p) auto

lemma split_on_append: "d \<notin> set p \<Longrightarrow> split_on d (p @ d # s) = p # split_on d s"
  by (induction p) auto

lemma split_join:
  "ps \<noteq> [] \<Longrightarrow> \<forall>p\<in>set ps. d \<notin> set p \<Longrightarrow> split_on d (join_with [d] ps) = ps"
proof (induction "[d]" ps rule: join_with.induct)
  case (3 p q ps)
  then show ?case by (simp add: split_on_append)
qed (auto simp: split_on_free)

lemma split_on_parts: "p \<in> set (split_on d s) \<Longrightarrow> set p \<subseteq> set s - {d}"
  by (induction s arbitrary: p) (fastforce split: if_splits list.splits)+

lemma set_join_with: "set (join_with sep ps) \<subseteq> (\<Union>p\<in>set ps. set p) \<union> set sep"
  by (induction sep ps rule: join_with.induct) auto

section \<open>replace, strip, case\<close>

text \<open>
  \<open>s.replace(old, new)\<close> with a non-empty \<open>old\<close>: every occurrence, left to right, without
  overlaps. (With an empty \<open>old\<close> Python inserts \<open>new\<close> around every character.)
\<close>

fun interleave :: "'a list \<Rightarrow> 'a list \<Rightarrow> 'a list" where
  "interleave new [] = new"
| "interleave new (c # s) = new @ c # interleave new s"

function replace_all :: "'a list \<Rightarrow> 'a list \<Rightarrow> 'a list \<Rightarrow> 'a list" where
  "replace_all old new s =
     (if old = [] then interleave new s
      else if s = [] then []
      else if prefix old s then new @ replace_all old new (drop (length old) s)
      else hd s # replace_all old new (tl s))"
  by pat_completeness auto
termination
  by (relation "measure (\<lambda>(old, new, s). length s)") auto

declare replace_all.simps [simp del]

lemma replace_all_Nil [simp]: "old \<noteq> [] \<Longrightarrow> replace_all old new [] = []"
  by (simp add: replace_all.simps)

lemma replace_all_prefix:
  "old \<noteq> [] \<Longrightarrow> replace_all old new (old @ s) = new @ replace_all old new s"
  by (subst replace_all.simps) (simp add: prefix_def)

lemma replace_all_absent:
  "old \<noteq> [] \<Longrightarrow> \<not> sublist old s \<Longrightarrow> replace_all old new s = s"
proof (induction s)
  case (Cons c s)
  from Cons.prems have "\<not> prefix old (c # s)" "\<not> sublist old s"
    by (auto simp: sublist_Cons_right)
  with Cons show ?case by (subst replace_all.simps) simp
qed simp

definition strip_ws :: "char \<Rightarrow> bool" where
  "strip_ws c \<longleftrightarrow> of_char c \<in> {9, 10, 11, 12, 13, 28, 29, 30, 31, 32 :: nat}"

definition lstrip_while :: "('a \<Rightarrow> bool) \<Rightarrow> 'a list \<Rightarrow> 'a list" where
  "lstrip_while P s = dropWhile P s"

definition rstrip_while :: "('a \<Rightarrow> bool) \<Rightarrow> 'a list \<Rightarrow> 'a list" where
  "rstrip_while P s = rev (dropWhile P (rev s))"

definition strip :: "string \<Rightarrow> string" where
  "strip s = rstrip_while strip_ws (lstrip_while strip_ws s)"

lemma rstrip_while_append:
  "\<forall>x\<in>set t. P x \<Longrightarrow> s = [] \<or> \<not> P (last s) \<Longrightarrow> rstrip_while P (s @ t) = s"
  by (cases s rule: rev_cases) (auto simp: rstrip_while_def dropWhile_append)

definition lower_char :: "char \<Rightarrow> char" where
  "lower_char c = (let n = of_char c :: nat in if 65 \<le> n \<and> n \<le> 90 then char_of (n + 32) else c)"

definition upper_char :: "char \<Rightarrow> char" where
  "upper_char c = (let n = of_char c :: nat in if 97 \<le> n \<and> n \<le> 122 then char_of (n - 32) else c)"

definition lower :: "string \<Rightarrow> string" where
  "lower s = map lower_char s"

definition upper :: "string \<Rightarrow> string" where
  "upper s = map upper_char s"

lemma upper_char_idem [simp]: "upper_char (upper_char c) = upper_char c"
  by (auto simp: upper_char_def Let_def)

lemma upper_idem [simp]: "upper (upper s) = upper s"
  by (simp add: upper_def)

section \<open>POSIX paths\<close>

definition sep :: char where
  "sep = CHR ''/''"

text \<open>\<open>os.path.join(a, b)\<close>.\<close>

definition path_join :: "string \<Rightarrow> string \<Rightarrow> string" where
  "path_join a b =
     (if b \<noteq> [] \<and> hd b = sep then b
      else if a = [] \<or> last a = sep then a @ b
      else a @ sep # b)"

text \<open>
  \<open>os.path.split(p)\<close>: the tail is what follows the last slash; the head loses its trailing
  slashes unless it consists of slashes only.
\<close>

definition path_tail :: "string \<Rightarrow> string" where
  "path_tail p = rev (takeWhile (\<lambda>c. c \<noteq> sep) (rev p))"

definition path_head :: "string \<Rightarrow> string" where
  "path_head p = rev (dropWhile (\<lambda>c. c \<noteq> sep) (rev p))"

definition dirname :: "string \<Rightarrow> string" where
  "dirname p = (let h = path_head p in if list_all (\<lambda>c. c = sep) h then h else rstrip_while (\<lambda>c. c = sep) h)"

definition path_split :: "string \<Rightarrow> string \<times> string" where
  "path_split p = (dirname p, path_tail p)"

lemma path_head_tail: "path_head p @ path_tail p = p"
  unfolding path_head_def path_tail_def
  by (metis rev_append rev_rev_ident takeWhile_dropWhile_id)

lemma path_tail_no_sep: "sep \<notin> set (path_tail p)"
  by (auto simp: path_tail_def dest: set_takeWhileD)

lemma path_head_join:
  assumes "n \<noteq> []" and "sep \<notin> set n"
  shows "path_head (d @ sep # n) = d @ [sep]" and "path_tail (d @ sep # n) = n"
proof -
  have "\<forall>c\<in>set (rev n). c \<noteq> sep" using assms by auto
  then show "path_head (d @ sep # n) = d @ [sep]" "path_tail (d @ sep # n) = n"
    by (simp_all add: path_head_def path_tail_def dropWhile_append takeWhile_append split: if_splits)
qed

text \<open>The directory of a name joined to a directory is that directory again.\<close>

lemma dirname_join:
  assumes "n \<noteq> []" and "sep \<notin> set n" and "d \<noteq> []" and "last d \<noteq> sep"
  shows "dirname (path_join d n) = d"
proof -
  have "path_join d n = d @ sep # n"
    using assms by (cases n) (auto simp: path_join_def)
  moreover have "\<not> list_all (\<lambda>c. c = sep) (d @ [sep])"
    using assms last_in_set [of d] by (auto simp: list_all_iff)
  moreover have "rstrip_while (\<lambda>c. c = sep) (d @ [sep]) = d"
    using assms by (simp add: rstrip_while_append)
  ultimately show ?thesis
    by (simp only: dirname_def path_head_join [OF assms(1,2)] Let_def if_False)
qed

end
