(* ===== verification/SemVer.thy ===== *)
theory SemVer
  imports PyText
begin

text \<open>
  \<open>src/semantic_version.py\<close>: the semantic-version class. A version is a record of the fields of
  \<open>Version\<close>; construction from text and from keywords, printing, \<open>coerce\<close>, the \<open>next_*\<close> and
  \<open>truncate\<close> operations and the rich comparisons follow the source branch by branch, with every
  \<open>raise\<close> a branch of the result.
\<close>

section \<open>Identifiers and their order\<close>

datatype prec_ident = NumericIdentifier int | AlphaIdentifier string | MaxIdentifier

text \<open>
  \<open>__lt__\<close> of the three classes; the reflected and derived comparisons of \<open>total_ordering\<close> make
  the same answer come out for the pairs whose left side defines no \<open>__lt__\<close>. \<open>AlphaIdentifier\<close>
  compares the ASCII bytes of its text.
\<close>

fun ident_lt :: "prec_ident \<Rightarrow> prec_ident \<Rightarrow> bool" where
  "ident_lt (NumericIdentifier a) MaxIdentifier = True"
| "ident_lt (NumericIdentifier a) (AlphaIdentifier b) = True"
| "ident_lt (NumericIdentifier a) (NumericIdentifier b) = (a < b)"
| "ident_lt (AlphaIdentifier a) MaxIdentifier = True"
| "ident_lt (AlphaIdentifier a) (NumericIdentifier b) = False"
| "ident_lt (AlphaIdentifier a) (AlphaIdentifier b) = (a < b)"
| "ident_lt MaxIdentifier b = False"

instantiation prec_ident :: linorder
begin

definition less_prec_ident :: "prec_ident \<Rightarrow> prec_ident \<Rightarrow> bool" where
  "less_prec_ident a b = ident_lt a b"

definition less_eq_prec_ident :: "prec_ident \<Rightarrow> prec_ident \<Rightarrow> bool" where
  "less_eq_prec_ident a b \<longleftrightarrow> ident_lt a b \<or> a = b"

instance
proof
  fix x y z :: prec_ident
  show "(x < y) = (x \<le> y \<and> \<not> y \<le> x)"
    by (cases x; cases y) (auto simp: less_prec_ident_def less_eq_prec_ident_def)
  show "x \<le> x" by (simp add: less_eq_prec_ident_def)
  show "x \<le> z" if "x \<le> y" "y \<le> z"
    using that by (cases x; cases y; cases z) (auto simp: less_eq_prec_ident_def)
  show "x = y" if "x \<le> y" "y \<le> x"
    using that by (cases x; cases y) (auto simp: less_eq_prec_ident_def)
  show "x \<le> y \<or> y \<le> x"
    by (cases x; cases y) (auto simp: less_eq_prec_ident_def)
qed

end

section \<open>Reading the text of a version\<close>

definition newline :: char where
  "newline = CHR 0x0A"

definition ident_char :: "char \<Rightarrow> bool" where
  "ident_char c \<longleftrightarrow>
     c \<in> set ''0123456789abcdefghijklmnopqrstuvwxyzABCDEFGHIJKLMNOPQRSTUVWXYZ.-''"

text \<open>
  The pieces of \<open>version_re\<close> and \<open>partial_version_re\<close>: \<open>(\d+)\<close>; \<open>\.(\d+)\<close>; the optional groups
  \<open>(?:x([0-9a-zA-Z.-]+))?\<close> and \<open>(?:x([0-9a-zA-Z.-]*))?\<close>; and \<open>$\<close>, which matches at the end and
  also before a final newline. No class contains the character that must follow it, so the greedy
  reading is the only one the regular expressions have.
\<close>

definition re_digits :: "string \<Rightarrow> (string \<times> string) option" where
  "re_digits s =
     (let d = takeWhile is_digit s in if d = [] then None else Some (d, dropWhile is_digit s))"

definition re_dot_digits :: "string \<Rightarrow> (string \<times> string) option" where
  "re_dot_digits s = (case s of [] \<Rightarrow> None | c # t \<Rightarrow> if c = CHR ''.'' then re_digits t else None)"

definition re_tag :: "bool \<Rightarrow> char \<Rightarrow> string \<Rightarrow> string option \<times> string" where
  "re_tag may_be_empty x s =
     (case s of [] \<Rightarrow> (None, s)
      | c # t \<Rightarrow>
          (if c = x \<and> (may_be_empty \<or> takeWhile ident_char t \<noteq> [])
           then (Some (takeWhile ident_char t), dropWhile ident_char t) else (None, s)))"

definition re_end :: "string \<Rightarrow> bool" where
  "re_end s \<longleftrightarrow> s = [] \<or> s = [newline]"

type_synonym groups =
  "string \<times> string option \<times> string option \<times> string option \<times> string option"

definition match_tail :: "bool \<Rightarrow> string \<Rightarrow> (string option \<times> string option) option" where
  "match_tail may_be_empty s =
     (let (pre, s1) = re_tag may_be_empty (CHR ''-'') s;
          (bld, s2) = re_tag may_be_empty (CHR ''+'') s1
      in if re_end s2 then Some (pre, bld) else None)"

definition version_re :: "string \<Rightarrow> groups option" where
  "version_re s =
     (case re_digits s of None \<Rightarrow> None
      | Some (ma, s1) \<Rightarrow> (case re_dot_digits s1 of None \<Rightarrow> None
      | Some (mi, s2) \<Rightarrow> (case re_dot_digits s2 of None \<Rightarrow> None
      | Some (pa, s3) \<Rightarrow> (case match_tail False s3 of None \<Rightarrow> None
      | Some (pre, bld) \<Rightarrow> Some (ma, Some mi, Some pa, pre, bld)))))"

definition partial_version_re :: "string \<Rightarrow> groups option" where
  "partial_version_re s =
     (case re_digits s of None \<Rightarrow> None
      | Some (ma, s1) \<Rightarrow>
          (let (mi, pa, s3) =
             (case re_dot_digits s1 of None \<Rightarrow> (None, None, s1)
              | Some (m, s2) \<Rightarrow>
                  (case re_dot_digits s2 of None \<Rightarrow> (Some m, None, s2)
                   | Some (p, t) \<Rightarrow> (Some m, Some p, t)))
           in case match_tail True s3 of None \<Rightarrow> None
              | Some (pre, bld) \<Rightarrow> Some (ma, mi, pa, pre, bld)))"

section \<open>The version record and its construction\<close>

record version =
  v_major :: int
  v_minor :: "int option"
  v_patch :: "int option"
  v_prerelease :: "string list option"
  v_build :: "string list option"
  v_partial :: bool

definition has_leading_zero :: "string option \<Rightarrow> bool" where
  "has_leading_zero v = (case v of None \<Rightarrow> False | Some s \<Rightarrow> leading_zero s)"

text \<open>\<open>_coerce\<close> on the groups of a match and on keyword values: \<open>int(None)\<close> raises.\<close>

definition coerce_group :: "string option \<Rightarrow> bool \<Rightarrow> int option res" where
  "coerce_group v allow_none =
     (case v of None \<Rightarrow> if allow_none then Inr None else Inl TypeError
      | Some s \<Rightarrow> Inr (Some (int (nat_of_digits s))))"

definition coerce_int :: "int option \<Rightarrow> bool \<Rightarrow> int option res" where
  "coerce_int v allow_none =
     (case v of None \<Rightarrow> if allow_none then Inr None else Inl TypeError
      | Some i \<Rightarrow> Inr (Some i))"

fun validate_identifiers :: "string list \<Rightarrow> bool \<Rightarrow> unit res" where
  "validate_identifiers [] allow_leading_zeroes = Inr ()"
| "validate_identifiers (item # items) allow_leading_zeroes =
     (if item = [] then Inl ValueError
      else if leading_zero item \<and> \<not> allow_leading_zeroes then Inl ValueError
      else validate_identifiers items allow_leading_zeroes)"

definition parse_tags :: "string option \<Rightarrow> bool \<Rightarrow> string list res" where
  "parse_tags g allow_leading_zeroes =
     (case g of None \<Rightarrow> Inr []
      | Some t \<Rightarrow> if t = [] then Inr []
                else bindR (validate_identifiers (split_on (CHR ''.'') t) allow_leading_zeroes)
                       (\<lambda>_. Inr (split_on (CHR ''.'') t)))"

definition parse ::
  "string \<Rightarrow> bool \<Rightarrow>
     (int \<times> int option \<times> int option \<times> string list option \<times> string list option) res" where
  "parse s part =
     (if s = [] then Inl ValueError
      else case (if part then partial_version_re s else version_re s) of
        None \<Rightarrow> Inl ValueError
      | Some (ma, mi, pa, pre, bld) \<Rightarrow>
          if has_leading_zero (Some ma) then Inl ValueError
          else if has_leading_zero mi then Inl ValueError
          else if has_leading_zero pa then Inl ValueError
          else
            bindR (coerce_group mi part) (\<lambda>minor.
            bindR (coerce_group pa part) (\<lambda>patch.
              if pre = None \<and> part \<and> bld = None
              then Inr (int (nat_of_digits ma), minor, patch, None, None)
              else
                bindR (parse_tags pre False) (\<lambda>prerelease.
                  if bld = None \<and> part
                  then Inr (int (nat_of_digits ma), minor, patch, Some prerelease, None)
                  else
                    bindR (parse_tags bld True) (\<lambda>build.
                      Inr (int (nat_of_digits ma), minor, patch, Some prerelease, Some build))))))"

definition validate_kwargs ::
  "int option \<Rightarrow> int option \<Rightarrow> int option \<Rightarrow> string list option \<Rightarrow> string list option \<Rightarrow> bool
     \<Rightarrow> int res" where
  "validate_kwargs major minor patch prerelease build part =
     (case major of None \<Rightarrow> Inl TypeError
      | Some ma \<Rightarrow>
          bindR (coerce_int minor part) (\<lambda>mi. if minor \<noteq> mi then Inl ValueError else
          bindR (coerce_int patch part) (\<lambda>pa. if patch \<noteq> pa then Inl ValueError else
          if prerelease = None \<and> \<not> part then Inl ValueError
          else if build = None \<and> \<not> part then Inl ValueError
          else
            bindR (case prerelease of None \<Rightarrow> Inr ()
                   | Some p \<Rightarrow> validate_identifiers p False) (\<lambda>_.
            bindR (case build of None \<Rightarrow> Inr ()
                   | Some b \<Rightarrow> validate_identifiers b True) (\<lambda>_. Inr ma)))))"

definition version_init ::
  "string option \<Rightarrow> int option \<Rightarrow> int option \<Rightarrow> int option \<Rightarrow> string list option
     \<Rightarrow> string list option \<Rightarrow> bool \<Rightarrow> version res" where
  "version_init text major minor patch prerelease build part =
     (let has_text = (text \<noteq> None);
          has_parts = \<not> (major = None \<and> minor = None \<and> patch = None \<and> prerelease = None
                         \<and> build = None)
      in if has_text = has_parts then Inl ValueError
         else case text of
           Some s \<Rightarrow>
             bindR (parse s part) (\<lambda>(ma, mi, pa, pre, bld).
               Inr \<lparr>v_major = ma, v_minor = mi, v_patch = pa, v_prerelease = pre, v_build = bld,
                    v_partial = part\<rparr>)
         | None \<Rightarrow>
             (let pre = Some (case prerelease of None \<Rightarrow> [] | Some p \<Rightarrow> p);
                  bld = (if part then build
                         else Some (case build of None \<Rightarrow> [] | Some b \<Rightarrow> b))
              in bindR (validate_kwargs major minor patch pre bld part) (\<lambda>ma.
                   Inr \<lparr>v_major = ma, v_minor = minor, v_patch = patch, v_prerelease = pre,
                        v_build = bld, v_partial = part\<rparr>)))"

text \<open>\<open>Version('...')\<close> and \<open>Version(major=..., minor=..., ...)\<close> as the other methods call them.\<close>

abbreviation version_of_string :: "string \<Rightarrow> bool \<Rightarrow> version res" where
  "version_of_string s part \<equiv> version_init (Some s) None None None None None part"

abbreviation version_of_parts ::
  "int \<Rightarrow> int option \<Rightarrow> int option \<Rightarrow> string list option \<Rightarrow> bool \<Rightarrow> version res" where
  "version_of_parts ma mi pa pre part \<equiv> version_init None (Some ma) mi pa pre None part"

section \<open>Operations\<close>

abbreviation truthy :: "'a list option \<Rightarrow> bool" where
  "truthy p \<equiv> p \<noteq> None \<and> p \<noteq> Some []"

definition next_major :: "version \<Rightarrow> version res" where
  "next_major v =
     (if truthy (v_prerelease v) \<and> v_minor v = v_patch v \<and> v_patch v = Some 0
      then version_of_parts (v_major v) (Some 0) (Some 0) None (v_partial v)
      else version_of_parts (v_major v + 1) (Some 0) (Some 0) None (v_partial v))"

definition next_minor :: "version \<Rightarrow> version res" where
  "next_minor v =
     (if truthy (v_prerelease v) \<and> v_patch v = Some 0
      then version_of_parts (v_major v) (v_minor v) (Some 0) None (v_partial v)
      else case v_minor v of None \<Rightarrow> Inl TypeError
           | Some mi \<Rightarrow>
               version_of_parts (v_major v) (Some (mi + 1)) (Some 0) None (v_partial v))"

definition next_patch :: "version \<Rightarrow> version res" where
  "next_patch v =
     (if truthy (v_prerelease v)
      then version_of_parts (v_major v) (v_minor v) (v_patch v) None (v_partial v)
      else case v_patch v of None \<Rightarrow> Inl TypeError
           | Some pa \<Rightarrow>
               version_of_parts (v_major v) (v_minor v) (Some (pa + 1)) None (v_partial v))"

definition truncate :: "version \<Rightarrow> string \<Rightarrow> version res" where
  "truncate v level =
     (if level = ''build'' then Inr v
      else if level = ''prerelease''
      then version_of_parts (v_major v) (v_minor v) (v_patch v) (v_prerelease v) (v_partial v)
      else if level = ''patch''
      then version_of_parts (v_major v) (v_minor v) (v_patch v) None (v_partial v)
      else if level = ''minor''
      then version_of_parts (v_major v) (v_minor v) (if v_partial v then None else Some 0) None
             (v_partial v)
      else if level = ''major''
      then version_of_parts (v_major v) (if v_partial v then None else Some 0)
             (if v_partial v then None else Some 0) None (v_partial v)
      else Inl ValueError)"

definition version_str :: "version \<Rightarrow> string" where
  "version_str v =
     str_of_int (v_major v)
     @ (case v_minor v of None \<Rightarrow> [] | Some m \<Rightarrow> CHR ''.'' # str_of_int m)
     @ (case v_patch v of None \<Rightarrow> [] | Some p \<Rightarrow> CHR ''.'' # str_of_int p)
     @ (if truthy (v_prerelease v)
           \<or> (v_partial v \<and> v_prerelease v = Some [] \<and> v_build v = None)
        then CHR ''-'' # join_with ''.'' (the (v_prerelease v)) else [])
     @ (if truthy (v_build v) \<or> (v_partial v \<and> v_build v = Some [])
        then CHR ''+'' # join_with ''.'' (the (v_build v)) else [])"

text \<open>\<open>base_re\<close> of \<open>coerce\<close> splits off the leading numeric components.\<close>

definition base_re :: "string \<Rightarrow> (string list \<times> string) option" where
  "base_re s =
     (case re_digits s of None \<Rightarrow> None
      | Some (ma, s1) \<Rightarrow>
          (case re_dot_digits s1 of None \<Rightarrow> Some ([ma], s1)
           | Some (mi, s2) \<Rightarrow>
               (case re_dot_digits s2 of None \<Rightarrow> Some ([ma, mi], s2)
                | Some (pa, s3) \<Rightarrow> Some ([ma, mi, pa], s3))))"

definition strip_zeros :: "string \<Rightarrow> string" where
  "strip_zeros p = (let q = lstrip_while (\<lambda>c. c = CHR ''0'') p in if q = [] then ''0'' else q)"

definition clean_char :: "char \<Rightarrow> char" where
  "clean_char c = (if ident_char c \<or> c = CHR ''+'' then c else CHR ''-'')"

definition split_plus :: "string \<Rightarrow> string \<times> string" where
  "split_plus s = (takeWhile (\<lambda>c. c \<noteq> CHR ''+'') s, tl (dropWhile (\<lambda>c. c \<noteq> CHR ''+'') s))"

definition coerce :: "string \<Rightarrow> bool \<Rightarrow> version res" where
  "coerce s part =
     (case base_re s of None \<Rightarrow> Inl ValueError
      | Some (nums, rest0) \<Rightarrow>
          (let nums1 = (if part then nums else nums @ replicate (3 - length nums) ''0'');
               ver = join_with ''.'' (map strip_zeros nums1)
           in if rest0 = [] then version_of_string ver part
              else
                (let rest = map clean_char rest0;
                     (pre, bld) =
                       (if hd rest = CHR ''+'' then ([], tl rest)
                        else if hd rest = CHR ''.'' then ([], tl rest)
                        else if hd rest = CHR ''-'' then split_plus (tl rest)
                        else split_plus rest);
                     bld' = map (\<lambda>c. if c = CHR ''+'' then CHR ''.'' else c) bld;
                     ver1 = (if pre \<noteq> [] then ver @ CHR ''-'' # pre else ver);
                     ver2 = (if bld' \<noteq> [] then ver1 @ CHR ''+'' # bld' else ver1)
                 in version_of_string ver2 part)))"

section \<open>Comparison\<close>

type_synonym prec_key = "int \<times> int option \<times> int option \<times> prec_ident list"

text \<open>The test \<open>re.match(r'^[0-9]+$', part)\<close> and \<open>int(part)\<close>, which drops the newline.\<close>

definition strip_newline :: "string \<Rightarrow> string" where
  "strip_newline s = (if s \<noteq> [] \<and> last s = newline then butlast s else s)"

definition ident_key :: "string \<Rightarrow> prec_ident" where
  "ident_key part =
     (if isdigit (strip_newline part)
      then NumericIdentifier (int (nat_of_digits (strip_newline part)))
      else AlphaIdentifier part)"

definition precedence_key :: "version \<Rightarrow> prec_key" where
  "precedence_key v =
     (v_major v, v_minor v, v_patch v,
      (if truthy (v_prerelease v) then map ident_key (the (v_prerelease v)) else [MaxIdentifier]))"

datatype cmp_op = Lt | Le | Gt | Ge

fun apply_op :: "cmp_op \<Rightarrow> 'a::linorder \<Rightarrow> 'a \<Rightarrow> bool" where
  "apply_op Lt a b = (a < b)"
| "apply_op Le a b = (a \<le> b)"
| "apply_op Gt a b = (a > b)"
| "apply_op Ge a b = (a \<ge> b)"

text \<open>
  Tuples compare at the first position where they differ; comparing \<open>None\<close> with an integer there
  raises \<open>TypeError\<close>. The identifier tuples compare lexicographically, a proper prefix first.
\<close>

fun op_option :: "cmp_op \<Rightarrow> int option \<Rightarrow> int option \<Rightarrow> bool res" where
  "op_option p (Some a) (Some b) = Inr (apply_op p a b)"
| "op_option p _ _ = Inl TypeError"

fun key_compare :: "cmp_op \<Rightarrow> prec_key \<Rightarrow> prec_key \<Rightarrow> bool res" where
  "key_compare p (ma, mi, pa, pre) (ma', mi', pa', pre') =
     (if ma \<noteq> ma' then Inr (apply_op p ma ma')
      else if mi \<noteq> mi' then op_option p mi mi'
      else if pa \<noteq> pa' then op_option p pa pa'
      else Inr (apply_op p pre pre'))"

definition version_lt :: "version \<Rightarrow> version \<Rightarrow> bool res" where
  "version_lt a b = key_compare Lt (precedence_key a) (precedence_key b)"

definition version_le :: "version \<Rightarrow> version \<Rightarrow> bool res" where
  "version_le a b = key_compare Le (precedence_key a) (precedence_key b)"

definition version_gt :: "version \<Rightarrow> version \<Rightarrow> bool res" where
  "version_gt a b = key_compare Gt (precedence_key a) (precedence_key b)"

definition version_ge :: "version \<Rightarrow> version \<Rightarrow> bool res" where
  "version_ge a b = key_compare Ge (precedence_key a) (precedence_key b)"

definition or_empty :: "'a list option \<Rightarrow> 'a list" where
  "or_empty p = (case p of None \<Rightarrow> [] | Some xs \<Rightarrow> xs)"

definition version_eq :: "version \<Rightarrow> version \<Rightarrow> bool" where
  "version_eq a b \<longleftrightarrow>
     v_major a = v_major b \<and> v_minor a = v_minor b \<and> v_patch a = v_patch b
     \<and> or_empty (v_prerelease a) = or_empty (v_prerelease b)
     \<and> or_empty (v_build a) = or_empty (v_build b)"

text \<open>\<open>__iter__\<close>, which \<open>__ne__\<close> and \<open>__hash__\<close> read the fields through.\<close>

definition version_tuple ::
  "version \<Rightarrow> int \<times> int option \<times> int option \<times> string list option \<times> string list option" where
  "version_tuple v = (v_major v, v_minor v, v_patch v, v_prerelease v, v_build v)"

definition version_ne :: "version \<Rightarrow> version \<Rightarrow> bool" where
  "version_ne a b \<longleftrightarrow> version_tuple a \<noteq> version_tuple b"

text \<open>\<open>__cmp__\<close>: \<open>None\<close> is \<open>NotImplemented\<close>.\<close>

definition version_cmp :: "version \<Rightarrow> version \<Rightarrow> int option res" where
  "version_cmp a b =
     bindR (version_lt a b) (\<lambda>lt. if lt then Inr (Some (- 1)) else
     bindR (version_gt a b) (\<lambda>gt. if gt then Inr (Some 1) else
       Inr (if version_eq a b then Some 0 else None)))"

end
