(* ===== verification/SemVerLaws.thy ===== *)
theory SemVerLaws
  imports SemVer "HOL-Library.Product_Lexorder"
begin

text \<open>
  Correctness of \<open>SemVer\<close>: the hand-read regular expressions against the language they denote, the
  invariant of constructed versions, the print/parse round trip, the order of precedence, and the
  \<open>next_*\<close> operations.
\<close>

section \<open>The regular expressions\<close>

definition tagged :: "char \<Rightarrow> string option \<Rightarrow> string" where
  "tagged x g = (case g of None \<Rightarrow> [] | Some t \<Rightarrow> x # t)"

definition tag_group :: "bool \<Rightarrow> string option \<Rightarrow> bool" where
  "tag_group may_be_empty g \<longleftrightarrow>
     (\<forall>t. g = Some t \<longrightarrow> list_all ident_char t \<and> (may_be_empty \<or> t \<noteq> []))"

definition final_nl :: "string \<Rightarrow> bool" where
  "final_nl s \<longleftrightarrow> s = [] \<or> s = [newline]"

lemma tagged_simps [simp]: "tagged x None = []" "tagged x (Some t) = x # t"
  by (simp_all add: tagged_def)

lemma tag_group_simps [simp]:
  "tag_group e None"
  "tag_group e (Some t) \<longleftrightarrow> list_all ident_char t \<and> (e \<or> t \<noteq> [])"
  by (auto simp: tag_group_def)

lemma tag_group_empty [simp]: "tag_group True (Some [])"
  by (simp add: tag_group_def)

lemma newline_facts [simp]:
  "\<not> ident_char newline" "\<not> is_digit newline" "newline \<noteq> CHR ''-''" "newline \<noteq> CHR ''+''"
  "newline \<noteq> CHR ''.''"
  by (simp_all add: newline_def ident_char_def is_digit_def)

lemma sep_char_facts [simp]:
  "\<not> ident_char (CHR ''+'')" "\<not> is_digit (CHR ''.'')" "\<not> is_digit (CHR ''-'')"
  "\<not> is_digit (CHR ''+'')"
  by (simp_all add: ident_char_def is_digit_def)

lemma digit_ident: "is_digit c \<Longrightarrow> ident_char c"
  by (auto simp: is_digit_def ident_char_def)

lemma re_digits_append:
  "isdigit d \<Longrightarrow> t = [] \<or> \<not> is_digit (hd t) \<Longrightarrow> re_digits (d @ t) = Some (d, t)"
  using span_unique [of d is_digit t]
  by (simp add: re_digits_def isdigit_def all_digits_set)

lemma re_digits_Some:
  "re_digits s = Some (d, t) \<longleftrightarrow> s = d @ t \<and> isdigit d \<and> (t = [] \<or> \<not> is_digit (hd t))"
proof
  assume "re_digits s = Some (d, t)"
  then show "s = d @ t \<and> isdigit d \<and> (t = [] \<or> \<not> is_digit (hd t))"
    by (auto simp: re_digits_def isdigit_def all_digits_set Let_def
        dest: set_takeWhileD hd_dropWhile split: if_splits)
qed (auto simp: re_digits_append)

lemma re_dot_digits_Some:
  "re_dot_digits s = Some (d, t) \<longleftrightarrow>
     s = CHR ''.'' # d @ t \<and> isdigit d \<and> (t = [] \<or> \<not> is_digit (hd t))"
  by (cases s) (auto simp: re_dot_digits_def re_digits_Some)

lemma re_dot_digits_None [simp]: "s = [] \<or> hd s \<noteq> CHR ''.'' \<Longrightarrow> re_dot_digits s = None"
  by (cases s) (auto simp: re_dot_digits_def)

lemma re_tag_tagged:
  assumes "tag_group e g" and "t = [] \<or> \<not> ident_char (hd t)" and "g = None \<Longrightarrow> t = [] \<or> hd t \<noteq> x"
  shows "re_tag e x (tagged x g @ t) = (g, t)"
proof (cases g)
  case None
  with assms show ?thesis by (cases t) (auto simp: re_tag_def)
next
  case (Some u)
  with assms(1,2) span_unique [of u ident_char t] show ?thesis
    by (auto simp: re_tag_def list_all_iff)
qed

lemma re_tag_parts:
  "re_tag e x s = (g, t) \<Longrightarrow> s = tagged x g @ t \<and> tag_group e g"
  by (auto simp: re_tag_def list_all_iff dest: set_takeWhileD split: list.splits if_splits)

lemma match_tail_iff:
  "match_tail e s = Some (g, h) \<longleftrightarrow>
     (\<exists>nl. s = tagged (CHR ''-'') g @ tagged (CHR ''+'') h @ nl \<and> final_nl nl
        \<and> tag_group e g \<and> tag_group e h)"
proof
  assume "match_tail e s = Some (g, h)"
  then obtain s1 s2 where "re_tag e (CHR ''-'') s = (g, s1)" "re_tag e (CHR ''+'') s1 = (h, s2)"
    "re_end s2"
    by (auto simp: match_tail_def split: prod.splits if_splits)
  then show "\<exists>nl. s = tagged (CHR ''-'') g @ tagged (CHR ''+'') h @ nl \<and> final_nl nl
        \<and> tag_group e g \<and> tag_group e h"
    using re_tag_parts [of e "CHR ''-''" s g s1] re_tag_parts [of e "CHR ''+''" s1 h s2]
    by (auto simp: re_end_def final_nl_def)
next
  assume "\<exists>nl. s = tagged (CHR ''-'') g @ tagged (CHR ''+'') h @ nl \<and> final_nl nl
        \<and> tag_group e g \<and> tag_group e h"
  then obtain nl where s: "s = tagged (CHR ''-'') g @ tagged (CHR ''+'') h @ nl" "final_nl nl"
    "tag_group e g" "tag_group e h" by blast
  have "re_tag e (CHR ''-'') s = (g, tagged (CHR ''+'') h @ nl)"
    unfolding s(1) by (rule re_tag_tagged) (use s in \<open>cases h; auto simp: final_nl_def\<close>)+
  moreover have "re_tag e (CHR ''+'') (tagged (CHR ''+'') h @ nl) = (h, nl)"
    by (rule re_tag_tagged) (use s in \<open>auto simp: final_nl_def\<close>)
  ultimately show "match_tail e s = Some (g, h)"
    using s(2) by (auto simp: match_tail_def re_end_def final_nl_def)
qed

lemma tail_hd:
  "final_nl nl \<Longrightarrow> (t :: string) = tagged (CHR ''-'') g @ tagged (CHR ''+'') h @ nl \<Longrightarrow>
     t = [] \<or> (\<not> is_digit (hd t) \<and> hd t \<noteq> CHR ''.'')"
  by (cases g; cases h) (auto simp: final_nl_def)

text \<open>
  The language of \<open>version_re\<close>, with its groups: three numerals, the two tags, and possibly a
  newline after them.
\<close>

lemma version_re_iff:
  "version_re s = Some (ma, mi', pa', g, h) \<longleftrightarrow>
     (\<exists>mi pa nl. mi' = Some mi \<and> pa' = Some pa
        \<and> s = ma @ CHR ''.'' # mi @ CHR ''.'' # pa @ tagged (CHR ''-'') g @ tagged (CHR ''+'') h @ nl
        \<and> isdigit ma \<and> isdigit mi \<and> isdigit pa \<and> tag_group False g \<and> tag_group False h
        \<and> final_nl nl)" (is "_ \<longleftrightarrow> ?R")
proof
  assume "version_re s = Some (ma, mi', pa', g, h)"
  then obtain s1 s2 s3 mi pa where
    "re_digits s = Some (ma, s1)" "re_dot_digits s1 = Some (mi, s2)"
    "re_dot_digits s2 = Some (pa, s3)" "match_tail False s3 = Some (g, h)"
    "mi' = Some mi" "pa' = Some pa"
    by (auto simp: version_re_def split: option.splits)
  then show ?R by (auto simp: re_digits_Some re_dot_digits_Some match_tail_iff)
next
  assume ?R
  then obtain mi pa nl where "mi' = Some mi" "pa' = Some pa" and nl: "final_nl nl"
    and s: "s = ma @ CHR ''.'' # mi @ CHR ''.'' # pa @ tagged (CHR ''-'') g @ tagged (CHR ''+'') h @ nl"
    and d: "isdigit ma" "isdigit mi" "isdigit pa" and tg: "tag_group False g" "tag_group False h"
    by blast
  let ?t = "tagged (CHR ''-'') g @ tagged (CHR ''+'') h @ nl"
  have "match_tail False ?t = Some (g, h)" using nl tg by (auto simp: match_tail_iff)
  moreover have "re_dot_digits (CHR ''.'' # pa @ ?t) = Some (pa, ?t)"
    using d tail_hd [OF nl refl] by (auto simp: re_dot_digits_Some)
  moreover have "re_dot_digits (CHR ''.'' # mi @ CHR ''.'' # pa @ ?t) = Some (mi, CHR ''.'' # pa @ ?t)"
    using d by (auto simp: re_dot_digits_Some)
  moreover have "re_digits s = Some (ma, CHR ''.'' # mi @ CHR ''.'' # pa @ ?t)"
    using d s by (auto simp: re_digits_Some)
  ultimately show "version_re s = Some (ma, mi', pa', g, h)"
    using \<open>mi' = Some mi\<close> \<open>pa' = Some pa\<close> by (simp add: version_re_def)
qed

lemma partial_version_re_Some:
  assumes "partial_version_re s = Some (ma, mi, pa, g, h)"
  shows "\<exists>nl. s = ma @ tagged (CHR ''.'') mi @ tagged (CHR ''.'') pa
                  @ tagged (CHR ''-'') g @ tagged (CHR ''+'') h @ nl
           \<and> isdigit ma \<and> (\<forall>m. mi = Some m \<longrightarrow> isdigit m) \<and> (\<forall>p. pa = Some p \<longrightarrow> isdigit p)
           \<and> (mi = None \<longrightarrow> pa = None) \<and> tag_group True g \<and> tag_group True h \<and> final_nl nl"
  using assms
  by (auto simp: partial_version_re_def re_digits_Some re_dot_digits_Some match_tail_iff
      split: option.splits)

lemma partial_version_re_match:
  assumes "isdigit ma" and mi: "\<And>m. mi = Some m \<Longrightarrow> isdigit m" and pa: "\<And>p. pa = Some p \<Longrightarrow> isdigit p"
    and np: "mi = None \<Longrightarrow> pa = None" and tg: "tag_group True g" "tag_group True h"
    and nl: "final_nl nl"
  shows "partial_version_re (ma @ tagged (CHR ''.'') mi @ tagged (CHR ''.'') pa
           @ tagged (CHR ''-'') g @ tagged (CHR ''+'') h @ nl) = Some (ma, mi, pa, g, h)"
proof -
  let ?t = "tagged (CHR ''-'') g @ tagged (CHR ''+'') h @ nl"
  let ?p = "tagged (CHR ''.'') pa @ ?t" and ?m = "tagged (CHR ''.'') mi @ tagged (CHR ''.'') pa @ ?t"
  have t: "match_tail True ?t = Some (g, h)" using nl tg by (auto simp: match_tail_iff)
  have th: "?t = [] \<or> \<not> is_digit (hd ?t)" "?t = [] \<or> hd ?t \<noteq> CHR ''.''"
    using tail_hd [OF nl refl, of g h] by auto
  have p: "re_dot_digits ?p = (case pa of None \<Rightarrow> None | Some p \<Rightarrow> Some (p, ?t))"
  proof (cases pa)
    case None
    with th(2) show ?thesis by simp
  next
    case (Some p)
    with th(1) pa show ?thesis by (simp add: re_dot_digits_Some)
  qed
  have ph: "?p = [] \<or> \<not> is_digit (hd ?p)" using th(1) by (cases pa) auto
  have m: "re_dot_digits ?m = (case mi of None \<Rightarrow> None | Some m \<Rightarrow> Some (m, ?p))"
  proof (cases mi)
    case None
    with np th(2) show ?thesis by simp
  next
    case (Some m)
    with ph mi show ?thesis by (simp add: re_dot_digits_Some)
  qed
  have mh: "?m = [] \<or> \<not> is_digit (hd ?m)" using ph by (cases mi) auto
  then have d: "re_digits (ma @ ?m) = Some (ma, ?m)" using assms(1) by (simp add: re_digits_Some)
  show ?thesis
    by (cases mi; cases pa) (use d m p t np in \<open>simp_all add: partial_version_re_def\<close>)
qed

section \<open>The invariant of versions\<close>

definition ident_ok :: "bool \<Rightarrow> string \<Rightarrow> bool" where
  "ident_ok allow_zeros p \<longleftrightarrow>
     p \<noteq> [] \<and> list_all (\<lambda>c. ident_char c \<and> c \<noteq> CHR ''.'') p \<and> (allow_zeros \<or> \<not> leading_zero p)"

definition tags_ok :: "bool \<Rightarrow> string list option \<Rightarrow> bool" where
  "tags_ok allow_zeros ps \<longleftrightarrow> (\<forall>xs. ps = Some xs \<longrightarrow> list_all (ident_ok allow_zeros) xs)"

definition nonneg_opt :: "int option \<Rightarrow> bool" where
  "nonneg_opt m \<longleftrightarrow> (\<forall>i. m = Some i \<longrightarrow> 0 \<le> i)"

text \<open>What a version read from text satisfies.\<close>

definition wf_version :: "version \<Rightarrow> bool" where
  "wf_version v \<longleftrightarrow>
     0 \<le> v_major v \<and> nonneg_opt (v_minor v) \<and> nonneg_opt (v_patch v)
     \<and> (v_minor v = None \<longrightarrow> v_patch v = None)
     \<and> (v_partial v \<or> v_minor v \<noteq> None \<and> v_patch v \<noteq> None \<and> v_prerelease v \<noteq> None \<and> v_build v \<noteq> None)
     \<and> (v_prerelease v = None \<longrightarrow> v_build v = None)
     \<and> tags_ok False (v_prerelease v) \<and> tags_ok True (v_build v)"

lemma validate_identifiers_ok:
  "validate_identifiers ps a = Inr u \<longleftrightarrow> list_all (\<lambda>p. p \<noteq> [] \<and> (a \<or> \<not> leading_zero p)) ps"
  by (induction ps) auto

lemma parse_tags_ok:
  assumes "parse_tags g a = Inr ps" and "tag_group e g"
  shows "list_all (ident_ok a) ps"
proof (cases "g = None \<or> g = Some []")
  case True
  with assms(1) show ?thesis by (auto simp: parse_tags_def)
next
  case False
  then obtain t where t: "g = Some t" "t \<noteq> []" by (cases g) auto
  with assms have ps: "ps = split_on (CHR ''.'') t"
    and "list_all (\<lambda>p. p \<noteq> [] \<and> (a \<or> \<not> leading_zero p)) ps"
    by (auto simp: parse_tags_def bindR_eq_Inr validate_identifiers_ok)
  moreover have "list_all (\<lambda>c. ident_char c \<and> c \<noteq> CHR ''.'') p" if "p \<in> set ps" for p
    using split_on_parts [of p "CHR ''.''" t] that ps assms(2) t by (auto simp: list_all_iff)
  ultimately show ?thesis by (auto simp: list_all_iff ident_ok_def)
qed

lemma parse_tags_join:
  assumes "list_all (ident_ok a) ps"
  shows "parse_tags (if ps = [] then g else Some (join_with ''.'' ps)) a
           = (if ps = [] then parse_tags g a else Inr ps)"
proof (cases "ps = []")
  case False
  have "\<forall>p\<in>set ps. CHR ''.'' \<notin> set p" using assms by (auto simp: list_all_iff ident_ok_def)
  with False have sp: "split_on (CHR ''.'') (join_with ''.'' ps) = ps" by (rule split_join)
  with False assms have "join_with ''.'' ps \<noteq> []"
    by (cases ps; cases "tl ps") (auto simp: ident_ok_def)
  moreover have "validate_identifiers ps a = Inr ()"
    using assms by (auto simp: validate_identifiers_ok list_all_iff ident_ok_def)
  ultimately show ?thesis using False sp by (simp add: parse_tags_def)
qed simp

lemma join_ident: "list_all (ident_ok a) ps \<Longrightarrow> list_all ident_char (join_with ''.'' ps)"
proof -
  assume ok: "list_all (ident_ok a) ps"
  have "ident_char c" if "c \<in> set (join_with ''.'' ps)" for c
  proof -
    from that set_join_with [of "''.''" ps] consider p where "p \<in> set ps" "c \<in> set p" | "c = CHR ''.''"
      by auto
    then show ?thesis
      by cases (use ok in \<open>auto simp: list_all_iff ident_ok_def ident_char_def [of "CHR ''.''"]\<close>)
  qed
  then show ?thesis by (simp add: list_all_iff)
qed

lemma join_not_Nil: "list_all (ident_ok a) ps \<Longrightarrow> ps \<noteq> [] \<Longrightarrow> join_with ''.'' ps \<noteq> []"
  by (cases ps; cases "tl ps") (auto simp: ident_ok_def)

lemma coerce_group_nonneg: "coerce_group g a = Inr m \<Longrightarrow> nonneg_opt m"
  by (auto simp: coerce_group_def nonneg_opt_def split: option.splits if_splits)

lemma coerce_group_None: "coerce_group g a = Inr m \<Longrightarrow> m = None \<longleftrightarrow> g = None"
  by (auto simp: coerce_group_def split: option.splits if_splits)

lemma match_groups:
  assumes "(if part then partial_version_re s else version_re s) = Some (ma, mi, pa, g, h)"
  shows "(mi = None \<longrightarrow> pa = None) \<and> (part \<or> mi \<noteq> None \<and> pa \<noteq> None) \<and> tag_group part g \<and> tag_group part h"
proof (cases part)
  case True
  with assms partial_version_re_Some [of s ma mi pa g h] show ?thesis by auto
next
  case False
  with assms show ?thesis by (auto simp: version_re_iff)
qed

lemma parse_wf:
  assumes "parse s part = Inr (ma, mi, pa, pre, bld)"
  shows "wf_version \<lparr>v_major = ma, v_minor = mi, v_patch = pa, v_prerelease = pre, v_build = bld,
           v_partial = part\<rparr>"
proof -
  from assms obtain ma' mi' pa' g h where
    m: "(if part then partial_version_re s else version_re s) = Some (ma', mi', pa', g, h)"
    and c: "coerce_group mi' part = Inr mi" "coerce_group pa' part = Inr pa"
    and ma: "ma = int (nat_of_digits ma')"
    and tags: "(pre = None \<and> bld = None \<and> part)
      \<or> (\<exists>p. parse_tags g False = Inr p \<and> pre = Some p
           \<and> (part \<and> bld = None \<or> (\<exists>b. parse_tags h True = Inr b \<and> bld = Some b)))"
    by (simp add: parse_def split: if_splits option.splits prod.splits)
       (auto simp: bindR_eq_Inr split: if_splits)
  note gr = match_groups [OF m]
  have "tags_ok False pre" "tags_ok True bld"
    using tags parse_tags_ok gr by (auto simp: tags_ok_def)
  with gr tags ma c show ?thesis
    by (auto simp: wf_version_def coerce_group_nonneg dest: coerce_group_None)
qed

lemma version_init_string:
  "version_of_string s part = Inr v \<longleftrightarrow>
     (\<exists>ma mi pa pre bld. parse s part = Inr (ma, mi, pa, pre, bld)
        \<and> v = \<lparr>v_major = ma, v_minor = mi, v_patch = pa, v_prerelease = pre, v_build = bld,
              v_partial = part\<rparr>)"
  by (auto simp: version_init_def bindR_eq_Inr)

lemma version_of_string_wf: "version_of_string s part = Inr v \<Longrightarrow> wf_version v \<and> v_partial v = part"
  unfolding version_init_string using parse_wf by fastforce

section \<open>Printing and reading back\<close>

definition num_group :: "int option \<Rightarrow> string option" where
  "num_group m = map_option (\<lambda>i. str_of_nat (nat i)) m"

definition pre_group :: "version \<Rightarrow> string option" where
  "pre_group v =
     (if truthy (v_prerelease v) \<or> (v_partial v \<and> v_prerelease v = Some [] \<and> v_build v = None)
      then Some (join_with ''.'' (the (v_prerelease v))) else None)"

definition build_group :: "version \<Rightarrow> string option" where
  "build_group v =
     (if truthy (v_build v) \<or> (v_partial v \<and> v_build v = Some [])
      then Some (join_with ''.'' (the (v_build v))) else None)"

lemma tagged_if: "tagged x (if c then Some t else None) = (if c then x # t else [])"
  by simp

lemma tagged_num:
  "nonneg_opt m \<Longrightarrow>
     (case m of None \<Rightarrow> [] | Some i \<Rightarrow> CHR ''.'' # str_of_int i) = tagged (CHR ''.'') (num_group m)"
  by (cases m) (simp_all add: nonneg_opt_def num_group_def str_of_int_def)

lemma version_str_groups:
  "wf_version v \<Longrightarrow>
     version_str v = str_of_nat (nat (v_major v)) @ tagged (CHR ''.'') (num_group (v_minor v))
       @ tagged (CHR ''.'') (num_group (v_patch v)) @ tagged (CHR ''-'') (pre_group v)
       @ tagged (CHR ''+'') (build_group v)"
  unfolding version_str_def pre_group_def build_group_def tagged_if
  by (simp add: wf_version_def tagged_num str_of_int_def)

lemma group_ok:
  assumes "wf_version v"
  shows "tag_group (v_partial v) (pre_group v)" "tag_group (v_partial v) (build_group v)"
proof -
  have *: "tag_group (v_partial v) (Some (join_with ''.'' ps))"
    if "list_all (ident_ok a) ps" "ps \<noteq> [] \<or> v_partial v" for a ps
    using that join_ident [of a ps] join_not_Nil [of a ps] by auto
  show "tag_group (v_partial v) (pre_group v)"
    unfolding pre_group_def using assms
    by (auto simp: wf_version_def tags_ok_def intro!: * [of False] simp del: tag_group_simps(2))
  show "tag_group (v_partial v) (build_group v)"
    unfolding build_group_def using assms
    by (auto simp: wf_version_def tags_ok_def intro!: * [of True] simp del: tag_group_simps(2))
qed

lemma version_match:
  assumes wf: "wf_version v" and nl: "final_nl nl"
  shows "(if v_partial v then partial_version_re (version_str v @ nl) else version_re (version_str v @ nl))
           = Some (str_of_nat (nat (v_major v)), num_group (v_minor v), num_group (v_patch v),
                   pre_group v, build_group v)"
proof (cases "v_partial v")
  case True
  have "partial_version_re (str_of_nat (nat (v_major v)) @ tagged (CHR ''.'') (num_group (v_minor v))
       @ tagged (CHR ''.'') (num_group (v_patch v)) @ tagged (CHR ''-'') (pre_group v)
       @ tagged (CHR ''+'') (build_group v) @ nl)
         = Some (str_of_nat (nat (v_major v)), num_group (v_minor v), num_group (v_patch v),
                   pre_group v, build_group v)"
    by (rule partial_version_re_match)
       (use group_ok [OF wf] True wf nl in \<open>auto simp: num_group_def wf_version_def\<close>)
  with True wf show ?thesis by (simp add: version_str_groups)
next
  case False
  with wf obtain mi pa where "v_minor v = Some mi" "v_patch v = Some pa" by (auto simp: wf_version_def)
  with False wf nl group_ok [OF wf] show ?thesis
    by (auto simp: version_str_groups version_re_iff num_group_def)
qed

lemma coerce_num_group:
  "nonneg_opt m \<Longrightarrow> m \<noteq> None \<or> a \<Longrightarrow> coerce_group (num_group m) a = Inr m"
  by (cases m) (auto simp: coerce_group_def num_group_def nonneg_opt_def)

lemma num_group_no_zero [simp]: "\<not> has_leading_zero (num_group m)"
  by (cases m) (simp_all add: has_leading_zero_def num_group_def)

lemma parse_tags_groups:
  assumes "wf_version v"
  shows "v_prerelease v = Some p \<Longrightarrow> parse_tags (pre_group v) False = Inr p"
    and "v_build v = Some b \<Longrightarrow> parse_tags (build_group v) True = Inr b"
proof -
  have empty: "parse_tags None a = Inr []" "parse_tags (Some []) a = Inr []" for a
    by (simp_all add: parse_tags_def)
  show "parse_tags (pre_group v) False = Inr p" if "v_prerelease v = Some p"
    using assms that parse_tags_join [of False p] empty
    by (cases "p = []") (auto simp: pre_group_def wf_version_def tags_ok_def)
  show "parse_tags (build_group v) True = Inr b" if "v_build v = Some b"
    using assms that parse_tags_join [of True b] empty
    by (cases "b = []") (auto simp: build_group_def wf_version_def tags_ok_def)
qed

lemma version_str_not_Nil: "wf_version v \<Longrightarrow> version_str v \<noteq> []"
  by (simp add: version_str_groups)

lemma parse_version_str:
  assumes wf: "wf_version v" and nl: "final_nl nl"
  shows "parse (version_str v @ nl) (v_partial v)
           = Inr (v_major v, v_minor v, v_patch v, v_prerelease v, v_build v)"
proof -
  have co: "coerce_group (num_group (v_minor v)) (v_partial v) = Inr (v_minor v)"
    "coerce_group (num_group (v_patch v)) (v_partial v) = Inr (v_patch v)"
    using wf by (auto intro!: coerce_num_group simp: wf_version_def)
  have ma: "int (nat (v_major v)) = v_major v" using wf by (simp add: wf_version_def)
  have ze: "\<not> has_leading_zero (Some (str_of_nat (nat (v_major v))))"
    by (simp add: has_leading_zero_def)
  have none: "pre_group v = None \<and> v_partial v \<and> build_group v = None \<longleftrightarrow>
      v_partial v \<and> v_prerelease v = None"
    "build_group v = None \<and> v_partial v \<longleftrightarrow> v_partial v \<and> v_build v = None"
    using wf by (auto simp: pre_group_def build_group_def wf_version_def)
  show ?thesis
    unfolding parse_def version_match [OF wf nl]
    using version_str_not_Nil [OF wf] co ma ze none wf parse_tags_groups [OF wf]
    by (cases "v_prerelease v"; cases "v_build v") (auto simp: wf_version_def)
qed

lemma version_of_version_str:
  "wf_version v \<Longrightarrow> final_nl nl \<Longrightarrow> version_of_string (version_str v @ nl) (v_partial v) = Inr v"
  by (simp add: version_init_def parse_version_str)

text \<open>A complete version is printed by exactly one text, up to the newline that \<open>$\<close> lets through.\<close>

lemma parse_canonical:
  assumes p: "parse s False = Inr (ma, mi, pa, pre, bld)"
    and v: "v = \<lparr>v_major = ma, v_minor = mi, v_patch = pa, v_prerelease = pre, v_build = bld,
                 v_partial = False\<rparr>"
  shows "\<exists>nl. final_nl nl \<and> s = version_str v @ nl"
proof -
  have wf: "wf_version v" using parse_wf [OF p] v by simp
  from p obtain ma' mio pao g h p' b' where
    m: "version_re s = Some (ma', mio, pao, g, h)"
    and z: "\<not> leading_zero ma'" "\<not> has_leading_zero mio" "\<not> has_leading_zero pao"
    and num: "ma = int (nat_of_digits ma')" "coerce_group mio False = Inr mi"
      "coerce_group pao False = Inr pa"
    and tags: "parse_tags g False = Inr p'" "parse_tags h True = Inr b'" "pre = Some p'" "bld = Some b'"
    by (simp add: parse_def has_leading_zero_def [of "Some _"] split: if_splits option.splits prod.splits)
       (auto simp: bindR_eq_Inr split: if_splits)
  from m obtain mi' pa' nl where s: "s = ma' @ CHR ''.'' # mi' @ CHR ''.'' # pa'
      @ tagged (CHR ''-'') g @ tagged (CHR ''+'') h @ nl" "final_nl nl"
    and d: "isdigit ma'" "isdigit mi'" "isdigit pa'" and tg: "tag_group False g" "tag_group False h"
    and mp: "mio = Some mi'" "pao = Some pa'"
    by (auto simp: version_re_iff)
  have z2: "\<not> leading_zero mi'" "\<not> leading_zero pa'" and
    num2: "mi = Some (int (nat_of_digits mi'))" "pa = Some (int (nat_of_digits pa'))"
    using z num mp by (auto simp: has_leading_zero_def coerce_group_def)
  have rejoin: "(if ps = [] then None else Some (join_with ''.'' ps)) = g'"
    if "parse_tags g' a = Inr ps" "tag_group False g'" for g' a ps
    using that by (cases g') (auto simp: parse_tags_def bindR_eq_Inr split: if_splits)
  have "pre_group v = g" "build_group v = h"
    using rejoin [OF tags(1) tg(1)] rejoin [OF tags(2) tg(2)] tags v
    by (auto simp: pre_group_def build_group_def)
  then show ?thesis
    using s wf v num num2 d z z2 by (auto simp: version_str_groups num_group_def str_of_nat_of_digits)
qed

lemma version_text_iff:
  "version_of_string s False = Inr v \<longleftrightarrow>
     wf_version v \<and> \<not> v_partial v \<and> (s = version_str v \<or> s = version_str v @ [newline])"
proof
  assume v: "version_of_string s False = Inr v"
  then have "\<exists>nl. final_nl nl \<and> s = version_str v @ nl"
    unfolding version_init_string using parse_canonical by blast
  with version_of_string_wf [OF v]
  show "wf_version v \<and> \<not> v_partial v \<and> (s = version_str v \<or> s = version_str v @ [newline])"
    by (auto simp: final_nl_def)
next
  assume "wf_version v \<and> \<not> v_partial v \<and> (s = version_str v \<or> s = version_str v @ [newline])"
  then show "version_of_string s False = Inr v"
    using version_of_version_str [of v "[]"] version_of_version_str [of v "[newline]"]
    by (auto simp: final_nl_def)
qed

section \<open>coerce\<close>

lemma strip_zeros_str [simp]: "strip_zeros (str_of_nat n) = str_of_nat n"
proof (cases "n = 0")
  case False
  then have "hd (str_of_nat n) \<noteq> CHR ''0''" by (rule str_of_nat_hd)
  then show ?thesis
    by (cases "str_of_nat n") (simp_all add: strip_zeros_def lstrip_while_def)
qed (simp add: strip_zeros_def lstrip_while_def)

lemma clean_ident: "list_all ident_char t \<Longrightarrow> map clean_char t = t"
  by (induction t) (auto simp: clean_char_def)

lemma no_plus: "list_all ident_char t \<Longrightarrow> CHR ''+'' \<notin> set t"
  by (auto simp: list_all_iff)

lemma dot_plus_id: "CHR ''+'' \<notin> set t \<Longrightarrow> map (\<lambda>c. if c = CHR ''+'' then CHR ''.'' else c) t = t"
  by (induction t) auto

lemma split_plus_tagged:
  assumes "list_all ident_char t"
  shows "split_plus (t @ tagged (CHR ''+'') h) = (t, case h of None \<Rightarrow> [] | Some u \<Rightarrow> u)"
proof -
  have t: "\<forall>c\<in>set t. c \<noteq> CHR ''+''" using no_plus [OF assms] by auto
  show ?thesis
  proof (cases h)
    case None
    with t show ?thesis by (simp add: split_plus_def dropWhile_eq_Nil_conv [THEN iffD2])
  next
    case (Some u)
    with span_unique [OF t, of "tagged (CHR ''+'') h"] show ?thesis by (simp add: split_plus_def)
  qed
qed

lemma coerce_version_str:
  assumes wf: "wf_version v" and np: "\<not> v_partial v"
  shows "coerce (version_str v) False = Inr v"
proof -
  obtain mi pa where mp: "v_minor v = Some mi" "v_patch v = Some pa"
    using wf np by (auto simp: wf_version_def)
  let ?ma = "str_of_nat (nat (v_major v))" and ?mi = "str_of_nat (nat mi)" and ?pa = "str_of_nat (nat pa)"
  let ?rest = "tagged (CHR ''-'') (pre_group v) @ tagged (CHR ''+'') (build_group v)"
  let ?num = "?ma @ CHR ''.'' # ?mi @ CHR ''.'' # ?pa"
  have str: "version_str v = ?num @ ?rest"
    unfolding version_str_groups [OF wf] using mp by (simp add: num_group_def)
  have hd: "?rest = [] \<or> (\<not> is_digit (hd ?rest) \<and> hd ?rest \<noteq> CHR ''.'')"
    using tail_hd [of "[]" ?rest "pre_group v" "build_group v"] by (simp add: final_nl_def)
  have "re_dot_digits (CHR ''.'' # ?pa @ ?rest) = Some (?pa, ?rest)"
    using hd by (auto simp: re_dot_digits_Some)
  moreover have "re_dot_digits (CHR ''.'' # ?mi @ CHR ''.'' # ?pa @ ?rest)
      = Some (?mi, CHR ''.'' # ?pa @ ?rest)"
    by (auto simp: re_dot_digits_Some)
  moreover have "re_digits (version_str v) = Some (?ma, CHR ''.'' # ?mi @ CHR ''.'' # ?pa @ ?rest)"
    unfolding str by (auto simp: re_digits_Some)
  ultimately have base: "base_re (version_str v) = Some ([?ma, ?mi, ?pa], ?rest)"
    by (simp add: base_re_def)
  have ver: "join_with ''.'' (map strip_zeros [?ma, ?mi, ?pa]) = ?num" by simp
  have again: "version_of_string (?num @ ?rest) False = Inr v"
    unfolding str [symmetric] using wf np by (simp add: version_text_iff)
  note ok = group_ok [OF wf]
  have rest_ident: "map clean_char ?rest = ?rest"
    using ok np by (cases "pre_group v"; cases "build_group v")
      (simp_all add: clean_ident clean_char_def ident_char_def [of "CHR ''-''"])
  show ?thesis
  proof (cases "pre_group v")
    case None
    then show ?thesis
      using base again ver ok np rest_ident no_plus
      by (cases "build_group v") (simp_all add: coerce_def Let_def dot_plus_id)
  next
    case (Some t)
    with ok np have t: "list_all ident_char t" "t \<noteq> []" by auto
    with Some show ?thesis
      using base again ver ok np rest_ident no_plus
        split_plus_tagged [OF t(1), of None] split_plus_tagged [OF t(1), of "Some _"]
      by (cases "build_group v") (simp_all add: coerce_def Let_def dot_plus_id)
  qed
qed

section \<open>The order of precedence\<close>

text \<open>
  The interface of a class that compares through a key: the comparisons of valid objects do not
  raise and decide the linear order of the keys.
\<close>

locale keyed_order =
  fixes key :: "'v \<Rightarrow> 'k::linorder"
    and valid :: "'v \<Rightarrow> bool"
    and lt :: "'v \<Rightarrow> 'v \<Rightarrow> bool res"
    and gt :: "'v \<Rightarrow> 'v \<Rightarrow> bool res"
  assumes lt_key: "valid a \<Longrightarrow> valid b \<Longrightarrow> lt a b = Inr (key a < key b)"
    and gt_key: "valid a \<Longrightarrow> valid b \<Longrightarrow> gt a b = Inr (key b < key a)"
begin

lemma lt_trans:
  "valid a \<Longrightarrow> valid b \<Longrightarrow> valid c \<Longrightarrow> lt a b = Inr True \<Longrightarrow> lt b c = Inr True \<Longrightarrow> lt a c = Inr True"
  by (auto simp: lt_key)

lemma lt_gt: "valid a \<Longrightarrow> valid b \<Longrightarrow> gt a b = lt b a"
  by (simp add: lt_key gt_key)

lemma lt_asym: "valid a \<Longrightarrow> valid b \<Longrightarrow> lt a b = Inr True \<Longrightarrow> lt b a = Inr False"
  by (auto simp: lt_key)

lemma incomparable_iff:
  "valid a \<Longrightarrow> valid b \<Longrightarrow> lt a b = Inr False \<and> gt a b = Inr False \<longleftrightarrow> key a = key b"
  by (auto simp: lt_key gt_key)

end

text \<open>The precedence of a complete version as one linearly ordered tuple.\<close>

definition full_version :: "version \<Rightarrow> bool" where
  "full_version v \<longleftrightarrow> v_minor v \<noteq> None \<and> v_patch v \<noteq> None"

definition prec_tuple :: "version \<Rightarrow> int \<times> int \<times> int \<times> prec_ident list" where
  "prec_tuple v = (v_major v, the (v_minor v), the (v_patch v),
     (if truthy (v_prerelease v) then map ident_key (the (v_prerelease v)) else [MaxIdentifier]))"

interpretation precedence: keyed_order prec_tuple full_version version_lt version_gt
  by unfold_locales
    (auto simp: full_version_def prec_tuple_def version_lt_def version_gt_def precedence_key_def)

lemma version_le_key:
  "full_version a \<Longrightarrow> full_version b \<Longrightarrow> version_le a b = Inr (prec_tuple a \<le> prec_tuple b)"
  "full_version a \<Longrightarrow> full_version b \<Longrightarrow> version_ge a b = Inr (prec_tuple b \<le> prec_tuple a)"
  by (auto simp: full_version_def prec_tuple_def version_le_def version_ge_def precedence_key_def)

lemma wf_full: "wf_version v \<Longrightarrow> \<not> v_partial v \<Longrightarrow> full_version v"
  by (auto simp: wf_version_def full_version_def)

text \<open>A release ranks above every pre-release of the same number.\<close>

lemma prec_below_release:
  assumes "wf_version v" and "truthy (v_prerelease v)"
  shows "map ident_key (the (v_prerelease v)) < [MaxIdentifier]"
proof -
  obtain p ps where "v_prerelease v = Some (p # ps)"
    using assms(2) by (cases "v_prerelease v"; cases "the (v_prerelease v)") auto
  moreover have "ident_key p < MaxIdentifier" by (simp add: ident_key_def less_prec_ident_def)
  ultimately show ?thesis by simp
qed

section \<open>The next versions\<close>

definition release :: "int \<Rightarrow> int \<Rightarrow> int \<Rightarrow> version" where
  "release ma mi pa = \<lparr>v_major = ma, v_minor = Some mi, v_patch = Some pa, v_prerelease = Some [],
     v_build = Some [], v_partial = False\<rparr>"

lemma version_of_parts_release:
  "version_of_parts ma (Some mi) (Some pa) None False = Inr (release ma mi pa)"
  by (simp add: version_init_def validate_kwargs_def coerce_int_def release_def Let_def)

lemma full_release [simp]: "full_version (release ma mi pa)"
  by (simp add: full_version_def release_def)

lemma prec_release [simp]: "prec_tuple (release ma mi pa) = (ma, mi, pa, [MaxIdentifier])"
  by (simp add: prec_tuple_def release_def)

lemma ident_keys_not_Max: "map ident_key ps \<noteq> [MaxIdentifier]"
  by (cases ps) (auto simp: ident_key_def)

lemma next_steps:
  assumes v: "wf_version v" "\<not> v_partial v"
  shows "\<exists>ma. next_major v = Inr (release ma 0 0) \<and> prec_tuple v < prec_tuple (release ma 0 0)
           \<and> (\<forall>x. prec_tuple v < prec_tuple (release x 0 0) \<longrightarrow> ma \<le> x)" (is ?A)
    and "\<exists>mi. next_minor v = Inr (release (v_major v) mi 0)
           \<and> prec_tuple v < prec_tuple (release (v_major v) mi 0)
           \<and> (\<forall>x y. prec_tuple v < prec_tuple (release x y 0) \<longrightarrow>
                 prec_tuple (release (v_major v) mi 0) \<le> prec_tuple (release x y 0))" (is ?B)
    and "\<exists>pa. next_patch v = Inr (release (v_major v) (the (v_minor v)) pa)
           \<and> prec_tuple v < prec_tuple (release (v_major v) (the (v_minor v)) pa)
           \<and> (\<forall>x y z. prec_tuple v < prec_tuple (release x y z) \<longrightarrow>
                 prec_tuple (release (v_major v) (the (v_minor v)) pa) \<le> prec_tuple (release x y z))" (is ?C)
proof -
  obtain mi pa pre where p: "v_minor v = Some mi" "v_patch v = Some pa" "v_prerelease v = Some pre"
    "0 \<le> mi" "0 \<le> pa"
    using v by (auto simp: wf_version_def nonneg_opt_def)
  have below: "pre \<noteq> [] \<Longrightarrow> map ident_key pre < [MaxIdentifier]"
    using prec_below_release [OF v(1)] p by simp
  have np: "v_partial v = False" using v by simp
  show ?A
    using p below np ident_keys_not_Max [of pre]
    by (cases "pre \<noteq> [] \<and> mi = 0 \<and> pa = 0")
       (auto simp: next_major_def version_of_parts_release prec_tuple_def [of v] less_le_not_le)
  show ?B
    using p below np ident_keys_not_Max [of pre]
    by (cases "pre \<noteq> [] \<and> pa = 0")
       (auto simp: next_minor_def version_of_parts_release prec_tuple_def [of v] less_le_not_le)
  show ?C
    using p below np ident_keys_not_Max [of pre]
    by (cases "pre \<noteq> []")
       (auto simp: next_patch_def version_of_parts_release prec_tuple_def [of v] less_le_not_le)
qed

section \<open>Properties\<close>

text \<open>The texts that \<open>Version(s)\<close> accepts and the versions they give correspond exactly:
  \<open>Version(s)\<close> is \<open>v\<close> if and only if \<open>v\<close> is a well-formed complete version and \<open>s\<close> is
  \<open>str(v)\<close>, or \<open>str(v)\<close> followed by one newline, which the \<open>$\<close> of the regular expression lets
  through. Printing and reading back is the identity, and two texts without a newline that give
  the same version are equal.\<close>

theorem version_text_exact:
  "version_of_string s False = Inr v \<longleftrightarrow>
     wf_version v \<and> \<not> v_partial v \<and> (s = version_str v \<or> s = version_str v @ [newline])"
  by (rule version_text_iff)

text \<open>Whatever \<open>Version(s, partial)\<close> returns, partial versions included, prints as a text that
  reads back as the same version.\<close>

theorem version_roundtrip:
  assumes "version_of_string s part = Inr v"
  shows "version_of_string (version_str v) part = Inr v"
  using version_of_string_wf [OF assms] version_of_version_str [of v "[]"] by (auto simp: final_nl_def)

lemma version_roundtrip_witness:
  "\<exists>v. version_of_string ''1.2-rc.1+'' True = Inr v \<and> version_str v = ''1.2-rc.1+''
     \<and> version_of_string (version_str v) True = Inr v"
proof -
  have "holdsR (version_of_string ''1.2-rc.1+'' True) (\<lambda>v. version_str v = ''1.2-rc.1+'')"
    by code_simp
  then show ?thesis unfolding holdsR_iff using version_roundtrip by blast
qed

text \<open>C1: On versions read from text the comparisons never raise and order by precedence: exactly one
  of \<open>a < b\<close>, \<open>a > b\<close> and equal precedence keys holds, \<open><=\<close> and \<open>>=\<close> are the negations
  of \<open>>\<close> and \<open><\<close>, and \<open><\<close> is transitive.\<close>

theorem version_precedence_order:
  assumes "version_of_string s False = Inr a" and "version_of_string t False = Inr b"
    and "version_of_string u False = Inr c"
  shows "(version_lt a b = Inr True \<and> version_gt a b = Inr False \<and> precedence_key a \<noteq> precedence_key b
          \<or> version_lt a b = Inr False \<and> version_gt a b = Inr True \<and> precedence_key a \<noteq> precedence_key b
          \<or> version_lt a b = Inr False \<and> version_gt a b = Inr False \<and> precedence_key a = precedence_key b)
    \<and> version_le a b = map_sum id Not (version_gt a b)
    \<and> version_ge a b = map_sum id Not (version_lt a b)
    \<and> (version_lt a b = Inr True \<longrightarrow> version_lt b c = Inr True \<longrightarrow> version_lt a c = Inr True)"
proof -
  have f: "full_version a" "full_version b" "full_version c"
    using assms wf_full version_of_string_wf by blast+
  then have "prec_tuple a = prec_tuple b \<longleftrightarrow> precedence_key a = precedence_key b"
    by (auto simp: prec_tuple_def precedence_key_def full_version_def)
  then show ?thesis
    using precedence.lt_trans [OF f] precedence.lt_key [OF f(1,2)] precedence.gt_key [OF f(1,2)]
      version_le_key [OF f(1,2)]
    by (auto simp: not_less)
qed

lemma version_precedence_order_witness:
  "\<exists>a b c. version_of_string ''1.0.0-alpha.1'' False = Inr a
     \<and> version_of_string ''1.0.0-alpha.beta'' False = Inr b \<and> version_of_string ''1.0.0'' False = Inr c
     \<and> version_lt a b = Inr True \<and> version_lt b c = Inr True \<and> version_lt a c = Inr True"
proof -
  have "holdsR (version_of_string ''1.0.0-alpha.1'' False) (\<lambda>a.
     holdsR (version_of_string ''1.0.0-alpha.beta'' False) (\<lambda>b.
     holdsR (version_of_string ''1.0.0'' False) (\<lambda>c.
       version_lt a b = Inr True \<and> version_lt b c = Inr True)))"
    by code_simp
  then obtain a b c where h: "version_of_string ''1.0.0-alpha.1'' False = Inr a"
    "version_of_string ''1.0.0-alpha.beta'' False = Inr b" "version_of_string ''1.0.0'' False = Inr c"
    "version_lt a b = Inr True" "version_lt b c = Inr True"
    unfolding holdsR_iff by blast
  with version_precedence_order [OF h(1-3)] show ?thesis by blast
qed

text \<open>\<open>next_major\<close>, \<open>next_minor\<close> and \<open>next_patch\<close> of a version read from text give the least
  release of the form \<open>X.0.0\<close>, \<open>X.Y.0\<close> and \<open>X.Y.Z\<close> above it: the result is greater, and no
  release of that form lies strictly between. So a pre-release is finished, not skipped.\<close>

theorem next_version_least:
  assumes "version_of_string s False = Inr v"
  shows "\<exists>ma mi pa.
     next_major v = Inr (release ma 0 0)
     \<and> next_minor v = Inr (release (v_major v) mi 0)
     \<and> next_patch v = Inr (release (v_major v) (the (v_minor v)) pa)
     \<and> version_lt v (release ma 0 0) = Inr True
     \<and> version_lt v (release (v_major v) mi 0) = Inr True
     \<and> version_lt v (release (v_major v) (the (v_minor v)) pa) = Inr True
     \<and> (\<forall>x. version_lt v (release x 0 0) = Inr True \<longrightarrow> version_le (release ma 0 0) (release x 0 0) = Inr True)
     \<and> (\<forall>x y. version_lt v (release x y 0) = Inr True \<longrightarrow>
            version_le (release (v_major v) mi 0) (release x y 0) = Inr True)
     \<and> (\<forall>x y z. version_lt v (release x y z) = Inr True \<longrightarrow>
            version_le (release (v_major v) (the (v_minor v)) pa) (release x y z) = Inr True)"
proof -
  have wf: "wf_version v" "\<not> v_partial v" using version_of_string_wf [OF assms] by auto
  note f = wf_full [OF wf]
  show ?thesis
    using next_steps [OF wf]
    by (simp add: precedence.lt_key f version_le_key less_eq_prod_simp) blast
qed

lemma next_version_least_witness:
  "\<exists>v. version_of_string ''1.2.0-rc.1'' False = Inr v \<and> next_minor v = Inr (release 1 2 0)
     \<and> version_lt v (release 1 2 0) = Inr True"
proof -
  have "holdsR (version_of_string ''1.2.0-rc.1'' False)
     (\<lambda>v. next_minor v = Inr (release 1 2 0) \<and> v_major v = 1)"
    by code_simp
  then obtain v where v: "version_of_string ''1.2.0-rc.1'' False = Inr v"
    "next_minor v = Inr (release 1 2 0)" "v_major v = 1"
    unfolding holdsR_iff by blast
  with next_version_least [OF v(1)] show ?thesis by auto
qed

text \<open>\<open>coerce\<close> leaves every text that is already a valid version (without a trailing newline)
  unchanged: it gives the version that \<open>Version(s)\<close> gives.\<close>

theorem coerce_valid:
  assumes "version_of_string s False = Inr v" and "last s \<noteq> newline"
  shows "coerce s False = Inr v"
  using assms version_text_iff [of s v] coerce_version_str [of v] by auto

lemma coerce_valid_witness:
  "\<exists>v. version_of_string ''1.2.3-rc.1+b-2'' False = Inr v \<and> coerce ''1.2.3-rc.1+b-2'' False = Inr v"
proof -
  have "holdsR (version_of_string ''1.2.3-rc.1+b-2'' False) (\<lambda>v. True)" by code_simp
  then have "\<exists>v. version_of_string ''1.2.3-rc.1+b-2'' False = Inr v" unfolding holdsR_iff by blast
  moreover have "last ''1.2.3-rc.1+b-2'' \<noteq> newline" by (simp add: newline_def)
  ultimately show ?thesis using coerce_valid by blast
qed

text \<open>On complete versions \<open>!=\<close> is the negation of \<open>==\<close>; on partial versions it is not:
  \<open>Version('1', partial=True)\<close> and \<open>Version('1+', partial=True)\<close> are both equal and unequal.\<close>

theorem version_eq_ne:
  "(\<forall>s t. \<forall>a b. version_of_string s False = Inr a \<longrightarrow> version_of_string t False = Inr b \<longrightarrow>
      version_ne a b = (\<not> version_eq a b))
   \<and> (\<exists>a b. version_of_string ''1'' True = Inr a \<and> version_of_string ''1+'' True = Inr b
        \<and> version_eq a b \<and> version_ne a b)"
proof
  show "\<exists>a b. version_of_string ''1'' True = Inr a \<and> version_of_string ''1+'' True = Inr b
        \<and> version_eq a b \<and> version_ne a b"
  proof -
    have "holdsR (version_of_string ''1'' True) (\<lambda>a. holdsR (version_of_string ''1+'' True) (\<lambda>b.
        version_eq a b \<and> version_ne a b))" by code_simp
    then show ?thesis unfolding holdsR_iff by blast
  qed
  have "version_ne a b = (\<not> version_eq a b)"
    if "version_of_string s False = Inr a" "version_of_string t False = Inr b" for s t a b
    using version_of_string_wf [OF that(1)] version_of_string_wf [OF that(2)]
    by (auto simp: version_ne_def version_eq_def version_tuple_def wf_version_def or_empty_def)
  then show "\<forall>s t. \<forall>a b. version_of_string s False = Inr a \<longrightarrow> version_of_string t False = Inr b \<longrightarrow>
      version_ne a b = (\<not> version_eq a b)" by blast
qed

lemma version_eq_ne_witness:
  "\<exists>a b. version_of_string ''1.0.0'' False = Inr a \<and> version_of_string ''1.0.0+x'' False = Inr b
     \<and> version_ne a b \<and> \<not> version_eq a b"
proof -
  have "holdsR (version_of_string ''1.0.0'' False) (\<lambda>a.
     holdsR (version_of_string ''1.0.0+x'' False) (\<lambda>b. version_ne a b))" by code_simp
  then show ?thesis unfolding holdsR_iff using version_eq_ne by blast
qed

end
