(* ===== verification/WsFrame.thy ===== *)
theory WsFrame
  imports Prelude "HOL-Library.Word"
begin

text \<open>
  \<open>src/websocket_server.py\<close>, the wire format: the frames that \<open>send_text\<close> and \<open>send_close\<close> write
  and the frames that \<open>read_next_message\<close> reads, in the message loop of \<open>handle\<close>. Bytes are \<open>8 word\<close>; a \<open>str\<close> is its list of code
  points, with the UTF-8 codec of the standard library spelled out.
\<close>

unbundle bit_operations_syntax

type_synonym u8 = "8 word"
type_synonym bytes = "u8 list"
type_synonym ustr = "nat list"

section \<open>The UTF-8 codec\<close>

definition is_surrogate :: "nat \<Rightarrow> bool" where
  "is_surrogate cp \<longleftrightarrow> 0xD800 \<le> cp \<and> cp \<le> 0xDFFF"

definition is_scalar :: "nat \<Rightarrow> bool" where
  "is_scalar cp \<longleftrightarrow> cp \<le> 0x10FFFF \<and> \<not> is_surrogate cp"

definition utf8_char :: "nat \<Rightarrow> nat list" where
  "utf8_char cp =
     (if cp < 0x80 then [cp]
      else if cp < 0x800 then [192 + cp div 64, 128 + cp mod 64]
      else if cp < 0x10000 then [224 + cp div 4096, 128 + cp div 64 mod 64, 128 + cp mod 64]
      else [240 + cp div 262144, 128 + cp div 4096 mod 64, 128 + cp div 64 mod 64, 128 + cp mod 64])"

text \<open>\<open>str.encode('utf-8')\<close>: a lone surrogate raises \<open>UnicodeEncodeError\<close>.\<close>

definition utf8_encode :: "ustr \<Rightarrow> bytes res" where
  "utf8_encode s =
     (if list_all is_scalar s then Inr (map of_nat (concat (map utf8_char s))) else Inl UnicodeEncodeError)"

definition cont_byte :: "nat \<Rightarrow> bool" where
  "cont_byte b \<longleftrightarrow> 128 \<le> b \<and> b < 192"

text \<open>\<open>bytes.decode('utf-8')\<close>, strict: no overlong forms, surrogates or values past the last plane.\<close>

fun utf8_dec :: "nat list \<Rightarrow> nat list option" where
  "utf8_dec [] = Some []"
| "utf8_dec (a # s) =
     (if a < 128 then map_option ((#) a) (utf8_dec s)
      else if 194 \<le> a \<and> a < 224 then
        (case s of b # s' \<Rightarrow>
           if cont_byte b then map_option ((#) ((a - 192) * 64 + (b - 128))) (utf8_dec s') else None
         | _ \<Rightarrow> None)
      else if 224 \<le> a \<and> a < 240 then
        (case s of b # c # s' \<Rightarrow>
           (let cp = (a - 224) * 4096 + (b - 128) * 64 + (c - 128)
            in if cont_byte b \<and> cont_byte c \<and> 0x800 \<le> cp \<and> \<not> is_surrogate cp
               then map_option ((#) cp) (utf8_dec s') else None)
         | _ \<Rightarrow> None)
      else if 240 \<le> a \<and> a < 245 then
        (case s of b # c # d # s' \<Rightarrow>
           (let cp = (a - 240) * 262144 + (b - 128) * 4096 + (c - 128) * 64 + (d - 128)
            in if cont_byte b \<and> cont_byte c \<and> cont_byte d \<and> 0x10000 \<le> cp \<and> cp \<le> 0x10FFFF
               then map_option ((#) cp) (utf8_dec s') else None)
         | _ \<Rightarrow> None)
      else None)"

definition utf8_decode :: "bytes \<Rightarrow> ustr res" where
  "utf8_decode bs = (case utf8_dec (map unat bs) of None \<Rightarrow> Inl UnicodeDecodeError | Some s \<Rightarrow> Inr s)"

section \<open>Big-endian integers: \<open>struct.pack('>H')\<close>, \<open>struct.pack('>Q')\<close>\<close>

fun be_bytes :: "nat \<Rightarrow> nat \<Rightarrow> bytes" where
  "be_bytes 0 n = []"
| "be_bytes (Suc k) n = be_bytes k (n div 256) @ [of_nat (n mod 256)]"

definition be_nat :: "bytes \<Rightarrow> nat" where
  "be_nat bs = foldl (\<lambda>n b. n * 256 + unat b) 0 bs"

text \<open>\<open>struct.unpack\<close> of a format of \<open>k\<close> bytes raises \<open>struct.error\<close> on any other length.\<close>

definition unpack_be :: "nat \<Rightarrow> bytes \<Rightarrow> nat res" where
  "unpack_be k bs = (if length bs = k then Inr (be_nat bs) else Inl StructError)"

section \<open>Constants\<close>

definition FIN :: u8 where "FIN = 0x80"
definition OPCODE :: u8 where "OPCODE = 0x0f"
definition MASKED :: u8 where "MASKED = 0x80"
definition PAYLOAD_LEN :: u8 where "PAYLOAD_LEN = 0x7f"
definition PAYLOAD_LEN_EXT16 :: u8 where "PAYLOAD_LEN_EXT16 = 0x7e"
definition PAYLOAD_LEN_EXT64 :: u8 where "PAYLOAD_LEN_EXT64 = 0x7f"

definition OPCODE_CONTINUATION :: u8 where "OPCODE_CONTINUATION = 0x0"
definition OPCODE_TEXT :: u8 where "OPCODE_TEXT = 0x1"
definition OPCODE_BINARY :: u8 where "OPCODE_BINARY = 0x2"
definition OPCODE_CLOSE_CONN :: u8 where "OPCODE_CLOSE_CONN = 0x8"
definition OPCODE_PING :: u8 where "OPCODE_PING = 0x9"
definition OPCODE_PONG :: u8 where "OPCODE_PONG = 0xA"

definition CLOSE_STATUS_NORMAL :: int where "CLOSE_STATUS_NORMAL = 1000"
definition DEFAULT_CLOSE_REASON :: bytes where "DEFAULT_CLOSE_REASON = []"

lemmas ws_consts =
  FIN_def OPCODE_def MASKED_def PAYLOAD_LEN_def PAYLOAD_LEN_EXT16_def PAYLOAD_LEN_EXT64_def
  OPCODE_CONTINUATION_def OPCODE_TEXT_def OPCODE_BINARY_def OPCODE_CLOSE_CONN_def OPCODE_PING_def
  OPCODE_PONG_def

section \<open>Sending\<close>

text \<open>
  The argument of \<open>send_text\<close>: \<open>bytes\<close>, \<open>str\<close> or anything else. The result is \<open>None\<close> where the
  method returns \<open>False\<close> without sending, and otherwise the bytes given to \<open>request.send\<close>.
\<close>

datatype message = Bytes bytes | Str ustr | OtherObject

text \<open>\<open>try_decode_UTF8\<close> and \<open>encode_to_UTF8\<close> return \<open>False\<close> (here \<open>None\<close>) for the Unicode errors.\<close>

definition try_decode_UTF8 :: "bytes \<Rightarrow> ustr option" where
  "try_decode_UTF8 data = (case utf8_decode data of Inl _ \<Rightarrow> None | Inr s \<Rightarrow> Some s)"

definition encode_to_UTF8 :: "ustr \<Rightarrow> bytes option" where
  "encode_to_UTF8 data = (case utf8_encode data of Inl _ \<Rightarrow> None | Inr b \<Rightarrow> Some b)"

definition send_payload :: "ustr \<Rightarrow> u8 \<Rightarrow> bytes option res" where
  "send_payload s opcode =
     (case encode_to_UTF8 s of
        None \<Rightarrow> Inl TypeError \<comment> \<open>\<open>len(False)\<close>\<close>
      | Some payload \<Rightarrow>
          (let n = length payload in
           if n \<le> 125 then Inr (Some ([FIN OR opcode, of_nat n] @ payload))
           else if n \<le> 65535
           then Inr (Some ([FIN OR opcode, PAYLOAD_LEN_EXT16] @ be_bytes 2 n @ payload))
           else if n < 18446744073709551616
           then Inr (Some ([FIN OR opcode, PAYLOAD_LEN_EXT64] @ be_bytes 8 n @ payload))
           else Inl PlainException))"

definition send_text :: "message \<Rightarrow> u8 \<Rightarrow> bytes option res" where
  "send_text m opcode =
     (case m of
        Bytes b \<Rightarrow>
          (case try_decode_UTF8 b of
             None \<Rightarrow> Inr None
           | Some s \<Rightarrow> if s = [] then Inr None else send_payload s opcode)
      | Str s \<Rightarrow> send_payload s opcode
      | OtherObject \<Rightarrow> Inr None)"

definition send_message :: "message \<Rightarrow> bytes option res" where
  "send_message m = send_text m OPCODE_TEXT"

definition send_pong :: "message \<Rightarrow> bytes option res" where
  "send_pong m = send_text m OPCODE_PONG"

definition send_close :: "int \<Rightarrow> bytes \<Rightarrow> bytes res" where
  "send_close status reason =
     (if status < CLOSE_STATUS_NORMAL \<or> status > 1015 then Inl PlainException
      else
        (let payload = be_bytes 2 (nat status) @ reason
         in if \<not> length payload \<le> 125 then Inl AssertionError
            else Inr ([FIN OR OPCODE_CLOSE_CONN, of_nat (length payload)] @ payload)))"

section \<open>Receiving\<close>

text \<open>
  The connection as the reader sees it: the bytes still to come, then the end of the stream, or a
  socket error (\<open>c_err\<close>) that a read raises which asks for more than these bytes.
\<close>

record conn =
  c_buf :: bytes
  c_err :: "int option"

definition ECONNRESET :: int where "ECONNRESET = 104"

text \<open>
  \<open>rfile.read(n)\<close> returns fewer than \<open>n\<close> bytes only at the end of the stream; a size past the
  platform's largest index (\<open>2 ^ 63 - 1\<close>) cannot be asked for.
\<close>

definition read_bytes :: "nat \<Rightarrow> conn \<Rightarrow> (bytes \<times> conn) res" where
  "read_bytes n c =
     (if n \<ge> 2 ^ 63 then Inl OverflowError
      else if n \<le> length (c_buf c) then Inr (take n (c_buf c), c\<lparr>c_buf := drop n (c_buf c)\<rparr>)
      else (case c_err c of Some e \<Rightarrow> Inl (OSError e) | None \<Rightarrow> Inr (c_buf c, c\<lparr>c_buf := []\<rparr>)))"

fun unmask :: "bytes \<Rightarrow> nat \<Rightarrow> bytes \<Rightarrow> bytes res" where
  "unmask masks i [] = Inr []"
| "unmask masks i (b # bs) =
     (if i mod 4 < length masks
      then bindR (unmask masks (Suc i) bs) (\<lambda>r. Inr ((b XOR masks ! (i mod 4)) # r))
      else Inl IndexError)"

text \<open>What one call of \<open>read_next_message\<close> does besides consuming bytes.\<close>

datatype ws_action =
    StopConn
  | IgnoreFrame
  | TextReceived ustr
  | PingReceived ustr
  | PongReceived ustr

definition read_header :: "conn \<Rightarrow> (u8 \<times> u8 \<times> conn) option res" where
  "read_header c =
     (case read_bytes 2 c of
        Inl (OSError e) \<Rightarrow> if e = ECONNRESET then Inr None else Inr (Some (0, 0, c))
      | Inl e \<Rightarrow> Inl e
      | Inr ([b1, b2], c') \<Rightarrow> Inr (Some (b1, b2, c'))
      | Inr (_, c') \<Rightarrow> Inr (Some (0, 0, c')))"

definition read_length :: "nat \<Rightarrow> conn \<Rightarrow> (nat \<times> conn) res" where
  "read_length len7 c =
     (if len7 = 126
      then bindR (read_bytes 2 c) (\<lambda>(b, c1). bindR (unpack_be 2 b) (\<lambda>n. Inr (n, c1)))
      else if len7 = 127
      then bindR (read_bytes 8 c) (\<lambda>(b, c1). bindR (unpack_be 8 b) (\<lambda>n. Inr (n, c1)))
      else Inr (len7, c))"

definition read_payload :: "u8 \<Rightarrow> conn \<Rightarrow> (ustr \<times> conn) res" where
  "read_payload b2 c =
     bindR (read_length (unat (b2 AND PAYLOAD_LEN)) c) (\<lambda>(n, c1).
     bindR (read_bytes 4 c1) (\<lambda>(masks, c2).
     bindR (read_bytes n c2) (\<lambda>(data, c3).
     bindR (unmask masks 0 data) (\<lambda>msg.
     bindR (utf8_decode msg) (\<lambda>s. Inr (s, c3))))))"

definition read_next_message :: "conn \<Rightarrow> (ws_action \<times> conn) res" where
  "read_next_message c =
     bindR (read_header c) (\<lambda>h.
       case h of None \<Rightarrow> Inr (StopConn, c)
       | Some (b1, b2, c1) \<Rightarrow>
           (let opcode = b1 AND OPCODE; masked = b2 AND MASKED in
            if opcode = OPCODE_CLOSE_CONN then Inr (StopConn, c1)
            else if masked = 0 then Inr (StopConn, c1)
            else if opcode = OPCODE_CONTINUATION then Inr (IgnoreFrame, c1)
            else if opcode = OPCODE_BINARY then Inr (IgnoreFrame, c1)
            else if opcode = OPCODE_TEXT
            then bindR (read_payload b2 c1) (\<lambda>(s, c2). Inr (TextReceived s, c2))
            else if opcode = OPCODE_PING
            then bindR (read_payload b2 c1) (\<lambda>(s, c2). Inr (PingReceived s, c2))
            else if opcode = OPCODE_PONG
            then bindR (read_payload b2 c1) (\<lambda>(s, c2). Inr (PongReceived s, c2))
            else Inr (StopConn, c1)))"

section \<open>The message loop of \<open>handle\<close>\<close>

text \<open>Every call that goes on has consumed at least the two bytes of a frame header.\<close>

lemma read_bytes_shorter:
  "read_bytes n c = Inr (b, c') \<Longrightarrow> length (c_buf c') = length (c_buf c) - n \<and> c_err c' = c_err c
     \<and> b = take n (c_buf c)"
  by (auto simp: read_bytes_def split: option.splits if_splits)

lemma read_length_shorter:
  "read_length k c = Inr (n, c') \<Longrightarrow> length (c_buf c') \<le> length (c_buf c)"
  by (auto simp: read_length_def bindR_eq_Inr dest!: read_bytes_shorter split: if_splits prod.splits)

lemma read_payload_shorter:
  "read_payload b2 c = Inr (s, c') \<Longrightarrow> length (c_buf c') \<le> length (c_buf c)"
  by (auto simp: read_payload_def bindR_eq_Inr dest!: read_bytes_shorter read_length_shorter)

lemma read_header_shorter:
  assumes "read_header c = Inr (Some (b1, b2, c'))" and "b2 AND MASKED \<noteq> 0"
  shows "length (c_buf c') < length (c_buf c)"
proof -
  from assms obtain bs where "read_bytes 2 c = Inr (bs, c')" "bs = [b1, b2]"
    by (auto simp: read_header_def split: sum.splits py_error.splits if_splits list.splits)
  with read_bytes_shorter [of 2 c bs c'] show ?thesis
    by (cases "c_buf c"; cases "tl (c_buf c)") auto
qed

lemma read_next_message_goes_on:
  assumes "read_next_message c = Inr (a, c')" and "a \<noteq> StopConn"
  shows "\<exists>b1 b2 c1. read_header c = Inr (Some (b1, b2, c1)) \<and> b2 AND MASKED \<noteq> 0
           \<and> (c' = c1 \<or> (\<exists>s. read_payload b2 c1 = Inr (s, c')))"
proof -
  from assms obtain b1 b2 c1 where h: "read_header c = Inr (Some (b1, b2, c1))"
    by (cases "read_header c"; cases "projr (read_header c)") (auto simp: read_next_message_def)
  with assms have "b2 AND MASKED \<noteq> 0 \<and> (c' = c1 \<or> (\<exists>s. read_payload b2 c1 = Inr (s, c')))"
    by (auto simp: read_next_message_def Let_def bindR_eq_Inr split: if_splits)
  with h show ?thesis by blast
qed

lemma read_next_message_shorter:
  assumes "read_next_message c = Inr (a, c')" and "a \<noteq> StopConn"
  shows "length (c_buf c') < length (c_buf c)"
proof -
  from read_next_message_goes_on [OF assms] obtain b1 b2 c1 where
    h: "read_header c = Inr (Some (b1, b2, c1))" "b2 AND MASKED \<noteq> 0"
    and c': "c' = c1 \<or> (\<exists>s. read_payload b2 c1 = Inr (s, c'))" by blast
  from c' have "length (c_buf c') \<le> length (c_buf c1)" by (auto dest: read_payload_shorter)
  with read_header_shorter [OF h] show ?thesis by simp
qed

text \<open>
  \<open>handle\<close> after the handshake: the loop reads until \<open>keep_alive\<close> falls or an exception leaves it.
  Text messages go to the server's \<open>message_received\<close>, in order (\<open>rcv\<close>); pings are answered with
  the frame of \<open>send_pong\<close> (\<open>snt\<close>). The first component is the exception, if one ended the loop.
\<close>

record loop_result =
  l_error :: "py_error option"
  l_received :: "ustr list"
  l_sent :: "bytes list"
  l_conn :: conn

function handle_loop :: "conn \<Rightarrow> ustr list \<Rightarrow> bytes list \<Rightarrow> loop_result" where
  "handle_loop c rcv snt =
     (case read_next_message c of
        Inl e \<Rightarrow> \<lparr>l_error = Some e, l_received = rcv, l_sent = snt, l_conn = c\<rparr>
      | Inr (StopConn, c') \<Rightarrow> \<lparr>l_error = None, l_received = rcv, l_sent = snt, l_conn = c'\<rparr>
      | Inr (IgnoreFrame, c') \<Rightarrow> handle_loop c' rcv snt
      | Inr (TextReceived s, c') \<Rightarrow> handle_loop c' (rcv @ [s]) snt
      | Inr (PingReceived s, c') \<Rightarrow>
          (case send_pong (Str s) of
             Inl e \<Rightarrow> \<lparr>l_error = Some e, l_received = rcv, l_sent = snt, l_conn = c'\<rparr>
           | Inr None \<Rightarrow> handle_loop c' rcv snt
           | Inr (Some f) \<Rightarrow> handle_loop c' rcv (snt @ [f]))
      | Inr (PongReceived s, c') \<Rightarrow> handle_loop c' rcv snt)"
  by pat_completeness auto
termination
  by (relation "measure (\<lambda>(c, rcv, snt). length (c_buf c))") (auto dest: read_next_message_shorter)

declare handle_loop.simps [simp del]

end
