(* ===== verification/WsServer.thy ===== *)
theory WsServer
  imports WsFrame PyText
begin

text \<open>
  \<open>src/websocket_server.py\<close>, the server and the handshake: \<open>WebsocketServer\<close> keeps the list of
  clients that the handler threads enter and leave; \<open>WebSocketHandler.handshake\<close> answers the
  upgrade request, with SHA-1 and Base64 written out. A handler is known by its identity, a number.
  The calls of the user's callbacks, the bytes given to sockets and the closing of connections are
  recorded in order in a log.
\<close>

unbundle bit_operations_syntax

section \<open>State\<close>

record client =
  cl_id :: nat
  cl_handler :: nat
  cl_address :: string

datatype ws_event =
    NewClient client
  | ClientLeft "client option"
  | MessageReceived "client option" ustr
  | SentBytes nat bytes
  | ConnClosed nat
  | ServerClosed
  | ServeLoopStopped

text \<open>
  \<open>sk_error h = Some e\<close>: a send on the socket of handler \<open>h\<close> raises \<open>OSError\<close> with that \<open>errno\<close>.
  \<open>stopped\<close> holds the handlers whose \<open>keep_alive\<close> is false.
\<close>

record server =
  clients :: "client list"
  id_counter :: nat
  sk_error :: "nat \<Rightarrow> int option"
  stopped :: "nat list"
  ws_log :: "ws_event list"

text \<open>An operation that may raise keeps what it did before the exception.\<close>

type_synonym out = "py_error option \<times> server"

definition and_then :: "out \<Rightarrow> (server \<Rightarrow> out) \<Rightarrow> out" where
  "and_then r f = (case r of (None, s) \<Rightarrow> f s | (Some e, s) \<Rightarrow> (Some e, s))"

lemma and_then_simps [simp]: "and_then (None, s) f = f s" "and_then (Some e, s) f = (Some e, s)"
  by (simp_all add: and_then_def)

definition log_event :: "ws_event \<Rightarrow> server \<Rightarrow> server" where
  "log_event e s = s\<lparr>ws_log := ws_log s @ [e]\<rparr>"

definition server_init :: server where
  "server_init = \<lparr>clients = [], id_counter = 0, sk_error = (\<lambda>_. None), stopped = [], ws_log = []\<rparr>"

section \<open>Clients\<close>

definition handler_to_client :: "server \<Rightarrow> nat \<Rightarrow> client option" where
  "handler_to_client s h = find (\<lambda>c. cl_handler c = h) (clients s)"

definition new_client :: "nat \<Rightarrow> string \<Rightarrow> server \<Rightarrow> server" where
  "new_client h addr s =
     (let n = Suc (id_counter s); c = \<lparr>cl_id = n, cl_handler = h, cl_address = addr\<rparr>
      in log_event (NewClient c) (s\<lparr>id_counter := n, clients := clients s @ [c]\<rparr>))"

definition client_left :: "nat \<Rightarrow> server \<Rightarrow> server" where
  "client_left h s =
     (let c = handler_to_client s h; s1 = log_event (ClientLeft c) s
      in case c of None \<Rightarrow> s1
         | Some x \<Rightarrow> if x \<in> set (clients s1) then s1\<lparr>clients := remove1 x (clients s1)\<rparr> else s1)"

definition message_received :: "nat \<Rightarrow> ustr \<Rightarrow> server \<Rightarrow> server" where
  "message_received h msg s = log_event (MessageReceived (handler_to_client s h) msg) s"

section \<open>Sending\<close>

definition socket_send :: "nat \<Rightarrow> bytes \<Rightarrow> server \<Rightarrow> out" where
  "socket_send h b s =
     (case sk_error s h of Some e \<Rightarrow> (Some (OSError e), s) | None \<Rightarrow> (None, log_event (SentBytes h b) s))"

definition send_frame :: "nat \<Rightarrow> bytes option res \<Rightarrow> server \<Rightarrow> out" where
  "send_frame h r s =
     (case r of Inl e \<Rightarrow> (Some e, s) | Inr None \<Rightarrow> (None, s) | Inr (Some f) \<Rightarrow> socket_send h f s)"

definition unicast :: "client \<Rightarrow> message \<Rightarrow> server \<Rightarrow> out" where
  "unicast c msg s = send_frame (cl_handler c) (WsFrame.send_message msg) s"

text \<open>\<open>_ping_received_\<close>: the handler answers with a pong that carries the same text.\<close>

definition ping_received :: "nat \<Rightarrow> ustr \<Rightarrow> server \<Rightarrow> out" where
  "ping_received h msg s = send_frame h (send_pong (Str msg)) s"

fun for_clients :: "client list \<Rightarrow> (client \<Rightarrow> server \<Rightarrow> out) \<Rightarrow> server \<Rightarrow> out" where
  "for_clients [] f s = (None, s)"
| "for_clients (c # cs) f s = and_then (f c s) (for_clients cs f)"

definition multicast :: "message \<Rightarrow> server \<Rightarrow> out" where
  "multicast msg s = for_clients (clients s) (\<lambda>c. unicast c msg) s"

section \<open>Shutdown\<close>

text \<open>
  \<open>_terminate_client_handlers\<close> iterates over \<open>self.clients\<close> by position while \<open>finish\<close> removes the
  client from that same list.
\<close>

definition terminate_one :: "client \<Rightarrow> server \<Rightarrow> server" where
  "terminate_one c s =
     log_event (ConnClosed (cl_handler c))
       (client_left (cl_handler c) (s\<lparr>stopped := cl_handler c # stopped s\<rparr>))"

lemma clients_client_left: "clients (client_left h s) =
  (case handler_to_client s h of None \<Rightarrow> clients s | Some x \<Rightarrow> remove1 x (clients s))"
  by (auto simp: client_left_def Let_def log_event_def remove1_idem split: option.splits)

lemma handler_to_client_cong: "clients s = clients s' \<Longrightarrow> handler_to_client s h = handler_to_client s' h"
  by (simp add: handler_to_client_def)

lemma clients_terminate_one:
  "clients (terminate_one c s) =
     (case handler_to_client s (cl_handler c) of None \<Rightarrow> clients s | Some x \<Rightarrow> remove1 x (clients s))"
proof -
  have "handler_to_client (s\<lparr>stopped := cl_handler c # stopped s\<rparr>) (cl_handler c)
      = handler_to_client s (cl_handler c)" by (rule handler_to_client_cong) simp
  then show ?thesis
    by (simp add: terminate_one_def log_event_def clients_client_left split: option.split)
qed

lemma length_terminate_one: "length (clients (terminate_one c s)) \<le> length (clients s)"
  by (auto simp: clients_terminate_one length_remove1 split: option.splits)

function terminate_from :: "nat \<Rightarrow> server \<Rightarrow> server" where
  "terminate_from i s =
     (if i < length (clients s) then terminate_from (Suc i) (terminate_one (clients s ! i) s) else s)"
  by pat_completeness auto
termination
  by (relation "measure (\<lambda>(i, s). length (clients s) - i)")
    (auto intro!: diff_less_mono2 intro: le_less_trans [OF diff_le_mono [OF length_terminate_one]])

declare terminate_from.simps [simp del]

definition terminate_client_handlers :: "server \<Rightarrow> server" where
  "terminate_client_handlers s = terminate_from 0 s"

definition close_server :: "server \<Rightarrow> server" where
  "close_server s = log_event ServeLoopStopped (log_event ServerClosed s)"

definition send_close_to :: "int \<Rightarrow> bytes \<Rightarrow> client \<Rightarrow> server \<Rightarrow> out" where
  "send_close_to status reason c s =
     (case send_close status reason of
        Inl e \<Rightarrow> (Some e, s) | Inr f \<Rightarrow> socket_send (cl_handler c) f s)"

text \<open>The status given to \<open>_shutdown_gracefully\<close> is not used, its reason is.\<close>

definition shutdown_with :: "int \<Rightarrow> bytes \<Rightarrow> server \<Rightarrow> out" where
  "shutdown_with status reason s =
     and_then (for_clients (clients s) (send_close_to CLOSE_STATUS_NORMAL reason) s)
       (\<lambda>s. (None, close_server (terminate_client_handlers s)))"

definition shutdown_gracefully :: "int \<Rightarrow> bytes \<Rightarrow> server \<Rightarrow> out" where
  "shutdown_gracefully status reason s =
     shutdown_with CLOSE_STATUS_NORMAL DEFAULT_CLOSE_REASON s"

definition shutdown_abruptly :: "server \<Rightarrow> server" where
  "shutdown_abruptly s = close_server (terminate_client_handlers s)"

section \<open>The handshake: SHA-1 and Base64\<close>

type_synonym u32 = "32 word"

text \<open>\<open>hashlib.sha1(data).digest()\<close> (FIPS 180-4).\<close>

definition sha1_pad :: "bytes \<Rightarrow> bytes" where
  "sha1_pad m = m @ [0x80] @ replicate ((119 - length m mod 64) mod 64) 0 @ be_bytes 8 (8 * length m)"

definition rotl32 :: "nat \<Rightarrow> u32 \<Rightarrow> u32" where
  "rotl32 n w = push_bit n w OR drop_bit (32 - n) w"

fun be_words :: "bytes \<Rightarrow> u32 list" where
  "be_words (a # b # c # d # bs) =
     (push_bit 24 (ucast a) OR push_bit 16 (ucast b) OR push_bit 8 (ucast c) OR ucast d) # be_words bs"
| "be_words _ = []"

text \<open>The message schedule, newest word first.\<close>

fun sha1_extend :: "nat \<Rightarrow> u32 list \<Rightarrow> u32 list" where
  "sha1_extend 0 ws = ws"
| "sha1_extend (Suc k) ws =
     sha1_extend k (rotl32 1 (ws ! 2 XOR ws ! 7 XOR ws ! 13 XOR ws ! 15) # ws)"

definition sha1_f :: "nat \<Rightarrow> u32 \<Rightarrow> u32 \<Rightarrow> u32 \<Rightarrow> u32 \<times> u32" where
  "sha1_f t b c d =
     (if t < 20 then ((b AND c) OR (NOT b AND d), 0x5A827999)
      else if t < 40 then (b XOR c XOR d, 0x6ED9EBA1)
      else if t < 60 then ((b AND c) OR (b AND d) OR (c AND d), 0x8F1BBCDC)
      else (b XOR c XOR d, 0xCA62C1D6))"

type_synonym sha1_state = "u32 \<times> u32 \<times> u32 \<times> u32 \<times> u32"

fun sha1_rounds :: "nat \<Rightarrow> u32 list \<Rightarrow> sha1_state \<Rightarrow> sha1_state" where
  "sha1_rounds t [] st = st"
| "sha1_rounds t (w # ws) (a, b, c, d, e) =
     (let (f, k) = sha1_f t b c d
      in sha1_rounds (Suc t) ws (rotl32 5 a + f + e + k + w, a, rotl32 30 b, c, d))"

definition sha1_block :: "u32 list \<Rightarrow> sha1_state \<Rightarrow> sha1_state" where
  "sha1_block ws st =
     (case (st, sha1_rounds 0 (rev (sha1_extend 64 (rev ws))) st) of
        ((a, b, c, d, e), (a', b', c', d', e')) \<Rightarrow> (a + a', b + b', c + c', d + d', e + e'))"

fun sha1_blocks :: "nat \<Rightarrow> u32 list \<Rightarrow> sha1_state \<Rightarrow> sha1_state" where
  "sha1_blocks 0 ws st = st"
| "sha1_blocks (Suc n) ws st = sha1_blocks n (drop 16 ws) (sha1_block (take 16 ws) st)"

definition word_bytes :: "u32 \<Rightarrow> bytes" where
  "word_bytes w = [ucast (drop_bit 24 w), ucast (drop_bit 16 w), ucast (drop_bit 8 w), ucast w]"

definition sha1 :: "bytes \<Rightarrow> bytes" where
  "sha1 m =
     (case sha1_blocks (length (sha1_pad m) div 64) (be_words (sha1_pad m))
             (0x67452301, 0xEFCDAB89, 0x98BADCFE, 0x10325476, 0xC3D2E1F0) of
        (a, b, c, d, e) \<Rightarrow> concat (map word_bytes [a, b, c, d, e]))"

definition b64_alphabet :: string where
  "b64_alphabet = ''ABCDEFGHIJKLMNOPQRSTUVWXYZabcdefghijklmnopqrstuvwxyz0123456789+/''"

definition b64_char :: "nat \<Rightarrow> char" where
  "b64_char n = b64_alphabet ! n"

fun b64encode :: "nat list \<Rightarrow> string" where
  "b64encode [] = []"
| "b64encode [a] = [b64_char (a div 4), b64_char (a mod 4 * 16), CHR ''='', CHR ''='']"
| "b64encode [a, b] =
     [b64_char (a div 4), b64_char (a mod 4 * 16 + b div 16), b64_char (b mod 16 * 4), CHR ''='']"
| "b64encode (a # b # c # bs) =
     [b64_char (a div 4), b64_char (a mod 4 * 16 + b div 16), b64_char (b mod 16 * 4 + c div 64),
      b64_char (c mod 64)] @ b64encode bs"

text \<open>The encoding of an ASCII string.\<close>

definition ascii_bytes :: "string \<Rightarrow> bytes" where
  "ascii_bytes s = map of_char s"

definition calculate_response_key :: "string \<Rightarrow> string" where
  "calculate_response_key key =
     strip (b64encode (map unat (sha1 (ascii_bytes key @ ascii_bytes ''258EAFA5-E914-47DA-95CA-C5AB0DC85B11''))))"

definition crlf :: string where
  "crlf = [CHR 0x0D, CHR 0x0A]"

definition make_handshake_response :: "string \<Rightarrow> string" where
  "make_handshake_response key =
     ''HTTP/1.1 101 Switching Protocols'' @ crlf @
     ''Upgrade: websocket'' @ crlf @
     ''Connection: Upgrade'' @ crlf @
     ''Sec-WebSocket-Accept: '' @ calculate_response_key key @ crlf @
     crlf"

section \<open>The upgrade request\<close>

text \<open>
  The request as the lines that \<open>rfile.readline().decode()\<close> returns, without their ends (ASCII); after
  the last line \<open>readline\<close> returns the empty string.
\<close>

definition split_colon :: "string \<Rightarrow> (string \<times> string) res" where
  "split_colon s =
     (if CHR '':'' \<in> set s
      then Inr (takeWhile (\<lambda>c. c \<noteq> CHR '':'') s, tl (dropWhile (\<lambda>c. c \<noteq> CHR '':'') s))
      else Inl ValueError)"

fun read_headers :: "string list \<Rightarrow> (string, string) dict \<Rightarrow> (string, string) dict res" where
  "read_headers [] d = Inr d"
| "read_headers (l # ls) d =
     (let h = strip l in
      if h = [] then Inr d
      else bindR (split_colon h) (\<lambda>(head, v). read_headers ls (dset (strip (lower head)) (strip v) d)))"

definition read_http_headers :: "string list \<Rightarrow> (string, string) dict res" where
  "read_http_headers ls =
     (let http_get = (case ls of [] \<Rightarrow> [] | l # _ \<Rightarrow> strip l) in
      if take 3 (upper http_get) = ''GET'' then read_headers (tl ls) [] else Inl AssertionError)"

text \<open>
  \<open>handshake\<close>: the exception that leaves it, if any, whether the client is valid afterwards, and the
  server. Only the \<open>AssertionError\<close> of the first \<open>try\<close> is caught, not its \<open>KeyError\<close>.
\<close>

definition handshake :: "nat \<Rightarrow> string \<Rightarrow> string list \<Rightarrow> server \<Rightarrow> py_error option \<times> bool \<times> server" where
  "handshake h addr ls s =
     (case read_http_headers ls of
        Inl e \<Rightarrow> (Some e, False, s)
      | Inr headers \<Rightarrow>
          (case dget headers ''upgrade'' of
             None \<Rightarrow> (Some KeyError, False, s)
           | Some up \<Rightarrow>
               if lower up \<noteq> ''websocket'' then (None, False, s)
               else
                 (case dget headers ''sec-websocket-key'' of
                    None \<Rightarrow> (None, False, s)
                  | Some key \<Rightarrow>
                      (case socket_send h (ascii_bytes (make_handshake_response key)) s of
                         (Some e, s') \<Rightarrow> (Some e, False, s')
                       | (None, s') \<Rightarrow> (None, True, new_client h addr s')))))"

section \<open>One connection\<close>

text \<open>The loop of \<open>handle\<close> once the client is valid, with the server's handlers for each message.\<close>

function serve_loop :: "nat \<Rightarrow> conn \<Rightarrow> server \<Rightarrow> out" where
  "serve_loop h c s =
     (if h \<in> set (stopped s) then (None, s)
      else
        (case read_next_message c of
           Inl e \<Rightarrow> (Some e, s)
         | Inr (StopConn, c') \<Rightarrow> (None, s)
         | Inr (IgnoreFrame, c') \<Rightarrow> serve_loop h c' s
         | Inr (TextReceived m, c') \<Rightarrow> serve_loop h c' (message_received h m s)
         | Inr (PingReceived m, c') \<Rightarrow>
             (case ping_received h m s of (Some e, s') \<Rightarrow> (Some e, s') | (None, s') \<Rightarrow> serve_loop h c' s')
         | Inr (PongReceived m, c') \<Rightarrow> serve_loop h c' s))"
  by pat_completeness auto
termination
  by (relation "measure (\<lambda>(h, c, s). length (c_buf c))") (auto dest: read_next_message_shorter)

declare serve_loop.simps [simp del]

text \<open>
  A handler from \<open>setup\<close> to \<open>finish\<close>: \<open>socketserver\<close> calls \<open>finish\<close> also when \<open>handle\<close> raises.
\<close>

definition handle :: "nat \<Rightarrow> string \<Rightarrow> string list \<Rightarrow> conn \<Rightarrow> server \<Rightarrow> out" where
  "handle h addr ls c s =
     (case handshake h addr ls s of
        (Some e, valid, s') \<Rightarrow> (Some e, s')
      | (None, valid, s') \<Rightarrow> if valid then serve_loop h c s' else (None, s'))"

definition run_handler :: "nat \<Rightarrow> string \<Rightarrow> string list \<Rightarrow> conn \<Rightarrow> server \<Rightarrow> out" where
  "run_handler h addr ls c s = (case handle h addr ls c s of (e, s') \<Rightarrow> (e, client_left h s'))"

section \<open>Interleavings\<close>

text \<open>
  Handler threads and the caller of the API run concurrently; each of their operations on the server
  is one step. A handler enters at most once: after its handshake it only reads frames.
\<close>

inductive ws_step :: "nat set \<times> server \<Rightarrow> nat set \<times> server \<Rightarrow> bool" where
  Join: "h \<notin> used \<Longrightarrow> ws_step (used, s) (insert h used, new_client h addr s)"
| Leave: "ws_step (used, s) (used, client_left h s)"
| Text: "ws_step (used, s) (used, message_received h m s)"
| Ping: "ping_received h m s = (e, s') \<Longrightarrow> ws_step (used, s) (used, s')"
| Broadcast: "multicast m s = (e, s') \<Longrightarrow> ws_step (used, s) (used, s')"
| Unicast: "unicast c m s = (e, s') \<Longrightarrow> ws_step (used, s) (used, s')"
| ShutdownGracefully: "shutdown_gracefully st re s = (e, s') \<Longrightarrow> ws_step (used, s) (used, s')"
| ShutdownAbruptly: "ws_step (used, s) (used, shutdown_abruptly s)"

abbreviation ws_reachable :: "nat set \<times> server \<Rightarrow> bool" where
  "ws_reachable \<equiv> reach (\<lambda>x. \<exists>sk. x = ({}, server_init\<lparr>sk_error := sk\<rparr>)) ws_step"

lemma ws_start: "ws_reachable ({}, server_init\<lparr>sk_error := sk\<rparr>)"
  by (rule reach_start) blast

end
