(* ===== verification/WsFrameLaws.thy ===== *)
theory WsFrameLaws
  imports WsFrame
begin

text \<open>
  The correctness of the wire format of \<open>WsFrame\<close>:
  UTF-8 and big-endian round trips, frames that \<open>send_text\<close> writes decode by RFC 6455, and frames
  that a client writes are read back by the loop.
\<close>

unbundle bit_operations_syntax

section \<open>UTF-8\<close>

lemma utf8_char_bytes: "is_scalar cp \<Longrightarrow> b \<in> set (utf8_char cp) \<Longrightarrow> b < 256"
  by (auto simp: utf8_char_def is_scalar_def split: if_splits)

lemma utf8_char_cases:
  obtains "cp < 0x80" | "0x80 \<le> cp" "cp < 0x800" | "0x800 \<le> cp" "cp < 0x10000"
  | "(0x10000 :: nat) \<le> cp"
  by (metis not_less)

lemma split64: "n div 64 * 64 + n mod 64 = (n :: nat)"
  by simp

lemma split4096: "n div 4096 * 4096 + n div 64 mod 64 * 64 + n mod 64 = (n :: nat)"
proof -
  have "n div 4096 = n div 64 div 64" by (simp add: div_mult2_eq [symmetric])
  with split64 [of n] split64 [of "n div 64"] show ?thesis by linarith
qed

lemma split262144:
  "n div 262144 * 262144 + n div 4096 mod 64 * 4096 + n div 64 mod 64 * 64 + n mod 64 = (n :: nat)"
proof -
  have "n div 262144 = n div 4096 div 64" by (simp add: div_mult2_eq [symmetric])
  with split4096 [of n] split64 [of "n div 4096"] show ?thesis by linarith
qed

lemma utf8_dec_char:
  assumes "is_scalar cp"
  shows "utf8_dec (utf8_char cp @ s) = map_option ((#) cp) (utf8_dec s)"
proof (cases rule: utf8_char_cases [of cp])
  case 1
  then show ?thesis by (simp add: utf8_char_def)
next
  case 2
  then have "2 \<le> cp div 64" "cp div 64 < 32" by (simp_all add: less_eq_div_iff_mult_less_eq div_less_iff_less_mult)
  with 2 split64 [of cp] show ?thesis by (simp add: utf8_char_def cont_byte_def)
next
  case 3
  then have "cp div 4096 < 16" by (simp add: div_less_iff_less_mult)
  with 3 split4096 [of cp] assms show ?thesis
    by (simp add: utf8_char_def cont_byte_def Let_def is_scalar_def)
next
  case 4
  with assms have "cp div 262144 < 5" by (simp add: div_less_iff_less_mult is_scalar_def)
  with 4 split262144 [of cp] assms show ?thesis
    by (simp add: utf8_char_def cont_byte_def Let_def is_scalar_def)
qed

lemma utf8_dec_concat: "list_all is_scalar s \<Longrightarrow> utf8_dec (concat (map utf8_char s)) = Some s"
  by (induction s) (simp_all add: utf8_dec_char)

lemma unat_of_nat_u8: "n < 256 \<Longrightarrow> unat (of_nat n :: u8) = n"
  by (simp add: unat_of_nat)

lemma utf8_decode_encode: "utf8_encode s = Inr b \<Longrightarrow> utf8_decode b = Inr s"
proof -
  assume "utf8_encode s = Inr b"
  then have s: "list_all is_scalar s" and b: "b = map of_nat (concat (map utf8_char s))"
    by (auto simp: utf8_encode_def split: if_splits)
  have "map unat b = concat (map utf8_char s)"
    unfolding b map_map
    by (rule map_idI) (use s in \<open>auto simp: list_all_iff intro!: unat_of_nat_u8 intro: utf8_char_bytes\<close>)
  then show ?thesis by (simp add: utf8_decode_def utf8_dec_concat s)
qed

lemma digit64: "cp = u * 64 + z \<Longrightarrow> z < 64 \<Longrightarrow> cp div 64 = u" "cp = u * 64 + z \<Longrightarrow> z < 64 \<Longrightarrow> cp mod 64 = (z :: nat)"
  by simp_all

lemma cp2:
  assumes "194 \<le> a" "a < 224" "128 \<le> b" "b < 192" and cp: "cp = (a - 192) * 64 + (b - 128)"
  shows "utf8_char cp = [a, b]" and "is_scalar cp"
proof -
  define x y where xy: "x = a - 192" "y = b - 128"
  have ab: "a = 192 + x" "b = 128 + y" and lt: "2 \<le> x" "x < 32" "y < 64"
    using assms unfolding xy by linarith+
  have "cp div 64 = x" "cp mod 64 = y" "cp < 2048" "128 \<le> cp"
    using lt unfolding cp xy [symmetric] by auto
  then show "utf8_char cp = [a, b]" "is_scalar cp"
    by (simp_all add: utf8_char_def is_scalar_def is_surrogate_def ab)
qed

lemma cp3: fixes a b c :: nat assumes "224 \<le> a" "a < 240" "128 \<le> b" "b < 192" "128 \<le> c" "c < 192"
  and cp: "cp = (a - 224) * 4096 + (b - 128) * 64 + (c - 128)" and "0x800 \<le> cp"
  shows "utf8_char cp = [a, b, c]" and "cp < 0x10000"
proof -
  define x y z where xyz: "x = a - 224" "y = b - 128" "z = c - 128"
  have ab: "a = 224 + x" "b = 128 + y" "c = 128 + z" and lt: "x < 16" "y < 64" "z < 64" using assms unfolding xyz by linarith+
  have "cp = (x * 64 + y) * 64 + z" using cp unfolding xyz [symmetric] by simp
  then have q: "cp div 64 = x * 64 + y" "cp mod 64 = z" using lt by (simp_all only: digit64)
  have "cp div 4096 = cp div 64 div 64" by (simp add: div_mult2_eq [symmetric])
  with q lt have "cp div 4096 = x" "cp div 64 mod 64 = y" by auto
  moreover show "cp < 0x10000" using cp lt unfolding xyz [symmetric] by auto
  ultimately show "utf8_char cp = [a, b, c]" using assms(8) q ab by (simp add: utf8_char_def)
qed

lemma cp4: fixes a b c d :: nat assumes "240 \<le> a" "a < 245" "128 \<le> b" "b < 192" "128 \<le> c" "c < 192" "128 \<le> d" "d < 192"
  and cp: "cp = (a - 240) * 262144 + (b - 128) * 4096 + (c - 128) * 64 + (d - 128)" and "0x10000 \<le> cp"
  shows "utf8_char cp = [a, b, c, d]"
proof -
  define w x y z where xyz: "w = a - 240" "x = b - 128" "y = c - 128" "z = d - 128"
  have ab: "a = 240 + w" "b = 128 + x" "c = 128 + y" "d = 128 + z" and lt: "w < 5" "x < 64" "y < 64" "z < 64" using assms unfolding xyz by linarith+
  have "cp = (w * 4096 + x * 64 + y) * 64 + z" using cp unfolding xyz [symmetric] by simp
  then have q: "cp div 64 = w * 4096 + x * 64 + y" "cp mod 64 = z" using lt by (simp_all only: digit64)
  have "cp div 4096 = cp div 64 div 64" by (simp add: div_mult2_eq [symmetric])
  moreover have "cp div 64 = (w * 64 + x) * 64 + y" using q by simp
  ultimately have q2: "cp div 4096 = w * 64 + x" "cp div 64 mod 64 = y"
    using lt by (simp_all only: digit64)
  have "cp div 262144 = cp div 4096 div 64" by (simp add: div_mult2_eq [symmetric])
  with q2 lt have "cp div 262144 = w" "cp div 4096 mod 64 = x" by auto
  then show "utf8_char cp = [a, b, c, d]" using assms(10) q q2 ab by (simp add: utf8_char_def)
qed

lemma utf8_dec_Some:
  "utf8_dec bs = Some s \<Longrightarrow> concat (map utf8_char s) = bs \<and> list_all is_scalar s"
proof (induction bs arbitrary: s rule: utf8_dec.induct)
  case (2 a bs)
  consider "a < 128" | "194 \<le> a" "a < 224" | "224 \<le> a" "a < 240" | "240 \<le> a" "a < 245"
    using "2.prems" by (auto split: if_splits)
  then show ?case
  proof cases
    case 1
    with "2.prems" "2.IH"(1) show ?thesis by (auto simp: utf8_char_def is_scalar_def is_surrogate_def)
  next
    case 2
    with "2.prems" "2.IH"(2) show ?thesis
      by (auto simp: cont_byte_def cp2 split: list.splits if_splits)
  next
    case 3
    with "2.prems" "2.IH"(3) show ?thesis
      by (auto simp: cont_byte_def cp3 is_scalar_def Let_def split: list.splits if_splits)
  next
    case 4
    with "2.prems" "2.IH"(4) show ?thesis
      by (auto simp: cont_byte_def cp4 is_scalar_def is_surrogate_def Let_def split: list.splits if_splits)
  qed
qed simp

lemma utf8_encode_decode: "utf8_decode b = Inr s \<Longrightarrow> utf8_encode s = Inr b"
  by (auto simp: utf8_decode_def utf8_encode_def o_def dest!: utf8_dec_Some split: option.splits)

section \<open>Big-endian integers\<close>

lemma length_be_bytes [simp]: "length (be_bytes k n) = k"
  by (induction k arbitrary: n) auto

lemma be_nat_snoc: "be_nat (bs @ [b]) = be_nat bs * 256 + unat b"
  by (simp add: be_nat_def)

lemma be_nat_be_bytes: "be_nat (be_bytes k n) = n mod 256 ^ k"
proof (induction k arbitrary: n)
  case (Suc k)
  have "n mod 256 ^ Suc k = n div 256 mod 256 ^ k * 256 + n mod 256"
    using mod_mult2_eq [of n 256 "256 ^ k"] by simp
  with Suc show ?case by (simp add: be_nat_snoc unat_of_nat_u8)
qed (simp add: be_nat_def)

lemma unpack_be_bytes: "n < 256 ^ k \<Longrightarrow> unpack_be k (be_bytes k n) = Inr n"
  by (simp add: unpack_be_def be_nat_be_bytes)

section \<open>Masking\<close>

fun xor_mask :: "bytes \<Rightarrow> nat \<Rightarrow> bytes \<Rightarrow> bytes" where
  "xor_mask key i [] = []"
| "xor_mask key i (b # bs) = (b XOR key ! (i mod 4)) # xor_mask key (Suc i) bs"

lemma length_xor_mask [simp]: "length (xor_mask key i bs) = length bs"
  by (induction bs arbitrary: i) auto

lemma unmask_xor_mask: "length key = 4 \<Longrightarrow> unmask key i (xor_mask key i bs) = Inr bs"
  by (induction bs arbitrary: i) (simp_all add: xor.assoc)

section \<open>Header bytes\<close>

lemma u8_take_bit: "unat (w :: u8) < 2 ^ k \<Longrightarrow> take_bit k w = w"
  by (metis take_bit_nat_eq_self unsigned_take_bit_eq unsigned_word_eqI)

lemma nibble_mask: "(op :: u8) < 16 \<Longrightarrow> op AND 0x0f = op"
  using u8_take_bit [of op 4] by (simp add: word_less_nat_alt take_bit_eq_mask mask_numeral)

lemma opcode_bits:
  assumes "(op :: u8) < 16"
  shows "(0x80 OR op) AND 0x0f = op" and "(0x80 OR op) AND 0x70 = 0"
proof -
  note op = nibble_mask [OF assms]
  show "(0x80 OR op) AND 0x0f = op" by (simp add: bit.conj_disj_distrib2 op)
  have "(op AND 0x0f) AND (0x70 :: u8) = op AND 0" by (simp add: and.assoc)
  with op show "(0x80 OR op) AND 0x70 = 0" by (simp add: bit.conj_disj_distrib2)
qed

lemma top_bit: "((0x80 :: u8) OR op) AND 0x80 = 0x80"
  by (rule bit_word_eqI) (auto simp: bit_simps)

lemma length_bits:
  assumes "(w :: u8) < 128"
  shows "w AND 0x7f = w" and "(0x80 OR w) AND 0x7f = w" and "w AND 0x80 = 0"
proof -
  show w: "w AND 0x7f = w"
    using assms u8_take_bit [of w 7] by (simp add: word_less_nat_alt take_bit_eq_mask mask_numeral)
  then show "(0x80 OR w) AND 0x7f = w" by (simp add: bit.conj_disj_distrib2)
  have "(w AND 0x7f) AND (0x80 :: u8) = 0" by (simp add: and.assoc)
  with w show "w AND 0x80 = 0" by simp
qed

lemma of_nat_u8_less: "n < m \<Longrightarrow> m < 256 \<Longrightarrow> (of_nat n :: u8) < of_nat m"
  by (simp add: word_less_nat_alt unat_of_nat_u8)

lemma len7_less: "n \<le> 127 \<Longrightarrow> (of_nat n :: u8) < 128"
  using of_nat_u8_less [of n 128] by simp

section \<open>What is sent\<close>

text \<open>
  RFC 6455, section 5.2, for the unmasked frames a server sends: final bit, opcode and payload of
  the first frame of a byte sequence, and the rest of it. Reserved bits must be zero.
\<close>

definition split_exact :: "nat \<Rightarrow> bytes \<Rightarrow> (bytes \<times> bytes) option" where
  "split_exact n s = (if n \<le> length s then Some (take n s, drop n s) else None)"

fun rfc_server_frame :: "bytes \<Rightarrow> (bool \<times> u8 \<times> bytes \<times> bytes) option" where
  "rfc_server_frame (b1 # b2 # s) =
     (if b1 AND 0x70 \<noteq> 0 \<or> b2 AND 0x80 \<noteq> 0 then None
      else
        (let k = unat (b2 AND 0x7f); ext = (if k = 126 then 2 else if k = 127 then 8 else 0) in
         case split_exact ext s of None \<Rightarrow> None
         | Some (e, s1) \<Rightarrow>
             (case split_exact (if ext = 0 then k else be_nat e) s1 of None \<Rightarrow> None
              | Some (payload, rest) \<Rightarrow> Some (b1 AND 0x80 \<noteq> 0, b1 AND 0x0f, payload, rest))))"
| "rfc_server_frame _ = None"

lemma split_exact_append [simp]: "length xs = n \<Longrightarrow> split_exact n (xs @ ys) = Some (xs, ys)"
  by (auto simp: split_exact_def)

lemma split_exact_0 [simp]: "split_exact 0 s = Some ([], s)"
  by (simp add: split_exact_def)

lemma send_payload_frame:
  assumes s: "list_all is_scalar s" and op: "op < 16"
    and n: "length (concat (map utf8_char s)) < 2 ^ 64"
  shows "\<exists>f payload. send_payload s op = Inr (Some f) \<and> utf8_encode s = Inr payload
           \<and> rfc_server_frame (f @ rest) = Some (True, op, payload, rest)"
proof -
  define payload :: bytes where "payload = map of_nat (concat (map utf8_char s))"
  have enc: "utf8_encode s = Inr payload" using s by (simp add: utf8_encode_def payload_def)
  then have e8: "encode_to_UTF8 s = Some payload" by (simp add: encode_to_UTF8_def)
  let ?n = "length payload"
  have lt: "?n < 2 ^ 64" using n by (simp add: payload_def)
  note bits = opcode_bits [OF op] top_bit [of op]
  consider "?n \<le> 125" | "125 < ?n" "?n \<le> 65535" | "65535 < ?n" by linarith
  then have "\<exists>f. send_payload s op = Inr (Some f)
      \<and> rfc_server_frame (f @ rest) = Some (True, op, payload, rest)"
  proof cases
    case 1
    then have "(of_nat ?n :: u8) < 128" by (intro len7_less) simp
    with 1 show ?thesis
      using bits e8 by (simp add: send_payload_def ws_consts length_bits unat_of_nat_u8)
  next
    case 2
    then have "?n mod 256 ^ 2 = ?n" by simp
    with 2 show ?thesis
      using bits e8 be_nat_be_bytes [of 2 ?n]
      by (simp add: send_payload_def ws_consts Let_def del: be_bytes.simps)
  next
    case 3
    then have "?n mod 256 ^ 8 = ?n" using lt by simp
    with 3 show ?thesis
      using bits e8 lt be_nat_be_bytes [of 8 ?n]
      by (simp add: send_payload_def ws_consts Let_def del: be_bytes.simps)
  qed
  with enc show ?thesis by blast
qed

section \<open>What is received\<close>

text \<open>The frame a client sends: final bit, mask bit and a four-byte key (RFC 6455, 5.3).\<close>

definition length_field :: "nat \<Rightarrow> u8 \<times> bytes" where
  "length_field n =
     (if n \<le> 125 then (of_nat n, [])
      else if n \<le> 65535 then (126, be_bytes 2 n)
      else (127, be_bytes 8 n))"

definition client_frame :: "u8 \<Rightarrow> bytes \<Rightarrow> bytes \<Rightarrow> bytes" where
  "client_frame op key payload =
     (let (l, ext) = length_field (length payload)
      in [0x80 OR op, 0x80 OR l] @ ext @ key @ xor_mask key 0 payload)"

definition open_conn :: "bytes \<Rightarrow> conn" where
  "open_conn buf = \<lparr>c_buf = buf, c_err = None\<rparr>"

lemma open_conn_simps [simp]: "c_buf (open_conn b) = b" "c_err (open_conn b) = None"
  "(open_conn b)\<lparr>c_buf := b'\<rparr> = open_conn b'"
  by (simp_all add: open_conn_def)

lemma read_bytes_open:
  "length xs = n \<Longrightarrow> n < 2 ^ 63 \<Longrightarrow> read_bytes n (open_conn (xs @ ys)) = Inr (xs, open_conn ys)"
  by (auto simp: read_bytes_def)

lemma read_header_open [simp]: "read_header (open_conn (b1 # b2 # s)) = Inr (Some (b1, b2, open_conn s))"
  using read_bytes_open [of "[b1, b2]" 2 s] by (simp add: read_header_def)

lemma read_length_open:
  assumes "length_field n = (l, ext)" and "n < 2 ^ 64"
  shows "l < 128" and "read_length (unat l) (open_conn (ext @ s)) = Inr (n, open_conn s)"
proof -
  show "l < 128" using assms len7_less [of n] by (auto simp: length_field_def split: if_splits)
  consider "n \<le> 125" | "125 < n" "n \<le> 65535" | "65535 < n" by linarith
  then show "read_length (unat l) (open_conn (ext @ s)) = Inr (n, open_conn s)"
  proof cases
    case 1
    with assms show ?thesis by (auto simp: length_field_def read_length_def unat_of_nat_u8)
  next
    case 2
    then have "unpack_be 2 (be_bytes 2 n) = Inr n" by (intro unpack_be_bytes) simp
    with 2 assms show ?thesis
      by (auto simp: length_field_def read_length_def read_bytes_open simp del: be_bytes.simps)
  next
    case 3
    then have "unpack_be 8 (be_bytes 8 n) = Inr n" using assms by (intro unpack_be_bytes) simp
    with 3 assms show ?thesis
      by (auto simp: length_field_def read_length_def read_bytes_open simp del: be_bytes.simps)
  qed
qed

lemma read_payload_frame:
  assumes key: "length key = 4" and n: "length payload < 2 ^ 63" and l: "length_field (length payload) = (l, ext)"
  shows "read_payload (0x80 OR l) (open_conn (ext @ key @ xor_mask key 0 payload @ rest))
    = bindR (utf8_decode payload) (\<lambda>s. Inr (s, open_conn rest))"
proof -
  have "length payload < 2 ^ 64" using n by simp
  note rl = read_length_open [OF l this]
  show ?thesis using rl key n unmask_xor_mask [OF key, of 0 payload]
    by (simp add: read_payload_def PAYLOAD_LEN_def length_bits read_bytes_open)
qed

lemma read_client_frame:
  assumes key: "length key = 4" and n: "length payload < 2 ^ 63"
    and op: "op \<in> {OPCODE_TEXT, OPCODE_PING, OPCODE_PONG}"
  shows "read_next_message (open_conn (client_frame op key payload @ rest)) = bindR (utf8_decode payload) (\<lambda>s.
     Inr (if op = OPCODE_TEXT then TextReceived s else if op = OPCODE_PING then PingReceived s
          else PongReceived s, open_conn rest))"
proof -
  obtain l ext where l: "length_field (length payload) = (l, ext)" by fastforce
  have op16: "op < 16" using op by (auto simp: ws_consts)
  from op read_payload_frame [OF key n l, of rest] show ?thesis
    using opcode_bits(1) [OF op16] top_bit [of l]
    by (cases "utf8_decode payload") (auto simp: client_frame_def l read_next_message_def Let_def ws_consts)
qed

section \<open>A whole connection\<close>

lemma read_next_message_empty [simp]: "read_next_message (open_conn []) = Inr (StopConn, open_conn [])"
  by (simp add: read_next_message_def read_header_def read_bytes_def ws_consts)

text \<open>A message of a client: mask, opcode and payload; a payload that is UTF-8 has a text.\<close>

type_synonym client_msg = "bytes \<times> u8 \<times> bytes"

definition client_msg_ok :: "client_msg \<Rightarrow> bool" where
  "client_msg_ok m = (case m of (key, op, p) \<Rightarrow> length key = 4 \<and> op \<in> {OPCODE_TEXT, OPCODE_PING, OPCODE_PONG}
     \<and> length p < 2 ^ 63)"

definition client_msg_bytes :: "client_msg \<Rightarrow> bytes" where
  "client_msg_bytes m = (case m of (key, op, p) \<Rightarrow> client_frame op key p)"

definition readable :: "client_msg \<Rightarrow> bool" where
  "readable m \<longleftrightarrow> is_ok (utf8_decode (snd (snd m)))"

definition msg_text :: "client_msg \<Rightarrow> ustr" where
  "msg_text m = (case utf8_decode (snd (snd m)) of Inr s \<Rightarrow> s | Inl _ \<Rightarrow> [])"

definition sent_with :: "u8 \<Rightarrow> client_msg list \<Rightarrow> client_msg list" where
  "sent_with op ms = filter (\<lambda>m. fst (snd m) = op) ms"

lemma utf8_decode_error: "utf8_decode p = Inl e \<Longrightarrow> e = UnicodeDecodeError"
  by (auto simp: utf8_decode_def split: option.splits)

lemma msg_text_decode: "readable m \<longleftrightarrow> utf8_decode (snd (snd m)) = Inr (msg_text m)"
  by (auto simp: readable_def msg_text_def is_ok_iff)

lemma read_client_msg:
  assumes "client_msg_ok (key, op, p)"
  shows "read_next_message (open_conn (client_msg_bytes (key, op, p) @ rest)) =
     (if readable (key, op, p) then Inr (if op = OPCODE_TEXT then TextReceived (msg_text (key, op, p))
          else if op = OPCODE_PING then PingReceived (msg_text (key, op, p))
          else PongReceived (msg_text (key, op, p)), open_conn rest)
      else Inl UnicodeDecodeError)"
proof (cases "utf8_decode p")
  case (Inl e)
  with assms utf8_decode_error [OF Inl] read_client_frame [of key p op rest] show ?thesis
    by (simp add: client_msg_ok_def client_msg_bytes_def readable_def)
next
  case (Inr s)
  with assms read_client_frame [of key p op rest] show ?thesis
    by (simp add: client_msg_ok_def client_msg_bytes_def readable_def msg_text_def)
qed

lemma send_pong_frame:
  assumes "readable m" and "client_msg_ok m"
  shows "\<exists>f. send_pong (Str (msg_text m)) = Inr (Some f)
           \<and> rfc_server_frame f = Some (True, OPCODE_PONG, snd (snd m), [])"
proof -
  have enc: "utf8_encode (msg_text m) = Inr (snd (snd m))"
    using assms(1) by (intro utf8_encode_decode) (simp add: msg_text_decode)
  then have s: "list_all is_scalar (msg_text m)" "snd (snd m) = map of_nat (concat (map utf8_char (msg_text m)))"
    by (auto simp: utf8_encode_def split: if_splits)
  from assms(2) have "length (snd (snd m)) < 2 ^ 63" by (auto simp: client_msg_ok_def)
  then have "length (concat (map utf8_char (msg_text m))) < 2 ^ 64" by (simp add: s(2))
  with send_payload_frame [OF s(1), of OPCODE_PONG "[]"] enc show ?thesis
    by (auto simp: send_pong_def send_text_def ws_consts)
qed

lemma opcodes_differ: "OPCODE_TEXT \<noteq> OPCODE_PING" "OPCODE_TEXT \<noteq> OPCODE_PONG" "OPCODE_PING \<noteq> OPCODE_PONG"
  by (simp_all add: ws_consts)

lemma handle_loop_stream:
  assumes "\<forall>m\<in>set ms. client_msg_ok m \<and> readable m"
  shows "\<exists>pongs. handle_loop (open_conn (concat (map client_msg_bytes ms) @ rest)) rcv snt =
             handle_loop (open_conn rest) (rcv @ map msg_text (sent_with OPCODE_TEXT ms)) (snt @ pongs)
           \<and> list_all2 (\<lambda>f m. rfc_server_frame f = Some (True, OPCODE_PONG, snd (snd m), []))
               pongs (sent_with OPCODE_PING ms)"
  using assms
proof (induction ms arbitrary: rcv snt)
  case Nil
  then show ?case by (simp add: sent_with_def)
next
  case (Cons m ms)
  obtain key op p where m: "m = (key, op, p)" by (cases m)
  with Cons.prems have ok: "client_msg_ok (key, op, p)" "readable (key, op, p)" by simp_all
  let ?rest = "concat (map client_msg_bytes ms) @ rest"
  note frame = read_client_msg [OF ok(1), of ?rest]
  obtain f where f: "send_pong (Str (msg_text m)) = Inr (Some f)"
    "rfc_server_frame f = Some (True, OPCODE_PONG, p, [])"
    using send_pong_frame [OF ok(2,1)] by (auto simp: m)
  have IH: "\<And>rcv snt. \<exists>pongs. handle_loop (open_conn ?rest) rcv snt =
             handle_loop (open_conn rest) (rcv @ map msg_text (sent_with OPCODE_TEXT ms)) (snt @ pongs)
           \<and> list_all2 (\<lambda>f m. rfc_server_frame f = Some (True, OPCODE_PONG, snd (snd m), []))
               pongs (sent_with OPCODE_PING ms)"
    using Cons by simp
  consider "op = OPCODE_TEXT" | "op = OPCODE_PING" | "op = OPCODE_PONG" using ok by (auto simp: client_msg_ok_def)
  then show ?case
  proof cases
    case 1
    with IH [of "rcv @ [msg_text m]" snt] frame ok opcodes_differ show ?thesis
      by (subst handle_loop.simps) (simp add: m sent_with_def)
  next
    case 2
    obtain pongs where "handle_loop (open_conn ?rest) rcv (snt @ [f]) =
             handle_loop (open_conn rest) (rcv @ map msg_text (sent_with OPCODE_TEXT ms)) (snt @ [f] @ pongs)"
       "list_all2 (\<lambda>f m. rfc_server_frame f = Some (True, OPCODE_PONG, snd (snd m), []))
               pongs (sent_with OPCODE_PING ms)"
      using IH [of rcv "snt @ [f]"] by auto
    with 2 frame ok opcodes_differ f show ?thesis
      by (subst handle_loop.simps, intro exI [of _ "f # pongs"]) (simp add: m sent_with_def)
  next
    case 3
    with IH [of rcv snt] frame ok opcodes_differ show ?thesis
      by (subst handle_loop.simps) (simp add: m sent_with_def)
  qed
qed

text \<open>The messages before the first one whose payload is not UTF-8, and what comes from there on.\<close>

lemma readable_split:
  assumes "\<forall>m\<in>set ms. client_msg_ok m"
  obtains rest where "concat (map client_msg_bytes ms) = concat (map client_msg_bytes (takeWhile readable ms)) @ rest"
    and "takeWhile readable ms = ms \<Longrightarrow> rest = []"
    and "takeWhile readable ms \<noteq> ms \<Longrightarrow> read_next_message (open_conn rest) = Inl UnicodeDecodeError"
proof -
  let ?rest = "concat (map client_msg_bytes (dropWhile readable ms))"
  have "concat (map client_msg_bytes ms) = concat (map client_msg_bytes (takeWhile readable ms)) @ ?rest"
    by (metis concat_append map_append takeWhile_dropWhile_id)
  moreover have "?rest = []" if "takeWhile readable ms = ms"
    using that by (metis append_self_conv concat.simps(1) list.simps(8) takeWhile_dropWhile_id)
  moreover have "read_next_message (open_conn ?rest) = Inl UnicodeDecodeError" if "takeWhile readable ms \<noteq> ms"
  proof (cases "dropWhile readable ms")
    case Nil
    with that show ?thesis by (metis append_Nil2 takeWhile_dropWhile_id)
  next
    case (Cons m ms')
    obtain key op p where m: "m = (key, op, p)" by (cases m)
    from Cons have "m \<in> set ms" "\<not> readable m"
      by (metis list.set_intros(1) set_dropWhileD) (metis Cons hd_dropWhile list.distinct(1) list.sel(1))
    with assms read_client_msg [of key op p "concat (map client_msg_bytes ms')"] show ?thesis by (simp add: Cons m)
  qed
  ultimately show thesis by (rule that)
qed

section \<open>Properties\<close>

text \<open>
  C30: What \<open>send_text\<close> writes for a string, or for non-empty UTF-8 bytes, is one RFC 6455 frame: final,
  unmasked, of the opcode asked for, with the UTF-8 bytes of the message as payload, whatever follows
  it on the wire. Bytes that are empty or not UTF-8, and other objects, write nothing.
\<close>
theorem send_text_is_rfc_frame:
  assumes "op < 16" and "list_all is_scalar s" and "length (concat (map utf8_char s)) < 2 ^ 64"
  shows "\<exists>f payload. utf8_encode s = Inr payload \<and> send_text (Str s) op = Inr (Some f)
           \<and> rfc_server_frame (f @ rest) = Some (True, op, payload, rest)
           \<and> send_text (Bytes payload) op = (if s = [] then Inr None else Inr (Some f))
           \<and> (\<forall>b. utf8_decode b = Inl UnicodeDecodeError \<longrightarrow> send_text (Bytes b) op = Inr None)
           \<and> send_text OtherObject op = Inr None"
proof -
  from send_payload_frame [OF assms(2,1,3), of rest] obtain f payload where
    f: "send_payload s op = Inr (Some f)" "utf8_encode s = Inr payload"
       "rfc_server_frame (f @ rest) = Some (True, op, payload, rest)" by blast
  from utf8_decode_encode [OF f(2)] f show ?thesis
    by (intro exI [of _ f] exI [of _ payload]) (simp add: send_text_def try_decode_UTF8_def)
qed

lemma send_text_is_rfc_frame_witness:
  "\<exists>f payload. utf8_encode [104, 0x20AC] = Inr payload \<and> send_text (Str [104, 0x20AC]) 1 = Inr (Some f)
     \<and> rfc_server_frame (f @ [7]) = Some (True, 1, payload, [7])"
  using send_text_is_rfc_frame [of 1 "[104, 0x20AC]" "[7]"]
  by (auto simp: is_scalar_def is_surrogate_def utf8_char_def)

text \<open>
  C40: \<open>send_close\<close> accepts exactly the statuses 1000 to 1015 with a reason of at most 123 bytes; the
  frame it then writes is a final close frame whose payload is the status, big endian, and the reason.
\<close>
theorem send_close_frame:
  "case send_close status reason of
     Inl _ \<Rightarrow> \<not> (1000 \<le> status \<and> status \<le> 1015 \<and> length reason \<le> 123)
   | Inr f \<Rightarrow> 1000 \<le> status \<and> status \<le> 1015 \<and> length reason \<le> 123
       \<and> (\<exists>code. rfc_server_frame (f @ rest) = Some (True, OPCODE_CLOSE_CONN, code @ reason, rest)
            \<and> length code = 2 \<and> int (be_nat code) = status)"
proof (cases "1000 \<le> status \<and> status \<le> 1015 \<and> length reason \<le> 123")
  case False
  then show ?thesis by (auto simp: send_close_def CLOSE_STATUS_NORMAL_def Let_def simp del: be_bytes.simps)
next
  case True
  let ?c = "be_bytes 2 (nat status)" and ?w = "of_nat (length reason + 2) :: u8"
  have f: "send_close status reason = Inr ([FIN OR OPCODE_CLOSE_CONN, ?w] @ ?c @ reason)"
    using True by (simp add: send_close_def CLOSE_STATUS_NORMAL_def Let_def add.commute del: be_bytes.simps)
  have w: "?w < 128" by (rule len7_less) (use True in simp)
  have u: "unat ?w = length reason + 2" by (rule unat_of_nat_u8) (use True in simp)
  have "rfc_server_frame (([FIN OR OPCODE_CLOSE_CONN, ?w] @ ?c @ reason) @ rest)
      = Some (True, OPCODE_CLOSE_CONN, ?c @ reason, rest)"
    using True u length_bits [OF w]
    by (simp add: ws_consts Let_def split_exact_def del: be_bytes.simps of_nat_add)
  moreover have "nat status mod 65536 = nat status" using True by (intro mod_less) linarith
  then have "int (be_nat ?c) = status" using True by (simp add: be_nat_be_bytes)
  ultimately show ?thesis using True unfolding f by fastforce
qed

text \<open>
  C5: For a client that sends masked, final text, ping and pong frames with any payloads (shorter than 2^63 bytes) and then
  closes its side, the message loop handles the frames in order up to the first whose payload is not UTF-8. Of the frames
  before it, it delivers exactly the texts in the order sent and writes for each ping, in order, one RFC 6455 pong frame with
  the payload of the ping. If all payloads are UTF-8, that is everything, and the loop ends without an exception; otherwise
  \<open>UnicodeDecodeError\<close> leaves the loop, for a ping or pong with a binary payload as well as for a text.
\<close>
theorem handle_delivers_stream:
  assumes "\<forall>m\<in>set ms. client_msg_ok m" and "good = takeWhile readable ms"
    and "r = handle_loop (open_conn (concat (map client_msg_bytes ms))) [] []"
  shows "l_error r = (if good = ms then None else Some UnicodeDecodeError)
    \<and> l_received r = map msg_text (sent_with OPCODE_TEXT good)
    \<and> list_all2 (\<lambda>f m. rfc_server_frame f = Some (True, OPCODE_PONG, snd (snd m), [])) (l_sent r) (sent_with OPCODE_PING good)"
proof -
  from readable_split [OF assms(1)] obtain rest
    where rest: "concat (map client_msg_bytes ms) = concat (map client_msg_bytes good) @ rest" "good = ms \<Longrightarrow> rest = []"
      "good \<noteq> ms \<Longrightarrow> read_next_message (open_conn rest) = Inl UnicodeDecodeError" unfolding assms(2) by metis
  have "\<forall>m\<in>set good. client_msg_ok m \<and> readable m" using assms(1,2) by (auto dest: set_takeWhileD)
  from handle_loop_stream [OF this, of rest "[]" "[]"] obtain pongs
    where "r = handle_loop (open_conn rest) (map msg_text (sent_with OPCODE_TEXT good)) pongs"
      and "list_all2 (\<lambda>f m. rfc_server_frame f = Some (True, OPCODE_PONG, snd (snd m), [])) pongs (sent_with OPCODE_PING good)"
    by (auto simp: assms(3) rest(1))
  with rest(2,3) show ?thesis by (cases "good = ms") (simp_all add: handle_loop.simps)
qed

definition sample_msgs :: "client_msg list" where
  "sample_msgs = [([1, 2, 3, 4], OPCODE_TEXT, [104, 105]), ([0, 9, 0, 9], OPCODE_PING, []), ([5, 6, 7, 8], OPCODE_TEXT, [0xE2, 0x82, 0xAC]),
      ([0, 0, 0, 0], OPCODE_PING, [0xFF]), ([1, 2, 3, 4], OPCODE_TEXT, [104])]"

lemma sample_msgs_ok: "\<forall>m\<in>set sample_msgs. client_msg_ok m"
  by (simp add: sample_msgs_def client_msg_ok_def ws_consts)

lemma sample_payloads: "utf8_decode [104, 105] = Inr [104, 105]" "utf8_decode [] = Inr []"
  "utf8_decode [0xE2, 0x82, 0xAC] = Inr [0x20AC]" "utf8_decode [0xFF] = Inl UnicodeDecodeError"
  by (simp_all add: utf8_decode_def cont_byte_def is_surrogate_def)

lemma sample_msgs_good: "takeWhile readable sample_msgs = take 3 sample_msgs" "(take 3 sample_msgs = sample_msgs) = False"
  "map msg_text (sent_with OPCODE_TEXT (take 3 sample_msgs)) = [[104, 105], [0x20AC]]"
  by (simp_all add: sample_msgs_def readable_def msg_text_def sent_with_def sample_payloads ws_consts)

lemma handle_delivers_stream_witness:
  "let r = handle_loop (open_conn (concat (map client_msg_bytes sample_msgs))) [] []
   in l_received r = [[104, 105], [0x20AC]] \<and> l_error r = Some UnicodeDecodeError"
  using handle_delivers_stream [OF sample_msgs_ok refl refl] by (simp only: sample_msgs_good Let_def if_False simp_thms)

text \<open>
  A binary or continuation frame is not skipped: only its two header bytes are consumed, so the
  loop goes on reading at the length extension, the mask and the masked payload of that frame as if
  they were the next frames.
\<close>
theorem ignored_frame_not_consumed:
  assumes "op \<in> {OPCODE_BINARY, OPCODE_CONTINUATION}" and "length payload < 2 ^ 64"
  shows "handle_loop (open_conn (client_frame op key payload @ rest)) rcv snt =
    handle_loop (open_conn (snd (length_field (length payload)) @ key @ xor_mask key 0 payload @ rest)) rcv snt"
proof -
  obtain l ext where l: "length_field (length payload) = (l, ext)" by fastforce
  have op16: "op < 16" using assms by (auto simp: ws_consts)
  have "read_next_message (open_conn (client_frame op key payload @ rest)) =
      Inr (IgnoreFrame, open_conn (ext @ key @ xor_mask key 0 payload @ rest))"
    using assms opcode_bits(1) [OF op16] top_bit [of l]
    by (auto simp: client_frame_def l read_next_message_def Let_def ws_consts)
  then show ?thesis by (subst handle_loop.simps) (simp add: l)
qed

lemma ignored_frame_not_consumed_witness:
  "l_received (handle_loop (open_conn (client_frame OPCODE_BINARY [0x81, 0x81, 0, 0] [0x81, 0x81, 0x58])) [] []) = [[88]]"
proof -
  have e: "[0x81, 0x81, 0, 0] @ xor_mask [0x81, 0x81, 0, 0] 0 [0x81, 0x81, 0x58]
     = client_msg_bytes ([0, 0, 0, 0], OPCODE_TEXT, [88])"
    by code_simp
  have ok: "client_msg_ok ([0, 0, 0, 0], OPCODE_TEXT, [88]) \<and> readable ([0, 0, 0, 0], OPCODE_TEXT, [88])"
    and t: "map msg_text (sent_with OPCODE_TEXT [([0, 0, 0, 0], OPCODE_TEXT, [88])]) = [[88]]"
    by (simp add: client_msg_ok_def readable_def utf8_decode_def ws_consts, simp add: sent_with_def msg_text_def utf8_decode_def)
  from handle_loop_stream [of "[([0, 0, 0, 0], OPCODE_TEXT, [88])]" "[]" "[]" "[]"] ok t
  have "l_received (handle_loop (open_conn (client_msg_bytes ([0, 0, 0, 0], OPCODE_TEXT, [88]))) [] []) = [[88]]"
    by (auto simp: handle_loop.simps)
  with e show ?thesis
    using ignored_frame_not_consumed [of OPCODE_BINARY "[0x81, 0x81, 0x58]" "[0x81, 0x81, 0, 0]" "[]" "[]" "[]"]
    by (simp add: length_field_def)
qed

end
