(* ===== verification/WsServerLaws.thy ===== *)
theory WsServerLaws
  imports WsServer WsFrameLaws
begin

text \<open>
  The correctness of the WebSocket server of \<open>WsServer\<close>: the list of clients under every
  interleaving of the handler threads, one whole connection, broadcasts, the handshake, shutdown.
\<close>

section \<open>The list of clients\<close>

definition server_ok :: "nat set \<Rightarrow> server \<Rightarrow> bool" where
  "server_ok used s \<longleftrightarrow>
     sorted_wrt (<) (map cl_id (clients s)) \<and> (\<forall>c\<in>set (clients s). 0 < cl_id c \<and> cl_id c \<le> id_counter s)
     \<and> distinct (map cl_handler (clients s)) \<and> cl_handler ` set (clients s) \<subseteq> used"

text \<open>What an operation may do to the list of clients without entering anyone: remove some of them.\<close>

lemma subseq_set: "subseq xs ys \<Longrightarrow> set xs \<subseteq> set ys"
  by (induction rule: list_emb.induct) auto

lemma subseq_sorted_wrt: "subseq xs ys \<Longrightarrow> sorted_wrt P ys \<Longrightarrow> sorted_wrt P xs"
  by (induction rule: list_emb.induct) (auto dest: subseq_set)

lemma subseq_distinct: "subseq xs ys \<Longrightarrow> distinct ys \<Longrightarrow> distinct xs"
  by (induction rule: list_emb.induct) (auto dest: subseq_set)

lemma server_ok_subseq:
  assumes ok: "server_ok used s" and sub: "subseq (clients s') (clients s)" and n: "id_counter s' = id_counter s"
  shows "server_ok used s'"
  unfolding server_ok_def n
proof (intro conjI)
  show "sorted_wrt (<) (map cl_id (clients s'))" "distinct (map cl_handler (clients s'))"
    using ok subseq_map [OF sub] unfolding server_ok_def by (blast intro: subseq_sorted_wrt subseq_distinct)+
  show "\<forall>c\<in>set (clients s'). 0 < cl_id c \<and> cl_id c \<le> id_counter s" "cl_handler ` set (clients s') \<subseteq> used"
    using ok subseq_set [OF sub] unfolding server_ok_def by blast+
qed

lemma log_event_simps [simp]:
  "clients (log_event e s) = clients s" "id_counter (log_event e s) = id_counter s"
  "sk_error (log_event e s) = sk_error s" "stopped (log_event e s) = stopped s"
  "ws_log (log_event e s) = ws_log s @ [e]"
  by (simp_all add: log_event_def)

lemma handler_to_client_log [simp]: "handler_to_client (log_event e s) h = handler_to_client s h"
  by (simp add: handler_to_client_def)

lemma socket_send_keeps [simp]:
  "clients (snd (socket_send h b s)) = clients s" "id_counter (snd (socket_send h b s)) = id_counter s"
  by (auto simp: socket_send_def split: option.split)

lemma send_frame_keeps [simp]:
  "clients (snd (send_frame h r s)) = clients s" "id_counter (snd (send_frame h r s)) = id_counter s"
  by (auto simp: send_frame_def split: option.split sum.split)

lemma for_clients_keeps:
  assumes "\<And>c s. clients (snd (f c s)) = clients s \<and> id_counter (snd (f c s)) = id_counter s"
  shows "clients (snd (for_clients cs f s)) = clients s \<and> id_counter (snd (for_clients cs f s)) = id_counter s"
proof (induction cs arbitrary: s)
  case (Cons c cs)
  obtain e s' where r: "f c s = (e, s')" by fastforce
  with assms [of c s] Cons.IH [of s'] show ?case by (cases e) auto
qed simp

lemma multicast_keeps:
  "clients (snd (multicast m s)) = clients s \<and> id_counter (snd (multicast m s)) = id_counter s"
  unfolding multicast_def by (rule for_clients_keeps) (simp add: unicast_def)

lemma send_closes_keep:
  "clients (snd (for_clients cs (send_close_to st re) s)) = clients s
   \<and> id_counter (snd (for_clients cs (send_close_to st re) s)) = id_counter s"
  by (rule for_clients_keeps) (auto simp: send_close_to_def split: sum.split)

lemma subseq_remove1: "subseq (remove1 x xs) xs"
  by (induction xs) auto

lemma client_left_keeps:
  "subseq (clients (client_left h s)) (clients s)" "id_counter (client_left h s) = id_counter s"
  by (auto simp: clients_client_left subseq_remove1 split: option.split)
    (auto simp: client_left_def Let_def split: option.split)

lemma terminate_one_keeps:
  "subseq (clients (terminate_one c s)) (clients s)" "id_counter (terminate_one c s) = id_counter s"
  using client_left_keeps [of "cl_handler c" "s\<lparr>stopped := cl_handler c # stopped s\<rparr>"]
  by (simp_all add: terminate_one_def)

lemma terminate_from_keeps:
  "subseq (clients (terminate_from i s)) (clients s) \<and> id_counter (terminate_from i s) = id_counter s"
proof (induction i s rule: terminate_from.induct)
  case (1 i s)
  then show ?case
    using terminate_one_keeps [of "clients s ! i" s]
    by (subst (1 2) terminate_from.simps) (auto intro: subseq_order.order_trans)
qed

lemma close_server_keeps [simp]:
  "clients (close_server s) = clients s" "id_counter (close_server s) = id_counter s"
  by (simp_all add: close_server_def)

lemma shutdown_keeps:
  "subseq (clients (snd (shutdown_gracefully st re s))) (clients s)
   \<and> id_counter (snd (shutdown_gracefully st re s)) = id_counter s"
proof -
  obtain e s' where r: "for_clients (clients s) (send_close_to CLOSE_STATUS_NORMAL DEFAULT_CLOSE_REASON) s = (e, s')"
    by fastforce
  then have "clients s' = clients s" "id_counter s' = id_counter s"
    using send_closes_keep [of "clients s" CLOSE_STATUS_NORMAL DEFAULT_CLOSE_REASON s] by simp_all
  with r terminate_from_keeps [of 0 s'] show ?thesis
    by (cases e) (simp_all add: shutdown_gracefully_def shutdown_with_def terminate_client_handlers_def)
qed

lemma new_client_ok: "server_ok used s \<Longrightarrow> h \<notin> used \<Longrightarrow> server_ok (insert h used) (new_client h addr s)"
  by (auto simp: server_ok_def new_client_def Let_def sorted_wrt_append le_imp_less_Suc)

lemma ws_step_ok: "ws_step x y \<Longrightarrow> server_ok (fst x) (snd x) \<Longrightarrow> server_ok (fst y) (snd y)"
proof (induction rule: ws_step.induct)
  case (Join h used s addr)
  then show ?case by (simp add: new_client_ok)
next
  case (Leave used s h)
  then show ?case using client_left_keeps server_ok_subseq by (metis fst_conv snd_conv)
next
  case (Ping h m s e s' used)
  then show ?case using send_frame_keeps [of h "send_pong (Str m)" s]
    by (simp add: ping_received_def server_ok_def)
next
  case (Broadcast m s e s' used)
  then show ?case using multicast_keeps [of m s] by (simp add: server_ok_def)
next
  case (Unicast c m s e s' used)
  then show ?case using send_frame_keeps [of "cl_handler c" "WsFrame.send_message m" s]
    by (simp add: unicast_def server_ok_def)
next
  case (ShutdownGracefully st re s e s' used)
  then show ?case using shutdown_keeps [of st re s] server_ok_subseq by simp
next
  case (ShutdownAbruptly used s)
  then show ?case using terminate_from_keeps [of 0 s] server_ok_subseq
    by (simp add: shutdown_abruptly_def terminate_client_handlers_def)
qed (simp_all add: message_received_def server_ok_def)

interpretation ws: invariant "\<lambda>x. \<exists>sk. x = ({}, server_init\<lparr>sk_error := sk\<rparr>)" ws_step
  "\<lambda>x. server_ok (fst x) (snd x)"
proof
  fix x :: "nat set \<times> server"
  assume "\<exists>sk. x = ({}, server_init\<lparr>sk_error := sk\<rparr>)"
  then show "server_ok (fst x) (snd x)" by (auto simp: server_ok_def server_init_def)
qed (rule ws_step_ok)

lemmas ws_reachable_ok = ws.reach_inv

lemma handler_to_client_eq:
  assumes "distinct (map cl_handler (clients s))" and "c \<in> set (clients s)"
  shows "handler_to_client s (cl_handler c) = Some c"
proof -
  have "distinct (map cl_handler cs) \<Longrightarrow> c \<in> set cs \<Longrightarrow> find (\<lambda>x. cl_handler x = cl_handler c) cs = Some c" for cs
    by (induction cs) (auto simp: rev_image_eqI)
  with assms show ?thesis by (simp add: handler_to_client_def)
qed

section \<open>One connection\<close>

text \<open>What a client's message makes the server do, for the client \<open>c\<close> of the handler.\<close>

definition answers :: "client \<Rightarrow> client_msg \<Rightarrow> ws_event \<Rightarrow> bool" where
  "answers c m e = (case m of (key, op, p) \<Rightarrow>
     if op = OPCODE_TEXT then e = MessageReceived (Some c) (msg_text m)
     else (case e of SentBytes h f \<Rightarrow>
             h = cl_handler c \<and> rfc_server_frame f = Some (True, OPCODE_PONG, p, [])
           | _ \<Rightarrow> False))"

definition not_pong :: "client_msg \<Rightarrow> bool" where
  "not_pong m \<longleftrightarrow> fst (snd m) \<noteq> OPCODE_PONG"

lemma handler_to_client_ws_log [simp]: "handler_to_client (s\<lparr>ws_log := l\<rparr>) h = handler_to_client s h"
  by (simp add: handler_to_client_def)

lemma serve_loop_stream:
  assumes "\<forall>m\<in>set ms. client_msg_ok m \<and> readable m" and "handler_to_client s h = Some c" and "cl_handler c = h"
    and "sk_error s h = None" and "h \<notin> set (stopped s)"
  shows "\<exists>evs. serve_loop h (open_conn (concat (map client_msg_bytes ms) @ rest)) s
             = serve_loop h (open_conn rest) (s\<lparr>ws_log := ws_log s @ evs\<rparr>)
           \<and> list_all2 (answers c) (filter not_pong ms) evs"
  using assms
proof (induction ms arbitrary: s)
  case Nil
  then show ?case by simp
next
  case (Cons m ms)
  obtain key op p where m: "m = (key, op, p)" by (cases m)
  with Cons.prems have ok: "client_msg_ok (key, op, p)" "readable (key, op, p)" by simp_all
  let ?rest = "concat (map client_msg_bytes ms) @ rest"
  note frame = read_client_msg [OF ok(1), of ?rest]
  have IH: "\<exists>evs. serve_loop h (open_conn ?rest) (s\<lparr>ws_log := l\<rparr>) = serve_loop h (open_conn rest) (s\<lparr>ws_log := l @ evs\<rparr>)
           \<and> list_all2 (answers c) (filter not_pong ms) evs" for l
    using Cons.IH [of "s\<lparr>ws_log := l\<rparr>"] Cons.prems by simp
  from ok consider "op = OPCODE_TEXT" | "op = OPCODE_PING" | "op = OPCODE_PONG"
    by (auto simp: client_msg_ok_def)
  then show ?case
  proof cases
    case 1
    let ?e = "MessageReceived (Some c) (msg_text m)"
    obtain evs where "serve_loop h (open_conn ?rest) (s\<lparr>ws_log := ws_log s @ [?e]\<rparr>)
        = serve_loop h (open_conn rest) (s\<lparr>ws_log := (ws_log s @ [?e]) @ evs\<rparr>)" "list_all2 (answers c) (filter not_pong ms) evs"
      using IH by blast
    with 1 frame ok opcodes_differ Cons.prems show ?thesis
      by (subst serve_loop.simps, intro exI [of _ "?e # evs"])
        (simp add: m message_received_def log_event_def answers_def not_pong_def)
  next
    case 2
    obtain f where f: "send_pong (Str (msg_text m)) = Inr (Some f)"
      "rfc_server_frame f = Some (True, OPCODE_PONG, p, [])"
      using send_pong_frame [OF ok(2,1)] by (auto simp: m)
    let ?e = "SentBytes h f"
    obtain evs where "serve_loop h (open_conn ?rest) (s\<lparr>ws_log := ws_log s @ [?e]\<rparr>)
        = serve_loop h (open_conn rest) (s\<lparr>ws_log := (ws_log s @ [?e]) @ evs\<rparr>)" "list_all2 (answers c) (filter not_pong ms) evs"
      using IH by blast
    with 2 frame ok opcodes_differ f Cons.prems show ?thesis
      by (subst serve_loop.simps, intro exI [of _ "?e # evs"])
        (simp add: m ping_received_def send_frame_def socket_send_def log_event_def answers_def not_pong_def)
  next
    case 3
    with IH [of "ws_log s"] frame ok opcodes_differ Cons.prems show ?thesis
      by (subst serve_loop.simps) (simp add: m not_pong_def)
  qed
qed

text \<open>A request that \<open>handshake\<close> accepts, with its key.\<close>

definition accepted_key :: "string list \<Rightarrow> string option" where
  "accepted_key ls =
     (case read_http_headers ls of Inl _ \<Rightarrow> None
      | Inr headers \<Rightarrow>
          (case dget headers ''upgrade'' of None \<Rightarrow> None
           | Some up \<Rightarrow> if lower up = ''websocket'' then dget headers ''sec-websocket-key'' else None))"

definition the_client :: "nat \<Rightarrow> string \<Rightarrow> server \<Rightarrow> client" where
  "the_client h addr s = \<lparr>cl_id = Suc (id_counter s), cl_handler = h, cl_address = addr\<rparr>"

lemma handshake_accepts:
  assumes "accepted_key ls = Some key" and "sk_error s h = None"
  shows "handshake h addr ls s = (None, True, s\<lparr>id_counter := Suc (id_counter s),
      clients := clients s @ [the_client h addr s],
      ws_log := ws_log s @ [SentBytes h (ascii_bytes (make_handshake_response key)), NewClient (the_client h addr s)]\<rparr>)"
  using assms
  by (auto simp: accepted_key_def handshake_def socket_send_def new_client_def log_event_def Let_def the_client_def
      split: sum.splits option.splits if_splits)

lemma handshake_refuses:
  assumes "accepted_key ls = None"
  shows "\<exists>e. handshake h addr ls s = (e, False, s)"
  using assms by (auto simp: accepted_key_def handshake_def split: sum.splits option.splits if_splits)

lemma find_snoc_fresh: "h \<notin> cl_handler ` set cs \<Longrightarrow> cl_handler c = h \<Longrightarrow> find (\<lambda>x. cl_handler x = h) (cs @ [c]) = Some c"
  by (induction cs) auto

lemma remove1_snoc_fresh: "x \<notin> set xs \<Longrightarrow> remove1 x (xs @ [x]) = xs"
  by (induction xs) auto

text \<open>
  C31: One accepted connection on which no send fails and which nobody stops: the response to the key, the entry of the new
  client with the next id, then for each text frame, in order, its delivery under that client and for each ping its pong, and
  at the end the client leaves and the list of clients is as before. That goes up to the first frame whose payload, be it of a
  text, ping or pong, is not UTF-8: \<open>UnicodeDecodeError\<close> leaves the handler then. If there is none, no exception escapes.
\<close>
theorem connection_session:
  assumes "accepted_key ls = Some key" and "\<forall>m\<in>set ms. client_msg_ok m" and "good = takeWhile readable ms"
    and "sk_error s h = None" and "h \<notin> set (stopped s)" and "h \<notin> cl_handler ` set (clients s)"
  shows "\<exists>evs. run_handler h addr ls (open_conn (concat (map client_msg_bytes ms))) s =
      (if good = ms then None else Some UnicodeDecodeError, s\<lparr>id_counter := Suc (id_counter s),
         ws_log := ws_log s @ [SentBytes h (ascii_bytes (make_handshake_response key)),
            NewClient (the_client h addr s)] @ evs @ [ClientLeft (Some (the_client h addr s))]\<rparr>)
    \<and> list_all2 (answers (the_client h addr s)) (filter not_pong good) evs"
proof -
  let ?c = "the_client h addr s"
  define s1 where "s1 = s\<lparr>id_counter := Suc (id_counter s), clients := clients s @ [?c],
      ws_log := ws_log s @ [SentBytes h (ascii_bytes (make_handshake_response key)), NewClient ?c]\<rparr>"
  have c: "cl_handler ?c = h" by (simp add: the_client_def)
  with assms(6) have found: "handler_to_client s1 h = Some ?c"
    by (simp add: s1_def handler_to_client_def find_snoc_fresh)
  have fresh: "?c \<notin> set (clients s)" using assms(6) c by force
  from readable_split [OF assms(2)] obtain rest
    where rest: "concat (map client_msg_bytes ms) = concat (map client_msg_bytes good) @ rest" "good = ms \<Longrightarrow> rest = []"
      "good \<noteq> ms \<Longrightarrow> read_next_message (open_conn rest) = Inl UnicodeDecodeError" unfolding assms(3) by metis
  have "\<forall>m\<in>set good. client_msg_ok m \<and> readable m" using assms(2,3) by (auto dest: set_takeWhileD)
  from serve_loop_stream [OF this found c, of rest] assms(4,5) obtain evs
    where "serve_loop h (open_conn (concat (map client_msg_bytes ms))) s1 = serve_loop h (open_conn rest) (s1\<lparr>ws_log := ws_log s1 @ evs\<rparr>)"
      and evs: "list_all2 (answers ?c) (filter not_pong good) evs"
    by (auto simp: s1_def rest(1))
  moreover have "serve_loop h (open_conn rest) (s1\<lparr>ws_log := l\<rparr>) = (if good = ms then None else Some UnicodeDecodeError, s1\<lparr>ws_log := l\<rparr>)" for l
    using rest(2,3) assms(5) by (simp add: serve_loop.simps s1_def)
  ultimately have "run_handler h addr ls (open_conn (concat (map client_msg_bytes ms))) s
      = (if good = ms then None else Some UnicodeDecodeError, client_left h (s1\<lparr>ws_log := ws_log s1 @ evs\<rparr>))"
    using handshake_accepts [OF assms(1,4), of addr]
    by (simp add: run_handler_def handle_def s1_def [symmetric])
  also have "client_left h (s1\<lparr>ws_log := ws_log s1 @ evs\<rparr>) = s\<lparr>id_counter := Suc (id_counter s),
         ws_log := ws_log s @ [SentBytes h (ascii_bytes (make_handshake_response key)),
            NewClient ?c] @ evs @ [ClientLeft (Some ?c)]\<rparr>"
    using found fresh by (simp add: client_left_def Let_def log_event_def s1_def remove1_snoc_fresh)
  finally show ?thesis using evs by blast
qed

definition sample_request :: "string list" where
  "sample_request = [''GET /chat HTTP/1.1'', ''Upgrade: WebSocket'', ''Sec-WebSocket-Key: dGhlIHNhbXBsZSBub25jZQ=='', '''']"

lemma sample_key: "accepted_key sample_request = Some ''dGhlIHNhbXBsZSBub25jZQ==''"
  by code_simp

lemma connection_session_witness:
  "\<exists>evs. run_handler 7 ''a'' sample_request (open_conn (concat (map client_msg_bytes sample_msgs))) server_init =
      (Some UnicodeDecodeError, server_init\<lparr>id_counter := 1,
         ws_log := [SentBytes 7 (ascii_bytes (make_handshake_response ''dGhlIHNhbXBsZSBub25jZQ=='')),
            NewClient (the_client 7 ''a'' server_init)] @ evs @ [ClientLeft (Some (the_client 7 ''a'' server_init))]\<rparr>)
    \<and> list_all2 (answers (the_client 7 ''a'' server_init)) (filter not_pong (take 3 sample_msgs)) evs"
  using connection_session [OF sample_key sample_msgs_ok refl, of server_init 7 "''a''"]
  unfolding sample_msgs_good if_False by (simp add: server_init_def)

section \<open>Broadcast\<close>

definition reachable_clients :: "server \<Rightarrow> client list" where
  "reachable_clients s = takeWhile (\<lambda>c. sk_error s (cl_handler c) = None) (clients s)"

lemma for_clients_send:
  assumes "\<And>c s. f c s = socket_send (cl_handler c) b s"
  shows "for_clients cs f s =
    (case find (\<lambda>c. sk_error s (cl_handler c) \<noteq> None) cs of None \<Rightarrow> None
       | Some c \<Rightarrow> map_option OSError (sk_error s (cl_handler c)),
     s\<lparr>ws_log := ws_log s @
        map (\<lambda>c. SentBytes (cl_handler c) b) (takeWhile (\<lambda>c. sk_error s (cl_handler c) = None) cs)\<rparr>)"
proof (induction cs arbitrary: s)
  case (Cons c cs)
  then show ?case
    by (cases "sk_error s (cl_handler c)") (simp_all add: assms socket_send_def log_event_def cong: option.case_cong)
qed simp

lemma first_error_None:
  "(case find (\<lambda>c. g c \<noteq> None) cs of None \<Rightarrow> None | Some c \<Rightarrow> map_option OSError (g c)) = None
     \<longleftrightarrow> takeWhile (\<lambda>c. g c = None) cs = cs"
  by (induction cs) auto

text \<open>
  A broadcast of a text writes its one frame to the clients in the order in which they joined, up to
  the first whose socket fails: that error leaves the call and the clients after it get nothing. With
  no failing socket every client gets the frame.
\<close>
theorem multicast_in_order:
  assumes "send_message m = Inr (Some f)"
  shows "\<exists>e. multicast m s = (e, s\<lparr>ws_log := ws_log s @ map (\<lambda>c. SentBytes (cl_handler c) f) (reachable_clients s)\<rparr>)
    \<and> (e = None \<longleftrightarrow> reachable_clients s = clients s)"
proof -
  have "multicast m s = (case find (\<lambda>c. sk_error s (cl_handler c) \<noteq> None) (clients s) of None \<Rightarrow> None
       | Some c \<Rightarrow> map_option OSError (sk_error s (cl_handler c)),
     s\<lparr>ws_log := ws_log s @ map (\<lambda>c. SentBytes (cl_handler c) f) (reachable_clients s)\<rparr>)"
    unfolding multicast_def reachable_clients_def
    by (rule for_clients_send) (simp add: unicast_def assms send_frame_def)
  then show ?thesis
    by (intro exI conjI) (assumption, simp only: first_error_None reachable_clients_def)
qed

lemma send_hi: "send_message (Str [104, 105]) = Inr (Some [0x81, 2, 104, 105])"
  by (simp add: send_message_def send_text_def send_payload_def encode_to_UTF8_def utf8_encode_def
      is_scalar_def is_surrogate_def utf8_char_def ws_consts)

lemma multicast_in_order_witness:
  "\<exists>e. multicast (Str [104, 105]) (new_client 7 ''a'' server_init)
     = (e, (new_client 7 ''a'' server_init)\<lparr>ws_log :=
          [NewClient \<lparr>cl_id = 1, cl_handler = 7, cl_address = ''a''\<rparr>, SentBytes 7 [0x81, 2, 104, 105]]\<rparr>) \<and> e = None"
  using multicast_in_order [OF send_hi, of "new_client 7 ''a'' server_init"]
  by (simp add: new_client_def server_init_def log_event_def Let_def reachable_clients_def)

section \<open>Shutdown\<close>

fun evens :: "'a list \<Rightarrow> 'a list" where
  "evens [] = []" | "evens [x] = [x]" | "evens (x # y # zs) = x # evens zs"

fun odds :: "'a list \<Rightarrow> 'a list" where
  "odds [] = []" | "odds [x] = []" | "odds (x # y # zs) = y # odds zs"

definition terminated :: "client list \<Rightarrow> ws_event list" where
  "terminated cs = concat (map (\<lambda>c. [ClientLeft (Some c), ConnClosed (cl_handler c)]) cs)"

lemma terminate_one_eq:
  assumes "distinct (map cl_handler (clients s))" and "clients s = pre @ c # post"
  shows "terminate_one c s = s\<lparr>clients := pre @ post, stopped := cl_handler c # stopped s,
           ws_log := ws_log s @ [ClientLeft (Some c), ConnClosed (cl_handler c)]\<rparr>"
proof -
  have "handler_to_client s (cl_handler c) = Some c"
    by (rule handler_to_client_eq [OF assms(1)]) (simp add: assms(2))
  then have "handler_to_client (s\<lparr>stopped := cl_handler c # stopped s\<rparr>) (cl_handler c) = Some c"
    by (simp add: handler_to_client_def)
  moreover have "remove1 c (clients s) = pre @ post"
    using assms distinct_map [of cl_handler "clients s"] by (simp add: remove1_append)
  ultimately show ?thesis
    by (simp add: terminate_one_def client_left_def Let_def log_event_def assms(2))
qed

lemma terminate_from_eq:
  assumes "distinct (map cl_handler (clients s))" and "clients s = pre @ rest" and "length pre = i"
  shows "terminate_from i s = s\<lparr>clients := pre @ odds rest,
      stopped := rev (map cl_handler (evens rest)) @ stopped s, ws_log := ws_log s @ terminated (evens rest)\<rparr>"
  using assms
proof (induction rest arbitrary: i pre s rule: evens.induct)
  case 1
  then show ?case by (subst terminate_from.simps) (simp add: terminated_def)
next
  case (2 x)
  then have "terminate_one x s = s\<lparr>clients := pre @ [], stopped := cl_handler x # stopped s,
           ws_log := ws_log s @ [ClientLeft (Some x), ConnClosed (cl_handler x)]\<rparr>"
    by (intro terminate_one_eq)
  with 2 show ?case
    by (subst terminate_from.simps) (simp add: nth_append, subst terminate_from.simps, simp add: terminated_def)
next
  case (3 x y zs)
  have one: "terminate_one x s = s\<lparr>clients := pre @ y # zs, stopped := cl_handler x # stopped s,
           ws_log := ws_log s @ [ClientLeft (Some x), ConnClosed (cl_handler x)]\<rparr>" (is "_ = ?s")
    using 3 by (intro terminate_one_eq) auto
  have "terminate_from (Suc i) ?s = ?s\<lparr>clients := (pre @ [y]) @ odds zs,
      stopped := rev (map cl_handler (evens zs)) @ stopped ?s, ws_log := ws_log ?s @ terminated (evens zs)\<rparr>"
    using 3 by (intro "3.IH") auto
  then show ?case
    using 3 one by (subst terminate_from.simps) (simp add: nth_append terminated_def)
qed

lemma server_init_sk: "server_init\<lparr>sk_error := \<lambda>_. None\<rparr> = server_init"
  by (simp add: server_init_def)

lemma two_clients_reachable: "ws_reachable ({2, 1}, new_client 2 ''b'' (new_client 1 ''a'' server_init))"
proof -
  have "ws_reachable ({}, server_init)" using ws_start [of "\<lambda>_. None"] by (simp add: server_init_sk)
  then have "ws_reachable ({1}, new_client 1 ''a'' server_init)"
    using ws_step.Join [of 1 "{}" server_init "''a''"] by (blast intro: reach_next)
  then show ?thesis
    using ws_step.Join [of 2 "{1}" "new_client 1 ''a'' server_init" "''b''"] by (auto intro: reach_next)
qed

text \<open>
  \<open>_terminate_client_handlers\<close> ends only every other handler: the loop runs over the list from which
  \<open>finish\<close> removes, so the clients at odd positions stay in the list with \<open>keep_alive\<close> set and their
  connections open.
\<close>
theorem terminate_skips_every_other:
  assumes "ws_reachable (used, s)"
  shows "terminate_client_handlers s = s\<lparr>clients := odds (clients s),
      stopped := rev (map cl_handler (evens (clients s))) @ stopped s,
      ws_log := ws_log s @ terminated (evens (clients s))\<rparr>"
  using ws_reachable_ok [OF assms] unfolding terminate_client_handlers_def
  by (intro terminate_from_eq [where pre = "[]", simplified]) (simp_all add: server_ok_def)

lemma terminate_skips_every_other_witness:
  "clients (terminate_client_handlers (new_client 2 ''b'' (new_client 1 ''a'' server_init)))
     = [\<lparr>cl_id = 2, cl_handler = 2, cl_address = ''b''\<rparr>]"
  using terminate_skips_every_other [OF two_clients_reachable]
  by (simp add: new_client_def server_init_def log_event_def Let_def)

text \<open>
  Under every interleaving of joining, leaving, receiving, sending and shutting down, the listed
  clients have pairwise different ids, in the order of joining, none above \<open>id_counter\<close>, and pairwise
  different handlers; so a message of a listed client's handler is delivered under that very client.
\<close>
theorem server_clients_consistent:
  assumes "ws_reachable (used, s)"
  shows "sorted_wrt (<) (map cl_id (clients s)) \<and> (\<forall>c\<in>set (clients s). 0 < cl_id c \<and> cl_id c \<le> id_counter s)
    \<and> (\<forall>c\<in>set (clients s). ws_log (message_received (cl_handler c) m s) = ws_log s @ [MessageReceived (Some c) m])"
  using ws_reachable_ok [OF assms] handler_to_client_eq
  by (auto simp: server_ok_def message_received_def)

lemma server_clients_consistent_witness:
  "map cl_id (clients (new_client 2 ''b'' (new_client 1 ''a'' server_init))) = [1, 2]
   \<and> sorted_wrt (<) (map cl_id (clients (new_client 2 ''b'' (new_client 1 ''a'' server_init))))"
  using server_clients_consistent [OF two_clients_reachable, of "[]"]
  by (simp add: new_client_def server_init_def log_event_def Let_def)

section \<open>Refusals\<close>

lemma read_headers_error: "read_headers ls d = Inl e \<Longrightarrow> e = ValueError"
  by (induction ls d rule: read_headers.induct)
    (auto simp: Let_def split_colon_def bindR_eq_Inl split: if_splits)

lemma read_http_headers_error: "read_http_headers ls = Inl e \<Longrightarrow> e = ValueError \<or> e = AssertionError"
  by (auto simp: read_http_headers_def Let_def dest: read_headers_error split: if_splits list.splits)

text \<open>
  \<open>handshake\<close> makes the client valid exactly when the request is a readable \<open>GET\<close> that asks for an
  upgrade to \<open>websocket\<close> with a key and the response can be sent, and otherwise leaves the server as it
  was. A request without an \<open>Upgrade\<close> header is not refused like the others: its \<open>KeyError\<close> leaves
  the handler.
\<close>
theorem handshake_outcomes:
  "case handshake h addr ls s of (e, valid, s') \<Rightarrow>
     (valid \<longleftrightarrow> accepted_key ls \<noteq> None \<and> sk_error s h = None)
     \<and> clients s' = (if valid then clients s @ [the_client h addr s] else clients s)
     \<and> (e = Some KeyError \<longleftrightarrow> (\<exists>hs. read_http_headers ls = Inr hs \<and> dget hs ''upgrade'' = None))"
proof (cases "accepted_key ls")
  case None
  then obtain e where "handshake h addr ls s = (e, False, s)" using handshake_refuses by blast
  with None show ?thesis
    using read_http_headers_error [of ls]
    by (auto simp: handshake_def accepted_key_def split: sum.splits option.splits if_splits)
next
  case (Some key)
  show ?thesis
  proof (cases "sk_error s h")
    case None
    with Some show ?thesis
      by (auto simp: handshake_accepts accepted_key_def split: sum.splits option.splits)
  next
    case (Some e)
    with \<open>accepted_key ls = Some key\<close> show ?thesis
      by (auto simp: handshake_def accepted_key_def socket_send_def split: sum.splits option.splits if_splits)
  qed
qed

end
