(* ===== verification/Bricks.thy ===== *)
theory Bricks
  imports Prelude
begin

text \<open>
  \<open>src/watchdog/utils/bricks.py\<close>: \<open>SkipRepeatsQueue\<close> over \<open>queue.Queue\<close>. An object is a pair of its
  identity and its value: \<open>!=\<close> compares the keys of the values (\<open>_key()\<close>), \<open>is\<close> compares identities. The condition variables are
  left out; an operation that would block on an empty or full queue is the non-blocking one that raises.
\<close>

section \<open>The queue\<close>

type_synonym 'a obj = "nat \<times> 'a"

record 'a skip_queue =
  q_items :: "'a obj list"
  q_last :: "'a obj option"
  q_unfinished :: int
  q_maxsize :: nat

definition q_init :: "nat \<Rightarrow> 'a skip_queue" where
  "q_init maxsize = \<lparr>q_items = [], q_last = None, q_unfinished = 0, q_maxsize = maxsize\<rparr>"

text \<open>\<open>item != self._last_item\<close>, where \<open>_last_item\<close> may be \<open>None\<close>.\<close>

definition differs :: "('a \<Rightarrow> 'k) \<Rightarrow> 'a obj \<Rightarrow> 'a obj option \<Rightarrow> bool" where
  "differs key x l = (case l of None \<Rightarrow> True | Some y \<Rightarrow> key (snd x) \<noteq> key (snd y))"

definition q_put_item :: "('a \<Rightarrow> 'k) \<Rightarrow> 'a obj \<Rightarrow> 'a skip_queue \<Rightarrow> 'a skip_queue" where
  "q_put_item key x q =
     (if differs key x (q_last q) then q\<lparr>q_items := q_items q @ [x], q_last := Some x\<rparr>
      else q\<lparr>q_unfinished := q_unfinished q - 1\<rparr>)"

text \<open>\<open>Queue.put\<close> checks the size (a full queue raises \<open>Full\<close>), calls \<open>_put\<close> and counts the task.\<close>

definition q_full :: "'a skip_queue \<Rightarrow> bool" where
  "q_full q \<longleftrightarrow> 0 < q_maxsize q \<and> q_maxsize q \<le> length (q_items q)"

definition q_put :: "('a \<Rightarrow> 'k) \<Rightarrow> 'a obj \<Rightarrow> 'a skip_queue \<Rightarrow> 'a skip_queue option" where
  "q_put key x q =
     (if q_full q then None
      else (let q' = q_put_item key x q in Some (q'\<lparr>q_unfinished := q_unfinished q' + 1\<rparr>)))"

definition q_get :: "'a skip_queue \<Rightarrow> ('a obj \<times> 'a skip_queue) res" where
  "q_get q =
     (case q_items q of
        [] \<Rightarrow> Inl QueueEmpty
      | x # xs \<Rightarrow>
          Inr (x, q\<lparr>q_items := xs,
                    q_last := (case q_last q of None \<Rightarrow> None
                               | Some y \<Rightarrow> if fst x = fst y then None else Some y)\<rparr>))"

definition task_done :: "'a skip_queue \<Rightarrow> 'a skip_queue res" where
  "task_done q =
     (let n = q_unfinished q - 1 in if n < 0 then Inl ValueError else Inr (q\<lparr>q_unfinished := n\<rparr>))"

section \<open>The contract of a queue that drops repeats\<close>

text \<open>
  What a user of the queue relies on: \<open>view\<close> is the list of values inside, a value is dropped
  exactly when its key is that of the value queued last, and values leave in order.
\<close>

definition skip_append :: "('a \<Rightarrow> 'k) \<Rightarrow> 'a list \<Rightarrow> 'a \<Rightarrow> 'a list" where
  "skip_append key vs v = (if vs \<noteq> [] \<and> key (last vs) = key v then vs else vs @ [v])"

datatype 'a q_op = Put 'a | Get

locale repeat_dropping =
  fixes key :: "'a \<Rightarrow> 'k"
    and view :: "'q \<Rightarrow> 'a list"
    and ok :: "'q \<Rightarrow> bool"
    and put :: "'a \<Rightarrow> 'q \<Rightarrow> 'q"
    and get :: "'q \<Rightarrow> ('a \<times> 'q) option"
  assumes put_ok: "ok q \<Longrightarrow> ok (put v q)"
    and put_view: "ok q \<Longrightarrow> view (put v q) = skip_append key (view q) v"
    and get_none: "ok q \<Longrightarrow> get q = None \<longleftrightarrow> view q = []"
    and get_some: "ok q \<Longrightarrow> get q = Some (v, q') \<Longrightarrow> ok q' \<and> view q = v # view q'"
begin

primrec run :: "'a q_op list \<Rightarrow> 'q \<Rightarrow> 'a list \<times> 'q" where
  "run [] q = ([], q)"
| "run (oper # ops) q =
     (case oper of
        Put v \<Rightarrow> run ops (put v q)
      | Get \<Rightarrow> (case get q of None \<Rightarrow> run ops q
                | Some (v, q') \<Rightarrow> (case run ops q' of (out, q'') \<Rightarrow> (v # out, q''))))"

definition inputs :: "'a q_op list \<Rightarrow> 'a list" where
  "inputs ops = concat (map (\<lambda>oper. case oper of Put v \<Rightarrow> [v] | Get \<Rightarrow> []) ops)"

lemma remdups_adj_skip:
  "remdups_adj (map key (skip_append key vs v @ ws)) = remdups_adj (map key (vs @ v # ws))"
proof (cases "vs \<noteq> [] \<and> key (last vs) = key v")
  case True
  then obtain vs' u where vs: "vs = vs' @ [u]" "key u = key v" by (metis append_butlast_last_id)
  have "remdups_adj (ks @ k # k # js) = remdups_adj (ks @ k # js)" for ks js and k :: 'k
    by (induction ks) (simp_all add: remdups_adj_Cons split: list.split)
  with vs True show ?thesis by (simp add: skip_append_def)
qed (auto simp: skip_append_def)

lemma run_only_drops_repeats:
  "ok q \<Longrightarrow> run ops q = (out, q') \<Longrightarrow>
     ok q' \<and> remdups_adj (map key (out @ view q')) = remdups_adj (map key (view q @ inputs ops))"
proof (induction ops arbitrary: q out)
  case (Cons oper ops)
  show ?case
  proof (cases oper)
    case (Put v)
    with Cons.prems have r: "run ops (put v q) = (out, q')" and q: "ok (put v q)" by (simp_all add: put_ok)
    from Cons.IH [OF q r] Put Cons.prems(1) show ?thesis
      by (simp add: put_view inputs_def remdups_adj_skip del: map_append)
  next
    case Get
    show ?thesis
    proof (cases "get q")
      case None
      with Get Cons show ?thesis by (simp add: inputs_def)
    next
      case (Some r)
      then obtain v q1 where g: "get q = Some (v, q1)" by (cases r) auto
      obtain out' where r: "run ops q1 = (out', q')" and out: "out = v # out'"
        using Cons.prems(2) Get g by (auto split: prod.splits)
      have g1: "ok q1" "view q = v # view q1" using get_some [OF Cons.prems(1) g] by simp_all
      note IH = Cons.IH [OF g1(1) r]
      then have "remdups_adj (map key (v # out' @ view q')) = remdups_adj (map key (v # view q1 @ inputs ops))"
        by (simp add: remdups_adj_Cons)
      with IH out g1 Get show ?thesis by (simp add: inputs_def)
    qed
  qed
qed (simp add: inputs_def)

end

section \<open>\<open>SkipRepeatsQueue\<close> keeps the contract\<close>

text \<open>
  Each \<open>put\<close> of the observers passes a tuple made for that call, so its identity is new: \<open>fresh\<close> is
  the next identity. In a queue that is not empty \<open>_last_item\<close> is the object at its end.
\<close>

record 'a fresh_queue =
  fresh :: nat
  fq :: "'a skip_queue"

definition fq_put :: "('a \<Rightarrow> 'k) \<Rightarrow> 'a \<Rightarrow> 'a fresh_queue \<Rightarrow> 'a fresh_queue" where
  "fq_put key v s =
     (case q_put key (fresh s, v) (fq s) of None \<Rightarrow> s | Some q \<Rightarrow> \<lparr>fresh = Suc (fresh s), fq = q\<rparr>)"

definition fq_get :: "'a fresh_queue \<Rightarrow> ('a \<times> 'a fresh_queue) option" where
  "fq_get s = (case q_get (fq s) of Inl _ \<Rightarrow> None | Inr (x, q) \<Rightarrow> Some (snd x, s\<lparr>fq := q\<rparr>))"

definition fq_view :: "'a fresh_queue \<Rightarrow> 'a list" where
  "fq_view s = map snd (q_items (fq s))"

definition fq_ok :: "'a fresh_queue \<Rightarrow> bool" where
  "fq_ok s \<longleftrightarrow> q_maxsize (fq s) = 0
     \<and> q_last (fq s) = (if q_items (fq s) = [] then None else Some (last (q_items (fq s))))
     \<and> distinct (map fst (q_items (fq s))) \<and> (\<forall>x\<in>set (q_items (fq s)). fst x < fresh s)"

definition fq_init :: "'a fresh_queue" where
  "fq_init = \<lparr>fresh = 0, fq = q_init 0\<rparr>"

lemma fq_init_ok: "fq_ok fq_init" "fq_view fq_init = []"
  by (simp_all add: fq_ok_def fq_view_def fq_init_def q_init_def)

lemma fq_put_eq:
  assumes "fq_ok s"
  shows "fq_put key v s =
    (if fq_view s \<noteq> [] \<and> key (last (fq_view s)) = key v then s\<lparr>fresh := Suc (fresh s)\<rparr>
     else \<lparr>fresh = Suc (fresh s), fq = (fq s)\<lparr>q_items := q_items (fq s) @ [(fresh s, v)],
             q_last := Some (fresh s, v), q_unfinished := q_unfinished (fq s) + 1\<rparr>\<rparr>)"
  using assms
  by (auto simp: fq_ok_def fq_view_def fq_put_def q_put_def q_full_def q_put_item_def differs_def Let_def last_map
      split: option.splits)

lemma fq_put_ok: "fq_ok s \<Longrightarrow> fq_ok (fq_put key v s)"
  by (simp add: fq_put_eq) (auto simp: fq_ok_def less_Suc_eq)

lemma fq_get_ok: "fq_ok s \<Longrightarrow> fq_get s = Some (v, s') \<Longrightarrow> fq_ok s' \<and> fq_view s = v # fq_view s'"
  by (cases "q_items (fq s)")
    (auto simp: fq_ok_def fq_view_def fq_get_def q_get_def rev_image_eqI split: if_splits, force+)

interpretation srq: repeat_dropping key fq_view fq_ok "fq_put key" fq_get
  for key :: "'a \<Rightarrow> 'k"
proof unfold_locales
  fix s :: "'a fresh_queue" and v :: 'a and s'
  assume ok: "fq_ok s"
  then show "fq_ok (fq_put key v s)" by (rule fq_put_ok)
  from ok show "fq_view (fq_put key v s) = skip_append key (fq_view s) v"
    by (simp add: fq_put_eq skip_append_def) (simp add: fq_view_def)
  show "fq_get s = None \<longleftrightarrow> fq_view s = []"
    by (auto simp: fq_get_def q_get_def fq_view_def split: list.splits)
  show "fq_get s = Some (v, s') \<Longrightarrow> fq_ok s' \<and> fq_view s = v # fq_view s'"
    by (rule fq_get_ok [OF ok])
qed

primrec fq_run :: "('a \<Rightarrow> 'k) \<Rightarrow> 'a q_op list \<Rightarrow> 'a fresh_queue \<Rightarrow> 'a list \<times> 'a fresh_queue" where
  "fq_run key [] s = ([], s)"
| "fq_run key (oper # ops) s =
     (case oper of
        Put v \<Rightarrow> fq_run key ops (fq_put key v s)
      | Get \<Rightarrow> (case fq_get s of None \<Rightarrow> fq_run key ops s
                | Some (v, s') \<Rightarrow> (case fq_run key ops s' of (out, s'') \<Rightarrow> (v # out, s''))))"

lemma fq_run_eq: "fq_run (key :: 'a \<Rightarrow> 'k) ops s = srq.run TYPE('k) key ops s"
  by (induction ops arbitrary: s) (auto split: q_op.split option.split prod.split)

definition puts_of :: "'a q_op list \<Rightarrow> 'a list" where
  "puts_of ops = concat (map (\<lambda>oper. case oper of Put v \<Rightarrow> [v] | Get \<Rightarrow> []) ops)"


text \<open>
  While items are put and fetched, no two neighbours in the queue are equal, and
  \<open>unfinished_tasks\<close> counts exactly the items that were accepted, so that \<open>join\<close> waits for those and
  not for the dropped repeats.
\<close>
theorem queue_counts_accepted:
  "case fq_run key ops fq_init of (out, s) \<Rightarrow>
     distinct_adj (map key (fq_view s)) \<and> q_unfinished (fq s) = int (length out + length (fq_view s))"
proof -
  have put: "fq_ok s \<Longrightarrow> distinct_adj (map key (fq_view s)) \<Longrightarrow> q_unfinished (fq s) = n + int (length (fq_view s)) \<Longrightarrow>
      distinct_adj (map key (fq_view (fq_put key v s))) \<and> q_unfinished (fq (fq_put key v s)) = n + int (length (fq_view (fq_put key v s)))"
    for s :: "'a fresh_queue" and v n
    by (auto simp: fq_put_eq) (auto simp: fq_view_def distinct_adj_append_iff last_map)
  have get: "fq_get s = Some (v, s') \<Longrightarrow> fq_view s = v # fq_view s' \<Longrightarrow> q_unfinished (fq s') = q_unfinished (fq s)"
    for s s' :: "'a fresh_queue" and v
    by (auto simp: fq_get_def q_get_def split: list.splits)
  have "fq_ok s \<Longrightarrow> distinct_adj (map key (fq_view s)) \<Longrightarrow> q_unfinished (fq s) = n + int (length (fq_view s)) \<Longrightarrow>
      fq_run key ops s = (out, s') \<Longrightarrow>
      distinct_adj (map key (fq_view s')) \<and> q_unfinished (fq s') = n + int (length out + length (fq_view s'))"
    for s s' :: "'a fresh_queue" and out n
  proof (induction ops arbitrary: s out n)
    case (Cons oper ops)
    show ?case
    proof (cases oper)
      case (Put v)
      with Cons.prems have "fq_run key ops (fq_put key v s) = (out, s')" by simp
      with put [of s n v] Cons.IH [of "fq_put key v s" n out] Cons.prems show ?thesis by (auto simp: fq_put_ok)
    next
      case Get
      show ?thesis
      proof (cases "fq_get s")
        case None
        with Get Cons show ?thesis by simp
      next
        case (Some r)
        then obtain v s1 where g: "fq_get s = Some (v, s1)" by (cases r) auto
        obtain out' where r: "fq_run key ops s1 = (out', s')" "out = v # out'"
          using Cons.prems(4) Get g by (auto split: prod.splits)
        note g1 = fq_get_ok [OF Cons.prems(1) g]
        from Cons.IH [of s1 "n + 1" out'] Cons.prems g1 get [OF g] r show ?thesis
          by (cases "fq_view s1") auto
      qed
    qed
  qed simp
  from this [of fq_init 0] show ?thesis
    using fq_init_ok by (auto split: prod.split simp: fq_init_def q_init_def)
qed

end
