(* ===== verification/Patterns.thy ===== *)
theory Patterns
  imports PyText
begin

text \<open>
  \<open>src/watchdog/utils/patterns.py\<close>: filtering of paths by included and excluded patterns. The matcher
  \<open>PurePath.match\<close> of \<open>pathlib\<close> is the parameter \<open>pm\<close>: \<open>pm True\<close> for \<open>PurePosixPath\<close>, \<open>pm False\<close> for
  \<open>PureWindowsPath\<close>; it may raise (an empty pattern is a \<open>ValueError\<close>). The sets of patterns are lists
  without duplicates, iterated in order.
\<close>

type_synonym matcher = "bool \<Rightarrow> string \<Rightarrow> string \<Rightarrow> bool res"

text \<open>\<open>any(...)\<close> over a generator that may raise.\<close>

fun any_res :: "('a \<Rightarrow> bool res) \<Rightarrow> 'a list \<Rightarrow> bool res" where
  "any_res f [] = Inr False"
| "any_res f (x # xs) = bindR (f x) (\<lambda>b. if b then Inr True else any_res f xs)"

definition match_path :: "matcher \<Rightarrow> string \<Rightarrow> string list \<Rightarrow> string list \<Rightarrow> bool \<Rightarrow> bool res" where
  "match_path pm path included excluded case_sensitive =
     (let inc = (if case_sensitive then included else remdups (map lower included));
          exc = (if case_sensitive then excluded else remdups (map lower excluded))
      in if filter (\<lambda>p. p \<in> set exc) inc \<noteq> [] then Inl ValueError
         else bindR (any_res (pm case_sensitive path) inc) (\<lambda>i.
              if i then bindR (any_res (pm case_sensitive path) exc) (\<lambda>e. Inr (\<not> e)) else Inr False))"

definition or_default :: "string list option \<Rightarrow> string list \<Rightarrow> string list" where
  "or_default p d = (case p of None \<Rightarrow> d | Some ps \<Rightarrow> ps)"

text \<open>The generator \<open>filter_paths\<close>: what it yields, and the exception that ends it, if any.\<close>

fun filter_loop :: "(string \<Rightarrow> bool res) \<Rightarrow> string list \<Rightarrow> string list \<times> py_error option" where
  "filter_loop f [] = ([], None)"
| "filter_loop f (p # ps) =
     (case f p of
        Inl e \<Rightarrow> ([], Some e)
      | Inr b \<Rightarrow> (case filter_loop f ps of (ys, e) \<Rightarrow> (if b then p # ys else ys, e)))"

definition filter_paths ::
  "matcher \<Rightarrow> string list \<Rightarrow> string list option \<Rightarrow> string list option \<Rightarrow> bool \<Rightarrow> string list \<times> py_error option" where
  "filter_paths pm paths included excluded case_sensitive =
     filter_loop (\<lambda>p. match_path pm p (remdups (or_default included [''*'']))
        (remdups (or_default excluded [])) case_sensitive) paths"

definition match_any_paths ::
  "matcher \<Rightarrow> string list \<Rightarrow> string list option \<Rightarrow> string list option \<Rightarrow> bool \<Rightarrow> bool res" where
  "match_any_paths pm paths included excluded case_sensitive =
     any_res (\<lambda>p. match_path pm p (remdups (or_default included [''*'']))
        (remdups (or_default excluded [])) case_sensitive) paths"

section \<open>Lemmas\<close>

text \<open>A pattern listed on both sides, up to case when case is ignored.\<close>

definition conflict :: "string list \<Rightarrow> string list \<Rightarrow> bool \<Rightarrow> bool" where
  "conflict inc exc cs \<longleftrightarrow>
     (if cs then set inc \<inter> set exc \<noteq> {} else lower ` set inc \<inter> lower ` set exc \<noteq> {})"

lemma any_res_total:
  assumes "\<And>x. x \<in> set xs \<Longrightarrow> f x = Inr (g x)"
  shows "any_res f xs = Inr (\<exists>x\<in>set xs. g x)"
  using assms by (induction xs) auto

lemma filter_common: "filter (\<lambda>p. p \<in> S) A = [] \<longleftrightarrow> set A \<inter> S = {}"
  by (auto simp: filter_empty_conv)

lemma match_path_conflict:
  "conflict inc exc cs \<Longrightarrow> match_path pm p (remdups inc) (remdups exc) cs = Inl ValueError"
  by (cases cs) (simp_all add: match_path_def conflict_def Let_def filter_common)

lemma match_path_total:
  assumes "\<not> conflict inc exc cs" and "\<And>q. pm cs p q = Inr (m q)"
  shows "match_path pm p (remdups inc) (remdups exc) cs =
    (let f = (if cs then id else lower) in Inr ((\<exists>q\<in>set inc. m (f q)) \<and> \<not> (\<exists>q\<in>set exc. m (f q))))"
proof -
  have "filter (\<lambda>p. p \<in> set (if cs then remdups exc else remdups (map lower (remdups exc))))
      (if cs then remdups inc else remdups (map lower (remdups inc))) = []"
    using assms(1) by (cases cs) (simp_all add: conflict_def filter_common)
  moreover have "any_res (pm cs p) qs = Inr (\<exists>q\<in>set qs. m q)" for qs
    by (rule any_res_total) (rule assms(2))
  ultimately show ?thesis by (auto simp: match_path_def Let_def)
qed

lemma filter_loop_any:
  "filter_loop f ps = (ys, e) \<Longrightarrow>
     any_res f ps = (if ys \<noteq> [] then Inr True else case e of None \<Rightarrow> Inr False | Some x \<Rightarrow> Inl x)"
  by (induction ps arbitrary: ys e) (auto split: sum.splits prod.splits if_splits)

text \<open>
  \<open>match_any_paths\<close> agrees with \<open>filter_paths\<close> on the same arguments: it is true exactly when the
  generator yields a path before any exception, and raises exactly when the generator raises before
  its first path.
\<close>
lemma match_any_iff_filter:
  "match_any_paths pm ps inc exc cs =
     (case filter_paths pm ps inc exc cs of
        (y # ys, _) \<Rightarrow> Inr True | ([], Some e) \<Rightarrow> Inl e | ([], None) \<Rightarrow> Inr False)"
proof -
  obtain ys e where f: "filter_paths pm ps inc exc cs = (ys, e)" by fastforce
  with filter_loop_any show ?thesis
    by (auto simp: filter_paths_def match_any_paths_def split: list.split option.split)
qed

text \<open>
  With a matcher that answers, \<open>filter_paths\<close> yields, in order, exactly the paths that match an
  included pattern (any path, when none are given and \<open>*\<close> matches all) and no excluded one, with
  the patterns lowered when case is ignored; a pattern on both sides raises \<open>ValueError\<close> at the
  first path.
\<close>
theorem filter_paths_spec:
  assumes "\<And>p q. pm cs p q = Inr (m p q)" and "i = or_default inc [''*'']" and "x = or_default exc []"
    and "f = (if cs then id else lower)"
  shows "filter_paths pm ps inc exc cs =
    (if conflict i x cs then ([], if ps = [] then None else Some ValueError)
     else (filter (\<lambda>p. (\<exists>q\<in>set i. m p (f q)) \<and> \<not> (\<exists>q\<in>set x. m p (f q))) ps, None))"
proof (cases "conflict i x cs")
  case True
  then show ?thesis
    using assms(2,3) by (cases ps) (simp_all add: filter_paths_def match_path_conflict)
next
  case False
  have "match_path pm p (remdups i) (remdups x) cs = Inr ((\<exists>q\<in>set i. m p (f q)) \<and> \<not> (\<exists>q\<in>set x. m p (f q)))" for p
    using match_path_total [OF False, of pm p "m p"] assms(1,4) by (simp add: Let_def)
  then have "filter_loop (\<lambda>p. match_path pm p (remdups i) (remdups x) cs) ps
      = (filter (\<lambda>p. (\<exists>q\<in>set i. m p (f q)) \<and> \<not> (\<exists>q\<in>set x. m p (f q))) ps, None)"
    by (induction ps) simp_all
  with False show ?thesis using assms(2,3) by (simp add: filter_paths_def)
qed

text \<open>A matcher for the witness: a pattern is \<open>*\<close> or the path itself.\<close>

definition plain_matcher :: matcher where
  "plain_matcher cs p q = Inr (q = ''*'' \<or> (if cs then p else lower p) = q)"

lemma filter_paths_spec_witness:
  "filter_paths plain_matcher [''a'', ''B'', ''c''] None (Some [''b'']) False = ([''a'', ''c''], None)"
proof -
  have "lower ''a'' = ''a''" "lower ''B'' = ''b''" "lower ''c'' = ''c''" "lower ''b'' = ''b''" "lower ''*'' = ''*''"
    by code_simp+
  then show ?thesis
    using filter_paths_spec [of plain_matcher False "\<lambda>p q. q = ''*'' \<or> lower p = q" "[''*'']" None "[''b'']"
      "Some [''b'']" lower "[''a'', ''B'', ''c'']"]
    by (simp add: plain_matcher_def or_default_def conflict_def)
qed

end
