(* ===== verification/Events.thy ===== *)
theory Events
  imports Patterns
begin

text \<open>
  \<open>src/watchdog/events.py\<close>: the event classes with their comparison key, the dispatching handlers and
  the generators of synthetic events for moved and created directories. The methods \<open>on_...\<close> that
  users override are the recorded \<open>callback\<close>s; compiled regular expressions are parameters.
\<close>

section \<open>Events\<close>

datatype event_type = EVENT_TYPE_MOVED | EVENT_TYPE_DELETED | EVENT_TYPE_CREATED | EVENT_TYPE_MODIFIED | EVENT_TYPE_CLOSED

datatype event_class =
    FileDeletedEvent | FileModifiedEvent | FileCreatedEvent | FileMovedEvent | FileClosedEvent
  | DirDeletedEvent | DirModifiedEvent | DirCreatedEvent | DirMovedEvent

fun type_of :: "event_class \<Rightarrow> event_type" where
  "type_of FileDeletedEvent = EVENT_TYPE_DELETED"
| "type_of FileModifiedEvent = EVENT_TYPE_MODIFIED"
| "type_of FileCreatedEvent = EVENT_TYPE_CREATED"
| "type_of FileMovedEvent = EVENT_TYPE_MOVED"
| "type_of FileClosedEvent = EVENT_TYPE_CLOSED"
| "type_of DirDeletedEvent = EVENT_TYPE_DELETED"
| "type_of DirModifiedEvent = EVENT_TYPE_MODIFIED"
| "type_of DirCreatedEvent = EVENT_TYPE_CREATED"
| "type_of DirMovedEvent = EVENT_TYPE_MOVED"

definition dir_class :: "event_class \<Rightarrow> bool" where
  "dir_class c \<longleftrightarrow> c \<in> {DirDeletedEvent, DirModifiedEvent, DirCreatedEvent, DirMovedEvent}"

text \<open>
  A path may be \<open>None\<close> (the full inotify emitter reports half moves so). \<open>ev_dest\<close> is the attribute
  \<open>dest_path\<close>, which only the moved classes have.
\<close>

record fs_event =
  ev_class :: event_class
  ev_src :: "string option"
  ev_dest :: "string option"
  ev_synthetic :: bool

definition event :: "event_class \<Rightarrow> string \<Rightarrow> fs_event" where
  "event c src = \<lparr>ev_class = c, ev_src = Some src, ev_dest = None, ev_synthetic = False\<rparr>"

definition moved_event :: "event_class \<Rightarrow> string option \<Rightarrow> string option \<Rightarrow> fs_event" where
  "moved_event c src dest = \<lparr>ev_class = c, ev_src = src, ev_dest = dest, ev_synthetic = False\<rparr>"

definition synthetic :: "fs_event \<Rightarrow> fs_event" where
  "synthetic e = e\<lparr>ev_synthetic := True\<rparr>"

definition ev_type :: "fs_event \<Rightarrow> event_type" where
  "ev_type e = type_of (ev_class e)"

definition ev_is_directory :: "fs_event \<Rightarrow> bool" where
  "ev_is_directory e = dir_class (ev_class e)"

definition has_dest :: "fs_event \<Rightarrow> bool" where
  "has_dest e \<longleftrightarrow> ev_class e \<in> {FileMovedEvent, DirMovedEvent}"

text \<open>The key: a triple, or for the moved classes a quadruple with the destination.\<close>

datatype event_key =
    Key3 event_type "string option" bool
  | Key4 event_type "string option" "string option" bool

definition ev_key :: "fs_event \<Rightarrow> event_key" where
  "ev_key e =
     (if has_dest e then Key4 (ev_type e) (ev_src e) (ev_dest e) (ev_is_directory e)
      else Key3 (ev_type e) (ev_src e) (ev_is_directory e))"

definition ev_eq :: "fs_event \<Rightarrow> fs_event \<Rightarrow> bool" where
  "ev_eq a b \<longleftrightarrow> ev_key a = ev_key b"

definition ev_ne :: "fs_event \<Rightarrow> fs_event \<Rightarrow> bool" where
  "ev_ne a b \<longleftrightarrow> ev_key a \<noteq> ev_key b"

section \<open>Handlers\<close>

datatype callback = on_any_event | on_moved | on_created | on_deleted | on_modified | on_closed

fun on_type :: "event_type \<Rightarrow> callback" where
  "on_type EVENT_TYPE_CREATED = on_created"
| "on_type EVENT_TYPE_DELETED = on_deleted"
| "on_type EVENT_TYPE_MODIFIED = on_modified"
| "on_type EVENT_TYPE_MOVED = on_moved"
| "on_type EVENT_TYPE_CLOSED = on_closed"

text \<open>\<open>FileSystemEventHandler.dispatch\<close>: the methods called, in order.\<close>

definition base_dispatch :: "fs_event \<Rightarrow> callback list" where
  "base_dispatch e = [on_any_event, on_type (ev_type e)]"

text \<open>
  The paths of an event: \<open>os.fsdecode(None)\<close> raises \<open>TypeError\<close>; a source that is \<open>None\<close> or empty is
  left out.
\<close>

definition event_paths :: "fs_event \<Rightarrow> string list res" where
  "event_paths e =
     bindR (if has_dest e then (case ev_dest e of None \<Rightarrow> Inl TypeError | Some d \<Rightarrow> Inr [d]) else Inr []) (\<lambda>ds.
       Inr (ds @ (case ev_src e of None \<Rightarrow> [] | Some s \<Rightarrow> if s = [] then [] else [s])))"

record pattern_handler =
  ph_patterns :: "string list option"
  ph_ignore_patterns :: "string list option"
  ph_ignore_directories :: bool
  ph_case_sensitive :: bool

definition pattern_dispatch :: "matcher \<Rightarrow> pattern_handler \<Rightarrow> fs_event \<Rightarrow> callback list res" where
  "pattern_dispatch pm h e =
     (if ph_ignore_directories h \<and> ev_is_directory e then Inr []
      else bindR (event_paths e) (\<lambda>paths.
           bindR (match_any_paths pm paths (ph_patterns h) (ph_ignore_patterns h) (ph_case_sensitive h)) (\<lambda>b.
             Inr (if b then base_dispatch e else []))))"

text \<open>A compiled regular expression is its \<open>match\<close>.\<close>

type_synonym regex = "string \<Rightarrow> bool"

record regex_handler =
  rh_regexes :: "regex list"
  rh_ignore_regexes :: "regex list"
  rh_ignore_directories :: bool

text \<open>The constructor: the defaults, and \<open>compile cs r\<close> for \<open>re.compile(r)\<close> or \<open>re.compile(r, re.I)\<close>.\<close>

definition regex_handler_new ::
  "(bool \<Rightarrow> string \<Rightarrow> regex) \<Rightarrow> string list option \<Rightarrow> string list option \<Rightarrow> bool \<Rightarrow> bool \<Rightarrow> regex_handler" where
  "regex_handler_new compile regexes ignore_regexes ignore_directories case_sensitive =
     \<lparr>rh_regexes = map (compile case_sensitive) (or_default regexes [''.*'']),
      rh_ignore_regexes = map (compile case_sensitive) (or_default ignore_regexes []),
      rh_ignore_directories = ignore_directories\<rparr>"

definition any_match :: "regex list \<Rightarrow> string list \<Rightarrow> bool" where
  "any_match rs ps \<longleftrightarrow> (\<exists>r\<in>set rs. \<exists>p\<in>set ps. r p)"

definition regex_dispatch :: "regex_handler \<Rightarrow> fs_event \<Rightarrow> callback list res" where
  "regex_dispatch h e =
     (if rh_ignore_directories h \<and> ev_is_directory e then Inr []
      else bindR (event_paths e) (\<lambda>paths.
        Inr (if any_match (rh_ignore_regexes h) paths then []
             else if any_match (rh_regexes h) paths then base_dispatch e else [])))"

text \<open>\<open>LoggingEventHandler\<close>: the line logged by each method; closed events are not logged.\<close>

datatype log_line = Moved string "string option" "string option" | Created string "string option"
  | Deleted string "string option" | Modified string "string option"

definition what :: "fs_event \<Rightarrow> string" where
  "what e = (if ev_is_directory e then ''directory'' else ''file'')"

fun logging_method :: "callback \<Rightarrow> fs_event \<Rightarrow> log_line list" where
  "logging_method on_moved e = [Moved (what e) (ev_src e) (ev_dest e)]"
| "logging_method on_created e = [Created (what e) (ev_src e)]"
| "logging_method on_deleted e = [Deleted (what e) (ev_src e)]"
| "logging_method on_modified e = [Modified (what e) (ev_src e)]"
| "logging_method _ e = []"

definition logging_dispatch :: "fs_event \<Rightarrow> log_line list" where
  "logging_dispatch e = concat (map (\<lambda>m. logging_method m e) (base_dispatch e))"

section \<open>Synthetic events\<close>

text \<open>The triples of \<open>os.walk\<close> (\<open>root\<close>, directories, files).\<close>

type_synonym walk = "(string \<times> string list \<times> string list) list"

definition renamed_path :: "string option \<Rightarrow> string \<Rightarrow> string \<Rightarrow> string option" where
  "renamed_path src dest full =
     (case src of None \<Rightarrow> None | Some s \<Rightarrow> if s = [] then None else Some (replace_all dest s full))"

definition generate_sub_moved_events :: "walk \<Rightarrow> string option \<Rightarrow> string \<Rightarrow> fs_event list" where
  "generate_sub_moved_events w src dest =
     concat (map (\<lambda>(root, directories, filenames).
       map (\<lambda>d. let full = path_join root d in
                synthetic (moved_event DirMovedEvent (renamed_path src dest full) (Some full))) directories @
       map (\<lambda>f. let full = path_join root f in
                synthetic (moved_event FileMovedEvent (renamed_path src dest full) (Some full))) filenames) w)"

definition generate_sub_created_events :: "walk \<Rightarrow> fs_event list" where
  "generate_sub_created_events w =
     concat (map (\<lambda>(root, directories, filenames).
       map (\<lambda>d. synthetic (event DirCreatedEvent (path_join root d))) directories @
       map (\<lambda>f. synthetic (event FileCreatedEvent (path_join root f))) filenames) w)"

section \<open>Properties\<close>

lemma dir_class_moved [simp]: "dir_class DirMovedEvent" "\<not> dir_class FileMovedEvent"
  by (simp_all add: dir_class_def)

lemma class_determined: "type_of c = type_of d \<Longrightarrow> dir_class c = dir_class d \<Longrightarrow> c = d"
  by (cases c; cases d) (simp_all add: dir_class_def)

text \<open>
  Two events are equal exactly when they are of the same class with the same paths; whether an event
  is synthetic does not count. \<open>!=\<close> is the negation of \<open>==\<close>.
\<close>
theorem event_equality:
  "ev_eq a b = (ev_class a = ev_class b \<and> ev_src a = ev_src b \<and> (if has_dest a then ev_dest a = ev_dest b else True))
   \<and> ev_ne a b = (\<not> ev_eq a b)"
  by (auto simp: ev_eq_def ev_ne_def ev_key_def ev_type_def ev_is_directory_def has_dest_def class_determined
      split: if_splits)

text \<open>The files and directories below a walked tree, as pairs of the directory mark and the path.\<close>

definition walk_entries :: "walk \<Rightarrow> (bool \<times> string) list" where
  "walk_entries w = concat (map (\<lambda>(root, ds, fs).
     map (\<lambda>d. (True, path_join root d)) ds @ map (\<lambda>f. (False, path_join root f)) fs) w)"

lemma generate_sub_moved_eq:
  "generate_sub_moved_events w src dest =
     map (\<lambda>(d, p). synthetic (moved_event (if d then DirMovedEvent else FileMovedEvent)
            (renamed_path src dest p) (Some p))) (walk_entries w)"
  by (auto simp: generate_sub_moved_events_def walk_entries_def map_concat o_def Let_def intro!: arg_cong [where f = concat])

lemma renamed_below:
  assumes "dest \<noteq> []" and "src \<noteq> []" and "\<not> sublist dest x"
  shows "renamed_path (Some src) dest (dest @ x) = Some (src @ x)"
  using assms by (simp add: renamed_path_def replace_all_prefix replace_all_absent)

lemma sub_moved_events_eq:
  assumes "dest \<noteq> []" and "src \<noteq> []"
    and "\<forall>(d, p)\<in>set (walk_entries w). \<exists>x. p = dest @ x \<and> \<not> sublist dest x"
  shows "generate_sub_moved_events w (Some src) dest =
     map (\<lambda>(d, p). \<lparr>ev_class = (if d then DirMovedEvent else FileMovedEvent),
        ev_src = Some (src @ drop (length dest) p), ev_dest = Some p, ev_synthetic = True\<rparr>) (walk_entries w)"
proof -
  have "renamed_path (Some src) dest p = Some (src @ drop (length dest) p)" if "(d, p) \<in> set (walk_entries w)" for d p
  proof -
    from assms(3) that obtain x where "p = dest @ x" "\<not> sublist dest x" by blast
    with renamed_below [OF assms(1,2)] show ?thesis by simp
  qed
  then show ?thesis
    by (auto simp: generate_sub_moved_eq synthetic_def moved_event_def)
qed

text \<open>
  For a moved directory, one synthetic event is generated for each file and directory of the tree at
  the destination, in the order of the walk, which says that it came from the same place below the old
  path, provided the new path does not occur again inside the paths below it.
\<close>
theorem sub_moved_events_spec:
  assumes "dest \<noteq> []" and "src \<noteq> []"
    and "\<forall>(d, p)\<in>set (walk_entries w). \<exists>x. p = dest @ x \<and> \<not> sublist dest x"
  shows "generate_sub_moved_events w (Some src) dest =
     map (\<lambda>(d, p). \<lparr>ev_class = (if d then DirMovedEvent else FileMovedEvent),
        ev_src = Some (src @ drop (length dest) p), ev_dest = Some p, ev_synthetic = True\<rparr>) (walk_entries w)"
  using assms by (rule sub_moved_events_eq)

lemma sub_moved_events_spec_witness:
  "generate_sub_moved_events [(''/n'', [''d''], [''f''])] (Some ''/o'') ''/n'' =
     [\<lparr>ev_class = DirMovedEvent, ev_src = Some ''/o/d'', ev_dest = Some ''/n/d'', ev_synthetic = True\<rparr>,
      \<lparr>ev_class = FileMovedEvent, ev_src = Some ''/o/f'', ev_dest = Some ''/n/f'', ev_synthetic = True\<rparr>]"
  using sub_moved_events_spec [of "''/n''" "''/o''" "[(''/n'', [''d''], [''f''])]"]
  by (simp add: walk_entries_def path_join_def sep_def sublist_Cons_right)

text \<open>
  \<open>full_path.replace(dest_dir_path, src_dir_path)\<close> rewrites every occurrence of the new path: after a
  move of \<open>/a\<close> to \<open>/b\<close>, the file \<open>/b/x/b/y\<close> is reported as coming from \<open>/a/x/a/y\<close>, where it never
  was, instead of \<open>/a/x/b/y\<close>.
\<close>
theorem sub_moved_inner_occurrence:
  "map ev_src (generate_sub_moved_events [(''/b/x/b'', [], [''y''])] (Some ''/a'') ''/b'') = [Some ''/a/x/a/y'']"
proof -
  have "replace_all ''/b'' ''/a'' ''/b/x/b/y'' = ''/a/x/a/y''" by code_simp
  then show ?thesis
    by (simp add: generate_sub_moved_events_def renamed_path_def synthetic_def moved_event_def path_join_def sep_def)
qed

text \<open>
  A pattern handler passes an event on, as \<open>on_any_event\<close> and then the method of its type, exactly
  when it is not an ignored directory event and one of its paths (the destination of a move, a
  non-empty source) passes the patterns; but a move whose destination is \<open>None\<close>, as the full inotify
  emitter reports it, raises \<open>TypeError\<close>.
\<close>
theorem pattern_dispatch_spec:
  "pattern_dispatch pm h e =
     (if ph_ignore_directories h \<and> ev_is_directory e then Inr []
      else if has_dest e \<and> ev_dest e = None then Inl TypeError
      else (case match_any_paths pm ((if has_dest e then [the (ev_dest e)] else []) @
                  filter (\<lambda>s. s \<noteq> []) (case ev_src e of None \<Rightarrow> [] | Some s \<Rightarrow> [s]))
                (ph_patterns h) (ph_ignore_patterns h) (ph_case_sensitive h) of
              Inl x \<Rightarrow> Inl x
            | Inr b \<Rightarrow> Inr (if b then [on_any_event, on_type (ev_type e)] else [])))"
  by (auto simp: pattern_dispatch_def event_paths_def base_dispatch_def bindR_def split: option.splits sum.splits)

end
