(* ===== verification/ObserverApi.thy ===== *)
theory ObserverApi
  imports Bricks Events
begin

text \<open>
  \<open>src/watchdog/observers/api.py\<close>: watches, emitters and the observer that owns them. Objects with
  identity (emitters, handlers) are numbers; sets are lists without duplicates, in order of entry.
  What the environment decides is a parameter: whether starting an emitter's thread raises
  (\<open>start_error\<close>) and what a user's handler does when an event is dispatched to it (\<open>react\<close>).
\<close>

section \<open>State\<close>

record watch =
  w_path :: string
  w_recursive :: bool

text \<open>\<open>ev_key\<close> and the watch decide whether two queued tuples are equal.\<close>

definition item_key :: "fs_event \<times> watch \<Rightarrow> event_key \<times> watch" where
  "item_key x = (ev_key (fst x), snd x)"

record observer =
  ob_watches :: "watch list"
  ob_handlers :: "(watch, nat list) dict"
  ob_emitters :: "nat list"
  ob_emitter_for :: "(watch, nat) dict"
  ob_em_watch :: "nat \<Rightarrow> watch"
  ob_next :: nat
  ob_started :: "nat list"
  ob_stopped :: "nat list"
  ob_ran :: bool
  ob_ended :: bool
  ob_alive :: bool
  ob_queue :: "(fs_event \<times> watch) fresh_queue"

type_synonym obs_out = "py_error option \<times> observer"

definition obs_init :: observer where
  "obs_init = \<lparr>ob_watches = [], ob_handlers = [], ob_emitters = [], ob_emitter_for = [],
     ob_em_watch = (\<lambda>_. \<lparr>w_path = [], w_recursive = False\<rparr>), ob_next = 0, ob_started = [], ob_stopped = [],
     ob_ran = False, ob_ended = False, ob_alive = False, ob_queue = fq_init\<rparr>"

section \<open>Emitters\<close>

text \<open>\<open>EventEmitter.queue_event\<close> of emitter \<open>e\<close>.\<close>

definition queue_event :: "nat \<Rightarrow> fs_event \<Rightarrow> observer \<Rightarrow> observer" where
  "queue_event e ev s = s\<lparr>ob_queue := fq_put item_key (ev, ob_em_watch s e) (ob_queue s)\<rparr>"

definition new_emitter :: "watch \<Rightarrow> observer \<Rightarrow> nat \<times> observer" where
  "new_emitter w s =
     (ob_next s, s\<lparr>ob_next := Suc (ob_next s), ob_em_watch := (ob_em_watch s)(ob_next s := w)\<rparr>)"

definition add_emitter :: "nat \<Rightarrow> observer \<Rightarrow> observer" where
  "add_emitter e s =
     s\<lparr>ob_emitter_for := dset (ob_em_watch s e) e (ob_emitter_for s),
       ob_emitters := (if e \<in> set (ob_emitters s) then ob_emitters s else ob_emitters s @ [e])\<rparr>"

text \<open>
  \<open>emitter.start()\<close>: the thread may fail to start (\<open>on_thread_start\<close> raises before the thread runs); a
  thread is started at most once.
\<close>

definition start_emitter :: "(watch \<Rightarrow> py_error option) \<Rightarrow> nat \<Rightarrow> observer \<Rightarrow> obs_out" where
  "start_emitter start_error e s =
     (case start_error (ob_em_watch s e) of
        Some x \<Rightarrow> (Some x, s)
      | None \<Rightarrow> if e \<in> set (ob_started s) then (Some RuntimeError, s)
                else (None, s\<lparr>ob_started := e # ob_started s\<rparr>))"

definition stop_emitter :: "nat \<Rightarrow> observer \<Rightarrow> observer" where
  "stop_emitter e s = s\<lparr>ob_stopped := e # ob_stopped s\<rparr>"

text \<open>
  \<open>join\<close> of a thread that was never started raises a \<open>RuntimeError\<close>, which is caught. The model takes it that the emitter's
  \<open>on_thread_stop\<close> does not raise.
\<close>

definition remove_emitter :: "nat \<Rightarrow> observer \<Rightarrow> obs_out" where
  "remove_emitter e s =
     (case ddel_or (ob_emitter_for s) (ob_em_watch s e) of
        Inl x \<Rightarrow> (Some x, s)
      | Inr m \<Rightarrow>
          (let s1 = s\<lparr>ob_emitter_for := m\<rparr> in
           if e \<in> set (ob_emitters s1)
           then (None, stop_emitter e (s1\<lparr>ob_emitters := remove1 e (ob_emitters s1)\<rparr>))
           else (Some KeyError, s1)))"

definition clear_emitters :: "observer \<Rightarrow> observer" where
  "clear_emitters s =
     (fold stop_emitter (ob_emitters s) s)\<lparr>ob_emitters := [], ob_emitter_for := []\<rparr>"

section \<open>Handlers\<close>

definition handlers_of :: "watch \<Rightarrow> observer \<Rightarrow> nat list" where
  "handlers_of w s = (case dget (ob_handlers s) w of None \<Rightarrow> [] | Some hs \<Rightarrow> hs)"

definition add_handler :: "nat \<Rightarrow> watch \<Rightarrow> observer \<Rightarrow> observer" where
  "add_handler h w s =
     (let hs = handlers_of w s
      in s\<lparr>ob_handlers := dset w (if h \<in> set hs then hs else hs @ [h]) (ob_handlers s)\<rparr>)"

definition remove_handler :: "nat \<Rightarrow> watch \<Rightarrow> observer \<Rightarrow> obs_out" where
  "remove_handler h w s =
     (case dget (ob_handlers s) w of
        None \<Rightarrow> (Some KeyError, s)
      | Some hs \<Rightarrow>
          if h \<in> set hs then (None, s\<lparr>ob_handlers := dset w (remove1 h hs) (ob_handlers s)\<rparr>)
          else (Some KeyError, s))"

section \<open>\<open>BaseObserver\<close>\<close>

fun start_all :: "(watch \<Rightarrow> py_error option) \<Rightarrow> nat list \<Rightarrow> observer \<Rightarrow> obs_out" where
  "start_all start_error [] s = (None, s)"
| "start_all start_error (e # es) s =
     (case start_emitter start_error e s of
        (None, s1) \<Rightarrow> start_all start_error es s1
      | (Some x, s1) \<Rightarrow>
          (case remove_emitter e s1 of
             (Some y, s2) \<Rightarrow> (Some y, s2)
           | (None, s2) \<Rightarrow> (Some x, s2)))"

text \<open>
  \<open>start\<close> iterates over a copy of the set; the observer's own thread starts last, and only once: when it has ended it
  cannot be started again.
\<close>

definition obs_start :: "(watch \<Rightarrow> py_error option) \<Rightarrow> observer \<Rightarrow> obs_out" where
  "obs_start start_error s =
     (case start_all start_error (ob_emitters s) s of
        (Some x, s1) \<Rightarrow> (Some x, s1)
      | (None, s1) \<Rightarrow> if ob_ran s1 then (Some RuntimeError, s1) else (None, s1\<lparr>ob_ran := True, ob_alive := True\<rparr>))"

definition schedule :: "(watch \<Rightarrow> py_error option) \<Rightarrow> nat \<Rightarrow> watch \<Rightarrow> observer \<Rightarrow> obs_out" where
  "schedule start_error h w s =
     (let s1 = add_handler h w s;
          (r, s2) =
            (case dget (ob_emitter_for s1) w of
               Some _ \<Rightarrow> (None, s1)
             | None \<Rightarrow>
                 (case new_emitter w s1 of (e, s') \<Rightarrow>
                    (let s'' = add_emitter e s' in
                     if ob_alive s'' then start_emitter start_error e s'' else (None, s''))))
      in case r of
           Some x \<Rightarrow> (Some x, s2)
         | None \<Rightarrow> (None, s2\<lparr>ob_watches :=
                       (if w \<in> set (ob_watches s2) then ob_watches s2 else ob_watches s2 @ [w])\<rparr>))"

definition unschedule :: "watch \<Rightarrow> observer \<Rightarrow> obs_out" where
  "unschedule w s =
     (case dget (ob_emitter_for s) w of
        None \<Rightarrow> (Some KeyError, s)
      | Some e \<Rightarrow>
          (case ddel_or (ob_handlers s) w of
             Inl x \<Rightarrow> (Some x, s)
           | Inr hm \<Rightarrow>
               (case remove_emitter e (s\<lparr>ob_handlers := hm\<rparr>) of
                  (Some x, s1) \<Rightarrow> (Some x, s1)
                | (None, s1) \<Rightarrow>
                    if w \<in> set (ob_watches s1)
                    then (None, s1\<lparr>ob_watches := remove1 w (ob_watches s1)\<rparr>)
                    else (Some KeyError, s1))))"

definition unschedule_all :: "observer \<Rightarrow> observer" where
  "unschedule_all s = (clear_emitters (s\<lparr>ob_handlers := []\<rparr>))\<lparr>ob_watches := []\<rparr>"

text \<open>\<open>stop\<close> sets the event that the thread's loop looks at, and calls \<open>on_thread_stop\<close>; the thread ends later.\<close>

definition obs_stop :: "observer \<Rightarrow> observer" where
  "obs_stop s = unschedule_all (s\<lparr>ob_ended := True\<rparr>)"

section \<open>Dispatching\<close>

text \<open>
  The loop over a copy of the handlers: each is called only if it is registered at that moment. \<open>react h
  ev\<close> is what handler \<open>h\<close> does to the observer; an exception ends the call before \<open>task_done\<close>.
\<close>

type_synonym reaction = "nat \<Rightarrow> fs_event \<Rightarrow> observer \<Rightarrow> obs_out"

fun dispatch_to :: "reaction \<Rightarrow> fs_event \<Rightarrow> watch \<Rightarrow> nat list \<Rightarrow> observer \<Rightarrow> nat list \<times> obs_out" where
  "dispatch_to react ev w [] s = ([], None, s)"
| "dispatch_to react ev w (h # hs) s =
     (if h \<in> set (handlers_of w s)
      then (case react h ev s of
              (Some x, s1) \<Rightarrow> ([h], Some x, s1)
            | (None, s1) \<Rightarrow> (case dispatch_to react ev w hs s1 of (called, r) \<Rightarrow> (h # called, r)))
      else dispatch_to react ev w hs s)"

definition dispatch_events :: "reaction \<Rightarrow> observer \<Rightarrow> nat list \<times> obs_out" where
  "dispatch_events react s =
     (case q_get (fq (ob_queue s)) of
        Inl x \<Rightarrow> ([], Some x, s)
      | Inr ((i, ev, w), q) \<Rightarrow>
          (let s1 = s\<lparr>ob_queue := (ob_queue s)\<lparr>fq := q\<rparr>\<rparr> in
           case dispatch_to react ev w (handlers_of w s1) s1 of
             (called, Some x, s2) \<Rightarrow> (called, Some x, s2)
           | (called, None, s2) \<Rightarrow>
               (case task_done (fq (ob_queue s2)) of
                  Inl x \<Rightarrow> (called, Some x, s2)
                | Inr q' \<Rightarrow> (called, None, s2\<lparr>ob_queue := (ob_queue s2)\<lparr>fq := q'\<rparr>\<rparr>))))"

section \<open>Histories\<close>

text \<open>
  The calls of the API; each may raise and leaves the state it reached. The observer's thread may end at any time: after \<open>stop\<close>, or by an
  exception of a handler.
\<close>

inductive obs_step :: "observer \<Rightarrow> observer \<Rightarrow> bool" where
  Start: "obs_start se s = (r, s') \<Longrightarrow> obs_step s s'"
| Schedule: "schedule se h w s = (r, s') \<Longrightarrow> obs_step s s'"
| AddHandler: "obs_step s (add_handler h w s)"
| RemoveHandler: "remove_handler h w s = (r, s') \<Longrightarrow> obs_step s s'"
| Unschedule: "unschedule w s = (r, s') \<Longrightarrow> obs_step s s'"
| UnscheduleAll: "obs_step s (unschedule_all s)"
| Stop: "obs_step s (obs_stop s)"
| Ends: "obs_step s (s\<lparr>ob_alive := False\<rparr>)"
| Emit: "obs_step s (queue_event e ev s)"
| Fetch: "obs_step s (s\<lparr>ob_queue := q\<rparr>)"

abbreviation obs_reachable :: "observer \<Rightarrow> bool" where
  "obs_reachable \<equiv> reach (\<lambda>s. s = obs_init) obs_step"

section \<open>Invariant\<close>

text \<open>
  The emitters and their map are in step, every scheduled watch has an entry of handlers, entries hold
  no duplicates.
\<close>

definition emap_ok :: "(watch, nat) dict \<Rightarrow> nat list \<Rightarrow> (nat \<Rightarrow> watch) \<Rightarrow> bool" where
  "emap_ok m es em \<longleftrightarrow> dict_ok m \<and> distinct es \<and> (\<forall>w e. dget m w = Some e \<longleftrightarrow> e \<in> set es \<and> em e = w)"

lemma emap_ok_inj: "emap_ok m es em \<Longrightarrow> e \<in> set es \<Longrightarrow> f \<in> set es \<Longrightarrow> em e = em f \<Longrightarrow> e = f"
  unfolding emap_ok_def by (metis option.inject)

lemma emap_ok_remove:
  assumes "emap_ok m es em" and "e \<in> set es"
  shows "emap_ok (ddel (em e) m) (remove1 e es) em"
proof -
  have "(if w = em e then None else dget m w) = Some f \<longleftrightarrow> (f \<in> set es \<and> f \<noteq> e) \<and> em f = w" for w f
    using assms emap_ok_inj [OF assms(1,2), of f] unfolding emap_ok_def by auto
  with assms show ?thesis by (simp add: emap_ok_def)
qed

lemma emap_ok_add:
  assumes "emap_ok m es em" and "e \<notin> set es" and "dget m w = None"
  shows "emap_ok (dset w e m) (es @ [e]) (em(e := w))"
proof -
  have other: "em f \<noteq> w" if "f \<in> set es" for f
    using that assms(1,3) unfolding emap_ok_def by (metis option.distinct(1))
  have "(if v = w then Some e else dget m v) = Some f \<longleftrightarrow>
      (f = e \<or> f \<in> set es) \<and> (if f = e then w else em f) = v" for v f
    using assms other unfolding emap_ok_def by auto
  with assms show ?thesis by (auto simp: emap_ok_def)
qed

lemma emap_ok_get: "emap_ok m es em \<Longrightarrow> e \<in> set es \<Longrightarrow> dget m (em e) = Some e"
  by (simp add: emap_ok_def)

definition obs_ok :: "observer \<Rightarrow> bool" where
  "obs_ok s \<longleftrightarrow>
     emap_ok (ob_emitter_for s) (ob_emitters s) (ob_em_watch s)
     \<and> dict_ok (ob_handlers s) \<and> distinct (ob_watches s)
     \<and> (\<forall>e\<in>set (ob_emitters s) \<union> set (ob_started s). e < ob_next s)
     \<and> set (ob_watches s) \<subseteq> dom (map_of (ob_handlers s))
     \<and> (\<forall>w hs. dget (ob_handlers s) w = Some hs \<longrightarrow> distinct hs)"

lemma obs_ok_init: "obs_ok obs_init"
  by (simp add: obs_ok_def obs_init_def emap_ok_def)

lemma obs_ok_queue: "obs_ok s \<Longrightarrow> obs_ok (s\<lparr>ob_queue := q\<rparr>)"
  by (simp add: obs_ok_def)

lemma obs_ok_add_handler: "obs_ok s \<Longrightarrow> obs_ok (add_handler h w s)"
  by (auto simp: obs_ok_def add_handler_def handlers_of_def Let_def split: option.splits)

lemma obs_ok_remove_handler: "obs_ok s \<Longrightarrow> remove_handler h w s = (r, s') \<Longrightarrow> obs_ok s'"
  by (auto simp: obs_ok_def remove_handler_def split: option.splits if_splits)

lemma obs_ok_start_emitter:
  "obs_ok s \<Longrightarrow> e \<in> set (ob_emitters s) \<Longrightarrow> start_emitter se e s = (r, s') \<Longrightarrow>
     obs_ok s' \<and> ob_emitters s' = ob_emitters s"
  by (auto simp: obs_ok_def start_emitter_def split: option.splits if_splits)

lemma remove_emitter_eq:
  assumes "obs_ok s" and "e \<in> set (ob_emitters s)"
  shows "remove_emitter e s = (None, s\<lparr>ob_emitter_for := ddel (ob_em_watch s e) (ob_emitter_for s),
      ob_emitters := remove1 e (ob_emitters s), ob_stopped := e # ob_stopped s\<rparr>)"
proof -
  have "dget (ob_emitter_for s) (ob_em_watch s e) = Some e" using assms by (auto simp: obs_ok_def intro: emap_ok_get)
  then show ?thesis using assms by (simp add: remove_emitter_def ddel_or_def stop_emitter_def)
qed

lemma obs_ok_remove_emitter:
  "obs_ok s \<Longrightarrow> e \<in> set (ob_emitters s) \<Longrightarrow> remove_emitter e s = (r, s') \<Longrightarrow> obs_ok s'"
  using emap_ok_remove [of "ob_emitter_for s" "ob_emitters s" "ob_em_watch s" e]
    set_remove1_subset [of e "ob_emitters s"]
  by (auto simp: remove_emitter_eq obs_ok_def)

lemma obs_ok_start_all:
  "obs_ok s \<Longrightarrow> set es \<subseteq> set (ob_emitters s) \<Longrightarrow> start_all se es s = (r, s') \<Longrightarrow> obs_ok s'"
proof (induction es arbitrary: s)
  case (Cons e es)
  obtain x s1 where s1: "start_emitter se e s = (x, s1)" by fastforce
  have ok: "obs_ok s1" "ob_emitters s1 = ob_emitters s"
    using obs_ok_start_emitter [OF Cons.prems(1) _ s1] Cons.prems(2) by simp_all
  show ?case
  proof (cases x)
    case None
    with Cons.IH [OF ok(1)] Cons.prems ok s1 show ?thesis by simp
  next
    case (Some y)
    obtain z s2 where s2: "remove_emitter e s1 = (z, s2)" by fastforce
    have "obs_ok s2" using obs_ok_remove_emitter [OF ok(1) _ s2] ok Cons.prems by simp
    with Some s1 s2 Cons.prems show ?thesis by (cases z) auto
  qed
qed simp

lemma obs_ok_start: "obs_ok s \<Longrightarrow> obs_start se s = (r, s') \<Longrightarrow> obs_ok s'"
  using obs_ok_start_all [of s "ob_emitters s" se]
  by (auto simp: obs_start_def split: prod.splits option.splits if_splits) (simp add: obs_ok_def)

lemma obs_ok_new:
  assumes "obs_ok s" and "dget (ob_emitter_for s) w = None" and "new_emitter w s = (e, s')"
  shows "obs_ok (add_emitter e s') \<and> e \<in> set (ob_emitters (add_emitter e s'))"
proof -
  have e: "e = ob_next s" "s' = s\<lparr>ob_next := Suc e, ob_em_watch := (ob_em_watch s)(e := w)\<rparr>"
    using assms(3) by (auto simp: new_emitter_def)
  have fresh: "e \<notin> set (ob_emitters s)" using assms(1) e by (auto simp: obs_ok_def)
  have "emap_ok (dset w e (ob_emitter_for s)) (ob_emitters s @ [e]) ((ob_em_watch s)(e := w))"
    using assms(1,2) fresh by (intro emap_ok_add) (simp_all add: obs_ok_def)
  with assms(1) fresh e(1) show ?thesis unfolding obs_ok_def
    by (auto simp: add_emitter_def e(2) less_Suc_eq)
qed

lemma obs_ok_watches:
  "obs_ok s \<Longrightarrow> w \<in> dom (map_of (ob_handlers s)) \<Longrightarrow> obs_ok (s\<lparr>ob_watches :=
     (if w \<in> set (ob_watches s) then ob_watches s else ob_watches s @ [w])\<rparr>)"
  by (auto simp: obs_ok_def)

lemma obs_ok_schedule: 
  assumes "obs_ok s" and "schedule se h w s = (r, s')"
  shows "obs_ok s'"
proof -
  define s1 where "s1 = add_handler h w s"
  have ok1: "obs_ok s1" and w1: "w \<in> dom (map_of (ob_handlers s1))"
    using obs_ok_add_handler [OF assms(1)] by (auto simp: s1_def add_handler_def Let_def)
  obtain x s2 where s2: "(case dget (ob_emitter_for s1) w of
               Some _ \<Rightarrow> (None, s1)
             | None \<Rightarrow> (case new_emitter w s1 of (e, s') \<Rightarrow>
                    (let s'' = add_emitter e s' in
                     if ob_alive s'' then start_emitter se e s'' else (None, s'')))) = (x, s2)" by fastforce
  have "obs_ok s2 \<and> ob_handlers s2 = ob_handlers s1"
  proof (cases "dget (ob_emitter_for s1) w")
    case None
    obtain e s3 where n: "new_emitter w s1 = (e, s3)" by fastforce
    have h: "ob_handlers (add_emitter e s3) = ob_handlers s1" using n by (auto simp: new_emitter_def add_emitter_def)
    from obs_ok_new [OF ok1 None n] s2 None n h show ?thesis
      by (auto simp: Let_def start_emitter_def obs_ok_def split: if_splits option.splits)
  next
    case (Some e)
    with s2 ok1 show ?thesis by simp
  qed
  moreover have "(r, s') = (case x of Some y \<Rightarrow> (Some y, s2) | None \<Rightarrow> (None, s2\<lparr>ob_watches :=
                       (if w \<in> set (ob_watches s2) then ob_watches s2 else ob_watches s2 @ [w])\<rparr>))"
    using assms(2) s2 unfolding schedule_def by (simp add: s1_def [symmetric] Let_def)
  ultimately show ?thesis using obs_ok_watches [of s2 w] w1 by (auto split: option.splits)
qed

lemma obs_ok_unschedule:
  assumes "obs_ok s" and "unschedule w s = (r, s')"
  shows "obs_ok s'"
proof (cases "dget (ob_emitter_for s) w = None \<or> dget (ob_handlers s) w = None")
  case True
  with assms show ?thesis by (auto simp: unschedule_def ddel_or_def split: option.splits)
next
  case False
  then obtain e hs where e: "dget (ob_emitter_for s) w = Some e" "dget (ob_handlers s) w = Some hs" by auto
  have em: "e \<in> set (ob_emitters s)" "ob_em_watch s e = w" using assms(1) e by (auto simp: obs_ok_def emap_ok_def)
  let ?s1 = "s\<lparr>ob_handlers := ddel w (ob_handlers s), ob_emitter_for := ddel w (ob_emitter_for s),
      ob_emitters := remove1 e (ob_emitters s), ob_stopped := e # ob_stopped s\<rparr>"
  have "dget (ob_emitter_for s) (ob_em_watch s e) = Some e" using e em by simp
  then have "remove_emitter e (s\<lparr>ob_handlers := ddel w (ob_handlers s)\<rparr>) = (None, ?s1)"
    using em by (simp add: remove_emitter_def ddel_or_def stop_emitter_def)
  with e assms(2) have "s' = (if w \<in> set (ob_watches s) then ?s1\<lparr>ob_watches := remove1 w (ob_watches s)\<rparr> else ?s1)"
    by (auto simp: unschedule_def ddel_or_def split: if_splits)
  moreover have "emap_ok (ddel w (ob_emitter_for s)) (remove1 e (ob_emitters s)) (ob_em_watch s)"
    using emap_ok_remove [of "ob_emitter_for s" "ob_emitters s" "ob_em_watch s" e] assms(1) em
    by (simp add: obs_ok_def)
  moreover have "x \<in> set (remove1 e (ob_emitters s)) \<Longrightarrow> x \<in> set (ob_emitters s)" for x
    using set_remove1_subset [of e "ob_emitters s"] by blast
  ultimately show ?thesis using assms(1) by (auto simp: obs_ok_def split: if_splits)
qed

lemma fold_stop: "fold stop_emitter es s = s\<lparr>ob_stopped := rev es @ ob_stopped s\<rparr>"
  by (induction es arbitrary: s) (simp_all add: stop_emitter_def)

lemma unschedule_all_eq:
  "unschedule_all s = s\<lparr>ob_handlers := [], ob_stopped := rev (ob_emitters s) @ ob_stopped s, ob_emitters := [],
     ob_emitter_for := [], ob_watches := []\<rparr>"
  by (simp add: unschedule_all_def clear_emitters_def fold_stop)

lemma obs_ok_unschedule_all: "obs_ok s \<Longrightarrow> obs_ok (unschedule_all s)"
  by (auto simp: obs_ok_def unschedule_all_eq emap_ok_def)

lemma obs_step_ok: "obs_step s s' \<Longrightarrow> obs_ok s \<Longrightarrow> obs_ok s'"
proof (induction rule: obs_step.induct)
  case (Stop s)
  then have "obs_ok (s\<lparr>ob_ended := True\<rparr>)" by (simp add: obs_ok_def)
  then show ?case using obs_ok_unschedule_all by (simp add: obs_stop_def)
next
  case (Ends s)
  then show ?case by (simp add: obs_ok_def)
qed (auto simp: queue_event_def intro: obs_ok_start obs_ok_schedule obs_ok_add_handler obs_ok_remove_handler
    obs_ok_unschedule obs_ok_unschedule_all obs_ok_queue)

interpretation obs: invariant "\<lambda>s. s = obs_init" obs_step obs_ok
  by unfold_locales (auto intro: obs_ok_init obs_step_ok)

lemmas obs_reachable_ok = obs.reach_inv

section \<open>Properties\<close>

text \<open>
  C2: Through every history of calls, failing ones included, the emitters and their map stay in step (one
  emitter per watch, found under its own watch) and every scheduled watch has its entry of handlers,
  without duplicates. (Starting an emitter may raise; stopping one is taken not to.)
\<close>
theorem observer_bookkeeping:
  assumes "obs_reachable s"
  shows "(\<forall>w e. dget (ob_emitter_for s) w = Some e \<longleftrightarrow> e \<in> set (ob_emitters s) \<and> ob_em_watch s e = w)
    \<and> distinct (ob_emitters s) \<and> distinct (ob_watches s)
    \<and> set (ob_watches s) \<subseteq> dom (map_of (ob_handlers s)) \<and> (\<forall>w. distinct (handlers_of w s))"
  using obs_reachable_ok [OF assms]
  by (auto simp: obs_ok_def emap_ok_def handlers_of_def split: option.split)

text \<open>A watch with one handler on an observer that has not been started, for the witnesses.\<close>

definition demo_watch :: watch where
  "demo_watch = \<lparr>w_path = ''/w'', w_recursive = True\<rparr>"

definition demo_observer :: observer where
  "demo_observer = snd (schedule (\<lambda>_. None) 1 demo_watch obs_init)"

lemma demo_observer_eq: "demo_observer = obs_init\<lparr>ob_watches := [demo_watch], ob_handlers := [(demo_watch, [1])],
   ob_emitters := [0], ob_emitter_for := [(demo_watch, 0)], ob_em_watch := (ob_em_watch obs_init)(0 := demo_watch),
   ob_next := 1\<rparr>"
  by (simp add: demo_observer_def schedule_def add_handler_def handlers_of_def new_emitter_def add_emitter_def
      obs_init_def Let_def)

lemma obs_reachable_init: "obs_reachable obs_init"
  by (rule reach_start) simp

lemma demo_observer_reachable: "obs_reachable demo_observer"
  unfolding demo_observer_def
  by (rule reach_next [OF obs_reachable_init], rule obs_step.Schedule) (rule prod.collapse [symmetric])

lemma observer_bookkeeping_witness: "dget (ob_emitter_for demo_observer) demo_watch = Some 0"
  using observer_bookkeeping [OF demo_observer_reachable]
  by (simp add: demo_observer_eq)

text \<open>
  A watch that \<open>unschedule\<close> has removed is gone altogether: its emitter is stopped, it has no handlers
  and no emitter any more, every other watch keeps its handlers and its emitter, and an event of it
  that is still queued is dispatched to nobody.
\<close>
theorem unschedule_removes_watch:
  assumes "obs_reachable s" and "unschedule w s = (None, s')"
  shows "\<exists>e. dget (ob_emitter_for s) w = Some e \<and> e \<in> set (ob_stopped s') \<and> e \<notin> set (ob_emitters s')
    \<and> w \<notin> set (ob_watches s') \<and> dget (ob_emitter_for s') w = None \<and> handlers_of w s' = []
    \<and> (\<forall>v. v \<noteq> w \<longrightarrow> handlers_of v s' = handlers_of v s \<and> dget (ob_emitter_for s') v = dget (ob_emitter_for s) v)
    \<and> dispatch_to react ev w (handlers_of w s') s' = ([], None, s')"
proof -
  have ok: "obs_ok s" using assms(1) by (rule obs_reachable_ok)
  from assms(2) obtain e hs where e: "dget (ob_emitter_for s) w = Some e" "dget (ob_handlers s) w = Some hs"
    by (auto simp: unschedule_def ddel_or_def split: option.splits)
  have em: "e \<in> set (ob_emitters s)" "ob_em_watch s e = w" using ok e by (auto simp: obs_ok_def emap_ok_def)
  have "dget (ob_emitter_for s) (ob_em_watch s e) = Some e" using e em by simp
  then have "remove_emitter e (s\<lparr>ob_handlers := ddel w (ob_handlers s)\<rparr>) = (None, s\<lparr>ob_handlers := ddel w (ob_handlers s),
      ob_emitter_for := ddel w (ob_emitter_for s), ob_emitters := remove1 e (ob_emitters s), ob_stopped := e # ob_stopped s\<rparr>)"
    using em by (simp add: remove_emitter_def ddel_or_def stop_emitter_def)
  with e assms(2) have s': "s' = s\<lparr>ob_handlers := ddel w (ob_handlers s),
      ob_emitter_for := ddel w (ob_emitter_for s), ob_emitters := remove1 e (ob_emitters s), ob_stopped := e # ob_stopped s,
      ob_watches := remove1 w (ob_watches s)\<rparr>"
    by (auto simp: unschedule_def ddel_or_def split: if_splits)
  have "distinct (ob_emitters s)" "distinct (ob_watches s)" using ok by (auto simp: obs_ok_def emap_ok_def)
  then show ?thesis using e by (auto simp: s' handlers_of_def)
qed

lemma unschedule_removes_watch_witness:
  "handlers_of demo_watch (snd (unschedule demo_watch demo_observer)) = []"
proof -
  have "unschedule demo_watch demo_observer = (None, snd (unschedule demo_watch demo_observer))"
    by (simp add: demo_observer_eq obs_init_def unschedule_def ddel_or_def remove_emitter_def stop_emitter_def)
  from unschedule_removes_watch [OF demo_observer_reachable this] show ?thesis by blast
qed

text \<open>
  When starting the new emitter fails inside \<open>schedule\<close>, the exception leaves the call but the emitter
  stays on the books. A second \<open>schedule\<close> of the same watch then returns normally and lists the watch,
  with that emitter, which nobody starts: the watch never reports an event.
\<close>
theorem schedule_retry_never_starts:
  assumes "obs_reachable s" and "ob_alive s" and "dget (ob_emitter_for s) w = None" and "se w = Some x"
  shows "\<exists>s1 s2 e. schedule se h w s = (Some x, s1) \<and> schedule se' h w s1 = (None, s2)
    \<and> w \<in> set (ob_watches s2) \<and> dget (ob_emitter_for s2) w = Some e \<and> e \<notin> set (ob_started s2)"
proof -
  let ?e = "ob_next s"
  have fresh: "?e \<notin> set (ob_started s)" "?e \<notin> set (ob_emitters s)"
    using obs_reachable_ok [OF assms(1)] by (auto simp: obs_ok_def)
  let ?s1 = "(add_handler h w s)\<lparr>ob_next := Suc ?e, ob_em_watch := (ob_em_watch s)(?e := w),
      ob_emitter_for := dset w ?e (ob_emitter_for s), ob_emitters := ob_emitters s @ [?e]\<rparr>"
  have a: "ob_emitter_for (add_handler h w t) = ob_emitter_for t" "ob_alive (add_handler h w t) = ob_alive t"
    "ob_next (add_handler h w t) = ob_next t" "ob_em_watch (add_handler h w t) = ob_em_watch t"
    "ob_emitters (add_handler h w t) = ob_emitters t" "ob_started (add_handler h w t) = ob_started t"
    "ob_watches (add_handler h w t) = ob_watches t" for t
    by (simp_all add: add_handler_def Let_def)
  have "schedule se h w s = (Some x, ?s1)"
    using assms(2,3,4) fresh
    by (simp add: schedule_def Let_def a new_emitter_def add_emitter_def start_emitter_def)
  moreover have "schedule se' h w ?s1 = (None, (add_handler h w ?s1)\<lparr>ob_watches :=
      (if w \<in> set (ob_watches s) then ob_watches s else ob_watches s @ [w])\<rparr>)"
    by (simp add: schedule_def Let_def a)
  ultimately show ?thesis using fresh by (intro exI [of _ ?s1] exI [of _ ?e] exI conjI) (assumption | simp add: a)+
qed

definition alive_observer :: observer where
  "alive_observer = snd (obs_start (\<lambda>_. None) obs_init)"

lemma alive_observer_eq: "alive_observer = obs_init\<lparr>ob_ran := True, ob_alive := True\<rparr>"
  by (simp add: alive_observer_def obs_start_def obs_init_def)

lemma alive_observer_reachable: "obs_reachable alive_observer"
  unfolding alive_observer_def
  by (rule reach_next [OF obs_reachable_init], rule obs_step.Start) (rule prod.collapse [symmetric])

lemma schedule_retry_never_starts_witness:
  "\<exists>s1 s2 e. schedule (\<lambda>_. Some (OSError 2)) 1 demo_watch alive_observer = (Some (OSError 2), s1)
    \<and> schedule (\<lambda>_. None) 1 demo_watch s1 = (None, s2)
    \<and> demo_watch \<in> set (ob_watches s2) \<and> dget (ob_emitter_for s2) demo_watch = Some e \<and> e \<notin> set (ob_started s2)"
  by (rule schedule_retry_never_starts [OF alive_observer_reachable])
    (simp_all add: alive_observer_eq obs_init_def)

text \<open>
  A second \<open>start\<close> on a running observer does more than raise: the first of its emitters, which runs
  already and so cannot be started again, is stopped and dropped, while its watch stays scheduled.
\<close>
theorem second_start_drops_emitter:
  assumes "obs_reachable s" and "ob_emitters s = e # es" and "e \<in> set (ob_started s)"
  shows "\<exists>s'. obs_start (\<lambda>_. None) s = (Some RuntimeError, s') \<and> e \<notin> set (ob_emitters s') \<and> e \<in> set (ob_stopped s')
    \<and> dget (ob_emitter_for s') (ob_em_watch s e) = None \<and> ob_watches s' = ob_watches s"
proof -
  have ok: "obs_ok s" using assms(1) by (rule obs_reachable_ok)
  have "distinct (ob_emitters s)" using ok by (simp add: obs_ok_def emap_ok_def)
  moreover have "remove_emitter e s = (None, s\<lparr>ob_emitter_for := ddel (ob_em_watch s e) (ob_emitter_for s),
      ob_emitters := remove1 e (ob_emitters s), ob_stopped := e # ob_stopped s\<rparr>)"
    by (rule remove_emitter_eq [OF ok]) (simp add: assms(2))
  ultimately show ?thesis using assms(2,3) by (auto simp: obs_start_def start_emitter_def)
qed

lemma second_start_drops_emitter_witness:
  "ob_emitters (snd (obs_start (\<lambda>_. None) (snd (obs_start (\<lambda>_. None) demo_observer)))) = []"
proof -
  let ?s = "snd (obs_start (\<lambda>_. None) demo_observer)"
  have r: "obs_reachable ?s"
    by (rule reach_next [OF demo_observer_reachable], rule obs_step.Start) (rule prod.collapse [symmetric])
  have s: "?s = demo_observer\<lparr>ob_started := [0], ob_ran := True, ob_alive := True\<rparr>"
    by (simp add: demo_observer_eq obs_start_def start_emitter_def obs_init_def)
  have "ob_emitters ?s = 0 # []" "0 \<in> set (ob_started ?s)"
    unfolding s by (simp_all add: demo_observer_eq)
  from second_start_drops_emitter [OF r this] s show ?thesis
    by (auto simp: demo_observer_eq obs_start_def start_emitter_def remove_emitter_def ddel_or_def stop_emitter_def)
qed

text \<open>After \<open>stop\<close> an observer that was started cannot be started again.\<close>

lemma no_restart: "ob_ran s \<Longrightarrow> fst (obs_start se (obs_stop s)) = Some RuntimeError"
  by (simp add: obs_start_def obs_stop_def unschedule_all_eq)

lemma dispatch_none: "handlers_of w s = [] \<Longrightarrow> dispatch_to react ev w hs s = ([], None, s)"
  by (induction hs) simp_all

text \<open>
  Dispatching an event of a watch calls each of its handlers exactly once, in order, and marks the
  task as done, when the handlers leave the registration and the queue alone.
\<close>
theorem dispatch_calls_each_once:
  assumes "q_items (fq (ob_queue s)) = (i, ev, w) # rest" and "0 < q_unfinished (fq (ob_queue s))"
    and "\<And>h t. react h ev t = (None, t)"
  shows "\<exists>s'. dispatch_events react s = (handlers_of w s, None, s') \<and> q_items (fq (ob_queue s')) = rest
    \<and> q_unfinished (fq (ob_queue s')) = q_unfinished (fq (ob_queue s)) - 1"
proof -
  obtain q where q: "q_get (fq (ob_queue s)) = Inr ((i, ev, w), q)" "q_items q = rest"
    "q_unfinished q = q_unfinished (fq (ob_queue s))"
    using assms(1) by (simp add: q_get_def)
  let ?s1 = "s\<lparr>ob_queue := (ob_queue s)\<lparr>fq := q\<rparr>\<rparr>"
  have quiet: "set hs \<subseteq> set (handlers_of w t) \<Longrightarrow> dispatch_to react ev w hs t = (hs, None, t)" for hs t
    by (induction hs) (simp_all add: assms(3))
  have "handlers_of w ?s1 = handlers_of w s" by (simp add: handlers_of_def)
  with quiet [of "handlers_of w s" ?s1] q assms(2) show ?thesis
    by (simp add: dispatch_events_def task_done_def Let_def)
qed

definition busy_observer :: observer where
  "busy_observer = queue_event 0 (event FileModifiedEvent ''/w/f'') demo_observer"

lemma dispatch_calls_each_once_witness:
  "fst (dispatch_events (\<lambda>h ev t. (None, t)) busy_observer) = [1]"
proof -
  have b: "q_items (fq (ob_queue busy_observer)) = [(0, event FileModifiedEvent ''/w/f'', demo_watch)]"
    "q_unfinished (fq (ob_queue busy_observer)) = 1" "handlers_of demo_watch busy_observer = [1]"
    by (simp_all add: busy_observer_def queue_event_def demo_observer_eq obs_init_def fq_init_def q_init_def
        fq_put_def q_put_def q_full_def q_put_item_def differs_def handlers_of_def Let_def)
  have "\<exists>s'. dispatch_events (\<lambda>h ev t. (None, t)) busy_observer = (handlers_of demo_watch busy_observer, None, s')
      \<and> q_items (fq (ob_queue s')) = [] \<and> q_unfinished (fq (ob_queue s')) = q_unfinished (fq (ob_queue busy_observer)) - 1"
    by (rule dispatch_calls_each_once [OF b(1)]) (simp_all add: b(2))
  with b(3) show ?thesis by auto
qed

text \<open>
  A handler may unschedule from inside \<open>dispatch\<close>: once the first handler of the watch has
  unscheduled everything, no other handler is called for the event.
\<close>
theorem dispatch_respects_unschedule:
  assumes "handlers_of w s = h # hs" and "react h ev s = (None, unschedule_all s)"
  shows "dispatch_to react ev w (handlers_of w s) s = ([h], None, unschedule_all s)"
proof -
  have "handlers_of w (unschedule_all s) = []" by (simp add: unschedule_all_eq handlers_of_def)
  with assms show ?thesis by (simp add: dispatch_none)
qed

lemma dispatch_respects_unschedule_witness:
  "dispatch_to (\<lambda>h ev t. (None, unschedule_all t)) (event FileModifiedEvent ''/w/f'') demo_watch
     (handlers_of demo_watch demo_observer) demo_observer = ([1], None, unschedule_all demo_observer)"
  by (rule dispatch_respects_unschedule [where hs = "[]"]) (simp_all add: demo_observer_eq handlers_of_def)

end
