(* ===== verification/Inotify.thy ===== *)
theory Inotify
  imports PyText "HOL-Library.Word"
begin

text \<open>
  \<open>src/watchdog/observers/inotify_c.py\<close>: the event masks, \<open>InotifyEvent\<close>, the parser of the kernel's
  event buffer and the class \<open>Inotify\<close> with its two maps between watch descriptors and paths. Byte
  strings are lists of 8-bit characters. The kernel and the file system are parameters (\<open>kernel\<close>):
  the answers of \<open>inotify_add_watch\<close>, \<open>inotify_rm_watch\<close>, \<open>os.walk\<close>, \<open>os.path.isdir\<close> and
  \<open>os.path.islink\<close>.
\<close>

unbundle bit_operations_syntax

type_synonym mask = "32 word"

section \<open>\<open>InotifyConstants\<close>\<close>

definition IN_ACCESS :: mask where "IN_ACCESS = 0x00000001"
definition IN_MODIFY :: mask where "IN_MODIFY = 0x00000002"
definition IN_ATTRIB :: mask where "IN_ATTRIB = 0x00000004"
definition IN_CLOSE_WRITE :: mask where "IN_CLOSE_WRITE = 0x00000008"
definition IN_CLOSE_NOWRITE :: mask where "IN_CLOSE_NOWRITE = 0x00000010"
definition IN_OPEN :: mask where "IN_OPEN = 0x00000020"
definition IN_MOVED_FROM :: mask where "IN_MOVED_FROM = 0x00000040"
definition IN_MOVED_TO :: mask where "IN_MOVED_TO = 0x00000080"
definition IN_CREATE :: mask where "IN_CREATE = 0x00000100"
definition IN_DELETE :: mask where "IN_DELETE = 0x00000200"
definition IN_DELETE_SELF :: mask where "IN_DELETE_SELF = 0x00000400"
definition IN_MOVE_SELF :: mask where "IN_MOVE_SELF = 0x00000800"
definition IN_IGNORED :: mask where "IN_IGNORED = 0x00008000"
definition IN_DONT_FOLLOW :: mask where "IN_DONT_FOLLOW = 0x02000000"
definition IN_ISDIR :: mask where "IN_ISDIR = 0x40000000"
definition IN_MOVE :: mask where "IN_MOVE = IN_MOVED_FROM OR IN_MOVED_TO"

definition WATCHDOG_ALL_EVENTS :: mask where
  "WATCHDOG_ALL_EVENTS =
     foldl (OR) IN_MODIFY
       [IN_ATTRIB, IN_MOVED_FROM, IN_MOVED_TO, IN_CREATE, IN_DELETE, IN_DELETE_SELF, IN_DONT_FOLLOW,
        IN_CLOSE_WRITE]"

lemmas in_consts =
  IN_ACCESS_def IN_MODIFY_def IN_ATTRIB_def IN_CLOSE_WRITE_def IN_CLOSE_NOWRITE_def IN_OPEN_def
  IN_MOVED_FROM_def IN_MOVED_TO_def IN_CREATE_def IN_DELETE_def IN_DELETE_SELF_def IN_MOVE_SELF_def
  IN_IGNORED_def IN_DONT_FOLLOW_def IN_ISDIR_def

section \<open>\<open>InotifyEvent\<close>\<close>

record inotify_event =
  ie_wd :: int
  ie_mask :: mask
  ie_cookie :: mask
  ie_name :: string
  ie_src_path :: string

definition has_flag :: "mask \<Rightarrow> inotify_event \<Rightarrow> bool" where
  "has_flag f e \<longleftrightarrow> (ie_mask e AND f) > 0"

definition is_modify :: "inotify_event \<Rightarrow> bool" where "is_modify e = has_flag IN_MODIFY e"
definition is_close_write :: "inotify_event \<Rightarrow> bool" where "is_close_write e = has_flag IN_CLOSE_WRITE e"
definition is_close_nowrite :: "inotify_event \<Rightarrow> bool" where "is_close_nowrite e = has_flag IN_CLOSE_NOWRITE e"
definition is_access :: "inotify_event \<Rightarrow> bool" where "is_access e = has_flag IN_ACCESS e"
definition is_delete :: "inotify_event \<Rightarrow> bool" where "is_delete e = has_flag IN_DELETE e"
definition is_delete_self :: "inotify_event \<Rightarrow> bool" where "is_delete_self e = has_flag IN_DELETE_SELF e"
definition is_create :: "inotify_event \<Rightarrow> bool" where "is_create e = has_flag IN_CREATE e"
definition is_moved_from :: "inotify_event \<Rightarrow> bool" where "is_moved_from e = has_flag IN_MOVED_FROM e"
definition is_moved_to :: "inotify_event \<Rightarrow> bool" where "is_moved_to e = has_flag IN_MOVED_TO e"
definition is_move :: "inotify_event \<Rightarrow> bool" where "is_move e = has_flag IN_MOVE e"
definition is_move_self :: "inotify_event \<Rightarrow> bool" where "is_move_self e = has_flag IN_MOVE_SELF e"
definition is_attrib :: "inotify_event \<Rightarrow> bool" where "is_attrib e = has_flag IN_ATTRIB e"
definition is_ignored :: "inotify_event \<Rightarrow> bool" where "is_ignored e = has_flag IN_IGNORED e"

definition is_directory :: "inotify_event \<Rightarrow> bool" where
  "is_directory e \<longleftrightarrow> is_delete_self e \<or> is_move_self e \<or> has_flag IN_ISDIR e"

lemmas flag_defs =
  has_flag_def is_modify_def is_close_write_def is_close_nowrite_def is_access_def is_delete_def
  is_delete_self_def is_create_def is_moved_from_def is_moved_to_def is_move_def is_move_self_def
  is_attrib_def is_ignored_def

definition ie_key :: "inotify_event \<Rightarrow> string \<times> int \<times> mask \<times> mask \<times> string" where
  "ie_key e = (ie_src_path e, ie_wd e, ie_mask e, ie_cookie e, ie_name e)"

definition ie_eq :: "inotify_event \<Rightarrow> inotify_event \<Rightarrow> bool" where
  "ie_eq a b \<longleftrightarrow> ie_key a = ie_key b"

text \<open>\<open>__ne__\<close> compares the keys with \<open>==\<close>, as \<open>__eq__\<close> does.\<close>

definition ie_ne :: "inotify_event \<Rightarrow> inotify_event \<Rightarrow> bool" where
  "ie_ne a b \<longleftrightarrow> ie_key a = ie_key b"

section \<open>The event buffer\<close>

text \<open>\<open>struct.unpack_from('iIII', buf, i)\<close> on a little-endian machine.\<close>

definition byte :: "char \<Rightarrow> mask" where
  "byte c = of_nat (of_char c)"

definition le32 :: "string \<Rightarrow> mask" where
  "le32 s = byte (s ! 0) OR push_bit 8 (byte (s ! 1)) OR push_bit 16 (byte (s ! 2)) OR push_bit 24 (byte (s ! 3))"

definition nul :: char where
  "nul = CHR 0x00"

type_synonym raw_event = "int \<times> mask \<times> mask \<times> string"

text \<open>The generator, from index \<open>i\<close> on, as a function of the bytes from \<open>i\<close> on.\<close>

function parse_event_buffer :: "string \<Rightarrow> raw_event list" where
  "parse_event_buffer buf =
     (if length buf < 16 then []
      else
        (let wd = sint (le32 (take 4 buf)); m = le32 (take 4 (drop 4 buf));
             cookie = le32 (take 4 (drop 8 buf)); len = unat (le32 (take 4 (drop 12 buf)));
             name = rstrip_while (\<lambda>c. c = nul) (take len (drop 16 buf))
         in (wd, m, cookie, name) # parse_event_buffer (drop (16 + len) buf)))"
  by pat_completeness auto
termination
  by (relation "measure length") auto

declare parse_event_buffer.simps [simp del]

section \<open>The class \<open>Inotify\<close>\<close>

text \<open>
  The answer of the \<open>n\<close>-th call of \<open>inotify_add_watch\<close> is a descriptor or an \<open>errno\<close>; \<open>k_walk\<close> gives
  the triples of \<open>os.walk\<close>; \<open>k_rm\<close> gives the \<open>errno\<close> of a failing \<open>inotify_rm_watch\<close>.
\<close>

record kernel =
  k_add :: "nat \<Rightarrow> string \<Rightarrow> int + int"
  k_rm :: "int \<Rightarrow> int option"
  k_isdir :: "string \<Rightarrow> bool"
  k_islink :: "string \<Rightarrow> bool"
  k_walk :: "string \<Rightarrow> (string \<times> string list \<times> string list) list"

text \<open>
  \<open>in_calls\<close> counts the calls of \<open>inotify_add_watch\<close>. \<open>in_clash\<close> is a history variable of the model
  only, never read by an operation: it records that the kernel answered with a descriptor that was
  on the books under another path.
\<close>

record inotify =
  wd_for_path :: "(string, int) dict"
  path_for_wd :: "(int, string) dict"
  moved_from_events :: "(mask, inotify_event) dict"
  in_path :: string
  in_recursive :: bool
  in_calls :: nat
  in_clash :: bool

definition EACCES :: int where "EACCES = 13"
definition ENOTDIR :: int where "ENOTDIR = 20"

text \<open>\<open>_raise_error\<close>: silent for \<open>EACCES\<close>.\<close>

definition raise_error :: "int \<Rightarrow> unit res" where
  "raise_error err = (if err = EACCES then Inr () else Inl (OSError err))"

definition store_watch :: "string \<Rightarrow> int \<Rightarrow> inotify \<Rightarrow> inotify" where
  "store_watch path wd s =
     s\<lparr>wd_for_path := dset path wd (wd_for_path s), path_for_wd := dset wd path (path_for_wd s),
       in_clash := in_clash s \<or> wd \<noteq> -1 \<and> dget (path_for_wd s) wd \<notin> {None, Some path}\<rparr>"

definition add_watch :: "kernel \<Rightarrow> string \<Rightarrow> inotify \<Rightarrow> int res \<times> inotify" where
  "add_watch K path s =
     (let s1 = s\<lparr>in_calls := Suc (in_calls s)\<rparr> in
      case k_add K (in_calls s) path of
        Inr wd \<Rightarrow> (Inr wd, store_watch path wd s1)
      | Inl err \<Rightarrow>
          (case raise_error err of
             Inl e \<Rightarrow> (Inl e, s1)
           | Inr _ \<Rightarrow> (Inr (-1), store_watch path (-1) s1)))"

text \<open>\<open>remove_watch\<close>: the books are cleared before the kernel is asked.\<close>

definition remove_watch :: "kernel \<Rightarrow> string \<Rightarrow> inotify \<Rightarrow> unit res \<times> inotify" where
  "remove_watch K path s =
     (case dget (wd_for_path s) path of
        None \<Rightarrow> (Inl KeyError, s)
      | Some wd \<Rightarrow>
          (let s1 = s\<lparr>wd_for_path := ddel path (wd_for_path s)\<rparr> in
           case ddel_or (path_for_wd s1) wd of
             Inl e \<Rightarrow> (Inl e, s1)
           | Inr pw \<Rightarrow>
               (case k_rm K wd of
                  None \<Rightarrow> Inr ()
                | Some err \<Rightarrow> raise_error err, s1\<lparr>path_for_wd := pw\<rparr>)))"

fun add_subdirs :: "kernel \<Rightarrow> string \<Rightarrow> string list \<Rightarrow> inotify \<Rightarrow> unit res \<times> inotify" where
  "add_subdirs K root [] s = (Inr (), s)"
| "add_subdirs K root (d # ds) s =
     (let full = path_join root d in
      if k_islink K full then add_subdirs K root ds s
      else (case add_watch K full s of
              (Inl e, s1) \<Rightarrow> (Inl e, s1)
            | (Inr _, s1) \<Rightarrow> add_subdirs K root ds s1))"

fun add_walk :: "kernel \<Rightarrow> (string \<times> string list \<times> string list) list \<Rightarrow> inotify \<Rightarrow> unit res \<times> inotify" where
  "add_walk K [] s = (Inr (), s)"
| "add_walk K ((root, ds, _) # w) s =
     (case add_subdirs K root ds s of
        (Inl e, s1) \<Rightarrow> (Inl e, s1)
      | (Inr _, s1) \<Rightarrow> add_walk K w s1)"

definition add_dir_watch :: "kernel \<Rightarrow> string \<Rightarrow> bool \<Rightarrow> inotify \<Rightarrow> unit res \<times> inotify" where
  "add_dir_watch K path recursive s =
     (if \<not> k_isdir K path then (Inl (OSError ENOTDIR), s)
      else
        (case add_watch K path s of
           (Inl e, s1) \<Rightarrow> (Inl e, s1)
         | (Inr _, s1) \<Rightarrow> if recursive then add_walk K (k_walk K path) s1 else (Inr (), s1)))"

definition inotify_new :: "kernel \<Rightarrow> string \<Rightarrow> bool \<Rightarrow> inotify res" where
  "inotify_new K path recursive =
     (let s = \<lparr>wd_for_path = [], path_for_wd = [], moved_from_events = [], in_path = path,
               in_recursive = recursive, in_calls = 0, in_clash = False\<rparr> in
      if k_isdir K path
      then (case add_dir_watch K path recursive s of (Inl e, _) \<Rightarrow> Inl e | (Inr _, s1) \<Rightarrow> Inr s1)
      else (case add_watch K path s of (Inl e, _) \<Rightarrow> Inl e | (Inr _, s1) \<Rightarrow> Inr s1))"

subsection \<open>Moves\<close>

definition clear_move_records :: "inotify \<Rightarrow> inotify" where
  "clear_move_records s = s\<lparr>moved_from_events := []\<rparr>"

definition source_for_move :: "inotify \<Rightarrow> inotify_event \<Rightarrow> string option" where
  "source_for_move s e = map_option ie_src_path (dget (moved_from_events s) (ie_cookie e))"

definition remember_move_from_event :: "inotify_event \<Rightarrow> inotify \<Rightarrow> inotify" where
  "remember_move_from_event e s = s\<lparr>moved_from_events := dset (ie_cookie e) e (moved_from_events s)\<rparr>"

text \<open>One entry of the books goes from path \<open>p\<close> to path \<open>q\<close>.\<close>

definition move_entry :: "string \<Rightarrow> string \<Rightarrow> int \<Rightarrow> inotify \<Rightarrow> inotify" where
  "move_entry p q wd s =
     s\<lparr>wd_for_path := dset q wd (ddel p (wd_for_path s)), path_for_wd := dset wd q (path_for_wd s)\<rparr>"

fun move_below :: "string \<Rightarrow> string \<Rightarrow> string list \<Rightarrow> inotify \<Rightarrow> unit res \<times> inotify" where
  "move_below src dst [] s = (Inr (), s)"
| "move_below src dst (p # ps) s =
     (if prefix (src @ [sep]) p
      then (case dget (wd_for_path s) p of
              None \<Rightarrow> (Inl KeyError, s)
            | Some wd \<Rightarrow> move_below src dst ps (move_entry p (replace_all src dst p) wd s))
      else move_below src dst ps s)"

definition handle_moved_to :: "inotify_event \<Rightarrow> inotify \<Rightarrow> unit res \<times> inotify" where
  "handle_moved_to e s =
     (case source_for_move s e of
        None \<Rightarrow> (Inr (), s)
      | Some src \<Rightarrow>
          (case dget (wd_for_path s) src of
             None \<Rightarrow> (Inr (), s)
           | Some wd \<Rightarrow>
               (let s1 = move_entry src (ie_src_path e) wd s in
                if in_recursive s1 then move_below src (ie_src_path e) (dkeys (wd_for_path s1)) s1
                else (Inr (), s1))))"

subsection \<open>\<open>read_events\<close>\<close>

text \<open>\<open>_recursive_simulate\<close>: an \<open>OSError\<close> skips the directory, a \<open>KeyError\<close> is not caught.\<close>

fun simulate_dirs :: "kernel \<Rightarrow> string \<Rightarrow> string list \<Rightarrow> inotify \<Rightarrow> inotify_event list \<times> inotify" where
  "simulate_dirs K root [] s = ([], s)"
| "simulate_dirs K root (d # ds) s =
     (let full = path_join root d in
      case add_watch K full s of
        (Inl _, s1) \<Rightarrow> simulate_dirs K root ds s1
      | (Inr wd, s1) \<Rightarrow>
          (case simulate_dirs K root ds s1 of (es, s2) \<Rightarrow>
             (\<lparr>ie_wd = wd, ie_mask = IN_CREATE OR IN_ISDIR, ie_cookie = 0, ie_name = d,
               ie_src_path = full\<rparr> # es, s2)))"

fun simulate_files :: "string \<Rightarrow> string list \<Rightarrow> inotify \<Rightarrow> inotify_event list res" where
  "simulate_files root [] s = Inr []"
| "simulate_files root (f # fs) s =
     (let full = path_join root f in
      bindR (dget_or (wd_for_path s) (dirname full)) (\<lambda>wd.
      bindR (simulate_files root fs s) (\<lambda>es.
        Inr (\<lparr>ie_wd = wd, ie_mask = IN_CREATE, ie_cookie = 0, ie_name = f, ie_src_path = full\<rparr> # es))))"

fun recursive_simulate ::
  "kernel \<Rightarrow> (string \<times> string list \<times> string list) list \<Rightarrow> inotify \<Rightarrow> inotify_event list res \<times> inotify" where
  "recursive_simulate K [] s = (Inr [], s)"
| "recursive_simulate K ((root, ds, fs) # w) s =
     (case simulate_dirs K root ds s of (es1, s1) \<Rightarrow>
        (case simulate_files root fs s1 of
           Inl e \<Rightarrow> (Inl e, s1)
         | Inr es2 \<Rightarrow>
             (case recursive_simulate K w s1 of
                (Inl e, s2) \<Rightarrow> (Inl e, s2)
              | (Inr es3, s2) \<Rightarrow> (Inr (es1 @ es2 @ es3), s2))))"

text \<open>\<open>self._path_for_wd.pop(wd)\<close>, then the entry of that path if it still names \<open>wd\<close>.\<close>

definition drop_ignored :: "int \<Rightarrow> inotify \<Rightarrow> unit res \<times> inotify" where
  "drop_ignored wd s =
     (case dget (path_for_wd s) wd of
        None \<Rightarrow> (Inl KeyError, s)
      | Some path \<Rightarrow>
          (let s1 = s\<lparr>path_for_wd := ddel wd (path_for_wd s)\<rparr> in
           case dget (wd_for_path s1) path of
             None \<Rightarrow> (Inl KeyError, s1)
           | Some wd' \<Rightarrow>
               (Inr (), if wd' = wd then s1\<lparr>wd_for_path := ddel path (wd_for_path s1)\<rparr> else s1)))"

text \<open>One raw event of the buffer: the events it gives, or the exception that leaves \<open>read_events\<close>.\<close>

definition event_path :: "string \<Rightarrow> string \<Rightarrow> string" where
  "event_path wd_path name = (if name \<noteq> [] then path_join wd_path name else wd_path)"

definition record_event :: "kernel \<Rightarrow> inotify_event \<Rightarrow> inotify \<Rightarrow> inotify_event list res \<times> inotify" where
  "record_event K e s =
     (if is_ignored e
      then (case drop_ignored (ie_wd e) s of (Inl err, s1) \<Rightarrow> (Inl err, s1) | (Inr _, s1) \<Rightarrow> (Inr [], s1))
      else if in_recursive s \<and> is_directory e \<and> is_create e
      then (case add_watch K (ie_src_path e) s of
              (Inl _, s1) \<Rightarrow> (Inr [e], s1)
            | (Inr _, s1) \<Rightarrow>
                (case recursive_simulate K (k_walk K (ie_src_path e)) s1 of
                   (Inl err, s2) \<Rightarrow> (Inl err, s2)
                 | (Inr es, s2) \<Rightarrow> (Inr (e # es), s2)))
      else (Inr [e], s))"

definition read_one :: "kernel \<Rightarrow> raw_event \<Rightarrow> inotify \<Rightarrow> inotify_event list res \<times> inotify" where
  "read_one K r s =
     (case r of (wd, m, cookie, name) \<Rightarrow>
      if wd = -1 then (Inr [], s)
      else
        (case dget (path_for_wd s) wd of
           None \<Rightarrow> (Inl KeyError, s)
         | Some wd_path \<Rightarrow>
             (let e = \<lparr>ie_wd = wd, ie_mask = m, ie_cookie = cookie, ie_name = name,
                       ie_src_path = event_path wd_path name\<rparr> in
              if is_moved_from e then record_event K e (remember_move_from_event e s)
              else if is_moved_to e
              then (case handle_moved_to e s of
                      (Inl err, s1) \<Rightarrow> (Inl err, s1)
                    | (Inr _, s1) \<Rightarrow> record_event K (e\<lparr>ie_src_path := path_join wd_path name\<rparr>) s1)
              else record_event K e s)))"

fun read_all :: "kernel \<Rightarrow> raw_event list \<Rightarrow> inotify \<Rightarrow> inotify_event list res \<times> inotify" where
  "read_all K [] s = (Inr [], s)"
| "read_all K (r # rs) s =
     (case read_one K r s of
        (Inl e, s1) \<Rightarrow> (Inl e, s1)
      | (Inr es, s1) \<Rightarrow>
          (case read_all K rs s1 of
             (Inl e, s2) \<Rightarrow> (Inl e, s2)
           | (Inr es', s2) \<Rightarrow> (Inr (es @ es'), s2)))"

text \<open>
  \<open>read_events\<close> on the bytes that \<open>os.read\<close> returned; the reads before it that \<open>EINTR\<close> interrupts change
  nothing.
\<close>

definition read_events :: "kernel \<Rightarrow> string \<Rightarrow> inotify \<Rightarrow> inotify_event list res \<times> inotify" where
  "read_events K buf s = read_all K (parse_event_buffer buf) s"

end
