(* ===== verification/InotifyLaws.thy ===== *)
theory InotifyLaws
  imports Inotify
begin

text \<open>
  The correctness of \<open>Inotify\<close>: the parser of the event buffer inverts the kernel's encoding, every
  operation keeps the two maps of the books in step, a directory move rewrites the paths below it.
\<close>

unbundle bit_operations_syntax

section \<open>The event buffer\<close>

text \<open>The kernel's encoding of an event: the name is padded with \<open>k\<close> NUL bytes.\<close>

definition enc32 :: "mask \<Rightarrow> string" where
  "enc32 w = map (\<lambda>i. char_of (unat (take_bit 8 (drop_bit (8 * i) w)))) [0, 1, 2, 3]"

definition encode_event :: "nat \<Rightarrow> raw_event \<Rightarrow> string" where
  "encode_event k r = (case r of (wd, m, cookie, name) \<Rightarrow>
     enc32 (of_int wd) @ enc32 m @ enc32 cookie @ enc32 (of_nat (length name + k)) @ name @ replicate k nul)"

definition raw_ok :: "nat \<times> raw_event \<Rightarrow> bool" where
  "raw_ok x = (case x of (k, wd, m, cookie, name) \<Rightarrow>
     - (2 ^ 31) \<le> wd \<and> wd < 2 ^ 31 \<and> length name + k < 2 ^ 32 \<and> (name = [] \<or> last name \<noteq> nul))"

lemma length_enc32 [simp]: "length (enc32 w) = 4"
  by (simp add: enc32_def)

lemma byte_char_of: "unat w < 256 \<Longrightarrow> byte (char_of (unat (w :: mask))) = w"
  by (simp add: byte_def)

lemma le32_enc32: "le32 (enc32 w) = w"
proof -
  have b: "byte (char_of (unat (take_bit 8 v))) = take_bit 8 v" for v :: mask
  proof (rule byte_char_of)
    show "unat (take_bit 8 v) < 256"
      using take_bit_nat_less_exp [of 8 "unat v"] by (simp add: unsigned_take_bit_eq)
  qed
  have "le32 (enc32 w) = take_bit 8 w OR push_bit 8 (take_bit 8 (drop_bit 8 w))
      OR push_bit 16 (take_bit 8 (drop_bit 16 w)) OR push_bit 24 (take_bit 8 (drop_bit 24 w))"
    by (simp add: le32_def enc32_def b)
  also have "\<dots> = w"
  proof (rule bit_word_eqI)
    fix n assume "n < LENGTH(32)"
    then consider "n < 8" | "8 \<le> n" "n < 16" | "16 \<le> n" "n < 24" | "24 \<le> n" "n < 32" by fastforce
    then show "bit (take_bit 8 w OR push_bit 8 (take_bit 8 (drop_bit 8 w))
      OR push_bit 16 (take_bit 8 (drop_bit 16 w)) OR push_bit 24 (take_bit 8 (drop_bit 24 w))) n = bit w n"
      by cases (auto simp: bit_simps)
  qed
  finally show ?thesis .
qed

lemma parse_encode_one:
  assumes "raw_ok (k, r)"
  shows "parse_event_buffer (encode_event k r @ rest) = r # parse_event_buffer rest"
proof -
  obtain wd m cookie name where r: "r = (wd, m, cookie, name)" by (cases r) auto
  from assms have ok: "- (2 ^ 31) \<le> wd" "wd < 2 ^ 31" "length name + k < 2 ^ 32" "name = [] \<or> last name \<noteq> nul"
    by (simp_all add: raw_ok_def r)
  have wd: "sint (word_of_int wd :: mask) = wd" using ok by (simp add: signed_of_int signed_take_bit_int_eq_self)
  have len: "unat (word_of_nat (length name + k) :: mask) = length name + k"
    using ok by (simp add: unat_of_nat del: of_nat_add)
  have strip: "rstrip_while (\<lambda>c. c = nul) (name @ replicate k nul) = name"
    using ok by (intro rstrip_while_append) auto
  show ?thesis
    by (subst parse_event_buffer.simps)
      (simp add: encode_event_def r le32_enc32 wd len strip Let_def del: of_nat_add)
qed

text \<open>
  Parsing inverts the kernel's encoding: from a buffer of encoded events, each with any NUL padding
  after its name, \<open>_parse_event_buffer\<close> yields exactly these events in order.
\<close>
theorem parse_event_buffer_roundtrip:
  assumes "\<forall>x\<in>set xs. raw_ok x"
  shows "parse_event_buffer (concat (map (\<lambda>(k, r). encode_event k r) xs)) = map snd xs"
  using assms
proof (induction xs)
  case Nil
  then show ?case by (subst parse_event_buffer.simps) simp
next
  case (Cons x xs)
  obtain k r where x: "x = (k, r)" by (cases x)
  with Cons.prems have "raw_ok (k, r)" by simp
  with Cons x show ?case by (simp add: parse_encode_one)
qed

lemma parse_event_buffer_roundtrip_witness:
  "parse_event_buffer (encode_event 3 (1, IN_CREATE, 0, ''a'') @ encode_event 0 (-1, 0x4000, 0, []))
     = [(1, IN_CREATE, 0, ''a''), (-1, 0x4000, 0, [])]"
  using parse_event_buffer_roundtrip [of "[(3, 1, IN_CREATE, 0, ''a''), (0, -1, 0x4000, 0, [])]"]
  by (simp add: raw_ok_def nul_def)

section \<open>The books\<close>

text \<open>
  The \<open>-1\<close> that \<open>_add_watch\<close> stores for a path that the process may not read stands for no watch; several paths may
  have it.
\<close>

definition books_ok :: "inotify \<Rightarrow> bool" where
  "books_ok s \<longleftrightarrow> dict_ok (wd_for_path s) \<and> dict_ok (path_for_wd s)
     \<and> (\<forall>p wd. dget (wd_for_path s) p = Some wd \<and> wd \<noteq> -1 \<longrightarrow> dget (path_for_wd s) wd = Some p)"

text \<open>An operation keeps the books unless the kernel reused a descriptor.\<close>

definition keeps :: "inotify \<Rightarrow> inotify \<Rightarrow> bool" where
  "keeps s s' \<longleftrightarrow> (in_clash s \<longrightarrow> in_clash s') \<and> (books_ok s \<and> \<not> in_clash s' \<longrightarrow> books_ok s')"

lemma keeps_refl [simp]: "keeps s s"
  by (simp add: keeps_def)

lemma keeps_trans: "keeps s s' \<Longrightarrow> keeps s' s'' \<Longrightarrow> keeps s s''"
  by (auto simp: keeps_def)

lemma keeps_same:
  "wd_for_path s' = wd_for_path s \<Longrightarrow> path_for_wd s' = path_for_wd s \<Longrightarrow> in_clash s' = in_clash s \<Longrightarrow> keeps s s'"
  by (simp add: keeps_def books_ok_def)

lemma keeps_store: "keeps s (store_watch path wd s)"
proof -
  have "dget (path_for_wd s) wd' = Some p" if "books_ok s" "dget (wd_for_path s) p = Some wd'" "wd' \<noteq> -1" for p wd'
    using that by (simp add: books_ok_def)
  then show ?thesis by (fastforce simp: keeps_def store_watch_def books_ok_def)
qed

lemma keeps_add_watch: "add_watch K path s = (r, s') \<Longrightarrow> keeps s s'"
proof -
  let ?s1 = "s\<lparr>in_calls := Suc (in_calls s)\<rparr>"
  assume "add_watch K path s = (r, s')"
  then have "s' = ?s1 \<or> (\<exists>wd. s' = store_watch path wd ?s1)"
    by (auto simp: add_watch_def Let_def split: sum.splits)
  moreover have "keeps s ?s1" by (simp add: keeps_same)
  ultimately show ?thesis using keeps_trans keeps_store by blast
qed

lemma books_inj: "\<forall>p wd. dget m p = Some wd \<and> wd \<noteq> -1 \<longrightarrow> dget m' wd = Some p \<Longrightarrow>
    dget m p = Some wd \<Longrightarrow> wd \<noteq> -1 \<Longrightarrow> dget m p' = Some wd \<Longrightarrow> p' = p"
  by (metis option.inject)

lemma keeps_move_entry: "dget (wd_for_path s) p = Some wd \<Longrightarrow> keeps s (move_entry p q wd s)"
  by (auto simp: keeps_def move_entry_def books_ok_def dest: books_inj)

lemma keeps_move_below: "move_below src dst ps s = (r, s') \<Longrightarrow> keeps s s'"
proof (induction src dst ps s rule: move_below.induct)
  case (2 src dst p ps s)
  then show ?case
    by (auto split: if_splits option.splits intro: keeps_trans keeps_move_entry)
qed simp

lemma keeps_handle_moved_to: "handle_moved_to e s = (r, s') \<Longrightarrow> keeps s s'"
  by (auto simp: handle_moved_to_def Let_def split: if_splits option.splits
      intro: keeps_trans keeps_move_entry keeps_move_below)

lemma keeps_drop_ignored: "drop_ignored wd s = (r, s') \<Longrightarrow> keeps s s'"
  by (auto simp: drop_ignored_def Let_def keeps_def books_ok_def split: option.splits if_splits dest: books_inj)

lemma keeps_simulate_dirs: "simulate_dirs K root ds s = (es, s') \<Longrightarrow> keeps s s'"
proof (induction K root ds s arbitrary: es rule: simulate_dirs.induct)
  case (2 K root d ds s)
  then show ?case
    by (auto simp: Let_def split: prod.splits sum.splits intro: keeps_trans keeps_add_watch)
qed simp

lemma keeps_recursive_simulate: "recursive_simulate K w s = (r, s') \<Longrightarrow> keeps s s'"
proof (induction K w s arbitrary: r rule: recursive_simulate.induct)
  case (2 K root ds fs w s)
  then show ?case
    by (auto split: prod.splits sum.splits intro: keeps_trans keeps_simulate_dirs)
qed simp

lemma keeps_add_subdirs: "add_subdirs K root ds s = (r, s') \<Longrightarrow> keeps s s'"
proof (induction K root ds s arbitrary: r rule: add_subdirs.induct)
  case (2 K root d ds s)
  then show ?case
    by (auto simp: Let_def split: prod.splits sum.splits if_splits intro: keeps_trans keeps_add_watch)
qed simp

lemma keeps_add_walk: "add_walk K w s = (r, s') \<Longrightarrow> keeps s s'"
proof (induction K w s arbitrary: r rule: add_walk.induct)
  case (2 K root ds fs w s)
  then show ?case by (auto split: prod.splits sum.splits intro: keeps_trans keeps_add_subdirs)
qed simp

lemma keeps_add_dir_watch: "add_dir_watch K path rcr s = (r, s') \<Longrightarrow> keeps s s'"
  by (auto simp: add_dir_watch_def split: if_splits prod.splits sum.splits
      intro: keeps_trans keeps_add_watch keeps_add_walk)

lemma keeps_remove_watch: "remove_watch K path s = (r, s') \<Longrightarrow> books_ok s \<Longrightarrow> keeps s s'"
  by (auto simp: remove_watch_def Let_def ddel_or_def keeps_def books_ok_def split: option.splits if_splits dest: books_inj)

lemma keeps_remember: "keeps s (remember_move_from_event e s)"
  by (rule keeps_same) (simp_all add: remember_move_from_event_def)

lemma keeps_record_event: "record_event K e s = (r, s') \<Longrightarrow> keeps s s'"
  by (auto simp: record_event_def split: sum.splits if_splits prod.splits
      intro: keeps_drop_ignored keeps_add_watch keeps_trans [OF keeps_add_watch keeps_recursive_simulate])

lemma keeps_read_one: "read_one K r s = (u, s') \<Longrightarrow> keeps s s'"
  by (auto simp: read_one_def Let_def split: prod.splits if_splits option.splits sum.splits
      intro: keeps_record_event keeps_handle_moved_to keeps_trans [OF keeps_remember keeps_record_event]
        keeps_trans [OF keeps_handle_moved_to keeps_record_event])

lemma keeps_read_all: "read_all K rs s = (r, s') \<Longrightarrow> keeps s s'"
proof (induction K rs s arbitrary: r rule: read_all.induct)
  case (2 K r rs s)
  then show ?case by (auto split: prod.splits sum.splits intro: keeps_trans keeps_read_one)
qed simp

lemma keeps_inotify_new: "inotify_new K path rcr = Inr s \<Longrightarrow> \<not> in_clash s \<Longrightarrow> books_ok s"
proof -
  let ?s0 = "\<lparr>wd_for_path = [], path_for_wd = [], moved_from_events = [], in_path = path,
               in_recursive = rcr, in_calls = 0, in_clash = False\<rparr>"
  assume new: "inotify_new K path rcr = Inr s" and c: "\<not> in_clash s"
  from new obtain r where "keeps ?s0 s"
    by (auto simp: inotify_new_def Let_def split: if_splits prod.splits sum.splits
        intro: keeps_add_watch keeps_add_dir_watch)
  with c show ?thesis by (simp add: keeps_def books_ok_def)
qed

text \<open>The life of an \<open>Inotify\<close> object: the constructor, then calls in any order, each with its kernel.\<close>

inductive in_step :: "inotify \<Rightarrow> inotify \<Rightarrow> bool" where
  Read: "read_events K buf s = (es, s') \<Longrightarrow> in_step s s'"
| AddWatch: "add_watch K p s = (r, s') \<Longrightarrow> in_step s s'"
| RemoveWatch: "remove_watch K p s = (u, s') \<Longrightarrow> in_step s s'"
| ClearMoves: "in_step s (clear_move_records s)"

abbreviation in_reachable :: "inotify \<Rightarrow> bool" where
  "in_reachable \<equiv> reach (\<lambda>s. \<exists>K path rcr. inotify_new K path rcr = Inr s) in_step"

lemma in_new: "inotify_new K path rcr = Inr s \<Longrightarrow> in_reachable s"
  by (rule reach_start) blast

lemma remove_watch_clash: "remove_watch K path s = (r, s') \<Longrightarrow> in_clash s' = in_clash s"
  by (auto simp: remove_watch_def Let_def split: option.splits sum.splits)

interpretation books: invariant "\<lambda>s. \<exists>K path rcr. inotify_new K path rcr = Inr s" in_step
  "\<lambda>s. in_clash s \<or> books_ok s"
proof
  fix s assume "\<exists>K path rcr. inotify_new K path rcr = Inr s"
  then show "in_clash s \<or> books_ok s" using keeps_inotify_new by blast
next
  fix s s' assume ok: "in_clash s \<or> books_ok s" and "in_step s s'"
  from this(2) show "in_clash s' \<or> books_ok s'"
  proof cases
    case Read
    then show ?thesis using ok keeps_read_all unfolding keeps_def read_events_def by blast
  next
    case AddWatch
    then show ?thesis using ok keeps_add_watch unfolding keeps_def by blast
  next
    case RemoveWatch
    then show ?thesis using ok keeps_remove_watch remove_watch_clash unfolding keeps_def by blast
  next
    case ClearMoves
    then show ?thesis using ok by (simp add: clear_move_records_def books_ok_def)
  qed
qed

text \<open>
  C4: The two maps stay in step: every path on the books leads to a descriptor that leads back to that
  path, from the constructor on and through every \<open>read_events\<close> (moves, ignored watches, simulated
  subdirectories), \<open>add_watch\<close> and \<open>remove_watch\<close>, those that raise included, as long as the kernel has
  not handed out a descriptor that was still on the books for another path. The exception is the \<open>-1\<close> that is stored for
  a path that the process may not read: it is no descriptor, and several paths may have it.
\<close>
theorem books_stay_in_step:
  assumes "in_reachable s" and "\<not> in_clash s"
  shows "dict_ok (wd_for_path s) \<and> dict_ok (path_for_wd s)
    \<and> (\<forall>p wd. dget (wd_for_path s) p = Some wd \<and> wd \<noteq> -1 \<longrightarrow> dget (path_for_wd s) wd = Some p)"
  using books.reach_inv [OF assms(1)] assms(2) by (simp add: books_ok_def)

definition tiny_kernel :: kernel where
  "tiny_kernel = \<lparr>k_add = \<lambda>n _. Inr (int n + 1), k_rm = \<lambda>_. None, k_isdir = \<lambda>_. True, k_islink = \<lambda>_. False,
     k_walk = \<lambda>p. [(p, [''a''], []), (path_join p ''a'', [], [])]\<rparr>"

lemma books_stay_in_step_witness:
  "\<exists>s. inotify_new tiny_kernel ''/w'' True = Inr s \<and> dget (wd_for_path s) ''/w/a'' = Some 2
     \<and> dget (path_for_wd s) 2 = Some ''/w/a''"
proof -
  let ?s = "\<lparr>wd_for_path = [(''/w'', 1), (''/w/a'', 2)], path_for_wd = [(1, ''/w''), (2, ''/w/a'')],
      moved_from_events = [], in_path = ''/w'', in_recursive = True, in_calls = 2, in_clash = False\<rparr>"
  have new: "inotify_new tiny_kernel ''/w'' True = Inr ?s"
    by (simp add: inotify_new_def add_dir_watch_def tiny_kernel_def add_watch_def store_watch_def Let_def
        path_join_def sep_def)
  have here: "dget (wd_for_path ?s) ''/w/a'' = Some 2 \<and> (2::int) \<noteq> -1" "\<not> in_clash ?s" by simp_all
  with books_stay_in_step [OF in_new [OF new]] have "dget (path_for_wd ?s) 2 = Some ''/w/a''"
    by blast
  with new here show ?thesis by blast
qed

text \<open>
  \<open>_raise_error\<close> lets \<open>EACCES\<close> pass, so that \<open>-1\<close> goes on the books. With two directories that the process may not read,
  the first one does not lead back, and removing both watches raises \<open>KeyError\<close>.
\<close>
lemma unreadable_directories:
  "let K = tiny_kernel\<lparr>k_add := \<lambda>n p. if p = ''/w'' then Inr 1 else Inl EACCES, k_walk := \<lambda>p. [(p, [''a'', ''b''], [])],
             k_rm := \<lambda>wd. if wd = -1 then Some 22 else None\<rparr>
   in case inotify_new K ''/w'' True of Inl _ \<Rightarrow> False
      | Inr s \<Rightarrow> dget (wd_for_path s) ''/w/a'' = Some (-1) \<and> dget (path_for_wd s) (-1) = Some ''/w/b''
          \<and> fst (remove_watch K ''/w/a'' (snd (remove_watch K ''/w/b'' s))) = Inl KeyError"
  by (simp add: inotify_new_def add_dir_watch_def tiny_kernel_def add_watch_def store_watch_def Let_def raise_error_def EACCES_def
      remove_watch_def ddel_or_def path_join_def sep_def)

section \<open>Moved directories\<close>

lemma replace_all_below:
  assumes "src \<noteq> []" and "\<not> sublist src (sep # x)"
  shows "replace_all src dst (src @ sep # x) = dst @ sep # x"
  using assms by (simp add: replace_all_prefix replace_all_absent)

definition below :: "string \<Rightarrow> string \<Rightarrow> bool" where
  "below d p \<longleftrightarrow> prefix (d @ [sep]) p"

definition moved_path :: "string \<Rightarrow> string \<Rightarrow> string \<Rightarrow> string" where
  "moved_path src dst p = (if p = src \<or> below src p then dst @ drop (length src) p else p)"

text \<open>The paths after the entries in \<open>D\<close> have been rewritten by \<open>f\<close>.\<close>

definition renamed :: "string \<Rightarrow> (string \<Rightarrow> string) \<Rightarrow> string set \<Rightarrow> string \<Rightarrow> string" where
  "renamed src f D p = (if p \<in> D \<and> below src p then f p else p)"

lemma renamed_insert: "renamed src f (insert x D) p = (if p = x \<and> below src x then f x else renamed src f D p)"
  by (auto simp: renamed_def)

lemma move_below_renames:
  assumes "distinct ps" and "D \<inter> set ps = {}" and "set ps \<subseteq> dom m0"
    and inj: "inj_on f {p \<in> dom m0. below src p}"
    and fresh: "\<forall>p\<in>dom m0. below src p \<longrightarrow> f p \<notin> dom m0"
    and f: "\<forall>p\<in>dom m0. below src p \<longrightarrow> replace_all src dst p = f p"
    and now: "\<forall>q wd. dget (wd_for_path s) q = Some wd \<longleftrightarrow> (\<exists>p. m0 p = Some wd \<and> q = renamed src f D p)"
    and books: "books_ok s"
  shows "\<exists>s'. move_below src dst ps s = (Inr (), s') \<and> books_ok s' \<and>
    (\<forall>q wd. dget (wd_for_path s') q = Some wd \<longleftrightarrow> (\<exists>p. m0 p = Some wd \<and> q = renamed src f (D \<union> set ps) p))"
  using assms(1-3) now books
proof (induction ps arbitrary: s D)
  case Nil
  then show ?case by simp
next
  case (Cons p ps)
  note now = Cons.prems(4) and books = Cons.prems(5)
  have D': "insert p D \<inter> set ps = {}" "set ps \<subseteq> dom m0" "distinct ps" using Cons.prems by auto
  have un: "D \<union> set (p # ps) = insert p D \<union> set ps" by auto
  show ?case
  proof (cases "below src p")
    case False
    then have "renamed src f (insert p D) = renamed src f D" by (auto simp: renamed_def fun_eq_iff)
    with False Cons.IH [OF D'(3,1,2) _ books] now un show ?thesis by (simp add: below_def)
  next
    case True
    from Cons.prems(3) obtain wd where wd: "m0 p = Some wd" by auto
    have "renamed src f D p = p" using Cons.prems(2) by (auto simp: renamed_def)
    with wd now have here: "dget (wd_for_path s) p = Some wd" by metis
    let ?s = "move_entry p (f p) wd s"
    have books': "books_ok ?s"
      using books here by (auto simp: move_entry_def books_ok_def dest: books_inj)
    have fp: "f p \<notin> dom m0" using fresh wd True by blast
    have "dget (wd_for_path ?s) q = Some w \<longleftrightarrow> (\<exists>p'. m0 p' = Some w \<and> q = renamed src f (insert p D) p')" for q w
    proof (cases "q = f p")
      case True
      have "m0 p' = Some w \<and> f p = renamed src f (insert p D) p' \<longleftrightarrow> p' = p \<and> w = wd" for p'
      proof
        assume r: "m0 p' = Some w \<and> f p = renamed src f (insert p D) p'"
        then have "p' \<noteq> f p" using fp by auto
        with r have "below src p'" "f p = f p'" by (auto simp: renamed_def split: if_splits)
        have "p = p'"
          by (rule inj_onD [OF inj]) (use r wd \<open>below src p\<close> \<open>below src p'\<close> \<open>f p = f p'\<close> in auto)
        with r wd show "p' = p \<and> w = wd" by simp
      qed (use wd \<open>below src p\<close> in \<open>auto simp: renamed_def\<close>)
      with True show ?thesis by (auto simp: move_entry_def)
    next
      case False
      have "(if q = p then None else dget (wd_for_path s) q) = Some w \<longleftrightarrow>
          (\<exists>p'. m0 p' = Some w \<and> q = renamed src f D p' \<and> p' \<noteq> p)"
      proof -
        have other: "renamed src f D p' = p \<Longrightarrow> m0 p' = Some w \<Longrightarrow> p' = p" for p'
          using fresh wd by (auto simp: renamed_def split: if_splits)
        show ?thesis
        proof (cases "q = p")
          case True
          with other show ?thesis by auto
        next
          case False
          with now \<open>renamed src f D p = p\<close> show ?thesis by simp metis
        qed
      qed
      moreover have "(\<exists>p'. m0 p' = Some w \<and> q = renamed src f (insert p D) p') \<longleftrightarrow>
          (\<exists>p'. m0 p' = Some w \<and> q = renamed src f D p' \<and> p' \<noteq> p)"
        using False \<open>below src p\<close> by (auto simp: renamed_insert split: if_splits)
      ultimately show ?thesis using False by (simp add: move_entry_def)
    qed
    then have "\<exists>s'. move_below src dst ps ?s = (Inr (), s') \<and> books_ok s' \<and>
      (\<forall>q wd. dget (wd_for_path s') q = Some wd \<longleftrightarrow>
         (\<exists>p'. m0 p' = Some wd \<and> q = renamed src f (insert p D \<union> set ps) p'))"
      using Cons.IH [OF D'(3,1,2) _ books'] by blast
    moreover have "replace_all src dst p = f p" using f wd True by blast
    ultimately show ?thesis using True here un by (simp add: below_def)
  qed
qed

lemma below_drop: "below src p \<Longrightarrow> p = src @ sep # drop (Suc (length src)) p"
  by (auto simp: below_def prefix_def)

lemma moved_path_below: "below src p \<Longrightarrow> moved_path src dst p = dst @ sep # drop (Suc (length src)) p"
  by (subst below_drop) (auto simp: moved_path_def below_def prefix_def)

text \<open>
  A directory that is moved inside a recursive watch takes its subtree along: afterwards the books
  hold exactly the old entries, the directory under its new path and every path below it with the old
  prefix replaced by the new one. (The old path must not occur a second time inside a path below it,
  and nothing may be on the books at the destination.)
\<close>
theorem move_rewrites_subtree:
  assumes "books_ok s" and "in_recursive s" and "source_for_move s e = Some src" and "src \<noteq> []"
    and "dget (wd_for_path s) src \<noteq> None" and "dst = ie_src_path e" and "dst \<noteq> src \<and> \<not> below src dst"
    and free: "\<forall>p\<in>dom (map_of (wd_for_path s)). p \<noteq> dst \<and> \<not> below dst p"
    and once: "\<forall>p\<in>dom (map_of (wd_for_path s)). below src p \<longrightarrow> \<not> sublist src (drop (length src) p)"
  shows "\<exists>s'. handle_moved_to e s = (Inr (), s') \<and> books_ok s' \<and>
    (\<forall>q wd. dget (wd_for_path s') q = Some wd \<longleftrightarrow>
       (\<exists>p. dget (wd_for_path s) p = Some wd \<and> q = moved_path src dst p))"
proof -
  obtain w0 where w0: "dget (wd_for_path s) src = Some w0" using assms(5) by auto
  let ?s1 = "move_entry src dst w0 s"
  define m1 where "m1 = map_of (wd_for_path ?s1)"
  have m1: "m1 = (map_of (wd_for_path s))(src := None, dst \<mapsto> w0)"
    by (auto simp: m1_def move_entry_def fun_eq_iff)
  have dst_below: "\<not> below src dst" "\<not> below src src" using assms(7) by (auto simp: below_def)
  have live: "p \<in> dom m1 \<Longrightarrow> below src p \<Longrightarrow> p \<in> dom (map_of (wd_for_path s))" for p
    using dst_below by (auto simp: m1 split: if_splits)
  have books1: "books_ok ?s1"
    using assms(1) w0 by (auto simp: move_entry_def books_ok_def dest: books_inj)
  let ?f = "moved_path src dst"
  have "\<exists>s'. move_below src dst (dkeys (wd_for_path ?s1)) ?s1 = (Inr (), s') \<and> books_ok s' \<and>
    (\<forall>q wd. dget (wd_for_path s') q = Some wd \<longleftrightarrow>
       (\<exists>p. m1 p = Some wd \<and> q = renamed src ?f ({} \<union> set (dkeys (wd_for_path ?s1))) p))"
  proof (rule move_below_renames)
    show "distinct (dkeys (wd_for_path ?s1))"
      using books1 by (simp add: books_ok_def dict_ok_def dkeys_def)
    show "{} \<inter> set (dkeys (wd_for_path ?s1)) = {}" by simp
    show "set (dkeys (wd_for_path ?s1)) \<subseteq> dom m1" by (simp add: set_dkeys m1_def)
    show "inj_on ?f {p \<in> dom m1. below src p}"
      by (rule inj_onI) (metis (no_types, lifting) below_drop moved_path_below mem_Collect_eq same_append_eq list.inject)
    show "\<forall>p\<in>dom m1. below src p \<longrightarrow> ?f p \<notin> dom m1"
    proof (intro ballI impI notI)
      fix p assume "p \<in> dom m1" "below src p" "?f p \<in> dom m1"
      then have "below dst (?f p)" by (simp add: moved_path_below below_def)
      moreover have "?f p = dst \<or> ?f p \<in> dom (map_of (wd_for_path s))"
        using \<open>?f p \<in> dom m1\<close> by (auto simp: m1 split: if_splits)
      ultimately show False using free by (auto simp: below_def)
    qed
    show "\<forall>p\<in>dom m1. below src p \<longrightarrow> replace_all src dst p = ?f p"
    proof (intro ballI impI)
      fix p assume p: "p \<in> dom m1" "below src p"
      from once live [OF p] p have "\<not> sublist src (drop (length src) p)" by blast
      with below_drop [OF p(2)] have "\<not> sublist src (sep # drop (Suc (length src)) p)"
        by (metis append_eq_conv_conj)
      from replace_all_below [OF assms(4) this, of dst] show "replace_all src dst p = ?f p"
        using below_drop [OF p(2)] moved_path_below [OF p(2), of dst] by simp
    qed
    show "\<forall>q wd. dget (wd_for_path ?s1) q = Some wd \<longleftrightarrow> (\<exists>p. m1 p = Some wd \<and> q = renamed src ?f {} p)"
      by (simp add: renamed_def m1_def)
  qed (rule books1)
  then obtain s' where s': "move_below src dst (dkeys (wd_for_path ?s1)) ?s1 = (Inr (), s')" "books_ok s'"
    and ren: "\<forall>q wd. dget (wd_for_path s') q = Some wd \<longleftrightarrow> (\<exists>p. m1 p = Some wd \<and> q = renamed src ?f (dom m1) p)"
    by (auto simp: set_dkeys m1_def)
  have "(\<exists>p. m1 p = Some wd \<and> q = renamed src ?f (dom m1) p) \<longleftrightarrow>
      (\<exists>p. dget (wd_for_path s) p = Some wd \<and> q = moved_path src dst p)" for q wd
  proof
    assume "\<exists>p. m1 p = Some wd \<and> q = renamed src ?f (dom m1) p"
    then obtain p where p: "m1 p = Some wd" "q = renamed src ?f (dom m1) p" by blast
    show "\<exists>p. dget (wd_for_path s) p = Some wd \<and> q = moved_path src dst p"
    proof (cases "p = dst")
      case True
      with p have "wd = w0" "q = dst" using dst_below by (simp_all add: m1 renamed_def)
      with w0 show ?thesis by (intro exI [of _ src]) (simp add: moved_path_def)
    next
      case False
      with p have "dget (wd_for_path s) p = Some wd" "p \<noteq> src" by (auto simp: m1 split: if_splits)
      with p show ?thesis by (intro exI [of _ p]) (auto simp: renamed_def moved_path_def)
    qed
  next
    assume "\<exists>p. dget (wd_for_path s) p = Some wd \<and> q = moved_path src dst p"
    then obtain p where p: "dget (wd_for_path s) p = Some wd" "q = moved_path src dst p" by blast
    show "\<exists>p. m1 p = Some wd \<and> q = renamed src ?f (dom m1) p"
    proof (cases "p = src")
      case True
      with p w0 have "wd = w0" "q = dst" by (simp_all add: moved_path_def)
      then show ?thesis using dst_below by (intro exI [of _ dst]) (simp add: m1 renamed_def)
    next
      case False
      with p free have "m1 p = Some wd" by (auto simp: m1)
      with p False show ?thesis by (intro exI [of _ p]) (auto simp: renamed_def moved_path_def)
    qed
  qed
  with ren s' w0 assms show ?thesis
    by (simp add: handle_moved_to_def Let_def move_entry_def)
qed

definition sample_books :: inotify where
  "sample_books = \<lparr>wd_for_path = [(''/w'', 1), (''/w/a'', 2), (''/w/a/x'', 3)],
     path_for_wd = [(1, ''/w''), (2, ''/w/a''), (3, ''/w/a/x'')],
     moved_from_events = [(7, \<lparr>ie_wd = 1, ie_mask = IN_MOVED_FROM, ie_cookie = 7, ie_name = ''a'', ie_src_path = ''/w/a''\<rparr>)],
     in_path = ''/w'', in_recursive = True, in_calls = 3, in_clash = False\<rparr>"

definition sample_moved_to :: inotify_event where
  "sample_moved_to = \<lparr>ie_wd = 1, ie_mask = IN_MOVED_TO, ie_cookie = 7, ie_name = ''b'', ie_src_path = ''/w/b''\<rparr>"

lemma sample_books_ok: "books_ok sample_books"
  by (simp add: books_ok_def sample_books_def dict_ok_def)

lemma move_rewrites_subtree_witness:
  "\<exists>s'. handle_moved_to sample_moved_to sample_books = (Inr (), s') \<and> books_ok s'
     \<and> dget (wd_for_path s') ''/w/b/x'' = Some 3"
proof -
  have "\<exists>s'. handle_moved_to sample_moved_to sample_books = (Inr (), s') \<and> books_ok s' \<and>
    (\<forall>q wd. dget (wd_for_path s') q = Some wd \<longleftrightarrow>
       (\<exists>p. dget (wd_for_path sample_books) p = Some wd \<and> q = moved_path ''/w/a'' ''/w/b'' p))"
    by (rule move_rewrites_subtree [OF sample_books_ok])
      (simp_all add: sample_books_def sample_moved_to_def source_for_move_def below_def sep_def
        dom_map_of_conv_image_fst sublist_Cons_right)
  moreover have "dget (wd_for_path sample_books) ''/w/a/x'' = Some 3"
    "moved_path ''/w/a'' ''/w/b'' ''/w/a/x'' = ''/w/b/x''"
    by (simp_all add: sample_books_def moved_path_def below_def sep_def)
  ultimately show ?thesis by metis
qed

text \<open>
  \<open>_path.replace(move_src_path, ...)\<close> rewrites every occurrence of the old path, not only the
  leading one: when \<open>/a\<close> becomes \<open>/z\<close>, the watch of \<open>/a/b/a/c\<close> is put on the books as \<open>/z/b/z/c\<close>,
  and the books keep nothing at \<open>/z/b/a/c\<close>, where the directory is.
\<close>
theorem move_rewrites_inner_occurrences:
  "\<exists>s s' e. books_ok s \<and> dget (wd_for_path s) ''/a/b/a/c'' = Some 4 \<and> source_for_move s e = Some ''/a''
     \<and> ie_src_path e = ''/z'' \<and> handle_moved_to e s = (Inr (), s')
     \<and> dget (path_for_wd s') 4 = Some ''/z/b/z/c'' \<and> dget (wd_for_path s') ''/z/b/a/c'' = None"
proof -
  let ?f = "\<lparr>ie_wd = 1, ie_mask = IN_MOVED_FROM, ie_cookie = 7, ie_name = ''a'', ie_src_path = ''/a''\<rparr>"
  let ?e = "\<lparr>ie_wd = 1, ie_mask = IN_MOVED_TO, ie_cookie = 7, ie_name = ''z'', ie_src_path = ''/z''\<rparr>"
  let ?s = "\<lparr>wd_for_path = [(''/'', 1), (''/a'', 2), (''/a/b/a/c'', 4)],
     path_for_wd = [(1, ''/''), (2, ''/a''), (4, ''/a/b/a/c'')], moved_from_events = [(7, ?f)],
     in_path = ''/'', in_recursive = True, in_calls = 3, in_clash = False\<rparr>"
  have "books_ok ?s" by (simp add: books_ok_def dict_ok_def)
  moreover have "source_for_move ?s ?e = Some ''/a''" by (simp add: source_for_move_def)
  moreover have "replace_all ''/a'' ''/z'' ''/a/b/a/c'' = ''/z/b/z/c''" by code_simp
  then have "handle_moved_to ?e ?s = (Inr (), \<lparr>wd_for_path = [(''/'', 1), (''/z'', 2), (''/z/b/z/c'', 4)],
     path_for_wd = [(1, ''/''), (2, ''/z''), (4, ''/z/b/z/c'')], moved_from_events = [(7, ?f)],
     in_path = ''/'', in_recursive = True, in_calls = 3, in_clash = False\<rparr>)"
    by (simp add: handle_moved_to_def source_for_move_def move_entry_def dkeys_def sep_def)
  ultimately show ?thesis by (intro exI [of _ ?s] exI [of _ ?e] exI conjI) (assumption | simp)+
qed

definition leak_kernel :: kernel where
  "leak_kernel = \<lparr>k_add = \<lambda>_ _. Inr 3, k_rm = \<lambda>_. None, k_isdir = \<lambda>_. True, k_islink = \<lambda>_. False,
     k_walk = \<lambda>p. [(p, [], [])]\<rparr>"

definition leak_books :: inotify where
  "leak_books = \<lparr>wd_for_path = [(''/w'', 1), (''/w/a'', 2)], path_for_wd = [(1, ''/w''), (2, ''/w/a'')],
      moved_from_events = [], in_path = ''/w'', in_recursive = True, in_calls = 2, in_clash = False\<rparr>"

text \<open>\<open>a\<close> leaves the tree; a new \<open>a\<close> is made and deleted; the first one is deleted elsewhere.\<close>

definition leak_events :: "raw_event list" where
  "leak_events = [(1, IN_MOVED_FROM OR IN_ISDIR, 5, ''a''), (1, IN_CREATE OR IN_ISDIR, 0, ''a''),
      (3, IN_DELETE_SELF, 0, []), (3, IN_IGNORED, 0, []), (1, IN_DELETE OR IN_ISDIR, 0, ''a''),
      (2, IN_DELETE_SELF, 0, []), (2, IN_IGNORED, 0, [])]"

text \<open>
  The clean-up of an ignored watch looks up the path of the descriptor without checking that it is
  there: a directory that was moved out of the tree keeps its old path on the books, so when a new
  directory of that name has come and gone, the end of the first one raises \<open>KeyError\<close> out of
  \<open>read_events\<close>.
\<close>
theorem moved_out_directory_raises:
  "books_ok leak_books \<and> fst (read_all leak_kernel leak_events leak_books) = Inl KeyError"
  by (simp add: leak_kernel_def leak_books_def leak_events_def books_ok_def dict_ok_def read_one_def
      record_event_def flag_defs is_directory_def in_consts remember_move_from_event_def event_path_def
      path_join_def sep_def add_watch_def store_watch_def drop_ignored_def Let_def)

end
