(* ===== verification/DelayedQueue.thy ===== *)
theory DelayedQueue
  imports Bricks
begin

text \<open>
  \<open>src/watchdog/utils/delayed_queue.py\<close>: a queue that holds marked elements back for a delay. \<open>get\<close>
  looks at the head under the lock, waits without it and takes the head only if it is still the same
  object; producers put, remove and close in between. The interleavings are the steps of a relation;
  \<open>dq_now\<close> is the clock that \<open>time.time()\<close> reads, assumed not to go back.
\<close>

section \<open>State and operations\<close>

record 'a dqueue =
  dq_delay :: nat
  dq_items :: "('a obj \<times> nat \<times> bool) list"
  dq_closed :: bool

definition dq_init :: "nat \<Rightarrow> 'a dqueue" where
  "dq_init d = \<lparr>dq_delay = d, dq_items = [], dq_closed = False\<rparr>"

definition dq_put :: "nat \<Rightarrow> 'a obj \<Rightarrow> bool \<Rightarrow> 'a dqueue \<Rightarrow> 'a dqueue" where
  "dq_put now x delay q = q\<lparr>dq_items := dq_items q @ [(x, now, delay)]\<rparr>"

definition dq_close :: "'a dqueue \<Rightarrow> 'a dqueue" where
  "dq_close q = q\<lparr>dq_closed := True\<rparr>"

text \<open>\<open>remove(predicate)\<close>: the first element that satisfies the predicate, whatever its delay.\<close>

definition dq_remove :: "('a \<Rightarrow> bool) \<Rightarrow> 'a dqueue \<Rightarrow> 'a obj option \<times> 'a dqueue" where
  "dq_remove P q =
     (case take_first (\<lambda>(x, t, d). P (snd x)) (dq_items q) of
        None \<Rightarrow> (None, q)
      | Some ((x, _, _), rest) \<Rightarrow> (Some x, q\<lparr>dq_items := rest\<rparr>))"

text \<open>
  A call of \<open>get\<close> is \<open>Waiting\<close> for an element or the end, has seen a \<open>Head\<close>, or has \<open>Returned\<close>.
\<close>

datatype 'a phase = Waiting | Head "'a obj" nat bool | Returned "'a obj option"

text \<open>The wait on \<open>_not_empty\<close>; \<open>None\<close> while the call still blocks.\<close>

definition dq_peek :: "'a dqueue \<Rightarrow> 'a phase option" where
  "dq_peek q =
     (if dq_closed q then Some (Returned None)
      else (case dq_items q of [] \<Rightarrow> None | (x, t, d) # _ \<Rightarrow> Some (Head x t d)))"

text \<open>The sleep of a marked head is over when \<open>insert_time + delay_sec - time.time() <= 0\<close>.\<close>

definition dq_slept :: "nat \<Rightarrow> 'a dqueue \<Rightarrow> nat \<Rightarrow> bool \<Rightarrow> bool" where
  "dq_slept now q t d \<longleftrightarrow> \<not> d \<or> t + dq_delay q \<le> now"

definition dq_take :: "'a obj \<Rightarrow> 'a dqueue \<Rightarrow> 'a phase \<times> 'a dqueue" where
  "dq_take x q =
     (case dq_items q of
        [] \<Rightarrow> (Waiting, q)
      | (y, _, _) # rest \<Rightarrow>
          if fst y = fst x then (Returned (Some x), q\<lparr>dq_items := rest\<rparr>) else (Waiting, q))"

section \<open>Interleavings\<close>

text \<open>
  The histories of the model: the objects put, with time and mark (\<open>h_put\<close>), delivered, with the time
  (\<open>h_out\<close>), and removed (\<open>h_removed\<close>). Each put is of a new object.
\<close>

record 'a dsys =
  sys_q :: "'a dqueue"
  sys_now :: nat
  sys_phase :: "'a phase"
  h_put :: "('a obj \<times> nat \<times> bool) list"
  h_out :: "('a obj \<times> nat) list"
  h_removed :: "'a obj list"

definition sys_init :: "nat \<Rightarrow> 'a dsys" where
  "sys_init d = \<lparr>sys_q = dq_init d, sys_now = 0, sys_phase = Waiting, h_put = [], h_out = [], h_removed = []\<rparr>"

inductive dstep :: "'a dsys \<Rightarrow> 'a dsys \<Rightarrow> bool" where
  Put: "fst x \<notin> fst ` fst ` set (h_put s) \<Longrightarrow>
    dstep s (s\<lparr>sys_q := dq_put (sys_now s) x d (sys_q s), h_put := h_put s @ [(x, sys_now s, d)]\<rparr>)"
| Close: "dstep s (s\<lparr>sys_q := dq_close (sys_q s)\<rparr>)"
| Remove: "dq_remove P (sys_q s) = (Some x, q) \<Longrightarrow>
    dstep s (s\<lparr>sys_q := q, h_removed := x # h_removed s\<rparr>)"
| Tick: "sys_now s \<le> n \<Longrightarrow> dstep s (s\<lparr>sys_now := n\<rparr>)"
| Peek: "sys_phase s = Waiting \<Longrightarrow> dq_peek (sys_q s) = Some ph \<Longrightarrow> dstep s (s\<lparr>sys_phase := ph\<rparr>)"
| Take: "sys_phase s = Head x t d \<Longrightarrow> dq_slept (sys_now s) (sys_q s) t d \<Longrightarrow> dq_take x (sys_q s) = (ph, q) \<Longrightarrow>
    dstep s (s\<lparr>sys_q := q, sys_phase := ph,
      h_out := (if ph = Waiting then h_out s else h_out s @ [(x, sys_now s)])\<rparr>)"
| Again: "sys_phase s = Returned r \<Longrightarrow> dstep s (s\<lparr>sys_phase := Waiting\<rparr>)"

abbreviation dreachable :: "nat \<Rightarrow> 'a dsys \<Rightarrow> bool" where
  "dreachable delay \<equiv> reach (\<lambda>s. s = sys_init delay) dstep"

section \<open>Invariant\<close>

definition oid :: "'a obj \<times> nat \<times> bool \<Rightarrow> nat" where
  "oid e = fst (fst e)"

definition dinv :: "nat \<Rightarrow> 'a dsys \<Rightarrow> bool" where
  "dinv delay s \<longleftrightarrow>
     dq_delay (sys_q s) = delay
     \<and> distinct (map oid (h_put s))
     \<and> map (fst \<circ> fst) (h_out s) @ map oid (dq_items (sys_q s))
         = filter (\<lambda>i. i \<notin> fst ` set (h_removed s)) (map oid (h_put s))
     \<and> set (dq_items (sys_q s)) \<subseteq> set (h_put s)
     \<and> fst ` set (h_removed s) \<subseteq> oid ` set (h_put s)
     \<and> (\<forall>(x, now)\<in>set (h_out s). \<exists>t d. (x, t, d) \<in> set (h_put s) \<and> (d \<longrightarrow> t + delay \<le> now))
     \<and> (case sys_phase s of Head x t d \<Rightarrow> (x, t, d) \<in> set (h_put s) | _ \<Rightarrow> True)"

lemma oid_inj: "distinct (map oid es) \<Longrightarrow> e \<in> set es \<Longrightarrow> e' \<in> set es \<Longrightarrow> oid e = oid e' \<Longrightarrow> e = e'"
  by (metis distinct_map inj_onD)

lemma dinv_init: "dinv delay (sys_init delay)"
  by (simp add: dinv_def sys_init_def dq_init_def)

lemma filter_absent: "i \<notin> set zs \<Longrightarrow> filter (\<lambda>j. j \<noteq> i) zs = zs"
  by (induction zs) auto

lemma filter_remove_id:
  assumes "distinct (xs @ us @ i # vs)" and "xs @ us @ i # vs = filter P ys"
  shows "xs @ us @ vs = filter (\<lambda>j. j \<noteq> i \<and> P j) ys"
proof -
  have "filter (\<lambda>j. j \<noteq> i) (xs @ us @ i # vs) = xs @ us @ vs"
    using assms(1) by (simp add: filter_absent)
  then show ?thesis unfolding assms(2) by (simp add: filter_filter conj_commute)
qed

lemma dinv_remove:
  assumes "dinv delay s" and "dq_items (sys_q s) = us @ (x, t, d) # vs"
  shows "dinv delay (s\<lparr>sys_q := (sys_q s)\<lparr>dq_items := us @ vs\<rparr>, h_removed := x # h_removed s\<rparr>)"
proof -
  let ?ids = "map (fst \<circ> fst) (h_out s)" and ?P = "\<lambda>i. i \<notin> fst ` set (h_removed s)"
  have eq: "?ids @ map oid us @ fst x # map oid vs = filter ?P (map oid (h_put s))"
    and dist: "distinct (map oid (h_put s))"
    using assms by (simp_all add: dinv_def oid_def)
  have "distinct (?ids @ map oid us @ fst x # map oid vs)" unfolding eq using dist by (rule distinct_filter)
  from filter_remove_id [OF this eq] have
    "?ids @ map oid (us @ vs) = filter (\<lambda>i. i \<notin> fst ` set (x # h_removed s)) (map oid (h_put s))"
    by (simp add: conj_commute)
  moreover have "(x, t, d) \<in> set (h_put s)" using assms by (auto simp: dinv_def)
  then have "fst x \<in> oid ` set (h_put s)" by (force simp: oid_def)
  ultimately show ?thesis using assms by (auto simp: dinv_def split: phase.splits)
qed

lemma dinv_take:
  assumes inv: "dinv delay s" and head: "sys_phase s = Head x t d"
    and slept: "dq_slept (sys_now s) (sys_q s) t d"
    and items: "dq_items (sys_q s) = (y, t', d') # rest" and same: "fst y = fst x"
  shows "dinv delay (s\<lparr>sys_q := (sys_q s)\<lparr>dq_items := rest\<rparr>, sys_phase := Returned (Some x),
      h_out := h_out s @ [(x, sys_now s)]\<rparr>)"
proof -
  have x: "(x, t, d) \<in> set (h_put s)" and y: "(y, t', d') \<in> set (h_put s)"
    and dist: "distinct (map oid (h_put s))" and delay: "dq_delay (sys_q s) = delay"
    using inv head items by (auto simp: dinv_def)
  have "d \<longrightarrow> t + delay \<le> sys_now s" using slept delay by (auto simp: dq_slept_def)
  with x have "\<exists>t d. (x, t, d) \<in> set (h_put s) \<and> (d \<longrightarrow> t + delay \<le> sys_now s)" by blast
  then show ?thesis using inv items same by (auto simp: dinv_def oid_def)
qed

lemma dstep_inv: "dstep s s' \<Longrightarrow> dinv delay s \<Longrightarrow> dinv delay s'"
proof (induction rule: dstep.induct)
  case (Put x s d)
  have new: "fst x \<notin> oid ` set (h_put s)" using Put.hyps by (simp add: oid_def image_image)
  with Put.prems have gone: "fst x \<notin> fst ` set (h_removed s)" by (auto simp: dinv_def)
  have out: "\<forall>(y, now)\<in>set (h_out s). \<exists>t e. (y, t, e) \<in> set (h_put s @ [(x, sys_now s, d)])
      \<and> (e \<longrightarrow> t + delay \<le> now)"
    using Put.prems unfolding dinv_def by fastforce
  have ph: "case sys_phase s of Head y t e \<Rightarrow> (y, t, e) \<in> set (h_put s @ [(x, sys_now s, d)]) | _ \<Rightarrow> True"
    using Put.prems by (auto simp: dinv_def split: phase.splits)
  have x: "oid (x, sys_now s, d) = fst x" by (simp add: oid_def)
  let ?s = "s\<lparr>sys_q := dq_put (sys_now s) x d (sys_q s), h_put := h_put s @ [(x, sys_now s, d)]\<rparr>"
  have s: "sys_q ?s = dq_put (sys_now s) x d (sys_q s)" "h_put ?s = h_put s @ [(x, sys_now s, d)]"
    "h_out ?s = h_out s" "h_removed ?s = h_removed s" "sys_phase ?s = sys_phase s"
    "dq_items (dq_put (sys_now s) x d (sys_q s)) = dq_items (sys_q s) @ [(x, sys_now s, d)]"
    "dq_delay (dq_put (sys_now s) x d (sys_q s)) = dq_delay (sys_q s)"
    by (simp_all add: dq_put_def)
  show ?case
    unfolding dinv_def s
  proof (intro conjI out ph)
    show "map (fst \<circ> fst) (h_out s) @ map oid (dq_items (sys_q s) @ [(x, sys_now s, d)])
        = filter (\<lambda>i. i \<notin> fst ` set (h_removed s)) (map oid (h_put s @ [(x, sys_now s, d)]))"
      using Put.prems gone x by (simp add: dinv_def)
    show "fst ` set (h_removed s) \<subseteq> oid ` set (h_put s @ [(x, sys_now s, d)])"
      using Put.prems unfolding dinv_def by auto
  qed (use Put.prems new x in \<open>auto simp: dinv_def\<close>)
next
  case (Close s)
  then show ?case by (auto simp: dinv_def dq_close_def split: phase.splits)
next
  case (Remove P s x q)
  then obtain us t d vs where "dq_items (sys_q s) = us @ (x, t, d) # vs"
    and q: "q = (sys_q s)\<lparr>dq_items := us @ vs\<rparr>"
    by (auto simp: dq_remove_def split: option.splits prod.splits dest!: take_first_Some)
  from dinv_remove [OF Remove.prems this(1)] show ?case unfolding q by simp
next
  case (Tick s n)
  then show ?case by (auto simp: dinv_def split: phase.splits)
next
  case (Peek s ph)
  then show ?case by (auto simp: dinv_def dq_peek_def split: if_splits list.splits)
next
  case (Take s x t d ph q)
  show ?case
  proof (cases "ph = Waiting")
    case True
    with Take have "q = sys_q s" by (auto simp: dq_take_def split: list.splits if_splits)
    with True Take.prems show ?thesis by (auto simp: dinv_def split: phase.splits)
  next
    case False
    with Take.hyps obtain y t' d' rest where "dq_items (sys_q s) = (y, t', d') # rest" "fst y = fst x"
      "ph = Returned (Some x)" "q = (sys_q s)\<lparr>dq_items := rest\<rparr>"
      by (auto simp: dq_take_def split: list.splits if_splits)
    with dinv_take [OF Take.prems Take.hyps(1,2)] show ?thesis by simp
  qed
next
  case (Again s r)
  then show ?case by (auto simp: dinv_def split: phase.splits)
qed

interpretation dq: invariant "\<lambda>s. s = sys_init delay" dstep "dinv delay"
  for delay :: nat
  by unfold_locales (auto intro: dinv_init dstep_inv)

lemmas dreachable_inv = dq.reach_inv

section \<open>Properties\<close>

text \<open>
  C7: Under every interleaving of producers, removals, closing and the consumer, the delivered objects
  followed by those still queued are exactly the objects put and not removed, in the order of the
  puts: nothing is lost, delivered twice, delivered after its removal or overtaken.
\<close>
theorem delayed_queue_fifo:
  assumes "dreachable delay s"
  shows "map (fst \<circ> fst) (h_out s) @ map oid (dq_items (sys_q s))
      = filter (\<lambda>i. i \<notin> fst ` set (h_removed s)) (map oid (h_put s))
    \<and> distinct (map (fst \<circ> fst) (h_out s))"
proof
  from dreachable_inv [OF assms] show eq: "map (fst \<circ> fst) (h_out s) @ map oid (dq_items (sys_q s))
      = filter (\<lambda>i. i \<notin> fst ` set (h_removed s)) (map oid (h_put s))" by (simp add: dinv_def)
  have "distinct (map oid (h_put s))" using dreachable_inv [OF assms] by (simp add: dinv_def)
  then have "distinct (filter (\<lambda>i. i \<notin> fst ` set (h_removed s)) (map oid (h_put s)))" by (rule distinct_filter)
  then show "distinct (map (fst \<circ> fst) (h_out s))" unfolding eq [symmetric] by simp
qed

text \<open>
  A marked element is never delivered before its delay is over: each delivery is of an object that
  was put, and if it was put with the mark at time \<open>t\<close>, not before \<open>t\<close> plus the delay.
\<close>
theorem delayed_queue_holds_back:
  assumes "dreachable delay s" and "(x, now) \<in> set (h_out s)"
  shows "\<exists>t d. (x, t, d) \<in> set (h_put s) \<and> (d \<longrightarrow> t + delay \<le> now)"
  using dreachable_inv [OF assms(1)] assms(2) by (auto simp: dinv_def)

text \<open>A run: an unmarked and a marked element, the second delivered after its delay.\<close>

definition sample_run :: "nat dsys" where
  "sample_run = \<lparr>sys_q = dq_init 5, sys_now = 7, sys_phase = Returned (Some (1, 10)),
     h_put = [((1, 10), 1, True)], h_out = [((1, 10), 7)], h_removed = []\<rparr>"

lemma dreachable_init: "dreachable delay (sys_init delay)"
  by (rule reach_start) simp

lemma sample_run_reachable: "dreachable 5 sample_run"
proof -
  let ?s = "\<lambda>items now ph outs. \<lparr>sys_q = (dq_init 5 :: nat dqueue)\<lparr>dq_items := items\<rparr>, sys_now = now,
      sys_phase = ph, h_put = [((1, 10), 1, True)], h_out = outs, h_removed = []\<rparr>"
  have "dreachable 5 ((sys_init 5 :: nat dsys)\<lparr>sys_now := 1\<rparr>)"
    by (rule reach_next [OF dreachable_init]) (rule dstep.Tick, simp add: sys_init_def)
  from reach_next [OF this dstep.Put [of "(1, 10)" _ True]]
  have "dreachable 5 (?s [((1, 10), 1, True)] 1 Waiting [])"
    by (simp add: sys_init_def dq_put_def dq_init_def)
  from reach_next [OF this dstep.Peek [of _ "Head (1, 10) 1 True"]]
  have "dreachable 5 (?s [((1, 10), 1, True)] 1 (Head (1, 10) 1 True) [])"
    by (simp add: dq_peek_def dq_init_def)
  from reach_next [OF this dstep.Tick [of _ 7]]
  have "dreachable 5 (?s [((1, 10), 1, True)] 7 (Head (1, 10) 1 True) [])" by simp
  from reach_next [OF this dstep.Take [of _ "(1, 10)" 1 True "Returned (Some (1, 10))"
      "(dq_init 5)\<lparr>dq_items := []\<rparr>"]]
  show ?thesis by (simp add: dq_take_def dq_slept_def dq_init_def sample_run_def)
qed

lemma delayed_queue_fifo_witness: "map (fst \<circ> fst) (h_out sample_run) = [1]"
  using delayed_queue_fifo [OF sample_run_reachable] by (simp add: sample_run_def dq_init_def oid_def)

lemma delayed_queue_holds_back_witness:
  "\<exists>t d. ((1, 10), t, d) \<in> set (h_put sample_run) \<and> (d \<longrightarrow> t + 5 \<le> 7)"
  by (rule delayed_queue_holds_back [OF sample_run_reachable]) (simp add: sample_run_def)

text \<open>
  An uncontended \<open>get\<close> of an open queue with an element returns: it sees the head, and once the time
  \<open>t\<close> plus the delay has come the take succeeds and removes exactly that head.
\<close>
lemma delayed_queue_get_returns:
  assumes "\<not> dq_closed q" and "dq_items q = (x, t, d) # rest" and "t + dq_delay q \<le> now"
  shows "dq_peek q = Some (Head x t d) \<and> dq_slept now q t d
    \<and> dq_take x q = (Returned (Some x), q\<lparr>dq_items := rest\<rparr>)"
  using assms by (simp add: dq_peek_def dq_slept_def dq_take_def)

end
