(* ===== verification/InotifyBuffer.thy ===== *)
theory InotifyBuffer
  imports Inotify DelayedQueue "HOL-Library.Multiset"
begin

text \<open>
  \<open>src/watchdog/observers/inotify_buffer.py\<close>: \<open>InotifyBuffer\<close> groups the two halves of a move by their
  cookie, in the batch just read or with a first half that still waits in the delayed queue, and puts
  the result into that queue, with a delay only for a lone first half.
\<close>

section \<open>Grouping\<close>

text \<open>An element of the queue: an event or the tuple of a paired move.\<close>

datatype buffered = Single inotify_event | Pair inotify_event inotify_event

definition matching_from_event :: "inotify_event \<Rightarrow> buffered \<Rightarrow> bool" where
  "matching_from_event e b =
     (case b of Single f \<Rightarrow> is_moved_from f \<and> ie_cookie f = ie_cookie e | Pair _ _ \<Rightarrow> False)"

definition pair_with :: "inotify_event \<Rightarrow> buffered \<Rightarrow> buffered" where
  "pair_with e b = (case b of Single f \<Rightarrow> Pair f e | Pair f g \<Rightarrow> Pair f g)"

definition group_one ::
  "inotify_event \<Rightarrow> buffered list \<times> buffered dqueue \<Rightarrow> buffered list \<times> buffered dqueue" where
  "group_one e gq =
     (case gq of (g, q) \<Rightarrow>
      if is_moved_to e
      then (case find_index (matching_from_event e) g of
              Some i \<Rightarrow> (g[i := pair_with e (g ! i)], q)
            | None \<Rightarrow>
                (case dq_remove (matching_from_event e) q of
                   (Some x, q') \<Rightarrow> (g @ [pair_with e (snd x)], q')
                 | (None, q') \<Rightarrow> (g @ [Single e], q')))
      else (g @ [Single e], q))"

definition group_events :: "inotify_event list \<Rightarrow> buffered dqueue \<Rightarrow> buffered list \<times> buffered dqueue" where
  "group_events es q = foldl (\<lambda>gq e. group_one e gq) ([], q) es"

section \<open>The thread\<close>

text \<open>\<open>buf_ids\<close> is the identity of the next object; \<open>buf_done\<close> is \<open>deleted_self\<close>.\<close>

record buffer =
  buf_q :: "buffered dqueue"
  buf_ids :: nat
  buf_path :: string
  buf_done :: bool

definition lone_from :: "buffered \<Rightarrow> bool" where
  "lone_from b = (case b of Single e \<Rightarrow> is_moved_from e | Pair _ _ \<Rightarrow> False)"

definition root_deleted :: "string \<Rightarrow> buffered \<Rightarrow> bool" where
  "root_deleted path b =
     (case b of Single e \<Rightarrow> is_delete_self e \<and> ie_src_path e = path | Pair _ _ \<Rightarrow> False)"

definition put_one :: "nat \<Rightarrow> buffered \<Rightarrow> buffer \<Rightarrow> buffer" where
  "put_one now b s =
     s\<lparr>buf_q := dq_put now (buf_ids s, b) (lone_from b) (buf_q s), buf_ids := Suc (buf_ids s),
       buf_done := buf_done s \<or> root_deleted (buf_path s) b\<rparr>"

definition buffer_batch :: "nat \<Rightarrow> inotify_event list \<Rightarrow> buffer \<Rightarrow> buffer" where
  "buffer_batch now es s =
     (case group_events es (buf_q s) of (g, q) \<Rightarrow> foldl (\<lambda>s b. put_one now b s) (s\<lparr>buf_q := q\<rparr>) g)"

text \<open>
  \<open>run\<close> over the batches that \<open>read_events\<close> returns: it ends after the batch that reports the deletion
  of the watched directory.
\<close>

fun buffer_run :: "(nat \<times> inotify_event list) list \<Rightarrow> buffer \<Rightarrow> buffer" where
  "buffer_run [] s = s"
| "buffer_run ((now, es) # bs) s =
     (if buf_done s then s else buffer_run bs (buffer_batch now es s))"

definition buffer_init :: "nat \<Rightarrow> string \<Rightarrow> buffer" where
  "buffer_init delay path = \<lparr>buf_q = dq_init delay, buf_ids = 0, buf_path = path, buf_done = False\<rparr>"

section \<open>What is kept\<close>

definition parts :: "buffered \<Rightarrow> inotify_event list" where
  "parts b = (case b of Single e \<Rightarrow> [e] | Pair f e \<Rightarrow> [f, e])"

definition parts_all :: "buffered list \<Rightarrow> inotify_event list" where
  "parts_all bs = concat (map parts bs)"

definition queued :: "buffered dqueue \<Rightarrow> buffered list" where
  "queued q = map (snd \<circ> fst) (dq_items q)"

definition no_move :: "inotify_event \<Rightarrow> bool" where
  "no_move e \<longleftrightarrow> \<not> is_moved_from e \<and> \<not> is_moved_to e"

definition pair_ok :: "buffered \<Rightarrow> bool" where
  "pair_ok b = (case b of Single e \<Rightarrow> True | Pair f e \<Rightarrow> is_moved_from f \<and> is_moved_to e \<and> ie_cookie f = ie_cookie e)"

text \<open>Loaded queues differ from grouped ones only in what waits in them.\<close>

definition group_inv :: "inotify_event list \<Rightarrow> buffered dqueue \<Rightarrow> buffered list \<times> buffered dqueue \<Rightarrow> bool" where
  "group_inv done q0 gq \<longleftrightarrow>
     mset (parts_all (fst gq)) + mset (parts_all (queued (snd gq))) = mset done + mset (parts_all (queued q0))
     \<and> filter no_move (parts_all (fst gq)) = filter no_move done
     \<and> list_all pair_ok (fst gq)
     \<and> subseq (queued (snd gq)) (queued q0)"

lemma parts_all_simps [simp]:
  "parts_all [] = []" "parts_all (b # bs) = parts b @ parts_all bs" "parts_all (bs @ cs) = parts_all bs @ parts_all cs"
  by (simp_all add: parts_all_def)

lemma matching_single: "matching_from_event e b \<Longrightarrow> \<exists>f. b = Single f \<and> is_moved_from f \<and> ie_cookie f = ie_cookie e"
  by (cases b) (auto simp: matching_from_event_def)

lemma dq_remove_Some:
  assumes "dq_remove P q = (Some x, q')"
  shows "\<exists>us vs. queued q = us @ snd x # vs \<and> queued q' = us @ vs \<and> P (snd x)"
  using assms
  by (auto simp: dq_remove_def queued_def split: option.splits prod.splits dest!: take_first_Some) blast

lemma dq_remove_None: "dq_remove P q = (None, q') \<Longrightarrow> q' = q"
  by (auto simp: dq_remove_def split: option.splits prod.splits)

lemma group_inv_update:
  assumes inv: "group_inv done q0 (g, q)" and e: "is_moved_to e" and i: "find_index (matching_from_event e) g = Some i"
  shows "group_inv (done @ [e]) q0 (g[i := pair_with e (g ! i)], q)"
proof -
  from find_index_Some [OF i] obtain f where f: "i < length g" "g ! i = Single f" "is_moved_from f" "ie_cookie f = ie_cookie e"
    using matching_single by blast
  then have g: "g = take i g @ Single f # drop (Suc i) g" by (metis id_take_nth_drop)
  have up: "g[i := pair_with e (g ! i)] = take i g @ Pair f e # drop (Suc i) g"
    using f by (simp add: upd_conv_take_nth_drop pair_with_def)
  have m: "mset (parts_all g) = mset (parts_all (take i g)) + {#f#} + mset (parts_all (drop (Suc i) g))"
    by (subst g) (simp add: parts_def)
  have l: "list_all pair_ok (take i g) \<and> list_all pair_ok (drop (Suc i) g)"
    using inv by (auto simp: group_inv_def list_all_iff dest: in_set_takeD in_set_dropD)
  have n: "filter no_move (parts_all g) = filter no_move (parts_all (take i g)) @ filter no_move (parts_all (drop (Suc i) g))"
    using f by (subst g) (simp add: parts_def no_move_def)
  show ?thesis
    using inv f e l m n unfolding group_inv_def up
    by (simp add: parts_def no_move_def pair_ok_def ac_simps)
qed

lemma group_inv_step:
  assumes inv: "group_inv done q0 gq"
  shows "group_inv (done @ [e]) q0 (group_one e gq)"
proof -
  obtain g q where gq: "gq = (g, q)" by (cases gq)
  have append: "group_inv (done @ [e]) q0 (g @ [Single e], q)"
    using inv gq by (auto simp: group_inv_def parts_def pair_ok_def)
  show ?thesis
  proof (cases "is_moved_to e")
    case False
    with append show ?thesis by (simp add: group_one_def gq)
  next
    case to: True
    show ?thesis
    proof (cases "find_index (matching_from_event e) g")
      case (Some i)
      with to group_inv_update inv gq show ?thesis by (simp add: group_one_def)
    next
      case None
      obtain r q' where r: "dq_remove (matching_from_event e) q = (r, q')" by fastforce
      show ?thesis
      proof (cases r)
        case None
        with r dq_remove_None have "q' = q" by blast
        with append to r None \<open>find_index _ g = None\<close> show ?thesis by (simp add: group_one_def gq)
      next
        case (Some x)
        with r obtain us vs where uv: "queued q = us @ snd x # vs" "queued q' = us @ vs" "matching_from_event e (snd x)"
          using dq_remove_Some by blast
        then obtain f where f: "snd x = Single f" "is_moved_from f" "ie_cookie f = ie_cookie e"
          using matching_single by blast
        have "subseq (us @ vs) (us @ snd x # vs)" by (rule list_emb_append_mono) auto
        then have "subseq (us @ vs) (queued q0)" using inv uv gq subseq_order.order_trans by (auto simp: group_inv_def)
        with inv uv f gq to have "group_inv (done @ [e]) q0 (g @ [Pair f e], q')"
          by (auto simp: group_inv_def parts_def pair_ok_def no_move_def)
        with to r Some f \<open>find_index _ g = None\<close> show ?thesis by (simp add: group_one_def gq pair_with_def)
      qed
    qed
  qed
qed

lemma group_inv_fold:
  "group_inv done q0 gq \<Longrightarrow> group_inv (done @ es) q0 (foldl (\<lambda>gq e. group_one e gq) gq es)"
proof (induction es arbitrary: "done" gq)
  case (Cons e es)
  from Cons.IH [OF group_inv_step [OF Cons.prems, of e]] show ?case by simp
qed simp

text \<open>
  C32: Grouping loses and invents nothing: the events in the groups and in the queue afterwards are the
  events of the batch and those that were queued. Events that are no halves of a move keep their order,
  every tuple is a \<open>moved from\<close> and a \<open>moved to\<close> with the same cookie, and elements leave the queue
  without the others being reordered.
\<close>
theorem group_events_conserves:
  "case group_events es q of (g, q') \<Rightarrow>
     mset (parts_all g) + mset (parts_all (queued q')) = mset es + mset (parts_all (queued q))
     \<and> filter no_move (parts_all g) = filter no_move es \<and> list_all pair_ok g \<and> subseq (queued q') (queued q)"
proof -
  have "group_inv [] q ([], q)" by (simp add: group_inv_def)
  from group_inv_fold [OF this, of es] show ?thesis
    by (auto simp: group_events_def group_inv_def split: prod.split)
qed

section \<open>The queue of the buffer\<close>

definition marks_ok :: "nat \<Rightarrow> buffered dqueue \<Rightarrow> bool" where
  "marks_ok n q \<longleftrightarrow> distinct (map oid (dq_items q)) \<and> (\<forall>((i, b), t, d)\<in>set (dq_items q). i < n \<and> d = lone_from b)"

lemma marks_ok_remove: "marks_ok n q \<Longrightarrow> dq_remove P q = (r, q') \<Longrightarrow> marks_ok n q'"
  by (auto simp: marks_ok_def dq_remove_def split: option.splits prod.splits dest!: take_first_Some)

lemma marks_ok_group_one: "marks_ok n (snd gq) \<Longrightarrow> marks_ok n (snd (group_one e gq))"
  by (auto simp: group_one_def split: prod.splits option.splits dest: marks_ok_remove)

lemma marks_ok_group: "marks_ok n q \<Longrightarrow> group_events es q = (g, q') \<Longrightarrow> marks_ok n q'"
proof -
  have "marks_ok n (snd gq) \<Longrightarrow> marks_ok n (snd (foldl (\<lambda>gq e. group_one e gq) gq es))" for gq
    by (induction es arbitrary: gq) (simp_all add: marks_ok_group_one)
  from this [of "([], q)"] show "marks_ok n q \<Longrightarrow> group_events es q = (g, q') \<Longrightarrow> marks_ok n q'"
    by (simp add: group_events_def)
qed

lemma marks_ok_put: "marks_ok (buf_ids s) (buf_q s) \<Longrightarrow> marks_ok (buf_ids (put_one now b s)) (buf_q (put_one now b s))"
  by (auto simp: marks_ok_def put_one_def dq_put_def oid_def less_Suc_eq)

lemma marks_ok_batch:
  assumes "marks_ok (buf_ids s) (buf_q s)"
  shows "marks_ok (buf_ids (buffer_batch now es s)) (buf_q (buffer_batch now es s))"
proof -
  obtain g q where g: "group_events es (buf_q s) = (g, q)" by fastforce
  have "marks_ok (buf_ids s) q" using marks_ok_group [OF assms g] .
  moreover have "marks_ok (buf_ids s) (buf_q s) \<Longrightarrow>
      marks_ok (buf_ids (foldl (\<lambda>s b. put_one now b s) s g)) (buf_q (foldl (\<lambda>s b. put_one now b s) s g))" for s
    by (induction g arbitrary: s) (simp_all add: marks_ok_put)
  ultimately show ?thesis by (simp add: buffer_batch_def g)
qed

text \<open>
  Whatever batches the thread reads, an element waits in the delayed queue with the delay mark
  exactly when it is the lone first half of a move, so every other event can be delivered at once;
  and each queued element is an object of its own.
\<close>
theorem buffer_delays_only_lone_moves:
  "let q = buf_q (buffer_run bs (buffer_init delay path)) in
     distinct (map oid (dq_items q)) \<and> list_all (\<lambda>((i, b), t, d). d = lone_from b) (dq_items q)"
proof -
  have "marks_ok (buf_ids s) (buf_q s) \<Longrightarrow>
      marks_ok (buf_ids (buffer_run bs s)) (buf_q (buffer_run bs s))" for s
    by (induction bs s rule: buffer_run.induct) (simp_all add: marks_ok_batch)
  from this [of "buffer_init delay path"] show ?thesis
    by (auto simp: buffer_init_def dq_init_def marks_ok_def Let_def list_all_iff)
qed

end
