(* ===== verification/InotifyEmitter.thy ===== *)
theory InotifyEmitter
  imports InotifyBuffer Events
begin

text \<open>
  \<open>src/watchdog/observers/inotify.py\<close>: \<open>InotifyEmitter.queue_events\<close> turns one element of the buffer into
  the events of the API. Paths of the watch are strings, so \<open>_decode_path\<close> is the identity on the byte
  strings of \<open>Inotify\<close>. \<open>os.walk\<close> is the parameter \<open>walk\<close>.
\<close>

text \<open>\<open>em_full\<close>: the emitter is an \<open>InotifyFullEmitter\<close>.\<close>

record inotify_emitter =
  em_path :: string
  em_recursive :: bool
  em_full :: bool
  em_stopped :: bool

definition file_or_dir :: "inotify_event \<Rightarrow> event_class \<Rightarrow> event_class \<Rightarrow> event_class" where
  "file_or_dir e d f = (if is_directory e then d else f)"

definition parent_modified :: "string \<Rightarrow> fs_event" where
  "parent_modified p = event DirModifiedEvent (dirname p)"

definition moved_pair_events :: "(string \<Rightarrow> walk) \<Rightarrow> inotify_emitter \<Rightarrow> inotify_event \<Rightarrow> inotify_event \<Rightarrow> fs_event list" where
  "moved_pair_events walk em f t =
     (let src = ie_src_path f; dest = ie_src_path t in
      [moved_event (file_or_dir f DirMovedEvent FileMovedEvent) (Some src) (Some dest),
       parent_modified src, parent_modified dest] @
      (if is_directory f \<and> em_recursive em then generate_sub_moved_events (walk dest) (Some src) dest else []))"

definition single_events :: "(string \<Rightarrow> walk) \<Rightarrow> inotify_emitter \<Rightarrow> inotify_event \<Rightarrow> fs_event list \<times> inotify_emitter" where
  "single_events walk em e =
     (let src = ie_src_path e; full = em_full em in
      if is_moved_to e then
        ((if full then [moved_event (file_or_dir e DirMovedEvent FileMovedEvent) None (Some src)]
          else [event (file_or_dir e DirCreatedEvent FileCreatedEvent) src]) @
         [parent_modified src] @
         (if is_directory e \<and> em_recursive em then generate_sub_created_events (walk src) else []), em)
      else if is_attrib e then ([event (file_or_dir e DirModifiedEvent FileModifiedEvent) src], em)
      else if is_modify e then ([event (file_or_dir e DirModifiedEvent FileModifiedEvent) src], em)
      else if is_delete e \<or> is_moved_from e \<and> \<not> full then
        ([event (file_or_dir e DirDeletedEvent FileDeletedEvent) src, parent_modified src], em)
      else if is_moved_from e \<and> full then
        ([moved_event (file_or_dir e DirMovedEvent FileMovedEvent) (Some src) None, parent_modified src], em)
      else if is_create e then
        ([event (file_or_dir e DirCreatedEvent FileCreatedEvent) src, parent_modified src], em)
      else if is_close_write e \<and> \<not> is_directory e then
        ([event FileClosedEvent src, parent_modified src], em)
      else if is_delete_self e \<and> src = em_path em then
        ([event (file_or_dir e DirDeletedEvent FileDeletedEvent) src], em\<lparr>em_stopped := True\<rparr>)
      else ([], em))"

text \<open>\<open>None\<close> is what a closed buffer gives.\<close>

definition queue_inotify_events ::
  "(string \<Rightarrow> walk) \<Rightarrow> buffered option \<Rightarrow> inotify_emitter \<Rightarrow> fs_event list \<times> inotify_emitter" where
  "queue_inotify_events walk b em =
     (case b of
        None \<Rightarrow> ([], em)
      | Some (Pair f t) \<Rightarrow> (moved_pair_events walk em f t, em)
      | Some (Single e) \<Rightarrow> single_events walk em e)"

section \<open>Properties\<close>

text \<open>The masks the kernel reports for one change of a name \<open>n\<close> in a watched directory \<open>d\<close>.\<close>

datatype change = Creation | Deletion | Content | Attributes | ClosedWriting | MovedIn | MovedOut

fun change_mask :: "change \<Rightarrow> mask" where
  "change_mask Creation = IN_CREATE"
| "change_mask Deletion = IN_DELETE"
| "change_mask Content = IN_MODIFY"
| "change_mask Attributes = IN_ATTRIB"
| "change_mask ClosedWriting = IN_CLOSE_WRITE"
| "change_mask MovedIn = IN_MOVED_TO"
| "change_mask MovedOut = IN_MOVED_FROM"

definition change_event :: "change \<Rightarrow> bool \<Rightarrow> string \<Rightarrow> inotify_event" where
  "change_event c dir p =
     \<lparr>ie_wd = 1, ie_mask = (if dir then change_mask c OR IN_ISDIR else change_mask c), ie_cookie = 0,
      ie_name = path_tail p, ie_src_path = p\<rparr>"

definition pick :: "bool \<Rightarrow> event_class \<Rightarrow> event_class \<Rightarrow> event_class" where
  "pick dir d f = (if dir then d else f)"

fun expected_events :: "(string \<Rightarrow> walk) \<Rightarrow> bool \<Rightarrow> change \<Rightarrow> bool \<Rightarrow> string \<Rightarrow> fs_event list" where
  "expected_events walk rcr Creation dir p = [event (pick dir DirCreatedEvent FileCreatedEvent) p, parent_modified p]"
| "expected_events walk rcr Deletion dir p = [event (pick dir DirDeletedEvent FileDeletedEvent) p, parent_modified p]"
| "expected_events walk rcr Content dir p = [event (pick dir DirModifiedEvent FileModifiedEvent) p]"
| "expected_events walk rcr Attributes dir p = [event (pick dir DirModifiedEvent FileModifiedEvent) p]"
| "expected_events walk rcr ClosedWriting dir p = (if dir then [] else [event FileClosedEvent p, parent_modified p])"
| "expected_events walk rcr MovedIn dir p =
     [event (pick dir DirCreatedEvent FileCreatedEvent) p, parent_modified p] @
     (if dir \<and> rcr then generate_sub_created_events (walk p) else [])"
| "expected_events walk rcr MovedOut dir p = [event (pick dir DirDeletedEvent FileDeletedEvent) p, parent_modified p]"

text \<open>
  For each single change of a name the emitter queues exactly the events of that change, for
  files and for directories: a creation or an arrival as created and a deletion or a departure as
  deleted, each with a modification of the parent, a directory that arrives in a recursive watch with
  synthetic creations for everything in it, and a closed file as closed; and it goes on running.
\<close>
theorem single_change_events:
  "single_events walk \<lparr>em_path = w, em_recursive = rcr, em_full = False, em_stopped = st\<rparr> (change_event c dir p)
     = (expected_events walk rcr c dir p, \<lparr>em_path = w, em_recursive = rcr, em_full = False, em_stopped = st\<rparr>)"
  by (cases c; cases dir; simp add: single_events_def Let_def change_event_def flag_defs is_directory_def in_consts
      file_or_dir_def pick_def)

text \<open>
  A paired move is reported as one moved event between the two paths with a modification of both
  parents; in a recursive watch a moved directory brings a synthetic moved event for everything below
  it, from its old to its new path.
\<close>
theorem paired_move_events:
  assumes "is_directory f" and "em_recursive em" and "src = ie_src_path f" and "dest = ie_src_path t"
    and "dest \<noteq> []" and "src \<noteq> []"
    and "\<forall>(d, p)\<in>set (walk_entries (walk dest)). \<exists>x. p = dest @ x \<and> \<not> sublist dest x"
  shows "queue_inotify_events walk (Some (Pair f t)) em =
    ([moved_event DirMovedEvent (Some src) (Some dest), parent_modified src, parent_modified dest] @
     map (\<lambda>(d, p). \<lparr>ev_class = (if d then DirMovedEvent else FileMovedEvent),
        ev_src = Some (src @ drop (length dest) p), ev_dest = Some p, ev_synthetic = True\<rparr>) (walk_entries (walk dest)), em)"
  using assms(1,2) sub_moved_events_eq [OF assms(5-7)]
  by (simp add: queue_inotify_events_def moved_pair_events_def file_or_dir_def Let_def assms(3,4))

lemma paired_move_events_witness:
  "fst (queue_inotify_events (\<lambda>d. [(d, [], [''f''])])
      (Some (Pair (change_event MovedOut True ''/w/o'') (change_event MovedIn True ''/w/n'')))
      \<lparr>em_path = ''/w'', em_recursive = True, em_full = False, em_stopped = False\<rparr>) =
   [moved_event DirMovedEvent (Some ''/w/o'') (Some ''/w/n''), parent_modified ''/w/o'', parent_modified ''/w/n'',
    \<lparr>ev_class = FileMovedEvent, ev_src = Some ''/w/o/f'', ev_dest = Some ''/w/n/f'', ev_synthetic = True\<rparr>]"
proof -
  let ?f = "change_event MovedOut True ''/w/o''" and ?t = "change_event MovedIn True ''/w/n''"
  let ?em = "\<lparr>em_path = ''/w'', em_recursive = True, em_full = False, em_stopped = False\<rparr>"
  let ?walk = "\<lambda>d. [(d, [] :: string list, [''f''])]"
  have w: "walk_entries (?walk ''/w/n'') = [(False, ''/w/n/f'')]"
    by (simp add: walk_entries_def path_join_def sep_def)
  have "queue_inotify_events ?walk (Some (Pair ?f ?t)) ?em =
    ([moved_event DirMovedEvent (Some ''/w/o'') (Some ''/w/n''), parent_modified ''/w/o'', parent_modified ''/w/n''] @
     map (\<lambda>(d, p). \<lparr>ev_class = (if d then DirMovedEvent else FileMovedEvent),
        ev_src = Some (''/w/o'' @ drop (length ''/w/n'') p), ev_dest = Some p, ev_synthetic = True\<rparr>)
        (walk_entries (?walk ''/w/n'')), ?em)"
    by (rule paired_move_events)
      (simp_all add: change_event_def is_directory_def flag_defs in_consts w sublist_Cons_right)
  then show ?thesis by (simp add: w)
qed

end
