(* ===== verification/DirSnapshot.thy ===== *)
theory DirSnapshot
  imports PyText
begin

text \<open>
  \<open>src/watchdog/utils/dirsnapshot.py\<close>: snapshots of the stat information of a directory tree, and their
  difference. \<open>os.stat\<close> and \<open>os.scandir\<close> are parameters that answer or give an \<open>errno\<close>. Sets of paths are
  lists without duplicates; the order of a Python set is one order of many.
\<close>

section \<open>Stat information and file system\<close>

record stat =
  st_ino :: nat
  st_dev :: nat
  st_is_dir :: bool
  st_mtime :: int
  st_size :: nat

type_synonym stat_fn = "string \<Rightarrow> int + stat"
type_synonym listdir_fn = "string \<Rightarrow> int + string list"

definition ENOENT :: int where "ENOENT = 2"
definition ENOTDIR :: int where "ENOTDIR = 20"
definition EINVAL :: int where "EINVAL = 22"

text \<open>The \<open>errno\<close>s of \<open>PermissionError\<close>.\<close>

definition permission_error :: "py_error \<Rightarrow> bool" where
  "permission_error e \<longleftrightarrow> e \<in> {OSError 1, OSError 13}"

section \<open>\<open>DirectorySnapshot\<close>\<close>

record snapshot =
  stat_info :: "(string, stat) dict"
  inode_to_path :: "(nat \<times> nat, string) dict"

definition inode_of :: "stat \<Rightarrow> nat \<times> nat" where
  "inode_of st = (st_ino st, st_dev st)"

text \<open>The paths whose \<open>stat\<close> succeeds, in order.\<close>

fun stat_entries :: "stat_fn \<Rightarrow> string list \<Rightarrow> (string \<times> stat) list" where
  "stat_entries stat [] = []"
| "stat_entries stat (p # ps) =
     (case stat p of Inl _ \<Rightarrow> stat_entries stat ps | Inr st \<Rightarrow> (p, st) # stat_entries stat ps)"

text \<open>
  The recursion of \<open>walk\<close> into the directories among the entries; a \<open>PermissionError\<close> from one of them
  skips it.
\<close>

fun walk_dirs :: "(string \<Rightarrow> (string \<times> stat) list res) \<Rightarrow> (string \<times> stat) list \<Rightarrow> (string \<times> stat) list res" where
  "walk_dirs rec [] = Inr []"
| "walk_dirs rec ((p, st) # es) =
     (case (if st_is_dir st then rec p else Inr []) of
        Inl e \<Rightarrow> if permission_error e then walk_dirs rec es else Inl e
      | Inr sub \<Rightarrow> bindR (walk_dirs rec es) (\<lambda>rest. Inr (sub @ rest)))"

text \<open>
  \<open>walk\<close>; the first argument is the recursion depth that is left: at the limit Python raises
  \<open>RecursionError\<close>, a \<open>RuntimeError\<close>.
\<close>

primrec walk :: "nat \<Rightarrow> stat_fn \<Rightarrow> listdir_fn \<Rightarrow> bool \<Rightarrow> string \<Rightarrow> (string \<times> stat) list res" where
  "walk 0 stat listdir recursive root = Inl RuntimeError"
| "walk (Suc depth) stat listdir recursive root =
     (case listdir root of
        Inl e \<Rightarrow> if e \<in> {ENOENT, ENOTDIR, EINVAL} then Inr [] else Inl (OSError e)
      | Inr names \<Rightarrow>
          (let entries = stat_entries stat (map (path_join root) names) in
           if recursive
           then bindR (walk_dirs (walk depth stat listdir recursive) entries) (\<lambda>subs. Inr (entries @ subs))
           else Inr entries))"

definition enter_path :: "snapshot \<Rightarrow> string \<times> stat \<Rightarrow> snapshot" where
  "enter_path s e =
     (case e of (p, st) \<Rightarrow>
        s\<lparr>inode_to_path := dset (inode_of st) p (inode_to_path s), stat_info := dset p st (stat_info s)\<rparr>)"

definition snapshot_new :: "nat \<Rightarrow> stat_fn \<Rightarrow> listdir_fn \<Rightarrow> bool \<Rightarrow> string \<Rightarrow> snapshot res" where
  "snapshot_new depth stat listdir recursive path =
     (case stat path of
        Inl e \<Rightarrow> Inl (OSError e)
      | Inr st \<Rightarrow>
          bindR (walk depth stat listdir recursive path) (\<lambda>es.
            Inr (foldl enter_path \<lparr>stat_info = [], inode_to_path = []\<rparr> ((path, st) # es))))"

text \<open>\<open>EmptyDirectorySnapshot\<close>: no paths, and \<open>path\<close> answers \<open>None\<close>.\<close>

definition empty_snapshot :: snapshot where
  "empty_snapshot = \<lparr>stat_info = [], inode_to_path = []\<rparr>"

text \<open>
  The accessors, \<open>None\<close> where Python raises \<open>KeyError\<close>; on the paths that the difference asks for, a
  well-formed snapshot always answers.
\<close>

definition paths :: "snapshot \<Rightarrow> string list" where
  "paths s = dkeys (stat_info s)"

definition path_of :: "snapshot \<Rightarrow> nat \<times> nat \<Rightarrow> string option" where
  "path_of s i = dget (inode_to_path s) i"

definition inode :: "snapshot \<Rightarrow> string \<Rightarrow> (nat \<times> nat) option" where
  "inode s p = map_option inode_of (dget (stat_info s) p)"

definition isdir :: "snapshot \<Rightarrow> string \<Rightarrow> bool" where
  "isdir s p = (case dget (stat_info s) p of None \<Rightarrow> False | Some st \<Rightarrow> st_is_dir st)"

definition mtime :: "snapshot \<Rightarrow> string \<Rightarrow> int option" where
  "mtime s p = map_option st_mtime (dget (stat_info s) p)"

definition size_of :: "snapshot \<Rightarrow> string \<Rightarrow> nat option" where
  "size_of s p = map_option st_size (dget (stat_info s) p)"

section \<open>\<open>DirectorySnapshotDiff\<close>\<close>

record diff =
  dirs_created :: "string list"
  dirs_deleted :: "string list"
  dirs_modified :: "string list"
  dirs_moved :: "(string \<times> string) list"
  files_created :: "string list"
  files_deleted :: "string list"
  files_modified :: "string list"
  files_moved :: "(string \<times> string) list"

text \<open>\<open>get_inode\<close>: with \<open>ignore_device\<close> only the first component.\<close>

definition same_inode :: "bool \<Rightarrow> snapshot \<Rightarrow> snapshot \<Rightarrow> string \<Rightarrow> bool" where
  "same_inode ignore_device ref snap p =
     (if ignore_device then map_option fst (inode ref p) = map_option fst (inode snap p)
      else inode ref p = inode snap p)"

definition created0 :: "bool \<Rightarrow> snapshot \<Rightarrow> snapshot \<Rightarrow> string list" where
  "created0 ign ref snap = filter (\<lambda>p. p \<notin> set (paths ref) \<or> \<not> same_inode ign ref snap p) (paths snap)"

definition deleted0 :: "bool \<Rightarrow> snapshot \<Rightarrow> snapshot \<Rightarrow> string list" where
  "deleted0 ign ref snap = filter (\<lambda>p. p \<notin> set (paths snap) \<or> \<not> same_inode ign ref snap p) (paths ref)"

text \<open>The path that has, in \<open>other\<close>, the inode of \<open>p\<close>; an empty path counts as none.\<close>

definition counterpart :: "snapshot \<Rightarrow> snapshot \<Rightarrow> string \<Rightarrow> string option" where
  "counterpart own other p =
     (case inode own p of None \<Rightarrow> None
      | Some i \<Rightarrow> (case path_of other i of None \<Rightarrow> None | Some q \<Rightarrow> if q = [] then None else Some q))"

definition moved_pairs :: "bool \<Rightarrow> snapshot \<Rightarrow> snapshot \<Rightarrow> (string \<times> string) list" where
  "moved_pairs ign ref snap =
     remdups (List.map_filter (\<lambda>p. map_option (\<lambda>q. (p, q)) (counterpart ref snap p)) (deleted0 ign ref snap) @
              List.map_filter (\<lambda>q. map_option (\<lambda>p. (p, q)) (counterpart snap ref q)) (created0 ign ref snap))"

definition changed :: "snapshot \<Rightarrow> string \<Rightarrow> snapshot \<Rightarrow> string \<Rightarrow> bool" where
  "changed ref p snap q \<longleftrightarrow> mtime ref p \<noteq> mtime snap q \<or> size_of ref p \<noteq> size_of snap q"

definition modified_paths :: "bool \<Rightarrow> snapshot \<Rightarrow> snapshot \<Rightarrow> string list" where
  "modified_paths ign ref snap =
     remdups (filter (\<lambda>p. p \<in> set (paths snap) \<and> same_inode ign ref snap p \<and> changed ref p snap p) (paths ref) @
              map fst (filter (\<lambda>(p, q). changed ref p snap q) (moved_pairs ign ref snap)))"

definition snapshot_diff :: "bool \<Rightarrow> snapshot \<Rightarrow> snapshot \<Rightarrow> diff" where
  "snapshot_diff ign ref snap =
     (let created = filter (\<lambda>p. counterpart snap ref p = None) (created0 ign ref snap);
          deleted = filter (\<lambda>p. counterpart ref snap p = None) (deleted0 ign ref snap);
          moved = moved_pairs ign ref snap;
          modified = modified_paths ign ref snap
      in \<lparr>dirs_created = filter (isdir snap) created,
          dirs_deleted = filter (isdir ref) deleted,
          dirs_modified = filter (isdir ref) modified,
          dirs_moved = filter (\<lambda>(p, q). isdir ref p) moved,
          files_created = filter (\<lambda>p. \<not> isdir snap p) created,
          files_deleted = filter (\<lambda>p. \<not> isdir ref p) deleted,
          files_modified = filter (\<lambda>p. \<not> isdir ref p) modified,
          files_moved = filter (\<lambda>(p, q). \<not> isdir ref p) moved\<rparr>)"

section \<open>Well-formed snapshots\<close>

text \<open>
  Every listed inode is that of its path, every path's inode is listed; no path is empty. \<open>no_links\<close>: no
  two paths share an inode.
\<close>

definition snapshot_ok :: "snapshot \<Rightarrow> bool" where
  "snapshot_ok s \<longleftrightarrow> dict_ok (stat_info s) \<and> [] \<notin> set (paths s)
     \<and> (\<forall>i p. path_of s i = Some p \<longrightarrow> inode s p = Some i)
     \<and> (\<forall>p i. inode s p = Some i \<longrightarrow> path_of s i \<noteq> None)"

definition no_links :: "snapshot \<Rightarrow> bool" where
  "no_links s \<longleftrightarrow> (\<forall>p q i. inode s p = Some i \<longrightarrow> inode s q = Some i \<longrightarrow> p = q)"

lemma set_paths: "p \<in> set (paths s) \<longleftrightarrow> (\<exists>i. inode s p = Some i)"
  by (auto simp: paths_def set_dkeys inode_def)

lemma enter_path_ok:
  assumes "snapshot_ok s" and "p \<notin> set (paths s)" and "p \<noteq> []"
  shows "snapshot_ok (enter_path s (p, st))" and "set (paths (enter_path s (p, st))) = insert p (set (paths s))"
proof -
  have ino: "inode (enter_path s (p, st)) q = (if q = p then Some (inode_of st) else inode s q)"
    and pth: "path_of (enter_path s (p, st)) i = (if i = inode_of st then Some p else path_of s i)" for q i
    by (simp_all add: inode_def path_of_def enter_path_def)
  have new: "inode s p = None" using assms(2) by (cases "inode s p") (auto simp: set_paths)
  show set: "set (paths (enter_path s (p, st))) = insert p (set (paths s))"
    by (auto simp: set_paths ino split: if_splits)
  have "dict_ok (stat_info (enter_path s (p, st)))"
    using assms(1) by (simp add: snapshot_ok_def enter_path_def)
  then show "snapshot_ok (enter_path s (p, st))"
    unfolding snapshot_ok_def set ino pth
  proof (intro conjI allI impI)
    fix i q assume "(if i = inode_of st then Some p else path_of s i) = Some q"
    moreover have "path_of s i = Some q \<Longrightarrow> inode s q = Some i"
      using assms(1) unfolding snapshot_ok_def by blast
    ultimately show "(if q = p then Some (inode_of st) else inode s q) = Some i"
      using new by (cases "i = inode_of st"; cases "q = p") simp_all
  next
    fix q i assume "(if q = p then Some (inode_of st) else inode s q) = Some i"
    moreover have "inode s q = Some i \<Longrightarrow> path_of s i \<noteq> None"
      using assms(1) unfolding snapshot_ok_def by blast
    ultimately show "(if i = inode_of st then Some p else path_of s i) \<noteq> None"
      by (cases "q = p"; cases "i = inode_of st") simp_all
  qed (use assms in \<open>auto simp: snapshot_ok_def\<close>)
qed

lemma enter_paths_ok:
  assumes "snapshot_ok s" and "distinct (map fst es)" and "set (map fst es) \<inter> set (paths s) = {}"
    and "[] \<notin> set (map fst es)"
  shows "snapshot_ok (foldl enter_path s es)
    \<and> set (paths (foldl enter_path s es)) = set (paths s) \<union> set (map fst es)"
  using assms
proof (induction es arbitrary: s)
  case (Cons e es)
  obtain p st where e: "e = (p, st)" by (cases e)
  have "snapshot_ok (enter_path s e)" "set (paths (enter_path s e)) = insert p (set (paths s))"
    using enter_path_ok [of s p st] Cons.prems e by auto
  with Cons.IH [of "enter_path s e"] Cons.prems e show ?case by auto
qed simp

lemma empty_ok: "snapshot_ok empty_snapshot" "no_links empty_snapshot" "paths empty_snapshot = []"
  by (simp_all add: snapshot_ok_def no_links_def empty_snapshot_def paths_def path_of_def inode_def dkeys_def)

section \<open>What the difference says\<close>

lemma snapshot_ok_path: "snapshot_ok s \<Longrightarrow> path_of s i = Some p \<Longrightarrow> inode s p = Some i"
  unfolding snapshot_ok_def by blast

lemma snapshot_ok_inode: "snapshot_ok s \<Longrightarrow> inode s p = Some i \<Longrightarrow> \<exists>q. path_of s i = Some q"
  unfolding snapshot_ok_def by blast

lemma snapshot_ok_nonempty: "snapshot_ok s \<Longrightarrow> inode s p = Some i \<Longrightarrow> p \<noteq> []"
  unfolding snapshot_ok_def using set_paths by blast

lemma counterpart_iff:
  assumes "snapshot_ok own" and "snapshot_ok other" and "no_links other"
  shows "counterpart own other p = Some q \<longleftrightarrow> inode own p \<noteq> None \<and> inode own p = inode other q"
proof
  assume "counterpart own other p = Some q"
  then obtain i where "inode own p = Some i" "path_of other i = Some q"
    by (auto simp: counterpart_def split: option.splits if_splits)
  with snapshot_ok_path [OF assms(2)] show "inode own p \<noteq> None \<and> inode own p = inode other q" by simp
next
  assume "inode own p \<noteq> None \<and> inode own p = inode other q"
  then obtain i where i: "inode own p = Some i" "inode other q = Some i" by (metis option.exhaust)
  from snapshot_ok_inode [OF assms(2) i(2)] obtain r where r: "path_of other i = Some r" by blast
  with i assms(3) snapshot_ok_path [OF assms(2) r] have "r = q" unfolding no_links_def by blast
  with i r snapshot_ok_nonempty [OF assms(2) i(2)] show "counterpart own other p = Some q"
    by (simp add: counterpart_def)
qed

text \<open>Two snapshots whose inodes identify their paths.\<close>

definition comparable :: "snapshot \<Rightarrow> snapshot \<Rightarrow> bool" where
  "comparable ref snap \<longleftrightarrow> snapshot_ok ref \<and> snapshot_ok snap \<and> no_links ref \<and> no_links snap"

lemma created0_iff: "q \<in> set (created0 False ref snap) \<longleftrightarrow> inode snap q \<noteq> None \<and> inode ref q \<noteq> inode snap q"
  by (cases "inode snap q"; cases "inode ref q") (auto simp: created0_def set_paths same_inode_def)

lemma deleted0_iff: "p \<in> set (deleted0 False ref snap) \<longleftrightarrow> inode ref p \<noteq> None \<and> inode snap p \<noteq> inode ref p"
  by (cases "inode snap p"; cases "inode ref p") (auto simp: deleted0_def set_paths same_inode_def)

lemma created_spec:
  assumes "comparable ref snap"
  shows "q \<in> set (created0 False ref snap) \<and> counterpart snap ref q = None
     \<longleftrightarrow> inode snap q \<noteq> None \<and> (\<forall>p. inode ref p \<noteq> inode snap q)"
proof -
  have "counterpart snap ref q = Some p \<longleftrightarrow> inode snap q \<noteq> None \<and> inode snap q = inode ref p" for p
    using assms by (intro counterpart_iff) (simp_all add: comparable_def)
  then show ?thesis unfolding created0_iff by (metis option.exhaust option.distinct(1))
qed

lemma deleted_spec:
  assumes "comparable ref snap"
  shows "p \<in> set (deleted0 False ref snap) \<and> counterpart ref snap p = None
     \<longleftrightarrow> inode ref p \<noteq> None \<and> (\<forall>q. inode snap q \<noteq> inode ref p)"
proof -
  have "counterpart ref snap p = Some q \<longleftrightarrow> inode ref p \<noteq> None \<and> inode ref p = inode snap q" for q
    using assms by (intro counterpart_iff) (simp_all add: comparable_def)
  then show ?thesis unfolding deleted0_iff by (metis option.exhaust option.distinct(1))
qed

lemma moved_pairs_iff:
  "(p, q) \<in> set (moved_pairs ign ref snap) \<longleftrightarrow>
      (p \<in> set (deleted0 ign ref snap) \<and> counterpart ref snap p = Some q)
      \<or> (q \<in> set (created0 ign ref snap) \<and> counterpart snap ref q = Some p)"
proof -
  have m: "(a, b) \<in> set (List.map_filter (\<lambda>x. map_option (\<lambda>y. (x, y)) (f x)) xs) \<longleftrightarrow> a \<in> set xs \<and> f a = Some b"
    and m': "(b, a) \<in> set (List.map_filter (\<lambda>x. map_option (\<lambda>y. (y, x)) (f x)) xs) \<longleftrightarrow> a \<in> set xs \<and> f a = Some b"
    for a b and f :: "string \<Rightarrow> string option" and xs
    by (induction xs) (auto simp: map_filter_simps split: option.splits)
  show ?thesis by (simp add: moved_pairs_def m m')
qed

lemma moved_spec:
  assumes "comparable ref snap"
  shows "(p, q) \<in> set (moved_pairs False ref snap) \<longleftrightarrow> p \<noteq> q \<and> inode ref p \<noteq> None \<and> inode ref p = inode snap q"
proof -
  have ok: "snapshot_ok ref" "snapshot_ok snap" "no_links ref" "no_links snap"
    using assms by (simp_all add: comparable_def)
  show ?thesis
    unfolding moved_pairs_iff counterpart_iff [OF ok(1,2,4)] counterpart_iff [OF ok(2,1,3)] deleted0_iff created0_iff
    using ok(3,4) unfolding no_links_def by (metis option.exhaust)
qed

lemma modified_spec:
  assumes "comparable ref snap"
  shows "p \<in> set (modified_paths False ref snap)
     \<longleftrightarrow> (\<exists>q. inode ref p \<noteq> None \<and> inode ref p = inode snap q \<and> changed ref p snap q)"
proof -
  have "p \<in> fst ` {x \<in> set xs. case x of (p, q) \<Rightarrow> P p q} \<longleftrightarrow> (\<exists>q. (p, q) \<in> set xs \<and> P p q)"
    for xs :: "(string \<times> string) list" and P
    by force
  then have "p \<in> set (modified_paths False ref snap) \<longleftrightarrow>
      (p \<in> set (paths ref) \<and> p \<in> set (paths snap) \<and> inode ref p = inode snap p \<and> changed ref p snap p)
      \<or> (\<exists>q. (p, q) \<in> set (moved_pairs False ref snap) \<and> changed ref p snap q)"
    by (auto simp: modified_paths_def same_inode_def)
  also have "\<dots> \<longleftrightarrow> (\<exists>q. inode ref p \<noteq> None \<and> inode ref p = inode snap q \<and> changed ref p snap q)"
    unfolding moved_spec [OF assms] set_paths by (metis option.exhaust option.distinct(1))
  finally show ?thesis .
qed

section \<open>The constructor\<close>

text \<open>What a directory listing looks like: different names, none empty, none with a slash.\<close>

definition listing_ok :: "listdir_fn \<Rightarrow> bool" where
  "listing_ok listdir \<longleftrightarrow>
     (\<forall>d ns. listdir d = Inr ns \<longrightarrow> distinct ns \<and> (\<forall>n\<in>set ns. n \<noteq> [] \<and> sep \<notin> set n))"

definition base :: "string \<Rightarrow> string" where
  "base r = (if last r = sep then r else r @ [sep])"

lemma path_join_base: "r \<noteq> [] \<Longrightarrow> n \<noteq> [] \<Longrightarrow> sep \<notin> set n \<Longrightarrow> path_join r n = base r @ n"
  by (cases n) (auto simp: path_join_def base_def)

lemma base_child: "n \<noteq> [] \<Longrightarrow> sep \<notin> set n \<Longrightarrow> base (b @ n) = b @ n @ [sep]"
  by (cases n rule: rev_cases) (auto simp: base_def)

lemma sep_prefix_unique: "n @ sep # x = m @ sep # y \<Longrightarrow> sep \<notin> set n \<Longrightarrow> sep \<notin> set m \<Longrightarrow> n = m"
  by (induction n arbitrary: m) (case_tac m; auto)+

lemma stat_entries_sub: "map fst (stat_entries stat ps) = filter (\<lambda>p. \<exists>st. stat p = Inr st) ps"
  by (induction ps) (auto split: sum.splits)

lemma walk_dirs_paths:
  assumes "\<And>p sub. p \<in> fst ` set es \<Longrightarrow> rec p = Inr sub \<Longrightarrow>
      distinct (map fst sub) \<and> (\<forall>q\<in>set (map fst sub). \<exists>x. q = p @ sep # x)"
    and "distinct (map fst es)" and "\<forall>p\<in>fst ` set es. \<exists>n. p = b @ n \<and> sep \<notin> set n"
    and "walk_dirs rec es = Inr subs"
  shows "distinct (map fst subs) \<and> (\<forall>q\<in>set (map fst subs). \<exists>p\<in>fst ` set es. \<exists>x. q = p @ sep # x)"
  using assms
proof (induction es arbitrary: subs)
  case (Cons e es)
  obtain p st where e: "e = (p, st)" by (cases e)
  have IH: "\<And>subs. walk_dirs rec es = Inr subs \<Longrightarrow>
      distinct (map fst subs) \<and> (\<forall>q\<in>set (map fst subs). \<exists>p\<in>fst ` set es. \<exists>x. q = p @ sep # x)"
    using Cons.prems(1-3) by (intro Cons.IH) auto
  show ?case
  proof (cases "if st_is_dir st then rec p else Inr []")
    case (Inl x)
    then have "walk_dirs rec es = Inr subs" using Cons.prems(4) by (auto simp: e split: if_splits)
    from IH [OF this] show ?thesis by auto
  next
    case (Inr sub)
    then obtain rest where rest: "walk_dirs rec es = Inr rest" "subs = sub @ rest"
      using Cons.prems(4) by (auto simp: e bindR_eq_Inr)
    have sub: "distinct (map fst sub) \<and> (\<forall>q\<in>set (map fst sub). \<exists>x. q = p @ sep # x)"
      using Inr Cons.prems(1) [of p sub] e by (auto split: if_splits)
    have "q \<notin> set (map fst rest)" if "q \<in> set (map fst sub)" for q
    proof
      assume "q \<in> set (map fst rest)"
      with IH [OF rest(1)] obtain p' x' where p': "p' \<in> fst ` set es" "q = p' @ sep # x'" by blast
      from that sub obtain x where x: "q = p @ sep # x" by blast
      obtain n where n: "p = b @ n" "sep \<notin> set n" using Cons.prems(3) e by auto
      obtain m where m: "p' = b @ m" "sep \<notin> set m" using Cons.prems(3) p'(1) by auto
      have "n @ sep # x = m @ sep # x'" using x p'(2) n m by simp
      with n m have "p = p'" using sep_prefix_unique by blast
      with p' Cons.prems(2) e show False by auto
    qed
    with sub IH [OF rest(1)] rest(2) e show ?thesis by auto
  qed
qed simp

lemma walk_paths:
  assumes l: "listing_ok listdir"
  shows "r \<noteq> [] \<Longrightarrow> walk d stat listdir rcr r = Inr es \<Longrightarrow>
     distinct (map fst es) \<and> (\<forall>p\<in>set (map fst es). \<exists>x. p = base r @ x \<and> x \<noteq> [])"
proof (induction d arbitrary: r es)
  case (Suc d)
  show ?case
  proof (cases "listdir r")
    case (Inl x)
    with Suc.prems show ?thesis by (auto split: if_splits)
  next
    case (Inr names)
    with l have names: "distinct names" "\<forall>n\<in>set names. n \<noteq> [] \<and> sep \<notin> set n" by (auto simp: listing_ok_def)
    define entries where "entries = stat_entries stat (map (path_join r) names)"
    have eq: "map (path_join r) names = map (\<lambda>n. base r @ n) names"
      using names Suc.prems(1) by (auto intro: path_join_base)
    then have fst: "map fst entries = filter (\<lambda>p. \<exists>st. stat p = Inr st) (map (\<lambda>n. base r @ n) names)"
      by (simp only: entries_def stat_entries_sub eq)
    have dist: "distinct (map fst entries)" unfolding fst using names(1) by (simp add: distinct_map inj_on_def)
    have shape: "\<exists>n. p = base r @ n \<and> n \<noteq> [] \<and> sep \<notin> set n" if "p \<in> set (map fst entries)" for p
      using that names unfolding fst by auto
    show ?thesis
    proof (cases rcr)
      case False
      with Suc.prems Inr have "es = entries" by (simp add: entries_def Let_def)
      with dist shape show ?thesis by blast
    next
      case True
      with Suc.prems Inr obtain subs where subs: "walk_dirs (walk d stat listdir rcr) entries = Inr subs" "es = entries @ subs"
        by (auto simp: entries_def [symmetric] Let_def bindR_eq_Inr)
      have w: "distinct (map fst subs) \<and> (\<forall>q\<in>set (map fst subs). \<exists>p\<in>fst ` set entries. \<exists>x. q = p @ sep # x)"
      proof (rule walk_dirs_paths [OF _ dist _ subs(1)])
        fix p sub assume p: "p \<in> fst ` set entries" "walk d stat listdir rcr p = Inr sub"
        then obtain n where n: "p = base r @ n" "n \<noteq> []" "sep \<notin> set n" using shape by auto
        from Suc.IH [OF _ p(2)] n base_child [OF n(2,3)]
        show "distinct (map fst sub) \<and> (\<forall>q\<in>set (map fst sub). \<exists>x. q = p @ sep # x)" by fastforce
      qed (use shape in auto)
      have "q \<notin> set (map fst subs)" if "q \<in> set (map fst entries)" for q
      proof
        assume "q \<in> set (map fst subs)"
        with w have "\<exists>p\<in>fst ` set entries. \<exists>x. q = p @ sep # x" by blast
        then obtain p x where "p \<in> set (map fst entries)" "q = p @ sep # x" by auto
        with shape [OF that] shape [of p] show False by (metis append_assoc in_set_conv_decomp same_append_eq)
      qed
      moreover have "\<exists>x. q = base r @ x \<and> x \<noteq> []" if "q \<in> set (map fst subs)" for q
      proof -
        from w that have "\<exists>p\<in>fst ` set entries. \<exists>x. q = p @ sep # x" by blast
        then obtain p x where "p \<in> set (map fst entries)" "q = p @ sep # x" by auto
        with shape [of p] show ?thesis by (metis append_assoc append_is_Nil_conv)
      qed
      moreover have "\<forall>p\<in>set (map fst entries). \<exists>x. p = base r @ x \<and> x \<noteq> []" using shape by blast
      ultimately show ?thesis
        using w dist unfolding subs(2) map_append distinct_append set_append ball_Un by blast
    qed
  qed
qed simp

lemma snapshot_new_ok:
  assumes "listing_ok listdir" and "path \<noteq> []" and "snapshot_new d stat listdir rcr path = Inr s"
  shows "snapshot_ok s"
proof -
  from assms(3) obtain st es where e: "walk d stat listdir rcr path = Inr es"
    "s = foldl enter_path empty_snapshot ((path, st) # es)"
    by (auto simp: snapshot_new_def bindR_eq_Inr empty_snapshot_def split: sum.splits)
  note w = walk_paths [OF assms(1,2) e(1)]
  then have "path \<notin> set (map fst es)" by (auto simp: base_def split: if_splits)
  moreover have "[] \<notin> set (map fst es)" using w by fastforce
  ultimately have "snapshot_ok (foldl enter_path empty_snapshot ((path, st) # es)) \<and>
      set (paths (foldl enter_path empty_snapshot ((path, st) # es))) = set (paths empty_snapshot) \<union> set (map fst ((path, st) # es))"
    using w assms(2) empty_ok by (intro enter_paths_ok) auto
  with e(2) show ?thesis by simp
qed

section \<open>Properties\<close>

text \<open>
  C3: For snapshots without hard links the difference is exactly what happened to the inodes: created are
  the paths whose inode is new, deleted those whose inode is gone, moved the pairs of different paths
  with the same inode, and modified the (old) paths of the inodes that stayed and whose mtime or size
  changed; each list holds the directories or the files among them.
\<close>
theorem snapshot_diff_spec:
  assumes "comparable ref snap" and "d = snapshot_diff False ref snap"
  shows "(q \<in> set (dirs_created d) \<longleftrightarrow> inode snap q \<noteq> None \<and> (\<forall>p. inode ref p \<noteq> inode snap q) \<and> isdir snap q)
    \<and> (q \<in> set (files_created d) \<longleftrightarrow> inode snap q \<noteq> None \<and> (\<forall>p. inode ref p \<noteq> inode snap q) \<and> \<not> isdir snap q)
    \<and> (p \<in> set (dirs_deleted d) \<longleftrightarrow> inode ref p \<noteq> None \<and> (\<forall>q. inode snap q \<noteq> inode ref p) \<and> isdir ref p)
    \<and> (p \<in> set (files_deleted d) \<longleftrightarrow> inode ref p \<noteq> None \<and> (\<forall>q. inode snap q \<noteq> inode ref p) \<and> \<not> isdir ref p)
    \<and> ((p, q) \<in> set (dirs_moved d) \<longleftrightarrow> p \<noteq> q \<and> inode ref p \<noteq> None \<and> inode ref p = inode snap q \<and> isdir ref p)
    \<and> ((p, q) \<in> set (files_moved d) \<longleftrightarrow> p \<noteq> q \<and> inode ref p \<noteq> None \<and> inode ref p = inode snap q \<and> \<not> isdir ref p)
    \<and> (p \<in> set (dirs_modified d) \<longleftrightarrow>
         (\<exists>q. inode ref p \<noteq> None \<and> inode ref p = inode snap q \<and> changed ref p snap q) \<and> isdir ref p)
    \<and> (p \<in> set (files_modified d) \<longleftrightarrow>
         (\<exists>q. inode ref p \<noteq> None \<and> inode ref p = inode snap q \<and> changed ref p snap q) \<and> \<not> isdir ref p)"
  using created_spec [OF assms(1), of q] deleted_spec [OF assms(1), of p] moved_spec [OF assms(1), of p q]
    modified_spec [OF assms(1), of p]
  unfolding assms(2) snapshot_diff_def Let_def by (intro conjI) (simp_all, blast+)

definition regular :: "nat \<Rightarrow> int \<Rightarrow> stat" where
  "regular i t = \<lparr>st_ino = i, st_dev = 1, st_is_dir = False, st_mtime = t, st_size = 0\<rparr>"

definition snap_of :: "(string \<times> stat) list \<Rightarrow> snapshot" where
  "snap_of es = foldl enter_path empty_snapshot es"

lemma snap_of_ok: "distinct (map fst es) \<Longrightarrow> [] \<notin> set (map fst es) \<Longrightarrow> snapshot_ok (snap_of es)"
  unfolding snap_of_def using enter_paths_ok [of empty_snapshot es] empty_ok by simp

lemma no_links_list:
  assumes "\<forall>(p, st)\<in>set (stat_info s). \<forall>(q, st')\<in>set (stat_info s). inode_of st = inode_of st' \<longrightarrow> p = q"
  shows "no_links s"
  unfolding no_links_def inode_def using assms by (auto dest!: map_of_SomeD) fastforce

definition demo_ref :: snapshot where
  "demo_ref = snap_of [(''/d/a'', regular 1 0), (''/d/b'', regular 2 0), (''/d/c'', regular 3 0)]"

definition demo_snap :: snapshot where
  "demo_snap = snap_of [(''/d/a'', regular 1 5), (''/d/z'', regular 2 0), (''/d/n'', regular 4 0)]"

lemma demo_info:
  "stat_info demo_ref = [(''/d/a'', regular 1 0), (''/d/b'', regular 2 0), (''/d/c'', regular 3 0)]"
  "stat_info demo_snap = [(''/d/a'', regular 1 5), (''/d/z'', regular 2 0), (''/d/n'', regular 4 0)]"
  by (simp_all add: demo_ref_def demo_snap_def snap_of_def empty_snapshot_def enter_path_def)

lemma demo_comparable: "comparable demo_ref demo_snap"
proof -
  have "snapshot_ok demo_ref" "snapshot_ok demo_snap"
    unfolding demo_ref_def demo_snap_def by (rule snap_of_ok; simp)+
  moreover have "no_links demo_ref" "no_links demo_snap"
    by (rule no_links_list; simp add: demo_info regular_def inode_of_def)+
  ultimately show ?thesis by (simp add: comparable_def)
qed

lemma snapshot_diff_spec_witness:
  "(''/d/b'', ''/d/z'') \<in> set (files_moved (snapshot_diff False demo_ref demo_snap))
   \<and> ''/d/z'' \<notin> set (files_created (snapshot_diff False demo_ref demo_snap))"
proof -
  have "inode demo_ref ''/d/b'' = Some (2, 1)" "inode demo_snap ''/d/z'' = Some (2, 1)" "\<not> isdir demo_ref ''/d/b''"
    by (simp_all add: inode_def isdir_def demo_info regular_def inode_of_def)
  with snapshot_diff_spec [OF demo_comparable refl, of "''/d/z''" "''/d/b''"] show ?thesis by auto
qed

text \<open>
  C39: The snapshots that the constructor takes of a file system with proper listings are well-formed: every
  path's inode leads to a path with that inode, so the lookups of the difference succeed.
\<close>
theorem snapshot_new_well_formed:
  assumes "listing_ok listdir" and "path \<noteq> []" and "snapshot_new d stat listdir rcr path = Inr s"
  shows "path \<in> set (paths s) \<and> distinct (paths s)
    \<and> (\<forall>p\<in>set (paths s). \<exists>i q. inode s p = Some i \<and> path_of s i = Some q \<and> inode s q = Some i)"
proof -
  note ok = snapshot_new_ok [OF assms]
  have keep: "p \<in> set (paths t) \<Longrightarrow> p \<in> set (paths (foldl enter_path t es))" for p t es
  proof (induction es arbitrary: t)
    case (Cons e es)
    have "p \<in> set (paths (enter_path t e))"
      using Cons.prems by (cases e) (auto simp: enter_path_def paths_def set_dkeys)
    with Cons.IH show ?case by simp
  qed simp
  from assms(3) obtain st es where "s = foldl enter_path (enter_path empty_snapshot (path, st)) es"
    by (auto simp: snapshot_new_def bindR_eq_Inr empty_snapshot_def split: sum.splits)
  moreover have "path \<in> set (paths (enter_path empty_snapshot (path, st)))" for st
    by (auto simp: enter_path_def paths_def set_dkeys)
  ultimately have "path \<in> set (paths s)" using keep by simp
  moreover have "distinct (paths s)" using ok by (simp add: snapshot_ok_def dict_ok_def paths_def dkeys_def)
  moreover have "\<exists>i q. inode s p = Some i \<and> path_of s i = Some q \<and> inode s q = Some i" if "p \<in> set (paths s)" for p
    using that snapshot_ok_inode [OF ok] snapshot_ok_path [OF ok] unfolding set_paths by metis
  ultimately show ?thesis by blast
qed

definition demo_stat :: stat_fn where
  "demo_stat p = (if p = ''/d'' then Inr \<lparr>st_ino = 9, st_dev = 1, st_is_dir = True, st_mtime = 0, st_size = 0\<rparr>
     else if p = ''/d/a'' then Inr (regular 1 0) else Inl ENOENT)"

definition demo_listdir :: listdir_fn where
  "demo_listdir p = (if p = ''/d'' then Inr [''a'', ''gone''] else Inl ENOTDIR)"

lemma snapshot_new_well_formed_witness:
  "\<exists>s. snapshot_new 3 demo_stat demo_listdir True ''/d'' = Inr s \<and> ''/d'' \<in> set (paths s) \<and> length (paths s) = 2"
proof -
  let ?s = "snap_of [(''/d'', \<lparr>st_ino = 9, st_dev = 1, st_is_dir = True, st_mtime = 0, st_size = 0\<rparr>), (''/d/a'', regular 1 0)]"
  have new: "snapshot_new (Suc (Suc (Suc 0))) demo_stat demo_listdir True ''/d'' = Inr ?s"
    by (simp add: snapshot_new_def demo_stat_def demo_listdir_def path_join_def sep_def regular_def snap_of_def empty_snapshot_def)
  have "listing_ok demo_listdir" by (simp add: listing_ok_def demo_listdir_def sep_def)
  from snapshot_new_well_formed [OF this _ new] have "''/d'' \<in> set (paths ?s)" by simp
  moreover have "length (paths ?s) = 2" by (simp add: snap_of_def empty_snapshot_def enter_path_def paths_def dkeys_def)
  ultimately show ?thesis using new by (simp add: numeral_3_eq_3)
qed

text \<open>
  With hard links the difference goes wrong: when one of two names of a file is deleted, the other,
  which has not changed, is reported as the destination of a move.
\<close>
theorem deleted_hard_link_is_move:
  "let ref = snap_of [(''/d/a'', regular 1 0), (''/d/b'', regular 1 0)]; snap = snap_of [(''/d/b'', regular 1 0)];
       d = snapshot_diff False ref snap
   in files_moved d = [(''/d/a'', ''/d/b'')] \<and> files_deleted d = [] \<and> ''/d/b'' \<in> set (paths ref)"
  by code_simp
end
