(* ===== verification/Polling.thy ===== *)
theory Polling
  imports DirSnapshot Events
begin

text \<open>
  \<open>src/watchdog/observers/polling.py\<close>: \<open>PollingEmitter\<close> takes a snapshot per interval and queues the
  events of the difference to the one before. Taking a snapshot is a parameter here: the result of
  \<open>DirSnapshot.snapshot_new\<close> at that moment.
\<close>

record poller =
  pl_path :: string
  pl_snapshot :: "snapshot option"
  pl_stopped :: bool

definition poller_new :: "string \<Rightarrow> poller" where
  "poller_new path = \<lparr>pl_path = path, pl_snapshot = None, pl_stopped = False\<rparr>"

definition poller_start :: "snapshot res \<Rightarrow> poller \<Rightarrow> poller res" where
  "poller_start taken s = bindR taken (\<lambda>snap. Inr (s\<lparr>pl_snapshot := Some snap\<rparr>))"

definition diff_events :: "diff \<Rightarrow> fs_event list" where
  "diff_events d =
     map (event FileDeletedEvent) (files_deleted d) @
     map (event FileModifiedEvent) (files_modified d) @
     map (event FileCreatedEvent) (files_created d) @
     map (\<lambda>(p, q). moved_event FileMovedEvent (Some p) (Some q)) (files_moved d) @
     map (event DirDeletedEvent) (dirs_deleted d) @
     map (event DirModifiedEvent) (dirs_modified d) @
     map (event DirCreatedEvent) (dirs_created d) @
     map (\<lambda>(p, q). moved_event DirMovedEvent (Some p) (Some q)) (dirs_moved d)"

text \<open>
  \<open>queue_events\<close>: the events queued, the exception that leaves it, the emitter afterwards. Only an
  \<open>OSError\<close> of the new snapshot is caught: the watched path is reported deleted and the emitter stops.
  Before \<open>on_thread_start\<close> there is no snapshot to compare with (an \<open>AttributeError\<close>).
\<close>

definition poll_events :: "snapshot res \<Rightarrow> poller \<Rightarrow> fs_event list \<times> py_error option \<times> poller" where
  "poll_events taken s =
     (if pl_stopped s then ([], None, s)
      else
        (case taken of
           Inl (OSError e) \<Rightarrow> ([event DirDeletedEvent (pl_path s)], None, s\<lparr>pl_stopped := True\<rparr>)
         | Inl x \<Rightarrow> ([], Some x, s)
         | Inr new \<Rightarrow>
             (case pl_snapshot s of
                None \<Rightarrow> ([], Some AttributeError, s)
              | Some old \<Rightarrow> (diff_events (snapshot_diff False old new), None, s\<lparr>pl_snapshot := Some new\<rparr>))))"

section \<open>Properties\<close>

text \<open>The paths that a batch of events takes away and brings.\<close>

definition removed_by :: "fs_event list \<Rightarrow> string set" where
  "removed_by evs = {p. \<exists>e\<in>set evs. ev_src e = Some p \<and> ev_type e \<in> {EVENT_TYPE_DELETED, EVENT_TYPE_MOVED}}"

definition added_by :: "fs_event list \<Rightarrow> string set" where
  "added_by evs = {p. \<exists>e\<in>set evs. (ev_src e = Some p \<and> ev_type e = EVENT_TYPE_CREATED)
      \<or> (ev_dest e = Some p \<and> ev_type e = EVENT_TYPE_MOVED)}"

lemma removed_by_append: "removed_by (xs @ ys) = removed_by xs \<union> removed_by ys"
  by (auto simp: removed_by_def)

lemma added_by_append: "added_by (xs @ ys) = added_by xs \<union> added_by ys"
  by (auto simp: added_by_def)

lemma removed_by_events:
  "removed_by (map (event c) ps) = (if type_of c \<in> {EVENT_TYPE_DELETED, EVENT_TYPE_MOVED} then set ps else {})"
  by (auto simp: removed_by_def event_def ev_type_def)

lemma added_by_events: "type_of c \<noteq> EVENT_TYPE_MOVED \<Longrightarrow>
    added_by (map (event c) ps) = (if type_of c = EVENT_TYPE_CREATED then set ps else {})"
  by (auto simp: added_by_def event_def ev_type_def)

lemma moved_events_by':
  assumes "\<And>x. ev_src (f x) = Some (fst x)" and "\<And>x. ev_dest (f x) = Some (snd x)"
    and "\<And>x. ev_type (f x) = EVENT_TYPE_MOVED"
  shows "removed_by (map f ps) = fst ` set ps" and "added_by (map f ps) = snd ` set ps"
  by (auto simp: removed_by_def added_by_def assms image_iff)

lemma moved_events_by:
  assumes "type_of c = EVENT_TYPE_MOVED"
  shows "removed_by (map (\<lambda>(p, q). moved_event c (Some p) (Some q)) ps) = fst ` set ps"
    and "added_by (map (\<lambda>(p, q). moved_event c (Some p) (Some q)) ps) = snd ` set ps"
  by (rule moved_events_by'; simp add: moved_event_def ev_type_def assms split: prod.split)+

lemma removed_by_diff:
  "removed_by (diff_events d) = set (files_deleted d) \<union> set (dirs_deleted d)
     \<union> fst ` set (files_moved d) \<union> fst ` set (dirs_moved d)"
  unfolding diff_events_def by (simp add: removed_by_append removed_by_events moved_events_by Un_ac)

lemma added_by_diff:
  "added_by (diff_events d) = set (files_created d) \<union> set (dirs_created d)
     \<union> snd ` set (files_moved d) \<union> snd ` set (dirs_moved d)"
  unfolding diff_events_def by (simp add: added_by_append added_by_events moved_events_by Un_ac)

text \<open>The algebra of the replay, for the inodes before (\<open>A\<close>) and after (\<open>B\<close>).\<close>

lemma replay_algebra:
  assumes uniq: "\<And>p q. B p = B q \<Longrightarrow> B p \<noteq> None \<Longrightarrow> p = q"
    and gone: "\<And>p. p \<in> G \<longleftrightarrow> A p \<noteq> None \<and> ((\<forall>q. B q \<noteq> A p) \<or> (\<exists>q. p \<noteq> q \<and> A p = B q))"
    and come: "\<And>q. q \<in> C \<longleftrightarrow> B q \<noteq> None \<and> ((\<forall>p. A p \<noteq> B q) \<or> (\<exists>p. p \<noteq> q \<and> A p = B q))"
  shows "({p. A p \<noteq> None} - G) \<union> C = {p. B p \<noteq> None}"
proof (intro equalityI subsetI)
  fix p assume "p \<in> ({p. A p \<noteq> None} - G) \<union> C"
  then consider "A p \<noteq> None" "p \<notin> G" | "p \<in> C" by blast
  then show "p \<in> {p. B p \<noteq> None}"
  proof cases
    case 1
    with gone [of p] obtain q where "B q = A p" "p = q \<or> A p \<noteq> B q" by metis
    with 1 show ?thesis by auto
  next
    case 2
    with come [of p] show ?thesis by simp
  qed
next
  fix p assume "p \<in> {p. B p \<noteq> None}"
  then have p: "B p \<noteq> None" by simp
  show "p \<in> ({p. A p \<noteq> None} - G) \<union> C"
  proof (cases "\<exists>p'. A p' = B p \<and> p' = p")
    case True
    then have same: "A p = B p" by simp
    have "\<not> (\<exists>q. p \<noteq> q \<and> A p = B q)" using uniq [of p] p same by metis
    with same gone [of p] have "p \<notin> G" by metis
    with same p show ?thesis by simp
  next
    case False
    with p come [of p] have "p \<in> C" by blast
    then show ?thesis by simp
  qed
qed

text \<open>
  C8: Without hard links the events of a poll account for the change exactly: taking the deleted paths and
  the sources of moves away from the old snapshot's paths, and adding the created paths and the
  destinations of moves, gives the new snapshot's paths; and the new snapshot is kept for the next poll.
\<close>
theorem poll_events_replay:
  assumes "comparable old new" and "pl_snapshot s = Some old" and "\<not> pl_stopped s"
  shows "\<exists>evs. poll_events (Inr new) s = (evs, None, s\<lparr>pl_snapshot := Some new\<rparr>)
    \<and> (set (paths old) - removed_by evs) \<union> added_by evs = set (paths new)"
proof -
  let ?d = "snapshot_diff False old new"
  have run: "poll_events (Inr new) s = (diff_events ?d, None, s\<lparr>pl_snapshot := Some new\<rparr>)"
    using assms(2,3) by (simp add: poll_events_def)
  have created: "q \<in> set (files_created ?d) \<union> set (dirs_created ?d)
      \<longleftrightarrow> inode new q \<noteq> None \<and> (\<forall>p. inode old p \<noteq> inode new q)" for q
    using snapshot_diff_spec [OF assms(1) refl, of q undefined] by blast
  have deleted: "p \<in> set (files_deleted ?d) \<union> set (dirs_deleted ?d)
      \<longleftrightarrow> inode old p \<noteq> None \<and> (\<forall>q. inode new q \<noteq> inode old p)" for p
    using snapshot_diff_spec [OF assms(1) refl, of undefined p] by blast
  have moved: "(p, q) \<in> set (files_moved ?d) \<union> set (dirs_moved ?d)
      \<longleftrightarrow> p \<noteq> q \<and> inode old p \<noteq> None \<and> inode old p = inode new q" for p q
    using snapshot_diff_spec [OF assms(1) refl, of q p] by blast
  have src: "p \<in> fst ` set (files_moved ?d) \<union> fst ` set (dirs_moved ?d)
      \<longleftrightarrow> (\<exists>q. (p, q) \<in> set (files_moved ?d) \<union> set (dirs_moved ?d))" for p
    by force
  have dst: "q \<in> snd ` set (files_moved ?d) \<union> snd ` set (dirs_moved ?d)
      \<longleftrightarrow> (\<exists>p. (p, q) \<in> set (files_moved ?d) \<union> set (dirs_moved ?d))" for q
    by force
  have "p \<in> removed_by (diff_events ?d) \<longleftrightarrow> p \<in> set (files_deleted ?d) \<union> set (dirs_deleted ?d)
      \<or> p \<in> fst ` set (files_moved ?d) \<union> fst ` set (dirs_moved ?d)" for p
    unfolding removed_by_diff by blast
  then have gone: "p \<in> removed_by (diff_events ?d) \<longleftrightarrow> inode old p \<noteq> None \<and>
      ((\<forall>q. inode new q \<noteq> inode old p) \<or> (\<exists>q. p \<noteq> q \<and> inode old p = inode new q))" for p
    unfolding deleted src moved by blast
  have "q \<in> added_by (diff_events ?d) \<longleftrightarrow> q \<in> set (files_created ?d) \<union> set (dirs_created ?d)
      \<or> q \<in> snd ` set (files_moved ?d) \<union> snd ` set (dirs_moved ?d)" for q
    unfolding added_by_diff by blast
  then have come: "q \<in> added_by (diff_events ?d) \<longleftrightarrow> inode new q \<noteq> None \<and>
      ((\<forall>p. inode old p \<noteq> inode new q) \<or> (\<exists>p. p \<noteq> q \<and> inode old p = inode new q))" for q
    unfolding created dst moved by (simp only: not_None_eq) metis
  have uniq: "inode new p = inode new q \<Longrightarrow> inode new p \<noteq> None \<Longrightarrow> p = q" for p q
    using assms(1) unfolding comparable_def no_links_def by (metis option.exhaust)
  have sets: "set (paths s) = {p. inode s p \<noteq> None}" for s
    by (rule set_eqI) (unfold set_paths mem_Collect_eq not_None_eq, rule refl)
  have "(set (paths old) - removed_by (diff_events ?d)) \<union> added_by (diff_events ?d) = set (paths new)"
    unfolding sets by (rule replay_algebra [OF uniq gone come])
  with run show ?thesis by (intro exI conjI)
qed

lemma poll_events_replay_witness:
  "\<exists>evs. fst (poll_events (Inr demo_snap) \<lparr>pl_path = ''/d'', pl_snapshot = Some demo_ref, pl_stopped = False\<rparr>) = evs
    \<and> (set (paths demo_ref) - removed_by evs) \<union> added_by evs = set (paths demo_snap)"
proof -
  let ?s = "\<lparr>pl_path = ''/d'', pl_snapshot = Some demo_ref, pl_stopped = False\<rparr>"
  obtain evs where "poll_events (Inr demo_snap) ?s = (evs, None, ?s\<lparr>pl_snapshot := Some demo_snap\<rparr>)"
    "(set (paths demo_ref) - removed_by evs) \<union> added_by evs = set (paths demo_snap)"
    using poll_events_replay [OF demo_comparable, of ?s] by (auto simp del: poller.update_convs)
  then show ?thesis by simp
qed

lemma no_member: "(\<And>x. x \<notin> set xs) \<Longrightarrow> xs = []"
  by (cases xs) auto

text \<open>A poll of an unchanged tree queues nothing.\<close>

lemma poll_events_quiet:
  assumes "comparable old new" and "stat_info new = stat_info old"
  shows "diff_events (snapshot_diff False old new) = []"
proof -
  let ?d = "snapshot_diff False old new"
  have i: "inode new p = inode old p" "\<not> changed old p new p" for p
    using assms(2) by (simp_all add: inode_def changed_def mtime_def size_of_def)
  have uniq: "inode old p = inode old q \<Longrightarrow> inode old p \<noteq> None \<Longrightarrow> p = q" for p q
    using assms(1) unfolding comparable_def no_links_def by (metis option.exhaust)
  have "p \<notin> set (files_created ?d)" "p \<notin> set (dirs_created ?d)" "p \<notin> set (files_deleted ?d)"
    "p \<notin> set (dirs_deleted ?d)" "(p, q) \<notin> set (files_moved ?d)" "(p, q) \<notin> set (dirs_moved ?d)"
    "p \<notin> set (files_modified ?d)" "p \<notin> set (dirs_modified ?d)" for p q
    using snapshot_diff_spec [OF assms(1) refl, of q p] snapshot_diff_spec [OF assms(1) refl, of p p] i uniq
    by metis+
  then have "files_created ?d = []" "dirs_created ?d = []" "files_deleted ?d = []" "dirs_deleted ?d = []"
    "files_moved ?d = []" "dirs_moved ?d = []" "files_modified ?d = []" "dirs_modified ?d = []"
    by (auto intro: no_member)
  then show ?thesis by (simp add: diff_events_def)
qed

end
