(* ===== verification/Kqueue.thy ===== *)
theory Kqueue
  imports DirSnapshot Events "HOL-Library.Word"
begin

text \<open>
  \<open>src/watchdog/observers/kqueue.py\<close>: the set of kernel event descriptors, with its four tables, and the
  emitter that turns kernel events and snapshot differences into file system events.

  Parameters: \<open>Path(p).resolve()\<close>, \<open>os.open\<close> (told which descriptors the set holds open), \<open>os.stat\<close>,
  \<open>os.scandir\<close>, \<open>os.walk\<close> and \<open>kqueue.control\<close>. The emitter mixes \<open>str\<close> and \<open>Path\<close> objects, which Python never
  holds equal; \<open>kpath\<close> keeps them apart.
\<close>

section \<open>Kernel events\<close>

definition KQ_NOTE_DELETE :: "32 word" where "KQ_NOTE_DELETE = 0x01"
definition KQ_NOTE_WRITE :: "32 word" where "KQ_NOTE_WRITE = 0x02"
definition KQ_NOTE_EXTEND :: "32 word" where "KQ_NOTE_EXTEND = 0x04"
definition KQ_NOTE_ATTRIB :: "32 word" where "KQ_NOTE_ATTRIB = 0x08"
definition KQ_NOTE_LINK :: "32 word" where "KQ_NOTE_LINK = 0x10"
definition KQ_NOTE_RENAME :: "32 word" where "KQ_NOTE_RENAME = 0x20"
definition KQ_NOTE_REVOKE :: "32 word" where "KQ_NOTE_REVOKE = 0x40"

definition WATCHDOG_KQ_FFLAGS :: "32 word" where
  "WATCHDOG_KQ_FFLAGS =
     or (or (or (or (or (or KQ_NOTE_DELETE KQ_NOTE_WRITE) KQ_NOTE_EXTEND) KQ_NOTE_ATTRIB) KQ_NOTE_LINK)
       KQ_NOTE_RENAME) KQ_NOTE_REVOKE"

text \<open>The fields of \<open>select.kevent\<close> that differ: the others are the same constants in every one.\<close>

record kevent =
  kev_ident :: nat
  kev_fflags :: "32 word"

definition is_deleted :: "kevent \<Rightarrow> bool" where
  "is_deleted k \<longleftrightarrow> and (kev_fflags k) KQ_NOTE_DELETE \<noteq> 0"

definition is_modified :: "kevent \<Rightarrow> bool" where
  "is_modified k \<longleftrightarrow> and (kev_fflags k) KQ_NOTE_EXTEND \<noteq> 0 \<or> and (kev_fflags k) KQ_NOTE_WRITE \<noteq> 0"

definition is_attrib_modified :: "kevent \<Rightarrow> bool" where
  "is_attrib_modified k \<longleftrightarrow> and (kev_fflags k) KQ_NOTE_ATTRIB \<noteq> 0"

definition is_renamed :: "kevent \<Rightarrow> bool" where
  "is_renamed k \<longleftrightarrow> and (kev_fflags k) KQ_NOTE_RENAME \<noteq> 0"

section \<open>\<open>KeventDescriptor\<close> and \<open>KeventDescriptorSet\<close>\<close>

record kdesc =
  kd_path :: string
  kd_is_directory :: bool
  kd_fd :: nat
  kd_kevent :: kevent

definition kd_key :: "kdesc \<Rightarrow> string \<times> bool" where
  "kd_key d = (kd_path d, kd_is_directory d)"

definition kd_eq :: "kdesc \<Rightarrow> kdesc \<Rightarrow> bool" where
  "kd_eq a b \<longleftrightarrow> kd_key a = kd_key b"

definition kd_ne :: "kdesc \<Rightarrow> kdesc \<Rightarrow> bool" where
  "kd_ne a b \<longleftrightarrow> kd_key a \<noteq> kd_key b"

text \<open>
  The collection, with the file descriptors it holds open (the kernel's side). Its paths are resolved
  \<open>Path\<close> objects; the set of descriptors compares by key.
\<close>

record kset =
  ks_descriptors :: "kdesc list"
  ks_for_path :: "(string, kdesc) dict"
  ks_for_fd :: "(nat, kdesc) dict"
  ks_kevents :: "kevent list"
  ks_open :: "nat list"

definition ks_init :: kset where
  "ks_init = \<lparr>ks_descriptors = [], ks_for_path = [], ks_for_fd = [], ks_kevents = [], ks_open = []\<rparr>"

record kq_env =
  kx_resolve :: "string \<Rightarrow> string"
  kx_open :: "nat list \<Rightarrow> string \<Rightarrow> int + nat"

text \<open>\<open>KeventDescriptor(path, is_directory)\<close> for a path that is resolved already.\<close>

definition kdesc_new :: "kq_env \<Rightarrow> kset \<Rightarrow> string \<Rightarrow> bool \<Rightarrow> kdesc res" where
  "kdesc_new env s path is_dir =
     (case kx_open env (ks_open s) path of
        Inl e \<Rightarrow> Inl (OSError e)
      | Inr fd \<Rightarrow> Inr \<lparr>kd_path = kx_resolve env path, kd_is_directory = is_dir, kd_fd = fd,
                     kd_kevent = \<lparr>kev_ident = fd, kev_fflags = WATCHDOG_KQ_FFLAGS\<rparr>\<rparr>)"

text \<open>Errors of \<open>os.close\<close> are swallowed; the descriptor is gone either way.\<close>

definition kd_close :: "kdesc \<Rightarrow> kset \<Rightarrow> kset" where
  "kd_close d s = s\<lparr>ks_open := remove1 (kd_fd d) (ks_open s)\<rparr>"

definition has_path :: "kset \<Rightarrow> string \<Rightarrow> bool" where
  "has_path s path \<longleftrightarrow> dget (ks_for_path s) path \<noteq> None"

definition ks_contains :: "kq_env \<Rightarrow> kset \<Rightarrow> string \<Rightarrow> bool" where
  "ks_contains env s path = has_path s (kx_resolve env path)"

definition ks_get :: "kq_env \<Rightarrow> kset \<Rightarrow> string \<Rightarrow> kdesc res" where
  "ks_get env s path = dget_or (ks_for_path s) (kx_resolve env path)"

definition ks_get_for_fd :: "kset \<Rightarrow> nat \<Rightarrow> kdesc res" where
  "ks_get_for_fd s fd = dget_or (ks_for_fd s) fd"

definition ks_paths :: "kset \<Rightarrow> string list" where
  "ks_paths s = dkeys (ks_for_path s)"

definition add_descriptor :: "kdesc \<Rightarrow> kset \<Rightarrow> kset" where
  "add_descriptor d s = s\<lparr>
     ks_descriptors := (if \<exists>x\<in>set (ks_descriptors s). kd_eq x d then ks_descriptors s else ks_descriptors s @ [d]),
     ks_kevents := ks_kevents s @ [kd_kevent d],
     ks_for_path := dset (kd_path d) d (ks_for_path s),
     ks_for_fd := dset (kd_fd d) d (ks_for_fd s)\<rparr>"

text \<open>
  Each of the four tables raises when the descriptor is not there, and leaves the earlier ones changed.
\<close>

definition remove_descriptor :: "kdesc \<Rightarrow> kset \<Rightarrow> kset \<times> py_error option" where
  "remove_descriptor d s =
     (case take_first (\<lambda>x. kd_eq x d) (ks_descriptors s) of
        None \<Rightarrow> (s, Some KeyError)
      | Some (_, ds) \<Rightarrow>
          (let s1 = s\<lparr>ks_descriptors := ds\<rparr> in
           case ddel_or (ks_for_fd s1) (kd_fd d) of
             Inl e \<Rightarrow> (s1, Some e)
           | Inr ff \<Rightarrow>
               (let s2 = s1\<lparr>ks_for_fd := ff\<rparr> in
                case ddel_or (ks_for_path s2) (kd_path d) of
                  Inl e \<Rightarrow> (s2, Some e)
                | Inr fp \<Rightarrow>
                    (let s3 = s2\<lparr>ks_for_path := fp\<rparr> in
                     if kd_kevent d \<in> set (ks_kevents s3)
                     then (kd_close d (s3\<lparr>ks_kevents := remove1 (kd_kevent d) (ks_kevents s3)\<rparr>), None)
                     else (s3, Some ValueError)))))"

definition ks_add :: "kq_env \<Rightarrow> string \<Rightarrow> bool \<Rightarrow> kset \<Rightarrow> kset \<times> py_error option" where
  "ks_add env path0 is_dir s =
     (let path = kx_resolve env path0 in
      if has_path s path then (s, None)
      else (case kdesc_new env s path is_dir of
              Inl e \<Rightarrow> (s, Some e)
            | Inr d \<Rightarrow> (add_descriptor d (s\<lparr>ks_open := kd_fd d # ks_open s\<rparr>), None)))"

definition ks_remove :: "kq_env \<Rightarrow> string \<Rightarrow> kset \<Rightarrow> kset \<times> py_error option" where
  "ks_remove env path0 s =
     (case dget (ks_for_path s) (kx_resolve env path0) of
        None \<Rightarrow> (s, None)
      | Some d \<Rightarrow> remove_descriptor d s)"

definition ks_clear :: "kset \<Rightarrow> kset" where
  "ks_clear s = (fold kd_close (ks_descriptors s) s)
     \<lparr>ks_descriptors := [], ks_for_fd := [], ks_for_path := [], ks_kevents := []\<rparr>"

section \<open>\<open>KqueueEmitter\<close>\<close>

datatype kpath = KStr string | KPath string

fun fspath :: "kpath \<Rightarrow> string" where
  "fspath (KStr p) = p"
| "fspath (KPath p) = p"

record kq_event =
  ke_class :: event_class
  ke_src :: kpath
  ke_dest :: "kpath option"

definition kq_event :: "event_class \<Rightarrow> kpath \<Rightarrow> kq_event" where
  "kq_event c p = \<lparr>ke_class = c, ke_src = p, ke_dest = None\<rparr>"

record kemitter =
  km_path :: string
  km_recursive :: bool
  km_set :: kset
  km_snapshot :: snapshot

text \<open>The numbers of FreeBSD, one of the systems that have kqueue.\<close>

definition EOPNOTSUPP :: int where "EOPNOTSUPP = 45"
definition EBADF :: int where "EBADF = 9"

definition register_kevent :: "kq_env \<Rightarrow> string \<Rightarrow> bool \<Rightarrow> kset \<Rightarrow> kset \<times> py_error option" where
  "register_kevent env path is_dir s =
     (case ks_add env path is_dir s of
        (s', Some (OSError e)) \<Rightarrow> (s', if e \<in> {ENOENT, EOPNOTSUPP} then None else Some (OSError e))
      | r \<Rightarrow> r)"

definition unregister_kevent :: "kq_env \<Rightarrow> string \<Rightarrow> kset \<Rightarrow> kset \<times> py_error option" where
  "unregister_kevent env path s = ks_remove env path s"

text \<open>What \<open>queue_event\<close> does to the tables, after it put the event into the queue.\<close>

definition kq_bookkeeping :: "kq_env \<Rightarrow> kq_event \<Rightarrow> kset \<Rightarrow> kset \<times> py_error option" where
  "kq_bookkeeping env e s =
     (let src = fspath (ke_src e); is_dir = dir_class (ke_class e) in
      case type_of (ke_class e) of
        EVENT_TYPE_CREATED \<Rightarrow> register_kevent env src is_dir s
      | EVENT_TYPE_MOVED \<Rightarrow>
          (case unregister_kevent env src s of
             (s', Some x) \<Rightarrow> (s', Some x)
           | (s', None) \<Rightarrow>
               (case ke_dest e of
                  None \<Rightarrow> (s', Some TypeError)
                | Some d \<Rightarrow> register_kevent env (fspath d) is_dir s'))
      | EVENT_TYPE_DELETED \<Rightarrow> unregister_kevent env src s
      | _ \<Rightarrow> (s, None))"

text \<open>Queueing a list of events: the events queued, the tables, and the exception that stopped it.\<close>

fun kq_queue_all :: "kq_env \<Rightarrow> kq_event list \<Rightarrow> kset \<Rightarrow> kq_event list \<times> kset \<times> py_error option" where
  "kq_queue_all env [] s = ([], s, None)"
| "kq_queue_all env (e # es) s =
     (case kq_bookkeeping env e s of
        (s', Some x) \<Rightarrow> ([e], s', Some x)
      | (s', None) \<Rightarrow> (case kq_queue_all env es s' of (out, r) \<Rightarrow> (e # out, r)))"

definition kq_class :: "bool \<Rightarrow> event_class \<Rightarrow> event_class \<Rightarrow> event_class" where
  "kq_class is_dir d f = (if is_dir then d else f)"

definition parent_dir_modified :: "kpath \<Rightarrow> kq_event" where
  "parent_dir_modified p = kq_event DirModifiedEvent (KStr (dirname (fspath p)))"

text \<open>
  \<open>ref_snapshot.inode(src_path)\<close>: the keys of a snapshot are strings, so that a \<open>Path\<close> is never among them.
\<close>

fun kq_inode :: "snapshot \<Rightarrow> kpath \<Rightarrow> (nat \<times> nat) res" where
  "kq_inode s (KStr p) = (case inode s p of None \<Rightarrow> Inl KeyError | Some i \<Rightarrow> Inr i)"
| "kq_inode s (KPath p) = Inl KeyError"

text \<open>
  \<open>generate_sub_moved_events\<close> on two \<open>Path\<close>s: \<open>str.replace\<close> does not take them (\<open>TypeError\<close>), at the first
  entry that \<open>os.walk\<close> (a list of directories and files per root) has.
\<close>

definition kq_sub_moved :: "(string list \<times> string list) list \<Rightarrow> py_error option" where
  "kq_sub_moved tree = (if list_all (\<lambda>(ds, fs). ds = [] \<and> fs = []) tree then None else Some TypeError)"

text \<open>The generators give their events and the exception that ends them, if one does.\<close>

definition gen_renamed_events ::
  "kq_env \<Rightarrow> (string \<Rightarrow> (string list \<times> string list) list) \<Rightarrow> bool \<Rightarrow> kpath \<Rightarrow> bool \<Rightarrow> snapshot \<Rightarrow> snapshot
     \<Rightarrow> kq_event list \<times> py_error option" where
  "gen_renamed_events env subtree recursive src is_dir ref new =
     (case kq_inode ref src of
        Inl _ \<Rightarrow> ([kq_event (kq_class is_dir DirCreatedEvent FileCreatedEvent) src,
                   kq_event (kq_class is_dir DirDeletedEvent FileDeletedEvent) src], None)
      | Inr i \<Rightarrow>
          (case path_of new i of
             Some dest0 \<Rightarrow>
               (let dest = KPath (kx_resolve env dest0) in
                ([\<lparr>ke_class = kq_class is_dir DirMovedEvent FileMovedEvent, ke_src = src, ke_dest = Some dest\<rparr>,
                  parent_dir_modified src, parent_dir_modified dest],
                 if is_dir \<and> recursive then kq_sub_moved (subtree (fspath dest)) else None))
           | None \<Rightarrow> ([kq_event (kq_class is_dir DirDeletedEvent FileDeletedEvent) src, parent_dir_modified src], None)))"

definition gen_kqueue_events ::
  "kq_env \<Rightarrow> (string \<Rightarrow> (string list \<times> string list) list) \<Rightarrow> kemitter \<Rightarrow> kevent \<Rightarrow> snapshot \<Rightarrow> snapshot
     \<Rightarrow> kq_event list \<times> py_error option" where
  "gen_kqueue_events env subtree m kev ref new =
     (case ks_get_for_fd (km_set m) (kev_ident kev) of
        Inl e \<Rightarrow> ([], Some e)
      | Inr d \<Rightarrow>
          (let src = KPath (kd_path d); is_dir = kd_is_directory d in
           if is_renamed kev then gen_renamed_events env subtree (km_recursive m) src is_dir ref new
           else if is_attrib_modified kev
           then ([kq_event (kq_class is_dir DirModifiedEvent FileModifiedEvent) src], None)
           else if is_modified kev
           then (if is_dir
                 then (if km_recursive m \<or> KStr (km_path m) = src then [kq_event DirModifiedEvent src] else [])
                 else [kq_event FileModifiedEvent src], None)
           else if is_deleted kev
           then ([kq_event (kq_class is_dir DirDeletedEvent FileDeletedEvent) src], None)
           else ([], None)))"

fun process_kevents ::
  "kq_env \<Rightarrow> (string \<Rightarrow> (string list \<times> string list) list) \<Rightarrow> snapshot \<Rightarrow> snapshot \<Rightarrow> kevent list \<Rightarrow> kemitter
     \<Rightarrow> kq_event list \<times> kemitter \<times> py_error option" where
  "process_kevents env subtree ref new [] m = ([], m, None)"
| "process_kevents env subtree ref new (kev # kevs) m =
     (case gen_kqueue_events env subtree m kev ref new of
        (evs, failed) \<Rightarrow>
          (case kq_queue_all env evs (km_set m) of
             (out, s, err) \<Rightarrow>
               (let m' = m\<lparr>km_set := s\<rparr> in
                case (err, failed) of
                  (Some x, _) \<Rightarrow> (out, m', Some x)
                | (None, Some x) \<Rightarrow> (out, m', Some x)
                | (None, None) \<Rightarrow>
                    (case process_kevents env subtree ref new kevs m' of (out', r) \<Rightarrow> (out @ out', r)))))"

text \<open>The events of the snapshot difference that kqueue itself does not report.\<close>

definition diff_created :: "diff \<Rightarrow> kq_event list" where
  "diff_created d =
     map (\<lambda>p. kq_event DirCreatedEvent (KStr p)) (dirs_created d) @
     map (\<lambda>p. kq_event FileCreatedEvent (KStr p)) (files_created d) @
     map (\<lambda>p. kq_event FileModifiedEvent (KStr p)) (files_modified d)"

text \<open>The body of the \<open>try\<close>.\<close>

definition kq_round ::
  "kq_env \<Rightarrow> (string \<Rightarrow> (string list \<times> string list) list) \<Rightarrow> int + kevent list \<Rightarrow> snapshot res \<Rightarrow> kemitter
     \<Rightarrow> kq_event list \<times> kemitter \<times> py_error option" where
  "kq_round env subtree read taken m =
     (case read of
        Inl e \<Rightarrow> ([], m, Some (OSError e))
      | Inr kevs \<Rightarrow>
          (case taken of
             Inl x \<Rightarrow> ([], m, Some x)
           | Inr new \<Rightarrow>
               (let ref = km_snapshot m; m1 = m\<lparr>km_snapshot := new\<rparr> in
                case kq_queue_all env (diff_created (snapshot_diff False ref new)) (km_set m1) of
                  (out, s, Some x) \<Rightarrow> (out, m1\<lparr>km_set := s\<rparr>, Some x)
                | (out, s, None) \<Rightarrow>
                    (case process_kevents env subtree ref new (rev kevs) (m1\<lparr>km_set := s\<rparr>) of
                       (out', r) \<Rightarrow> (out @ out', r)))))"

definition kq_queue_events ::
  "kq_env \<Rightarrow> (string \<Rightarrow> (string list \<times> string list) list) \<Rightarrow> int + kevent list \<Rightarrow> snapshot res \<Rightarrow> kemitter
     \<Rightarrow> kq_event list \<times> kemitter \<times> py_error option" where
  "kq_queue_events env subtree read taken m =
     (case kq_round env subtree read taken m of
        (out, m', err) \<Rightarrow> (out, m', if err = Some (OSError EBADF) then None else err))"

definition kq_on_thread_stop :: "kemitter \<Rightarrow> kemitter" where
  "kq_on_thread_stop m = m\<lparr>km_set := ks_clear (km_set m)\<rparr>"

text \<open>
  The constructor: a snapshot whose \<open>stat\<close> also registers the path. A registration that fails makes the
  walk skip the entry, as a failing \<open>stat\<close> does.
\<close>

definition custom_stat :: "kq_env \<Rightarrow> stat_fn \<Rightarrow> string \<Rightarrow> kset \<Rightarrow> kset \<times> stat res" where
  "custom_stat env stat p s =
     (case stat p of
        Inl e \<Rightarrow> (s, Inl (OSError e))
      | Inr st \<Rightarrow>
          (case register_kevent env p (st_is_dir st) s of
             (s', None) \<Rightarrow> (s', Inr st)
           | (s', Some x) \<Rightarrow> (s', Inl x)))"

fun custom_entries :: "kq_env \<Rightarrow> stat_fn \<Rightarrow> string list \<Rightarrow> kset \<Rightarrow> kset \<times> (string \<times> stat) list" where
  "custom_entries env stat [] s = (s, [])"
| "custom_entries env stat (p # ps) s =
     (case custom_stat env stat p s of
        (s', Inl _) \<Rightarrow> custom_entries env stat ps s'
      | (s', Inr st) \<Rightarrow> (case custom_entries env stat ps s' of (s'', es) \<Rightarrow> (s'', (p, st) # es)))"

fun custom_dirs ::
  "(string \<Rightarrow> kset \<Rightarrow> kset \<times> (string \<times> stat) list res) \<Rightarrow> (string \<times> stat) list \<Rightarrow> kset
     \<Rightarrow> kset \<times> (string \<times> stat) list res" where
  "custom_dirs rec [] s = (s, Inr [])"
| "custom_dirs rec ((p, st) # es) s =
     (case (if st_is_dir st then rec p s else (s, Inr [])) of
        (s', Inl e) \<Rightarrow> if permission_error e then custom_dirs rec es s' else (s', Inl e)
      | (s', Inr sub) \<Rightarrow> (case custom_dirs rec es s' of (s'', r) \<Rightarrow> (s'', bindR r (\<lambda>rest. Inr (sub @ rest)))))"

primrec custom_walk ::
  "nat \<Rightarrow> kq_env \<Rightarrow> stat_fn \<Rightarrow> listdir_fn \<Rightarrow> bool \<Rightarrow> string \<Rightarrow> kset \<Rightarrow> kset \<times> (string \<times> stat) list res" where
  "custom_walk 0 env stat listdir recursive root s = (s, Inl RuntimeError)"
| "custom_walk (Suc depth) env stat listdir recursive root s =
     (case listdir root of
        Inl e \<Rightarrow> (s, if e \<in> {ENOENT, ENOTDIR, EINVAL} then Inr [] else Inl (OSError e))
      | Inr names \<Rightarrow>
          (case custom_entries env stat (map (path_join root) names) s of
             (s1, entries) \<Rightarrow>
               (if recursive
                then (case custom_dirs (custom_walk depth env stat listdir recursive) entries s1 of
                        (s2, r) \<Rightarrow> (s2, bindR r (\<lambda>subs. Inr (entries @ subs))))
                else (s1, Inr entries))))"

definition kemitter_new ::
  "nat \<Rightarrow> kq_env \<Rightarrow> stat_fn \<Rightarrow> listdir_fn \<Rightarrow> bool \<Rightarrow> string \<Rightarrow> kset \<times> kemitter res" where
  "kemitter_new depth env stat listdir recursive path =
     (case custom_stat env stat path ks_init of
        (s, Inl x) \<Rightarrow> (s, Inl x)
      | (s, Inr st) \<Rightarrow>
          (case custom_walk depth env stat listdir recursive path s of
             (s', Inl x) \<Rightarrow> (s', Inl x)
           | (s', Inr es) \<Rightarrow>
               (s', Inr \<lparr>km_path = path, km_recursive = recursive, km_set = s',
                         km_snapshot = foldl enter_path \<lparr>stat_info = [], inode_to_path = []\<rparr> ((path, st) # es)\<rparr>)))"

section \<open>The tables stay in step\<close>

text \<open>
  Documented behaviour of the kernel: a resolved path resolves to itself, and \<open>open\<close> gives a descriptor
  that is not in use.
\<close>

definition kq_kernel_ok :: "kq_env \<Rightarrow> bool" where
  "kq_kernel_ok env \<longleftrightarrow> (\<forall>p. kx_resolve env (kx_resolve env p) = kx_resolve env p)
     \<and> (\<forall>used p fd. kx_open env used p = Inr fd \<longrightarrow> fd \<notin> set used)"

definition kdesc_ok :: "kq_env \<Rightarrow> kdesc \<Rightarrow> bool" where
  "kdesc_ok env d \<longleftrightarrow> kx_resolve env (kd_path d) = kd_path d
     \<and> kd_kevent d = \<lparr>kev_ident = kd_fd d, kev_fflags = WATCHDOG_KQ_FFLAGS\<rparr>"

definition ks_ok :: "kq_env \<Rightarrow> kset \<Rightarrow> bool" where
  "ks_ok env s \<longleftrightarrow> distinct (map kd_path (ks_descriptors s)) \<and> distinct (map kd_fd (ks_descriptors s))
     \<and> list_all (kdesc_ok env) (ks_descriptors s)
     \<and> map_of (ks_for_path s) = map_of (map (\<lambda>d. (kd_path d, d)) (ks_descriptors s))
     \<and> map_of (ks_for_fd s) = map_of (map (\<lambda>d. (kd_fd d, d)) (ks_descriptors s))
     \<and> ks_kevents s = map kd_kevent (ks_descriptors s)
     \<and> distinct (ks_open s) \<and> set (ks_open s) = kd_fd ` set (ks_descriptors s)"

lemma map_of_keyed:
  assumes "distinct (map f ds)"
  shows "map_of (map (\<lambda>d. (f d, d)) ds) k = Some d \<longleftrightarrow> d \<in> set ds \<and> f d = k"
proof -
  have "distinct (map fst (map (\<lambda>d. (f d, d)) ds))" using assms by (simp add: comp_def)
  from map_of_eq_Some_iff [OF this] show ?thesis by auto
qed

lemma map_of_keyed_None: "map_of (map (\<lambda>d. (f d, d)) ds) k = None \<longleftrightarrow> k \<notin> f ` set ds"
  by (simp add: map_of_eq_None_iff image_image)

lemma ks_ok_for_path: "ks_ok env s \<Longrightarrow> dget (ks_for_path s) p = Some d \<longleftrightarrow> d \<in> set (ks_descriptors s) \<and> kd_path d = p"
  by (simp add: ks_ok_def map_of_keyed)

lemma ks_ok_for_fd: "ks_ok env s \<Longrightarrow> dget (ks_for_fd s) f = Some d \<longleftrightarrow> d \<in> set (ks_descriptors s) \<and> kd_fd d = f"
  by (simp add: ks_ok_def map_of_keyed)

lemma ks_ok_init [simp]: "ks_ok env ks_init"
  by (simp add: ks_ok_def ks_init_def)

lemma ks_ok_clear [simp]: "ks_ok env (ks_clear s) \<longleftrightarrow> ks_open (ks_clear s) = []"
  by (auto simp: ks_ok_def ks_clear_def)

lemma fold_close: "ks_open (fold kd_close ds s) = foldl (\<lambda>fs d. remove1 (kd_fd d) fs) (ks_open s) ds"
  by (induction ds arbitrary: s) (simp_all add: kd_close_def)

lemma foldl_remove1_set:
  "distinct fs \<Longrightarrow> set (foldl (\<lambda>fs d. remove1 (kd_fd d) fs) fs ds) = set fs - kd_fd ` set ds"
  by (induction ds arbitrary: fs) auto

lemma ks_clear_ok:
  assumes "ks_ok env s"
  shows "ks_ok env (ks_clear s)" and "ks_open (ks_clear s) = []"
proof -
  have "set (ks_open (fold kd_close (ks_descriptors s) s)) = {}"
    using assms by (simp add: fold_close foldl_remove1_set ks_ok_def)
  then show "ks_open (ks_clear s) = []" by (simp add: ks_clear_def)
  then show "ks_ok env (ks_clear s)" by simp
qed

lemma map_of_keyed_snoc:
  assumes n: "f d \<notin> f ` set ds" and m: "map_of t = map_of (map (\<lambda>d. (f d, d)) ds)"
  shows "map_of (dset (f d) d t) = map_of (map (\<lambda>d. (f d, d)) (ds @ [d]))"
proof
  fix k
  have "map_of (map (\<lambda>d. (f d, d)) ds) (f d) = None" using n by (simp only: map_of_keyed_None not_False_eq_True)
  then show "map_of (dset (f d) d t) k = map_of (map (\<lambda>d. (f d, d)) (ds @ [d])) k"
    by (cases "k = f d") (simp_all add: m map_add_def split: option.split)
qed

lemma ks_add_cases:
  assumes ker: "kq_kernel_ok env" and ok: "ks_ok env s" and r: "ks_add env p b s = (s', err)"
  shows "ks_ok env s'
    \<and> (\<forall>f d. dget (ks_for_fd s) f = Some d \<longrightarrow> dget (ks_for_fd s') f = Some d)
    \<and> (err = None \<or> (\<exists>e. err = Some (OSError e)))"
proof (cases "has_path s (kx_resolve env p)")
  case True
  with ok r show ?thesis by (simp add: ks_add_def)
next
  case False
  let ?q = "kx_resolve env p"
  show ?thesis
  proof (cases "kx_open env (ks_open s) ?q")
    case (Inl e)
    with ok r False show ?thesis by (auto simp: ks_add_def kdesc_new_def)
  next
    case (Inr fd)
    define d where "d = \<lparr>kd_path = ?q, kd_is_directory = b, kd_fd = fd,
      kd_kevent = \<lparr>kev_ident = fd, kev_fflags = WATCHDOG_KQ_FFLAGS\<rparr>\<rparr>"
    have idem: "kx_resolve env ?q = ?q" and fresh: "fd \<notin> set (ks_open s)"
      using ker Inr by (auto simp: kq_kernel_ok_def)
    have s': "s' = add_descriptor d (s\<lparr>ks_open := fd # ks_open s\<rparr>)" "err = None"
      using r False Inr idem by (simp_all add: ks_add_def kdesc_new_def d_def)
    have path: "?q \<notin> kd_path ` set (ks_descriptors s)"
      using False ok by (simp add: has_path_def ks_ok_def map_of_keyed_None)
    have fd: "fd \<notin> kd_fd ` set (ks_descriptors s)" using fresh ok by (simp add: ks_ok_def)
    have no: "\<not> (\<exists>x\<in>set (ks_descriptors s). kd_eq x d)"
    proof
      assume "\<exists>x\<in>set (ks_descriptors s). kd_eq x d"
      then obtain x where "x \<in> set (ks_descriptors s)" "kd_path x = ?q"
        by (auto simp: kd_eq_def kd_key_def d_def)
      with path show False by (metis imageI)
    qed
    have ds: "ks_descriptors s' = ks_descriptors s @ [d]"
      using no by (simp add: s' add_descriptor_def)
    have old: "map_of (ks_for_path s) = map_of (map (\<lambda>d. (kd_path d, d)) (ks_descriptors s))"
      "map_of (ks_for_fd s) = map_of (map (\<lambda>d. (kd_fd d, d)) (ks_descriptors s))"
      using ok by (simp_all only: ks_ok_def)
    have new: "kd_path d \<notin> kd_path ` set (ks_descriptors s)" "kd_fd d \<notin> kd_fd ` set (ks_descriptors s)"
      using path fd by (simp_all add: d_def)
    have p1: "map_of (ks_for_path s') = map_of (map (\<lambda>d. (kd_path d, d)) (ks_descriptors s'))"
      unfolding ds using map_of_keyed_snoc [OF new(1) old(1)] by (simp add: s'(1) add_descriptor_def del: map_append)
    have p2: "map_of (ks_for_fd s') = map_of (map (\<lambda>d. (kd_fd d, d)) (ks_descriptors s'))"
      unfolding ds using map_of_keyed_snoc [OF new(2) old(2)] by (simp add: s'(1) add_descriptor_def del: map_append)
    have "ks_ok env s'"
      unfolding ks_ok_def p1 p2 ds using ok path fd fresh idem
      by (auto simp: s'(1) add_descriptor_def d_def ks_ok_def kdesc_ok_def)
    moreover have "dget (ks_for_fd s') f = Some x" if "dget (ks_for_fd s) f = Some x" for f x
      using that fd ok by (auto simp: s'(1) add_descriptor_def d_def ks_ok_for_fd)
    ultimately show ?thesis by (simp add: s')
  qed
qed

lemma take_first_split:
  assumes "\<forall>u\<in>set us. \<not> P u" and "P d"
  shows "take_first P (us @ d # vs) = Some (d, us @ vs)"
  using assms by (induction us) simp_all

lemma map_of_keyed_delete:
  assumes d: "distinct (map f (us @ d # vs))" and m: "map_of t = map_of (map (\<lambda>d. (f d, d)) (us @ d # vs))"
  shows "map_of (ddel (f d) t) = map_of (map (\<lambda>d. (f d, d)) (us @ vs))"
proof
  fix k
  have u: "f d \<notin> f ` set us" and v: "f d \<notin> f ` set vs" using d by auto
  have mk: "map_of t k = (case map_of (map (\<lambda>d. (f d, d)) us) k of
      None \<Rightarrow> if k = f d then Some d else map_of (map (\<lambda>d. (f d, d)) vs) k | Some x \<Rightarrow> Some x)"
    unfolding m by (simp add: map_add_def split: option.split)
  have n: "map_of (map (\<lambda>d. (f d, d)) us) (f d) = None" "map_of (map (\<lambda>d. (f d, d)) vs) (f d) = None"
    using u v by (simp_all only: map_of_keyed_None not_False_eq_True)
  show "map_of (ddel (f d) t) k = map_of (map (\<lambda>d. (f d, d)) (us @ vs)) k"
    by (cases "k = f d") (simp_all add: mk n map_add_def split: option.split)
qed

lemma remove_descriptor_ok:
  assumes ok: "ks_ok env s" and mem: "d \<in> set (ks_descriptors s)"
  obtains s' where "remove_descriptor d s = (s', None)" and "ks_ok env s'"
    and "\<forall>f x. dget (ks_for_fd s) f = Some x \<longrightarrow> f \<noteq> kd_fd d \<longrightarrow> dget (ks_for_fd s') f = Some x"
    and "ks_descriptors s' = remove1 d (ks_descriptors s)"
proof -
  obtain us vs where ds: "ks_descriptors s = us @ d # vs" using mem by (auto dest: split_list)
  have dp: "distinct (map kd_path (us @ d # vs))" and df: "distinct (map kd_fd (us @ d # vs))"
    using ok ds by (simp_all add: ks_ok_def)
  have us: "\<forall>u\<in>set us. \<not> kd_eq u d" 
  proof
    fix u assume "u \<in> set us"
    then have "kd_path u \<noteq> kd_path d" using dp by (metis imageI distinct_append disjoint_iff list.set_map map_append list.simps(9) list.set_intros(1) distinct.simps(2))
    then show "\<not> kd_eq u d" by (simp add: kd_eq_def kd_key_def)
  qed
  have ff: "dget (ks_for_fd s) (kd_fd d) = Some d" and fp: "dget (ks_for_path s) (kd_path d) = Some d"
    using ok mem by (simp_all add: ks_ok_for_fd ks_ok_for_path)
  have kev: "ks_kevents s = map kd_kevent us @ kd_kevent d # map kd_kevent vs"
  proof -
    have "ks_kevents s = map kd_kevent (ks_descriptors s)" using ok by (simp only: ks_ok_def)
    then show ?thesis by (simp add: ds)
  qed
  have kok: "kdesc_ok env x" if "x \<in> set (ks_descriptors s)" for x
    using ok that by (simp add: ks_ok_def list_all_iff)
  have "kd_kevent d \<notin> kd_kevent ` set us"
  proof
    assume "kd_kevent d \<in> kd_kevent ` set us"
    then obtain u where "u \<in> set us" "kd_kevent d = kd_kevent u" by blast
    with kok [of u] kok [of d] ds have "kd_fd d = kd_fd u" by (simp add: kdesc_ok_def)
    with \<open>u \<in> set us\<close> df show False by auto
  qed
  then have rk: "remove1 (kd_kevent d) (ks_kevents s) = map kd_kevent (us @ vs)"
    by (simp add: kev remove1_append)
  define s' where "s' = s\<lparr>ks_descriptors := us @ vs, ks_for_fd := ddel (kd_fd d) (ks_for_fd s),
    ks_for_path := ddel (kd_path d) (ks_for_path s), ks_kevents := map kd_kevent (us @ vs),
    ks_open := remove1 (kd_fd d) (ks_open s)\<rparr>"
  have tf: "take_first (\<lambda>x. kd_eq x d) (ks_descriptors s) = Some (d, us @ vs)"
    unfolding ds using us by (intro take_first_split) (simp_all add: kd_eq_def)
  have r: "remove_descriptor d s = (s', None)"
    unfolding remove_descriptor_def tf using ff fp rk
    by (simp add: Let_def ddel_or_def kd_close_def s'_def kev)
  have tabs: "map_of (ks_for_path s) = map_of (map (\<lambda>d. (kd_path d, d)) (us @ d # vs))"
    "map_of (ks_for_fd s) = map_of (map (\<lambda>d. (kd_fd d, d)) (us @ d # vs))"
    using ok ds by (simp_all only: ks_ok_def)
  note p = map_of_keyed_delete [OF dp tabs(1)] map_of_keyed_delete [OF df tabs(2)]
  have o: "distinct (ks_open s)" "set (ks_open s) = kd_fd ` set (us @ d # vs)"
    using ok ds by (simp_all only: ks_ok_def)
  have op: "set (remove1 (kd_fd d) (ks_open s)) = kd_fd ` set (us @ vs)"
  proof -
    have "kd_fd d \<notin> kd_fd ` set (us @ vs)" using df by auto
    then show ?thesis using o by (simp only: set_remove1_eq) (simp add: insert_Diff_if)
  qed
  have dd: "distinct (map kd_path (us @ vs))" "distinct (map kd_fd (us @ vs))" using dp df by auto
  have lk: "list_all (kdesc_ok env) (us @ vs)" using kok ds by (simp add: list_all_iff)
  have "ks_ok env s'"
    unfolding ks_ok_def s'_def using p op o(1) dd lk by (simp del: map_append set_append)
  moreover have "\<forall>f x. dget (ks_for_fd s) f = Some x \<longrightarrow> f \<noteq> kd_fd d \<longrightarrow> dget (ks_for_fd s') f = Some x"
    by (simp add: s'_def)
  moreover have "ks_descriptors s' = remove1 d (ks_descriptors s)"
  proof -
    have "d \<notin> set us" using dp by auto
    then show ?thesis by (simp add: s'_def ds remove1_append)
  qed
  ultimately show ?thesis using that r by blast
qed

text \<open>
  What every operation on the tables guarantees: they stay in step, the descriptors of \<open>F\<close> stay
  registered, and only an \<open>OSError\<close> leaves it.
\<close>

definition keeps :: "kq_env \<Rightarrow> kdesc set \<Rightarrow> kset \<times> py_error option \<Rightarrow> bool" where
  "keeps env F r \<longleftrightarrow> ks_ok env (fst r) \<and> (\<forall>d\<in>F. dget (ks_for_fd (fst r)) (kd_fd d) = Some d)
     \<and> (snd r = None \<or> (\<exists>e. snd r = Some (OSError e)))"

definition holds :: "kq_env \<Rightarrow> kdesc set \<Rightarrow> kset \<Rightarrow> bool" where
  "holds env F s \<longleftrightarrow> ks_ok env s \<and> (\<forall>d\<in>F. dget (ks_for_fd s) (kd_fd d) = Some d)"

lemma keeps_iff:
  "keeps env F (s, None) \<longleftrightarrow> holds env F s"
  "keeps env F (s, Some x) \<longleftrightarrow> holds env F s \<and> (\<exists>e. x = OSError e)"
  by (auto simp: keeps_def holds_def)

lemma keeps_imp_holds: "keeps env F (s, err) \<Longrightarrow> holds env F s"
  by (simp add: keeps_def holds_def)

lemma register_keeps:
  assumes "kq_kernel_ok env" and "holds env F s"
  shows "keeps env F (register_kevent env p b s)"
proof -
  obtain s' err where r: "ks_add env p b s = (s', err)" by (cases "ks_add env p b s")
  from assms(2) have ok: "ks_ok env s" and F: "\<forall>d\<in>F. dget (ks_for_fd s) (kd_fd d) = Some d" by (simp_all add: holds_def)
  note c = ks_add_cases [OF assms(1) ok r]
  then have "\<forall>d\<in>F. dget (ks_for_fd s') (kd_fd d) = Some d" using F by blast
  with c have h: "holds env F s'" by (simp add: holds_def)
  from c consider "err = None" | e where "err = Some (OSError e)" by blast
  then show ?thesis
    by cases (simp_all add: register_kevent_def r keeps_iff h)
qed

lemma unregister_keeps:
  assumes h: "holds env F s"
    and out: "\<And>d. dget (ks_for_path s) (kx_resolve env p) = Some d \<Longrightarrow> d \<notin> F"
  shows "keeps env F (unregister_kevent env p s) \<and> snd (unregister_kevent env p s) = None"
proof (cases "dget (ks_for_path s) (kx_resolve env p)")
  case None
  with h show ?thesis by (simp add: unregister_kevent_def ks_remove_def keeps_iff)
next
  case (Some d)
  from h have ok: "ks_ok env s" and F: "\<forall>d\<in>F. dget (ks_for_fd s) (kd_fd d) = Some d" by (simp_all add: holds_def)
  have mem: "d \<in> set (ks_descriptors s)" using Some ks_ok_for_path [OF ok] by simp
  obtain s' where r: "remove_descriptor d s = (s', None)" and ok': "ks_ok env s'"
    and old: "\<forall>f x. dget (ks_for_fd s) f = Some x \<longrightarrow> f \<noteq> kd_fd d \<longrightarrow> dget (ks_for_fd s') f = Some x"
    using remove_descriptor_ok [OF ok mem] by metis
  have "\<forall>x\<in>F. dget (ks_for_fd s') (kd_fd x) = Some x"
  proof
    fix x assume x: "x \<in> F"
    with F have "dget (ks_for_fd s) (kd_fd x) = Some x" by blast
    moreover have "dget (ks_for_fd s) (kd_fd d) = Some d" using mem ks_ok_for_fd [OF ok] by simp
    with calculation x out [OF Some] have "kd_fd x \<noteq> kd_fd d" by (metis option.inject)
    ultimately show "dget (ks_for_fd s') (kd_fd x) = Some x" using old by blast
  qed
  with ok' have "holds env F s'" by (simp add: holds_def)
  then show ?thesis by (simp add: unregister_kevent_def ks_remove_def Some r keeps_iff)
qed

lemma bookkeeping_keeps:
  assumes ker: "kq_kernel_ok env" and h: "holds env F s" and e: "type_of (ke_class e) \<noteq> EVENT_TYPE_MOVED"
    and out: "type_of (ke_class e) = EVENT_TYPE_DELETED \<Longrightarrow>
        (\<And>d. dget (ks_for_path s) (kx_resolve env (fspath (ke_src e))) = Some d \<Longrightarrow> d \<notin> F)"
  shows "keeps env F (kq_bookkeeping env e s)"
proof (cases "type_of (ke_class e)")
  case EVENT_TYPE_DELETED
  then show ?thesis using unregister_keeps [OF h out] by (simp add: kq_bookkeeping_def Let_def)
next
  case EVENT_TYPE_CREATED
  then show ?thesis using register_keeps [OF ker h] by (simp add: kq_bookkeeping_def Let_def)
qed (use e h in \<open>simp_all add: kq_bookkeeping_def Let_def keeps_iff\<close>)

lemma diff_created_plain: "e \<in> set (diff_created d) \<Longrightarrow> type_of (ke_class e) \<in> {EVENT_TYPE_CREATED, EVENT_TYPE_MODIFIED}"
  by (auto simp: diff_created_def kq_event_def)

lemma queue_created_keeps:
  assumes "kq_kernel_ok env" and "holds env F s" and "\<forall>e\<in>set es. type_of (ke_class e) \<in> {EVENT_TYPE_CREATED, EVENT_TYPE_MODIFIED}"
    and "kq_queue_all env es s = (out, s', err)"
  shows "keeps env F (s', err) \<and> prefix out es \<and> (err = None \<longrightarrow> out = es)"
  using assms(2-)
proof (induction es arbitrary: s out)
  case (Cons e es)
  obtain s1 err1 where b: "kq_bookkeeping env e s = (s1, err1)" by (cases "kq_bookkeeping env e s")
  have k: "keeps env F (s1, err1)"
    using bookkeeping_keeps [OF assms(1) Cons.prems(1), of e] Cons.prems(2) b by auto
  show ?case
  proof (cases err1)
    case None
    obtain out1 where r: "kq_queue_all env es s1 = (out1, s', err)" "out = e # out1"
      using Cons.prems(3) b None by (auto split: prod.splits)
    have "keeps env F (s', err) \<and> prefix out1 es \<and> (err = None \<longrightarrow> out1 = es)"
      using Cons.IH [OF _ _ r(1)] k None Cons.prems(2) by (simp add: keeps_iff)
    with r show ?thesis by auto
  next
    case (Some x)
    with Cons.prems(3) b k show ?thesis by auto
  qed
qed (simp add: keeps_iff)

text \<open>What the emitter makes of a kevent of the descriptor \<open>d\<close>, whatever the snapshots are.\<close>

definition kev_report :: "bool \<Rightarrow> kdesc \<Rightarrow> kevent \<Rightarrow> kq_event list" where
  "kev_report recursive d kev =
     (let e = (\<lambda>c f. kq_event (kq_class (kd_is_directory d) c f) (KPath (kd_path d))) in
      if is_renamed kev then [e DirCreatedEvent FileCreatedEvent, e DirDeletedEvent FileDeletedEvent]
      else if is_attrib_modified kev then [e DirModifiedEvent FileModifiedEvent]
      else if is_modified kev then (if kd_is_directory d \<and> \<not> recursive then [] else [e DirModifiedEvent FileModifiedEvent])
      else if is_deleted kev then [e DirDeletedEvent FileDeletedEvent]
      else [])"

lemma gen_report:
  assumes "dget (ks_for_fd (km_set m)) (kev_ident kev) = Some d"
  shows "gen_kqueue_events env subtree m kev ref new = (kev_report (km_recursive m) d kev, None)"
proof -
  have g: "ks_get_for_fd (km_set m) (kev_ident kev) = Inr d"
    using assms by (simp add: ks_get_for_fd_def dget_or_def)
  show ?thesis
    unfolding gen_kqueue_events_def g gen_renamed_events_def kev_report_def
    by (simp add: Let_def kq_class_def)
qed

lemma report_shape:
  assumes "e = (\<lambda>c f. kq_event (kq_class (kd_is_directory d) c f) (KPath (kd_path d)))"
  shows "kev_report r d kev \<in> {[e DirCreatedEvent FileCreatedEvent, e DirDeletedEvent FileDeletedEvent],
             [e DirModifiedEvent FileModifiedEvent], [e DirDeletedEvent FileDeletedEvent], []}"
  by (simp add: kev_report_def assms Let_def)

lemma kevent_keeps:
  assumes ker: "kq_kernel_ok env" and h: "holds env F s" and d: "dget (ks_for_fd s) f = Some d" and f: "d \<notin> F"
    and e: "e = (\<lambda>c g. kq_event (kq_class (kd_is_directory d) c g) (KPath (kd_path d)))"
    and evs: "evs \<in> {[e DirCreatedEvent FileCreatedEvent, e DirDeletedEvent FileDeletedEvent],
             [e DirModifiedEvent FileModifiedEvent], [e DirDeletedEvent FileDeletedEvent], []}"
  obtains s' where "kq_queue_all env evs s = (evs, s', None)" and "holds env F s'"
proof -
  from h have ok: "ks_ok env s" by (simp add: holds_def)
  have mem: "d \<in> set (ks_descriptors s)" "kd_fd d = f" using d ks_ok_for_fd [OF ok] by simp_all
  then have res: "kx_resolve env (kd_path d) = kd_path d" using ok by (auto simp: ks_ok_def list_all_iff kdesc_ok_def)
  have look: "dget (ks_for_path s) (kd_path d) = Some d" using ks_ok_for_path [OF ok] mem by simp
  obtain s1 where un: "unregister_kevent env (kd_path d) s = (s1, None)" and h1: "holds env F s1"
    using unregister_keeps [OF h, of "kd_path d"] look res f mem
    by (cases "unregister_kevent env (kd_path d) s") (auto simp: keeps_iff)
  have c: "kq_bookkeeping env (e DirCreatedEvent FileCreatedEvent) s = (s, None)"
    by (simp add: e kq_bookkeeping_def kq_event_def kq_class_def register_kevent_def ks_add_def has_path_def res look)
  have x: "kq_bookkeeping env (e DirDeletedEvent FileDeletedEvent) s = (s1, None)"
    by (simp add: e kq_bookkeeping_def kq_event_def kq_class_def un)
  have m: "kq_bookkeeping env (e DirModifiedEvent FileModifiedEvent) s = (s, None)"
    by (simp add: e kq_bookkeeping_def kq_event_def kq_class_def)
  from evs consider "evs = [e DirCreatedEvent FileCreatedEvent, e DirDeletedEvent FileDeletedEvent]"
    | "evs = [e DirModifiedEvent FileModifiedEvent]" | "evs = [e DirDeletedEvent FileDeletedEvent]" | "evs = []"
    by blast
  then show ?thesis
  proof cases
    case 1 with c x h1 show ?thesis by (intro that [of s1]) simp_all
  next
    case 2 with m h show ?thesis by (intro that [of s]) simp_all
  next
    case 3 with x h1 show ?thesis by (intro that [of s1]) simp_all
  next
    case 4 with h show ?thesis by (intro that [of s]) simp_all
  qed
qed

lemma process_kevents_keeps:
  assumes ker: "kq_kernel_ok env" and "holds env (D ` set kevs) (km_set m)" and "\<forall>kev\<in>set kevs. kd_fd (D kev) = kev_ident kev"
    and "distinct (map kev_ident kevs)"
  shows "\<exists>m'. process_kevents env subtree ref new kevs m
      = (concat (map (\<lambda>kev. kev_report (km_recursive m) (D kev) kev) kevs), m', None) \<and> ks_ok env (km_set m')"
  using assms(2-)
proof (induction kevs arbitrary: m)
  case (Cons kev kevs)
  let ?F = "D ` set kevs"
  have h: "holds env ?F (km_set m)" using Cons.prems(1) by (simp add: holds_def)
  have d: "dget (ks_for_fd (km_set m)) (kev_ident kev) = Some (D kev)"
    using Cons.prems(1,2) by (simp add: holds_def)
  have nf: "D kev \<notin> ?F" using Cons.prems(2,3) by (auto simp: image_iff)
  let ?evs = "kev_report (km_recursive m) (D kev) kev"
  obtain s' where q: "kq_queue_all env ?evs (km_set m) = (?evs, s', None)" and h': "holds env ?F s'"
    using kevent_keeps [OF ker h d nf refl report_shape [OF refl]] by metis
  have "holds env ?F (km_set (m\<lparr>km_set := s'\<rparr>))" using h' by simp
  then obtain m' where "process_kevents env subtree ref new kevs (m\<lparr>km_set := s'\<rparr>)
      = (concat (map (\<lambda>kev. kev_report (km_recursive m) (D kev) kev) kevs), m', None)" "ks_ok env (km_set m')"
    using Cons.IH [of "m\<lparr>km_set := s'\<rparr>"] Cons.prems(2,3) by auto
  with gen_report [OF d] q show ?case by simp
qed (simp add: holds_def)

text \<open>The constructor's snapshot registers what it sees, and leaves the tables in step.\<close>

lemma custom_stat_holds:
  assumes "kq_kernel_ok env" and "ks_ok env s" and "custom_stat env stat p s = (s', r)"
  shows "ks_ok env s'"
proof (cases "stat p")
  case (Inr st)
  have "keeps env {} (register_kevent env p (st_is_dir st) s)"
    using register_keeps [OF assms(1)] assms(2) by (simp add: holds_def)
  with assms(3) Inr show ?thesis by (auto simp: custom_stat_def keeps_def split: prod.splits option.splits)
qed (use assms in \<open>simp add: custom_stat_def\<close>)

lemma custom_entries_holds:
  "kq_kernel_ok env \<Longrightarrow> ks_ok env s \<Longrightarrow> custom_entries env stat ps s = (s', es) \<Longrightarrow> ks_ok env s'"
proof (induction ps arbitrary: s es)
  case (Cons p ps)
  obtain s1 r where c: "custom_stat env stat p s = (s1, r)" by (cases "custom_stat env stat p s")
  have "ks_ok env s1" using custom_stat_holds [OF Cons.prems(1,2) c] .
  with Cons.IH [OF Cons.prems(1)] Cons.prems(3) c show ?case
    by (cases r) (auto split: prod.splits)
qed simp

lemma custom_dirs_holds:
  assumes "\<And>p s s' r. ks_ok env s \<Longrightarrow> rec p s = (s', r) \<Longrightarrow> ks_ok env s'"
  shows "ks_ok env s \<Longrightarrow> custom_dirs rec es s = (s', r) \<Longrightarrow> ks_ok env s'"
proof (induction es arbitrary: s r)
  case (Cons e es)
  obtain p st where e: "e = (p, st)" by (cases e)
  obtain s1 r1 where c: "(if st_is_dir st then rec p s else (s, Inr [])) = (s1, r1)"
    by (cases "if st_is_dir st then rec p s else (s, Inr [])") auto
  have "ks_ok env s1" using c Cons.prems(1) assms by (auto split: if_splits)
  with Cons.IH [of s1] Cons.prems(2) c e show ?case
    by (auto split: sum.splits if_splits prod.splits)
qed simp

lemma custom_walk_holds:
  assumes "kq_kernel_ok env"
  shows "ks_ok env s \<Longrightarrow> custom_walk n env stat ld recursive root s = (s', r) \<Longrightarrow> ks_ok env s'"
proof (induction n arbitrary: root s s' r)
  case (Suc n)
  show ?case
  proof (cases "ld root")
    case (Inr names)
    obtain s1 es where c: "custom_entries env stat (map (path_join root) names) s = (s1, es)"
      by (cases "custom_entries env stat (map (path_join root) names) s")
    have ok1: "ks_ok env s1" using custom_entries_holds [OF assms Suc.prems(1) c] .
    obtain s2 r2 where d: "custom_dirs (custom_walk n env stat ld recursive) es s1 = (s2, r2)"
      by (cases "custom_dirs (custom_walk n env stat ld recursive) es s1")
    have "ks_ok env s2" using custom_dirs_holds [OF _ ok1 d] Suc.IH by blast
    with ok1 Suc.prems(2) Inr c d show ?thesis by (auto split: if_splits)
  qed (use Suc.prems in auto)
qed simp

lemma kemitter_new_in_step:
  assumes "kq_kernel_ok env" and "kemitter_new n env stat ld recursive path = (s, r)"
  shows "ks_ok env s \<and> (\<forall>m. r = Inr m \<longrightarrow> km_set m = s)"
proof -
  obtain s1 r1 where c: "custom_stat env stat path ks_init = (s1, r1)" by (cases "custom_stat env stat path ks_init")
  have ok1: "ks_ok env s1" using custom_stat_holds [OF assms(1) ks_ok_init c] .
  obtain s2 r2 where w: "custom_walk n env stat ld recursive path s1 = (s2, r2)"
    by (cases "custom_walk n env stat ld recursive path s1")
  have "ks_ok env s2" using custom_walk_holds [OF assms(1) ok1 w] .
  with ok1 assms(2) c w show ?thesis by (auto simp: kemitter_new_def split: sum.splits)
qed

section \<open>Properties\<close>

text \<open>
  C11: A round of the kqueue emitter is safe. Let the four tables be in step, and let the kernel report each
  of some registered descriptors at most once. Then, whatever the two snapshots say, every table lookup and
  removal of the round succeeds: the round either completes or ends in the \<open>OSError\<close> of an \<open>open\<close> (or in the
  exception of taking the snapshot), the tables are in step again, with exactly the descriptors in them
  open, and stopping the emitter then closes every one of them. And what is queued is known: first the created and modified
  items of the snapshot difference, up to the one whose registration fails, if any does; then, if none did, what each
  kevent says of the path of its descriptor, in reverse order. There a renamed item is always a creation followed by a
  deletion of its old path, and never a move, although the comments of \<open>_gen_renamed_events\<close> say that the new path is looked
  up: the path is a \<open>Path\<close>, and the snapshots hold strings.
\<close>
theorem kqueue_round_safe:
  assumes ker: "kq_kernel_ok env" and ok: "ks_ok env (km_set m)"
    and reg: "\<forall>kev\<in>set kevs. dget (ks_for_fd (km_set m)) (kev_ident kev) = Some (D kev)"
    and dist: "distinct (map kev_ident kevs)"
    and run: "kq_queue_events env subtree (Inr kevs) taken m = (out, m', err)"
  shows "ks_ok env (km_set m') \<and> ks_open (km_set (kq_on_thread_stop m')) = []
    \<and> (err = None \<or> (\<exists>e. e \<noteq> EBADF \<and> err = Some (OSError e)) \<or> (\<exists>x. taken = Inl x \<and> err = Some x))
    \<and> (case taken of Inl x \<Rightarrow> out = []
       | Inr new \<Rightarrow> (let created = diff_created (snapshot_diff False (km_snapshot m) new) in
           case kq_queue_all env created (km_set m) of
             (out1, s1, None) \<Rightarrow> err = None \<and> out = created @ concat (map (\<lambda>kev. kev_report (km_recursive m) (D kev) kev) (rev kevs))
           | (out1, s1, Some x) \<Rightarrow> prefix out created \<and> out = out1))"
proof -
  obtain err0 where r: "kq_round env subtree (Inr kevs) taken m = (out, m', err0)"
    and err: "err = (if err0 = Some (OSError EBADF) then None else err0)"
    using run by (auto simp: kq_queue_events_def split: prod.splits)
  show ?thesis
  proof (cases taken)
    case (Inl x)
    with r ok show ?thesis by (auto simp: kq_round_def err kq_on_thread_stop_def ks_clear_ok)
  next
    case (Inr new)
    let ?dc = "diff_created (snapshot_diff False (km_snapshot m) new)"
    have fd: "\<forall>kev\<in>set kevs. kd_fd (D kev) = kev_ident kev" using ks_ok_for_fd [OF ok] reg by blast
    have h: "holds env (D ` set kevs) (km_set m)" using ok reg fd by (simp add: holds_def)
    obtain out1 s1 err1 where q: "kq_queue_all env ?dc (km_set m) = (out1, s1, err1)"
      by (cases "kq_queue_all env ?dc (km_set m)") auto
    have k: "keeps env (D ` set kevs) (s1, err1)" and sub: "prefix out1 ?dc" "err1 = None \<Longrightarrow> out1 = ?dc"
      using queue_created_keeps [OF ker h _ q] diff_created_plain by blast+
    show ?thesis
    proof (cases err1)
      case (Some x)
      with r Inr q k sub show ?thesis
        by (auto simp: kq_round_def Let_def keeps_iff holds_def err kq_on_thread_stop_def ks_clear_ok)
    next
      case None
      let ?m = "m\<lparr>km_snapshot := new, km_set := s1\<rparr>"
      have "holds env (D ` set (rev kevs)) (km_set ?m)" using k None by (simp add: keeps_iff)
      moreover have "distinct (map kev_ident (rev kevs))" using dist by (simp add: rev_map [symmetric])
      ultimately obtain m2 where p: "process_kevents env subtree (km_snapshot m) new (rev kevs) ?m
          = (concat (map (\<lambda>kev. kev_report (km_recursive m) (D kev) kev) (rev kevs)), m2, None)" "ks_ok env (km_set m2)"
        using process_kevents_keeps [OF ker, of D "rev kevs" ?m subtree "km_snapshot m" new] fd by auto
      then show ?thesis using r Inr q None sub
        by (auto simp: kq_round_def Let_def err kq_on_thread_stop_def ks_clear_ok)
    qed
  qed
qed

definition sample_kernel :: kq_env where
  "sample_kernel = \<lparr>kx_resolve = (\<lambda>p. p), kx_open = (\<lambda>used p. Inr (Suc (sum_list used)))\<rparr>"

definition sample_emitter :: kemitter where
  "sample_emitter = \<lparr>km_path = ''/w'', km_recursive = True,
     km_set = fst (ks_add sample_kernel ''/w/a'' False ks_init), km_snapshot = empty_snapshot\<rparr>"

lemma sample_kernel_ok: "kq_kernel_ok sample_kernel"
proof -
  have "fd \<in> set used \<Longrightarrow> fd \<le> sum_list used" for fd :: nat and used
    by (rule member_le_sum_list) simp_all
  then show ?thesis by (fastforce simp: kq_kernel_ok_def sample_kernel_def)
qed

definition sample_desc :: kdesc where
  "sample_desc = \<lparr>kd_path = ''/w/a'', kd_is_directory = False, kd_fd = 1,
     kd_kevent = \<lparr>kev_ident = 1, kev_fflags = WATCHDOG_KQ_FFLAGS\<rparr>\<rparr>"

lemma sample_set: "km_set sample_emitter = \<lparr>ks_descriptors = [sample_desc], ks_for_path = [(''/w/a'', sample_desc)],
    ks_for_fd = [(1, sample_desc)], ks_kevents = [kd_kevent sample_desc], ks_open = [1]\<rparr>"
  by (simp add: sample_emitter_def ks_add_def sample_kernel_def ks_init_def has_path_def kdesc_new_def add_descriptor_def
      sample_desc_def Let_def)

lemma sample_diff: "diff_created (snapshot_diff False empty_snapshot empty_snapshot) = []"
  by (simp add: snapshot_diff_def diff_created_def created0_def deleted0_def modified_paths_def
      moved_pairs_def empty_ok map_filter_def)

lemma kqueue_round_safe_witness:
  "let r = kq_queue_events sample_kernel (\<lambda>p. []) (Inr [\<lparr>kev_ident = 1, kev_fflags = KQ_NOTE_RENAME\<rparr>]) (Inr empty_snapshot) sample_emitter
   in fst r = [kq_event FileCreatedEvent (KPath ''/w/a''), kq_event FileDeletedEvent (KPath ''/w/a'')]
      \<and> ks_open (km_set sample_emitter) = [1] \<and> ks_open (km_set (kq_on_thread_stop (fst (snd r)))) = []"
proof -
  let ?kevs = "[\<lparr>kev_ident = 1, kev_fflags = KQ_NOTE_RENAME\<rparr>]"
  have ok: "ks_ok sample_kernel (km_set sample_emitter)"
  proof -
    obtain s err where a: "ks_add sample_kernel ''/w/a'' False ks_init = (s, err)"
      by (cases "ks_add sample_kernel ''/w/a'' False ks_init")
    from ks_add_cases [OF sample_kernel_ok ks_ok_init a] show ?thesis by (simp add: sample_emitter_def a)
  qed
  have o: "ks_open (km_set sample_emitter) = [1]" by (simp add: sample_set)
  have reg: "\<forall>kev\<in>set ?kevs. dget (ks_for_fd (km_set sample_emitter)) (kev_ident kev) = Some sample_desc"
    "distinct (map kev_ident ?kevs)" by (simp_all add: sample_set)
  let ?r = "kq_queue_events sample_kernel (\<lambda>p. []) (Inr ?kevs) (Inr empty_snapshot) sample_emitter"
  obtain out m' err where r: "?r = (out, m', err)" by (rule prod_cases3)
  have e: "km_snapshot sample_emitter = empty_snapshot" by (simp add: sample_emitter_def)
  from kqueue_round_safe [OF sample_kernel_ok ok reg r]
  have "out = [kq_event FileCreatedEvent (KPath ''/w/a''), kq_event FileDeletedEvent (KPath ''/w/a'')]
      \<and> ks_open (km_set (kq_on_thread_stop m')) = []"
    by (simp add: e sample_diff kev_report_def is_renamed_def KQ_NOTE_RENAME_def kq_class_def sample_desc_def)
  with r o show ?thesis by simp
qed

end
