(* ===== verification/FsEvents.thy ===== *)
theory FsEvents
  imports DirSnapshot Events
begin

text \<open>
  \<open>src/watchdog/observers/fsevents.py\<close>: the emitter for macOS. The native events, whose class is in the
  compiled module \<open>_fsevents\<close>, are records of the attributes that the emitter reads. \<open>os.stat\<close> (as the inode at
  a path), \<open>os.walk\<close> and the clock are parameters; paths are strings and never empty.
\<close>

section \<open>The emitter\<close>

record native =
  ne_path :: string
  ne_inode :: nat
  ne_created :: bool
  ne_removed :: bool
  ne_renamed :: bool
  ne_modified :: bool
  ne_inode_meta_mod :: bool
  ne_xattr_mod :: bool
  ne_directory :: bool
  ne_root_changed :: bool

record fs_env =
  fx_inode :: "string \<Rightarrow> nat option"
  fx_walk :: "string \<Rightarrow> walk"

text \<open>\<open>fe_view\<close> is the set \<open>_fs_view\<close> of the inodes known to be created, as a list without repeats.\<close>

record fs_emitter =
  fe_path :: string
  fe_absolute_path :: string
  fe_recursive :: bool
  fe_view :: "nat list"
  fe_suppress_history :: bool
  fe_start_time :: int
  fe_starting_state :: "snapshot option"
  fe_stopped :: bool

text \<open>\<open>abspath\<close> stands for \<open>os.path.abspath(os.path.expanduser(...))\<close>.\<close>

definition fs_emitter_new :: "(string \<Rightarrow> string) \<Rightarrow> string \<Rightarrow> bool \<Rightarrow> bool \<Rightarrow> fs_emitter" where
  "fs_emitter_new abspath path recursive suppress_history =
     \<lparr>fe_path = path, fe_absolute_path = abspath path, fe_recursive = recursive, fe_view = [],
      fe_suppress_history = suppress_history, fe_start_time = 0, fe_starting_state = None, fe_stopped = False\<rparr>"

definition fs_on_thread_start :: "snapshot res \<Rightarrow> fs_emitter \<Rightarrow> fs_emitter res" where
  "fs_on_thread_start taken em =
     (if fe_suppress_history em then bindR taken (\<lambda>s. Inr (em\<lparr>fe_starting_state := Some s\<rparr>)) else Inr em)"

definition fs_run :: "int \<Rightarrow> fs_emitter \<Rightarrow> fs_emitter" where
  "fs_run now em = em\<lparr>fe_start_time := now\<rparr>"

text \<open>\<open>_fs_view.add\<close> and \<open>discard\<close>.\<close>

definition view_add :: "nat \<Rightarrow> fs_emitter \<Rightarrow> fs_emitter" where
  "view_add i em = em\<lparr>fe_view := List.insert i (fe_view em)\<rparr>"

definition view_discard :: "nat \<Rightarrow> fs_emitter \<Rightarrow> fs_emitter" where
  "view_discard i em = em\<lparr>fe_view := removeAll i (fe_view em)\<rparr>"

section \<open>Queueing\<close>

definition dir_of :: "string option \<Rightarrow> string option" where
  "dir_of p = map_option dirname p"

definition is_recursive_event :: "fs_emitter \<Rightarrow> fs_event \<Rightarrow> bool" where
  "is_recursive_event em e =
     (let src = (if ev_is_directory e then ev_src e else dir_of (ev_src e)) in
      if src = Some (fe_absolute_path em) then False
      else if has_dest e \<and> dir_of (ev_dest e) = Some (fe_absolute_path em) then False
      else True)"

text \<open>\<open>queue_event\<close> for several events: what reaches the event queue.\<close>

definition fs_queue :: "fs_emitter \<Rightarrow> fs_event list \<Rightarrow> fs_event list" where
  "fs_queue em es = filter (\<lambda>e. fe_recursive em \<or> \<not> is_recursive_event em e) es"

definition queue_created_event :: "fs_emitter \<Rightarrow> native \<Rightarrow> string \<Rightarrow> string \<Rightarrow> fs_event list" where
  "queue_created_event em e src dir =
     fs_queue em [event (if ne_directory e then DirCreatedEvent else FileCreatedEvent) src, event DirModifiedEvent dir]"

definition queue_deleted_event :: "fs_emitter \<Rightarrow> native \<Rightarrow> string \<Rightarrow> string \<Rightarrow> fs_event list" where
  "queue_deleted_event em e src dir =
     fs_queue em [event (if ne_directory e then DirDeletedEvent else FileDeletedEvent) src, event DirModifiedEvent dir]"

definition queue_modified_event :: "fs_emitter \<Rightarrow> native \<Rightarrow> string \<Rightarrow> fs_event list" where
  "queue_modified_event em e src =
     fs_queue em [event (if ne_directory e then DirModifiedEvent else FileModifiedEvent) src]"

definition queue_renamed_event :: "fs_emitter \<Rightarrow> native \<Rightarrow> string \<Rightarrow> string \<Rightarrow> string \<Rightarrow> string \<Rightarrow> fs_event list" where
  "queue_renamed_event em e src dst src_dir dst_dir =
     fs_queue em [moved_event (if ne_directory e then DirMovedEvent else FileMovedEvent) (Some src) (Some dst),
       event DirModifiedEvent src_dir, event DirModifiedEvent dst_dir]"

definition is_historic_created_event :: "fs_emitter \<Rightarrow> native \<Rightarrow> bool" where
  "is_historic_created_event em e =
     (let in_history = ne_inode e \<in> set (fe_view em);
          before_start = (case fe_starting_state em of
            None \<Rightarrow> False
          | Some s \<Rightarrow> (case inode s (ne_path e) of None \<Rightarrow> False | Some i \<Rightarrow> fst i = ne_inode e))
      in in_history \<or> before_start)"

section \<open>\<open>queue_events\<close>\<close>

definition ne_changed :: "native \<Rightarrow> bool" where
  "ne_changed e \<longleftrightarrow> ne_modified e \<or> ne_inode_meta_mod e \<or> ne_xattr_mod e"

text \<open>
  The branch of an event that is not both created and removed, up to the renaming: what is queued and the
  emitter afterwards.
\<close>

definition fs_created_part :: "fs_emitter \<Rightarrow> native \<Rightarrow> fs_event list \<times> fs_emitter" where
  "fs_created_part em e =
     (let src = ne_path e; dir = dirname src;
          c = (if ne_created e \<and> \<not> is_historic_created_event em e then queue_created_event em e src dir else []);
          m = (if ne_changed e then queue_modified_event em e src else [])
      in (c @ m, view_add (ne_inode e) em))"

text \<open>Created and removed in one native event.\<close>

definition fs_flash_part :: "fs_emitter \<Rightarrow> native \<Rightarrow> fs_event list \<times> fs_emitter" where
  "fs_flash_part em e =
     (let src = ne_path e; dir = dirname src;
          c = (if \<not> is_historic_created_event em e then queue_created_event em e src dir else []);
          m = (if ne_changed e then queue_modified_event em e src else [])
      in (c @ m @ queue_deleted_event em e src dir, view_discard (ne_inode e) (view_add (ne_inode e) em)))"

text \<open>A rename with its destination event \<open>t\<close> in the batch.\<close>

definition fs_rename_pair :: "fs_env \<Rightarrow> fs_emitter \<Rightarrow> native \<Rightarrow> native \<Rightarrow> fs_event list \<times> fs_emitter" where
  "fs_rename_pair env em e t =
     (let src = ne_path e; dst = ne_path t; em1 = view_add (ne_inode e) em in
      (queue_renamed_event em e src dst (dirname src) (dirname dst) @
       fs_queue em (generate_sub_moved_events (fx_walk env dst) (Some src) dst) @
       (if ne_changed t then queue_modified_event em t dst else []) @
       (if ne_removed t then queue_deleted_event em t dst (dirname dst) else []),
       if ne_removed t then view_discard (ne_inode t) em1 else em1))"

definition fs_removed_part :: "fs_emitter \<Rightarrow> native \<Rightarrow> fs_event list \<times> fs_emitter" where
  "fs_removed_part em e =
     (if ne_removed e
      then (queue_deleted_event em e (ne_path e) (dirname (ne_path e)), view_discard (ne_inode e) em)
      else ([], em))"

definition fs_root_part :: "fs_emitter \<Rightarrow> native \<Rightarrow> fs_event list \<times> fs_emitter" where
  "fs_root_part em e =
     (if ne_root_changed e
      then (fs_queue em [event DirDeletedEvent (fe_path em)], em\<lparr>fe_stopped := True, fe_view := []\<rparr>)
      else ([], em))"

text \<open>
  One turn of the loop for the event \<open>e\<close> with the events behind it: what is queued, the emitter, and the
  events still to come. \<open>continue\<close> after a move out of the tree skips the last two parts.
\<close>

definition fs_step :: "fs_env \<Rightarrow> fs_emitter \<Rightarrow> native \<Rightarrow> native list \<Rightarrow> fs_event list \<times> fs_emitter \<times> native list" where
  "fs_step env em e events =
     (if ne_created e \<and> ne_removed e then
        (let (o1, em1) = fs_flash_part em e; (o2, em2) = fs_root_part em1 e in (o1 @ o2, em2, events))
      else
        (let (o1, em1) = fs_created_part em e in
         if ne_renamed e then
           (case take_first (\<lambda>t. ne_renamed t \<and> ne_inode t = ne_inode e) events of
              Some (t, events') \<Rightarrow>
                (let (o2, em2) = fs_rename_pair env em1 e t; (o3, em3) = fs_removed_part em2 e;
                     (o4, em4) = fs_root_part em3 e
                 in (o1 @ o2 @ o3 @ o4, em4, events'))
            | None \<Rightarrow>
                if fx_inode env (ne_path e) = Some (ne_inode e) then
                  (let o2 = queue_created_event em1 e (ne_path e) (dirname (ne_path e)) @
                            fs_queue em1 (generate_sub_created_events (fx_walk env (ne_path e)));
                       (o3, em3) = fs_removed_part (view_add (ne_inode e) em1) e; (o4, em4) = fs_root_part em3 e
                   in (o1 @ o2 @ o3 @ o4, em4, events))
                else (o1 @ queue_deleted_event em1 e (ne_path e) (dirname (ne_path e)), view_discard (ne_inode e) em1, events))
         else
           (let (o3, em3) = fs_removed_part em1 e; (o4, em4) = fs_root_part em3 e in (o1 @ o3 @ o4, em4, events))))"

lemma fs_step_shorter: "fs_step env em e events = (out, em', events') \<Longrightarrow> length events' \<le> length events"
  by (auto simp: fs_step_def Let_def dest!: take_first_Some split: prod.splits if_splits option.splits)

function fs_loop :: "fs_env \<Rightarrow> fs_emitter \<Rightarrow> native list \<Rightarrow> fs_event list \<times> fs_emitter" where
  "fs_loop env em [] = ([], em)"
| "fs_loop env em (e # events) =
     (case fs_step env em e events of (o1, em1, events1) \<Rightarrow>
        (case fs_loop env em1 events1 of (o2, em2) \<Rightarrow> (o1 @ o2, em2)))"
  by pat_completeness auto
termination
  by (relation "measure (\<lambda>(_, _, es). length es)") (auto simp: less_Suc_eq_le dest: fs_step_shorter [OF sym])

definition fs_queue_events :: "fs_env \<Rightarrow> int \<Rightarrow> native list \<Rightarrow> fs_emitter \<Rightarrow> fs_event list \<times> fs_emitter" where
  "fs_queue_events env now events em =
     fs_loop env (if now - fe_start_time em > 60 then em\<lparr>fe_starting_state := None\<rparr> else em) events"

section \<open>Batches\<close>

text \<open>
  What can happen to an item (\<open>d\<close>: a directory, path, inode) and how FSEvents tells it. \<open>Touch\<close> may carry a
  spurious created flag from an event told before; \<open>Flash\<close> is coalesced.
\<close>

datatype fs_change =
    Appear bool string nat
  | Touch bool string nat bool
  | Vanish bool string nat
  | Flash bool string nat
  | Move bool string string nat
  | Leave bool string nat
  | Arrive bool string nat

definition native0 :: "bool \<Rightarrow> string \<Rightarrow> nat \<Rightarrow> native" where
  "native0 d p i = \<lparr>ne_path = p, ne_inode = i, ne_created = False, ne_removed = False, ne_renamed = False,
     ne_modified = False, ne_inode_meta_mod = False, ne_xattr_mod = False, ne_directory = d, ne_root_changed = False\<rparr>"

fun tell :: "fs_change \<Rightarrow> native list" where
  "tell (Appear d p i) = [(native0 d p i)\<lparr>ne_created := True\<rparr>]"
| "tell (Touch d p i spurious) = [(native0 d p i)\<lparr>ne_created := spurious, ne_modified := True\<rparr>]"
| "tell (Vanish d p i) = [(native0 d p i)\<lparr>ne_removed := True\<rparr>]"
| "tell (Flash d p i) = [(native0 d p i)\<lparr>ne_created := True, ne_removed := True\<rparr>]"
| "tell (Move d p q i) = [(native0 d p i)\<lparr>ne_renamed := True\<rparr>, (native0 d q i)\<lparr>ne_renamed := True\<rparr>]"
| "tell (Leave d p i) = [(native0 d p i)\<lparr>ne_renamed := True\<rparr>]"
| "tell (Arrive d p i) = [(native0 d p i)\<lparr>ne_renamed := True\<rparr>]"

text \<open>The events that should come of it.\<close>

definition came :: "bool \<Rightarrow> string \<Rightarrow> fs_event list" where
  "came d p = [event (if d then DirCreatedEvent else FileCreatedEvent) p, event DirModifiedEvent (dirname p)]"

definition went :: "bool \<Rightarrow> string \<Rightarrow> fs_event list" where
  "went d p = [event (if d then DirDeletedEvent else FileDeletedEvent) p, event DirModifiedEvent (dirname p)]"

fun reported :: "fs_env \<Rightarrow> fs_change \<Rightarrow> fs_event list" where
  "reported env (Appear d p i) = came d p"
| "reported env (Touch d p i _) = [event (if d then DirModifiedEvent else FileModifiedEvent) p]"
| "reported env (Vanish d p i) = went d p"
| "reported env (Flash d p i) = came d p @ went d p"
| "reported env (Move d p q i) =
     [moved_event (if d then DirMovedEvent else FileMovedEvent) (Some p) (Some q), event DirModifiedEvent (dirname p),
      event DirModifiedEvent (dirname q)] @ generate_sub_moved_events (fx_walk env q) (Some p) q"
| "reported env (Leave d p i) = went d p"
| "reported env (Arrive d p i) = came d p @ generate_sub_created_events (fx_walk env p)"

text \<open>The inodes in the tree known afterwards, and the inodes of the renames.\<close>

fun view_after :: "nat list \<Rightarrow> fs_change \<Rightarrow> nat list" where
  "view_after V (Vanish d p i) = removeAll i (List.insert i V)"
| "view_after V (Flash d p i) = removeAll i (List.insert i V)"
| "view_after V (Leave d p i) = removeAll i (List.insert i V)"
| "view_after V (Appear d p i) = List.insert i V"
| "view_after V (Touch d p i _) = List.insert i V"
| "view_after V (Move d p q i) = List.insert i V"
| "view_after V (Arrive d p i) = List.insert i V"

fun renamed_inode :: "fs_change \<Rightarrow> nat option" where
  "renamed_inode (Move d p q i) = Some i"
| "renamed_inode (Leave d p i) = Some i"
| "renamed_inode (Arrive d p i) = Some i"
| "renamed_inode _ = None"

text \<open>
  When a change can be told from others: an inode that appears is not known yet, a spurious flag is of a known
  one; what has left is not at its path and what arrived is; no later rename in the batch is of the inode of
  one that crossed the border of the tree. (No history: the emitter has no starting state.)
\<close>

fun change_ok :: "fs_env \<Rightarrow> nat list \<Rightarrow> fs_change \<Rightarrow> bool" where
  "change_ok env V (Appear d p i) = (i \<notin> set V)"
| "change_ok env V (Flash d p i) = (i \<notin> set V)"
| "change_ok env V (Touch d p i spurious) = (spurious \<longrightarrow> i \<in> set V)"
| "change_ok env V (Leave d p i) = (fx_inode env p \<noteq> Some i)"
| "change_ok env V (Arrive d p i) = (fx_inode env p = Some i)"
| "change_ok env V _ = True"

fun crosses :: "fs_change \<Rightarrow> bool" where
  "crosses (Leave d p i) = True"
| "crosses (Arrive d p i) = True"
| "crosses _ = False"

fun batch_ok :: "fs_env \<Rightarrow> nat list \<Rightarrow> fs_change list \<Rightarrow> bool" where
  "batch_ok env V [] = True"
| "batch_ok env V (c # cs) =
     (change_ok env V c \<and> (crosses c \<longrightarrow> renamed_inode c \<notin> renamed_inode ` set cs) \<and> batch_ok env (view_after V c) cs)"

lemma fs_queue_append [simp]: "fs_queue em (xs @ ys) = fs_queue em xs @ fs_queue em ys"
  by (simp add: fs_queue_def)

lemma is_recursive_view [simp]: "is_recursive_event (em\<lparr>fe_view := V\<rparr>) e = is_recursive_event em e"
  by (simp add: is_recursive_event_def)

lemma fs_queue_view [simp]: "fs_queue (em\<lparr>fe_view := V\<rparr>) es = fs_queue em es"
  by (simp add: fs_queue_def)

lemma native0_sel [simp]:
  "ne_path (native0 d p i) = p" "ne_inode (native0 d p i) = i" "\<not> ne_created (native0 d p i)"
  "\<not> ne_removed (native0 d p i)" "\<not> ne_renamed (native0 d p i)" "\<not> ne_modified (native0 d p i)"
  "\<not> ne_inode_meta_mod (native0 d p i)" "\<not> ne_xattr_mod (native0 d p i)" "ne_directory (native0 d p i) = d"
  "\<not> ne_root_changed (native0 d p i)"
  by (simp_all add: native0_def)

lemmas fs_parts = fs_step_def fs_flash_part_def fs_created_part_def fs_rename_pair_def fs_removed_part_def fs_root_part_def
  queue_created_event_def queue_deleted_event_def queue_modified_event_def queue_renamed_event_def view_add_def
  view_discard_def ne_changed_def is_historic_created_event_def came_def went_def

lemma told_renames:
  "(\<exists>t\<in>set (tell c). ne_renamed t \<and> ne_inode t = i) \<longleftrightarrow> renamed_inode c = Some i"
  by (cases c) auto

lemma no_partner:
  assumes "Some i \<notin> renamed_inode ` set cs"
  shows "take_first (\<lambda>t. ne_renamed t \<and> ne_inode t = i) (concat (map tell cs)) = None"
proof -
  have "renamed_inode c \<noteq> Some i" if "c \<in> set cs" for c using assms that by (metis image_eqI)
  then show ?thesis unfolding take_first_None using told_renames [of _ i] by (simp del: tell.simps) blast
qed

lemma fs_loop_change:
  assumes "change_ok env (fe_view em) c" and "fe_starting_state em = None"
    and "crosses c \<longrightarrow> renamed_inode c \<notin> renamed_inode ` set cs"
  shows "fs_loop env em (tell c @ concat (map tell cs)) =
    (case fs_loop env (em\<lparr>fe_view := view_after (fe_view em) c\<rparr>) (concat (map tell cs)) of
       (out, em') \<Rightarrow> (fs_queue em (reported env c) @ out, em'))"
proof (cases "crosses c")
  case True
  then obtain i where i: "renamed_inode c = Some i" by (cases c) auto
  with no_partner assms(3) True have "take_first (\<lambda>t. ne_renamed t \<and> ne_inode t = i) (concat (map tell cs)) = None" by metis
  with True assms(1,2) i show ?thesis
    by (cases c) (simp_all add: fs_parts fs_queue_def split: prod.split)
next
  case False
  with assms(1,2) show ?thesis
    by (cases c) (auto simp: fs_parts Let_def fs_queue_def split: prod.split)
qed

lemma fs_loop_batch:
  assumes "batch_ok env (fe_view em) cs" and "fe_starting_state em = None"
  shows "fs_loop env em (concat (map tell cs)) =
    (fs_queue em (concat (map (reported env) cs)), em\<lparr>fe_view := foldl view_after (fe_view em) cs\<rparr>)"
  using assms
proof (induction cs arbitrary: em)
  case Nil
  then show ?case by (simp add: fs_queue_def)
next
  case (Cons c cs)
  from Cons.IH [of "em\<lparr>fe_view := view_after (fe_view em) c\<rparr>"] Cons.prems
  have "fs_loop env (em\<lparr>fe_view := view_after (fe_view em) c\<rparr>) (concat (map tell cs)) =
    (fs_queue em (concat (map (reported env) cs)), em\<lparr>fe_view := foldl view_after (fe_view em) (c # cs)\<rparr>)" by simp
  with fs_loop_change [of env em c cs] Cons.prems show ?case by simp
qed

section \<open>Properties\<close>

text \<open>
  The macOS emitter reports what happened. From a batch of native events that tell a sequence of changes,
  with no history to suppress, exactly the events of these changes are queued, in order: each rename finds its
  other half, a move over the border of the tree counts as appearing or vanishing, an appearance told twice is
  reported once, and the emitter afterwards knows the inodes that are there. In a non-recursive watch those
  events are left out whose paths do not lie directly in the watched directory.
\<close>
theorem fsevents_batch:
  assumes "batch_ok env (fe_view em) cs" and "fe_starting_state em = None"
  shows "fs_queue_events env now (concat (map tell cs)) em =
    (filter (\<lambda>e. fe_recursive em \<or> \<not> is_recursive_event em e) (concat (map (reported env) cs)),
     em\<lparr>fe_view := foldl view_after (fe_view em) cs\<rparr>)"
proof -
  have "em\<lparr>fe_starting_state := None\<rparr> = em" using assms(2) by simp
  then show ?thesis using fs_loop_batch [OF assms] by (simp add: fs_queue_events_def fs_queue_def)
qed

lemma fsevents_batch_witness:
  "fs_queue_events \<lparr>fx_inode = (\<lambda>p. None), fx_walk = (\<lambda>p. [])\<rparr> 5
     (concat (map tell [Appear False ''/w/a'' 7, Touch False ''/w/a'' 7 True, Move False ''/w/a'' ''/w/b'' 7, Leave False ''/w/b'' 7]))
     (fs_emitter_new id ''/w'' True False) =
   ([event FileCreatedEvent ''/w/a'', event DirModifiedEvent (dirname ''/w/a''), event FileModifiedEvent ''/w/a'',
     moved_event FileMovedEvent (Some ''/w/a'') (Some ''/w/b''), event DirModifiedEvent (dirname ''/w/a''),
     event DirModifiedEvent (dirname ''/w/b''), event FileDeletedEvent ''/w/b'', event DirModifiedEvent (dirname ''/w/b'')],
    fs_emitter_new id ''/w'' True False)"
proof -
  let ?cs = "[Appear False ''/w/a'' 7, Touch False ''/w/a'' 7 True, Move False ''/w/a'' ''/w/b'' 7, Leave False ''/w/b'' 7]"
  let ?em = "fs_emitter_new id ''/w'' True False"
  have "batch_ok \<lparr>fx_inode = (\<lambda>p. None), fx_walk = (\<lambda>p. [])\<rparr> (fe_view ?em) ?cs" "fe_starting_state ?em = None"
    by (simp_all add: fs_emitter_new_def)
  from fsevents_batch [OF this, of 5] show ?thesis
    by (simp add: fs_emitter_new_def came_def went_def generate_sub_moved_events_def)
qed

text \<open>
  The end of a watch on macOS. When the root of the tree was moved or deleted, the emitter stops and
  forgets the inodes; it reports the deletion of the watched path, but in a non-recursive watch only if that
  path was given in absolute form: a relative path is not the absolute one it is compared with.
\<close>
theorem fsevents_root_changed:
  "fs_queue_events env now [(native0 d p i)\<lparr>ne_root_changed := True\<rparr>] em =
    (if fe_recursive em \<or> fe_path em = fe_absolute_path em then [event DirDeletedEvent (fe_path em)] else [],
     em\<lparr>fe_starting_state := (if now - fe_start_time em > 60 then None else fe_starting_state em),
        fe_view := [], fe_stopped := True\<rparr>)"
  by (simp add: fs_queue_events_def fs_parts fs_queue_def is_recursive_event_def has_dest_def event_def
      ev_is_directory_def dir_class_def)

end
