(* ===== verification/FsEvents2.thy ===== *)
theory FsEvents2
  imports Events "HOL-Library.Word"
begin

text \<open>
  \<open>src/watchdog/observers/fsevents2.py\<close>: the macOS emitter over pyobjc. The values of the flags come from the
  library and are a parameter; \<open>os.path.exists\<close> is another. The stream of batches is the queue that the
  run loop's callback fills and \<open>read_events\<close> empties.
\<close>

section \<open>Native events\<close>

record fs_flags =
  fl_created :: int
  fl_removed :: int
  fl_renamed :: int
  fl_modified :: int
  fl_change_owner :: int
  fl_inode_meta_mod :: int
  fl_finder_info_mod :: int
  fl_xattr_mod :: int
  fl_symlink :: int
  fl_directory :: int

record native2 =
  n2_path :: string
  n2_flags :: int
  n2_id :: int
  n2_created :: bool
  n2_removed :: bool
  n2_renamed :: bool
  n2_modified :: bool
  n2_change_owner :: bool
  n2_inode_meta_mod :: bool
  n2_finder_info_mod :: bool
  n2_xattr_mod :: bool
  n2_symlink :: bool
  n2_directory :: bool

definition native2_new :: "fs_flags \<Rightarrow> string \<Rightarrow> int \<Rightarrow> int \<Rightarrow> native2" where
  "native2_new k path flags event_id =
     \<lparr>n2_path = path, n2_flags = flags, n2_id = event_id,
      n2_created = (and flags (fl_created k) \<noteq> 0),
      n2_removed = (and flags (fl_removed k) \<noteq> 0),
      n2_renamed = (and flags (fl_renamed k) \<noteq> 0),
      n2_modified = (and flags (fl_modified k) \<noteq> 0),
      n2_change_owner = (and flags (fl_change_owner k) \<noteq> 0),
      n2_inode_meta_mod = (and flags (fl_inode_meta_mod k) \<noteq> 0),
      n2_finder_info_mod = (and flags (fl_finder_info_mod k) \<noteq> 0),
      n2_xattr_mod = (and flags (fl_xattr_mod k) \<noteq> 0),
      n2_symlink = (and flags (fl_symlink k) \<noteq> 0),
      n2_directory = (and flags (fl_directory k) \<noteq> 0)\<rparr>"

datatype native_type = Created2 | Removed2 | Renamed2 | Modified2 | InodeMetaMod2 | XattrMod2 | Unknown2

definition native2_type :: "native2 \<Rightarrow> native_type" where
  "native2_type e =
     (if n2_created e then Created2
      else if n2_removed e then Removed2
      else if n2_renamed e then Renamed2
      else if n2_modified e then Modified2
      else if n2_inode_meta_mod e then InodeMetaMod2
      else if n2_xattr_mod e then XattrMod2
      else Unknown2)"

section \<open>The queue of batches\<close>

text \<open>
  \<open>FSEventsQueue\<close>: whether its thread is alive, and the batches put and not fetched; \<open>None\<close> is the note of the
  ending thread.
\<close>

record fs_queue2 =
  f2_alive :: bool
  f2_queue :: "native2 list option list"

definition f2_callback :: "fs_flags \<Rightarrow> (string \<times> int \<times> int) list \<Rightarrow> fs_queue2 \<Rightarrow> fs_queue2" where
  "f2_callback k xs s = s\<lparr>f2_queue := f2_queue s @ [Some (map (\<lambda>(p, f, i). native2_new k p f i) xs)]\<rparr>"

definition f2_run_end :: "fs_queue2 \<Rightarrow> fs_queue2" where
  "f2_run_end s = s\<lparr>f2_queue := f2_queue s @ [None], f2_alive := False\<rparr>"

text \<open>\<open>None\<close> outside: the call blocks, for an empty queue.\<close>

definition f2_read_events :: "fs_queue2 \<Rightarrow> (native2 list option \<times> fs_queue2) option" where
  "f2_read_events s =
     (if \<not> f2_alive s then Some (None, s)
      else (case f2_queue s of [] \<Rightarrow> None | b # q \<Rightarrow> Some (b, s\<lparr>f2_queue := q\<rparr>)))"

section \<open>The emitter\<close>

definition n2_came :: "native2 \<Rightarrow> fs_event list" where
  "n2_came e = [event (if n2_directory e then DirCreatedEvent else FileCreatedEvent) (n2_path e),
     event DirModifiedEvent (dirname (n2_path e))]"

definition n2_went :: "native2 \<Rightarrow> fs_event list" where
  "n2_went e = [event (if n2_directory e then DirDeletedEvent else FileDeletedEvent) (n2_path e),
     event DirModifiedEvent (dirname (n2_path e))]"

definition n2_moved :: "native2 \<Rightarrow> native2 \<Rightarrow> fs_event list" where
  "n2_moved e t =
     [moved_event (if n2_directory e then DirMovedEvent else FileMovedEvent) (Some (n2_path e)) (Some (n2_path t)),
      event DirModifiedEvent (dirname (n2_path e)), event DirModifiedEvent (dirname (n2_path t))]"

definition n2_single :: "(string \<Rightarrow> bool) \<Rightarrow> native2 \<Rightarrow> fs_event list" where
  "n2_single exists e =
     (if n2_renamed e then (if exists (n2_path e) then n2_came e else n2_went e)
      else if n2_modified e \<or> n2_inode_meta_mod e \<or> n2_xattr_mod e
        then [event (if n2_directory e then DirModifiedEvent else FileModifiedEvent) (n2_path e)]
      else if n2_created e then n2_came e
      else if n2_removed e then n2_went e
      else [])"

text \<open>The loop over the batch: the index moves on by two after a pair.\<close>

fun f2_loop :: "(string \<Rightarrow> bool) \<Rightarrow> native2 list \<Rightarrow> fs_event list" where
  "f2_loop exists [] = []"
| "f2_loop exists [e] = n2_single exists e"
| "f2_loop exists (e # t # es) =
     (if n2_renamed e \<and> n2_renamed t \<and> n2_id t = n2_id e + 1
      then n2_moved e t @ f2_loop exists es
      else n2_single exists e @ f2_loop exists (t # es))"

definition f2_queue_events :: "(string \<Rightarrow> bool) \<Rightarrow> fs_queue2 \<Rightarrow> (fs_event list \<times> fs_queue2) option" where
  "f2_queue_events exists s =
     (case f2_read_events s of
        None \<Rightarrow> None
      | Some (None, s') \<Rightarrow> Some ([], s')
      | Some (Some es, s') \<Rightarrow> Some (f2_loop exists es, s'))"

section \<open>Properties\<close>

text \<open>
  What the library documents of its flags: each is a bit, and no two are the same.
\<close>

definition flag_list :: "fs_flags \<Rightarrow> int list" where
  "flag_list k = [fl_created k, fl_removed k, fl_renamed k, fl_modified k, fl_inode_meta_mod k, fl_xattr_mod k, fl_directory k]"

definition flags_ok :: "fs_flags \<Rightarrow> bool" where
  "flags_ok k \<longleftrightarrow> 0 \<notin> set (flag_list k) \<and> sorted_wrt (\<lambda>a b. and a b = 0) (flag_list k)"

text \<open>A change of an item (\<open>d\<close>: a directory) and the triples by which it is told, from the event id \<open>n\<close> on.\<close>

datatype fs2_change =
    Appear2 bool string
  | Vanish2 bool string
  | Touch2 bool string
  | Move2 bool string string

definition with_dir :: "fs_flags \<Rightarrow> bool \<Rightarrow> int \<Rightarrow> int" where
  "with_dir k d f = (if d then or f (fl_directory k) else f)"

fun tell2 :: "fs_flags \<Rightarrow> int \<Rightarrow> fs2_change \<Rightarrow> (string \<times> int \<times> int) list" where
  "tell2 k n (Appear2 d p) = [(p, with_dir k d (fl_created k), n)]"
| "tell2 k n (Vanish2 d p) = [(p, with_dir k d (fl_removed k), n)]"
| "tell2 k n (Touch2 d p) = [(p, with_dir k d (fl_modified k), n)]"
| "tell2 k n (Move2 d p q) = [(p, with_dir k d (fl_renamed k), n), (q, with_dir k d (fl_renamed k), n + 1)]"

fun tell2_all :: "fs_flags \<Rightarrow> int \<Rightarrow> fs2_change list \<Rightarrow> (string \<times> int \<times> int) list" where
  "tell2_all k n [] = []"
| "tell2_all k n (c # cs) = tell2 k n c @ tell2_all k (n + int (length (tell2 k n c))) cs"

fun reported2 :: "fs2_change \<Rightarrow> fs_event list" where
  "reported2 (Appear2 d p) = [event (if d then DirCreatedEvent else FileCreatedEvent) p, event DirModifiedEvent (dirname p)]"
| "reported2 (Vanish2 d p) = [event (if d then DirDeletedEvent else FileDeletedEvent) p, event DirModifiedEvent (dirname p)]"
| "reported2 (Touch2 d p) = [event (if d then DirModifiedEvent else FileModifiedEvent) p]"
| "reported2 (Move2 d p q) =
     [moved_event (if d then DirMovedEvent else FileMovedEvent) (Some p) (Some q), event DirModifiedEvent (dirname p),
      event DirModifiedEvent (dirname q)]"

lemma and_or_zero:
  "and (or a b) c = 0 \<longleftrightarrow> and a c = 0 \<and> and b (c :: int) = 0"
  "and c (or a b) = 0 \<longleftrightarrow> and c a = 0 \<and> and c (b :: int) = 0"
  by (simp_all add: bit.conj_disj_distrib bit.conj_disj_distrib2 or_eq_0_iff)

lemma flags_okD:
  assumes "flags_ok k"
  shows "\<forall>a\<in>set (flag_list k). a \<noteq> 0"
    and "i < 7 \<Longrightarrow> j < 7 \<Longrightarrow> i \<noteq> j \<Longrightarrow> and (flag_list k ! i) (flag_list k ! j) = 0"
proof -
  show "\<forall>a\<in>set (flag_list k). a \<noteq> 0" using assms by (auto simp: flags_ok_def)
  have l: "length (flag_list k) = 7" by (simp add: flag_list_def)
  have s: "i < j \<Longrightarrow> j < 7 \<Longrightarrow> and (flag_list k ! i) (flag_list k ! j) = 0" for i j
    using assms l by (auto simp: flags_ok_def sorted_wrt_iff_nth_less)
  show "and (flag_list k ! i) (flag_list k ! j) = 0" if "i < 7" "j < 7" "i \<noteq> j"
    using s [of i j] s [of j i] that by (metis and.commute linorder_neqE_nat)
qed

lemma flag_pairs:
  assumes "flags_ok k"
  shows "and (fl_created k) (fl_removed k) = 0" "and (fl_created k) (fl_renamed k) = 0" "and (fl_created k) (fl_modified k) = 0"
    "and (fl_created k) (fl_inode_meta_mod k) = 0" "and (fl_created k) (fl_xattr_mod k) = 0" "and (fl_created k) (fl_directory k) = 0"
    "and (fl_removed k) (fl_created k) = 0" "and (fl_removed k) (fl_renamed k) = 0" "and (fl_removed k) (fl_modified k) = 0"
    "and (fl_removed k) (fl_inode_meta_mod k) = 0" "and (fl_removed k) (fl_xattr_mod k) = 0" "and (fl_removed k) (fl_directory k) = 0"
    "and (fl_renamed k) (fl_directory k) = 0" "and (fl_modified k) (fl_renamed k) = 0" "and (fl_modified k) (fl_directory k) = 0"
    "and (fl_directory k) (fl_created k) = 0" "and (fl_directory k) (fl_removed k) = 0" "and (fl_directory k) (fl_renamed k) = 0"
    "and (fl_directory k) (fl_modified k) = 0" "and (fl_directory k) (fl_inode_meta_mod k) = 0" "and (fl_directory k) (fl_xattr_mod k) = 0"
  using flags_okD(2) [OF assms, of 0 1] flags_okD(2) [OF assms, of 0 2] flags_okD(2) [OF assms, of 0 3]
    flags_okD(2) [OF assms, of 0 4] flags_okD(2) [OF assms, of 0 5] flags_okD(2) [OF assms, of 0 6]
    flags_okD(2) [OF assms, of 1 0] flags_okD(2) [OF assms, of 1 2] flags_okD(2) [OF assms, of 1 3]
    flags_okD(2) [OF assms, of 1 4] flags_okD(2) [OF assms, of 1 5] flags_okD(2) [OF assms, of 1 6]
    flags_okD(2) [OF assms, of 2 6] flags_okD(2) [OF assms, of 3 2] flags_okD(2) [OF assms, of 3 6]
    flags_okD(2) [OF assms, of 6 0] flags_okD(2) [OF assms, of 6 1] flags_okD(2) [OF assms, of 6 2]
    flags_okD(2) [OF assms, of 6 3] flags_okD(2) [OF assms, of 6 4] flags_okD(2) [OF assms, of 6 5]
  by (simp_all add: flag_list_def)

lemma flag_nonzero:
  assumes "flags_ok k"
  shows "fl_created k \<noteq> 0" "fl_removed k \<noteq> 0" "fl_renamed k \<noteq> 0" "fl_modified k \<noteq> 0" "fl_directory k \<noteq> 0"
  using flags_okD(1) [OF assms] by (auto simp: flag_list_def)

lemma native2_sel [simp]:
  "n2_path (native2_new k p f n) = p" "n2_id (native2_new k p f n) = n"
  "n2_created (native2_new k p f n) \<longleftrightarrow> and f (fl_created k) \<noteq> 0"
  "n2_removed (native2_new k p f n) \<longleftrightarrow> and f (fl_removed k) \<noteq> 0"
  "n2_renamed (native2_new k p f n) \<longleftrightarrow> and f (fl_renamed k) \<noteq> 0"
  "n2_modified (native2_new k p f n) \<longleftrightarrow> and f (fl_modified k) \<noteq> 0"
  "n2_inode_meta_mod (native2_new k p f n) \<longleftrightarrow> and f (fl_inode_meta_mod k) \<noteq> 0"
  "n2_xattr_mod (native2_new k p f n) \<longleftrightarrow> and f (fl_xattr_mod k) \<noteq> 0"
  "n2_directory (native2_new k p f n) \<longleftrightarrow> and f (fl_directory k) \<noteq> 0"
  by (simp_all add: native2_new_def)

lemma with_dir_bit:
  "and (with_dir k d f) g = 0 \<longleftrightarrow> and f g = 0 \<and> (d \<longrightarrow> and (fl_directory k) g = 0)"
  by (simp add: with_dir_def and_or_zero)

definition natives2 :: "fs_flags \<Rightarrow> (string \<times> int \<times> int) list \<Rightarrow> native2 list" where
  "natives2 k xs = map (\<lambda>(p, f, i). native2_new k p f i) xs"

lemma natives2_simps [simp]:
  "natives2 k [] = []"
  "natives2 k ((p, f, i) # xs) = native2_new k p f i # natives2 k xs"
  "natives2 k (xs @ ys) = natives2 k xs @ natives2 k ys"
  by (simp_all add: natives2_def)

lemma f2_loop_single: "\<not> n2_renamed e \<Longrightarrow> f2_loop exists (e # es) = n2_single exists e @ f2_loop exists es"
  by (cases es) simp_all

lemma f2_loop_change:
  assumes "flags_ok k"
  shows "f2_loop exists (natives2 k (tell2 k n c) @ es) = reported2 c @ f2_loop exists es"
  using flag_pairs [OF assms] flag_nonzero [OF assms]
  by (cases c) (simp_all add: f2_loop_single with_dir_bit n2_single_def n2_came_def n2_went_def n2_moved_def)

lemma f2_loop_all:
  assumes "flags_ok k"
  shows "f2_loop exists (natives2 k (tell2_all k n cs)) = concat (map reported2 cs)"
  by (induction cs arbitrary: n) (simp_all add: f2_loop_change [OF assms])

text \<open>
  From the callback's arrays to the events, for the pyobjc emitter: if the library's flags are different
  bits and its arrays tell a sequence of changes with consecutive event ids, then exactly the events of these
  changes are queued, in order, when the emitter's turn at this batch comes: the two halves of each rename are
  joined, also of several renames in a row.
\<close>
theorem fsevents2_batch:
  assumes "flags_ok k" and "f2_alive s" and "f2_queue s = []"
  shows "f2_queue_events exists (f2_callback k (tell2_all k n cs) s) = Some (concat (map reported2 cs), s)"
  using assms f2_loop_all [OF assms(1), of exists n cs]
  by (simp add: f2_queue_events_def f2_read_events_def f2_callback_def natives2_def)

lemma fsevents2_batch_witness:
  "f2_queue_events (\<lambda>p. False) (f2_callback
     \<lparr>fl_created = 256, fl_removed = 512, fl_renamed = 2048, fl_modified = 4096, fl_change_owner = 16384,
      fl_inode_meta_mod = 1024, fl_finder_info_mod = 8192, fl_xattr_mod = 32768, fl_symlink = 262144, fl_directory = 131072\<rparr>
     [(''/a'', 133120, 9), (''/b'', 133120, 10), (''/b'', 2048, 11), (''/c'', 2048, 12)] \<lparr>f2_alive = True, f2_queue = []\<rparr>) =
   Some (reported2 (Move2 True ''/a'' ''/b'') @ reported2 (Move2 False ''/b'' ''/c''), \<lparr>f2_alive = True, f2_queue = []\<rparr>)"
proof -
  let ?k = "\<lparr>fl_created = 256, fl_removed = 512, fl_renamed = 2048, fl_modified = 4096, fl_change_owner = 16384,
      fl_inode_meta_mod = 1024, fl_finder_info_mod = 8192, fl_xattr_mod = 32768, fl_symlink = 262144, fl_directory = 131072\<rparr>"
  let ?cs = "[Move2 True ''/a'' ''/b'', Move2 False ''/b'' ''/c'']"
  have "flags_ok ?k" by (simp add: flags_ok_def flag_list_def)
  moreover have "tell2_all ?k 9 ?cs = [(''/a'', 133120, 9), (''/b'', 133120, 10), (''/b'', 2048, 11), (''/c'', 2048, 12)]"
    by (simp add: with_dir_def)
  ultimately show ?thesis using fsevents2_batch [of ?k "\<lparr>f2_alive = True, f2_queue = []\<rparr>" "\<lambda>p. False" 9 ?cs] by simp
qed

text \<open>
  Pairing by consecutive ids only: two unrelated renames that cross the border of the tree one after the other
  are taken for one move.
\<close>

lemma fsevents2_false_pair:
  assumes "n2_renamed e" and "n2_renamed t" and "n2_id t = n2_id e + 1"
  shows "f2_loop exists [e, t] = n2_moved e t"
  using assms by simp

text \<open>
  An item created and removed within the latency of the stream is told by one native event with both flags,
  and only its creation is reported.
\<close>

lemma fsevents2_flash:
  assumes "flags_ok k"
  shows "f2_loop exists [native2_new k p (with_dir k d (or (fl_created k) (fl_removed k))) n] = reported2 (Appear2 d p)"
  using flag_pairs [OF assms] flag_nonzero [OF assms]
  by (simp add: with_dir_bit and_or_zero n2_single_def n2_came_def)

end
