(* ===== verification/WinApi.thy ===== *)
theory WinApi
  imports InotifyLaws Events WsFrameLaws
begin

text \<open>
  \<open>src/watchdog/observers/winapi.py\<close> and \<open>read_directory_changes.py\<close>: the buffer of
  \<open>ReadDirectoryChangesW\<close>, the native events, and the emitter for Windows. Parameters: the answers of
  \<open>ReadDirectoryChangesW\<close> and \<open>GetFinalPathNameByHandleW\<close> (or their error numbers), \<open>os.path.isdir\<close> and
  \<open>os.walk\<close>. Integers in the buffer are little-endian.
\<close>

section \<open>Constants\<close>

definition FILE_NOTIFY_CHANGE_FILE_NAME :: mask where "FILE_NOTIFY_CHANGE_FILE_NAME = 0x01"
definition FILE_NOTIFY_CHANGE_DIR_NAME :: mask where "FILE_NOTIFY_CHANGE_DIR_NAME = 0x02"
definition FILE_NOTIFY_CHANGE_ATTRIBUTES :: mask where "FILE_NOTIFY_CHANGE_ATTRIBUTES = 0x04"
definition FILE_NOTIFY_CHANGE_SIZE :: mask where "FILE_NOTIFY_CHANGE_SIZE = 0x08"
definition FILE_NOTIFY_CHANGE_LAST_WRITE :: mask where "FILE_NOTIFY_CHANGE_LAST_WRITE = 0x010"
definition FILE_NOTIFY_CHANGE_LAST_ACCESS :: mask where "FILE_NOTIFY_CHANGE_LAST_ACCESS = 0x020"
definition FILE_NOTIFY_CHANGE_CREATION :: mask where "FILE_NOTIFY_CHANGE_CREATION = 0x040"
definition FILE_NOTIFY_CHANGE_SECURITY :: mask where "FILE_NOTIFY_CHANGE_SECURITY = 0x0100"

definition WATCHDOG_FILE_NOTIFY_FLAGS :: mask where
  "WATCHDOG_FILE_NOTIFY_FLAGS = foldl or 0
     [FILE_NOTIFY_CHANGE_FILE_NAME, FILE_NOTIFY_CHANGE_DIR_NAME, FILE_NOTIFY_CHANGE_ATTRIBUTES,
      FILE_NOTIFY_CHANGE_SIZE, FILE_NOTIFY_CHANGE_LAST_WRITE, FILE_NOTIFY_CHANGE_SECURITY,
      FILE_NOTIFY_CHANGE_LAST_ACCESS, FILE_NOTIFY_CHANGE_CREATION]"

definition FILE_ACTION_CREATED :: nat where "FILE_ACTION_CREATED = 1"
definition FILE_ACTION_DELETED :: nat where "FILE_ACTION_DELETED = 2"
definition FILE_ACTION_MODIFIED :: nat where "FILE_ACTION_MODIFIED = 3"
definition FILE_ACTION_RENAMED_OLD_NAME :: nat where "FILE_ACTION_RENAMED_OLD_NAME = 4"
definition FILE_ACTION_RENAMED_NEW_NAME :: nat where "FILE_ACTION_RENAMED_NEW_NAME = 5"
definition FILE_ACTION_DELETED_SELF :: nat where "FILE_ACTION_DELETED_SELF = 0xFFFE"
definition FILE_ACTION_OVERFLOW :: nat where "FILE_ACTION_OVERFLOW = 0xFFFF"

lemmas file_actions = FILE_ACTION_CREATED_def FILE_ACTION_DELETED_def FILE_ACTION_MODIFIED_def
  FILE_ACTION_RENAMED_OLD_NAME_def FILE_ACTION_RENAMED_NEW_NAME_def FILE_ACTION_DELETED_SELF_def

definition ERROR_OPERATION_ABORTED :: int where "ERROR_OPERATION_ABORTED = 995"
definition PATH_BUFFER_SIZE :: nat where "PATH_BUFFER_SIZE = 2048"

section \<open>UTF-16\<close>

text \<open>
  \<open>bytes.decode('utf-16')\<close>, to code points: little-endian unless a byte order mark, which is taken off,
  says otherwise.
\<close>

type_synonym text_points = "nat list"

fun code_units :: "string \<Rightarrow> nat list option" where
  "code_units [] = Some []"
| "code_units [b] = None"
| "code_units (a # b # bs) = map_option (\<lambda>us. (of_char a + 256 * of_char b) # us) (code_units bs)"

definition swap_bytes :: "nat \<Rightarrow> nat" where
  "swap_bytes u = u div 256 + 256 * (u mod 256)"

fun join_surrogates :: "nat list \<Rightarrow> text_points option" where
  "join_surrogates [] = Some []"
| "join_surrogates (u # us) =
     (if u < 0xD800 \<or> 0xE000 \<le> u then map_option (\<lambda>t. u # t) (join_surrogates us)
      else if u < 0xDC00 then
        (case us of
           [] \<Rightarrow> None
         | v # vs \<Rightarrow>
             if 0xDC00 \<le> v \<and> v < 0xE000
             then map_option (\<lambda>t. (0x10000 + (u - 0xD800) * 0x400 + (v - 0xDC00)) # t) (join_surrogates vs)
             else None)
      else None)"

definition decode_utf16 :: "string \<Rightarrow> text_points res" where
  "decode_utf16 bs =
     (case code_units bs of
        None \<Rightarrow> Inl UnicodeDecodeError
      | Some us \<Rightarrow>
          (let units = (case us of
                 [] \<Rightarrow> []
               | u # vs \<Rightarrow> if u = 0xFEFF then vs else if u = 0xFFFE then map swap_bytes vs else us)
           in (case join_surrogates units of None \<Rightarrow> Inl UnicodeDecodeError | Some t \<Rightarrow> Inr t)))"

section \<open>The buffer\<close>

lemma unat_pos_uint: "0 < unat w \<Longrightarrow> 0 < uint w"
  for w :: mask
  by (metis of_nat_0_less_iff uint_nat)

text \<open>
  \<open>FILE_NOTIFY_INFORMATION\<close> is three 32-bit fields and the name, from offset 12 on. \<open>None\<close>: the code reads
  memory behind the buffer, which has no defined result.
\<close>

function parse_notify_buffer :: "string \<Rightarrow> int \<Rightarrow> (nat \<times> text_points) list res option" where
  "parse_notify_buffer buf nbytes =
     (if nbytes \<le> 0 then Some (Inr [])
      else if length buf < 12 then None
      else
        (let next_off = unat (le32 (take 4 buf)); action = unat (le32 (take 4 (drop 4 buf)));
             len = unat (le32 (take 4 (drop 8 buf)))
         in if length buf < 12 + len then None
            else
              (case decode_utf16 (take len (drop 12 buf)) of
                 Inl e \<Rightarrow> Some (Inl e)
               | Inr name \<Rightarrow>
                   (if next_off = 0 then Some (Inr [(action, name)])
                    else map_option (\<lambda>r. bindR r (\<lambda>es. Inr ((action, name) # es)))
                           (parse_notify_buffer (drop next_off buf) (nbytes - int next_off))))))"
  by pat_completeness auto
termination
  by (relation "measure (\<lambda>(_, n). nat n)") (auto dest: unat_pos_uint)

declare parse_notify_buffer.simps [simp del]

text \<open>A change of the watched directory's real path means that it was moved to the bin or deleted.\<close>

definition is_observed_path_deleted :: "int + string \<Rightarrow> string \<Rightarrow> bool res" where
  "is_observed_path_deleted final path = (case final of Inl e \<Rightarrow> Inl (OSError e) | Inr p \<Rightarrow> Inr (p \<noteq> path))"

text \<open>One structure (16 bytes with its padding) in a buffer of \<open>PATH_BUFFER_SIZE\<close> bytes.\<close>

definition observed_path_deleted_event :: "string \<times> int" where
  "observed_path_deleted_event =
     (let event = enc32 0 @ enc32 (of_nat FILE_ACTION_DELETED_SELF) @ enc32 2 @ ''.'' @ replicate 3 nul
      in (event @ replicate (PATH_BUFFER_SIZE - length event) nul, int (length event)))"

definition read_directory_changes :: "int + string \<times> int \<Rightarrow> int + string \<Rightarrow> string \<Rightarrow> (string \<times> int) res" where
  "read_directory_changes answer final path =
     (case answer of
        Inr r \<Rightarrow> Inr r
      | Inl e \<Rightarrow>
          if e = ERROR_OPERATION_ABORTED then Inr ([], 0)
          else bindR (is_observed_path_deleted final path) (\<lambda>d.
                 if d then Inr observed_path_deleted_event else Inl (OSError e)))"

record native_event =
  wn_action :: nat
  wn_src_path :: text_points

definition is_added :: "native_event \<Rightarrow> bool" where "is_added e \<longleftrightarrow> wn_action e = FILE_ACTION_CREATED"
definition is_removed :: "native_event \<Rightarrow> bool" where "is_removed e \<longleftrightarrow> wn_action e = FILE_ACTION_DELETED"
definition is_changed :: "native_event \<Rightarrow> bool" where "is_changed e \<longleftrightarrow> wn_action e = FILE_ACTION_MODIFIED"
definition is_renamed_old :: "native_event \<Rightarrow> bool" where
  "is_renamed_old e \<longleftrightarrow> wn_action e = FILE_ACTION_RENAMED_OLD_NAME"
definition is_renamed_new :: "native_event \<Rightarrow> bool" where
  "is_renamed_new e \<longleftrightarrow> wn_action e = FILE_ACTION_RENAMED_NEW_NAME"
definition is_removed_self :: "native_event \<Rightarrow> bool" where
  "is_removed_self e \<longleftrightarrow> wn_action e = FILE_ACTION_DELETED_SELF"

definition read_native_events :: "int + string \<times> int \<Rightarrow> int + string \<Rightarrow> string \<Rightarrow> native_event list res option" where
  "read_native_events answer final path =
     (case read_directory_changes answer final path of
        Inl e \<Rightarrow> Some (Inl e)
      | Inr (buf, nbytes) \<Rightarrow>
          map_option (\<lambda>r. bindR r (\<lambda>es. Inr (map (\<lambda>(a, n). \<lparr>wn_action = a, wn_src_path = n\<rparr>) es)))
            (parse_notify_buffer buf nbytes))"

section \<open>The emitter\<close>

text \<open>
  \<open>os.path.join\<close> of Windows for a second argument that is a relative name without a drive, as the kernel
  reports them. A path of the model is its text in UTF-8, which \<open>str.replace\<close> and \<open>os.path.join\<close> on the code points commute
  with.
\<close>

definition nt_join :: "string \<Rightarrow> string \<Rightarrow> string" where
  "nt_join a b =
     (if a = [] \<or> last a = CHR 0x5C \<or> last a = CHR 0x2F \<or> (length a = 2 \<and> a ! 1 = CHR 0x3A) then a @ b
      else a @ CHR 0x5C # b)"

definition name_of :: "text_points \<Rightarrow> string" where
  "name_of t = map char_of (concat (map utf8_char t))"

lemma name_of_text:
  assumes "list_all is_scalar t"
  shows "utf8_dec (map of_char (name_of t)) = Some t"
proof -
  have "map of_char (name_of t) = concat (map utf8_char t)"
    using assms utf8_char_bytes by (fastforce simp: name_of_def list_all_iff intro!: map_idI mod_less)
  with utf8_dec_concat [OF assms] show ?thesis by simp
qed

record win_env =
  wx_isdir :: "string \<Rightarrow> bool"
  wx_walk :: "string \<Rightarrow> walk"

record win_emitter =
  we_path :: string
  we_recursive :: bool
  we_stopped :: bool

definition nt_entries :: "walk \<Rightarrow> (bool \<times> string) list" where
  "nt_entries w = concat (map (\<lambda>(root, ds, fs).
     map (\<lambda>d. (True, nt_join root d)) ds @ map (\<lambda>f. (False, nt_join root f)) fs) w)"

definition nt_sub_moved :: "walk \<Rightarrow> string \<Rightarrow> string \<Rightarrow> fs_event list" where
  "nt_sub_moved w src dest =
     map (\<lambda>(d, p). synthetic (moved_event (if d then DirMovedEvent else FileMovedEvent)
            (renamed_path (Some src) dest p) (Some p))) (nt_entries w)"

definition nt_sub_created :: "walk \<Rightarrow> fs_event list" where
  "nt_sub_created w =
     map (\<lambda>(d, p). synthetic (event (if d then DirCreatedEvent else FileCreatedEvent) p)) (nt_entries w)"

text \<open>One native event: the events queued, \<open>last_renamed_src_path\<close> and the emitter afterwards.\<close>

definition win_step ::
  "win_env \<Rightarrow> native_event \<Rightarrow> string \<times> win_emitter \<Rightarrow> fs_event list \<times> string \<times> win_emitter" where
  "win_step env e st =
     (case st of (last_renamed, em) \<Rightarrow>
        (let path = nt_join (we_path em) (name_of (wn_src_path e)) in
         if is_renamed_old e then ([], path, em)
         else if is_renamed_new e then
           ((if wx_isdir env path
             then (if we_recursive em then nt_sub_moved (wx_walk env path) last_renamed path else []) @
                  [moved_event DirMovedEvent (Some last_renamed) (Some path)]
             else [moved_event FileMovedEvent (Some last_renamed) (Some path)]), last_renamed, em)
         else if is_changed e then
           ([event (if wx_isdir env path then DirModifiedEvent else FileModifiedEvent) path], last_renamed, em)
         else if is_added e then
           ([event (if wx_isdir env path then DirCreatedEvent else FileCreatedEvent) path] @
            (if wx_isdir env path \<and> we_recursive em then nt_sub_created (wx_walk env path) else []), last_renamed, em)
         else if is_removed e then ([event FileDeletedEvent path], last_renamed, em)
         else if is_removed_self e
         then ([event DirDeletedEvent (we_path em)], last_renamed, em\<lparr>we_stopped := True\<rparr>)
         else ([], last_renamed, em)))"

fun win_steps :: "win_env \<Rightarrow> native_event list \<Rightarrow> string \<times> win_emitter \<Rightarrow> fs_event list \<times> string \<times> win_emitter" where
  "win_steps env [] st = ([], st)"
| "win_steps env (e # es) st =
     (case win_step env e st of
        (evs, st') \<Rightarrow> (case win_steps env es st' of (rest, st'') \<Rightarrow> (evs @ rest, st'')))"

definition win_queue_events ::
  "win_env \<Rightarrow> int + string \<times> int \<Rightarrow> int + string \<Rightarrow> win_emitter \<Rightarrow> (fs_event list \<times> win_emitter) res option" where
  "win_queue_events env answer final em =
     map_option (\<lambda>r. bindR r (\<lambda>es. case win_steps env es ([], em) of (evs, _, em') \<Rightarrow> Inr (evs, em')))
       (read_native_events answer final (we_path em))"

section \<open>Properties\<close>

text \<open>The UTF-16 encoding of a text, without a byte order mark; the code points that are characters.\<close>

definition unit_bytes :: "nat \<Rightarrow> string" where
  "unit_bytes u = [char_of (u mod 256), char_of (u div 256)]"

definition point_units :: "nat \<Rightarrow> nat list" where
  "point_units c = (if c < 0x10000 then [c] else [0xD800 + (c - 0x10000) div 0x400, 0xDC00 + (c - 0x10000) mod 0x400])"

definition encode_utf16 :: "text_points \<Rightarrow> string" where
  "encode_utf16 t = concat (map unit_bytes (concat (map point_units t)))"

definition point_ok :: "nat \<Rightarrow> bool" where
  "point_ok c \<longleftrightarrow> c < 0xD800 \<or> (0xE000 \<le> c \<and> c < 0x110000)"

definition no_mark :: "text_points \<Rightarrow> bool" where
  "no_mark t \<longleftrightarrow> t = [] \<or> (hd t \<noteq> 0xFEFF \<and> hd t \<noteq> 0xFFFE)"

lemma point_units_range: "point_ok c \<Longrightarrow> u \<in> set (point_units c) \<Longrightarrow> u < 0x10000"
  by (auto simp: point_units_def point_ok_def split: if_splits)

lemma code_units_bytes: "\<forall>u\<in>set us. u < 0x10000 \<Longrightarrow> code_units (concat (map unit_bytes us)) = Some us"
proof (induction us)
  case (Cons u us)
  then have "u div 256 < 256" by auto
  with Cons show ?case by (simp add: unit_bytes_def)
qed simp

lemma join_point:
  assumes "point_ok c"
  shows "join_surrogates (point_units c @ us) = map_option (\<lambda>t. c # t) (join_surrogates us)"
proof (cases "c < 0x10000")
  case True
  with assms have "c < 0xD800 \<or> 0xE000 \<le> c" by (auto simp: point_ok_def)
  then show ?thesis by (simp add: point_units_def True)
next
  case False
  define n where "n = c - 0x10000"
  have n: "n < 0x100000" and c: "c = 0x10000 + n" using assms False by (auto simp: point_ok_def n_def)
  have "n div 0x400 < 0x400" "n mod 0x400 < 0x400" using n by auto
  then show ?thesis by (auto simp: point_units_def c add.commute)
qed

lemma join_points: "\<forall>c\<in>set t. point_ok c \<Longrightarrow> join_surrogates (concat (map point_units t)) = Some t"
  by (induction t) (simp_all add: join_point)

lemma point_units_mark:
  assumes "point_ok c" and "c \<noteq> 0xFEFF" and "c \<noteq> 0xFFFE"
  shows "\<exists>u us. point_units c = u # us \<and> u \<noteq> 0xFEFF \<and> u \<noteq> 0xFFFE"
proof (cases "c < 0x10000")
  case False
  with assms(1) have "(c - 0x10000) div 0x400 < 0x400" by (auto simp: point_ok_def)
  with False show ?thesis by (simp add: point_units_def)
qed (use assms in \<open>simp add: point_units_def\<close>)

lemma decode_encode_utf16:
  assumes "\<forall>c\<in>set t. point_ok c" and "no_mark t"
  shows "decode_utf16 (encode_utf16 t) = Inr t"
proof -
  have r: "\<forall>u\<in>set (concat (map point_units t)). u < 0x10000"
    using assms(1) point_units_range by fastforce
  note c = code_units_bytes [OF r] and j = join_points [OF assms(1)]
  show ?thesis
  proof (cases t)
    case Nil
    then show ?thesis by (simp add: decode_utf16_def encode_utf16_def)
  next
    case (Cons a as)
    then obtain u us where u: "point_units a = u # us" "u \<noteq> 0xFEFF" "u \<noteq> 0xFFFE"
      using point_units_mark [of a] assms by (auto simp: no_mark_def)
    then have "concat (map point_units t) = u # us @ concat (map point_units as)" by (simp add: Cons)
    with c j u(2,3) show ?thesis unfolding decode_utf16_def encode_utf16_def by simp
  qed
qed

text \<open>
  The kernel's encoding of a batch: every entry but the last gives the offset of the next one, with any
  padding between them.
\<close>

definition entry_bytes :: "bool \<Rightarrow> nat \<Rightarrow> nat \<Rightarrow> text_points \<Rightarrow> string" where
  "entry_bytes final k action name =
     (let raw = encode_utf16 name in
      enc32 (if final then 0 else of_nat (12 + length raw + k)) @ enc32 (of_nat action) @ enc32 (of_nat (length raw)) @
      raw @ replicate k nul)"

fun batch_bytes :: "(nat \<times> nat \<times> text_points) list \<Rightarrow> string" where
  "batch_bytes [] = []"
| "batch_bytes [(k, action, name)] = entry_bytes True k action name"
| "batch_bytes ((k, action, name) # es) = entry_bytes False k action name @ batch_bytes es"

definition entry_ok :: "nat \<times> nat \<times> text_points \<Rightarrow> bool" where
  "entry_ok x = (case x of (k, action, name) \<Rightarrow>
     action < 2 ^ 32 \<and> 12 + length (encode_utf16 name) + k < 2 ^ 32 \<and> (\<forall>c\<in>set name. point_ok c) \<and> no_mark name)"

lemma unat_of_nat_32: "n < 2 ^ 32 \<Longrightarrow> unat (of_nat n :: mask) = n"
  by (simp add: unat_of_nat)

lemma parse_entry:
  assumes "entry_ok (k, action, name)" and "0 < n"
  shows "parse_notify_buffer (entry_bytes final k action name @ rest) n =
    (if final then Some (Inr [(action, name)])
     else map_option (\<lambda>r. bindR r (\<lambda>es. Inr ((action, name) # es)))
            (parse_notify_buffer rest (n - int (12 + length (encode_utf16 name) + k))))"
proof -
  let ?len = "length (encode_utf16 name)"
  have b: "action < 2 ^ 32" "12 + ?len + k < 2 ^ 32" "?len < 2 ^ 32"
    and d: "decode_utf16 (encode_utf16 name) = Inr name"
    using assms(1) decode_encode_utf16 by (auto simp: entry_ok_def)
  note u = unat_of_nat_32 [OF b(1)] unat_of_nat_32 [OF b(2)] unat_of_nat_32 [OF b(3)]
  show ?thesis
    by (subst parse_notify_buffer.simps)
      (use assms(2) in \<open>simp add: entry_bytes_def Let_def le32_enc32 u d del: of_nat_add\<close>)
qed

lemma length_entry [simp]: "length (entry_bytes final k action name) = 12 + length (encode_utf16 name) + k"
  by (simp add: entry_bytes_def Let_def)

lemma parse_batch:
  "list_all entry_ok es \<Longrightarrow>
    parse_notify_buffer (batch_bytes es @ junk) (int (length (batch_bytes es))) = Some (Inr (map snd es))"
proof (induction es rule: batch_bytes.induct)
  case 1
  show ?case by (subst parse_notify_buffer.simps) simp
next
  case (2 k action name)
  then show ?case by (simp add: parse_entry)
next
  case (3 k action name e es)
  then show ?case by (simp add: parse_entry)
qed

lemma decode_loses_mark:
  assumes "\<forall>c\<in>set t. point_ok c"
  shows "decode_utf16 (encode_utf16 (0xFEFF # t)) = Inr t"
proof -
  have "\<forall>c\<in>set (0xFEFF # t). point_ok c" using assms by (simp add: point_ok_def)
  then have r: "\<forall>u\<in>set (concat (map point_units (0xFEFF # t))). u < 0x10000" using point_units_range by fastforce
  have "concat (map point_units (0xFEFF # t)) = 0xFEFF # concat (map point_units t)" by (simp add: point_units_def)
  with code_units_bytes [OF r] join_points [OF assms] show ?thesis
    unfolding decode_utf16_def encode_utf16_def by simp
qed

text \<open>One change of the directory, the native entries that report it, the events it should give.\<close>

datatype win_change = Added text_points | Removed text_points | Changed text_points | Renamed text_points text_points

fun change_entries :: "win_change \<Rightarrow> (nat \<times> text_points) list" where
  "change_entries (Added n) = [(FILE_ACTION_CREATED, n)]"
| "change_entries (Removed n) = [(FILE_ACTION_DELETED, n)]"
| "change_entries (Changed n) = [(FILE_ACTION_MODIFIED, n)]"
| "change_entries (Renamed old new) = [(FILE_ACTION_RENAMED_OLD_NAME, old), (FILE_ACTION_RENAMED_NEW_NAME, new)]"

definition below :: "win_env \<Rightarrow> win_emitter \<Rightarrow> string \<Rightarrow> (bool \<times> string) list" where
  "below env em p = (if wx_isdir env p \<and> we_recursive em then nt_entries (wx_walk env p) else [])"

fun change_events :: "win_env \<Rightarrow> win_emitter \<Rightarrow> win_change \<Rightarrow> fs_event list" where
  "change_events env em (Added n) =
     (let p = nt_join (we_path em) (name_of n) in
      event (if wx_isdir env p then DirCreatedEvent else FileCreatedEvent) p #
      map (\<lambda>(d, q). synthetic (event (if d then DirCreatedEvent else FileCreatedEvent) q)) (below env em p))"
| "change_events env em (Removed n) = [event FileDeletedEvent (nt_join (we_path em) (name_of n))]"
| "change_events env em (Changed n) =
     (let p = nt_join (we_path em) (name_of n) in
      [event (if wx_isdir env p then DirModifiedEvent else FileModifiedEvent) p])"
| "change_events env em (Renamed old new) =
     (let p = nt_join (we_path em) (name_of old); q = nt_join (we_path em) (name_of new) in
      map (\<lambda>(d, r). synthetic (moved_event (if d then DirMovedEvent else FileMovedEvent) (renamed_path (Some p) q r) (Some r)))
        (below env em q) @
      [moved_event (if wx_isdir env q then DirMovedEvent else FileMovedEvent) (Some p) (Some q)])"

definition native :: "nat \<times> text_points \<Rightarrow> native_event" where
  "native x = \<lparr>wn_action = fst x, wn_src_path = snd x\<rparr>"

lemmas native_kinds = is_added_def is_removed_def is_changed_def is_renamed_old_def is_renamed_new_def
  is_removed_self_def file_actions

lemma win_steps_append:
  "win_steps env (xs @ ys) st = (case win_steps env xs st of (a, st') \<Rightarrow> (case win_steps env ys st' of (b, st'') \<Rightarrow> (a @ b, st'')))"
  by (induction xs arbitrary: st) (auto split: prod.split)

lemma win_steps_change:
  "\<exists>prev'. win_steps env (map native (change_entries c)) (prev, em) = (change_events env em c, prev', em)"
  by (cases c) (auto simp: native_def win_step_def native_kinds Let_def below_def nt_sub_moved_def nt_sub_created_def)

lemma win_steps_changes:
  "\<exists>prev'. win_steps env (map native (concat (map change_entries cs))) (prev, em)
     = (concat (map (change_events env em) cs), prev', em)"
proof (induction cs arbitrary: prev)
  case (Cons c cs)
  obtain l1 where "win_steps env (map native (change_entries c)) (prev, em) = (change_events env em c, l1, em)"
    using win_steps_change by blast
  moreover obtain l2 where "win_steps env (map native (concat (map change_entries cs))) (l1, em)
     = (concat (map (change_events env em) cs), l2, em)" using Cons.IH by blast
  ultimately show ?case by (simp add: win_steps_append)
qed simp

lemma native_alt: "(\<lambda>(a, n). \<lparr>wn_action = a, wn_src_path = n\<rparr>) = native"
  by (auto simp: native_def)

lemma win_batch_queued:
  assumes "list_all entry_ok es" and "map snd es = concat (map change_entries cs)"
  shows "win_queue_events env (Inr (batch_bytes es @ junk, int (length (batch_bytes es)))) final em
    = Some (Inr (concat (map (change_events env em) cs), em))"
proof -
  obtain l where "win_steps env (map native (concat (map change_entries cs))) ([], em)
     = (concat (map (change_events env em) cs), l, em)" using win_steps_changes by blast
  then show ?thesis
    by (simp add: win_queue_events_def read_native_events_def read_directory_changes_def parse_batch [OF assms(1)]
        assms(2) native_alt)
qed

text \<open>
  C12: From the kernel's bytes to the events, for the Windows emitter: if the buffer holds the entries of a
  sequence of changes, in any alignment (the sizes fit in 32 bits) and with anything behind them, and the answers of the file
  system are the same during the batch, then exactly the events of these changes are queued, in order: each rename gets the
  old name that precedes its new one, with the synthetic events of the subtree first. The names are well-formed UTF-16
  without surrogates of their own, and none begins with U+FEFF or U+FFFE (\<open>decode_loses_mark\<close> and \<open>lone_surrogate_raises\<close> show what
  the code does otherwise); every such name reaches the events as it was encoded, whatever its code points.
\<close>
theorem winapi_batch_events:
  assumes "list_all entry_ok es" and "map snd es = concat (map change_entries cs)"
  shows "win_queue_events env (Inr (batch_bytes es @ junk, int (length (batch_bytes es)))) final em
    = Some (Inr (concat (map (change_events env em) cs), em))
    \<and> list_all (\<lambda>(k, action, name). utf8_dec (map of_char (name_of name)) = Some name) es"
proof
  have "list_all is_scalar name" if "entry_ok (k, action, name)" for k action name
    using that by (auto simp: entry_ok_def point_ok_def list_all_iff is_scalar_def is_surrogate_def)
  with assms(1) show "list_all (\<lambda>(k, action, name). utf8_dec (map of_char (name_of name)) = Some name) es"
    by (auto simp: list_all_iff name_of_text)
qed (rule win_batch_queued [OF assms])

text \<open>A name with a lone surrogate, which Windows allows, makes the whole batch raise.\<close>

lemma lone_surrogate_raises:
  "parse_notify_buffer (enc32 0 @ enc32 (of_nat FILE_ACTION_CREATED) @ enc32 2 @ unit_bytes 0xD800 @ junk) 14
     = Some (Inl UnicodeDecodeError)"
proof -
  have "decode_utf16 (unit_bytes 0xD800) = Inl UnicodeDecodeError" by (simp add: decode_utf16_def unit_bytes_def)
  moreover have "length (unit_bytes 0xD800) = 2" by (simp add: unit_bytes_def)
  ultimately show ?thesis by (subst parse_notify_buffer.simps) (simp add: Let_def le32_enc32 FILE_ACTION_CREATED_def)
qed

lemma winapi_batch_events_witness:
  "win_queue_events \<lparr>wx_isdir = (\<lambda>p. False), wx_walk = (\<lambda>p. [])\<rparr>
     (Inr (batch_bytes [(2, FILE_ACTION_RENAMED_OLD_NAME, [97]), (0, FILE_ACTION_RENAMED_NEW_NAME, [0x20AC])] @ ''x'',
           int (length (batch_bytes [(2, FILE_ACTION_RENAMED_OLD_NAME, [97]), (0, FILE_ACTION_RENAMED_NEW_NAME, [0x20AC])]))))
     (Inr []) \<lparr>we_path = ''C:'', we_recursive = True, we_stopped = False\<rparr>
   = Some (Inr ([moved_event FileMovedEvent (Some ''C:a'') (Some (''C:'' @ [CHR 0xE2, CHR 0x82, CHR 0xAC]))],
       \<lparr>we_path = ''C:'', we_recursive = True, we_stopped = False\<rparr>))"
proof -
  let ?es = "[(2, FILE_ACTION_RENAMED_OLD_NAME, [97]), (0, FILE_ACTION_RENAMED_NEW_NAME, [0x20AC])]"
  let ?env = "\<lparr>wx_isdir = (\<lambda>p. False), wx_walk = (\<lambda>p. [])\<rparr>" and ?em = "\<lparr>we_path = ''C:'', we_recursive = True, we_stopped = False\<rparr>"
  have ok: "list_all entry_ok ?es"
    by (simp add: entry_ok_def file_actions encode_utf16_def point_units_def unit_bytes_def point_ok_def no_mark_def)
  have cs: "map snd ?es = concat (map change_entries [Renamed [97] [0x20AC]])" by simp
  have chars: "char_of (97 :: nat) = CHR ''a''" "char_of (226 :: nat) = CHR 0xE2" "char_of (130 :: nat) = CHR 0x82" "char_of (172 :: nat) = CHR 0xAC"
    by code_simp+
  then have names: "name_of [97] = ''a''" "name_of [0x20AC] = [CHR 0xE2, CHR 0x82, CHR 0xAC]"
    by (simp_all add: name_of_def utf8_char_def)
  have "concat (map (change_events ?env ?em) [Renamed [97] [0x20AC]])
      = [moved_event FileMovedEvent (Some ''C:a'') (Some (''C:'' @ [CHR 0xE2, CHR 0x82, CHR 0xAC]))]"
    by (simp add: nt_join_def names below_def)
  with winapi_batch_events [OF ok cs, of ?env "''x''" "Inr []" ?em] show ?thesis by (simp only: simp_thms)
qed

text \<open>
  The end of a watch on Windows: when reading fails, an aborted read gives no events; otherwise, if the
  real path of the handle is no longer the watched one, exactly one event, the deletion of the watched
  directory, is queued and the emitter stops; if the path is unchanged, the error is raised.
\<close>
theorem winapi_root_deleted:
  "win_queue_events env (Inl e) (Inr p) em =
     Some (if e = ERROR_OPERATION_ABORTED then Inr ([], em)
           else if p = we_path em then Inl (OSError e)
           else Inr ([event DirDeletedEvent (we_path em)], em\<lparr>we_stopped := True\<rparr>))"
proof -
  have d: "decode_utf16 [CHR ''.'', nul] = Inr [46]" by (simp add: decode_utf16_def nul_def)
  have three: "replicate 3 nul = [nul, nul, nul]" by (simp add: numeral_3_eq_3)
  obtain junk where ob: "observed_path_deleted_event =
      (enc32 0 @ enc32 (of_nat FILE_ACTION_DELETED_SELF) @ enc32 2 @ CHR ''.'' # nul # nul # nul # junk, 16)"
    by (simp add: observed_path_deleted_event_def Let_def three)
  have "parse_notify_buffer (fst observed_path_deleted_event) 16 = Some (Inr [(FILE_ACTION_DELETED_SELF, [46])])"
    by (subst parse_notify_buffer.simps)
      (simp add: ob Let_def le32_enc32 FILE_ACTION_DELETED_SELF_def d)
  moreover have "snd observed_path_deleted_event = 16" by (simp add: ob)
  moreover have "parse_notify_buffer [] 0 = Some (Inr [])" by (subst parse_notify_buffer.simps) simp
  ultimately show ?thesis
    by (simp add: split_beta win_queue_events_def read_native_events_def read_directory_changes_def is_observed_path_deleted_def
        win_step_def native_kinds Let_def)
qed

end
