(* ===== verification/EmitterContract.thy ===== *)
theory EmitterContract
  imports FsEvents FsEvents2 WinApi Bricks
begin

text \<open>
  What the observers rely on in an emitter, whatever the system it listens to: a batch from the kernel that tells
  some changes makes it queue the events of exactly these changes. From this follows what reaches the handlers
  through the event queue, over many batches. The macOS and Windows emitters keep the contract.
\<close>

section \<open>The contract\<close>

text \<open>
  \<open>batch\<close> handles one batch; \<open>told s b cs\<close>: in the state \<open>s\<close>, the batch \<open>b\<close> tells the changes \<open>cs\<close>; \<open>report\<close> gives
  the events of a change, and \<open>after\<close> the state after the changes.
\<close>

locale emitter =
  fixes batch :: "'s \<Rightarrow> 'b \<Rightarrow> fs_event list \<times> 's"
    and told :: "'s \<Rightarrow> 'b \<Rightarrow> 'c list \<Rightarrow> bool"
    and report :: "'s \<Rightarrow> 'c \<Rightarrow> fs_event list"
    and after :: "'s \<Rightarrow> 'c list \<Rightarrow> 's"
  assumes batch_reports: "told s b cs \<Longrightarrow> batch s b = (concat (map (report s) cs), after s cs)"
    and report_after: "report (after s cs) = report s"
begin

primrec history :: "'s \<Rightarrow> 'b list \<Rightarrow> fs_event list \<times> 's" where
  "history s [] = ([], s)"
| "history s (b # bs) = (case batch s b of (out, s1) \<Rightarrow> (case history s1 bs of (out', s2) \<Rightarrow> (out @ out', s2)))"

primrec told_all :: "'s \<Rightarrow> ('b \<times> 'c list) list \<Rightarrow> bool" where
  "told_all s [] = True"
| "told_all s (x # xs) = (told s (fst x) (snd x) \<and> told_all (after s (snd x)) xs)"

lemma history_reports:
  "told_all s xs \<Longrightarrow> fst (history s (map fst xs)) = concat (map (report s) (concat (map snd xs)))"
proof (induction xs arbitrary: s)
  case (Cons x xs)
  then have "batch s (fst x) = (concat (map (report s) (snd x)), after s (snd x))" by (simp add: batch_reports)
  moreover have "fst (history (after s (snd x)) (map fst xs)) = concat (map (report s) (concat (map snd xs)))"
    using Cons by (simp add: report_after)
  ultimately show ?case by (auto split: prod.split)
qed simp

text \<open>
  The events of a history are put in the event queue, at any times between the fetches of the observer: what it
  fetches, and what is left, are the events of the changes in order, up to consecutive repeats.
\<close>

lemma history_delivered:
  assumes "told_all s xs" and "puts_of ops = fst (history s (map fst xs))" and "fq_run ev_key ops fq_init = (out, q)"
  shows "remdups_adj (map ev_key (out @ fq_view q))
    = remdups_adj (map ev_key (concat (map (report s) (concat (map snd xs)))))"
  using srq.run_only_drops_repeats [OF fq_init_ok(1), of ev_key ops out q] assms(2,3) history_reports [OF assms(1)]
  by (simp add: fq_run_eq fq_init_ok(2) puts_of_def srq.inputs_def)

end

section \<open>The emitters keep it\<close>

lemma fs_queue_concat: "fs_queue em (concat xss) = concat (map (fs_queue em) xss)"
  by (induction xss) (simp_all add: fs_queue_def)

text \<open>
  A batch of the macOS emitter comes with what \<open>os.stat\<close> and \<open>os.walk\<close> answer while it is handled, and with its time; a
  change goes with the same answers.
\<close>

definition fs_batch :: "fs_emitter \<Rightarrow> fs_env \<times> int \<times> native list \<Rightarrow> fs_event list \<times> fs_emitter" where
  "fs_batch em b = (case b of (env, now, ns) \<Rightarrow> fs_queue_events env now ns em)"

definition fs_told :: "fs_emitter \<Rightarrow> fs_env \<times> int \<times> native list \<Rightarrow> (fs_env \<times> fs_change) list \<Rightarrow> bool" where
  "fs_told em b xs \<longleftrightarrow> (case b of (env, now, ns) \<Rightarrow> xs = map (Pair env) (map snd xs) \<and> ns = concat (map tell (map snd xs))
     \<and> batch_ok env (fe_view em) (map snd xs)) \<and> fe_starting_state em = None"

definition fs_report :: "fs_emitter \<Rightarrow> fs_env \<times> fs_change \<Rightarrow> fs_event list" where
  "fs_report em x = fs_queue em (reported (fst x) (snd x))"

interpretation mac: emitter fs_batch fs_told fs_report "\<lambda>em xs. em\<lparr>fe_view := foldl view_after (fe_view em) (map snd xs)\<rparr>"
proof
  fix em b xs assume t: "fs_told em b xs"
  obtain env now ns where b: "b = (env, now, ns)" by (cases b)
  let ?cs = "map snd xs"
  from t have t': "xs = map (Pair env) ?cs" "ns = concat (map tell ?cs)" "batch_ok env (fe_view em) ?cs" "fe_starting_state em = None"
    by (simp_all add: fs_told_def b)
  then have s: "em\<lparr>fe_starting_state := None\<rparr> = em" by simp
  have "fs_batch em b = (fs_queue em (concat (map (reported env) ?cs)), em\<lparr>fe_view := foldl view_after (fe_view em) ?cs\<rparr>)"
    using fs_loop_batch [OF t'(3,4)] by (simp add: fs_batch_def b fs_queue_events_def s t'(2))
  moreover have "map (fs_report em) xs = map (fs_queue em) (map (reported env) ?cs)"
    by (subst t'(1)) (simp add: fs_report_def o_def)
  ultimately show "fs_batch em b = (concat (map (fs_report em) xs), em\<lparr>fe_view := foldl view_after (fe_view em) ?cs\<rparr>)"
    by (simp only: fs_queue_concat)
qed (simp add: fs_report_def fun_eq_iff)

definition f2_batch :: "fs_flags \<Rightarrow> (string \<Rightarrow> bool) \<Rightarrow> fs_queue2 \<Rightarrow> (string \<times> int \<times> int) list \<Rightarrow> fs_event list \<times> fs_queue2" where
  "f2_batch k exists s b = (case f2_queue_events exists (f2_callback k b s) of None \<Rightarrow> ([], s) | Some r \<Rightarrow> r)"

definition f2_told :: "fs_flags \<Rightarrow> fs_queue2 \<Rightarrow> (string \<times> int \<times> int) list \<Rightarrow> fs2_change list \<Rightarrow> bool" where
  "f2_told k s b cs \<longleftrightarrow> flags_ok k \<and> f2_alive s \<and> f2_queue s = [] \<and> (\<exists>n. b = tell2_all k n cs)"

interpretation mac2: emitter "f2_batch k exists" "f2_told k" "\<lambda>s c. reported2 c" "\<lambda>s cs. s"
  for k :: fs_flags and "exists" :: "string \<Rightarrow> bool"
proof
  fix s b cs assume "f2_told k s b cs"
  then obtain n where a: "flags_ok k" "f2_alive s" "f2_queue s = []" "b = tell2_all k n cs" by (auto simp: f2_told_def)
  have "natives2 k b = map (\<lambda>(p, f, i). native2_new k p f i) b" by (simp add: natives2_def)
  with a f2_loop_all [OF a(1), of "exists" n cs] show "f2_batch k exists s b = (concat (map reported2 cs), s)"
    by (simp add: f2_batch_def f2_queue_events_def f2_read_events_def f2_callback_def)
qed simp

definition win_batch :: "win_env \<Rightarrow> win_emitter \<Rightarrow> string \<Rightarrow> fs_event list \<times> win_emitter" where
  "win_batch env em b =
     (case win_queue_events env (Inr (b, int (length b))) (Inr (we_path em)) em of Some (Inr r) \<Rightarrow> r | _ \<Rightarrow> ([], em))"

definition win_told :: "win_emitter \<Rightarrow> string \<Rightarrow> win_change list \<Rightarrow> bool" where
  "win_told em b cs \<longleftrightarrow> (\<exists>es. b = batch_bytes es \<and> list_all entry_ok es \<and> map snd es = concat (map change_entries cs))"

interpretation win: emitter "win_batch env" win_told "change_events env" "\<lambda>em cs. em"
  for env :: win_env
proof
  fix em b cs assume "win_told em b cs"
  then obtain es where e: "b = batch_bytes es" "list_all entry_ok es" "map snd es = concat (map change_entries cs)"
    by (auto simp: win_told_def)
  have "win_queue_events env (Inr (batch_bytes es @ [], int (length (batch_bytes es)))) (Inr (we_path em)) em
    = Some (Inr (concat (map (change_events env em) cs), em))" by (rule win_batch_queued [OF e(2,3)])
  then show "win_batch env em b = (concat (map (change_events env em) cs), em)" by (simp add: win_batch_def e(1))
qed simp

section \<open>From the kernel to the handlers\<close>

text \<open>
  The batches that \<open>events_callback\<close> is called with, one after the other, each with its time and with what the file system
  answers meanwhile.
\<close>

primrec mac_history :: "fs_emitter \<Rightarrow> (fs_env \<times> int \<times> native list) list \<Rightarrow> fs_event list" where
  "mac_history em [] = []"
| "mac_history em (b # bs) =
     (case b of (env, now, ns) \<Rightarrow> (case fs_queue_events env now ns em of (out, em') \<Rightarrow> out @ mac_history em' bs))"

primrec mac_history_ok :: "fs_emitter \<Rightarrow> (fs_env \<times> int \<times> fs_change list) list \<Rightarrow> bool" where
  "mac_history_ok em [] = True"
| "mac_history_ok em (x # xs) = (case x of (env, now, cs) \<Rightarrow>
     batch_ok env (fe_view em) cs \<and> mac_history_ok (em\<lparr>fe_view := foldl view_after (fe_view em) cs\<rparr>) xs)"

definition told_batch :: "fs_env \<times> int \<times> fs_change list \<Rightarrow> fs_env \<times> int \<times> native list" where
  "told_batch x = (case x of (env, now, cs) \<Rightarrow> (env, now, concat (map tell cs)))"

definition batch_reports :: "fs_env \<times> int \<times> fs_change list \<Rightarrow> fs_event list" where
  "batch_reports x = (case x of (env, now, cs) \<Rightarrow> concat (map (reported env) cs))"

lemma mac_history_eq: "mac_history em bs = fst (mac.history em bs)"
  by (induction bs arbitrary: em) (auto simp: fs_batch_def split: prod.split)

lemma mac_history_told:
  "fe_starting_state em = None \<Longrightarrow> mac_history_ok em xs \<Longrightarrow>
     mac.told_all em (map (\<lambda>x. (told_batch x, map (Pair (fst x)) (snd (snd x)))) xs)"
  by (induction xs arbitrary: em) (auto simp: fs_told_def told_batch_def o_def)

lemma reports_of_told:
  "concat (map (fs_report em) (concat (map (\<lambda>x. map (Pair (fst x)) (snd (snd x))) xs))) = fs_queue em (concat (map batch_reports xs))"
proof (induction xs)
  case Nil
  then show ?case by (simp add: fs_queue_def)
next
  case (Cons x xs)
  then show ?case by (cases x) (auto simp: fs_report_def batch_reports_def fs_queue_concat o_def)
qed

text \<open>
  C10: From the kernel to the handlers on macOS. The native events of each batch tell the changes of a tree, batch after batch,
  with other answers of the file system and another time for each. While a batch is handled, what has left the tree is not
  at its path and what came into it is; a change that appears has an inode that is not known yet, an appearance told
  again one that is known; and no rename behind one across the border of the tree is of the same inode. The emitter has no
  snapshot from before its start (history is not suppressed, or the snapshot was dropped after a minute). If
  the queued events are put in the event queue at any times between the fetches of the observer, then what is fetched, and then
  still inside, are by their keys the events of all these changes in order, up to consecutive repeats; in a non-recursive
  watch, of these those that \<open>queue_event\<close> lets pass.
\<close>
theorem mac_events_delivered:
  assumes "mac_history_ok em xs" and "fe_starting_state em = None"
    and "puts_of ops = mac_history em (map told_batch xs)"
    and "fq_run ev_key ops fq_init = (out, q)"
  shows "remdups_adj (map ev_key (out @ fq_view q))
    = remdups_adj (map ev_key (filter (\<lambda>e. fe_recursive em \<or> \<not> is_recursive_event em e) (concat (map batch_reports xs))))"
  using mac.history_delivered [OF mac_history_told [OF assms(2,1)], of ops out q] assms(3,4)
  by (simp add: mac_history_eq o_def reports_of_told) (simp add: fs_queue_def)

lemma mac_events_delivered_witness:
  "remdups_adj (map ev_key (fst (fq_run ev_key [Put (event FileModifiedEvent ''/w/a''), Get, Put (event FileModifiedEvent ''/w/a''), Get,
       Put (event FileDeletedEvent ''/w/a''), Put (event DirModifiedEvent ''/w''), Get, Get] fq_init)))
     = map ev_key [event FileModifiedEvent ''/w/a'', event FileDeletedEvent ''/w/a'', event DirModifiedEvent ''/w'']"
proof -
  let ?em = "(fs_emitter_new id ''/w'' True False)\<lparr>fe_view := [7]\<rparr>"
  let ?there = "\<lparr>fx_inode = (\<lambda>p. Some 7), fx_walk = (\<lambda>p. [])\<rparr>"
  let ?gone = "\<lparr>fx_inode = (\<lambda>p. None), fx_walk = (\<lambda>p. [])\<rparr>"
  let ?xs = "[(?there, 0, [Touch False ''/w/a'' 7 False]), (?there, 3, [Touch False ''/w/a'' 7 True]), (?gone, 9, [Leave False ''/w/a'' 7])]"
  let ?ops = "[Put (event FileModifiedEvent ''/w/a''), Get, Put (event FileModifiedEvent ''/w/a''), Get,
       Put (event FileDeletedEvent ''/w/a''), Put (event DirModifiedEvent ''/w''), Get, Get]"
  have ok: "mac_history_ok ?em ?xs" "fe_starting_state ?em = None" by (simp_all add: fs_emitter_new_def)
  have d: "dirname ''/w/a'' = ''/w''" by code_simp
  have h: "mac_history ?em (map told_batch ?xs) = [event FileModifiedEvent ''/w/a'', event FileModifiedEvent ''/w/a'',
      event FileDeletedEvent ''/w/a'', event DirModifiedEvent ''/w'']"
    by (simp add: fs_emitter_new_def fs_queue_events_def fs_parts fs_queue_def told_batch_def d Let_def)
  have p: "puts_of ?ops = mac_history ?em (map told_batch ?xs)" unfolding h by (simp add: puts_of_def)
  have v: "fq_view (snd (fq_run ev_key ?ops fq_init)) = []" by code_simp
  have r: "remdups_adj (map ev_key (filter (\<lambda>e. fe_recursive ?em \<or> \<not> is_recursive_event ?em e) (concat (map batch_reports ?xs))))
      = map ev_key [event FileModifiedEvent ''/w/a'', event FileDeletedEvent ''/w/a'', event DirModifiedEvent ''/w'']"
    by code_simp
  from mac_events_delivered [OF ok p prod.collapse [symmetric]] show ?thesis by (simp only: v append_Nil2 r)
qed

end
