(* ===== verification/Tricks.thy ===== *)
theory Tricks
  imports Events
begin

text \<open>
  \<open>src/watchdog/tricks/__init__.py\<close>: the handlers that run a shell command per event and that restart a
  long-running process. \<open>string.Template.safe_substitute\<close> is modelled in full; starting, polling and
  signalling processes are parameters. The file's other tricks are a logger and a YAML text.
\<close>

section \<open>\<open>string.Template\<close>\<close>

definition ident_start :: "char \<Rightarrow> bool" where
  "ident_start c \<longleftrightarrow> (CHR ''a'' \<le> c \<and> c \<le> CHR ''z'') \<or> (CHR ''A'' \<le> c \<and> c \<le> CHR ''Z'') \<or> c = CHR ''_''"

definition ident_char :: "char \<Rightarrow> bool" where
  "ident_char c \<longleftrightarrow> ident_start c \<or> is_digit c"

lemma drop_shorter: "length (dropWhile P xs) - k \<le> Suc (length xs)" "length (dropWhile P xs) \<le> Suc (length xs)"
  using length_dropWhile_le [of P xs] by linarith+

text \<open>A delimiter that starts no placeholder stays, and so does a placeholder without a value.\<close>

function safe_substitute :: "(string \<Rightarrow> string option) \<Rightarrow> string \<Rightarrow> string" where
  "safe_substitute ctx [] = []"
| "safe_substitute ctx (d # s) =
     (if d \<noteq> CHR ''$'' then d # safe_substitute ctx s
      else case s of
        [] \<Rightarrow> [CHR ''$'']
      | c # r \<Rightarrow>
          if c = CHR ''$'' then c # safe_substitute ctx r
          else if ident_start c then
            (let name = c # takeWhile ident_char r
             in (case ctx name of None \<Rightarrow> CHR ''$'' # name | Some v \<Rightarrow> v) @ safe_substitute ctx (dropWhile ident_char r))
          else if c = CHR ''{'' \<and> r \<noteq> [] \<and> ident_start (hd r) \<and> dropWhile ident_char r \<noteq> []
            \<and> hd (dropWhile ident_char r) = CHR ''}'' then
            (let name = takeWhile ident_char r
             in (case ctx name of None \<Rightarrow> ''${'' @ name @ ''}'' | Some v \<Rightarrow> v) @
                safe_substitute ctx (tl (dropWhile ident_char r)))
          else CHR ''$'' # safe_substitute ctx s)"
  by pat_completeness auto
termination
  by (relation "measure (\<lambda>(_, s). length s)")
    (auto simp: less_Suc_eq_le drop_shorter)

declare safe_substitute.simps(2) [simp del]

section \<open>\<open>ShellCommandTrick\<close>\<close>

record shell_trick =
  tr_shell_command :: "string option"
  tr_wait_for_process :: bool
  tr_drop_during_process :: bool
  tr_process :: "nat option"

fun type_text :: "event_type \<Rightarrow> string" where
  "type_text EVENT_TYPE_MOVED = ''moved''"
| "type_text EVENT_TYPE_DELETED = ''deleted''"
| "type_text EVENT_TYPE_CREATED = ''created''"
| "type_text EVENT_TYPE_MODIFIED = ''modified''"
| "type_text EVENT_TYPE_CLOSED = ''closed''"

text \<open>\<open>str\<close> of a path that may be \<open>None\<close>.\<close>

definition path_text :: "string option \<Rightarrow> string" where
  "path_text p = (case p of None \<Rightarrow> ''None'' | Some s \<Rightarrow> s)"

definition base_context :: "fs_event \<Rightarrow> (string, string) dict" where
  "base_context e =
     [(''watch_src_path'', path_text (ev_src e)), (''watch_dest_path'', []),
      (''watch_event_type'', type_text (ev_type e)),
      (''watch_object'', if ev_is_directory e then ''directory'' else ''file'')]"

definition moved_template :: string where
  "moved_template = ''echo \"${watch_event_type} ${watch_object} from ${watch_src_path} to ${watch_dest_path}\"''"

definition other_template :: string where
  "other_template = ''echo \"${watch_event_type} ${watch_object} ${watch_src_path}\"''"

definition shell_command :: "shell_trick \<Rightarrow> fs_event \<Rightarrow> string" where
  "shell_command t e =
     (let context = base_context e in
      case tr_shell_command t of
        None \<Rightarrow>
          if has_dest e
          then safe_substitute (dget (dset ''dest_path'' (path_text (ev_dest e)) context)) moved_template
          else safe_substitute (dget context) other_template
      | Some command \<Rightarrow>
          safe_substitute (dget (if has_dest e then dset ''watch_dest_path'' (path_text (ev_dest e)) context else context))
            command)"

text \<open>
  \<open>on_any_event\<close>: the command that was run and the trick afterwards. \<open>running p\<close> is \<open>p.poll() is None\<close>;
  \<open>popen\<close> starts a shell on a command (or gives an \<open>errno\<close>).
\<close>

definition shell_on_any_event ::
  "(nat \<Rightarrow> bool) \<Rightarrow> (string \<Rightarrow> int + nat) \<Rightarrow> fs_event \<Rightarrow> shell_trick \<Rightarrow> string option \<times> shell_trick res" where
  "shell_on_any_event running popen e t =
     (if tr_drop_during_process t \<and> (case tr_process t of None \<Rightarrow> False | Some p \<Rightarrow> running p) then (None, Inr t)
      else (let command = shell_command t e in
            case popen command of
              Inl errno \<Rightarrow> (None, Inl (OSError errno))
            | Inr pid \<Rightarrow> (Some command, Inr (t\<lparr>tr_process := Some pid\<rparr>))))"

section \<open>\<open>AutoRestartTrick\<close>\<close>

text \<open>Time is in quarters of a second, the step of the waiting loop.\<close>

record restart_trick =
  rt_stop_signal :: nat
  rt_kill_after :: int
  rt_process :: "nat option"

datatype process_action = Spawn nat | Signal nat nat

text \<open>
  The waiting loop on the clock readings and polls that it makes (\<open>True\<close>: the process has ended); the
  result is whether the process has to be killed, \<open>None\<close> while the loop still runs.
\<close>

fun must_kill :: "int \<Rightarrow> (int \<times> bool) list \<Rightarrow> bool option" where
  "must_kill kill_time [] = None"
| "must_kill kill_time ((now, ended) # obs) =
     (if now < kill_time then (if ended then Some False else must_kill kill_time obs) else Some True)"

text \<open>
  \<open>signal\<close> answers whether the process group was there. An outer \<open>None\<close>: still waiting.
\<close>

definition restart_stop ::
  "(nat \<Rightarrow> nat \<Rightarrow> bool) \<Rightarrow> int \<Rightarrow> (int \<times> bool) list \<Rightarrow> restart_trick \<Rightarrow> (process_action list \<times> restart_trick) option" where
  "restart_stop signal start obs t =
     (case rt_process t of
        None \<Rightarrow> Some ([], t)
      | Some p \<Rightarrow>
          if \<not> signal p (rt_stop_signal t) then Some ([], t\<lparr>rt_process := None\<rparr>)
          else map_option (\<lambda>kill. ([Signal p (rt_stop_signal t)] @ (if kill \<and> signal p 9 then [Signal p 9] else []),
                                  t\<lparr>rt_process := None\<rparr>))
                 (must_kill (start + rt_kill_after t) obs))"

text \<open>\<open>spawned\<close> is what \<open>Popen\<close> answers: the \<open>errno\<close> of its \<open>OSError\<close>, or the new process.\<close>

definition restart_start :: "int + nat \<Rightarrow> restart_trick \<Rightarrow> process_action list \<times> restart_trick \<times> py_error option" where
  "restart_start spawned t =
     (case spawned of
        Inl errno \<Rightarrow> ([], t, Some (OSError errno))
      | Inr pid \<Rightarrow> ([Spawn pid], t\<lparr>rt_process := Some pid\<rparr>, None))"

definition restart_on_any_event ::
  "(nat \<Rightarrow> nat \<Rightarrow> bool) \<Rightarrow> int \<Rightarrow> (int \<times> bool) list \<Rightarrow> int + nat \<Rightarrow> restart_trick
     \<Rightarrow> (process_action list \<times> restart_trick \<times> py_error option) option" where
  "restart_on_any_event signal start obs spawned t =
     (case restart_stop signal start obs t of
        None \<Rightarrow> None
      | Some (as, t') \<Rightarrow> (case restart_start spawned t' of (bs, t'', e) \<Rightarrow> Some (as @ bs, t'', e)))"

section \<open>Properties\<close>

lemma substitute_literal: "CHR ''$'' \<notin> set l \<Longrightarrow> safe_substitute ctx (l @ r) = l @ safe_substitute ctx r"
  by (induction l) (auto simp: safe_substitute.simps(2))

definition is_name :: "string \<Rightarrow> bool" where
  "is_name n \<longleftrightarrow> n \<noteq> [] \<and> ident_start (hd n) \<and> list_all ident_char n"

lemma substitute_braced:
  assumes "is_name n" and "ctx n = Some v"
  shows "safe_substitute ctx (CHR ''$'' # CHR ''{'' # n @ CHR ''}'' # r) = v @ safe_substitute ctx r"
proof -
  have n: "\<forall>x\<in>set n. ident_char x" "\<not> ident_char (CHR ''}'')"
    using assms(1) by (simp_all add: is_name_def list_all_iff ident_char_def ident_start_def is_digit_def)
  have tw: "takeWhile ident_char (n @ CHR ''}'' # r) = n" "dropWhile ident_char (n @ CHR ''}'' # r) = CHR ''}'' # r"
    using n by (intro span_unique; simp)+
  have h: "hd (n @ CHR ''}'' # r) = hd n" using assms(1) by (simp add: is_name_def)
  have b: "\<not> ident_start (CHR ''{'')" by (simp add: ident_start_def)
  show ?thesis
    using assms(1) n(2)
    by (simp add: safe_substitute.simps(2) tw h b is_name_def assms(2) del: dropWhile_eq_Nil_conv)
qed

lemma substitute_tail: "CHR ''$'' \<notin> set l \<Longrightarrow> safe_substitute ctx l = l"
  using substitute_literal [of l ctx "[]"] by simp

lemma watch_names:
  "is_name ''watch_src_path''" "is_name ''watch_dest_path''" "is_name ''watch_event_type''" "is_name ''watch_object''"
  by (simp_all add: is_name_def ident_start_def ident_char_def is_digit_def)

lemma substitute_literal_braced:
  assumes "CHR ''$'' \<notin> set l" and "is_name n" and "ctx n = Some v"
  shows "safe_substitute ctx (l @ CHR ''$'' # CHR ''{'' # n @ CHR ''}'' # r) = l @ v @ safe_substitute ctx r"
  by (simp add: substitute_literal [OF assms(1)] substitute_braced [of n ctx v, OF assms(2,3)])

text \<open>
  The default shell command. Without a command of the user, the command that is run for an event
  quotes its type, object and source verbatim. For a moved event it ends in \<open>to\<close> with an empty destination,
  whatever the destination is: the template names \<open>watch_dest_path\<close>, but the handler stores it under
  \<open>dest_path\<close>. A template of the user does get \<open>watch_dest_path\<close>.
\<close>
theorem shell_default_command:
  "shell_command (t\<lparr>tr_shell_command := None\<rparr>) e =
     ''echo \"'' @ type_text (ev_type e) @ '' '' @ (if ev_is_directory e then ''directory'' else ''file'') @
     (if has_dest e then '' from '' @ path_text (ev_src e) @ '' to \"'' else '' '' @ path_text (ev_src e) @ ''\"'')
   \<and> shell_command (t\<lparr>tr_shell_command := Some ''${watch_dest_path}''\<rparr>) e =
       (if has_dest e then path_text (ev_dest e) else [])"
proof -
  define obj where "obj = (if ev_is_directory e then ''directory'' else ''file'')"
  let ?c = "base_context e"
  let ?m = "dset ''dest_path'' (path_text (ev_dest e)) ?c"
  have m: "moved_template = ''echo \"'' @ ''${'' @ ''watch_event_type'' @ ''}'' @ '' '' @ ''${'' @ ''watch_object'' @ ''}'' @
      '' from '' @ ''${'' @ ''watch_src_path'' @ ''}'' @ '' to '' @ CHR ''$'' # CHR ''{'' # ''watch_dest_path'' @ CHR ''}'' # ''\"''"
    by (simp add: moved_template_def)
  have o: "other_template = ''echo \"'' @ ''${'' @ ''watch_event_type'' @ ''}'' @ '' '' @ ''${'' @ ''watch_object'' @ ''}'' @
      '' '' @ ''${'' @ ''watch_src_path'' @ ''}'' @ ''\"''"
    by (simp add: other_template_def)
  have look: "dget ?c ''watch_event_type'' = Some (type_text (ev_type e))" "dget ?c ''watch_object'' = Some obj"
    "dget ?c ''watch_src_path'' = Some (path_text (ev_src e))" "dget ?c ''watch_dest_path'' = Some []"
    by (simp_all add: base_context_def obj_def)
  then have lookm: "dget ?m ''watch_event_type'' = Some (type_text (ev_type e))" "dget ?m ''watch_object'' = Some obj"
    "dget ?m ''watch_src_path'' = Some (path_text (ev_src e))" "dget ?m ''watch_dest_path'' = Some []"
    by simp_all
  have s: "safe_substitute ctx ''\"'' = ''\"''" for ctx by (rule substitute_tail) simp
  have last: "safe_substitute (dget ?m) ('' to '' @ CHR ''$'' # CHR ''{'' # ''watch_dest_path'' @ CHR ''}'' # ''\"'') = '' to \"''"
    using substitute_literal_braced [of "'' to ''" "''watch_dest_path''" "dget ?m" "[]" "''\"''", OF _ watch_names(2) lookm(4)]
    by (simp add: s)
  have moved: "safe_substitute (dget ?m) moved_template =
      ''echo \"'' @ type_text (ev_type e) @ '' '' @ obj @ '' from '' @ path_text (ev_src e) @ '' to \"''"
    using substitute_literal_braced [of "''echo \"''" "''watch_event_type''" "dget ?m", OF _ watch_names(3) lookm(1)]
      substitute_literal_braced [of "'' ''" "''watch_object''" "dget ?m", OF _ watch_names(4) lookm(2)]
      substitute_literal_braced [of "'' from ''" "''watch_src_path''" "dget ?m", OF _ watch_names(1) lookm(3)] last
    by (simp add: m)
  have other: "safe_substitute (dget ?c) other_template =
      ''echo \"'' @ type_text (ev_type e) @ '' '' @ obj @ '' '' @ path_text (ev_src e) @ ''\"''"
    using substitute_literal_braced [of "''echo \"''" "''watch_event_type''" "dget ?c", OF _ watch_names(3) look(1)]
      substitute_literal_braced [of "'' ''" "''watch_object''" "dget ?c", OF _ watch_names(4) look(2)]
      substitute_literal_braced [of "'' ''" "''watch_src_path''" "dget ?c", OF _ watch_names(1) look(3)]
    by (simp add: o s)
  have user: "safe_substitute ctx ''${watch_dest_path}'' = v" if "ctx ''watch_dest_path'' = Some v" for ctx v
    using substitute_braced [of "''watch_dest_path''" ctx v "[]", OF watch_names(2) that] by simp
  have du: "dget (dset ''watch_dest_path'' (path_text (ev_dest e)) ?c) ''watch_dest_path'' = Some (path_text (ev_dest e))"
    by simp
  show ?thesis
    using moved other user [of "dget ?c" "[]", OF look(4)] user [of "dget (dset ''watch_dest_path'' (path_text (ev_dest e)) ?c)", OF du]
    by (simp add: shell_command_def Let_def obj_def del: dget_dset)
qed

lemma must_kill_ends:
  "\<exists>x\<in>set obs. kill_time \<le> fst x \<Longrightarrow> \<exists>b. must_kill kill_time obs = Some b"
proof (induction obs)
  case (Cons x obs)
  then show ?case by (cases x; cases "kill_time \<le> fst x"; cases "snd x") auto
qed simp

lemma must_kill_False:
  "must_kill kill_time obs = Some False \<Longrightarrow> \<exists>x\<in>set obs. fst x < kill_time \<and> snd x"
  by (induction obs) (auto split: if_splits)

text \<open>
  C38: A restart replaces the process. If the clock passes the deadline at one of the readings, the waiting loop ends. A process that was
  running before was first sent the stop signal, unless its group was gone; it was then also killed unless it was seen to end before the
  deadline, or its group was gone by then; and it is forgotten. Then, as the last action, one new process is started and remembered; or \<open>Popen\<close> fails, its
  \<open>OSError\<close> comes out of the handler, and there is no process.
\<close>
theorem restart_replaces_process:
  assumes "\<exists>x\<in>set obs. start + rt_kill_after t \<le> fst x"
  shows "\<exists>acts. restart_on_any_event signal start obs spawned t = Some (case spawned of
           Inr pid \<Rightarrow> (acts @ [Spawn pid], t\<lparr>rt_process := Some pid\<rparr>, None)
         | Inl errno \<Rightarrow> (acts, t\<lparr>rt_process := None\<rparr>, Some (OSError errno)))
    \<and> (case rt_process t of
         None \<Rightarrow> acts = []
       | Some p \<Rightarrow>
           if signal p (rt_stop_signal t)
           then acts = [Signal p (rt_stop_signal t), Signal p 9]
             \<or> (acts = [Signal p (rt_stop_signal t)]
                 \<and> (\<not> signal p 9 \<or> (\<exists>x\<in>set obs. fst x < start + rt_kill_after t \<and> snd x)))
           else acts = [])"
proof (cases "rt_process t")
  case None
  then have "t\<lparr>rt_process := None\<rparr> = t" by simp
  with None show ?thesis by (auto simp: restart_on_any_event_def restart_stop_def restart_start_def split: sum.split)
next
  case (Some p)
  obtain b where b: "must_kill (start + rt_kill_after t) obs = Some b" using must_kill_ends [OF assms] by blast
  show ?thesis
    using Some b must_kill_False [of "start + rt_kill_after t" obs]
    by (cases b) (auto simp: restart_on_any_event_def restart_stop_def restart_start_def split: sum.split)
qed

lemma restart_replaces_process_witness:
  "restart_on_any_event (\<lambda>p s. True) 0 [(0, False), (1, False), (40, False)] (Inr 8) \<lparr>rt_stop_signal = 2, rt_kill_after = 40, rt_process = Some 7\<rparr>
     = Some ([Signal 7 2, Signal 7 9, Spawn 8], \<lparr>rt_stop_signal = 2, rt_kill_after = 40, rt_process = Some 8\<rparr>, None)"
  using restart_replaces_process
    [of "[(0, False), (1, False), (40, False)]" 0 "\<lparr>rt_stop_signal = 2, rt_kill_after = 40, rt_process = Some 7\<rparr>" "\<lambda>p s. True" "Inr 8"]
  by auto

end
