(* ===== verification/Glob.thy ===== *)
theory Glob
  imports PyText
begin

text \<open>
  \<open>src/globmatch\<close>: the translation of glob patterns to regular expressions and matching with them, on a
  POSIX system (one separator, \<open>normcase\<close> is the identity). A regular expression is its syntax tree;
  \<open>rx_text\<close> is the text that the code assembles, and \<open>rx_ends\<close> what the module \<open>re\<close> makes of it (with
  the flag \<open>s\<close>, from the start of the text). Patterns are strings; the cache is left out.
\<close>

section \<open>Paths\<close>

definition fix_path_for_globmatch :: "string \<Rightarrow> string" where
  "fix_path_for_globmatch p = ''start'' @ sep # lstrip_while (\<lambda>c. c = sep) p"

lemma dropWhile_shorter: "dropWhile P xs = xs \<or> length (dropWhile P xs) < length xs"
  using length_dropWhile_le [of P "tl xs"] by (cases xs) (auto simp: less_Suc_eq_le)

lemma rstrip_shorter: "rstrip_while P xs = xs \<or> length (rstrip_while P xs) < length xs"
  using dropWhile_shorter [of P "rev xs"] by (auto simp: rstrip_while_def)

lemma path_head_shorter: "path_head p = p \<or> length (path_head p) < length p"
  using dropWhile_shorter [of "\<lambda>c. c \<noteq> sep" "rev p"] by (auto simp: path_head_def)

lemma dirname_shorter: "dirname p = p \<or> length (dirname p) < length p"
  using path_head_shorter [of p] rstrip_shorter [of "\<lambda>c. c = sep" "path_head p"]
  by (auto simp: dirname_def Let_def)

lemma dirname_self: "dirname p = p \<Longrightarrow> path_tail p = []"
proof -
  assume d: "dirname p = p"
  have "length (dirname p) \<le> length (path_head p)"
    using rstrip_shorter [of "\<lambda>c. c = sep" "path_head p"] by (auto simp: dirname_def Let_def)
  moreover have "length (path_head p) + length (path_tail p) = length p"
    using path_head_tail [of p] by (metis length_append)
  ultimately have "length (path_tail p) = 0" unfolding d by linarith
  then show ?thesis by simp
qed

lemma explode_shorter:
  assumes "(head, tail) = path_split p" and "head \<noteq> [] \<and> (tail = [] \<longrightarrow> head \<noteq> p)"
  shows "length head < length p"
proof -
  have h: "head = dirname p" "tail = path_tail p" using assms(1) by (simp_all add: path_split_def)
  then have "dirname p \<noteq> p" using assms(2) dirname_self [of p] by metis
  then show ?thesis using h(1) dirname_shorter [of p] by metis
qed

function iexplode_path :: "string \<Rightarrow> string list" where
  "iexplode_path p =
     (case path_split p of (head, tail) \<Rightarrow>
        if head = [] \<or> (tail = [] \<and> head = p)
        then (if head \<noteq> [] then [head] else []) @ (if tail \<noteq> [] \<or> head = [] then [tail] else [])
        else iexplode_path head @ [tail])"
  by pat_completeness auto
termination
  by (relation "measure length") (simp_all add: explode_shorter)

declare iexplode_path.simps [simp del]

section \<open>Regular expressions\<close>

text \<open>
  One character: any, a separator, none, a literal, or a class with its characters (a pair is a range) and
  whether it is negated.
\<close>

datatype rx_char = AnyChar | IsSep | NotSep | Lit char | Cls bool string

text \<open>
  \<open>Many\<close>, \<open>Some1\<close> and \<open>Maybe\<close> are \<open>*\<close>, \<open>+\<close> and \<open>?\<close> on one character; \<open>AtStart\<close> is
  \<open>((?<=([/]))|(?<=(\A)))\<close>; \<open>Tail\<close> is \<open>([/]?.*)?\<close>.
\<close>

datatype rx = One rx_char | Many rx_char | Some1 rx_char | Maybe rx_char | AtStart | Tail

definition double_start_re :: "rx list" where
  "double_start_re = [Many AnyChar, AtStart]"

text \<open>The text of an expression; \<open>re.escape\<close> puts a backslash before special characters.\<close>

definition re_escape :: "char \<Rightarrow> string" where
  "re_escape c = (if c \<in> set ''()[]{}?*+-|^$.&~# '' \<or> of_char c \<in> {92, 9, 10, 11, 12, 13 :: nat}
     then [CHR 0x5C, c] else [c])"

definition double_backslashes :: "string \<Rightarrow> string" where
  "double_backslashes s = concat (map (\<lambda>c. if c = CHR 0x5C then [c, c] else [c]) s)"

fun rx_char_text :: "rx_char \<Rightarrow> string" where
  "rx_char_text AnyChar = ''.''"
| "rx_char_text IsSep = ''[/]''"
| "rx_char_text NotSep = ''[^/]''"
| "rx_char_text (Lit c) = re_escape c"
| "rx_char_text (Cls negated s) =
     ''['' @ (if negated then ''^'' else if s \<noteq> [] \<and> hd s = CHR ''^'' then [CHR 0x5C] else []) @
     double_backslashes s @ '']''"

fun rx_text1 :: "rx \<Rightarrow> string" where
  "rx_text1 (One p) = rx_char_text p"
| "rx_text1 (Many p) = rx_char_text p @ ''*''"
| "rx_text1 (Some1 p) = rx_char_text p @ ''+''"
| "rx_text1 (Maybe p) = rx_char_text p @ ''?''"
| "rx_text1 AtStart = ''((?<=([/]))|(?<=('' @ [CHR 0x5C] @ ''A)))''"
| "rx_text1 Tail = ''([/]?.*)?''"

definition rx_text :: "rx list \<Rightarrow> string" where
  "rx_text r = ''(?s:'' @ concat (map rx_text1 r) @ '')'' @ [CHR 0x5C] @ ''Z''"

section \<open>The translation\<close>

text \<open>
  The characters between \<open>[\<close> and its \<open>]\<close> and what follows, for the text after \<open>[\<close>: a leading \<open>!\<close> and
  then a leading \<open>]\<close> belong to the class.
\<close>

definition class_span :: "string \<Rightarrow> (string \<times> string) option" where
  "class_span s =
     (let (a, s1) = (if s \<noteq> [] \<and> hd s = CHR ''!'' then (''!'', tl s) else ([], s));
          (b, s2) = (if s1 \<noteq> [] \<and> hd s1 = CHR '']'' then ('']'', tl s1) else ([], s1));
          c = takeWhile (\<lambda>x. x \<noteq> CHR '']'') s2
      in (case dropWhile (\<lambda>x. x \<noteq> CHR '']'') s2 of [] \<Rightarrow> None | _ # r \<Rightarrow> Some (a @ b @ c, r)))"

definition class_rx :: "string \<Rightarrow> rx_char" where
  "class_rx stuff = (if hd stuff = CHR ''!'' then Cls True (tl stuff) else Cls False stuff)"

lemma class_span_shorter: "class_span s = Some (x, r) \<Longrightarrow> length r < length s"
proof -
  have d: "dropWhile P t = y # ys \<Longrightarrow> length ys < length t" for P :: "char \<Rightarrow> bool" and t y ys
    using length_dropWhile_le [of P t] by simp
  show "class_span s = Some (x, r) \<Longrightarrow> length r < length s"
    by (auto simp: class_span_def Let_def length_tl dest!: d split: if_splits list.splits)
qed

function translate_part :: "string \<Rightarrow> rx list" where
  "translate_part [] = []"
| "translate_part (c # s) =
     (if c = CHR ''*'' then Many NotSep # translate_part s
      else if c = CHR ''?'' then Maybe NotSep # translate_part s
      else if c = CHR ''['' then
        (case class_span s of
           None \<Rightarrow> One (Lit (CHR ''['')) # translate_part s
         | Some (stuff, r) \<Rightarrow> One (class_rx stuff) # translate_part r)
      else One (Lit c) # translate_part s)"
  by pat_completeness auto
termination
  by (relation "measure length") (auto dest: class_span_shorter)

definition translate_glob_part :: "string \<Rightarrow> rx list" where
  "translate_glob_part pat = (if pat = ''**'' then double_start_re else translate_part pat)"

fun join_translated :: "bool \<Rightarrow> rx list list \<Rightarrow> rx list" where
  "join_translated subentries [] = []"
| "join_translated subentries [p] =
     (if p = double_start_re then [Some1 AnyChar, Tail]
      else if subentries then p @ [Tail]
      else p @ [Maybe IsSep])"
| "join_translated subentries (p # q # ps) =
     (if p = double_start_re then p else p @ [One IsSep]) @ join_translated subentries (q # ps)"

definition translate_glob :: "bool \<Rightarrow> string \<Rightarrow> rx list" where
  "translate_glob subentries pat = join_translated subentries (map translate_glob_part (iexplode_path pat))"

section \<open>Matching\<close>

text \<open>The ranges of a class; \<open>None\<close> for a bad one, which \<open>re.compile\<close> refuses.\<close>

fun class_ranges :: "string \<Rightarrow> (char \<times> char) list option" where
  "class_ranges [] = Some []"
| "class_ranges [a] = Some [(a, a)]"
| "class_ranges (a # b # s) =
     (if b = CHR ''-'' then
        (case s of
           [] \<Rightarrow> Some [(a, a), (b, b)]
         | c # s' \<Rightarrow> if c < a then None else map_option (\<lambda>rs. (a, c) # rs) (class_ranges s'))
      else map_option (\<lambda>rs. (a, a) # rs) (class_ranges (b # s)))"

fun rx_char_ok :: "rx_char \<Rightarrow> bool" where
  "rx_char_ok (Cls negated s) = (class_ranges s \<noteq> None)"
| "rx_char_ok _ = True"

fun rx_ok :: "rx \<Rightarrow> bool" where
  "rx_ok (One p) = rx_char_ok p"
| "rx_ok (Many p) = rx_char_ok p"
| "rx_ok (Some1 p) = rx_char_ok p"
| "rx_ok (Maybe p) = rx_char_ok p"
| "rx_ok _ = True"

fun accepts :: "rx_char \<Rightarrow> char \<Rightarrow> bool" where
  "accepts AnyChar c = True"
| "accepts IsSep c = (c = sep)"
| "accepts NotSep c = (c \<noteq> sep)"
| "accepts (Lit d) c = (c = d)"
| "accepts (Cls negated s) c =
     (list_ex (\<lambda>(a, b). a \<le> c \<and> c \<le> b) (case class_ranges s of None \<Rightarrow> [] | Some rs \<Rightarrow> rs) \<noteq> negated)"

text \<open>
  A position: whether it is at the start of the text or after a separator, and the text from there on.
  \<open>rx_ends\<close> gives the positions where an expression can end.
\<close>

type_synonym position = "bool \<times> string"

fun one_ends :: "rx_char \<Rightarrow> position \<Rightarrow> position list" where
  "one_ends p (b, []) = []"
| "one_ends p (b, c # s) = (if accepts p c then [(c = sep, s)] else [])"

fun many_ends :: "rx_char \<Rightarrow> bool \<Rightarrow> string \<Rightarrow> position list" where
  "many_ends p b [] = [(b, [])]"
| "many_ends p b (c # s) = (b, c # s) # (if accepts p c then many_ends p (c = sep) s else [])"

fun rx_ends :: "rx \<Rightarrow> position \<Rightarrow> position list" where
  "rx_ends (One p) x = one_ends p x"
| "rx_ends (Many p) (b, s) = many_ends p b s"
| "rx_ends (Some1 p) x = concat (map (\<lambda>(b, s). many_ends p b s) (one_ends p x))"
| "rx_ends (Maybe p) x = x # one_ends p x"
| "rx_ends AtStart (b, s) = (if b then [(b, s)] else [])"
| "rx_ends Tail (b, s) = (b, s) # concat (map (\<lambda>(b', s'). many_ends AnyChar b' s') ((b, s) # one_ends IsSep (b, s)))"

text \<open>The whole expression is anchored at the end by \<open>\Z\<close>.\<close>

fun seq_match :: "rx list \<Rightarrow> position \<Rightarrow> bool" where
  "seq_match [] (b, s) = (s = [])"
| "seq_match (r # rs) x = list_ex (seq_match rs) (rx_ends r x)"

definition compile_pattern :: "bool \<Rightarrow> string \<Rightarrow> (string \<Rightarrow> bool) res" where
  "compile_pattern subentries pat =
     (let r = translate_glob subentries pat
      in if list_all rx_ok r then Inr (\<lambda>s. seq_match r (True, s)) else Inl PlainException)"

fun match_globs :: "bool \<Rightarrow> string \<Rightarrow> string list \<Rightarrow> bool res" where
  "match_globs subentries path [] = Inr False"
| "match_globs subentries path (g # gs) =
     bindR (compile_pattern subentries g) (\<lambda>matcher.
       if matcher path then Inr True else match_globs subentries path gs)"

definition glob_match :: "bool \<Rightarrow> string \<Rightarrow> string list \<Rightarrow> bool res" where
  "glob_match subentries path globs =
     match_globs subentries (fix_path_for_globmatch path) (map fix_path_for_globmatch globs)"

section \<open>What the expressions match\<close>

definition after :: "bool \<Rightarrow> string \<Rightarrow> bool" where
  "after b u = (if u = [] then b else last u = sep)"

lemma after_Nil [simp]: "after b [] = b"
  by (simp add: after_def)

lemma after_append [simp]: "after (after b u) v = after b (u @ v)"
  by (simp add: after_def)

lemma after_sep [simp]: "after b (u @ [sep])"
  by (simp add: after_def)

lemma after_Cons: "after b (c # u) = after (c = sep) u"
  by (simp add: after_def)

fun eats :: "rx \<Rightarrow> bool \<Rightarrow> string \<Rightarrow> bool" where
  "eats (One p) b u = (\<exists>c. u = [c] \<and> accepts p c)"
| "eats (Many p) b u = list_all (accepts p) u"
| "eats (Some1 p) b u = (u \<noteq> [] \<and> list_all (accepts p) u)"
| "eats (Maybe p) b u = (u = [] \<or> (\<exists>c. u = [c] \<and> accepts p c))"
| "eats AtStart b u = (u = [] \<and> b)"
| "eats Tail b u = True"

fun eats_all :: "rx list \<Rightarrow> bool \<Rightarrow> string \<Rightarrow> bool" where
  "eats_all [] b s = (s = [])"
| "eats_all (r # rs) b s = (\<exists>u v. s = u @ v \<and> eats r b u \<and> eats_all rs (after b u) v)"

lemma one_ends_iff: "(b', v) \<in> set (one_ends p (b, s)) \<longleftrightarrow> (\<exists>c. s = c # v \<and> accepts p c \<and> b' = (c = sep))"
  by (cases s) auto

lemma many_ends_iff:
  "(b', v) \<in> set (many_ends p b s) \<longleftrightarrow> (\<exists>u. s = u @ v \<and> b' = after b u \<and> list_all (accepts p) u)"
proof (induction s arbitrary: b)
  case (Cons c s)
  show ?case
  proof
    assume "(b', v) \<in> set (many_ends p b (c # s))"
    then consider "b' = b" "v = c # s" | "accepts p c" "(b', v) \<in> set (many_ends p (c = sep) s)"
      by (auto split: if_splits)
    then show "\<exists>u. c # s = u @ v \<and> b' = after b u \<and> list_all (accepts p) u"
    proof cases
      case 1 then show ?thesis by (intro exI [of _ "[]"]) simp
    next
      case 2
      with Cons.IH obtain u where "s = u @ v" "b' = after (c = sep) u" "list_all (accepts p) u" by blast
      with 2 show ?thesis by (intro exI [of _ "c # u"]) (simp add: after_Cons)
    qed
  next
    assume "\<exists>u. c # s = u @ v \<and> b' = after b u \<and> list_all (accepts p) u"
    then obtain u where u: "c # s = u @ v" "b' = after b u" "list_all (accepts p) u" by blast
    show "(b', v) \<in> set (many_ends p b (c # s))"
    proof (cases u)
      case (Cons d u')
      with u have "s = u' @ v \<and> b' = after (c = sep) u' \<and> list_all (accepts p) u'" "accepts p c"
        by (auto simp: after_Cons)
      then show ?thesis using Cons.IH [of "c = sep"] by auto
    qed (use u in auto)
  qed
qed auto

lemma rx_ends_One:
  "(b', v) \<in> set (one_ends p (b, s)) \<longleftrightarrow> (\<exists>u. s = u @ v \<and> b' = after b u \<and> (\<exists>c. u = [c] \<and> accepts p c))"
proof (cases s)
  case (Cons c s')
  have "after b [c] = (c = sep)" by (simp add: after_Cons)
  with Cons show ?thesis by (auto split: if_splits)
qed simp

lemma rx_ends_Some1:
  "(b', v) \<in> set (rx_ends (Some1 p) (b, s)) \<longleftrightarrow> (\<exists>u. s = u @ v \<and> b' = after b u \<and> u \<noteq> [] \<and> list_all (accepts p) u)"
proof (cases s)
  case (Cons c s')
  have "(b', v) \<in> set (rx_ends (Some1 p) (b, s)) \<longleftrightarrow> accepts p c \<and> (b', v) \<in> set (many_ends p (c = sep) s')"
    by (simp add: Cons)
  also have "\<dots> \<longleftrightarrow> (\<exists>u. s = (c # u) @ v \<and> b' = after b (c # u) \<and> list_all (accepts p) (c # u))"
    unfolding many_ends_iff by (auto simp: Cons after_Cons)
  also have "\<dots> \<longleftrightarrow> (\<exists>u. s = u @ v \<and> b' = after b u \<and> u \<noteq> [] \<and> list_all (accepts p) u)"
  proof
    assume "\<exists>u. s = u @ v \<and> b' = after b u \<and> u \<noteq> [] \<and> list_all (accepts p) u"
    then obtain w where w: "s = w @ v" "b' = after b w" "w \<noteq> []" "list_all (accepts p) w" by blast
    then obtain u where "w = c # u" using Cons by (cases w) auto
    with w show "\<exists>u. s = (c # u) @ v \<and> b' = after b (c # u) \<and> list_all (accepts p) (c # u)" by blast
  qed blast
  finally show ?thesis .
qed simp

lemma rx_ends_Tail: "(b', v) \<in> set (rx_ends Tail (b, s)) \<longleftrightarrow> (\<exists>u. s = u @ v \<and> b' = after b u)"
proof
  assume "\<exists>u. s = u @ v \<and> b' = after b u"
  then have "(b', v) \<in> set (many_ends AnyChar b s)" unfolding many_ends_iff by (simp add: list_all_iff)
  then show "(b', v) \<in> set (rx_ends Tail (b, s))" by simp
next
  assume "(b', v) \<in> set (rx_ends Tail (b, s))"
  then consider "(b', v) = (b, s)" | "(b', v) \<in> set (many_ends AnyChar b s)"
    | x y where "(x, y) \<in> set (one_ends IsSep (b, s))" "(b', v) \<in> set (many_ends AnyChar x y)"
    by auto
  then show "\<exists>u. s = u @ v \<and> b' = after b u"
  proof cases
    case 1 then show ?thesis by (intro exI [of _ "[]"]) simp
  next
    case 2 then show ?thesis unfolding many_ends_iff by blast
  next
    case 3
    from 3(2) obtain u where u: "y = u @ v" "b' = after x u" unfolding many_ends_iff by blast
    from 3(1) obtain c where "s = c # y" "x = (c = sep)" unfolding one_ends_iff by blast
    with u show ?thesis by (intro exI [of _ "c # u"]) (simp add: after_Cons)
  qed
qed

lemma rx_ends_iff: "(b', v) \<in> set (rx_ends r (b, s)) \<longleftrightarrow> (\<exists>u. s = u @ v \<and> b' = after b u \<and> eats r b u)"
proof (cases r)
  case (One p)
  show ?thesis unfolding One rx_ends.simps eats.simps by (rule rx_ends_One)
next
  case (Many p)
  show ?thesis unfolding Many rx_ends.simps eats.simps by (rule many_ends_iff)
next
  case (Some1 p)
  show ?thesis unfolding Some1 eats.simps by (rule rx_ends_Some1)
next
  case (Maybe p)
  have "(b', v) \<in> set (rx_ends r (b, s)) \<longleftrightarrow> (b' = b \<and> v = s) \<or> (b', v) \<in> set (one_ends p (b, s))"
    by (auto simp: Maybe)
  then show ?thesis unfolding Maybe rx_ends_One eats.simps by (metis after_Nil append_Nil)
next
  case AtStart
  have "(b', v) \<in> set (rx_ends r (b, s)) \<longleftrightarrow> b \<and> b' = b \<and> v = s" by (auto simp: AtStart)
  then show ?thesis unfolding AtStart eats.simps by (metis after_Nil append_Nil)
next
  case Tail
  show ?thesis unfolding Tail rx_ends_Tail by simp
qed

lemma seq_match_eats: "seq_match rs (b, s) = eats_all rs b s"
proof (induction rs arbitrary: b s)
  case (Cons r rs)
  have "seq_match (r # rs) (b, s) \<longleftrightarrow> (\<exists>b' v. (b', v) \<in> set (rx_ends r (b, s)) \<and> eats_all rs b' v)"
    using Cons.IH by (auto simp: list_ex_iff)
  then show ?case by (auto simp: rx_ends_iff)
qed simp

lemma eats_all_append: "eats_all (xs @ ys) b s \<longleftrightarrow> (\<exists>u v. s = u @ v \<and> eats_all xs b u \<and> eats_all ys (after b u) v)"
proof (induction xs arbitrary: b s)
  case (Cons x xs)
  show ?case
  proof
    assume "eats_all ((x # xs) @ ys) b s"
    then obtain u v w where "s = u @ v @ w" "eats x b u" "eats_all xs (after b u) v" "eats_all ys (after b (u @ v)) w"
      by (auto simp: Cons.IH)
    then show "\<exists>u v. s = u @ v \<and> eats_all (x # xs) b u \<and> eats_all ys (after b u) v"
      by (intro exI [of _ "u @ v"] exI [of _ w]) auto
  next
    assume "\<exists>u v. s = u @ v \<and> eats_all (x # xs) b u \<and> eats_all ys (after b u) v"
    then show "eats_all ((x # xs) @ ys) b s" by (auto simp: Cons.IH) (metis append.assoc after_append)
  qed
qed simp

text \<open>An expression of one path component: no part of it takes a separator, or looks back.\<close>

fun local_rx :: "rx \<Rightarrow> bool" where
  "local_rx (One p) = (\<not> accepts p sep)"
| "local_rx (Many p) = (\<not> accepts p sep)"
| "local_rx (Maybe p) = (\<not> accepts p sep)"
| "local_rx _ = False"

lemma eats_local: "local_rx r \<Longrightarrow> eats r b u \<Longrightarrow> sep \<notin> set u \<and> eats r b' u"
  by (cases r) (auto simp: list_all_iff)

lemma eats_all_local:
  "list_all local_rx p \<Longrightarrow> eats_all p b u \<Longrightarrow> sep \<notin> set u \<and> eats_all p b' u"
proof (induction p arbitrary: b b' u)
  case (Cons r p)
  then obtain v w where "u = v @ w" "eats r b v" "eats_all p (after b v) w" by auto
  moreover from this eats_local [of r b v b'] have "sep \<notin> set v" "eats r b' v" using Cons.prems(1) by simp_all
  moreover have "sep \<notin> set w \<and> eats_all p (after b' v) w"
    using calculation(3) Cons.IH [of "after b v" w "after b' v"] Cons.prems(1) by simp
  ultimately show ?case by (auto simp del: after_append)
qed simp

section \<open>The reference: matching component by component\<close>

definition part_match :: "rx list \<Rightarrow> string \<Rightarrow> bool" where
  "part_match p c = seq_match p (True, c)"

text \<open>
  \<open>components_match subentries parts cs\<close>: \<open>**\<close> stands for any number of whole components; every other part
  but the last matches the next component; the last one matches the last component (a trailing separator
  leaves an empty one behind it), or, with \<open>subentries\<close>, a prefix of the next component.
\<close>

fun components_match :: "bool \<Rightarrow> rx list list \<Rightarrow> string list \<Rightarrow> bool" where
  "components_match subentries [] cs = False"
| "components_match subentries [p] cs =
     (if p = double_start_re then cs \<noteq> [[]]
      else if subentries then (\<exists>i\<in>{..length (hd cs)}. part_match p (take i (hd cs)))
      else part_match p (hd cs) \<and> (tl cs = [] \<or> tl cs = [[]]))"
| "components_match subentries (p # q # ps) cs =
     (if p = double_start_re then (\<exists>k\<in>{..<length cs}. components_match subentries (q # ps) (drop k cs))
      else part_match p (hd cs) \<and> tl cs \<noteq> [] \<and> components_match subentries (q # ps) (tl cs))"

text \<open>The suffixes that start at a component.\<close>

lemma component_suffixes:
  assumes "cs \<noteq> []" and "\<forall>c\<in>set cs. sep \<notin> set c"
  shows "(\<exists>u v. join_with [sep] cs = u @ v \<and> (u = [] \<or> last u = sep) \<and> P v)
    \<longleftrightarrow> (\<exists>k\<in>{..<length cs}. P (join_with [sep] (drop k cs)))"
  using assms
proof (induction cs)
  case (Cons c cs)
  show ?case
  proof (cases "cs = []")
    case True
    have "u = []" if "c = u @ v" "last u = sep" for u v
      using that Cons.prems(2) last_in_set [of u] by auto
    then have "(\<exists>u v. c = u @ v \<and> (u = [] \<or> last u = sep) \<and> P v) \<longleftrightarrow> P c"
      by (metis append_Nil)
    then show ?thesis using True by simp
  next
    case False
    let ?s = "join_with [sep] cs"
    have j: "join_with [sep] (c # cs) = c @ sep # ?s" using False by (simp add: join_with_Cons)
    have c: "sep \<notin> set c" using Cons.prems(2) by simp
    have split: "(\<exists>u v. c @ sep # ?s = u @ v \<and> (u = [] \<or> last u = sep) \<and> P v) \<longleftrightarrow>
        P (c @ sep # ?s) \<or> (\<exists>u v. ?s = u @ v \<and> (u = [] \<or> last u = sep) \<and> P v)" (is "?l \<longleftrightarrow> ?r")
    proof
      assume ?l
      then obtain u v where uv: "c @ sep # ?s = u @ v" "u = [] \<or> last u = sep" "P v" by blast
      show ?r
      proof (cases "u = []")
        case True with uv show ?thesis by simp
      next
        case False
        with uv have "sep \<in> set u" using last_in_set [of u] by auto
        have "\<exists>w. u = c @ sep # w \<and> ?s = w @ v"
          using uv(1) \<open>sep \<in> set u\<close> c by (auto simp: append_eq_append_conv2 Cons_eq_append_conv)
        then obtain w where w: "u = c @ sep # w" "?s = w @ v" by blast
        then have "w = [] \<or> last w = sep" using uv(2) by (cases "w = []") auto
        with w uv(3) show ?thesis by blast
      qed
    next
      assume ?r
      then show ?l
      proof
        assume "P (c @ sep # ?s)" then show ?l by (intro exI [of _ "[]"] exI [of _ "c @ sep # ?s"]) simp
      next
        assume "\<exists>u v. ?s = u @ v \<and> (u = [] \<or> last u = sep) \<and> P v"
        then obtain u v where "?s = u @ v" "u = [] \<or> last u = sep" "P v" by blast
        then show ?l by (intro exI [of _ "c @ sep # u"] exI [of _ v]) auto
      qed
    qed
    have "(\<exists>k\<in>{..<length (c # cs)}. P (join_with [sep] (drop k (c # cs)))) \<longleftrightarrow>
        P (c @ sep # ?s) \<or> (\<exists>k\<in>{..<length cs}. P (join_with [sep] (drop k cs)))"
      using j by (auto simp: lessThan_Suc_eq_insert_0)
    then show ?thesis unfolding j split using Cons.IH False Cons.prems(2) by simp
  qed
qed simp

lemma eats_double_start:
  "eats_all (double_start_re @ rs) True s \<longleftrightarrow> (\<exists>u v. s = u @ v \<and> (u = [] \<or> last u = sep) \<and> eats_all rs True v)"
proof -
  have "eats_all (double_start_re @ rs) True s \<longleftrightarrow>
      (\<exists>u v. s = u @ v \<and> list_all (accepts AnyChar) u \<and> after True u \<and> eats_all rs (after True u) v)"
    unfolding double_start_re_def by simp
  also have "\<dots> \<longleftrightarrow> (\<exists>u v. s = u @ v \<and> (u = [] \<or> last u = sep) \<and> eats_all rs True v)"
  proof -
    have "after True u \<and> eats_all rs (after True u) v \<longleftrightarrow> (u = [] \<or> last u = sep) \<and> eats_all rs True v" for u v
      by (cases "u = []"; cases "last u = sep") (simp_all add: after_def)
    moreover have "list_all (accepts AnyChar) u" for u by (simp add: list_all_iff)
    ultimately show ?thesis by (simp only: simp_thms)
  qed
  finally show ?thesis .
qed

lemma eats_component:
  assumes "list_all local_rx p" and "cs \<noteq> []" and "\<forall>c\<in>set cs. sep \<notin> set c"
  shows "eats_all (p @ [One IsSep] @ rs) True (join_with [sep] cs) \<longleftrightarrow>
    part_match p (hd cs) \<and> tl cs \<noteq> [] \<and> eats_all rs True (join_with [sep] (tl cs))"
proof -
  have eq: "eats_all (p @ [One IsSep] @ rs) True s \<longleftrightarrow> (\<exists>u v. s = u @ sep # v \<and> eats_all p True u \<and> eats_all rs True v)" for s
    unfolding eats_all_append by (auto simp: after_Cons)
  obtain c cs' where cs: "cs = c # cs'" using assms(2) by (cases cs) auto
  show ?thesis
  proof (cases "cs' = []")
    case True
    then have "sep \<notin> set (join_with [sep] cs)" using assms(3) cs by simp
    then show ?thesis using True cs unfolding eq by auto
  next
    case False
    have j: "join_with [sep] cs = c @ sep # join_with [sep] cs'" using False cs by (simp add: join_with_Cons)
    have "c @ sep # join_with [sep] cs' = u @ sep # v \<longleftrightarrow> u = c \<and> v = join_with [sep] cs'" if "sep \<notin> set u" for u v
      using that assms(3) cs by (auto simp: append_eq_append_conv2 append_eq_Cons_conv Cons_eq_append_conv)
    then have "(\<exists>u v. c @ sep # join_with [sep] cs' = u @ sep # v \<and> eats_all p True u \<and> eats_all rs True v)
        \<longleftrightarrow> eats_all p True c \<and> eats_all rs True (join_with [sep] cs')"
      using eats_all_local [OF assms(1)] by metis
    then show ?thesis using False cs unfolding eq j part_match_def seq_match_eats by simp
  qed
qed

lemma eats_last:
  assumes "list_all local_rx p" and "cs \<noteq> []" and "\<forall>c\<in>set cs. sep \<notin> set c"
  shows "eats_all (p @ [Maybe IsSep]) True (join_with [sep] cs) \<longleftrightarrow> part_match p (hd cs) \<and> (tl cs = [] \<or> tl cs = [[]])"
proof -
  have eq: "eats_all (p @ [Maybe IsSep]) True s \<longleftrightarrow> eats_all p True s \<or> (\<exists>u. s = u @ [sep] \<and> eats_all p True u)" for s
    unfolding eats_all_append by auto
  obtain c cs' where cs: "cs = c # cs'" using assms(2) by (cases cs) auto
  show ?thesis
  proof (cases "cs' = []")
    case True
    then show ?thesis using assms(3) cs unfolding eq part_match_def seq_match_eats by auto
  next
    case False
    have j: "join_with [sep] cs = c @ sep # join_with [sep] cs'" using False cs by (simp add: join_with_Cons)
    have n: "\<not> eats_all p True (c @ sep # t)" for t using eats_all_local [OF assms(1)] by fastforce
    have "c @ sep # t = u @ [sep] \<longleftrightarrow> u = c \<and> t = []" if "sep \<notin> set u" for u t
      using that assms(3) cs by (auto simp: append_eq_append_conv2 append_eq_Cons_conv Cons_eq_append_conv)
    then have "eats_all (p @ [Maybe IsSep]) True (join_with [sep] cs) \<longleftrightarrow> eats_all p True c \<and> join_with [sep] cs' = []"
      unfolding eq j using n eats_all_local [OF assms(1)] by auto
    moreover have "join_with [sep] cs' = [] \<longleftrightarrow> cs' = [[]]"
      using False by (cases cs'; cases "tl cs'") auto
    ultimately show ?thesis using False cs by (simp add: part_match_def seq_match_eats)
  qed
qed

lemma join_eq_Nil: "cs \<noteq> [] \<Longrightarrow> join_with [d] cs = [] \<longleftrightarrow> cs = [[]]"
  by (cases cs; cases "tl cs") auto

lemma eats_prefix:
  assumes "list_all local_rx p" and "cs \<noteq> []"
  shows "eats_all (p @ [Tail]) True (join_with [sep] cs) \<longleftrightarrow> (\<exists>i\<in>{..length (hd cs)}. part_match p (take i (hd cs)))"
proof -
  obtain c cs' where cs: "cs = c # cs'" using assms(2) by (cases cs) auto
  obtain r where r: "join_with [sep] cs = c @ r" "r = [] \<or> hd r = sep"
    using cs by (cases "cs' = []") (auto simp: join_with_Cons)
  have "eats_all (p @ [Tail]) True s \<longleftrightarrow> (\<exists>u v. s = u @ v \<and> eats_all p True u)" for s
    unfolding eats_all_append by simp
  moreover have "(\<exists>u v. c @ r = u @ v \<and> eats_all p True u) \<longleftrightarrow> (\<exists>i\<in>{..length c}. eats_all p True (take i c))"
  proof
    assume "\<exists>u v. c @ r = u @ v \<and> eats_all p True u"
    then obtain u v where uv: "c @ r = u @ v" "eats_all p True u" by blast
    then have free: "sep \<notin> set u" using eats_all_local [OF assms(1)] by blast
    have "length u \<le> length c"
    proof (rule ccontr)
      assume "\<not> length u \<le> length c"
      then have l: "length c < length u" by simp
      have "r \<noteq> []" using arg_cong [OF uv(1), of length] l by auto
      then have "(c @ r) ! length c = sep" using r(2) by (simp add: nth_append hd_conv_nth)
      then have "u ! length c = sep" using uv(1) l by (simp add: nth_append)
      then show False using free nth_mem [OF l] by metis
    qed
    then have "u = take (length u) c" using uv(1) by (metis append_eq_conv_conj take_append diff_is_0_eq take0 append_Nil2)
    then show "\<exists>i\<in>{..length c}. eats_all p True (take i c)" using uv(2) \<open>length u \<le> length c\<close> by (metis atMost_iff)
  next
    assume "\<exists>i\<in>{..length c}. eats_all p True (take i c)"
    then obtain i where "eats_all p True (take i c)" by blast
    then show "\<exists>u v. c @ r = u @ v \<and> eats_all p True u"
      by (intro exI [of _ "take i c"] exI [of _ "drop i c @ r"]) simp
  qed
  ultimately show ?thesis unfolding r(1) by (simp add: cs part_match_def seq_match_eats)
qed

lemma eats_final_double: "eats_all [Some1 AnyChar, Tail] True s \<longleftrightarrow> s \<noteq> []"
proof
  assume "s \<noteq> []"
  then show "eats_all [Some1 AnyChar, Tail] True s"
    by (simp add: list_all_iff) (intro exI [of _ s] exI [of _ "[]"]; simp)
qed auto

lemma join_translated_components:
  assumes "parts \<noteq> []" and "\<forall>p\<in>set parts. p = double_start_re \<or> list_all local_rx p"
    and "cs \<noteq> []" and "\<forall>c\<in>set cs. sep \<notin> set c"
  shows "eats_all (join_translated subentries parts) True (join_with [sep] cs) \<longleftrightarrow> components_match subentries parts cs"
  using assms
proof (induction subentries parts arbitrary: cs rule: join_translated.induct)
  case (2 subentries p)
  show ?case
  proof (cases "p = double_start_re")
    case True
    then show ?thesis using eats_final_double join_eq_Nil [OF "2.prems"(3)] by simp
  next
    case False
    then have l: "list_all local_rx p" using "2.prems"(2) by simp
    show ?thesis
      using False eats_prefix [OF l "2.prems"(3)] eats_last [OF l "2.prems"(3,4)] by simp
  qed
next
  case (3 subentries p q ps)
  have IH: "eats_all (join_translated subentries (q # ps)) True (join_with [sep] ds) \<longleftrightarrow> components_match subentries (q # ps) ds"
    if "ds \<noteq> []" "set ds \<subseteq> set cs" for ds
    using "3.IH" [of ds] "3.prems" that by auto
  show ?case
  proof (cases "p = double_start_re")
    case True
    have "components_match subentries (q # ps) (drop k cs) \<longleftrightarrow>
        eats_all (join_translated subentries (q # ps)) True (join_with [sep] (drop k cs))" if "k < length cs" for k
      using that by (intro IH [symmetric]) (auto dest: in_set_dropD)
    then show ?thesis
      using True eats_double_start component_suffixes [OF "3.prems"(3,4)] by simp
  next
    case False
    then have l: "list_all local_rx p" using "3.prems"(2) by simp
    have "tl cs \<noteq> [] \<Longrightarrow> eats_all (join_translated subentries (q # ps)) True (join_with [sep] (tl cs))
        \<longleftrightarrow> components_match subentries (q # ps) (tl cs)"
      by (rule IH) (auto dest: list.set_sel(2) [OF "3.prems"(3)])
    then show ?thesis using False eats_component [OF l "3.prems"(3,4)] by auto
  qed
qed simp

text \<open>The parts of a pattern are its components, without empty ones except at the end.\<close>

definition norm_parts :: "string list \<Rightarrow> string list" where
  "norm_parts ps = filter (\<lambda>p. p \<noteq> []) (butlast ps) @ [last ps]"

lemma split_on_last: "split_on d (s @ d # t) = split_on d s @ split_on d t"
proof (induction s)
  case (Cons c s)
  obtain q qs where "split_on d s = q # qs" by (cases "split_on d s") auto
  with Cons show ?case by simp
qed simp

lemma split_on_snoc: "split_on d (s @ replicate n d) = split_on d s @ replicate n []"
proof (induction s)
  case Nil
  show ?case by (induction n) auto
next
  case (Cons c s)
  obtain q qs where "split_on d s = q # qs" by (cases "split_on d s") auto
  with Cons show ?case by simp
qed

lemma trailing_sep:
  assumes "h \<noteq> []" and "last h = sep" and "hd h \<noteq> sep"
  defines "r \<equiv> rstrip_while (\<lambda>c. c = sep) h"
  shows "r \<noteq> []" and "last r \<noteq> sep" and "hd r = hd h" and "\<exists>n. h = r @ sep # replicate n sep"
proof -
  let ?d = "dropWhile (\<lambda>c. c = sep) (rev h)" and ?t = "takeWhile (\<lambda>c. c = sep) (rev h)"
  have r: "r = rev ?d" by (simp add: r_def rstrip_while_def)
  have "hd h \<in> set (rev h)" using assms(1) by simp
  then have d: "?d \<noteq> []" using assms(3) unfolding dropWhile_eq_Nil_conv by blast
  then show ne: "r \<noteq> []" by (simp add: r)
  show "last r \<noteq> sep" using hd_dropWhile [OF d] d by (simp add: r last_rev)
  have "rev h = ?t @ ?d" by (rule takeWhile_dropWhile_id [symmetric])
  then have h: "h = r @ rev ?t" unfolding r by (metis rev_append rev_rev_ident)
  show "hd r = hd h" using arg_cong [OF h, of hd] ne by simp
  have all: "\<forall>c\<in>set ?t. c = sep" by (auto dest: set_takeWhileD)
  have t: "?t \<noteq> []" using assms(1,2) by (cases h rule: rev_cases) auto
  obtain x ys where x: "rev ?t = x # ys" using t by (cases "rev ?t") auto
  have "\<forall>c\<in>set (rev ?t). c = sep" using all by simp
  then have "x = sep" "ys = replicate (length ys) sep"
    unfolding x by (simp_all add: replicate_eqI)
  then have "h = r @ sep # replicate (length ys) sep" using h x by metis
  then show "\<exists>n. h = r @ sep # replicate n sep" ..
qed

lemma last_split_on: "s \<noteq> [] \<Longrightarrow> last s \<noteq> d \<Longrightarrow> last (split_on d s) \<noteq> []"
proof (induction s)
  case (Cons c s)
  obtain q qs where q: "split_on d s = q # qs" by (cases "split_on d s") auto
  with Cons show ?case by (cases "s = []") (auto split: if_splits)
qed simp

lemma iexplode_path_parts: "p \<noteq> [] \<Longrightarrow> hd p \<noteq> sep \<Longrightarrow> iexplode_path p = norm_parts (split_on sep p)"
proof (induction p rule: iexplode_path.induct)
  case (1 p)
  let ?h = "path_head p" and ?t = "path_tail p"
  have p: "p = ?h @ ?t" using path_head_tail [of p] by simp
  show ?case
  proof (cases "?h = []")
    case True
    then have "split_on sep p = [p]" using p path_tail_no_sep [of p] by (metis append_Nil split_on_free)
    moreover have "dirname p = []" "path_tail p = p" using True p by (simp_all add: dirname_def)
    ultimately show ?thesis using 1(2) by (subst iexplode_path.simps) (simp add: path_split_def norm_parts_def)
  next
    case False
    have lh: "last ?h = sep"
      using False hd_dropWhile [of "\<lambda>c. c \<noteq> sep" "rev p"] by (simp add: path_head_def last_rev)
    have hh: "hd ?h = hd p" using False p by (metis hd_append2)
    define r where "r = rstrip_while (\<lambda>c. c = sep) ?h"
    have hne: "hd ?h \<noteq> sep" using hh 1(3) by simp
    note ts = trailing_sep [OF False lh hne, folded r_def]
    obtain n where n: "?h = r @ sep # replicate n sep" using ts(4) by blast
    have "\<not> list_all (\<lambda>c. c = sep) ?h" using False hne by (cases ?h) auto
    then have d: "dirname p = r" by (simp only: dirname_def Let_def if_False r_def)
    have lp: "length p = length ?h + length ?t" using path_head_tail [of p] by (metis length_append)
    have lr: "length ?h = length r + Suc n" using arg_cong [OF n, of length] by simp
    have ne: "r \<noteq> p" using lp lr by auto
    have p2: "?h @ ?t = r @ replicate n sep @ sep # ?t" unfolding n by (simp add: replicate_app_Cons_same)
    have "iexplode_path r = norm_parts (split_on sep r)"
    proof (rule "1.IH")
      show "(r, ?t) = path_split p" by (simp add: path_split_def d)
    qed (use ts(1,3) hne ne in auto)
    then have it: "iexplode_path p = norm_parts (split_on sep r) @ [?t]"
      using ts(1) ne d by (subst iexplode_path.simps) (simp add: path_split_def)
    have "split_on sep p = split_on sep (r @ replicate n sep @ sep # ?t)"
      using p2 path_head_tail [of p] by simp
    also have "\<dots> = (split_on sep r @ replicate n []) @ [?t]"
      using split_on_snoc [of sep r n] split_on_free [OF path_tail_no_sep [of p]]
        split_on_last [of sep "r @ replicate n sep" ?t] by simp
    finally have sp: "split_on sep p = (split_on sep r @ replicate n []) @ [?t]" .
    have "norm_parts (split_on sep p) = filter (\<lambda>p. p \<noteq> []) (split_on sep r) @ [?t]"
      unfolding norm_parts_def sp butlast_snoc last_snoc by simp
    moreover have "norm_parts (split_on sep r) = filter (\<lambda>p. p \<noteq> []) (split_on sep r)"
    proof -
      let ?x = "last (split_on sep r)" and ?b = "butlast (split_on sep r)"
      have "filter (\<lambda>p. p \<noteq> []) (?b @ [?x]) = filter (\<lambda>p. p \<noteq> []) ?b @ [?x]"
        unfolding filter_append using last_split_on [OF ts(1,2)] by simp
      then show ?thesis
        by (simp only: norm_parts_def append_butlast_last_id [OF split_on_not_Nil])
    qed
    ultimately show ?thesis using it by simp
  qed
qed

section \<open>Properties\<close>

text \<open>Classes that compile and take no separator.\<close>

fun class_ok :: "rx \<Rightarrow> bool" where
  "class_ok (One (Cls negated s)) = (class_ranges s \<noteq> None \<and> \<not> accepts (Cls negated s) sep)"
| "class_ok _ = True"

definition glob_parts :: "string \<Rightarrow> string list" where
  "glob_parts g = norm_parts (split_on sep (lstrip_while (\<lambda>c. c = sep) g))"

definition glob_ok :: "string \<Rightarrow> bool" where
  "glob_ok g \<longleftrightarrow> list_all (\<lambda>p. list_all class_ok (translate_part p)) (glob_parts g)"

lemma class_ok_local: "class_ok (One (class_rx s)) \<Longrightarrow> local_rx (One (class_rx s)) \<and> rx_ok (One (class_rx s))"
  by (auto simp: class_rx_def)

lemma class_span_set: "class_span s = Some (stuff, r) \<Longrightarrow> set r \<subseteq> set s"
proof -
  have d: "dropWhile P t = y # ys \<Longrightarrow> set ys \<subseteq> set t" for P :: "char \<Rightarrow> bool" and t y ys
    using set_dropWhileD [of _ P t] by auto
  assume "class_span s = Some (stuff, r)"
  then obtain t y where t: "dropWhile (\<lambda>x. x \<noteq> CHR '']'') t = y # r" "set t \<subseteq> set s"
    by (auto simp: class_span_def Let_def split: if_splits list.splits dest: list.set_sel(2) intro!: that)
  with d show ?thesis by blast
qed

lemma translate_part_local:
  "sep \<notin> set p \<Longrightarrow> list_all class_ok (translate_part p) \<Longrightarrow>
     list_all local_rx (translate_part p) \<and> list_all rx_ok (translate_part p)"
proof (induction p rule: translate_part.induct)
  case (2 c s)
  have cs: "c \<noteq> sep" "sep \<notin> set s" using "2.prems" by auto
  consider "c = CHR ''*''" | "c = CHR ''?''" | "c = CHR ''[''" "class_span s = None"
    | stuff r where "c = CHR ''[''" "class_span s = Some (stuff, r)"
    | "c \<noteq> CHR ''*''" "c \<noteq> CHR ''?''" "c \<noteq> CHR ''[''"
    by (cases "class_span s") auto
  then show ?case
  proof cases
    case 4
    then have "sep \<notin> set r" using class_span_set cs by blast
    with 4 2 class_ok_local [of stuff] show ?thesis by simp
  next
    case 5
    with 2 cs show ?thesis by simp
  qed (use 2 cs in \<open>simp_all add: sep_def\<close>)
qed simp

lemma norm_parts_set: "ps \<noteq> [] \<Longrightarrow> set (norm_parts ps) \<subseteq> set ps"
  by (auto simp: norm_parts_def dest: in_set_butlastD)

lemma glob_parts_free: "p \<in> set (glob_parts g) \<Longrightarrow> sep \<notin> set p"
  using norm_parts_set [OF split_on_not_Nil] split_on_parts by (fastforce simp: glob_parts_def)

lemma translate_glob_part_ok:
  assumes "glob_ok g" and "p \<in> set (glob_parts g)"
  shows "translate_glob_part p = double_start_re \<or> list_all local_rx (translate_glob_part p)"
    and "list_all rx_ok (translate_glob_part p)"
proof -
  have "list_all class_ok (translate_part p)" using assms by (simp add: glob_ok_def list_all_iff)
  with translate_part_local [OF glob_parts_free [OF assms(2)]]
  show "translate_glob_part p = double_start_re \<or> list_all local_rx (translate_glob_part p)"
    and "list_all rx_ok (translate_glob_part p)"
    by (auto simp: translate_glob_part_def double_start_re_def)
qed

lemma join_translated_ok: "\<forall>p\<in>set ps. list_all rx_ok p \<Longrightarrow> list_all rx_ok (join_translated sub ps)"
  by (induction sub ps rule: join_translated.induct) auto

lemma fix_path_split:
  "split_on sep (fix_path_for_globmatch p) = ''start'' # split_on sep (lstrip_while (\<lambda>c. c = sep) p)"
  unfolding fix_path_for_globmatch_def by (rule split_on_append) (simp add: sep_def)

lemma iexplode_fixed: "iexplode_path (fix_path_for_globmatch g) = ''start'' # glob_parts g"
proof -
  have "hd (fix_path_for_globmatch g) \<noteq> sep" "fix_path_for_globmatch g \<noteq> []"
    by (simp_all add: fix_path_for_globmatch_def sep_def)
  then show ?thesis
    by (simp add: iexplode_path_parts fix_path_split norm_parts_def glob_parts_def)
qed

lemma glob_parts_not_Nil: "glob_parts g \<noteq> []"
  by (simp add: glob_parts_def norm_parts_def)

lemma start_part: "translate_glob_part ''start'' \<noteq> double_start_re" "list_all local_rx (translate_glob_part ''start'')"
  "list_all rx_ok (translate_glob_part ''start'')" "part_match (translate_glob_part ''start'') ''start''"
  by (simp_all add: translate_glob_part_def double_start_re_def sep_def part_match_def)

lemma compile_pattern_components:
  assumes "glob_ok g"
  shows "\<exists>matcher. compile_pattern sub (fix_path_for_globmatch g) = Inr matcher
    \<and> matcher (fix_path_for_globmatch path) =
        components_match sub (map translate_glob_part (glob_parts g)) (split_on sep (lstrip_while (\<lambda>c. c = sep) path))"
proof -
  let ?parts = "map translate_glob_part (''start'' # glob_parts g)"
  let ?cs = "''start'' # split_on sep (lstrip_while (\<lambda>c. c = sep) path)"
  have ok: "\<forall>p\<in>set ?parts. p = double_start_re \<or> list_all local_rx p" "\<forall>p\<in>set ?parts. list_all rx_ok p"
    using translate_glob_part_ok [OF assms] start_part by auto
  have tr: "translate_glob sub (fix_path_for_globmatch g) = join_translated sub ?parts"
    by (simp add: translate_glob_def iexplode_fixed)
  have free: "\<forall>c\<in>set ?cs. sep \<notin> set c" using split_on_parts by (fastforce simp: sep_def)
  have s: "fix_path_for_globmatch path = join_with [sep] ?cs" using join_split fix_path_split by metis
  have "eats_all (join_translated sub ?parts) True (join_with [sep] ?cs) = components_match sub ?parts ?cs"
    by (rule join_translated_components [OF _ ok(1) _ free]) simp_all
  moreover obtain q qs where "glob_parts g = q # qs" using glob_parts_not_Nil by (cases "glob_parts g") auto
  moreover have "list_all rx_ok (join_translated sub ?parts)" using join_translated_ok [OF ok(2)] .
  ultimately show ?thesis
    using start_part unfolding compile_pattern_def tr Let_def s seq_match_eats by simp
qed

text \<open>
  C6: Glob matching works component by component. For globs whose character classes compile and do not take
  the separator, \<open>glob_match\<close> holds exactly when one of the globs matches the components of the path: \<open>**\<close>
  stands for any number of them, every other part matches one component (and at the end a trailing
  separator is allowed). With \<open>subentries_match\<close> the last part need only match a prefix of the next
  component, so that \<open>foo\<close> then also matches \<open>foobar\<close>.
\<close>
theorem glob_match_components:
  assumes "\<forall>g\<in>set globs. glob_ok g"
  shows "glob_match sub path globs =
    Inr (\<exists>g\<in>set globs. components_match sub (map translate_glob_part (glob_parts g))
           (split_on sep (lstrip_while (\<lambda>c. c = sep) path)))"
  using assms unfolding glob_match_def
proof (induction globs)
  case (Cons g globs)
  have "glob_ok g" using Cons.prems by simp
  then obtain matcher where "compile_pattern sub (fix_path_for_globmatch g) = Inr matcher"
    "matcher (fix_path_for_globmatch path) =
       components_match sub (map translate_glob_part (glob_parts g)) (split_on sep (lstrip_while (\<lambda>c. c = sep) path))"
    using compile_pattern_components by blast
  then show ?case using Cons by simp
qed simp

lemma glob_match_components_witness:
  "glob_match True ''foobar'' [''foo''] = Inr True \<and> glob_match False ''/src/x/a.py/'' [''src/**/*.py''] = Inr True"
proof -
  have "glob_match True ''foobar'' [''foo''] = Inr (\<exists>g\<in>{''foo''}. components_match True (map translate_glob_part (glob_parts g))
           (split_on sep (lstrip_while (\<lambda>c. c = sep) ''foobar'')))"
    using glob_match_components [of "[''foo'']" True "''foobar''"]
    by (simp add: glob_ok_def glob_parts_def norm_parts_def lstrip_while_def sep_def)
  moreover have "part_match (translate_glob_part ''foo'') (take 3 ''foobar'')"
    by (simp add: part_match_def translate_glob_part_def)
  ultimately have "glob_match True ''foobar'' [''foo''] = Inr True"
    by (auto simp: glob_parts_def norm_parts_def lstrip_while_def sep_def translate_glob_part_def double_start_re_def
        intro!: bexI [of _ 3])
  moreover have "glob_match False ''/src/x/a.py/'' [''src/**/*.py''] = Inr True"
    by code_simp
  ultimately show ?thesis by simp
qed

end
