(* ===== verification/AppServer.thy ===== *)
theory AppServer
  imports Prelude
begin

text \<open>
  \<open>src/asgiref/server.py\<close> and \<open>compatibility.py\<close>: the pool of application instances of
  \<open>StatelessServer\<close>. Futures and queues are numbered; whether a future is done, and with which exception, and
  the clock are parameters. The event loop and logging are left out.
\<close>

section \<open>Application styles\<close>

text \<open>
  What \<open>is_double_callable\<close> asks of an application: its two hints (absent counts as false), whether it is a
  class, whether it has a \<open>__call__\<close> that is a coroutine function, whether it is one itself.
\<close>

record application =
  asgi_single_callable :: bool
  asgi_double_callable :: bool
  is_class :: bool
  coroutine_call :: bool
  coroutine_itself :: bool

definition is_double_callable :: "application \<Rightarrow> bool" where
  "is_double_callable a =
     (if asgi_single_callable a then False
      else if asgi_double_callable a then True
      else if is_class a then True
      else if coroutine_call a then False
      else \<not> coroutine_itself a)"

text \<open>The style in which the result is called, and how often it calls the application it wraps.\<close>

datatype callable = Direct application | Wrapped application

definition double_to_single_callable :: "application \<Rightarrow> callable" where
  "double_to_single_callable a = Wrapped a"

definition guarantee_single_callable :: "application \<Rightarrow> callable" where
  "guarantee_single_callable a = (if is_double_callable a then double_to_single_callable a else Direct a)"

section \<open>The pool\<close>

record 's app_instance =
  input_queue :: nat
  future :: nat
  scope :: 's
  last_used :: int

text \<open>\<open>next_id\<close> numbers the queues and futures made; \<open>cancelled\<close> collects the futures that were cancelled.\<close>

record ('i, 's) app_server =
  max_applications :: int
  application_instances :: "('i, 's app_instance) dict"
  next_id :: nat
  cancelled :: "nat list"

definition app_server_init :: "int \<Rightarrow> ('i, 's) app_server" where
  "app_server_init n = \<lparr>max_applications = n, application_instances = [], next_id = 0, cancelled = []\<rparr>"

definition delete_application_instance ::
  "(nat \<Rightarrow> bool) \<Rightarrow> 'i \<Rightarrow> ('i, 's) app_server \<Rightarrow> ('i, 's) app_server res" where
  "delete_application_instance is_done i s =
     bindR (dget_or (application_instances s) i) (\<lambda>details.
       Inr (s\<lparr>application_instances := ddel i (application_instances s),
              cancelled := (if is_done (future details) then cancelled s else cancelled s @ [future details])\<rparr>))"

text \<open>\<open>min\<close> of no values raises \<open>ValueError\<close>; only the first of the oldest is deleted.\<close>

definition delete_oldest ::
  "(nat \<Rightarrow> bool) \<Rightarrow> ('i, 's) app_server \<Rightarrow> ('i, 's) app_server res" where
  "delete_oldest is_done s =
     (if application_instances s = [] then Inl ValueError
      else
        (let oldest = Min (set (map (last_used \<circ> snd) (application_instances s)))
         in (case List.find (\<lambda>x. last_used (snd x) = oldest) (application_instances s) of
               None \<Rightarrow> Inr s
             | Some (i, _) \<Rightarrow> delete_application_instance is_done i s)))"

lemma find_oldest:
  assumes "xs \<noteq> []"
  obtains i d us vs where "xs = us @ (i, d) # vs"
    and "List.find (\<lambda>x. last_used (snd x) = Min (set (map (last_used \<circ> snd) xs))) xs = Some (i, d)"
    and "\<forall>x\<in>set xs. last_used d \<le> last_used (snd x)"
proof -
  let ?m = "Min (set (map (last_used \<circ> snd) xs))"
  let ?P = "\<lambda>x. last_used (snd x) = ?m"
  have "?m \<in> set (map (last_used \<circ> snd) xs)" using assms by (intro Min_in) simp_all
  then obtain x where "x \<in> set xs" "?P x" by auto
  then have "List.find ?P xs \<noteq> None" unfolding find_None_iff by blast
  then obtain y where y: "List.find ?P xs = Some y" by blast
  then have "y \<in> set xs" and p: "?P y" by (auto simp: find_Some_iff)
  then obtain us vs where s: "xs = us @ y # vs" "?P y" by (metis split_list)
  have "last_used (snd y) \<le> last_used (snd x)" if "x \<in> set xs" for x
    using that s(2) by simp
  then show ?thesis using that [of us "fst y" "snd y" vs] s(1) y by simp
qed

lemma delete_oldest_shorter:
  assumes "delete_oldest is_done s = Inr s'"
  shows "length (application_instances s') < length (application_instances s)"
proof -
  have ne: "application_instances s \<noteq> []" using assms by (auto simp: delete_oldest_def split: if_splits)
  obtain i d us vs where f: "application_instances s = us @ (i, d) # vs"
    "List.find (\<lambda>x. last_used (snd x) = Min (set (map (last_used \<circ> snd) (application_instances s))))
       (application_instances s) = Some (i, d)"
    by (rule find_oldest [OF ne])
  have "delete_application_instance is_done i s = Inr s'" using assms ne f(2) by (simp add: delete_oldest_def Let_def)
  then have s': "application_instances s' = ddel i (application_instances s)"
    by (auto simp: delete_application_instance_def res_simps)
  show ?thesis unfolding s' f(1) by (simp add: AList.delete_eq less_Suc_eq_le add_mono)
qed

function make_space :: "(nat \<Rightarrow> bool) \<Rightarrow> ('i, 's) app_server \<Rightarrow> ('i, 's) app_server res" where
  "make_space is_done s =
     (if int (length (application_instances s)) > max_applications s
      then (case delete_oldest is_done s of Inl e \<Rightarrow> Inl e | Inr s' \<Rightarrow> make_space is_done s')
      else Inr s)"
  by pat_completeness auto
termination
  by (relation "measure (\<lambda>(_, s). length (application_instances s))") (auto dest: delete_oldest_shorter)

declare make_space.simps [simp del]

definition get_or_create ::
  "(nat \<Rightarrow> bool) \<Rightarrow> int \<Rightarrow> 'i \<Rightarrow> 's \<Rightarrow> ('i, 's) app_server \<Rightarrow> (nat \<times> ('i, 's) app_server) res" where
  "get_or_create is_done now i sc s =
     (case dget (application_instances s) i of
        Some d \<Rightarrow> Inr (input_queue d, s\<lparr>application_instances := dset i (d\<lparr>last_used := now\<rparr>) (application_instances s)\<rparr>)
      | None \<Rightarrow>
          bindR (make_space is_done s) (\<lambda>s1.
            let n = next_id s1; d = \<lparr>input_queue = n, future = n, scope = sc, last_used = now\<rparr>
            in Inr (n, s1\<lparr>application_instances := dset i d (application_instances s1), next_id := Suc n\<rparr>)))"

text \<open>
  \<open>application_checker\<close> is a coroutine that gives way twice: while it sleeps, and while it awaits \<open>application_exception\<close>
  for an instance that has failed. In between it runs alone. \<open>outcome f\<close> is \<open>None\<close> while the future \<open>f\<close> runs, and then how it ended; to ask a cancelled
  future for its exception raises \<open>CancelledError\<close>, which ends the checker.
\<close>

datatype ending = Returned | Failed | WasCancelled

datatype ('i, 's) checker = Sleeping | Handling 'i "('i \<times> 's app_instance) list" | Ended py_error

fun check_instances ::
  "(nat \<Rightarrow> ending option) \<Rightarrow> ('i \<times> 's app_instance) list \<Rightarrow> ('i, 's) app_server \<Rightarrow> ('i, 's) app_server \<times> ('i, 's) checker" where
  "check_instances outcome [] s = (s, Sleeping)"
| "check_instances outcome ((i, d) # ds) s =
     (case outcome (future d) of
        None \<Rightarrow> check_instances outcome ds s
      | Some WasCancelled \<Rightarrow> (s, Ended CancelledError)
      | Some Failed \<Rightarrow> (s, Handling i ds)
      | Some Returned \<Rightarrow> check_instances outcome ds (s\<lparr>application_instances := ddel i (application_instances s)\<rparr>))"

text \<open>What the checker does when it goes on, up to where it gives way again; after a sleep the instances are listed anew.\<close>

definition application_checker ::
  "(nat \<Rightarrow> ending option) \<Rightarrow> ('i, 's) app_server \<times> ('i, 's) checker \<Rightarrow> ('i, 's) app_server \<times> ('i, 's) checker" where
  "application_checker outcome sc =
     (case sc of
        (s, Sleeping) \<Rightarrow> check_instances outcome (application_instances s) s
      | (s, Handling i ds) \<Rightarrow> check_instances outcome ds (s\<lparr>application_instances := ddel i (application_instances s)\<rparr>)
      | (s, Ended e) \<Rightarrow> (s, Ended e))"

section \<open>Properties\<close>

text \<open>
  The pool is well-formed: one entry per scope id, pairwise different futures, all of them made by the
  server, none of them cancelled; and it is never larger than \<open>max_applications\<close> plus one.
\<close>

definition futures :: "('i, 's) app_server \<Rightarrow> nat list" where
  "futures s = map (future \<circ> snd) (application_instances s)"

definition pool_ok :: "('i, 's) app_server \<Rightarrow> bool" where
  "pool_ok s \<longleftrightarrow> dict_ok (application_instances s) \<and> distinct (futures s)
     \<and> (\<forall>f\<in>set (futures s) \<union> set (cancelled s). f < next_id s) \<and> set (futures s) \<inter> set (cancelled s) = {}"

text \<open>
  The steps of the server and of its checker, in any order: so scopes are asked for and deleted as well while the checker sleeps
  or handles an exception.
\<close>

inductive pool_step :: "('i, 's) app_server \<times> ('i, 's) checker \<Rightarrow> ('i, 's) app_server \<times> ('i, 's) checker \<Rightarrow> bool" where
  step_get: "get_or_create is_done now i sc s = Inr (q, s') \<Longrightarrow> pool_step (s, c) (s', c)"
| step_delete: "delete_application_instance is_done i s = Inr s' \<Longrightarrow> pool_step (s, c) (s', c)"
| step_check: "pool_step sc (application_checker outcome sc)"

abbreviation pool_reachable :: "int \<Rightarrow> ('i, 's) app_server \<times> ('i, 's) checker \<Rightarrow> bool" where
  "pool_reachable n \<equiv> reach (\<lambda>x. x = (app_server_init n, Sleeping) \<and> 0 \<le> n) pool_step"

inductive_cases pool_stepE: "pool_step s s'"

lemma filter_map_distinct: "distinct (map f xs) \<Longrightarrow> distinct (map f (filter P xs))"
  by (rule distinct_map_filter)

lemma pool_ok_delete:
  assumes "pool_ok s" and "delete_application_instance is_done i s = Inr s'"
  shows "pool_ok s' \<and> max_applications s' = max_applications s
    \<and> length (application_instances s') \<le> length (application_instances s)"
proof -
  obtain d where d: "dget (application_instances s) i = Some d"
    and s': "s' = s\<lparr>application_instances := ddel i (application_instances s),
              cancelled := (if is_done (future d) then cancelled s else cancelled s @ [future d])\<rparr>"
    using assms(2) by (auto simp: delete_application_instance_def res_simps)
  have mem: "(i, d) \<in> set (application_instances s)" using d by (rule map_of_SomeD)
  then have fd: "future d \<in> set (futures s)" by (force simp: futures_def)
  have sub: "set (futures s') \<subseteq> set (futures s)" by (auto simp: futures_def s' AList.delete_eq)
  have "future d \<notin> set (futures s')"
  proof
    assume "future d \<in> set (futures s')"
    then obtain j e where e: "(j, e) \<in> set (application_instances s)" "j \<noteq> i" "future e = future d"
      by (auto simp: futures_def s' AList.delete_eq)
    have "distinct (map (future \<circ> snd) (application_instances s))" using assms(1) by (simp add: pool_ok_def futures_def)
    then have inj: "inj_on (future \<circ> snd) (set (application_instances s))" by (simp add: distinct_map)
    have "(future \<circ> snd) (j, e) = (future \<circ> snd) (i, d)" using e(3) by simp
    then have "(j, e) = (i, d)" using inj_onD [OF inj _ e(1) mem] by blast
    with e(2) show False by simp
  qed
  moreover have "distinct (futures s')"
    using assms(1) by (simp add: pool_ok_def futures_def s' AList.delete_eq distinct_map_filter)
  moreover have "dict_ok (application_instances s')" using assms(1) by (simp add: pool_ok_def s')
  moreover have "set (cancelled s') \<subseteq> insert (future d) (set (cancelled s))" by (auto simp: s')
  moreover have "next_id s' = next_id s" "length (application_instances s') \<le> length (application_instances s)"
    by (simp_all add: s' length_delete_le)
  ultimately show ?thesis using assms(1) sub fd unfolding pool_ok_def by (auto simp: s' split: if_splits)
qed

lemma delete_oldest_delete:
  assumes "delete_oldest is_done s = Inr s'"
  obtains i d us vs where "application_instances s = us @ (i, d) # vs"
    and "\<forall>x\<in>set (application_instances s). last_used d \<le> last_used (snd x)"
    and "delete_application_instance is_done i s = Inr s'"
proof -
  have ne: "application_instances s \<noteq> []" using assms by (auto simp: delete_oldest_def split: if_splits)
  obtain i d us vs where f: "application_instances s = us @ (i, d) # vs"
    "List.find (\<lambda>x. last_used (snd x) = Min (set (map (last_used \<circ> snd) (application_instances s))))
       (application_instances s) = Some (i, d)"
    "\<forall>x\<in>set (application_instances s). last_used d \<le> last_used (snd x)"
    by (rule find_oldest [OF ne])
  then show ?thesis using that [OF f(1,3)] assms ne by (simp add: delete_oldest_def Let_def)
qed

text \<open>What making space leaves: the instances that are not older than any that went.\<close>

lemma make_space_keeps:
  assumes "pool_ok s" and "make_space is_done s = Inr s'"
  shows "pool_ok s' \<and> max_applications s' = max_applications s \<and> next_id s' = next_id s
    \<and> int (length (application_instances s')) \<le> max_applications s
    \<and> set (application_instances s') \<subseteq> set (application_instances s)
    \<and> (\<forall>x\<in>set (application_instances s) - set (application_instances s'). \<forall>y\<in>set (application_instances s').
          last_used (snd x) \<le> last_used (snd y))
    \<and> (\<forall>x\<in>set (application_instances s) - set (application_instances s').
          is_done (future (snd x)) \<or> future (snd x) \<in> set (cancelled s'))
    \<and> set (cancelled s) \<subseteq> set (cancelled s')"
  using assms
proof (induction is_done s rule: make_space.induct)
  case (1 is_done s)
  show ?case
  proof (cases "int (length (application_instances s)) > max_applications s")
    case False
    then show ?thesis using "1.prems" by (auto simp: make_space.simps [of is_done s])
  next
    case True
    then obtain s1 where s1: "delete_oldest is_done s = Inr s1" "make_space is_done s1 = Inr s'"
      using "1.prems"(2) by (auto simp: make_space.simps [of is_done s] split: sum.splits)
    obtain i d us vs where d: "application_instances s = us @ (i, d) # vs"
      "\<forall>x\<in>set (application_instances s). last_used d \<le> last_used (snd x)"
      "delete_application_instance is_done i s = Inr s1"
      by (rule delete_oldest_delete [OF s1(1)])
    have ok: "pool_ok s1" "max_applications s1 = max_applications s" using pool_ok_delete [OF "1.prems"(1) d(3)] by auto
    have dk: "dict_ok (application_instances s)" using "1.prems"(1) by (simp add: pool_ok_def)
    have look: "dget (application_instances s) i = Some d" using dict_ok_mem [OF dk, of i d] d(1) by simp
    have e: "application_instances s1 = ddel i (application_instances s)" "next_id s1 = next_id s"
      "cancelled s1 = (if is_done (future d) then cancelled s else cancelled s @ [future d])"
      using d(3) look by (auto simp: delete_application_instance_def dget_or_def)
    have set1: "set (application_instances s1) = set (application_instances s) - {(i, d)}"
    proof -
      have "(k, v) \<in> set (application_instances s1) \<longleftrightarrow> (k, v) \<in> set (application_instances s) - {(i, d)}" for k v
        using dict_ok_mem [OF dk, of k v] dict_ok_mem [OF dict_ok_ddel [OF dk], of k v i] look by (auto simp: e(1))
      then show ?thesis by auto
    qed
    note IH = "1.IH" [OF True s1(1) ok(1) s1(2)]
    show ?thesis
    proof (intro conjI ballI)
      fix x y assume x: "x \<in> set (application_instances s) - set (application_instances s')" and y: "y \<in> set (application_instances s')"
      show "last_used (snd x) \<le> last_used (snd y)"
      proof (cases "x = (i, d)")
        case True
        then show ?thesis using d(2) IH y set1 by auto
      next
        case False
        then have "x \<in> set (application_instances s1) - set (application_instances s')" using x set1 by blast
        then show ?thesis using IH y by blast
      qed
    next
      fix x assume x: "x \<in> set (application_instances s) - set (application_instances s')"
      show "is_done (future (snd x)) \<or> future (snd x) \<in> set (cancelled s')"
      proof (cases "x = (i, d)")
        case True
        then show ?thesis using IH e(3) by (cases "is_done (future d)") auto
      next
        case False
        then have "x \<in> set (application_instances s1) - set (application_instances s')" using x set1 by blast
        then show ?thesis using IH by blast
      qed
    qed (use IH ok e set1 in auto)
  qed
qed

lemma update_nonmem_conv: "i \<notin> fst ` set xs \<Longrightarrow> dset i v xs = xs @ [(i, v)]"
  by (induction xs) auto

lemma get_or_create_ok:
  assumes "pool_ok s" and "get_or_create is_done now i sc s = Inr (q, s')"
  shows "pool_ok s' \<and> max_applications s' = max_applications s
    \<and> (int (length (application_instances s)) \<le> max_applications s + 1 \<longrightarrow>
         int (length (application_instances s')) \<le> max_applications s + 1)"
proof (cases "dget (application_instances s) i")
  case (Some d)
  then have s': "s' = s\<lparr>application_instances := dset i (d\<lparr>last_used := now\<rparr>) (application_instances s)\<rparr>"
    using assms(2) by (simp add: get_or_create_def)
  have dk: "dict_ok (application_instances s)" using assms(1) by (simp add: pool_ok_def)
  have upd: "map (future \<circ> snd) (dset i (d\<lparr>last_used := now\<rparr>) xs) = map (future \<circ> snd) xs
      \<and> length (dset i (d\<lparr>last_used := now\<rparr>) xs) = length xs" if "dget xs i = Some d" for xs
    using that by (induction xs) (auto split: if_splits)
  show ?thesis using upd [OF Some] dk assms(1) unfolding pool_ok_def s' futures_def by simp
next
  case None
  then obtain s1 where s1: "make_space is_done s = Inr s1"
    and s': "s' = s1\<lparr>application_instances := dset i \<lparr>input_queue = next_id s1, future = next_id s1, scope = sc, last_used = now\<rparr>
                (application_instances s1), next_id := Suc (next_id s1)\<rparr>"
    using assms(2) by (auto simp: get_or_create_def res_simps Let_def)
  note m = make_space_keeps [OF assms(1) s1]
  have new: "i \<notin> fst ` set (application_instances s1)"
  proof
    assume "i \<in> fst ` set (application_instances s1)"
    then have "i \<in> fst ` set (application_instances s)" using m by blast
    with None show False by (simp add: map_of_eq_None_iff)
  qed
  have app: "dset i v (application_instances s1) = application_instances s1 @ [(i, v)]" for v
    using new by (simp add: update_nonmem_conv)
  have ok1: "pool_ok s1" using m by blast
  then have "next_id s1 \<notin> set (futures s1)" "next_id s1 \<notin> set (cancelled s1)" by (auto simp: pool_ok_def)
  then have "pool_ok s'" using ok1 new unfolding pool_ok_def s' app futures_def dict_ok_def by (auto simp: less_SucI)
  with m show ?thesis unfolding s' app by simp
qed

lemma pool_ok_forget:
  assumes "pool_ok s"
  shows "pool_ok (s\<lparr>application_instances := ddel i (application_instances s)\<rparr>)"
proof -
  let ?s = "s\<lparr>application_instances := ddel i (application_instances s)\<rparr>"
  have d: "dict_ok (application_instances ?s)" using assms by (simp add: pool_ok_def)
  have "set (futures ?s) \<subseteq> set (futures s)" "distinct (futures ?s)"
    using assms by (auto simp: futures_def AList.delete_eq distinct_map_filter pool_ok_def)
  with d assms show ?thesis unfolding pool_ok_def by auto
qed

lemma check_instances_ok:
  "pool_ok s \<Longrightarrow> check_instances outcome ds s = (s', c) \<Longrightarrow> pool_ok s' \<and> max_applications s' = max_applications s
     \<and> length (application_instances s') \<le> length (application_instances s)"
proof (induction outcome ds s rule: check_instances.induct)
  case (2 outcome i d ds s)
  let ?s = "s\<lparr>application_instances := ddel i (application_instances s)\<rparr>"
  show ?case
  proof (cases "outcome (future d) = Some Returned")
    case True
    with "2.prems"(2) have "check_instances outcome ds ?s = (s', c)" by simp
    with "2.IH"(2) [OF True refl pool_ok_forget [OF "2.prems"(1)]] True
    have "pool_ok s' \<and> max_applications s' = max_applications s \<and> length (application_instances s') \<le> length (ddel i (application_instances s))"
      by simp
    then show ?thesis using length_delete_le [of i "application_instances s"] by (blast intro: order_trans)
  next
    case False
    with 2 show ?thesis by (auto split: option.splits ending.splits)
  qed
qed simp

lemma application_checker_ok:
  assumes "pool_ok s" and "application_checker outcome (s, c) = (s', c')"
  shows "pool_ok s' \<and> max_applications s' = max_applications s
     \<and> length (application_instances s') \<le> length (application_instances s)"
proof (cases c)
  case (Handling i ds)
  let ?s = "s\<lparr>application_instances := ddel i (application_instances s)\<rparr>"
  have "check_instances outcome ds ?s = (s', c')" using assms(2) Handling by (simp add: application_checker_def)
  from check_instances_ok [OF pool_ok_forget [OF assms(1)] this] length_delete_le [of i "application_instances s"]
  show ?thesis by auto
qed (use assms check_instances_ok [OF assms(1)] in \<open>auto simp: application_checker_def\<close>)

definition pool_inv :: "int \<Rightarrow> ('i, 's) app_server \<times> ('i, 's) checker \<Rightarrow> bool" where
  "pool_inv n x \<longleftrightarrow> pool_ok (fst x) \<and> max_applications (fst x) = n \<and> int (length (application_instances (fst x))) \<le> n + 1"

interpretation pool: invariant "\<lambda>x. x = (app_server_init n, Sleeping) \<and> 0 \<le> n" pool_step "pool_inv n" for n
proof
  fix x :: "('i, 's) app_server \<times> ('i, 's) checker"
  assume "x = (app_server_init n, Sleeping) \<and> 0 \<le> n"
  then show "pool_inv n x" by (simp add: pool_inv_def app_server_init_def pool_ok_def futures_def)
next
  fix x y :: "('i, 's) app_server \<times> ('i, 's) checker"
  assume inv: "pool_inv n x" and step: "pool_step x y"
  then have ok: "pool_ok (fst x)" "max_applications (fst x) = n" "int (length (application_instances (fst x))) \<le> n + 1"
    by (auto simp: pool_inv_def)
  from step show "pool_inv n y"
  proof (cases rule: pool_step.cases)
    case (step_get is_done now i sc s q s' c)
    then show ?thesis using get_or_create_ok [of s is_done now i sc q s'] ok by (simp add: pool_inv_def)
  next
    case (step_delete is_done i s s' c)
    then show ?thesis using pool_ok_delete [of s is_done i s'] ok by (simp add: pool_inv_def)
  next
    case (step_check outcome)
    obtain s c s' c' where "x = (s, c)" "y = (s', c')" by (cases x; cases y)
    then show ?thesis using application_checker_ok [of s outcome c s' c'] step_check ok by (simp add: pool_inv_def)
  qed
qed

lemma pool_start: "pool_reachable n (app_server_init n, Sleeping)" if "0 \<le> n"
  by (rule reach_start) (simp add: that)

text \<open>
  What asking for a scope id gives. If it has an instance, the queue of that one, and only its time is
  renewed. Otherwise a queue that no instance has; of the old instances none is
  changed; none goes while there is room, and as many stay as fit; those that go are no younger than any that stays and are cancelled
  unless they are done.
\<close>

definition lru_answer :: "(nat \<Rightarrow> bool) \<Rightarrow> int \<Rightarrow> 'i \<Rightarrow> 's \<Rightarrow> ('i, 's) app_server \<Rightarrow> nat \<Rightarrow> ('i, 's) app_server \<Rightarrow> bool" where
  "lru_answer is_done now i sc s q s' \<longleftrightarrow> (case dget (application_instances s) i of
      Some d \<Rightarrow> q = input_queue d \<and> application_instances s' = dset i (d\<lparr>last_used := now\<rparr>) (application_instances s)
    | None \<Rightarrow>
        (let kept = set (application_instances s') - {(i, \<lparr>input_queue = q, future = q, scope = sc, last_used = now\<rparr>)};
             gone = set (application_instances s) - kept
         in q = next_id s \<and> kept \<subseteq> set (application_instances s)
          \<and> dget (application_instances s') i = Some \<lparr>input_queue = q, future = q, scope = sc, last_used = now\<rparr>
          \<and> int (card kept) \<le> max_applications s
          \<and> (int (length (application_instances s)) \<le> max_applications s \<longrightarrow> gone = {})
          \<and> (\<forall>x\<in>gone. is_done (future (snd x)) \<or> future (snd x) \<in> set (cancelled s'))
          \<and> (\<forall>x\<in>gone. \<forall>y\<in>kept. last_used (snd x) \<le> last_used (snd y))))"

lemma get_or_create_lru:
  assumes "pool_ok s" and "get_or_create is_done now i sc s = Inr (q, s')"
  shows "lru_answer is_done now i sc s q s'"
proof (cases "dget (application_instances s) i")
  case (Some d)
  then show ?thesis using assms(2) by (auto simp: lru_answer_def get_or_create_def)
next
  case None
  then obtain s1 where s1: "make_space is_done s = Inr s1"
    and q: "q = next_id s1"
    and s': "s' = s1\<lparr>application_instances := dset i \<lparr>input_queue = q, future = q, scope = sc, last_used = now\<rparr>
                (application_instances s1), next_id := Suc (next_id s1)\<rparr>"
    using assms(2) by (auto simp: get_or_create_def res_simps Let_def)
  note m = make_space_keeps [OF assms(1) s1]
  have new: "i \<notin> fst ` set (application_instances s1)"
  proof
    assume "i \<in> fst ` set (application_instances s1)"
    then have "i \<in> fst ` set (application_instances s)" using m by blast
    with None show False by (simp add: map_of_eq_None_iff)
  qed
  let ?new = "(i, \<lparr>input_queue = q, future = q, scope = sc, last_used = now\<rparr>)"
  have app: "application_instances s' = application_instances s1 @ [?new]"
    unfolding s' using new by (simp add: update_nonmem_conv)
  have "?new \<notin> set (application_instances s1)" using new by force
  then have kept: "set (application_instances s') - {?new} = set (application_instances s1)" by (auto simp: app)
  have "card (set (application_instances s1)) \<le> length (application_instances s1)" by (rule card_length)
  with m have c: "int (card (set (application_instances s1))) \<le> max_applications s" by linarith
  have look: "dget (application_instances s') i = Some (snd ?new)" by (simp add: s')
  have "cancelled s' = cancelled s1" by (simp add: s')
  moreover have "s1 = s" if "int (length (application_instances s)) \<le> max_applications s"
    using s1 that by (simp add: make_space.simps [of is_done s])
  ultimately show ?thesis unfolding lru_answer_def None option.case kept Let_def using m c look q by simp
qed

text \<open>
  C36: The pool of a server with \<open>max_applications\<close> not negative. Whatever scopes are asked for, deleted and cleaned up, in any order, with any clock,
  while the checker sleeps or awaits \<open>application_exception\<close> as well:
  the pool has one instance per scope id, the futures of its instances are pairwise different and none of them
  was cancelled by the server, and it holds at most \<open>max_applications\<close> plus one instances. (The class documentation
  promises \<open>max_applications\<close>; the loop that makes space compares with \<open>>\<close>, before the new one is added. An instance that the checker
  drops by mistake, see \<open>running_instance_dropped\<close>, runs on outside of the pool and is not counted.) Asking for a scope id that has an instance gives its
  queue; for a new one the least recently used instances go if there are more than \<open>max_applications\<close>, and are cancelled unless
  done. Deleting an instance cancels it unless it is done, and leaves the others as they are.
\<close>
theorem app_pool_invariant:
  assumes "pool_reachable n (s, c)"
  shows "pool_ok s \<and> max_applications s = n \<and> int (length (application_instances s)) \<le> n + 1
    \<and> (get_or_create is_done now i sc s = Inr (q, s1) \<longrightarrow> lru_answer is_done now i sc s q s1)
    \<and> (delete_application_instance is_done i s = Inr s2 \<longrightarrow> (\<exists>d. dget (application_instances s) i = Some d
         \<and> application_instances s2 = filter (\<lambda>(j, e). i \<noteq> j) (application_instances s)
         \<and> (is_done (future d) \<or> future d \<in> set (cancelled s2))))"
proof -
  have inv: "pool_ok s \<and> max_applications s = n \<and> int (length (application_instances s)) \<le> n + 1"
    using pool.reach_inv [OF assms] by (simp add: pool_inv_def)
  moreover have "get_or_create is_done now i sc s = Inr (q, s1) \<longrightarrow> lru_answer is_done now i sc s q s1"
    by (rule impI, rule get_or_create_lru) (use inv in auto)
  moreover have "delete_application_instance is_done i s = Inr s2 \<longrightarrow> (\<exists>d. dget (application_instances s) i = Some d
      \<and> application_instances s2 = filter (\<lambda>(j, e). i \<noteq> j) (application_instances s) \<and> (is_done (future d) \<or> future d \<in> set (cancelled s2)))"
  proof
    assume "delete_application_instance is_done i s = Inr s2"
    then obtain d where "dget (application_instances s) i = Some d"
      "s2 = s\<lparr>application_instances := ddel i (application_instances s),
         cancelled := (if is_done (future d) then cancelled s else cancelled s @ [future d])\<rparr>"
      by (auto simp: delete_application_instance_def res_simps)
    then show "\<exists>d. dget (application_instances s) i = Some d
      \<and> application_instances s2 = filter (\<lambda>(j, e). i \<noteq> j) (application_instances s) \<and> (is_done (future d) \<or> future d \<in> set (cancelled s2))"
      by (intro exI [of _ d]) (simp add: AList.delete_eq split_def)
  qed
  ultimately show ?thesis by blast
qed

lemma app_pool_invariant_witness:
  "\<exists>s :: (string, unit) app_server. pool_reachable 1 (s, Sleeping) \<and> length (application_instances s) = 2
     \<and> int (length (application_instances s)) \<le> 1 + 1"
proof -
  define s1 :: "(string, unit) app_server" where
    "s1 = snd (projr (get_or_create (\<lambda>_. False) 5 ''a'' () (app_server_init 1)))"
  define s2 :: "(string, unit) app_server" where
    "s2 = snd (projr (get_or_create (\<lambda>_. False) 6 ''b'' () s1))"
  have g1: "get_or_create (\<lambda>_. False) 5 ''a'' () (app_server_init 1) = Inr (0, s1)"
    by (simp add: s1_def get_or_create_def app_server_init_def make_space.simps Let_def)
  have g2: "get_or_create (\<lambda>_. False) 6 ''b'' () s1 = Inr (1, s2)"
    by (simp add: s2_def s1_def get_or_create_def app_server_init_def make_space.simps Let_def)
  have "pool_reachable 1 (s2, Sleeping)"
    by (rule reach_next [OF reach_next [OF pool_start step_get [OF g1]] step_get [OF g2]]) simp
  moreover from app_pool_invariant [OF this] have "int (length (application_instances s2)) \<le> 1 + 1" by blast
  moreover have "length (application_instances s2) = 2"
    by (simp add: s2_def s1_def get_or_create_def app_server_init_def make_space.simps Let_def)
  ultimately show ?thesis by blast
qed

text \<open>A round in which every instance is running or has returned.\<close>

lemma check_returned:
  assumes "\<And>x. x \<in> set ds \<Longrightarrow> outcome (future (snd x)) \<in> {None, Some Returned}"
  shows "check_instances outcome ds s = (s\<lparr>application_instances
    := filter (\<lambda>(i, d). i \<notin> fst ` {x \<in> set ds. outcome (future (snd x)) \<noteq> None}) (application_instances s)\<rparr>, Sleeping)"
  using assms
proof (induction ds arbitrary: s)
  case Nil
  then show ?case by (simp add: split_def)
next
  case (Cons x ds)
  obtain i d where x: "x = (i, d)" by (cases x)
  have IH: "check_instances outcome ds s = (s\<lparr>application_instances
    := filter (\<lambda>(i, d). i \<notin> fst ` {x \<in> set ds. outcome (future (snd x)) \<noteq> None}) (application_instances s)\<rparr>, Sleeping)" for s
    using Cons by simp
  consider "outcome (future d) = None" | "outcome (future d) = Some Returned" using Cons.prems [of x] x by auto
  then show ?case
  proof cases
    case 1
    then have "{y \<in> set (x # ds). outcome (future (snd y)) \<noteq> None} = {y \<in> set ds. outcome (future (snd y)) \<noteq> None}"
      using x by auto
    then show ?thesis using IH 1 x by simp
  next
    case 2
    then have "{y \<in> set (x # ds). outcome (future (snd y)) \<noteq> None} = insert x {y \<in> set ds. outcome (future (snd y)) \<noteq> None}"
      using x by auto
    then show ?thesis using IH 2 x by (simp add: AList.delete_eq filter_filter split_def eq_commute [of i])
  qed
qed

text \<open>
  A round of the checker in which nothing has failed or been cancelled removes exactly the instances whose futures are done.
  But after an exception it removes by scope id: if, while the exception of a finished instance is handled, a new instance is
  made for the same scope, that new one is dropped from the pool, running and not cancelled.
\<close>
theorem app_checker_removes_done:
  assumes "pool_ok s" and "\<And>x. x \<in> set (application_instances s) \<Longrightarrow> outcome (future (snd x)) \<in> {None, Some Returned}"
  shows "application_checker outcome (s, Sleeping)
      = (s\<lparr>application_instances := filter (\<lambda>(i, d). outcome (future d) = None) (application_instances s)\<rparr>, Sleeping)
    \<and> (let s' = fst (application_checker outcome' (t, Handling i [])) in dget (application_instances s') i = None \<and> cancelled s' = cancelled t)"
proof -
  have dk: "dict_ok (application_instances s)" using assms(1) by (simp add: pool_ok_def)
  have iff: "i \<in> fst ` {x \<in> set (application_instances s). outcome (future (snd x)) \<noteq> None} \<longleftrightarrow> outcome (future d) \<noteq> None"
    if "(i, d) \<in> set (application_instances s)" for i d
    using that dict_ok_mem [OF dk, of i] by (force simp: image_iff)
  have "filter (\<lambda>(i, d). i \<notin> fst ` {x \<in> set (application_instances s). outcome (future (snd x)) \<noteq> None}) (application_instances s)
      = filter (\<lambda>(i, d). outcome (future d) = None) (application_instances s)"
  proof (intro filter_cong refl)
    fix x assume "x \<in> set (application_instances s)"
    with iff [of "fst x" "snd x"] show "(case x of (i, d) \<Rightarrow> i \<notin> fst ` {x \<in> set (application_instances s). outcome (future (snd x)) \<noteq> None})
        = (case x of (i, d) \<Rightarrow> outcome (future d) = None)" by (simp add: split_def)
  qed
  with check_returned [of "application_instances s" outcome s] assms(2) show ?thesis by (simp add: application_checker_def Let_def)
qed

lemma app_checker_removes_done_witness:
  "let d = \<lparr>input_queue = 0, future = 0, scope = (), last_used = 5\<rparr>; e = \<lparr>input_queue = 1, future = 1, scope = (), last_used = 5\<rparr>;
       s = \<lparr>max_applications = 3, application_instances = [(''a'', d), (''b'', e)], next_id = 2, cancelled = []\<rparr> :: (string, unit) app_server
   in application_checker (\<lambda>f. if f = 0 then Some Returned else None) (s, Sleeping) = (s\<lparr>application_instances := [(''b'', e)]\<rparr>, Sleeping)"
proof -
  let ?d = "\<lparr>input_queue = 0, future = 0, scope = (), last_used = 5\<rparr> :: unit app_instance"
  let ?e = "\<lparr>input_queue = 1, future = 1, scope = (), last_used = 5\<rparr> :: unit app_instance"
  let ?s = "\<lparr>max_applications = 3, application_instances = [(''a'', ?d), (''b'', ?e)], next_id = 2, cancelled = []\<rparr> :: (string, unit) app_server"
  have ok: "pool_ok ?s" by (simp add: pool_ok_def futures_def dict_ok_def)
  have "application_checker (\<lambda>f. if f = 0 then Some Returned else None) (?s, Sleeping)
      = (?s\<lparr>application_instances := filter (\<lambda>(i, d). (if future d = 0 then Some Returned else None) = None) (application_instances ?s)\<rparr>, Sleeping)"
    by (rule app_checker_removes_done [OF ok, THEN conjunct1]) simp
  then show ?thesis by simp
qed

text \<open>
  A run in which this happens: the instance 0 fails; while its exception is handled, it is deleted and its scope is asked for again;
  the new instance 1 runs and is not in the pool afterwards.
\<close>

lemma running_instance_dropped:
  fixes outcome
  defines "outcome \<equiv> (\<lambda>f :: nat. if f = 0 then Some Failed else None)" and "is_done \<equiv> (\<lambda>f :: nat. f = 0)"
  shows "let s0 = app_server_init 3 :: (string, unit) app_server;
      s1 = snd (projr (get_or_create is_done 5 ''a'' () s0));
      (s2, c) = application_checker outcome (s1, Sleeping);
      s3 = projr (delete_application_instance is_done ''a'' s2);
      s4 = snd (projr (get_or_create is_done 7 ''a'' () s3));
      (s5, c') = application_checker outcome (s4, c)
    in dget (application_instances s4) ''a'' = Some \<lparr>input_queue = 1, future = 1, scope = (), last_used = 7\<rparr>
       \<and> outcome 1 = None \<and> application_instances s5 = [] \<and> cancelled s5 = []"
  by (simp add: app_server_init_def get_or_create_def make_space.simps application_checker_def delete_application_instance_def
      dget_or_def Let_def outcome_def is_done_def)

text \<open>
  An instance whose future was cancelled, by itself or because it was evicted while the checker had it on its list, ends the
  checker: no instance is ever cleaned up again.
\<close>

lemma cancelled_ends_checker:
  assumes "application_instances s = (i, d) # ds" and "outcome (future d) = Some WasCancelled"
  shows "application_checker outcome (s, Sleeping) = (s, Ended CancelledError)"
    and "application_checker outcome' (t, Ended e) = (t, Ended e)"
  using assms by (simp_all add: application_checker_def)

end
