(* ===== verification/Timeout.thy ===== *)
theory Timeout
  imports Prelude
begin

text \<open>
  \<open>src/asgiref/timeout.py\<close>: the context manager that cancels its task after a while. The event loop's part is
  modelled as the callbacks it still has to make: one put with \<open>call_soon\<close>, one with \<open>call_at\<close>. Times are
  integers. The task that runs the body is the parameter of entering; \<open>exc\<close> is the exception that leaves
  the body.
\<close>

section \<open>The object and the loop\<close>

record timer =
  tm_timeout :: "int option"
  tm_task :: "nat option"
  tm_cancelled :: bool
  tm_cancel_handler :: bool
  tm_cancel_at :: "int option"
  loop_soon :: bool
  loop_at :: "int option"
  cancels :: "nat list"

text \<open>\<open>cancels\<close> lists the calls of \<open>cancel\<close> on tasks.\<close>

definition timer_new :: "int option \<Rightarrow> timer" where
  "timer_new t = \<lparr>tm_timeout = t, tm_task = None, tm_cancelled = False, tm_cancel_handler = False, tm_cancel_at = None,
     loop_soon = False, loop_at = None, cancels = []\<rparr>"

definition do_enter :: "nat option \<Rightarrow> int \<Rightarrow> timer \<Rightarrow> timer \<times> py_error option" where
  "do_enter current now s =
     (case tm_timeout s of
        None \<Rightarrow> (s, None)
      | Some t \<Rightarrow>
          (let s1 = s\<lparr>tm_task := current\<rparr> in
           if current = None then (s1, Some RuntimeError)
           else if t \<le> 0 then (s1\<lparr>loop_soon := True\<rparr>, None)
           else (s1\<lparr>tm_cancel_at := Some (now + t), tm_cancel_handler := True, loop_at := Some (now + t)\<rparr>, None)))"

definition cancel_task :: "timer \<Rightarrow> timer" where
  "cancel_task s =
     (case tm_task s of None \<Rightarrow> s | Some t \<Rightarrow> s\<lparr>cancels := cancels s @ [t], tm_cancelled := True\<rparr>)"

text \<open>What \<open>_do_exit\<close> raises in place of the exception of the body.\<close>

definition do_exit :: "py_error option \<Rightarrow> timer \<Rightarrow> timer \<times> py_error option" where
  "do_exit exc s =
     (if exc = Some CancelledError \<and> tm_cancelled s
      then (s\<lparr>tm_cancel_handler := False, tm_task := None\<rparr>, Some TimeoutError)
      else
        (let s1 = (if tm_timeout s \<noteq> None \<and> tm_cancel_handler s
                   then s\<lparr>loop_at := None, tm_cancel_handler := False\<rparr> else s)
         in (s1\<lparr>tm_task := None\<rparr>, None)))"

definition expired :: "timer \<Rightarrow> bool" where
  "expired s = tm_cancelled s"

definition remaining :: "int \<Rightarrow> timer \<Rightarrow> int option" where
  "remaining now s = map_option (\<lambda>at. max (at - now) 0) (tm_cancel_at s)"

text \<open>The loop makes a pending call.\<close>

definition run_soon :: "timer \<Rightarrow> timer" where
  "run_soon s = (if loop_soon s then cancel_task (s\<lparr>loop_soon := False\<rparr>) else s)"

definition run_timer :: "int \<Rightarrow> timer \<Rightarrow> timer" where
  "run_timer now s =
     (case loop_at s of None \<Rightarrow> s | Some at \<Rightarrow> if at \<le> now then cancel_task (s\<lparr>loop_at := None\<rparr>) else s)"

section \<open>Runs\<close>

text \<open>Before entering, inside the body (entered at a time, by a task), after leaving with a result.\<close>

datatype stage = Before | Inside int nat | After "int \<times> nat" "py_error option" "py_error option"

inductive timer_step :: "int \<times> stage \<times> timer \<Rightarrow> int \<times> stage \<times> timer \<Rightarrow> bool" where
  tick: "now \<le> now' \<Longrightarrow> timer_step (now, g, s) (now', g, s)"
| enter: "do_enter (Some t) now s = (s', None) \<Longrightarrow> timer_step (now, Before, s) (now, Inside now t, s')"
| soon: "timer_step (now, g, s) (now, g, run_soon s)"
| timer: "timer_step (now, g, s) (now, g, run_timer now s)"
| leave: "do_exit exc s = (s', r) \<Longrightarrow> timer_step (now, Inside e t, s) (now, After (e, t) exc r, s')"

inductive_cases timer_stepE: "timer_step x y"

abbreviation timer_run :: "int option \<Rightarrow> int \<times> stage \<times> timer \<Rightarrow> bool" where
  "timer_run v \<equiv> reach (\<lambda>x. snd x = (Before, timer_new v)) timer_step"

text \<open>The invariant, by stage.\<close>

definition due :: "int option \<Rightarrow> int \<Rightarrow> int \<Rightarrow> bool" where
  "due v entered now \<longleftrightarrow> (\<exists>t. v = Some t \<and> (t \<le> 0 \<or> entered + t \<le> now))"

text \<open>Nothing was cancelled yet, with these calls pending; or the one cancellation is made.\<close>

definition waiting :: "bool \<Rightarrow> int option \<Rightarrow> timer \<Rightarrow> bool" where
  "waiting soon at s \<longleftrightarrow> loop_soon s = soon \<and> loop_at s = at \<and> \<not> tm_cancelled s \<and> cancels s = []"

definition fired :: "nat \<Rightarrow> timer \<Rightarrow> bool" where
  "fired t s \<longleftrightarrow> \<not> loop_soon s \<and> loop_at s = None \<and> tm_cancelled s \<and> cancels s = [t]"

definition inside_ok :: "int option \<Rightarrow> int \<Rightarrow> nat \<Rightarrow> int \<Rightarrow> timer \<Rightarrow> bool" where
  "inside_ok v e t now s \<longleftrightarrow> tm_timeout s = v \<and> e \<le> now
     \<and> (case v of
          None \<Rightarrow> tm_task s = None \<and> waiting False None s
        | Some d \<Rightarrow> tm_task s = Some t \<and>
            (if d \<le> 0 then tm_cancel_at s = None \<and> (waiting True None s \<or> fired t s)
             else tm_cancel_at s = Some (e + d) \<and> (waiting False (Some (e + d)) s \<or> fired t s \<and> e + d \<le> now)))"

fun timer_ok :: "int option \<Rightarrow> int \<times> stage \<times> timer \<Rightarrow> bool" where
  "timer_ok v (now, Before, s) \<longleftrightarrow> s = timer_new v"
| "timer_ok v (now, Inside e t, s) \<longleftrightarrow> inside_ok v e t now s"
| "timer_ok v (now, After (e, t) exc r, s) \<longleftrightarrow> tm_task s = None \<and> e \<le> now
     \<and> (if tm_cancelled s then cancels s = [t] \<and> due v e now else cancels s = [])
     \<and> r = (if exc = Some CancelledError \<and> tm_cancelled s then Some TimeoutError else None)"

lemma due_later: "due v e now \<Longrightarrow> now \<le> now' \<Longrightarrow> due v e now'"
  by (auto simp: due_def)

lemma inside_cases:
  assumes "inside_ok v e t now s"
  obtains "v = None" "tm_task s = None" "waiting False None s"
  | d where "v = Some d" "d \<le> 0" "tm_task s = Some t" "tm_cancel_at s = None" "waiting True None s"
  | d where "v = Some d" "d > 0" "tm_task s = Some t" "tm_cancel_at s = Some (e + d)" "waiting False (Some (e + d)) s"
  | d where "v = Some d" "tm_task s = Some t" "fired t s" "due v e now" "d > 0 \<longrightarrow> tm_cancel_at s = Some (e + d) \<and> e + d \<le> now"
      "d \<le> 0 \<longrightarrow> tm_cancel_at s = None"
  using assms by (cases v) (auto simp: inside_ok_def due_def split: if_splits)

lemma timer_ok_tick: "timer_ok v (now, g, s) \<Longrightarrow> now \<le> now' \<Longrightarrow> timer_ok v (now', g, s)"
proof (cases g)
  case (Inside e t)
  then show "timer_ok v (now, g, s) \<Longrightarrow> now \<le> now' \<Longrightarrow> ?thesis"
    by (cases v) (auto simp: inside_ok_def)
next
  case (After et exc r)
  then show "timer_ok v (now, g, s) \<Longrightarrow> now \<le> now' \<Longrightarrow> ?thesis"
    using due_later [of v "fst et" now now'] by (cases et) (simp split: if_splits)
qed simp

lemma timer_ok_enter:
  "do_enter (Some t) now (timer_new v) = (s', None) \<Longrightarrow> timer_ok v (now, Inside now t, s')"
  by (cases v) (auto simp: do_enter_def timer_new_def Let_def inside_ok_def waiting_def split: if_splits)

lemma no_task: "tm_task s = None \<Longrightarrow> cancel_task s = s"
  by (simp add: cancel_task_def)

lemma timer_ok_soon:
  assumes "timer_ok v (now, g, s)"
  shows "timer_ok v (now, g, run_soon s)"
proof (cases g)
  case Before
  with assms show ?thesis by (simp add: run_soon_def timer_new_def)
next
  case (Inside e t)
  with assms have ok: "inside_ok v e t now s" by simp
  then show ?thesis
    by (cases rule: inside_cases)
      (use ok in \<open>simp_all add: Inside run_soon_def inside_ok_def waiting_def fired_def cancel_task_def due_def\<close>)
next
  case (After et exc r)
  with assms show ?thesis by (cases et) (simp add: run_soon_def no_task split: if_splits)
qed

lemma timer_ok_timer:
  assumes "timer_ok v (now, g, s)"
  shows "timer_ok v (now, g, run_timer now s)"
proof (cases g)
  case Before
  with assms show ?thesis by (simp add: run_timer_def timer_new_def)
next
  case (Inside e t)
  with assms have ok: "inside_ok v e t now s" by simp
  then show ?thesis
    by (cases rule: inside_cases; cases "loop_at s")
      (use ok in \<open>simp_all add: Inside run_timer_def inside_ok_def waiting_def fired_def cancel_task_def due_def\<close>)
next
  case (After et exc r)
  with assms show ?thesis by (cases et) (simp add: run_timer_def no_task split: if_splits option.splits)
qed

lemma timer_ok_leave:
  assumes "timer_ok v (now, Inside e t, s)" and "do_exit exc s = (s', r)"
  shows "timer_ok v (now, After (e, t) exc r, s')"
proof -
  from assms(1) have ok: "inside_ok v e t now s" and "e \<le> now" by (simp_all add: inside_ok_def)
  have s': "tm_task s' = None" "cancels s' = cancels s" "tm_cancelled s' = tm_cancelled s"
    "r = (if exc = Some CancelledError \<and> tm_cancelled s then Some TimeoutError else None)"
    using assms(2) by (auto simp: do_exit_def Let_def split: if_splits)
  from ok show ?thesis
    by (cases rule: inside_cases) (use \<open>e \<le> now\<close> in \<open>simp_all add: s' waiting_def fired_def\<close>)
qed

interpretation tm: invariant "\<lambda>x. snd x = (Before, timer_new v)" timer_step "timer_ok v"
  for v :: "int option"
proof
  fix x y assume i: "timer_ok v x" and s: "timer_step x y"
  from s i show "timer_ok v y"
  proof (cases rule: timer_step.cases)
    case (enter t now s s')
    then show ?thesis using i timer_ok_enter by simp
  qed (simp_all only: timer_ok_tick timer_ok_soon timer_ok_timer timer_ok_leave)
qed auto

lemmas timer_run_ok = tm.reach_inv

section \<open>Properties\<close>

text \<open>
  A timeout cancels its own task at most once, never before the time is over, and never after the block
  was left; without a timeout never. Leaving the block raises \<open>TimeoutError\<close> exactly when the body was ended
  by a \<open>CancelledError\<close> after this cancellation; every other exception, a cancellation from outside before
  the time is over included, passes through.
\<close>
theorem timeout_sound:
  assumes "timer_run v (now, g, s)"
  shows "case g of
      Before \<Rightarrow> cancels s = []
    | Inside e t \<Rightarrow> cancels s = (if expired s then [t] else []) \<and> (expired s \<longrightarrow> due v e now)
    | After et exc r \<Rightarrow> cancels s = (if expired s then [snd et] else []) \<and> (expired s \<longrightarrow> due v (fst et) now)
        \<and> r = (if exc = Some CancelledError \<and> expired s then Some TimeoutError else None)
        \<and> cancels (run_soon s) = cancels s \<and> cancels (run_timer now s) = cancels s"
proof -
  have ok: "timer_ok v (now, g, s)" using timer_run_ok [OF assms] .
  show ?thesis
  proof (cases g)
    case (After et exc r)
    then have "tm_task s = None" using ok by (cases et) simp
    then have "cancels (run_soon s) = cancels s" "cancels (run_timer now s) = cancels s"
      by (auto simp: run_soon_def run_timer_def cancel_task_def split: option.split)
    with After ok show ?thesis by (cases et) (auto simp: expired_def)
  next
    case (Inside e t)
    then have "inside_ok v e t now s" using ok by simp
    then show ?thesis by (cases rule: inside_cases) (simp_all add: Inside expired_def waiting_def fired_def)
  qed (use ok in \<open>simp add: timer_new_def\<close>)
qed

lemma timer_run_start: "timer_run v (now, Before, timer_new v)"
  by (rule reach_start) simp

lemma timeout_sound_witness:
  "\<exists>s. timer_run (Some 5) (7, After (2, 1) (Some CancelledError) (Some TimeoutError), s) \<and> cancels s = [1]"
proof -
  have en: "do_enter (Some 1) 2 (timer_new (Some 5)) =
      (timer_new (Some 5)\<lparr>tm_task := Some 1, tm_cancel_at := Some 7, tm_cancel_handler := True, loop_at := Some 7\<rparr>, None)"
    by (simp add: do_enter_def timer_new_def Let_def)
  let ?s1 = "timer_new (Some 5)\<lparr>tm_task := Some 1, tm_cancel_at := Some 7, tm_cancel_handler := True, loop_at := Some 7\<rparr>"
  let ?s2 = "run_timer 7 ?s1"
  have ex: "do_exit (Some CancelledError) ?s2 = (?s2\<lparr>tm_cancel_handler := False, tm_task := None\<rparr>, Some TimeoutError)"
    by (simp add: do_exit_def run_timer_def cancel_task_def timer_new_def)
  have "timer_run (Some 5) (2, Inside 2 1, ?s1)" by (rule reach_next [OF timer_run_start enter [OF en]])
  then have "timer_run (Some 5) (7, Inside 2 1, ?s1)" by (rule reach_next) (rule tick, simp)
  then have "timer_run (Some 5) (7, Inside 2 1, ?s2)" by (rule reach_next) (rule timer)
  then have r: "timer_run (Some 5) (7, After (2, 1) (Some CancelledError) (Some TimeoutError), ?s2\<lparr>tm_cancel_handler := False, tm_task := None\<rparr>)"
    by (rule reach_next) (rule leave [OF ex])
  moreover from timeout_sound [OF r]
  have "cancels (?s2\<lparr>tm_cancel_handler := False, tm_task := None\<rparr>) = [1]"
    by (simp add: expired_def run_timer_def cancel_task_def timer_new_def)
  ultimately show ?thesis by blast
qed

text \<open>
  C37: The timeout does come: whatever happened inside the block before, once the loop runs its pending calls
  after the time is over (at once, for a timeout that is not positive), the task has been cancelled, exactly once; \<open>remaining\<close> then is zero for a positive timeout, and
  \<open>None\<close> for another one, which has no time to be cancelled at.
\<close>
theorem timeout_fires:
  assumes "timer_run (Some v) (now, Inside e t, s)" and "v \<le> 0 \<or> e + v \<le> now"
  shows "let s' = run_timer now (run_soon s) in expired s' \<and> cancels s' = [t]
    \<and> remaining now s' = (if 0 < v then Some 0 else None)"
proof -
  have "inside_ok (Some v) e t now s" using timer_run_ok [OF assms(1)] by simp
  then show ?thesis
    by (cases rule: inside_cases)
      (use assms(2) in \<open>auto simp: Let_def run_soon_def run_timer_def cancel_task_def expired_def remaining_def waiting_def fired_def\<close>)
qed

lemma timeout_fires_witness:
  "\<exists>s. timer_run (Some 5) (7, Inside 2 1, s) \<and> \<not> expired s \<and> cancels (run_timer 7 (run_soon s)) = [1]"
proof -
  have en: "do_enter (Some 1) 2 (timer_new (Some 5)) =
      (timer_new (Some 5)\<lparr>tm_task := Some 1, tm_cancel_at := Some 7, tm_cancel_handler := True, loop_at := Some 7\<rparr>, None)"
    by (simp add: do_enter_def timer_new_def Let_def)
  let ?s1 = "timer_new (Some 5)\<lparr>tm_task := Some 1, tm_cancel_at := Some 7, tm_cancel_handler := True, loop_at := Some 7\<rparr>"
  have "timer_run (Some 5) (2, Inside 2 1, ?s1)" by (rule reach_next [OF timer_run_start enter [OF en]])
  then have r: "timer_run (Some 5) (7, Inside 2 1, ?s1)" by (rule reach_next) (rule tick, simp)
  with timeout_fires [OF r] show ?thesis by (intro exI [of _ ?s1]) (simp add: expired_def timer_new_def Let_def)
qed

end
