(* ===== verification/Envium.thy ===== *)
theory Envium
  imports PyText
begin

text \<open>
  \<open>src/envium\<close>: trees of typed variables (\<open>vars.py\<close>) that are read from the process environment
  (\<open>environ.py\<close>), from the terminal (\<open>secrets.py\<close>) or set by the program (\<open>ctx.py\<close>).

  A group is modelled with its children in the order of \<open>dir\<close>, under their attribute names, so a variable's
  \<open>_name\<close>, \<open>_parent\<close> and \<open>_root\<close> are its place in the tree. Values are booleans, integers and ASCII strings,
  \<open>None\<close> aside; types are their classes and unions of them. The functions behind computed variables are the
  users': a getter is a parameter that reads the tree, a setter one that gives a new tree.
\<close>

section \<open>Values and types\<close>

datatype pyval = PyBool bool | PyInt int | PyStr string

datatype pytype = TBool | TInt | TStr | TNone | TUnion "pytype list"

fun truthy :: "pyval option \<Rightarrow> bool" where
  "truthy None = False"
| "truthy (Some (PyBool b)) = b"
| "truthy (Some (PyInt i)) = (i \<noteq> 0)"
| "truthy (Some (PyStr s)) = (s \<noteq> [])"

fun type_of_val :: "pyval \<Rightarrow> pytype" where
  "type_of_val (PyBool b) = TBool"
| "type_of_val (PyInt i) = TInt"
| "type_of_val (PyStr s) = TStr"

text \<open>\<open>str(x)\<close>.\<close>

fun py_str :: "pyval option \<Rightarrow> string" where
  "py_str None = ''None''"
| "py_str (Some (PyBool b)) = (if b then ''True'' else ''False'')"
| "py_str (Some (PyInt i)) = str_of_int i"
| "py_str (Some (PyStr s)) = s"

text \<open>\<open>int(s)\<close>: surrounding white space, a sign, single underscores between digits.\<close>

definition py_int :: "string \<Rightarrow> int res" where
  "py_int s =
     (let t = strip s;
          (neg, d) = (if t \<noteq> [] \<and> hd t = CHR ''-'' then (True, tl t)
                      else if t \<noteq> [] \<and> hd t = CHR ''+'' then (False, tl t) else (False, t));
          parts = split_on (CHR ''_'') d
      in if list_all isdigit parts
         then Inr ((if neg then -1 else 1) * int (nat_of_digits (concat parts)))
         else Inl ValueError)"

text \<open>
  \<open>isinstance\<close> with a class, or with a union: Python before 3.10 raises \<open>TypeError\<close> there (\<open>unions\<close> is false).
\<close>

fun py_isinstance :: "bool \<Rightarrow> pyval \<Rightarrow> pytype \<Rightarrow> bool res" where
  "py_isinstance unions v TBool = Inr (type_of_val v = TBool)"
| "py_isinstance unions v TInt = Inr (type_of_val v \<in> {TInt, TBool})"
| "py_isinstance unions v TStr = Inr (type_of_val v = TStr)"
| "py_isinstance unions v TNone = Inr False"
| "py_isinstance unions v (TUnion ts) =
     (if unions then Inr (list_ex (\<lambda>t. py_isinstance unions v t = Inr True) ts) else Inl TypeError)"

section \<open>Errors\<close>

datatype envium_error =
    RedefinedVarError string
  | WrongTypeError string pytype pytype
  | NoTypeError string
  | NoValueError string pytype
  | ComputedVarError string py_error
  | UndefinedVarError string string
  | ValidationErrors "envium_error list"
  | EnviumError

datatype env_exn = Py py_error | Envium envium_error

type_synonym 'a eres = "env_exn + 'a"

definition liftE :: "'a res \<Rightarrow> 'a eres" where
  "liftE r = map_sum Py id r"

lemma liftE_simps [simp]: "liftE (Inl e) = Inl (Py e)" "liftE (Inr x) = Inr x"
  by (simp_all add: liftE_def)

section \<open>Variables and groups\<close>

text \<open>\<open>EnvVar raw\<close>, \<open>SecretVar value_from_input\<close>.\<close>

datatype var_kind = CtxVar | EnvVar bool | SecretVar bool

text \<open>
  \<open>fv_fget\<close> and \<open>fv_fset\<close> number the user's functions of a computed variable. \<open>fv_shadow\<close> is the plain value
  that replaced the variable as an attribute of its group; the group's list of children keeps the variable.
\<close>

record fvar =
  fv_kind :: var_kind
  fv_type :: "pytype option"
  fv_optional :: bool
  fv_value :: "pyval option"
  fv_default :: "pyval option"
  fv_computed :: bool
  fv_fget :: "nat option"
  fv_fset :: "nat option"
  fv_ready :: bool
  fv_shadow :: "pyval option option"

text \<open>\<open>g_mro\<close>: the annotations of the classes of the group, the most derived first.\<close>

record ginfo =
  g_raw :: bool
  g_load :: bool
  g_mro :: "(string, pytype) dict list"
  g_ready :: bool
  g_shadow :: "pyval option option"

datatype node = Fin fvar | Grp ginfo "(string \<times> node) list"

text \<open>\<open>factory\<close> is what \<open>default_factory()\<close> returned, if there is one.\<close>

definition var_new :: "var_kind \<Rightarrow> pyval option \<Rightarrow> pyval option option \<Rightarrow> fvar" where
  "var_new k dflt factory =
     \<lparr>fv_kind = k, fv_type = None, fv_optional = False, fv_value = None,
      fv_default = (case factory of Some d \<Rightarrow> d | None \<Rightarrow> dflt),
      fv_computed = False, fv_fget = None, fv_fset = None, fv_ready = False, fv_shadow = None\<rparr>"

definition computed_new :: "var_kind \<Rightarrow> nat option \<Rightarrow> nat option \<Rightarrow> fvar" where
  "computed_new k fget fset = (var_new k None None)\<lparr>fv_computed := True, fv_fget := fget, fv_fset := fset\<rparr>"

definition secret :: "pyval option \<Rightarrow> pyval option option \<Rightarrow> bool \<Rightarrow> fvar" where
  "secret dflt factory value_from_input =
     var_new (SecretVar (if truthy dflt then False else value_from_input)) dflt factory"

record env_world =
  os_environ :: "(string, string) dict"
  run_getter :: "nat \<Rightarrow> node \<Rightarrow> pyval option res"
  run_setter :: "nat \<Rightarrow> pyval option \<Rightarrow> node \<Rightarrow> node eres"
  unions_ok :: bool
  getpass :: "string \<Rightarrow> string"

section \<open>Names\<close>

definition group_full :: "string \<Rightarrow> ginfo \<Rightarrow> string \<Rightarrow> string" where
  "group_full parent g n = (if g_raw g then n else parent @ ''.'' @ n)"

definition is_raw :: "fvar \<Rightarrow> bool" where
  "is_raw v \<longleftrightarrow> fv_kind v = EnvVar True"

definition var_full :: "string \<Rightarrow> fvar \<Rightarrow> string \<Rightarrow> string" where
  "var_full parent v n = (if is_raw v then n else parent @ ''.'' @ n)"

text \<open>\<open>_get_env_name\<close>, from the full name and the name.\<close>

definition get_env_name :: "fvar \<Rightarrow> string \<Rightarrow> string \<Rightarrow> string" where
  "get_env_name v full n =
     upper (if is_raw v then n
            else map (\<lambda>c. if c = CHR ''.'' then CHR ''_'' else c) (filter (\<lambda>c. c \<noteq> CHR ''_'') full))"

section \<open>Processing\<close>

definition from_str :: "fvar \<Rightarrow> string \<Rightarrow> pyval res" where
  "from_str v s =
     (case fv_type v of
        Some TBool \<Rightarrow> Inr (PyBool (s = ''True''))
      | Some TInt \<Rightarrow> bindR (py_int s) (\<lambda>i. Inr (PyInt i))
      | Some TStr \<Rightarrow> Inr (PyStr s)
      | _ \<Rightarrow> Inl TypeError)"

text \<open>\<open>flat_annotations\<close>: the classes are merged from the most derived on, so a base class wins.\<close>

definition flat_annotations :: "(string, pytype) dict list \<Rightarrow> (string, pytype) dict" where
  "flat_annotations mro = foldl (foldl (\<lambda>d (k, t). dset k t d)) [] mro"

definition annotate :: "ginfo \<Rightarrow> string \<Rightarrow> fvar \<Rightarrow> fvar" where
  "annotate g n v =
     (let ty = dget (flat_annotations (g_mro g)) n in
      (case ty of
         Some (TUnion ts) \<Rightarrow> if TNone \<in> set ts then v\<lparr>fv_optional := True, fv_type := Some (hd ts)\<rparr>
                            else v\<lparr>fv_optional := False, fv_type := ty\<rparr>
       | _ \<Rightarrow> v\<lparr>fv_optional := False, fv_type := ty\<rparr>))"

text \<open>What the getter of a computed variable gives on the tree.\<close>

definition compute :: "env_world \<Rightarrow> fvar \<Rightarrow> node \<Rightarrow> pyval option res" where
  "compute w v root = (case fv_fget v of None \<Rightarrow> Inr (fv_value v) | Some f \<Rightarrow> run_getter w f root)"

text \<open>\<open>_init_value\<close> of each class, for the variable \<open>n\<close> of the group \<open>g\<close> with the full name \<open>full\<close>.\<close>

definition init_value :: "env_world \<Rightarrow> string \<Rightarrow> ginfo \<Rightarrow> string \<Rightarrow> fvar \<Rightarrow> node \<Rightarrow> fvar res" where
  "init_value w full g n v root =
     (if fv_computed v then bindR (compute w v root) (\<lambda>x. Inr (v\<lparr>fv_value := x\<rparr>))
      else
        (case fv_kind v of
           EnvVar raw \<Rightarrow>
             bindR (if g_load g
                    then (case dget (os_environ w) (get_env_name v full n) of
                            None \<Rightarrow> Inr None
                          | Some s \<Rightarrow> if s = ''None'' \<or> s = [] then Inr None
                                     else bindR (from_str v s) (\<lambda>x. Inr (Some x)))
                    else Inr (fv_value v))
               (\<lambda>x. Inr (v\<lparr>fv_value := (if x = None then fv_default v else x)\<rparr>))
         | _ \<Rightarrow> Inr (v\<lparr>fv_value := (if truthy (fv_value v) then fv_value v else fv_default v)\<rparr>)))"

text \<open>
  \<open>_process\<close> of a group with the full name \<open>full\<close>: the children done, the children to do; \<open>rebuild\<close> gives the
  whole tree, as a getter sees it, from the children of this group.
\<close>

fun process_children ::
  "env_world \<Rightarrow> string \<Rightarrow> ginfo \<Rightarrow> ((string \<times> node) list \<Rightarrow> node) \<Rightarrow> (string \<times> node) list \<Rightarrow> (string \<times> node) list
     \<Rightarrow> (string \<times> node) list res" where
  "process_children w full g rebuild done [] = Inr done"
| "process_children w full g rebuild done ((n, Fin v) # rest) =
     (let v1 = annotate g n v in
      bindR (init_value w (var_full full v1 n) g n v1 (rebuild (done @ (n, Fin v1) # rest))) (\<lambda>v2.
        process_children w full g rebuild (done @ [(n, Fin (v2\<lparr>fv_ready := True\<rparr>))]) rest))"
| "process_children w full g rebuild done ((n, Grp h cs) # rest) =
     bindR (process_children w (group_full full h n) h (\<lambda>cs'. rebuild (done @ (n, Grp h cs') # rest)) [] cs) (\<lambda>cs'.
       process_children w full g rebuild (done @ [(n, Grp (h\<lparr>g_ready := True\<rparr>) cs')]) rest)"

fun process :: "env_world \<Rightarrow> string \<Rightarrow> node \<Rightarrow> node res" where
  "process w name (Grp g cs) = bindR (process_children w name g (Grp g) [] cs) (\<lambda>cs'. Inr (Grp (g\<lparr>g_ready := True\<rparr>) cs'))"
| "process w name (Fin v) = Inr (Fin v)"

section \<open>Reading and writing variables\<close>

text \<open>The child at a path of names, and its replacement.\<close>

fun node_at :: "node \<Rightarrow> string list \<Rightarrow> node option" where
  "node_at c [] = Some c"
| "node_at (Fin v) (n # p) = None"
| "node_at (Grp g cs) (n # p) = (case dget cs n of None \<Rightarrow> None | Some c \<Rightarrow> node_at c p)"

fun update_at :: "(node \<Rightarrow> node) \<Rightarrow> string list \<Rightarrow> node \<Rightarrow> node" where
  "update_at f [] c = f c"
| "update_at f (n # p) (Fin v) = Fin v"
| "update_at f (n # p) (Grp g cs) = Grp g (map (\<lambda>(m, c). (m, if m = n then update_at f p c else c)) cs)"

fun on_var :: "(fvar \<Rightarrow> fvar) \<Rightarrow> node \<Rightarrow> node" where
  "on_var f (Fin v) = Fin (f v)"
| "on_var f (Grp g cs) = Grp g cs"

fun on_info :: "(ginfo \<Rightarrow> ginfo) \<Rightarrow> node \<Rightarrow> node" where
  "on_info f (Fin v) = Fin v"
| "on_info f (Grp g cs) = Grp (f g) cs"

definition update_var :: "string list \<Rightarrow> (fvar \<Rightarrow> fvar) \<Rightarrow> node \<Rightarrow> node" where
  "update_var p f root = update_at (on_var f) p root"

text \<open>
  \<open>_get_value\<close>: a computed variable is marked not ready while its getter runs, and stays so when the getter
  raises.
\<close>

definition get_value :: "env_world \<Rightarrow> string list \<Rightarrow> fvar \<Rightarrow> node \<Rightarrow> pyval option res \<times> node" where
  "get_value w p v root =
     (if fv_computed v then
        (let root1 = update_var p (\<lambda>v. v\<lparr>fv_ready := False\<rparr>) root in
         case compute w v root1 of
           Inl e \<Rightarrow> (Inl e, root1)
         | Inr x \<Rightarrow> (Inr x, update_var p (\<lambda>v. v\<lparr>fv_ready := True\<rparr>) root1))
      else (Inr (fv_value v), root))"

definition set_value :: "env_world \<Rightarrow> string list \<Rightarrow> fvar \<Rightarrow> pyval option \<Rightarrow> node \<Rightarrow> node eres \<times> node" where
  "set_value w p v x root =
     (let root1 = (if fv_computed v then update_var p (\<lambda>v. v\<lparr>fv_ready := False\<rparr>) root else root);
          r = (case (fv_computed v, fv_fset v) of
                 (True, Some f) \<Rightarrow> run_setter w f x root1
               | _ \<Rightarrow> Inr (update_var p (\<lambda>v. v\<lparr>fv_value := x\<rparr>) root1))
      in case r of
           Inl e \<Rightarrow> (Inl e, root1)
         | Inr root2 \<Rightarrow>
             (let root3 = (if fv_computed v then update_var p (\<lambda>v. v\<lparr>fv_ready := True\<rparr>) root2 else root2) in (Inr root3, root3)))"

text \<open>What an attribute access gives: a value, or the object itself.\<close>

datatype attr = Plain "pyval option" | VarObject fvar | GroupObject

text \<open>\<open>VarGroup.__getattribute__\<close> of the group at \<open>p\<close>.\<close>

definition getattribute :: "env_world \<Rightarrow> string list \<Rightarrow> string \<Rightarrow> node \<Rightarrow> attr res \<times> node" where
  "getattribute w p n root =
     (case node_at root (p @ [n]) of
        None \<Rightarrow> (Inl AttributeError, root)
      | Some (Grp g cs) \<Rightarrow> (Inr (case g_shadow g of None \<Rightarrow> GroupObject | Some x \<Rightarrow> Plain x), root)
      | Some (Fin v) \<Rightarrow>
          (case fv_shadow v of
             Some x \<Rightarrow> (Inr (Plain x), root)
           | None \<Rightarrow>
               if \<not> fv_ready v then (Inr (VarObject v), root)
               else (case get_value w (p @ [n]) v root of (r, root') \<Rightarrow> (bindR r (\<lambda>x. Inr (Plain x)), root'))))"

text \<open>
  \<open>VarGroup.__setattr__\<close> of the group at \<open>p\<close>, whose full name is \<open>full\<close>. (A new attribute of a group that is not
  ready yet, in its constructor, is no variable and leaves the tree as it is.)
\<close>

definition setattr :: "env_world \<Rightarrow> string list \<Rightarrow> string \<Rightarrow> string \<Rightarrow> pyval option \<Rightarrow> node \<Rightarrow> unit eres \<times> node" where
  "setattr w p full n x root =
     (case node_at root (p @ [n]) of
        None \<Rightarrow>
          (case node_at root p of
             Some (Grp g cs) \<Rightarrow> (if g_ready g then Inl (Envium (UndefinedVarError full n)) else Inr (), root)
           | _ \<Rightarrow> (Inl (Py AttributeError), root))
      | Some (Grp g cs) \<Rightarrow> (Inr (), update_at (on_info (\<lambda>g. g\<lparr>g_shadow := Some x\<rparr>)) (p @ [n]) root)
      | Some (Fin v) \<Rightarrow>
          if fv_shadow v \<noteq> None \<or> \<not> fv_ready v
          then (Inr (), update_var (p @ [n]) (\<lambda>v. v\<lparr>fv_shadow := Some x\<rparr>) root)
          else (case set_value w (p @ [n]) v x root of (r, root') \<Rightarrow> (bindR r (\<lambda>_. Inr ()), root')))"

section \<open>Validation\<close>

text \<open>\<open>_flat\<close>: full names and paths, sorted by the full names, group by group.\<close>

fun flat :: "string \<Rightarrow> string list \<Rightarrow> node \<Rightarrow> (string \<times> string list) list" where
  "flat full p (Fin v) = [(full, p)]"
| "flat full p (Grp g cs) =
     sort_key fst (concat (map (\<lambda>(n, c).
       flat (case c of Fin v \<Rightarrow> var_full full v n | Grp h _ \<Rightarrow> group_full full h n) (p @ [n]) c) cs))"

text \<open>\<open>Var._get_errors\<close> for the value that \<open>_get_value\<close> gives.\<close>

definition var_errors :: "env_world \<Rightarrow> string \<Rightarrow> fvar \<Rightarrow> pyval option \<Rightarrow> envium_error list" where
  "var_errors w full v x =
     (case fv_type v of
        None \<Rightarrow> [NoTypeError full]
      | Some t \<Rightarrow>
          (case x of
             None \<Rightarrow> if fv_optional v then [] else [NoValueError full t]
           | Some y \<Rightarrow>
               (case py_isinstance (unions_ok w) y t of
                  Inr False \<Rightarrow> [WrongTypeError full t (type_of_val y)]
                | _ \<Rightarrow> [])))"

definition get_errors :: "env_world \<Rightarrow> string \<Rightarrow> string list \<Rightarrow> fvar \<Rightarrow> node \<Rightarrow> envium_error list \<times> node" where
  "get_errors w full p v root =
     (case get_value w p v root of
        (Inl e, root') \<Rightarrow> ([ComputedVarError full e], root')
      | (Inr x, root') \<Rightarrow> (var_errors w full v x, root'))"

definition the_var :: "node \<Rightarrow> string list \<Rightarrow> fvar option" where
  "the_var root p = (case node_at root p of Some (Fin v) \<Rightarrow> Some v | _ \<Rightarrow> None)"

text \<open>\<open>VarGroup._errors\<close>, over the variables listed at its start.\<close>

fun errors_of :: "env_world \<Rightarrow> (string \<times> string list) list \<Rightarrow> node \<Rightarrow> envium_error list \<times> node" where
  "errors_of w [] root = ([], root)"
| "errors_of w ((full, p) # fs) root =
     (case the_var root p of
        None \<Rightarrow> errors_of w fs root
      | Some v \<Rightarrow>
          (case get_errors w full p v root of (es, root1) \<Rightarrow>
             (case errors_of w fs root1 of (es', root2) \<Rightarrow> (es @ es', root2))))"

definition validate :: "env_world \<Rightarrow> string \<Rightarrow> node \<Rightarrow> unit eres \<times> node" where
  "validate w name root =
     (case errors_of w (flat name [] root) root of
        (es, root') \<Rightarrow> (if es = [] then Inr () else Inl (Envium (ValidationErrors es)), root'))"

section \<open>\<open>Environ\<close>\<close>

definition environ_new :: "env_world \<Rightarrow> string \<Rightarrow> node \<Rightarrow> node eres" where
  "environ_new w name layout =
     (if name = [] then Inl (Envium EnviumError)
      else bindR (liftE (process w name layout)) (\<lambda>root.
        case root of
          Grp g cs \<Rightarrow> if g_load g then (case validate w name root of (r, root') \<Rightarrow> bindR r (\<lambda>_. Inr root')) else Inr root
        | Fin v \<Rightarrow> Inr root))"

text \<open>\<open>Environ.errors\<close>, which also looks for names that are used twice.\<close>

fun environ_errors_of :: "env_world \<Rightarrow> string list \<Rightarrow> (string \<times> string list) list \<Rightarrow> node \<Rightarrow> envium_error list \<times> node" where
  "environ_errors_of w seen [] root = ([], root)"
| "environ_errors_of w seen ((full, p) # fs) root =
     (case the_var root p of
        None \<Rightarrow> environ_errors_of w seen fs root
      | Some v \<Rightarrow>
          (let n = get_env_name v full (last p) in
           case get_errors w full p v root of (es, root1) \<Rightarrow>
             (case environ_errors_of w (seen @ [n]) fs root1 of (es', root2) \<Rightarrow>
                ((if n \<in> set seen then [RedefinedVarError n] else []) @ es @ es', root2))))"

definition environ_errors :: "env_world \<Rightarrow> string \<Rightarrow> node \<Rightarrow> envium_error list \<times> node" where
  "environ_errors w name root = environ_errors_of w [] (flat name [] root) root"

fun collect_env_vars :: "env_world \<Rightarrow> (string, string) dict \<Rightarrow> (string \<times> string list) list \<Rightarrow> node \<Rightarrow> (string, string) dict res \<times> node" where
  "collect_env_vars w envs [] root = (Inr envs, root)"
| "collect_env_vars w envs ((full, p) # fs) root =
     (case the_var root p of
        None \<Rightarrow> collect_env_vars w envs fs root
      | Some v \<Rightarrow>
          (case get_value w p v root of
             (Inl e, root1) \<Rightarrow> (Inl e, root1)
           | (Inr x, root1) \<Rightarrow> collect_env_vars w (dset (get_env_name v full (last p)) (py_str x) envs) fs root1))"

definition get_env_vars :: "env_world \<Rightarrow> string \<Rightarrow> node \<Rightarrow> (string, string) dict eres \<times> node" where
  "get_env_vars w name root =
     (case validate w name root of
        (Inl e, root1) \<Rightarrow> (Inl e, root1)
      | (Inr _, root1) \<Rightarrow>
          (case collect_env_vars w [] (flat name [] root1) root1 of
             (Inl e, root2) \<Rightarrow> (Inl (Py e), root2)
           | (Inr envs, root2) \<Rightarrow> (Inr (foldl (\<lambda>d (k, x). dset (upper k) x d) [] envs), root2)))"

text \<open>\<open>os.environ.update\<close>: a value with a NUL character raises \<open>ValueError\<close>.\<close>

fun environ_update :: "(string, string) dict \<Rightarrow> (string, string) dict \<Rightarrow> (string, string) dict res" where
  "environ_update env [] = Inr env"
| "environ_update env ((k, x) # xs) =
     (if CHR 0x00 \<in> set x then Inl ValueError else environ_update (dset k x env) xs)"

definition save_to_os_environ :: "env_world \<Rightarrow> string \<Rightarrow> node \<Rightarrow> env_world eres \<times> node" where
  "save_to_os_environ w name root =
     (case get_env_vars w name root of
        (Inl e, root1) \<Rightarrow> (Inl e, root1)
      | (Inr envs, root1) \<Rightarrow>
          (bindR (liftE (environ_update (os_environ w) envs)) (\<lambda>env. Inr (w\<lparr>os_environ := env\<rparr>)), root1))"

text \<open>The text that \<open>_dump\<close> writes.\<close>

definition dump_text :: "(string, string) dict \<Rightarrow> string" where
  "dump_text envs = join_with [CHR 0x0A] (map (\<lambda>(k, x). k @ ''=\"'' @ x @ ''\"'') envs)"

section \<open>\<open>Secrets\<close> and copying\<close>

fun secrets_from_input :: "env_world \<Rightarrow> (string \<times> string list) list \<Rightarrow> node \<Rightarrow> unit eres \<times> node" where
  "secrets_from_input w [] root = (Inr (), root)"
| "secrets_from_input w ((full, p) # fs) root =
     (case the_var root p of
        None \<Rightarrow> secrets_from_input w fs root
      | Some v \<Rightarrow>
          if fv_kind v = SecretVar True then
            (case from_str v (getpass w (full @ '': '')) of
               Inl e \<Rightarrow> (Inl (Py e), root)
             | Inr x \<Rightarrow>
                 (case setattr w (butlast p) [] (last p) (Some x) root of
                    (Inl e, root1) \<Rightarrow> (Inl e, root1)
                  | (Inr _, root1) \<Rightarrow> secrets_from_input w fs root1))
          else secrets_from_input w fs root)"

definition secrets_new :: "env_world \<Rightarrow> string \<Rightarrow> node \<Rightarrow> node eres" where
  "secrets_new w name layout =
     bindR (liftE (process w name layout)) (\<lambda>root.
       case secrets_from_input w (flat name [] root) root of (r, root') \<Rightarrow> bindR r (\<lambda>_. Inr root'))"

text \<open>
  \<open>copy_from\<close> on the lists of children, as far as it gets: the value of a variable is stored; a pair of groups
  is copied first, and then its \<open>_value\<close>, which groups do not have, is read.
\<close>

fun copy_children :: "(string \<times> node) list \<Rightarrow> (string \<times> node) list \<Rightarrow> (string \<times> node) list \<times> py_error option" where
  "copy_children ((n, Fin l) # ls) ((m, Fin r) # rs) =
     (case copy_children ls rs of (ls', e) \<Rightarrow> ((n, Fin (l\<lparr>fv_value := fv_value r\<rparr>)) # ls', e))"
| "copy_children ((n, Grp g cs) # ls) ((m, Grp h ds) # rs) =
     (case copy_children cs ds of (cs', e) \<Rightarrow>
        ((n, Grp g cs') # ls, Some (case e of None \<Rightarrow> AttributeError | Some x \<Rightarrow> x)))"
| "copy_children (l # ls) (r # rs) = (l # ls, Some AttributeError)"
| "copy_children ls rs = (ls, None)"

fun copy_from :: "node \<Rightarrow> node \<Rightarrow> node \<times> py_error option" where
  "copy_from (Grp g cs) (Grp h ds) = (case copy_children cs ds of (cs', e) \<Rightarrow> (Grp g cs', e))"
| "copy_from l r = (l, Some AttributeError)"

end
