(* ===== verification/EnviumLaws.thy ===== *)
theory EnviumLaws
  imports Envium
begin

text \<open>
  What the variable trees promise: which errors are found, what is written to the environment, that it is read
  back as it was, and where copying and failing getters go wrong.
\<close>

section \<open>Trees without computed variables\<close>

text \<open>A class layout of an \<open>Environ\<close> whose variables all come from the environment.\<close>

fun plain :: "node \<Rightarrow> bool" where
  "plain (Fin v) \<longleftrightarrow> \<not> fv_computed v \<and> (fv_kind v = EnvVar True \<or> fv_kind v = EnvVar False)"
| "plain (Grp g cs) \<longleftrightarrow> g_load g \<and> distinct (map fst cs) \<and> (\<forall>x\<in>set cs. plain (snd x))"

text \<open>The tree with its annotations, ready; and with other values.\<close>

fun describe :: "ginfo \<Rightarrow> string \<Rightarrow> node \<Rightarrow> node" where
  "describe g n (Fin v) = Fin ((annotate g n v)\<lparr>fv_ready := True\<rparr>)"
| "describe g n (Grp h cs) = Grp (h\<lparr>g_ready := True\<rparr>) (map (\<lambda>x. (fst x, describe h (fst x) (snd x))) cs)"

fun with_values :: "(string list \<Rightarrow> pyval option) \<Rightarrow> string list \<Rightarrow> node \<Rightarrow> node" where
  "with_values f p (Fin v) = Fin (v\<lparr>fv_value := f p\<rparr>)"
| "with_values f p (Grp g cs) = Grp g (map (\<lambda>x. (fst x, with_values f (p @ [fst x]) (snd x))) cs)"

text \<open>The variables with their full names and paths, in the order of the tree.\<close>

definition child_full :: "string \<Rightarrow> string \<Rightarrow> node \<Rightarrow> string" where
  "child_full full n c = (case c of Fin v \<Rightarrow> var_full full v n | Grp h _ \<Rightarrow> group_full full h n)"

fun leaves :: "string \<Rightarrow> string list \<Rightarrow> node \<Rightarrow> (string \<times> string list \<times> fvar) list" where
  "leaves full p (Fin v) = [(full, p, v)]"
| "leaves full p (Grp g cs) = concat (map (\<lambda>x. leaves (child_full full (fst x) (snd x)) (p @ [fst x]) (snd x)) cs)"

lemma child_full_simps [simp]:
  "child_full full n (Fin v) = var_full full v n"
  "child_full full n (Grp h cs) = group_full full h n"
  by (simp_all add: child_full_def)

lemma flat_Grp: "flat full p (Grp g cs) =
    sort_key fst (concat (map (\<lambda>x. flat (child_full full (fst x) (snd x)) (p @ [fst x]) (snd x)) cs))"
  by (simp add: child_full_def case_prod_beta' cong: list.map_cong_simp)

lemma set_flat: "set (flat full p c) = (\<lambda>(a, b, v). (a, b)) ` set (leaves full p c)"
proof (induction c arbitrary: full p)
  case (Grp g cs)
  have "set (flat full p (Grp g cs)) =
      (\<Union>x\<in>set cs. set (flat (child_full full (fst x) (snd x)) (p @ [fst x]) (snd x)))"
    unfolding flat_Grp by (simp add: set_concat)
  also have "\<dots> = (\<Union>x\<in>set cs. (\<lambda>(a, b, v). (a, b)) ` set (leaves (child_full full (fst x) (snd x)) (p @ [fst x]) (snd x)))"
    by (rule SUP_cong [OF refl]) (rule Grp.IH; simp add: snds.simps; metis prod.collapse)
  finally show ?case by (simp add: image_UN)
qed simp

lemma leaf_path: "(full', q, v) \<in> set (leaves full p c) \<Longrightarrow> \<exists>r. q = p @ r"
proof (induction c arbitrary: full p)
  case (Grp g cs)
  then show ?case by (fastforce simp: snds.simps)
qed simp

lemma the_var_leaf:
  "plain c \<Longrightarrow> (full', p @ r, v) \<in> set (leaves full p c) \<Longrightarrow> node_at c r = Some (Fin v)"
proof (induction c arbitrary: full p r)
  case (Fin w)
  then show ?case by simp
next
  case (Grp g cs)
  then obtain n c where x: "(n, c) \<in> set cs" and l: "(full', p @ r, v) \<in> set (leaves (child_full full n c) (p @ [n]) c)"
    by auto
  then obtain r' where r: "r = n # r'" using leaf_path [OF l] by auto
  have d: "dget cs n = Some c" using Grp.prems(1) x by simp
  have pc: "plain c" using Grp.prems(1) x by auto
  have l': "(full', (p @ [n]) @ r', v) \<in> set (leaves (child_full full n c) (p @ [n]) c)" using l r by simp
  have IH: "plain c \<Longrightarrow> (full', p @ r, v) \<in> set (leaves full p c) \<Longrightarrow> node_at c r = Some (Fin v)" for full p r
    by (rule Grp.IH [OF x]) (simp_all add: snds.simps)
  from IH [OF pc l'] d show ?case by (simp add: r)
qed

lemma leaf_plain: "plain c \<Longrightarrow> (full', q, v) \<in> set (leaves full p c) \<Longrightarrow> plain (Fin v)"
proof (induction c arbitrary: full p)
  case (Grp g cs)
  then obtain n c where x: "(n, c) \<in> set cs" and l: "(full', q, v) \<in> set (leaves (child_full full n c) (p @ [n]) c)"
    by auto
  have "plain c" using Grp.prems(1) x by auto
  then show ?case using Grp.IH [OF x _ _ l] by (simp add: snds.simps)
qed simp

section \<open>Errors and environment variables\<close>

definition var_at :: "node \<Rightarrow> string list \<Rightarrow> fvar" where
  "var_at root p = the (the_var root p)"

definition env_name_of :: "node \<Rightarrow> string \<times> string list \<Rightarrow> string" where
  "env_name_of root x = get_env_name (var_at root (snd x)) (fst x) (last (snd x))"

definition value_at :: "node \<Rightarrow> string list \<Rightarrow> pyval option" where
  "value_at root p = fv_value (var_at root p)"

definition errors_at :: "env_world \<Rightarrow> node \<Rightarrow> string \<times> string list \<Rightarrow> envium_error list" where
  "errors_at w root x = var_errors w (fst x) (var_at root (snd x)) (value_at root (snd x))"

text \<open>All listed variables are there and none is computed.\<close>

definition there :: "node \<Rightarrow> (string \<times> string list) list \<Rightarrow> bool" where
  "there root fs \<longleftrightarrow> (\<forall>x\<in>set fs. \<exists>v. the_var root (snd x) = Some v \<and> \<not> fv_computed v)"

lemma there_simps [simp]:
  "there root []"
  "there root (x # fs) \<longleftrightarrow> (\<exists>v. the_var root (snd x) = Some v \<and> \<not> fv_computed v) \<and> there root fs"
  by (auto simp: there_def)

lemma get_value_plain: "\<not> fv_computed v \<Longrightarrow> get_value w p v root = (Inr (fv_value v), root)"
  by (simp add: get_value_def)

lemma get_errors_plain: "\<not> fv_computed v \<Longrightarrow> get_errors w F p v root = (var_errors w F v (fv_value v), root)"
  by (simp add: get_errors_def get_value_plain)

lemma errors_of_plain: "there root fs \<Longrightarrow> errors_of w fs root = (concat (map (errors_at w root) fs), root)"
  by (induction fs) (auto simp: get_errors_plain errors_at_def value_at_def var_at_def)

lemma environ_errors_plain:
  assumes "there root fs" and "environ_errors_of w seen fs root = (es, root')"
  shows "root' = root \<and> (es = [] \<longleftrightarrow> distinct (map (env_name_of root) fs) \<and> set seen \<inter> env_name_of root ` set fs = {}
    \<and> (\<forall>x\<in>set fs. errors_at w root x = []))"
  using assms
proof (induction fs arbitrary: seen es root')
  case (Cons x fs)
  obtain F p where x: "x = (F, p)" by (cases x)
  from Cons.prems(1) x obtain v where v: "the_var root p = Some v" "\<not> fv_computed v" by auto
  obtain es1 root1 where r: "environ_errors_of w (seen @ [env_name_of root x]) fs root = (es1, root1)" by fastforce
  from Cons.IH [OF _ r] Cons.prems(1) have IH: "root1 = root"
    "es1 = [] \<longleftrightarrow> distinct (map (env_name_of root) fs) \<and> set (seen @ [env_name_of root x]) \<inter> env_name_of root ` set fs = {}
       \<and> (\<forall>x\<in>set fs. errors_at w root x = [])" by simp_all
  have n: "get_env_name v F (last p) = env_name_of root x" by (simp add: env_name_of_def x var_at_def v)
  have e: "get_errors w F p v root = (errors_at w root x, root)"
    using v by (simp add: get_errors_plain errors_at_def value_at_def var_at_def x)
  from Cons.prems(2) have "es = (if env_name_of root x \<in> set seen then [RedefinedVarError (env_name_of root x)] else [])
      @ errors_at w root x @ es1 \<and> root' = root1"
    by (auto simp: x v n [unfolded x] e [unfolded x] r [unfolded x] Let_def)
  with IH show ?case by auto
qed simp

lemma collect_plain:
  "there root fs \<Longrightarrow> collect_env_vars w envs fs root =
    (Inr (foldl (\<lambda>d (k, x). dset k x d) envs (map (\<lambda>x. (env_name_of root x, py_str (value_at root (snd x)))) fs)), root)"
  by (induction fs arbitrary: envs) (auto simp: get_value_plain env_name_of_def value_at_def var_at_def)

lemma foldl_dset_new: "distinct (map fst (d @ kvs)) \<Longrightarrow> foldl (\<lambda>d (k, x). dset k x d) d kvs = d @ kvs"
proof (induction kvs arbitrary: d)
  case (Cons kv kvs)
  obtain k x where kv: "kv = (k, x)" by (cases kv)
  have "dset k x d = d @ [(k, x)]" using Cons.prems by (intro dset_new) (simp add: kv)
  moreover have "foldl (\<lambda>d (k, x). dset k x d) (d @ [(k, x)]) kvs = (d @ [(k, x)]) @ kvs"
    using Cons.prems by (intro Cons.IH) (auto simp: kv)
  ultimately show ?case by (simp add: kv)
qed simp

lemma upper_env_name [simp]: "upper (env_name_of root x) = env_name_of root x"
  by (simp add: env_name_of_def get_env_name_def)

lemma there_flat:
  assumes "plain root"
  shows "there root (flat name [] root)"
  unfolding there_def set_flat
proof
  fix x assume "x \<in> (\<lambda>(a, b, v). (a, b)) ` set (leaves name [] root)"
  then obtain F p v where l: "(F, p, v) \<in> set (leaves name [] root)" and x: "x = (F, p)" by auto
  have "node_at root p = Some (Fin v)" using the_var_leaf [OF assms, of F "[]" p v name] l by simp
  moreover have "\<not> fv_computed v" using leaf_plain [OF assms l] by simp
  ultimately show "\<exists>v. the_var root (snd x) = Some v \<and> \<not> fv_computed v" by (simp add: x the_var_def)
qed

text \<open>
  What an \<open>Environ\<close> without computed variables writes. If \<open>errors\<close> finds nothing, then \<open>get_env_vars\<close>
  gives exactly one entry for each variable, in the order of the full names, under its environment name and
  with the text of its value, and these names are different.
\<close>
theorem env_vars_exact:
  assumes "plain root" and "environ_errors w name root = ([], root)"
  shows "get_env_vars w name root =
      (Inr (map (\<lambda>x. (env_name_of root x, py_str (value_at root (snd x)))) (flat name [] root)), root)
    \<and> distinct (map (env_name_of root) (flat name [] root))"
proof -
  note th = there_flat [OF assms(1), of name]
  have d: "distinct (map (env_name_of root) (flat name [] root))" and e: "\<forall>x\<in>set (flat name [] root). errors_at w root x = []"
    using environ_errors_plain [OF th, of w "[]" "[]" root] assms(2) by (simp_all add: environ_errors_def)
  have v: "validate w name root = (Inr (), root)"
    using errors_of_plain [OF th, of w] e by (simp add: validate_def)
  let ?kvs = "map (\<lambda>x. (env_name_of root x, py_str (value_at root (snd x)))) (flat name [] root)"
  have k: "distinct (map fst ([] @ ?kvs))" using d by (simp add: o_def)
  have "foldl (\<lambda>d (k, x). dset (upper k) x d) [] ?kvs = foldl (\<lambda>d (k, x). dset k x d) [] ?kvs"
    by (rule foldl_cong) auto
  with foldl_dset_new [OF k] collect_plain [OF th, of w "[]"] v d
  show ?thesis by (simp add: get_env_vars_def)
qed

text \<open>A tree to try things on: two integers of a root group.\<close>

definition int_var :: "int \<Rightarrow> node" where
  "int_var i = Fin ((var_new (EnvVar False) None None)\<lparr>fv_type := Some TInt, fv_ready := True, fv_value := Some (PyInt i)\<rparr>)"

definition two_ints :: "string \<Rightarrow> string \<Rightarrow> node" where
  "two_ints m n = Grp \<lparr>g_raw = False, g_load = True, g_mro = [], g_ready = True, g_shadow = None\<rparr> [(m, int_var 1), (n, int_var 2)]"

lemma upper_char_examples:
  "upper_char (CHR ''x'') = CHR ''X''" "upper_char (CHR ''a'') = CHR ''A''" "upper_char (CHR ''b'') = CHR ''B''"
  "upper_char (CHR ''_'') = CHR ''_''" "upper_char (CHR ''X'') = CHR ''X''" "upper_char (CHR ''A'') = CHR ''A''"
  "upper_char (CHR ''B'') = CHR ''B''"
  by code_simp+

lemmas two_ints_simps = two_ints_def int_var_def var_new_def validate_def get_env_vars_def environ_errors_def flat_Grp
  var_full_def is_raw_def the_var_def get_errors_def get_value_def var_errors_def get_env_name_def upper_def
  str_of_int_def str_of_nat.simps digit_char_def upper_char_examples insort_key_def env_name_of_def value_at_def var_at_def

text \<open>A world with an empty environment, without users' functions.\<close>

definition world0 :: env_world where
  "world0 = \<lparr>os_environ = [], run_getter = (\<lambda>_ _. Inl AttributeError), run_setter = (\<lambda>_ _ r. Inr r),
     unions_ok = True, getpass = (\<lambda>_. [])\<rparr>"

lemma env_vars_exact_witness:
  "get_env_vars world0 ''x'' (two_ints ''a'' ''b'') = (Inr [(''X_A'', ''1''), (''X_B'', ''2'')], two_ints ''a'' ''b'')"
proof -
  have "plain (two_ints ''a'' ''b'')" and "environ_errors world0 ''x'' (two_ints ''a'' ''b'') = ([], two_ints ''a'' ''b'')"
    by (simp_all add: two_ints_simps)
  from env_vars_exact [OF this] show ?thesis by (simp add: two_ints_simps)
qed

text \<open>
  \<open>validate\<close>, on which \<open>get_env_vars\<close> relies, does not look for equal names as \<open>errors\<close> does: with
  variables \<open>a_b\<close> and \<open>ab\<close>, whose environment names are equal, it passes, and the value of one is lost.
\<close>
theorem equal_names_pass:
  "validate w ''x'' (two_ints ''a_b'' ''ab'') = (Inr (), two_ints ''a_b'' ''ab'')
   \<and> environ_errors w ''x'' (two_ints ''a_b'' ''ab'') = ([RedefinedVarError ''X_AB''], two_ints ''a_b'' ''ab'')
   \<and> get_env_vars w ''x'' (two_ints ''a_b'' ''ab'') = (Inr [(''X_AB'', ''2'')], two_ints ''a_b'' ''ab'')"
  by (simp add: two_ints_simps)

section \<open>Processing a plain tree\<close>

text \<open>Every variable reads the value that \<open>f\<close> has for it.\<close>

fun reads :: "env_world \<Rightarrow> (string list \<Rightarrow> pyval option) \<Rightarrow> string \<Rightarrow> string list \<Rightarrow> ginfo \<Rightarrow> string \<Rightarrow> node \<Rightarrow> bool" where
  "reads w f full p g n (Fin v) \<longleftrightarrow>
     (\<forall>root. init_value w (var_full full (annotate g n v) n) g n (annotate g n v) root = Inr ((annotate g n v)\<lparr>fv_value := f p\<rparr>))"
| "reads w f full p g n (Grp h cs) \<longleftrightarrow>
     (\<forall>x\<in>set cs. reads w f (group_full full h n) (p @ [fst x]) h (fst x) (snd x))"

lemma value_ready: "v\<lparr>fv_value := x, fv_ready := b\<rparr> = v\<lparr>fv_ready := b, fv_value := x\<rparr>"
  by (cases v) simp

lemma process_reads:
  "\<forall>x\<in>set cs. reads w f full (p @ [fst x]) g (fst x) (snd x) \<Longrightarrow>
     process_children w full g rebuild done cs =
       Inr (done @ map (\<lambda>x. (fst x, with_values f (p @ [fst x]) (describe g (fst x) (snd x)))) cs)"
proof (induction w full g rebuild "done" cs arbitrary: p rule: process_children.induct)
  case (2 w full g rebuild "done" n v rest)
  with "2.IH" [OF refl, of p "(annotate g n v)\<lparr>fv_value := f (p @ [n])\<rparr>"] show ?case
    by (simp add: Let_def value_ready)
next
  case (3 w full g rebuild "done" n h cs rest)
  from "3.IH"(1) [of "p @ [n]"] "3.prems"
  have "process_children w (group_full full h n) h (\<lambda>cs'. rebuild (done @ (n, Grp h cs') # rest)) [] cs =
      Inr (map (\<lambda>x. (fst x, with_values f ((p @ [n]) @ [fst x]) (describe h (fst x) (snd x)))) cs)" by simp
  with "3.IH"(2) "3.prems" show ?case by (simp add: o_def)
qed simp

lemma init_value_only:
  "init_value w full g n v root = Inr v' \<Longrightarrow> v'\<lparr>fv_ready := b, fv_value := x\<rparr> = v\<lparr>fv_ready := b, fv_value := x\<rparr>"
proof -
  assume "init_value w full g n v root = Inr v'"
  then have "v' = v\<lparr>fv_value := fv_value v'\<rparr>"
    by (cases "fv_kind v") (auto simp: init_value_def bindR_eq_Inr split: if_splits)
  then have "v'\<lparr>fv_ready := b, fv_value := x\<rparr> = (v\<lparr>fv_value := fv_value v'\<rparr>)\<lparr>fv_ready := b, fv_value := x\<rparr>"
    by (rule arg_cong)
  then show ?thesis by (simp add: value_ready)
qed

lemma process_form:
  "process_children w full g rebuild done cs = Inr cs' \<Longrightarrow>
     map (\<lambda>x. (fst x, with_values f (p @ [fst x]) (snd x))) cs' =
     map (\<lambda>x. (fst x, with_values f (p @ [fst x]) (snd x))) done @
     map (\<lambda>x. (fst x, with_values f (p @ [fst x]) (describe g (fst x) (snd x)))) cs"
proof (induction w full g rebuild "done" cs arbitrary: p cs' rule: process_children.induct)
  case (2 w full g rebuild "done" n v rest)
  then obtain v2 where i: "init_value w (var_full full (annotate g n v) n) g n (annotate g n v)
        (rebuild (done @ (n, Fin (annotate g n v)) # rest)) = Inr v2"
    and r: "process_children w full g rebuild (done @ [(n, Fin (v2\<lparr>fv_ready := True\<rparr>))]) rest = Inr cs'"
    by (auto simp: Let_def bindR_eq_Inr)
  from "2.IH" [OF refl r, of p] init_value_only [OF i, of "f (p @ [n])" True] show ?case by simp
next
  case (3 w full g rebuild "done" n h cs rest)
  then obtain ds where i: "process_children w (group_full full h n) h (\<lambda>cs'. rebuild (done @ (n, Grp h cs') # rest)) [] cs = Inr ds"
    and r: "process_children w full g rebuild (done @ [(n, Grp (h\<lparr>g_ready := True\<rparr>) ds)]) rest = Inr cs'"
    by (auto simp: bindR_eq_Inr)
  from "3.IH"(2) [OF r, of p] "3.IH"(1) [OF i, of "p @ [n]"] show ?case by (simp add: o_def)
qed simp

definition instance_of :: "node \<Rightarrow> node" where
  "instance_of layout = (case layout of Fin v \<Rightarrow> Fin v | Grp g cs \<Rightarrow> describe g [] (Grp g cs))"

lemma process_instance:
  assumes "process w name layout = Inr r" and "plain layout" and "layout = Grp g cs"
  shows "with_values f [] r = with_values f [] (instance_of layout)"
  using assms process_form [of w name g "Grp g" "[]" cs _ f "[]"] by (auto simp: bindR_eq_Inr instance_of_def o_def)

lemma annotate_sel [simp]:
  "fv_kind (annotate g n v) = fv_kind v" "fv_computed (annotate g n v) = fv_computed v"
  "fv_default (annotate g n v) = fv_default v"
  by (simp_all add: annotate_def Let_def split: option.split pytype.split)

lemma plain_describe [simp]: "plain (describe g n c) = plain c"
  by (induction c arbitrary: g n) (auto simp: snds.simps o_def)

lemma plain_with_values [simp]: "plain (with_values f p c) = plain c"
  by (induction c arbitrary: p) (auto simp: snds.simps o_def)

section \<open>Writing and reading back\<close>

lemma strip_ws_free: "\<forall>c\<in>set s. \<not> strip_ws c \<Longrightarrow> strip s = s"
proof -
  assume a: "\<forall>c\<in>set s. \<not> strip_ws c"
  then have "dropWhile strip_ws s = s" by (cases s) auto
  moreover have "dropWhile strip_ws (rev s) = rev s" using a by (cases s rule: rev_cases) auto
  ultimately show ?thesis by (simp add: strip_def lstrip_while_def rstrip_while_def)
qed

lemma digit_facts: "is_digit c \<Longrightarrow> \<not> strip_ws c \<and> c \<noteq> CHR ''_'' \<and> c \<noteq> CHR ''-'' \<and> c \<noteq> CHR ''+'' \<and> c \<noteq> CHR ''N''"
  unfolding is_digit_def strip_ws_def by auto

lemma py_int_str [simp]: "py_int (str_of_int i) = Inr i"
proof -
  have d: "\<forall>c\<in>set (str_of_nat n). is_digit c" for n using str_of_nat_digits [of n] by (simp add: all_digits_set)
  have u: "split_on (CHR ''_'') (str_of_nat n) = [str_of_nat n]" for n
    by (rule split_on_free) (use d digit_facts in blast)
  have h: "hd (str_of_nat n) \<noteq> CHR ''-''" "hd (str_of_nat n) \<noteq> CHR ''+''" for n
    using d [of n] digit_facts list.set_sel(1) [OF str_of_nat_not_Nil [of n]] by blast+
  have "\<not> strip_ws (CHR ''-'')" by (simp add: strip_ws_def)
  then have s: "strip (str_of_int i) = str_of_int i"
    by (intro strip_ws_free) (auto simp: str_of_int_def dest!: d [rule_format] digit_facts)
  show ?thesis by (simp add: py_int_def s) (simp add: str_of_int_def u h)
qed

lemma str_of_int_text: "str_of_int i \<noteq> [] \<and> str_of_int i \<noteq> ''None''"
proof -
  have "str_of_nat n \<noteq> ''None''" for n
  proof
    assume n: "str_of_nat n = ''None''"
    have "is_digit (hd (str_of_nat n))" using str_of_nat_digits [of n] by (cases "str_of_nat n") auto
    then show False by (simp add: n is_digit_def)
  qed
  then show ?thesis by (simp add: str_of_int_def)
qed

text \<open>The values that survive as texts.\<close>

definition storable :: "fvar \<Rightarrow> bool" where
  "storable v \<longleftrightarrow>
     (case fv_value v of
        None \<Rightarrow> fv_default v = None
      | Some x \<Rightarrow> fv_type v = Some (type_of_val x) \<and> x \<noteq> PyStr [] \<and> x \<noteq> PyStr ''None'')"

lemma init_value_stored:
  assumes "plain (Fin v)" and "g_load g" and "storable (v\<lparr>fv_value := x\<rparr>)"
    and "dget (os_environ w) (get_env_name v full n) = Some (py_str x)"
  shows "init_value w full g n v root = Inr (v\<lparr>fv_value := x\<rparr>)"
proof (cases x)
  case None
  with assms show ?thesis by (auto simp: init_value_def storable_def)
next
  case (Some y)
  have "py_str (Some y) \<noteq> []" "py_str (Some y) \<noteq> ''None''" "from_str v (py_str (Some y)) = Inr y"
    using assms(3) Some str_of_int_text by (cases y; auto simp: storable_def from_str_def)+
  with assms Some show ?thesis by (auto simp: init_value_def)
qed

text \<open>What the environment holds for a variable with a full name and a path.\<close>

definition stored :: "env_world \<Rightarrow> string \<times> string list \<times> fvar \<Rightarrow> bool" where
  "stored w x = (case x of (full, q, v) \<Rightarrow>
     storable v \<and> dget (os_environ w) (get_env_name v full (last q)) = Some (py_str (fv_value v)))"

lemma leaves_read:
  "plain c \<Longrightarrow> g_load g \<Longrightarrow> c' = with_values f (p @ [n]) (describe g n c) \<Longrightarrow>
     \<forall>x\<in>set (leaves (child_full full n c') (p @ [n]) c'). stored w x \<Longrightarrow> reads w f full (p @ [n]) g n c"
proof (induction c arbitrary: full p g n c')
  case (Fin v)
  let ?a = "annotate g n v"
  have pl: "plain (Fin ?a)" using Fin.prems(1) by simp
  have s: "storable (?a\<lparr>fv_value := f (p @ [n])\<rparr>)"
    and d: "dget (os_environ w) (get_env_name ?a (var_full full ?a n) n) = Some (py_str (f (p @ [n])))"
    using Fin.prems(3,4)
    by (auto simp: stored_def storable_def get_env_name_def var_full_def is_raw_def split: option.splits)
  show ?case using init_value_stored [OF pl Fin.prems(2) s d] by simp
next
  case (Grp h cs)
  have "reads w f (group_full full h n) ((p @ [n]) @ [fst x]) h (fst x) (snd x)" if x: "x \<in> set cs" for x
  proof (rule Grp.IH [OF x])
    show "snd x \<in> Basic_BNFs.snds x" by (cases x) (simp add: snds.simps)
    show "plain (snd x)" "g_load h" using Grp.prems(1) x by auto
    show "with_values f ((p @ [n]) @ [fst x]) (describe h (fst x) (snd x))
        = with_values f ((p @ [n]) @ [fst x]) (describe h (fst x) (snd x))" by (rule refl)
    show "\<forall>y\<in>set (leaves (child_full (group_full full h n) (fst x) (with_values f ((p @ [n]) @ [fst x]) (describe h (fst x) (snd x))))
        ((p @ [n]) @ [fst x]) (with_values f ((p @ [n]) @ [fst x]) (describe h (fst x) (snd x)))). stored w y"
      using Grp.prems(3,4) x by (fastforce simp: group_full_def)
  qed
  then show ?case by simp
qed

lemma environ_update_Inr: "environ_update env kvs = Inr env' \<Longrightarrow> env' = foldl (\<lambda>d (k, x). dset k x d) env kvs"
  by (induction env kvs rule: environ_update.induct) (auto split: if_splits)

lemma dget_foldl_dset:
  "distinct (map fst kvs) \<Longrightarrow> (k, x) \<in> set kvs \<Longrightarrow> dget (foldl (\<lambda>d (k, x). dset k x d) d kvs) k = Some x"
proof (induction kvs arbitrary: d rule: rev_induct)
  case (snoc kv kvs)
  then show ?case by (cases kv) force
qed simp

lemma process_plain_root:
  assumes "process w0 name layout = Inr r" and "plain layout" and "layout = Grp g cs"
  obtains g' cs' where "r = Grp g' cs'" and "g_load g'" and "plain r"
proof -
  have "plain (with_values f [] r) = plain (with_values f [] (instance_of layout))" for f
    by (simp only: process_instance [OF assms])
  then have "plain r = plain (instance_of layout)" by (simp only: plain_with_values)
  then have "plain r" using assms(2) by (simp only: assms(3) instance_of_def node.case plain_describe)
  with assms that show ?thesis by (auto simp: bindR_eq_Inr)
qed

lemma environ_new_plain:
  assumes "environ_new w0 name layout = Inr r" and "plain layout" and "layout = Grp g cs"
  shows "process w0 name layout = Inr r \<and> name \<noteq> []"
proof -
  from assms(1) obtain r1 where p: "process w0 name layout = Inr r1" and n: "name \<noteq> []"
    by (cases "process w0 name layout") (auto simp: environ_new_def split: if_splits)
  obtain g' cs' where r1: "r1 = Grp g' cs'" "g_load g'" "plain r1" by (rule process_plain_root [OF p assms(2,3)])
  have "snd (validate w0 name r1) = r1"
    using errors_of_plain [OF there_flat [OF r1(3)]] by (simp add: validate_def)
  with assms(1) p n r1(1,2) have "r1 = r"
    by (cases "validate w0 name r1") (auto simp: environ_new_def bindR_eq_Inr)
  with p n show ?thesis by simp
qed

text \<open>
  C9: The environment keeps the values. Take an \<open>Environ\<close> whose variables all load, give its variables any
  values of which \<open>errors\<close> does not complain, and save it: then a new \<open>Environ\<close> of the same class gets
  back exactly these values. The values must survive as texts: an integer, a boolean or a string of the annotated
  class, not the strings that are empty or \<open>None\<close>; and a variable that is \<open>None\<close> has no default.
\<close>
theorem environ_reload:
  assumes "plain (Grp g cs)" and "environ_new w0 name (Grp g cs) = Inr r0" and "root = with_values f [] r0"
    and "environ_errors w name root = ([], root)" and "\<forall>x\<in>set (flat name [] root). storable (var_at root (snd x))"
    and "save_to_os_environ w name root = (Inr w', root')"
  shows "environ_new w' name (Grp g cs) = Inr root"
proof -
  have p0: "process w0 name (Grp g cs) = Inr r0" "name \<noteq> []" using environ_new_plain [OF assms(2,1) refl] by simp_all
  have root: "root = with_values f [] (instance_of (Grp g cs))"
    using process_instance [OF p0(1) assms(1) refl] assms(3) by simp
  have pl: "plain root" using assms(1) by (simp only: root instance_of_def node.case plain_with_values plain_describe)
  let ?kvs = "map (\<lambda>x. (env_name_of root x, py_str (value_at root (snd x)))) (flat name [] root)"
  note exact = env_vars_exact [OF pl assms(4)]
  from assms(6) exact obtain env' where u: "environ_update (os_environ w) ?kvs = Inr env'" and w': "w' = w\<lparr>os_environ := env'\<rparr>"
    by (cases "environ_update (os_environ w) ?kvs") (auto simp: save_to_os_environ_def)
  have env': "env' = foldl (\<lambda>d (k, x). dset k x d) (os_environ w) ?kvs" by (rule environ_update_Inr [OF u])
  have st: "stored w' x" if x: "x \<in> set (leaves name [] root)" for x
  proof -
    obtain F q v where xe: "x = (F, q, v)" by (cases x)
    have v: "var_at root q = v"
      using the_var_leaf [OF pl, of F "[]" q v name] x by (simp add: xe var_at_def the_var_def)
    have m: "(F, q) \<in> set (flat name [] root)" unfolding set_flat using x by (force simp: xe)
    then have "storable v" using assms(5) v by auto
    moreover have "(get_env_name v F (last q), py_str (fv_value v)) \<in> set ?kvs"
      using m v by (force simp: env_name_of_def value_at_def)
    then have "dget env' (get_env_name v F (last q)) = Some (py_str (fv_value v))"
      unfolding env' by (rule dget_foldl_dset [rotated]) (use exact in \<open>simp add: o_def\<close>)
    ultimately show ?thesis by (simp add: stored_def xe w')
  qed
  let ?c = "\<lambda>x. with_values f ([] @ [fst x]) (describe g (fst x) (snd x))"
  have "reads w' f name ([] @ [fst x]) g (fst x) (snd x)" if x: "x \<in> set cs" for x
  proof (rule leaves_read)
    show "plain (snd x)" "g_load g" using assms(1) x by auto
    show "?c x = ?c x" by (rule refl)
    have "set (leaves (child_full name (fst x) (?c x)) ([] @ [fst x]) (?c x)) \<subseteq> set (leaves name [] root)"
      using x by (force simp: root instance_of_def)
    then show "\<forall>y\<in>set (leaves (child_full name (fst x) (?c x)) ([] @ [fst x]) (?c x)). stored w' y" using st by blast
  qed
  then have "process_children w' name g (Grp g) [] cs = Inr ([] @ map (\<lambda>x. (fst x, ?c x)) cs)"
    by (intro process_reads) blast
  then have pr: "process w' name (Grp g cs) = Inr root" by (simp add: root instance_of_def o_def)
  have "snd (validate w' name root) = root \<and> fst (validate w' name root) = Inr ()"
  proof -
    have "unions_ok w' = unions_ok w" by (simp add: w')
    then have "errors_at w' root x = errors_at w root x" for x by (simp only: errors_at_def var_errors_def)
    then show ?thesis using errors_of_plain [OF there_flat [OF pl]] environ_errors_plain [OF there_flat [OF pl], of w "[]" name "[]" root] assms(4)
      by (simp add: validate_def environ_errors_def)
  qed
  then have "validate w' name root = (Inr (), root)" by (metis prod.collapse)
  then show ?thesis using pr p0(2) by (simp add: environ_new_def root instance_of_def split: if_splits)
qed

text \<open>A class with one integer.\<close>

definition one_info :: ginfo where
  "one_info = \<lparr>g_raw = False, g_load = True, g_mro = [[(''a'', TInt)]], g_ready = False, g_shadow = None\<rparr>"

definition one_class :: node where
  "one_class = Grp one_info [(''a'', Fin (var_new (EnvVar False) None None))]"

definition one_int :: "int \<Rightarrow> node" where
  "one_int i = Grp (one_info\<lparr>g_ready := True\<rparr>) [(''a'', int_var i)]"

lemma one_class_new:
  assumes "dget (os_environ w) ''X_A'' = Some (str_of_int i)"
  shows "environ_new w ''x'' one_class = Inr (one_int i)"
  using assms str_of_int_text [of i]
  by (simp add: environ_new_def one_class_def one_int_def one_info_def int_var_def annotate_def flat_annotations_def
      init_value_def from_str_def two_ints_simps del: str_of_int_def)

lemma environ_reload_witness:
  "environ_new (world0\<lparr>os_environ := [(''X_A'', ''5'')]\<rparr>) ''x'' one_class = Inr (one_int 5)"
proof -
  let ?c = "[(''a'', Fin (var_new (EnvVar False) None None))]"
  have c: "one_class = Grp one_info ?c" by (simp add: one_class_def)
  have 1: "plain (Grp one_info ?c)" by (simp add: one_info_def var_new_def)
  have 2: "environ_new (world0\<lparr>os_environ := [(''X_A'', ''1'')]\<rparr>) ''x'' (Grp one_info ?c) = Inr (one_int 1)"
    using one_class_new [of "world0\<lparr>os_environ := [(''X_A'', ''1'')]\<rparr>" 1] unfolding c by (simp add: two_ints_simps)
  have 3: "one_int 5 = with_values (\<lambda>_. Some (PyInt 5)) [] (one_int 1)"
    by (simp add: one_int_def int_var_def)
  have 4: "environ_errors world0 ''x'' (one_int 5) = ([], one_int 5)"
    by (simp add: one_int_def one_info_def two_ints_simps)
  have 5: "\<forall>x\<in>set (flat ''x'' [] (one_int 5)). storable (var_at (one_int 5) (snd x))"
    by (simp add: one_int_def one_info_def two_ints_simps storable_def)
  have 6: "save_to_os_environ world0 ''x'' (one_int 5) = (Inr (world0\<lparr>os_environ := [(''X_A'', ''5'')]\<rparr>), one_int 5)"
    by (simp add: save_to_os_environ_def one_int_def one_info_def two_ints_simps world0_def)
  show ?thesis unfolding c by (rule environ_reload [OF 1 2 3 4 5 6])
qed

section \<open>Copying\<close>

lemma copy_children_error: "snd (copy_children ls rs) = None \<or> snd (copy_children ls rs) = Some AttributeError"
  by (induction ls rs rule: copy_children.induct) (auto split: prod.split option.split)

text \<open>
  \<open>copy_from\<close> between groups of the same class copies every value if all the children are variables. A
  nested group stops it: its variables are copied, but then its \<open>_value\<close>, which groups do not have, is read, and
  \<open>AttributeError\<close> leaves the call with the children behind that group not copied.
\<close>
theorem copy_from_spec:
  "copy_from (Grp g (map (\<lambda>(n, l, r). (n, Fin l)) xs)) (Grp h (map (\<lambda>(n, l, r). (n, Fin r)) xs)) =
     (Grp g (map (\<lambda>(n, l, r). (n, Fin (l\<lparr>fv_value := fv_value r\<rparr>))) xs), None)
   \<and> (\<exists>cs'. copy_from (Grp g (map (\<lambda>(n, l, r). (n, Fin l)) xs @ (n, Grp gi cs) # ls))
             (Grp h (map (\<lambda>(n, l, r). (n, Fin r)) xs @ (n, Grp hi ds) # rs)) =
       (Grp g (map (\<lambda>(n, l, r). (n, Fin (l\<lparr>fv_value := fv_value r\<rparr>))) xs @ (n, Grp gi cs') # ls), Some AttributeError))"
proof -
  let ?l = "map (\<lambda>(n, l, r). (n, Fin l)) xs" and ?r = "map (\<lambda>(n, l, r). (n, Fin r)) xs"
  have "copy_children (?l @ ls) (?r @ rs) =
     (map (\<lambda>(n, l, r). (n, Fin (l\<lparr>fv_value := fv_value r\<rparr>))) xs @ fst (copy_children ls rs), snd (copy_children ls rs))"
    for ls rs by (induction xs) (auto split: prod.split)
  from this [of "[]" "[]"] this [of "(n, Grp gi cs) # ls" "(n, Grp hi ds) # rs"] copy_children_error [of cs ds]
  show ?thesis by (auto split: prod.split option.split)
qed

section \<open>Failing getters\<close>

lemma node_at_update: "node_at (update_at f p c) p = map_option f (node_at c p)"
proof (induction f p c rule: update_at.induct)
  case (3 f n p g cs)
  have "dget (map (\<lambda>(m, c). (m, if m = n then update_at f p c else c)) cs) n = map_option (update_at f p) (dget cs n)"
    by (induction cs) auto
  moreover have "node_at (update_at f p c) p = map_option f (node_at c p)" if "dget cs n = Some c" for c
  proof -
    from that have "(n, c) \<in> set cs" by (rule map_of_SomeD)
    then show ?thesis using "3.IH" [of "(n, c)" n c] by simp
  qed
  ultimately show ?case by (cases "dget cs n") simp_all
qed simp_all

lemma the_var_update: "the_var (update_var p f root) p = map_option f (the_var root p)"
  by (auto simp: the_var_def update_var_def node_at_update split: option.splits node.splits)

lemma the_var_iff: "the_var root p = Some v \<longleftrightarrow> node_at root p = Some (Fin v)"
  by (auto simp: the_var_def split: option.splits node.splits)

text \<open>
  A getter that raises breaks its variable. The first access raises and leaves the variable not ready; from
  then on, each access gives the variable object itself, and an assignment goes past it: it puts the value in the
  place of the attribute, while the variable, which the group still lists, keeps its old one.
\<close>
theorem failed_getter_breaks_variable:
  assumes "the_var root (p @ [n]) = Some v" and "fv_computed v" and "fv_ready v" and "fv_shadow v = None"
    and "compute w v (update_var (p @ [n]) (\<lambda>v. v\<lparr>fv_ready := False\<rparr>) root) = Inl e"
  shows "\<exists>root1 root2. getattribute w p n root = (Inl e, root1)
    \<and> getattribute w p n root1 = (Inr (VarObject (v\<lparr>fv_ready := False\<rparr>)), root1)
    \<and> setattr w p full n x root1 = (Inr (), root2)
    \<and> getattribute w p n root2 = (Inr (Plain x), root2)
    \<and> the_var root2 (p @ [n]) = Some (v\<lparr>fv_ready := False, fv_shadow := Some x\<rparr>)"
proof -
  let ?q = "p @ [n]"
  let ?root1 = "update_var ?q (\<lambda>v. v\<lparr>fv_ready := False\<rparr>) root"
  let ?root2 = "update_var ?q (\<lambda>v. v\<lparr>fv_shadow := Some x\<rparr>) ?root1"
  have v0: "node_at root ?q = Some (Fin v)" using assms(1) by (simp add: the_var_iff)
  have t1: "the_var ?root1 ?q = Some (v\<lparr>fv_ready := False\<rparr>)" by (simp add: the_var_update assms(1))
  then have v1: "node_at ?root1 ?q = Some (Fin (v\<lparr>fv_ready := False\<rparr>))" unfolding the_var_iff .
  have t2: "the_var ?root2 ?q = Some (v\<lparr>fv_ready := False, fv_shadow := Some x\<rparr>)" by (simp add: the_var_update assms(1))
  then have v2: "node_at ?root2 ?q = Some (Fin (v\<lparr>fv_ready := False, fv_shadow := Some x\<rparr>))" unfolding the_var_iff .
  have "getattribute w p n root = (Inl e, ?root1)"
    using v0 assms(2-5) by (simp add: getattribute_def get_value_def)
  moreover have "getattribute w p n ?root1 = (Inr (VarObject (v\<lparr>fv_ready := False\<rparr>)), ?root1)"
    using v1 assms(4) by (simp add: getattribute_def)
  moreover have "setattr w p full n x ?root1 = (Inr (), ?root2)"
    using v1 by (simp add: setattr_def)
  moreover have "getattribute w p n ?root2 = (Inr (Plain x), ?root2)"
    using v2 by (simp add: getattribute_def)
  moreover have "the_var ?root2 ?q = Some (v\<lparr>fv_ready := False, fv_shadow := Some x\<rparr>)"
    by (rule t2)
  ultimately show ?thesis by blast
qed

lemma failed_getter_breaks_variable_witness:
  "\<exists>root1 root2.
     getattribute world0 [] ''a'' (Grp (one_info\<lparr>g_ready := True\<rparr>) [(''a'', Fin ((computed_new CtxVar (Some 0) None)\<lparr>fv_ready := True\<rparr>))])
       = (Inl AttributeError, root1)
   \<and> setattr world0 [] ''x'' ''a'' (Some (PyInt 3)) root1 = (Inr (), root2)
   \<and> value_at root2 [''a''] = None"
proof -
  let ?v = "(computed_new CtxVar (Some 0) None)\<lparr>fv_ready := True\<rparr>"
  let ?root = "Grp (one_info\<lparr>g_ready := True\<rparr>) [(''a'', Fin ?v)]"
  have "the_var ?root ([] @ [''a'']) = Some ?v" "fv_computed ?v" "fv_ready ?v" "fv_shadow ?v = None"
    "compute world0 ?v (update_var ([] @ [''a'']) (\<lambda>v. v\<lparr>fv_ready := False\<rparr>) ?root) = Inl AttributeError"
    by (simp_all add: the_var_def computed_new_def var_new_def compute_def world0_def)
  from failed_getter_breaks_variable [OF this, of "''x''" "Some (PyInt 3)"]
  obtain root1 root2 where "getattribute world0 [] ''a'' ?root = (Inl AttributeError, root1)"
    "setattr world0 [] ''x'' ''a'' (Some (PyInt 3)) root1 = (Inr (), root2)"
    "the_var root2 ([] @ [''a'']) = Some (?v\<lparr>fv_ready := False, fv_shadow := Some (Some (PyInt 3))\<rparr>)" by blast
  then show ?thesis by (auto simp: value_at_def var_at_def computed_new_def var_new_def)
qed

end
