(* ===== verification/ThreadExecutor.thy ===== *)
theory ThreadExecutor
  imports Prelude
begin

text \<open>
  \<open>src/asgiref/current_thread_executor.py\<close>: the executor that runs the work of other threads in the thread that
  waits for a future. Work items are numbered by their submission; the calls of \<open>submit\<close> that have passed
  their checks and not yet put their item are kept apart, since other threads run in between. What an item's
  function does is left out: it ends with a result or an exception, and both complete its future.
\<close>

section \<open>The executor\<close>

datatype work_item = Work nat | AwaitedFuture

datatype future_state = Pending | Cancelled | Finished

record executor =
  work_queue :: "work_item list"
  broken :: bool
  submitting :: "nat list"
  future_of :: "(nat, future_state) dict"
  ran :: "nat list"
  next_item :: nat
  put_log :: "work_item list"
  waiting :: bool

text \<open>\<open>put_log\<close> collects what was ever put; \<open>waiting\<close>: the loop of \<open>run_until_future\<close> goes on.\<close>

definition executor_new :: executor where
  "executor_new = \<lparr>work_queue = [], broken = False, submitting = [], future_of = [], ran = [], next_item = 0,
     put_log = [], waiting = False\<rparr>"

definition queue_put :: "work_item \<Rightarrow> executor \<Rightarrow> executor" where
  "queue_put x s = s\<lparr>work_queue := work_queue s @ [x], put_log := put_log s @ [x]\<rparr>"

text \<open>\<open>submit\<close> up to the creation of the future, and putting the item.\<close>

definition submit_check :: "bool \<Rightarrow> executor \<Rightarrow> nat res \<times> executor" where
  "submit_check own_thread s =
     (if own_thread then (Inl RuntimeError, s)
      else if broken s then (Inl RuntimeError, s)
      else (let n = next_item s in
        (Inr n, s\<lparr>next_item := Suc n, submitting := submitting s @ [n], future_of := dset n Pending (future_of s)\<rparr>)))"

definition submit_put :: "nat \<Rightarrow> executor \<Rightarrow> executor" where
  "submit_put n s =
     (if n \<in> set (submitting s) then queue_put (Work n) (s\<lparr>submitting := remove1 n (submitting s)\<rparr>) else s)"

text \<open>\<open>_WorkItem.run\<close>: a cancelled future is not run.\<close>

definition work_run :: "nat \<Rightarrow> executor \<Rightarrow> executor" where
  "work_run n s =
     (if dget (future_of s) n = Some Cancelled then s
      else s\<lparr>ran := ran s @ [n], future_of := dset n Finished (future_of s)\<rparr>)"

text \<open>A client cancels a future: that works until it runs.\<close>

definition future_cancel :: "nat \<Rightarrow> executor \<Rightarrow> executor" where
  "future_cancel n s =
     (if dget (future_of s) n = Some Pending then s\<lparr>future_of := dset n Cancelled (future_of s)\<rparr> else s)"

text \<open>\<open>run_until_future\<close>: its start, and one turn of its loop (it blocks on an empty queue).\<close>

definition run_begin :: "bool \<Rightarrow> executor \<Rightarrow> unit res \<times> executor" where
  "run_begin own_thread s = (if \<not> own_thread then (Inl RuntimeError, s) else (Inr (), s\<lparr>waiting := True\<rparr>))"

definition run_turn :: "executor \<Rightarrow> executor" where
  "run_turn s =
     (if \<not> waiting s then s
      else (case work_queue s of
              [] \<Rightarrow> s
            | AwaitedFuture # q \<Rightarrow> s\<lparr>work_queue := q, broken := True, waiting := False\<rparr>
            | Work n # q \<Rightarrow> work_run n (s\<lparr>work_queue := q\<rparr>)))"

text \<open>The awaited future is done: its callback puts it, once.\<close>

definition future_done :: "executor \<Rightarrow> executor" where
  "future_done s = (if AwaitedFuture \<in> set (put_log s) then s else queue_put AwaitedFuture s)"

section \<open>Interleavings\<close>

text \<open>One call of \<open>run_until_future\<close>, while other threads submit and cancel.\<close>

inductive ex_step :: "executor \<Rightarrow> executor \<Rightarrow> bool" where
  step_check: "submit_check False s = (r, s') \<Longrightarrow> ex_step s s'"
| step_put: "ex_step s (submit_put n s)"
| step_cancel: "ex_step s (future_cancel n s)"
| step_done: "waiting s \<Longrightarrow> ex_step s (future_done s)"
| step_turn: "ex_step s (run_turn s)"

inductive_cases ex_stepE: "ex_step s s'"

abbreviation ex_reachable :: "executor \<Rightarrow> bool" where
  "ex_reachable \<equiv> reach (\<lambda>s. run_begin True executor_new = (Inr (), s)) ex_step"

fun work_ids :: "work_item list \<Rightarrow> nat list" where
  "work_ids [] = []"
| "work_ids (Work n # xs) = n # work_ids xs"
| "work_ids (AwaitedFuture # xs) = work_ids xs"

lemma work_ids_append [simp]: "work_ids (xs @ ys) = work_ids xs @ work_ids ys"
  by (induction xs rule: work_ids.induct) simp_all

lemma set_work_ids: "n \<in> set (work_ids xs) \<longleftrightarrow> Work n \<in> set xs"
  by (induction xs rule: work_ids.induct) auto

definition not_cancelled :: "executor \<Rightarrow> nat \<Rightarrow> bool" where
  "not_cancelled s n \<longleftrightarrow> dget (future_of s) n \<noteq> Some Cancelled"

text \<open>
  The invariant, with \<open>taken\<close> the items fetched so far: they and the queue are what was put; what was run are the
  fetched items that were not cancelled, and only their futures are finished; numbers are fresh; the loop ends with
  the awaited future.
\<close>

definition ex_inv :: "work_item list \<Rightarrow> executor \<Rightarrow> bool" where
  "ex_inv taken s \<longleftrightarrow> put_log s = taken @ work_queue s
     \<and> ran s = filter (not_cancelled s) (work_ids taken)
     \<and> (\<forall>n. dget (future_of s) n = Some Finished \<longleftrightarrow> n \<in> set (ran s))
     \<and> (\<forall>n\<in>set (work_ids taken @ work_ids (work_queue s) @ submitting s). dget (future_of s) n \<noteq> None)
     \<and> (\<forall>n. dget (future_of s) n \<noteq> None \<longrightarrow> n < next_item s)
     \<and> distinct (work_ids taken @ work_ids (work_queue s) @ submitting s)
     \<and> (waiting s \<longleftrightarrow> AwaitedFuture \<notin> set taken) \<and> (broken s \<longleftrightarrow> \<not> waiting s)
     \<and> (AwaitedFuture \<in> set taken \<longrightarrow> (\<exists>us. taken = us @ [AwaitedFuture] \<and> AwaitedFuture \<notin> set us))"

lemma ex_inv_check:
  assumes "ex_inv taken s" and "submit_check False s = (r, s')"
  shows "ex_inv taken s'"
proof (cases "broken s")
  case False
  let ?n = "next_item s"
  have s': "s' = s\<lparr>next_item := Suc ?n, submitting := submitting s @ [?n], future_of := dset ?n Pending (future_of s)\<rparr>"
    using assms(2) False by (simp add: submit_check_def Let_def)
  have fresh: "dget (future_of s) ?n = None" using assms(1) by (auto simp: ex_inv_def)
  then have n: "?n \<notin> set (work_ids taken @ work_ids (work_queue s) @ submitting s)"
    using assms(1) unfolding ex_inv_def by blast
  have "filter (not_cancelled s') (work_ids taken) = filter (not_cancelled s) (work_ids taken)"
    by (rule filter_cong) (auto simp: not_cancelled_def s' fresh)
  with assms(1) n fresh show ?thesis by (auto simp: ex_inv_def s' less_Suc_eq)
qed (use assms in \<open>simp add: submit_check_def\<close>)

lemma ex_inv_put: "ex_inv taken s \<Longrightarrow> ex_inv taken (submit_put n s)"
  by (auto simp: ex_inv_def submit_put_def queue_put_def not_cancelled_def [abs_def] dest: in_set_remove1)

lemma taken_not_pending:
  assumes "ex_inv taken s" and "n \<in> set (work_ids taken)"
  shows "dget (future_of s) n = Some Cancelled \<or> dget (future_of s) n = Some Finished"
  using assms by (cases "not_cancelled s n") (auto simp: ex_inv_def not_cancelled_def)

lemma ex_inv_cancel: 
  assumes "ex_inv taken s" shows "ex_inv taken (future_cancel n s)"
proof (cases "dget (future_of s) n = Some Pending")
  case True
  let ?s = "s\<lparr>future_of := dset n Cancelled (future_of s)\<rparr>"
  have nt: "n \<notin> set (work_ids taken)" using taken_not_pending [OF assms, of n] True by auto
  then have f: "filter (not_cancelled ?s) (work_ids taken) = filter (not_cancelled s) (work_ids taken)"
    by (intro filter_cong) (auto simp: not_cancelled_def)
  have "n \<notin> set (ran s)" using nt assms by (auto simp: ex_inv_def)
  with assms True f nt show ?thesis unfolding ex_inv_def future_cancel_def by (simp; blast?)
qed (use assms in \<open>simp add: future_cancel_def\<close>)

lemma ex_inv_done: "ex_inv taken s \<Longrightarrow> ex_inv taken (future_done s)"
  by (auto simp: ex_inv_def future_done_def queue_put_def not_cancelled_def [abs_def])

lemma ex_inv_turn:
  assumes "ex_inv taken s"
  shows "\<exists>taken'. ex_inv taken' (run_turn s)"
proof (cases "waiting s \<and> work_queue s \<noteq> []")
  case True
  then obtain x q where q: "work_queue s = x # q" and w: "waiting s" by (cases "work_queue s") auto
  have nf: "AwaitedFuture \<notin> set taken" using assms w by (simp add: ex_inv_def)
  show ?thesis
  proof (cases x)
    case AwaitedFuture
    have "ex_inv (taken @ [x]) (run_turn s)"
      using assms w q nf by (auto simp: ex_inv_def run_turn_def AwaitedFuture not_cancelled_def [abs_def])
    then show ?thesis ..
  next
    case (Work n)
    have d: "distinct (work_ids taken @ n # work_ids q)" using assms q Work by (auto simp: ex_inv_def)
    have k: "dget (future_of s) n \<noteq> None" using assms q Work by (auto simp: ex_inv_def)
    have "ex_inv (taken @ [x]) (run_turn s)"
    proof (cases "dget (future_of s) n = Some Cancelled")
      case True
      then show ?thesis using assms w q nf
        by (auto simp: ex_inv_def run_turn_def work_run_def Work not_cancelled_def [abs_def])
    next
      case False
      let ?s = "s\<lparr>work_queue := q, ran := ran s @ [n], future_of := dset n Finished (future_of s)\<rparr>"
      have f: "filter (not_cancelled ?s) (work_ids taken) = filter (not_cancelled s) (work_ids taken)"
        using d by (intro filter_cong) (auto simp: not_cancelled_def)
      have r: "run_turn s = ?s" using w q False by (simp add: run_turn_def work_run_def Work)
      have "not_cancelled ?s n" by (simp add: not_cancelled_def)
      then have "ran ?s = filter (not_cancelled ?s) (work_ids (taken @ [x]))"
        using assms f by (simp add: ex_inv_def Work)
      then show ?thesis unfolding r using assms w q nf k Work by (auto simp: ex_inv_def)
    qed
    then show ?thesis ..
  qed
next
  case False
  then have "run_turn s = s" by (auto simp: run_turn_def)
  then show ?thesis using assms by auto
qed

interpretation ex: invariant "\<lambda>s. run_begin True executor_new = (Inr (), s)" ex_step "\<lambda>s. \<exists>taken. ex_inv taken s"
proof
  fix s assume "run_begin True executor_new = (Inr (), s)"
  then have "s = executor_new\<lparr>waiting := True\<rparr>" by (simp add: run_begin_def)
  then have "ex_inv [] s" by (simp add: ex_inv_def executor_new_def)
  then show "\<exists>taken. ex_inv taken s" ..
next
  fix s s' assume "\<exists>taken. ex_inv taken s" and step: "ex_step s s'"
  then obtain taken where i: "ex_inv taken s" by blast
  from step show "\<exists>taken. ex_inv taken s'"
    by (cases rule: ex_stepE) (use i in \<open>blast intro: ex_inv_check ex_inv_put ex_inv_cancel ex_inv_done ex_inv_turn\<close>)+
qed

lemmas ex_reachable_inv = ex.reach_inv

section \<open>Properties\<close>

text \<open>
  C35: The waiting thread runs the work of others in order. Under every interleaving of submissions, cancellations
  and the completion of the awaited future, what was run are the items fetched so far that were not cancelled, in
  the order in which they were put, each once; and when the loop has ended, exactly the items put before the
  awaited future came were fetched. Those put after it, by calls that had passed the check in \<open>submit\<close> before,
  stay in the queue and their futures are never finished.
\<close>
theorem executor_runs_in_order:
  assumes "ex_reachable s"
  shows "\<exists>taken. put_log s = taken @ work_queue s \<and> distinct (work_ids (put_log s))
    \<and> ran s = filter (not_cancelled s) (work_ids taken)
    \<and> (\<not> waiting s \<longrightarrow> (\<exists>us. taken = us @ [AwaitedFuture] \<and> AwaitedFuture \<notin> set us)
         \<and> (\<forall>n\<in>set (work_ids (work_queue s)). dget (future_of s) n \<noteq> Some Finished \<and> run_turn s = s))"
proof -
  obtain taken where i: "ex_inv taken s" using ex_reachable_inv [OF assms] ..
  have "dget (future_of s) n \<noteq> Some Finished" if "n \<in> set (work_ids (work_queue s))" for n
  proof
    assume "dget (future_of s) n = Some Finished"
    then have "n \<in> set (work_ids taken)" using i by (auto simp: ex_inv_def)
    moreover have "distinct (work_ids taken @ work_ids (work_queue s))" using i by (auto simp: ex_inv_def)
    ultimately show False using that by auto
  qed
  moreover have "\<not> waiting s \<Longrightarrow> run_turn s = s" by (simp add: run_turn_def)
  ultimately show ?thesis using i by (intro exI [of _ taken]) (auto simp: ex_inv_def)
qed

text \<open>A late submission: it passes the check, then the loop ends, then the item is put.\<close>

definition late_state :: executor where
  "late_state = submit_put 1 (run_turn (run_turn (future_done (snd (submit_check False
     (submit_put 0 (snd (submit_check False (snd (run_begin True executor_new))))))))))"

lemma late_reachable: "ex_reachable late_state"
proof -
  have 0: "ex_reachable (snd (run_begin True executor_new))"
    by (rule reach_start) (simp add: run_begin_def)
  have c: "ex_reachable s \<Longrightarrow> ex_reachable (snd (submit_check False s))" for s
    by (rule reach_next, assumption, rule step_check [of s "fst (submit_check False s)"]) simp
  have p: "ex_reachable s \<Longrightarrow> ex_reachable (submit_put n s)" for s n by (rule reach_next, assumption, rule step_put)
  have t: "ex_reachable s \<Longrightarrow> ex_reachable (run_turn s)" for s by (rule reach_next, assumption, rule step_turn)
  have d: "ex_reachable s \<Longrightarrow> waiting s \<Longrightarrow> ex_reachable (future_done s)" for s by (rule reach_next, assumption, rule step_done)
  show ?thesis unfolding late_state_def
    by (rule p, rule t, rule t, rule d, rule c, rule p, rule c, rule 0)
      (simp add: run_begin_def executor_new_def submit_check_def submit_put_def queue_put_def Let_def)
qed

lemma executor_runs_in_order_witness:
  "ran late_state = [0] \<and> work_queue late_state = [Work 1] \<and> \<not> waiting late_state
   \<and> dget (future_of late_state) 1 = Some Pending \<and> distinct (work_ids (put_log late_state))"
proof -
  have "ran late_state = [0] \<and> work_queue late_state = [Work 1] \<and> \<not> waiting late_state
      \<and> dget (future_of late_state) 1 = Some Pending"
    by (simp add: late_state_def run_begin_def executor_new_def submit_check_def submit_put_def queue_put_def Let_def
        future_done_def run_turn_def work_run_def)
  with executor_runs_in_order [OF late_reachable] show ?thesis by blast
qed

end
