(* ===== verification/AsgiLocal.thy ===== *)
theory AsgiLocal
  imports Prelude
begin

text \<open>
  \<open>src/asgiref/local.py\<close> with the launch maps of \<open>sync.py\<close> that it follows: which context an access belongs to
  when synchronous and asynchronous code call each other, and the storage of each context. Tasks and threads are
  numbered; \<open>limit\<close> is \<open>sys.getrecursionlimit()\<close>. Which executor \<open>SyncToAsync\<close> runs in is in the last part.
\<close>

section \<open>The launch maps\<close>

datatype ctx = Task nat | Thread nat

text \<open>\<open>AsyncToSync.launch_map\<close>, from tasks to threads, and \<open>SyncToAsync.launch_map\<close>, from threads to tasks.\<close>

record launch =
  task_launch :: "(nat, nat) dict"
  thread_launch :: "(nat, nat) dict"

text \<open>\<open>AsyncToSync.main_wrap\<close> around the awaitable, in the new task \<open>k\<close> for the thread \<open>t\<close>.\<close>

definition main_wrap_enter :: "nat \<Rightarrow> nat \<Rightarrow> launch \<Rightarrow> launch" where
  "main_wrap_enter k t L = L\<lparr>task_launch := dset k t (task_launch L)\<rparr>"

definition main_wrap_leave :: "nat \<Rightarrow> launch \<Rightarrow> launch res" where
  "main_wrap_leave k L = bindR (ddel_or (task_launch L) k) (\<lambda>d. Inr (L\<lparr>task_launch := d\<rparr>))"

text \<open>
  \<open>SyncToAsync.thread_handler\<close> around the function, in the thread \<open>t\<close> for the task \<open>k\<close>; the result is
  \<open>parent_set\<close>.
\<close>

definition thread_handler_enter :: "nat \<Rightarrow> nat \<Rightarrow> launch \<Rightarrow> bool \<times> launch" where
  "thread_handler_enter t k L =
     (if dget (task_launch L) k = Some t then (False, L)
      else (True, L\<lparr>thread_launch := dset t k (thread_launch L)\<rparr>))"

definition thread_handler_leave :: "bool \<Rightarrow> nat \<Rightarrow> launch \<Rightarrow> launch res" where
  "thread_handler_leave parent_set t L =
     (if parent_set then bindR (ddel_or (thread_launch L) t) (\<lambda>d. Inr (L\<lparr>thread_launch := d\<rparr>)) else Inr L)"

section \<open>\<open>Local\<close>\<close>

text \<open>The loop of \<open>_get_context_id\<close>; without a \<open>break\<close> within the limit it raises.\<close>

fun resolve :: "nat \<Rightarrow> launch \<Rightarrow> ctx \<Rightarrow> ctx res" where
  "resolve 0 L c = Inl RuntimeError"
| "resolve (Suc n) L (Task k) =
     (case dget (task_launch L) k of None \<Rightarrow> Inr (Task k) | Some t \<Rightarrow> resolve n L (Thread t))"
| "resolve (Suc n) L (Thread t) =
     (case dget (thread_launch L) t of None \<Rightarrow> Inr (Thread t) | Some k \<Rightarrow> resolve n L (Task k))"

definition get_context_id :: "nat \<Rightarrow> bool \<Rightarrow> launch \<Rightarrow> nat option \<Rightarrow> nat \<Rightarrow> ctx res" where
  "get_context_id limit thread_critical L task thread =
     (let c = (case task of None \<Rightarrow> Thread thread | Some k \<Rightarrow> Task k) in
      if thread_critical then Inr c else resolve limit L c)"

text \<open>The attribute that a \<open>Local\<close> keeps on context objects, by context.\<close>

type_synonym 'v storage = "(ctx, (string, 'v) dict) dict"

definition get_storage :: "ctx \<Rightarrow> 'v storage \<Rightarrow> (string, 'v) dict \<times> 'v storage" where
  "get_storage c st =
     (case dget st c of None \<Rightarrow> ([], dset c [] st) | Some d \<Rightarrow> (d, st))"

text \<open>
  \<open>__getattr__\<close> is asked only for names that the usual lookup does not find: it finds the object's own attributes, the
  methods of the class and what every object has.
\<close>

definition own_attribute :: "string \<Rightarrow> bool" where
  "own_attribute key \<longleftrightarrow> key \<in> {''_context_refs'', ''_thread_critical'', ''_thread_lock'', ''_attr_name''}"

definition object_attributes :: "string list" where
  "object_attributes = [''__class__'', ''__delattr__'', ''__dict__'', ''__dir__'', ''__doc__'', ''__eq__'', ''__format__'', ''__ge__'',
     ''__getattribute__'', ''__gt__'', ''__hash__'', ''__init__'', ''__init_subclass__'', ''__le__'', ''__lt__'', ''__module__'', ''__ne__'',
     ''__new__'', ''__reduce__'', ''__reduce_ex__'', ''__repr__'', ''__setattr__'', ''__sizeof__'', ''__str__'', ''__subclasshook__'',
     ''__weakref__'']"

definition found_as_usual :: "string \<Rightarrow> bool" where
  "found_as_usual key \<longleftrightarrow> own_attribute key \<or> key \<in> {''_get_context_id'', ''_get_storage'', ''__del__'', ''__getattr__''}
     \<or> key \<in> set object_attributes"

datatype 'v got = Member string | Stored 'v

definition local_getattr :: "ctx res \<Rightarrow> string \<Rightarrow> 'v storage \<Rightarrow> 'v got res \<times> 'v storage" where
  "local_getattr c key st =
     (if found_as_usual key then (Inr (Member key), st)
      else
        (case c of
           Inl e \<Rightarrow> (Inl e, st)
         | Inr c \<Rightarrow>
             (case get_storage c st of (d, st') \<Rightarrow>
                (case dget d key of None \<Rightarrow> (Inl AttributeError, st') | Some v \<Rightarrow> (Inr (Stored v), st')))))"

text \<open>The object's own attributes are set as usual, which the model leaves out; other names that the lookup finds are stored.\<close>

definition local_setattr :: "ctx res \<Rightarrow> string \<Rightarrow> 'v \<Rightarrow> 'v storage \<Rightarrow> unit res \<times> 'v storage" where
  "local_setattr c key v st =
     (if own_attribute key then (Inr (), st)
      else
        (case c of
           Inl e \<Rightarrow> (Inl e, st)
         | Inr c \<Rightarrow> (case get_storage c st of (d, st') \<Rightarrow> (Inr (), dset c (dset key v d) st'))))"

definition local_delattr :: "ctx res \<Rightarrow> string \<Rightarrow> 'v storage \<Rightarrow> unit res \<times> 'v storage" where
  "local_delattr c key st =
     (case c of
        Inl e \<Rightarrow> (Inl e, st)
      | Inr c \<Rightarrow>
          (case get_storage c st of (d, st') \<Rightarrow>
             (case dget d key of
                None \<Rightarrow> (Inl AttributeError, st')
              | Some _ \<Rightarrow> (Inr (), dset c (ddel key d) st'))))"

section \<open>Nested calls\<close>

text \<open>
  \<open>calls root n c L\<close>: from the root context, \<open>n\<close> calls deep, the code now runs in the context \<open>c\<close>, with the launch
  maps \<open>L\<close>. \<open>async_to_sync\<close> starts a new task from a thread; \<open>sync_to_async\<close> runs in a thread that is either the
  one that launched the task, or one that takes no other part. A child task that runs synchronous code in the thread that launched
  its parent is not such a call: see \<open>child_takes_over\<close> below.
\<close>

definition source_of :: "launch \<Rightarrow> ctx \<Rightarrow> ctx option" where
  "source_of L c = (case c of Task k \<Rightarrow> map_option Thread (dget (task_launch L) k)
     | Thread t \<Rightarrow> map_option Task (dget (thread_launch L) t))"

inductive calls :: "ctx \<Rightarrow> nat \<Rightarrow> ctx \<Rightarrow> launch \<Rightarrow> bool" for root where
  calls_root: "source_of L root = None \<Longrightarrow> calls root 0 root L"
| call_async_to_sync:
    "calls root n (Thread t) L \<Longrightarrow> dget (task_launch L) k = None \<Longrightarrow> k \<notin> ran (dget (thread_launch L)) \<Longrightarrow> Task k \<noteq> root
       \<Longrightarrow> calls root (Suc n) (Task k) (main_wrap_enter k t L)"
| call_sync_to_async:
    "calls root n (Task k) L \<Longrightarrow>
       dget (task_launch L) k = Some t \<or> dget (thread_launch L) t = None \<and> t \<notin> ran (dget (task_launch L)) \<and> Thread t \<noteq> root
       \<Longrightarrow> thread_handler_enter t k L = (b, L') \<Longrightarrow> calls root (Suc n) (Thread t) L'"

text \<open>The chain of sources from a context to the root, in \<open>n\<close> hops.\<close>

fun chain :: "launch \<Rightarrow> nat \<Rightarrow> ctx \<Rightarrow> ctx \<Rightarrow> bool" where
  "chain L 0 c root \<longleftrightarrow> c = root \<and> source_of L root = None"
| "chain L (Suc n) c root \<longleftrightarrow> (\<exists>d. source_of L c = Some d \<and> chain L n d root)"

lemma resolve_source:
  "resolve (Suc n) L c = (case source_of L c of None \<Rightarrow> Inr c | Some d \<Rightarrow> resolve n L d)"
  by (cases c) (auto simp: source_of_def split: option.split)

lemma resolve_chain: "chain L n c root \<Longrightarrow> resolve limit L c = (if n < limit then Inr root else Inl RuntimeError)"
proof (induction n arbitrary: c limit)
  case 0
  then show ?case by (cases limit) (simp_all add: resolve_source del: resolve.simps(2,3))
next
  case (Suc n)
  then show ?case by (cases limit) (auto simp: resolve_source simp del: resolve.simps(2,3))
qed

lemma chain_task_entry:
  assumes "chain L n c root" and "dget (task_launch L) k = None" and "k \<notin> ran (dget (thread_launch L))"
    and "Task k \<noteq> root" and "c \<noteq> Task k"
  shows "chain (main_wrap_enter k t L) n c root"
  using assms
proof (induction n arbitrary: c)
  case (Suc n)
  then obtain d where d: "source_of L c = Some d" "chain L n d root" by auto
  have "source_of (main_wrap_enter k t L) c = Some d"
    using d(1) Suc.prems(5) by (cases c) (auto simp: source_of_def main_wrap_enter_def)
  moreover have "d \<noteq> Task k" using d(1) Suc.prems(3) by (cases c) (auto simp: source_of_def ran_def)
  ultimately show ?case using Suc.IH [OF d(2) Suc.prems(2-4)] by auto
qed (auto simp: source_of_def main_wrap_enter_def split: ctx.splits)

lemma chain_thread_entry:
  assumes "chain L n c root" and "dget (thread_launch L) t = None" and "t \<notin> ran (dget (task_launch L))"
    and "Thread t \<noteq> root" and "c \<noteq> Thread t"
  shows "chain (L\<lparr>thread_launch := dset t k (thread_launch L)\<rparr>) n c root"
  using assms
proof (induction n arbitrary: c)
  case (Suc n)
  then obtain d where d: "source_of L c = Some d" "chain L n d root" by auto
  have "source_of (L\<lparr>thread_launch := dset t k (thread_launch L)\<rparr>) c = Some d"
    using d(1) Suc.prems(5) by (cases c) (auto simp: source_of_def)
  moreover have "d \<noteq> Thread t" using d(1) Suc.prems(3) by (cases c) (auto simp: source_of_def ran_def)
  ultimately show ?case using Suc.IH [OF d(2) Suc.prems(2-4)] by auto
qed (auto simp: source_of_def split: ctx.splits)

lemma calls_chain: "calls root n c L \<Longrightarrow> \<exists>m\<le>n. chain L m c root"
proof (induction rule: calls.induct)
  case (calls_root L)
  then show ?case by (intro exI [of _ 0]) simp
next
  case (call_async_to_sync n t L k)
  then obtain m where m: "m \<le> n" "chain L m (Thread t) root" by blast
  have "chain (main_wrap_enter k t L) m (Thread t) root"
    using m(2) call_async_to_sync by (intro chain_task_entry) auto
  then have "chain (main_wrap_enter k t L) (Suc m) (Task k) root"
    by (auto simp: source_of_def main_wrap_enter_def)
  with m(1) show ?case by (intro exI [of _ "Suc m"]) simp
next
  case (call_sync_to_async n k L t b L')
  then obtain m where m: "m \<le> n" "chain L m (Task k) root" by blast
  show ?case
  proof (cases "dget (task_launch L) k = Some t")
    case True
    with call_sync_to_async have "L' = L" by (simp add: thread_handler_enter_def)
    moreover from m(2) True obtain m' where "m = Suc m'" "chain L m' (Thread t) root"
      by (cases m) (auto simp: source_of_def)
    ultimately show ?thesis using m(1) by (intro exI [of _ m']) simp
  next
    case False
    with call_sync_to_async have L': "L' = L\<lparr>thread_launch := dset t k (thread_launch L)\<rparr>"
      and f: "dget (thread_launch L) t = None" "t \<notin> ran (dget (task_launch L))" "Thread t \<noteq> root"
      by (auto simp: thread_handler_enter_def)
    have "chain L' m (Task k) root" unfolding L' using m(2) f by (intro chain_thread_entry) auto
    then have "chain L' (Suc m) (Thread t) root" by (auto simp: source_of_def L')
    with m(1) show ?thesis by (intro exI [of _ "Suc m"]) simp
  qed
qed

section \<open>Properties of \<open>Local\<close>\<close>

definition here :: "nat option \<Rightarrow> nat \<Rightarrow> ctx" where
  "here task thread = (case task of None \<Rightarrow> Thread thread | Some k \<Rightarrow> Task k)"

lemma get_context_root:
  assumes "calls root n (here task thread) L" and "n < limit"
  shows "get_context_id limit False L task thread = Inr root"
  using calls_chain [OF assms(1)] resolve_chain [of L _ "here task thread" root limit] assms(2)
  by (auto simp: get_context_id_def here_def)

lemma dget_get_storage: "fst (get_storage c st) = (case dget st c of None \<Rightarrow> [] | Some d \<Rightarrow> d)"
  by (simp add: get_storage_def split: option.split)

lemma getattr_fst:
  "fst (local_getattr (Inr c) key st) = (if found_as_usual key then Inr (Member key) else
     (case dget st c of None \<Rightarrow> Inl AttributeError | Some d \<Rightarrow> (case dget d key of None \<Rightarrow> Inl AttributeError | Some v \<Rightarrow> Inr (Stored v))))"
  by (simp add: local_getattr_def get_storage_def split: option.split)

lemma setattr_storage:
  "\<not> own_attribute key \<Longrightarrow> dget (snd (local_setattr (Inr c) key v st)) c' =
     (if c' = c then Some (dset key v (case dget st c of None \<Rightarrow> [] | Some d \<Rightarrow> d)) else dget st c')"
  by (simp add: local_setattr_def get_storage_def split: option.split)

lemma setattr_usual: "\<not> found_as_usual key \<Longrightarrow> \<not> own_attribute key"
  by (simp add: found_as_usual_def)

text \<open>
  C34: Locals that are not \<open>thread_critical\<close> follow the calls. What code sets in such a \<open>Local\<close>, however deep in calls between synchronous and
  asynchronous code (less deep than the recursion limit), is what all code below the same root context reads
  afterwards under that name, in whichever tasks and threads it runs; other names, and all names of other roots,
  are as before. The calls meant are nested ones: \<open>async_to_sync\<close> starts a task that is new, and \<open>sync_to_async\<close> runs in the thread that
  launched its task or in another thread than the root that was not entered by \<open>sync_to_async\<close> and has launched no task. (A child task whose
  synchronous code runs in the thread that launched the parent task is excluded: there the locals of the parent become those of the child, as
  \<open>child_takes_over\<close> shows.) The name is not one that the usual lookup of attributes finds, such as \<open>_get_storage\<close> or \<open>__doc__\<close>.
\<close>
theorem locals_follow_calls:
  assumes "calls root n (here task thread) L" and "calls root n' (here task' thread') L'"
    and "calls root2 n2 (here task2 thread2) L2" and "n < limit" and "n' < limit" and "n2 < limit"
    and "\<not> found_as_usual key"
    and "st' = snd (local_setattr (get_context_id limit False L task thread) key v st)"
  shows "fst (local_getattr (get_context_id limit False L' task' thread') key st') = Inr (Stored v)
    \<and> (root2 \<noteq> root \<or> key2 \<noteq> key \<longrightarrow>
         fst (local_getattr (get_context_id limit False L2 task2 thread2) key2 st') =
         fst (local_getattr (get_context_id limit False L2 task2 thread2) key2 st))"
  unfolding assms(8) get_context_root [OF assms(1,4)] get_context_root [OF assms(2,5)] get_context_root [OF assms(3,6)]
    getattr_fst setattr_storage [OF setattr_usual [OF assms(7)]]
  using assms(7) by (auto split: option.split)

lemma locals_follow_calls_witness:
  "fst (local_getattr (get_context_id 1000 False \<lparr>task_launch = [(1, 0)], thread_launch = [(2, 1)]\<rparr> None 2) ''x''
     (snd (local_setattr (get_context_id 1000 False \<lparr>task_launch = [], thread_launch = []\<rparr> None 0) ''x'' (7 :: nat) []))) = Inr (Stored 7)"
proof -
  let ?A = "\<lparr>task_launch = [], thread_launch = []\<rparr>" and ?B = "\<lparr>task_launch = [(1, 0)], thread_launch = [(2, 1)]\<rparr>"
  have 0: "calls (Thread 0) 0 (here None 0) ?A" unfolding here_def by (simp, rule calls_root) (simp add: source_of_def)
  have 1: "calls (Thread 0) 1 (Task 1) (main_wrap_enter 1 0 ?A)"
    using call_async_to_sync [of "Thread 0" 0 0 ?A 1] 0 by (simp add: here_def)
  have 2: "calls (Thread 0) 2 (here None 2) ?B"
    using call_sync_to_async [OF 1, of 2 True ?B]
    by (simp add: main_wrap_enter_def thread_handler_enter_def here_def numeral_2_eq_2 ran_def)
  have "\<not> found_as_usual ''x''" by (simp add: found_as_usual_def own_attribute_def object_attributes_def)
  from locals_follow_calls [OF 0 2 0 _ _ _ this refl, of 1000 7 "[]" "''x''"] show ?thesis by simp
qed

text \<open>
  The thread 0 launches the task 1, which starts the task 2, say by \<open>asyncio.gather\<close>; the synchronous code of the task 2 is run
  in the thread 0, whose executor is that of the running loop. While it runs, the locals of the task 1, which were those of the
  thread 0, are those of the task 2.
\<close>

lemma child_takes_over:
  fixes limit :: nat
  defines "L \<equiv> main_wrap_enter 1 0 \<lparr>task_launch = [], thread_launch = []\<rparr>"
  assumes "limit > 3"
  shows "get_context_id limit False L (Some 1) t = Inr (Thread 0)"
    and "get_context_id limit False (snd (thread_handler_enter 0 2 L)) (Some 1) t = Inr (Task 2)"
proof -
  obtain n where "limit = Suc (Suc (Suc n))" using assms(2) by (metis Suc_lessE numeral_3_eq_3)
  then show "get_context_id limit False L (Some 1) t = Inr (Thread 0)"
    "get_context_id limit False (snd (thread_handler_enter 0 2 L)) (Some 1) t = Inr (Task 2)"
    by (simp_all add: get_context_id_def main_wrap_enter_def thread_handler_enter_def L_def)
qed

lemma ddel_dset_new: "dget d k = None \<Longrightarrow> ddel k (dset k v d) = d"
  by (induction d) (auto simp: AList.delete_eq split: if_splits)

text \<open>When a call returns, the launch maps are again what they were.\<close>

lemma launch_maps_restored:
  assumes "dget (task_launch L) k = None"
  shows "main_wrap_leave k (main_wrap_enter k t L) = Inr L"
  using ddel_dset_new [OF assms] by (simp add: main_wrap_leave_def main_wrap_enter_def ddel_or_def)

lemma launch_maps_restored_thread:
  assumes "dget (thread_launch L) t = None" and "thread_handler_enter t k L = (b, L')"
  shows "thread_handler_leave b t L' = Inr L"
  using assms(2) ddel_dset_new [OF assms(1)]
  by (auto simp: thread_handler_enter_def thread_handler_leave_def ddel_or_def split: if_splits)

section \<open>Which executor\<close>

text \<open>
  The state that \<open>SyncToAsync.__call__\<close> looks at: the context variables \<open>thread_sensitive_context\<close> and
  \<open>deadlock_context\<close> (unset counts as false), the pools of the contexts and the executors of the event loops; and the
  pools that were shut down. Contexts, loops and executors are numbered.
\<close>

record exec_state =
  sensitive_context :: "nat option"
  deadlock_context :: bool
  context_to_executor :: "(nat, nat) dict"
  loop_executors :: "(nat, nat) dict"
  next_executor :: nat
  shut_down :: "nat list"

datatype chosen = Parent nat | Pool nat | LoopExecutor nat | SingleThread | Passed "nat option"

text \<open>\<open>current\<close> is \<open>AsyncToSync.executors.current\<close>, if it is there.\<close>

definition choose_executor ::
  "bool \<Rightarrow> nat option \<Rightarrow> nat option \<Rightarrow> nat \<Rightarrow> exec_state \<Rightarrow> chosen res \<times> exec_state" where
  "choose_executor thread_sensitive passed current loop s =
     (if thread_sensitive then
        (case current of
           Some e \<Rightarrow> (Inr (Parent e), s)
         | None \<Rightarrow>
             (case sensitive_context s of
                Some c \<Rightarrow>
                  (case dget (context_to_executor s) c of
                     Some e \<Rightarrow> (Inr (Pool e), s)
                   | None \<Rightarrow> (let e = next_executor s in
                       (Inr (Pool e), s\<lparr>next_executor := Suc e, context_to_executor := dset c e (context_to_executor s)\<rparr>)))
              | None \<Rightarrow>
                  (case dget (loop_executors s) loop of
                     Some e \<Rightarrow> (Inr (LoopExecutor e), s)
                   | None \<Rightarrow>
                       if deadlock_context s then (Inl RuntimeError, s)
                       else (Inr SingleThread, s\<lparr>deadlock_context := True\<rparr>))))
      else (Inr (Passed passed), s))"

text \<open>The end of the call.\<close>

definition call_done :: "exec_state \<Rightarrow> exec_state" where
  "call_done s = s\<lparr>deadlock_context := False\<rparr>"

text \<open>\<open>ThreadSensitiveContext\<close>: entering gives whether it holds a token.\<close>

definition aenter :: "nat \<Rightarrow> exec_state \<Rightarrow> bool \<times> exec_state" where
  "aenter me s = (if sensitive_context s = None then (True, s\<lparr>sensitive_context := Some me\<rparr>) else (False, s))"

definition aexit :: "nat \<Rightarrow> bool \<Rightarrow> exec_state \<Rightarrow> exec_state" where
  "aexit me token s =
     (if \<not> token then s
      else
        (let s1 = (case dget (context_to_executor s) me of
                     None \<Rightarrow> s
                   | Some e \<Rightarrow> s\<lparr>context_to_executor := ddel me (context_to_executor s), shut_down := shut_down s @ [e]\<rparr>)
         in s1\<lparr>sensitive_context := None\<rparr>))"

text \<open>What happens inside the outermost context: calls of sync code, and inner contexts with their own bodies.\<close>

datatype body_step = CallSync nat | Inner nat "body_step list"

fun run_body :: "body_step list \<Rightarrow> exec_state \<Rightarrow> chosen res list \<times> exec_state" where
  "run_body [] s = ([], s)"
| "run_body (CallSync loop # bs) s =
     (case choose_executor True None None loop s of (r, s1) \<Rightarrow>
        (case run_body bs (if is_ok r then call_done s1 else s1) of (rs, s2) \<Rightarrow> (r # rs, s2)))"
| "run_body (Inner d body # bs) s =
     (case aenter d s of (token, s1) \<Rightarrow>
        (case run_body body s1 of (rs, s2) \<Rightarrow>
           (case run_body bs (aexit d token s2) of (rs', s3) \<Rightarrow> (rs @ rs', s3))))"

text \<open>The pool of the context \<open>c\<close>, there or to be made.\<close>

lemma dset_same: "dget d k = Some v \<Longrightarrow> dset k v d = d"
  by (induction d) auto

definition pool_of :: "nat \<Rightarrow> exec_state \<Rightarrow> nat" where
  "pool_of c s = (case dget (context_to_executor s) c of None \<Rightarrow> next_executor s | Some e \<Rightarrow> e)"

text \<open>What a body does in the context \<open>c\<close>, with its choices \<open>rs\<close>.\<close>

definition body_ok :: "nat \<Rightarrow> exec_state \<Rightarrow> chosen res list \<Rightarrow> exec_state \<Rightarrow> bool" where
  "body_ok c s rs s' \<longleftrightarrow> sensitive_context s' = Some c \<and> shut_down s' = shut_down s
    \<and> (\<forall>r\<in>set rs. r = Inr (Pool (pool_of c s)))
    \<and> (rs = [] \<longrightarrow> context_to_executor s' = context_to_executor s \<and> next_executor s' = next_executor s)
    \<and> (rs \<noteq> [] \<longrightarrow> context_to_executor s' = dset c (pool_of c s) (context_to_executor s))"

lemma body_ok_Nil: "sensitive_context s = Some c \<Longrightarrow> body_ok c s [] s"
  by (simp add: body_ok_def)

lemma body_okE:
  assumes "body_ok c s rs s'"
  shows "sensitive_context s' = Some c" and "shut_down s' = shut_down s" and "\<forall>r\<in>set rs. r = Inr (Pool (pool_of c s))"
    and "rs = [] \<Longrightarrow> context_to_executor s' = context_to_executor s \<and> next_executor s' = next_executor s"
    and "rs \<noteq> [] \<Longrightarrow> context_to_executor s' = dset c (pool_of c s) (context_to_executor s)"
  using assms by (auto simp: body_ok_def)

lemma body_okI:
  assumes "sensitive_context s' = Some c" and "shut_down s' = shut_down s" and "\<forall>r\<in>set rs. r = Inr (Pool (pool_of c s))"
    and "rs = [] \<Longrightarrow> context_to_executor s' = context_to_executor s \<and> next_executor s' = next_executor s"
    and "rs \<noteq> [] \<Longrightarrow> context_to_executor s' = dset c (pool_of c s) (context_to_executor s)"
  shows "body_ok c s rs s'"
  using assms by (auto simp: body_ok_def)

lemma pool_of_next: "body_ok c s rs s' \<Longrightarrow> pool_of c s' = pool_of c s"
  using body_okE(4,5) [of c s rs s'] by (cases "rs = []") (simp_all add: pool_of_def split: option.split)

lemma body_ok_append:
  assumes "body_ok c s rs s1" and "body_ok c s1 rs' s2"
  shows "body_ok c s (rs @ rs') s2"
proof (rule body_okI)
  note p = pool_of_next [OF assms(1)]
  show "sensitive_context s2 = Some c" by (rule body_okE [OF assms(2)])
  show "shut_down s2 = shut_down s" using body_okE(2) [OF assms(1)] body_okE(2) [OF assms(2)] by simp
  show "\<forall>r\<in>set (rs @ rs'). r = Inr (Pool (pool_of c s))"
    using body_okE(3) [OF assms(1)] body_okE(3) [OF assms(2)] unfolding p by auto
  show "context_to_executor s2 = context_to_executor s \<and> next_executor s2 = next_executor s" if "rs @ rs' = []"
    using that body_okE(4) [OF assms(1)] body_okE(4) [OF assms(2)] by simp
  show "context_to_executor s2 = dset c (pool_of c s) (context_to_executor s)" if "rs @ rs' \<noteq> []"
  proof -
    have d: "dset c x (dset c x (context_to_executor s)) = dset c x (context_to_executor s)" for x by (rule dset_same) simp
    show ?thesis
      using that body_okE(4,5) [OF assms(1)] body_okE(4,5) [OF assms(2)] d unfolding p
      by (cases "rs = []"; cases "rs' = []") simp_all
  qed
qed

lemma body_ok_call:
  assumes "sensitive_context s = Some c" and "choose_executor True None None loop s = (r, s1)"
  shows "is_ok r" and "body_ok c s [r] (call_done s1)"
  using assms by (auto simp: choose_executor_def body_ok_def pool_of_def call_done_def Let_def dset_same split: option.splits)

lemma run_body_context: "sensitive_context s = Some c \<Longrightarrow> run_body bs s = (rs, s') \<Longrightarrow> body_ok c s rs s'"
proof (induction bs s arbitrary: rs s' rule: run_body.induct)
  case (1 s)
  then show ?case by (simp add: body_ok_Nil)
next
  case (2 loop bs s)
  obtain r s1 where r: "choose_executor True None None loop s = (r, s1)" by fastforce
  note c = body_ok_call [OF "2.prems"(1) r]
  obtain rs' s2 where r': "run_body bs (call_done s1) = (rs', s2)" by fastforce
  have "sensitive_context (call_done s1) = Some c" using c(2) by (simp add: body_ok_def)
  with "2.IH" [OF r [symmetric]] r' c(1) have "body_ok c (call_done s1) rs' s2" by simp
  with body_ok_append [OF c(2)] "2.prems"(2) r r' c(1) show ?case by auto
next
  case (3 d body bs s)
  have a: "aenter d s = (False, s)" using "3.prems"(1) by (simp add: aenter_def)
  obtain rs1 s1 where b: "run_body body s = (rs1, s1)" by fastforce
  obtain rs2 s2 where b': "run_body bs s1 = (rs2, s2)" by fastforce
  have ok: "body_ok c s rs1 s1" using "3.IH"(1) [OF a [symmetric]] "3.prems"(1) b by simp
  then have "sensitive_context s1 = Some c" by (simp add: body_ok_def)
  with "3.IH"(2) [OF a [symmetric] b [symmetric]] b' have "body_ok c s1 rs2 s2" by (simp add: aexit_def)
  from body_ok_append [OF ok this] "3.prems"(2) a b b' show ?case by (simp add: aexit_def)
qed

text \<open>
  One thread for a context. All synchronous calls inside the outermost \<open>ThreadSensitiveContext\<close>, those in inner
  contexts included, run in one and the same new single-thread pool; leaving shuts this pool down, if there was
  a call, and leaves everything else as it was before entering.
\<close>
theorem sensitive_context_one_thread:
  assumes "sensitive_context s = None" and "dget (context_to_executor s) me = None"
    and "aenter me s = (token, s1)" and "run_body bs s1 = (rs, s2)" and "s3 = aexit me token s2"
  shows "(\<forall>r\<in>set rs. r = Inr (Pool (next_executor s)))
    \<and> shut_down s3 = shut_down s @ (if rs = [] then [] else [next_executor s])
    \<and> sensitive_context s3 = None \<and> context_to_executor s3 = context_to_executor s"
proof -
  have s1: "token" "s1 = s\<lparr>sensitive_context := Some me\<rparr>" using assms(1,3) by (auto simp: aenter_def)
  then have ok: "body_ok me s1 rs s2" using run_body_context [of s1 me bs rs s2] assms(4) by simp
  let ?e = "next_executor s"
  have p: "pool_of me s1 = ?e" using assms(2) by (simp add: pool_of_def s1)
  have c2: "context_to_executor s2 = (if rs = [] then context_to_executor s else dset me ?e (context_to_executor s))"
    using body_okE(4,5) [OF ok] unfolding p by (simp add: s1(2))
  have d: "ddel me (dset me ?e (context_to_executor s)) = context_to_executor s" by (rule ddel_dset_new [OF assms(2)])
  have "shut_down s2 = shut_down s" using body_okE(2) [OF ok] by (simp add: s1(2))
  with body_okE(3) [OF ok] c2 d s1(1) assms(2) show ?thesis unfolding assms(5) p
    by (cases "rs = []") (simp_all add: aexit_def Let_def)
qed

lemma sensitive_context_one_thread_witness:
  "fst (run_body [CallSync 0, Inner 8 [CallSync 1], CallSync 0] (snd (aenter 7
     \<lparr>sensitive_context = None, deadlock_context = False, context_to_executor = [], loop_executors = [(1, 3)],
      next_executor = 4, shut_down = []\<rparr>))) = [Inr (Pool 4), Inr (Pool 4), Inr (Pool 4)]"
proof -
  let ?s = "\<lparr>sensitive_context = None, deadlock_context = False, context_to_executor = [], loop_executors = [(1, 3)],
      next_executor = 4, shut_down = []\<rparr>" and ?bs = "[CallSync 0, Inner 8 [CallSync 1], CallSync 0]"
  have "aenter 7 ?s = (True, ?s\<lparr>sensitive_context := Some 7\<rparr>)" by (simp add: aenter_def)
  from sensitive_context_one_thread [OF _ _ this prod.collapse [symmetric] refl, of ?bs]
  have "\<forall>r\<in>set (fst (run_body ?bs (?s\<lparr>sensitive_context := Some 7\<rparr>))). r = Inr (Pool 4)" by simp
  moreover have "length (fst (run_body ?bs (?s\<lparr>sensitive_context := Some 7\<rparr>))) = 3"
    by (simp add: aenter_def aexit_def choose_executor_def call_done_def Let_def)
  ultimately show ?thesis by (simp add: aenter_def aexit_def choose_executor_def call_done_def Let_def)
qed

end
