(* ===== verification/PyRegex.thy ===== *)
theory PyRegex
  imports PyText
begin

text \<open>
  Python's \<open>re\<close> as far as the packaging code uses it: the syntax of patterns as a datatype and
  the backtracking search of the engine, which tries the alternatives from left to right and repeats
  greedily, with the rest of the pattern as a continuation. A state holds the text before the position
  (reversed, for look-behinds), the text that is left and the named groups. Patterns are written down as they
  stand in the source; \<open>re.VERBOSE\<close> only lays them out, and \<open>re.IGNORECASE\<close> is the letter case of
  \<open>lit\<close> and \<open>cls\<close>.
\<close>

section \<open>Patterns and the search\<close>

datatype rx =
    Eps
  | Chr "char \<Rightarrow> bool"
  | Seq rx rx
  | Alt rx rx
  | Star rx
  | Group string rx
  | Behind "string list"
  | NotBehind "string list"
  | Eos

type_synonym caps = "(string, string) dict"
type_synonym rx_state = "string \<times> string \<times> caps"

definition left :: "rx_state \<Rightarrow> nat" where
  "left s = length (fst (snd s))"

text \<open>A repetition goes on only after a round that has eaten something, as in Python's engine.\<close>

function star_match :: "((rx_state \<Rightarrow> 'a option) \<Rightarrow> rx_state \<Rightarrow> 'a option) \<Rightarrow> (rx_state \<Rightarrow> 'a option)
    \<Rightarrow> rx_state \<Rightarrow> 'a option" where
  "star_match m k s = (case m (\<lambda>s'. if left s' < left s then star_match m k s' else None) s of
     Some x \<Rightarrow> Some x | None \<Rightarrow> k s)"
  by pat_completeness auto
termination
  by (relation "measure (\<lambda>(m, k, s). left s)") auto

declare star_match.simps [simp del]

text \<open>The text between two positions.\<close>

definition eaten :: "string \<Rightarrow> string \<Rightarrow> string" where
  "eaten xs ys = take (length xs - length ys) xs"

definition behind :: "string list \<Rightarrow> string \<Rightarrow> bool" where
  "behind ws b = list_ex (\<lambda>w. prefix (rev w) b) ws"

primrec rx_match :: "rx \<Rightarrow> (rx_state \<Rightarrow> 'a option) \<Rightarrow> rx_state \<Rightarrow> 'a option" where
  "rx_match Eps k s = k s"
| "rx_match (Chr P) k s = (case s of (b, xs, c) \<Rightarrow> (case xs of [] \<Rightarrow> None
     | x # xs' \<Rightarrow> if P x then k (x # b, xs', c) else None))"
| "rx_match (Seq r1 r2) k s = rx_match r1 (rx_match r2 k) s"
| "rx_match (Alt r1 r2) k s = (case rx_match r1 k s of Some x \<Rightarrow> Some x | None \<Rightarrow> rx_match r2 k s)"
| "rx_match (Star r) k s = star_match (rx_match r) k s"
| "rx_match (Group n r) k s = rx_match r (\<lambda>(b', ys, c'). k (b', ys, dset n (eaten (fst (snd s)) ys) c')) s"
| "rx_match (Behind ws) k s = (if behind ws (fst s) then k s else None)"
| "rx_match (NotBehind ws) k s = (if behind ws (fst s) then None else k s)"
| "rx_match Eos k s = (if fst (snd s) = [] \<or> fst (snd s) = [CHR 0x0A] then k s else None)"

text \<open>\<open>re.match\<close>, and \<open>re.search\<close> of a pattern that begins with \<open>^\<close>: the groups of the first match.\<close>

definition re_match :: "rx \<Rightarrow> string \<Rightarrow> caps option" where
  "re_match r s = rx_match r (\<lambda>(b, ys, c). Some c) ([], s, [])"

text \<open>What is left after a match at the beginning of a text.\<close>

definition re_at :: "rx \<Rightarrow> string \<Rightarrow> string option" where
  "re_at r s = rx_match r (\<lambda>(b, ys, c). Some ys) ([], s, [])"

text \<open>
  \<open>re.sub\<close> with a constant replacement, and \<open>re.split\<close> of a pattern that is one group: the texts
  between the matches and the matches in turn. Both are for patterns that match no empty text.
\<close>

function re_sub :: "rx \<Rightarrow> string \<Rightarrow> string \<Rightarrow> string" where
  "re_sub r w [] = []"
| "re_sub r w (x # xs) = (case re_at r (x # xs) of
     Some ys \<Rightarrow> if length ys < length (x # xs) then w @ re_sub r w ys else x # re_sub r w xs
   | None \<Rightarrow> x # re_sub r w xs)"
  by pat_completeness auto
termination
  by (relation "measure (\<lambda>(r, w, s). length s)") auto

function re_split_from :: "rx \<Rightarrow> string \<Rightarrow> string \<Rightarrow> string list" where
  "re_split_from r acc [] = [rev acc]"
| "re_split_from r acc (x # xs) = (case re_at r (x # xs) of
     Some ys \<Rightarrow> if length ys < length (x # xs)
       then rev acc # eaten (x # xs) ys # re_split_from r [] ys else re_split_from r (x # acc) xs
   | None \<Rightarrow> re_split_from r (x # acc) xs)"
  by pat_completeness auto
termination
  by (relation "measure (\<lambda>(r, acc, s). length s)") auto

definition re_split :: "rx \<Rightarrow> string \<Rightarrow> string list" where
  "re_split r s = re_split_from r [] s"

text \<open>Abbreviated pattern forms.\<close>

definition Opt :: "rx \<Rightarrow> rx" where "Opt r = Alt r Eps"

definition Plus :: "rx \<Rightarrow> rx" where "Plus r = Seq r (Star r)"

fun lit :: "string \<Rightarrow> rx" where
  "lit [] = Eps"
| "lit [c] = Chr (\<lambda>x. lower_char x = c)"
| "lit (c # w) = Seq (Chr (\<lambda>x. lower_char x = c)) (lit w)"

declare lit.simps [simp del]

definition cls :: "string \<Rightarrow> rx" where
  "cls w = Chr (\<lambda>x. x \<in> set w)"

definition Digit :: rx where "Digit = Chr is_digit"

definition Space :: rx where "Space = Chr strip_ws"

definition alnum :: "char \<Rightarrow> bool" where
  "alnum x \<longleftrightarrow> is_digit x \<or> lower_char x \<in> set ''abcdefghijklmnopqrstuvwxyz''"

definition Alnum :: rx where "Alnum = Chr alnum"

fun seqs :: "rx list \<Rightarrow> rx" where
  "seqs [] = Eps"
| "seqs [r] = r"
| "seqs (r # rs) = Seq r (seqs rs)"

fun alts :: "rx list \<Rightarrow> rx" where
  "alts [] = Eps"
| "alts [r] = r"
| "alts (r # rs) = Alt r (alts rs)"

section \<open>What a pattern can match\<close>

text \<open>The moves of a pattern without their order, and the texts of a pattern without look-around.\<close>

primrec rx_rel :: "rx \<Rightarrow> rx_state \<Rightarrow> rx_state \<Rightarrow> bool" where
  "rx_rel Eps s s' \<longleftrightarrow> s' = s"
| "rx_rel (Chr P) s s' \<longleftrightarrow> (\<exists>b x xs c. s = (b, x # xs, c) \<and> P x \<and> s' = (x # b, xs, c))"
| "rx_rel (Seq r1 r2) s s' \<longleftrightarrow> (\<exists>t. rx_rel r1 s t \<and> rx_rel r2 t s')"
| "rx_rel (Alt r1 r2) s s' \<longleftrightarrow> rx_rel r1 s s' \<or> rx_rel r2 s s'"
| "rx_rel (Star r) s s' \<longleftrightarrow> (\<lambda>t t'. rx_rel r t t' \<and> left t' < left t)\<^sup>*\<^sup>* s s'"
| "rx_rel (Group n r) s s' \<longleftrightarrow>
     (\<exists>b ys c. rx_rel r s (b, ys, c) \<and> s' = (b, ys, dset n (eaten (fst (snd s)) ys) c))"
| "rx_rel (Behind ws) s s' \<longleftrightarrow> behind ws (fst s) \<and> s' = s"
| "rx_rel (NotBehind ws) s s' \<longleftrightarrow> \<not> behind ws (fst s) \<and> s' = s"
| "rx_rel Eos s s' \<longleftrightarrow> (fst (snd s) = [] \<or> fst (snd s) = [CHR 0x0A]) \<and> s' = s"

lemma star_match_sound:
  assumes m: "\<And>k s x. m k s = Some x \<Longrightarrow> \<exists>s'. rx_rel r s s' \<and> k s' = Some x"
  shows "star_match m k s = Some x \<Longrightarrow> \<exists>s'. rx_rel (Star r) s s' \<and> k s' = Some x"
proof (induction "left s" arbitrary: s rule: less_induct)
  case less
  let ?k = "\<lambda>s'. if left s' < left s then star_match m k s' else None"
  show ?case
  proof (cases "m ?k s")
    case None
    with less.prems have "k s = Some x" by (subst (asm) star_match.simps) simp
    then show ?thesis unfolding rx_rel.simps by blast
  next
    case (Some y)
    with less.prems have "m ?k s = Some x" by (subst (asm) star_match.simps) simp
    from m [OF this] obtain t where t: "rx_rel r s t" "left t < left s" "star_match m k t = Some x"
      by (auto split: if_splits)
    from less.hyps [OF t(2,3)] t(1,2) show ?thesis unfolding rx_rel.simps
      by (blast intro: converse_rtranclp_into_rtranclp)
  qed
qed

lemma rx_match_sound: "rx_match r k s = Some x \<Longrightarrow> \<exists>s'. rx_rel r s s' \<and> k s' = Some x"
proof (induction r arbitrary: k s x)
  case (Seq r1 r2)
  from Seq.IH(1) [of "rx_match r2 k" s x] Seq.prems obtain t where "rx_rel r1 s t" "rx_match r2 k t = Some x" by auto
  with Seq.IH(2) [of k t x] show ?case unfolding rx_rel.simps by blast
next
  case (Star r)
  then show ?case using star_match_sound [of "rx_match r" r k s x] by (simp only: rx_match.simps)
next
  case (Group n r)
  from Group.IH [of "\<lambda>(b', ys, c'). k (b', ys, dset n (eaten (fst (snd s)) ys) c')" s x] Group.prems
  show ?case by (auto simp del: rx_rel.simps simp: rx_rel.simps(6))
next
  case (Alt r1 r2)
  then show ?case unfolding rx_match.simps rx_rel.simps by (metis option.case_eq_if option.collapse)
qed (auto split: prod.splits list.splits if_splits option.splits)

lemma star_match_complete:
  assumes m: "\<And>k s s'. rx_rel r s s' \<Longrightarrow> k s' \<noteq> None \<Longrightarrow> m k s \<noteq> None"
  shows "rx_rel (Star r) s s' \<Longrightarrow> k s' \<noteq> None \<Longrightarrow> star_match m k s \<noteq> None"
  unfolding rx_rel.simps
proof (induction rule: converse_rtranclp_induct)
  case base
  then show ?case by (subst star_match.simps) (auto split: option.split)
next
  case (step s t)
  then have "star_match m k t \<noteq> None" by blast
  with m [of s t "\<lambda>s'. if left s' < left s then star_match m k s' else None"] step.hyps(1)
  have "m (\<lambda>s'. if left s' < left s then star_match m k s' else None) s \<noteq> None" by auto
  then show ?case by (subst star_match.simps) auto
qed

lemma rx_match_complete: "rx_rel r s s' \<Longrightarrow> k s' \<noteq> None \<Longrightarrow> rx_match r k s \<noteq> None"
proof (induction r arbitrary: k s s')
  case (Seq r1 r2)
  then obtain t where "rx_rel r1 s t" "rx_rel r2 t s'" by auto
  with Seq.IH(1) [of s t "rx_match r2 k"] Seq.IH(2) [of t s' k] Seq.prems(2) show ?case by simp
next
  case (Star r)
  show ?case unfolding rx_match.simps
    by (rule star_match_complete [where r = r, OF Star.IH]) (use Star.prems in simp_all)
next
  case (Group n r)
  then obtain b ys c where g: "rx_rel r s (b, ys, c)" "s' = (b, ys, dset n (eaten (fst (snd s)) ys) c)" by auto
  from Group.IH [OF g(1), of "\<lambda>(b', ys, c'). k (b', ys, dset n (eaten (fst (snd s)) ys) c')"] g(2) Group.prems(2)
  show ?case by simp
next
  case (Alt r1 r2)
  from Alt.prems show ?case
  proof (cases "rx_rel r1 s s'")
    case True
    from Alt.IH(1) [where k = k, OF True Alt.prems(2)] show ?thesis by auto
  next
    case False
    with Alt.prems(1) have "rx_rel r2 s s'" by simp
    from Alt.IH(2) [where k = k, OF this Alt.prems(2)] show ?thesis by (auto split: option.split)
  qed
qed auto

section \<open>Patterns without look-around\<close>

primrec plain :: "rx \<Rightarrow> bool" where
  "plain Eps \<longleftrightarrow> True"
| "plain (Chr P) \<longleftrightarrow> True"
| "plain (Seq r1 r2) \<longleftrightarrow> plain r1 \<and> plain r2"
| "plain (Alt r1 r2) \<longleftrightarrow> plain r1 \<and> plain r2"
| "plain (Star r) \<longleftrightarrow> plain r"
| "plain (Group n r) \<longleftrightarrow> plain r"
| "plain (Behind ws) \<longleftrightarrow> False"
| "plain (NotBehind ws) \<longleftrightarrow> False"
| "plain Eos \<longleftrightarrow> False"

primrec lang :: "rx \<Rightarrow> string set" where
  "lang Eps = {[]}"
| "lang (Chr P) = {[x] |x. P x}"
| "lang (Seq r1 r2) = {u @ v |u v. u \<in> lang r1 \<and> v \<in> lang r2}"
| "lang (Alt r1 r2) = lang r1 \<union> lang r2"
| "lang (Star r) = {concat us |us. set us \<subseteq> lang r}"
| "lang (Group n r) = lang r"
| "lang (Behind ws) = {}"
| "lang (NotBehind ws) = {}"
| "lang Eos = {}"

text \<open>The named groups with their patterns.\<close>

primrec groups :: "rx \<Rightarrow> (string \<times> rx) list" where
  "groups Eps = []"
| "groups (Chr P) = []"
| "groups (Seq r1 r2) = groups r1 @ groups r2"
| "groups (Alt r1 r2) = groups r1 @ groups r2"
| "groups (Star r) = groups r"
| "groups (Group n r) = (n, r) # groups r"
| "groups (Behind ws) = []"
| "groups (NotBehind ws) = []"
| "groups Eos = []"

lemma lang_rel:
  "plain r \<Longrightarrow> rx_rel r (b, xs, c) (b', ys, c') \<Longrightarrow> \<exists>u\<in>lang r. xs = u @ ys \<and> b' = rev u @ b"
proof (induction r arbitrary: b xs c b' ys c')
  case (Seq r1 r2)
  then obtain b1 zs c1 where 1: "rx_rel r1 (b, xs, c) (b1, zs, c1)" "rx_rel r2 (b1, zs, c1) (b', ys, c')" by auto
  from Seq.IH(1) [OF _ 1(1)] Seq.prems obtain u where u: "u \<in> lang r1" "xs = u @ zs" "b1 = rev u @ b" by auto
  from Seq.IH(2) [OF _ 1(2)] Seq.prems obtain v where "v \<in> lang r2" "zs = v @ ys" "b' = rev v @ b1" by auto
  with u have "u @ v \<in> lang (Seq r1 r2) \<and> xs = (u @ v) @ ys \<and> b' = rev (u @ v) @ b" by auto
  then show ?case by blast
next
  case (Star r)
  have "(\<lambda>t t'. rx_rel r t t' \<and> left t' < left t)\<^sup>*\<^sup>* s s' \<Longrightarrow>
      \<exists>us. set us \<subseteq> lang r \<and> fst (snd s) = concat us @ fst (snd s') \<and> fst s' = rev (concat us) @ fst s" for s s'
  proof (induction rule: converse_rtranclp_induct)
    case base
    show ?case by (rule exI [of _ "[]"]) simp
  next
    case (step s t)
    obtain b1 x1 c1 b2 x2 c2 where s: "s = (b1, x1, c1)" "t = (b2, x2, c2)" by (cases s; cases t)
    from Star.IH [of b1 x1 c1 b2 x2 c2] Star.prems(1) step.hyps(1) obtain u
      where "u \<in> lang r" "x1 = u @ x2" "b2 = rev u @ b1" unfolding s by auto
    moreover from step.IH obtain us where "set us \<subseteq> lang r" "x2 = concat us @ fst (snd s')"
      "fst s' = rev (concat us) @ b2" unfolding s by auto
    ultimately show ?case unfolding s by (intro exI [of _ "u # us"]) simp
  qed
  from this [of "(b, xs, c)" "(b', ys, c')"] Star.prems(2) show ?case by auto
next
  case (Alt r1 r2)
  then show ?case unfolding rx_rel.simps lang.simps plain.simps by blast
next
  case (Group n r)
  then show ?case by auto
qed auto

lemma rel_lang:
  "plain r \<Longrightarrow> u \<in> lang r \<Longrightarrow> \<exists>c'. rx_rel r (b, u @ ys, c) (rev u @ b, ys, c')"
proof (induction r arbitrary: u b ys c)
  case (Seq r1 r2)
  then obtain u1 u2 where u: "u = u1 @ u2" "u1 \<in> lang r1" "u2 \<in> lang r2" by auto
  from Seq.IH(1) [OF _ u(2), of b "u2 @ ys" c] Seq.prems obtain c1
    where "rx_rel r1 (b, u1 @ u2 @ ys, c) (rev u1 @ b, u2 @ ys, c1)" by auto
  moreover from Seq.IH(2) [OF _ u(3), of "rev u1 @ b" ys c1] Seq.prems obtain c2
    where "rx_rel r2 (rev u1 @ b, u2 @ ys, c1) (rev u2 @ rev u1 @ b, ys, c2)" by auto
  ultimately show ?case unfolding u rx_rel.simps by auto
next
  case (Star r)
  then obtain us where us: "u = concat us" "set us \<subseteq> lang r" by auto
  let ?R = "\<lambda>t t'. rx_rel r t t' \<and> left t' < left t"
  have "\<exists>c'. ?R\<^sup>*\<^sup>* (b, concat us @ ys, c) (rev (concat us) @ b, ys, c')" for b c
    using us(2)
  proof (induction us arbitrary: b c)
    case Nil
    then show ?case by auto
  next
    case (Cons v vs)
    show ?case
    proof (cases "v = []")
      case True
      with Cons show ?thesis by simp
    next
      case False
      from Star.IH [of v b "concat vs @ ys" c] Cons.prems Star.prems(1) obtain c1
        where 1: "rx_rel r (b, v @ concat vs @ ys, c) (rev v @ b, concat vs @ ys, c1)" by auto
      from Cons.IH [of "rev v @ b" c1] Cons.prems obtain c2
        where 2: "?R\<^sup>*\<^sup>* (rev v @ b, concat vs @ ys, c1) (rev (concat vs) @ rev v @ b, ys, c2)" by auto
      have "?R (b, v @ concat vs @ ys, c) (rev v @ b, concat vs @ ys, c1)"
        using 1 False by (simp add: left_def)
      from converse_rtranclp_into_rtranclp [of ?R, OF this 2] show ?thesis by auto
    qed
  qed
  then show ?case unfolding us by simp
next
  case (Alt r1 r2)
  then show ?case by (auto; blast)
next
  case (Group n r)
  from Group.IH [of u b ys c] Group.prems obtain c' where "rx_rel r (b, u @ ys, c) (rev u @ b, ys, c')" by auto
  then show ?case by auto
qed auto

text \<open>A named group holds a text of its pattern.\<close>

definition plain_groups :: "rx \<Rightarrow> bool" where
  "plain_groups r \<longleftrightarrow> list_all (\<lambda>(n, p). plain p) (groups r)"

lemma plain_groups_simps [simp]:
  "plain_groups Eps" "plain_groups (Chr P)" "plain_groups (Star r) \<longleftrightarrow> plain_groups r"
  "plain_groups (Seq r1 r2) \<longleftrightarrow> plain_groups r1 \<and> plain_groups r2"
  "plain_groups (Alt r1 r2) \<longleftrightarrow> plain_groups r1 \<and> plain_groups r2"
  "plain_groups (Group n r) \<longleftrightarrow> plain r \<and> plain_groups r"
  "plain_groups (Behind ws)" "plain_groups (NotBehind ws)" "plain_groups Eos"
  by (auto simp: plain_groups_def)

lemma plain_plain_groups: "plain r \<Longrightarrow> plain_groups r"
  by (induction r) simp_all

lemma rel_groups:
  "plain_groups r \<Longrightarrow> rx_rel r (b, xs, c) (b', ys, c') \<Longrightarrow> dget c' n = dget c n
     \<or> (\<exists>p u. (n, p) \<in> set (groups r) \<and> u \<in> lang p \<and> dget c' n = Some u)"
proof (induction r arbitrary: b xs c b' ys c')
  case (Seq r1 r2)
  then obtain b1 zs c1 where "rx_rel r1 (b, xs, c) (b1, zs, c1)" "rx_rel r2 (b1, zs, c1) (b', ys, c')" by auto
  with Seq.IH(1) [of b xs c b1 zs c1] Seq.IH(2) [of b1 zs c1 b' ys c'] Seq.prems(1) show ?case by auto
next
  case (Star r)
  have "(\<lambda>t t'. rx_rel r t t' \<and> left t' < left t)\<^sup>*\<^sup>* s s' \<Longrightarrow> dget (snd (snd s')) n = dget (snd (snd s)) n
      \<or> (\<exists>p u. (n, p) \<in> set (groups r) \<and> u \<in> lang p \<and> dget (snd (snd s')) n = Some u)" for s s'
  proof (induction rule: converse_rtranclp_induct)
    case (step s t)
    obtain b1 x1 c1 b2 x2 c2 where s: "s = (b1, x1, c1)" "t = (b2, x2, c2)" by (cases s; cases t)
    from Star.IH [of b1 x1 c1 b2 x2 c2] Star.prems(1) step show ?case unfolding s by auto
  qed simp
  from this [of "(b, xs, c)" "(b', ys, c')"] Star.prems(2) show ?case by auto
next
  case (Alt r1 r2)
  from Alt.prems(2) consider "rx_rel r1 (b, xs, c) (b', ys, c')" | "rx_rel r2 (b, xs, c) (b', ys, c')" by auto
  then show ?case
    by cases (use Alt.IH(1) [of b xs c b' ys c'] Alt.IH(2) [of b xs c b' ys c'] Alt.prems(1) in auto)
next
  case (Group m r)
  from Group.prems(2) obtain c1 where 1: "rx_rel r (b, xs, c) (b', ys, c1)" "c' = dset m (eaten xs ys) c1" by auto
  from lang_rel [OF _ 1(1)] Group.prems(1) have "eaten xs ys \<in> lang r" by (auto simp: eaten_def)
  with Group.IH [OF _ 1(1)] Group.prems(1) 1(2) show ?case by (cases "n = m") auto
qed auto

text \<open>
  A pattern between the ends of a text: \<open>re_match\<close> finds a match exactly for the texts of the pattern, and
  its groups are texts of the group patterns.
\<close>

theorem re_match_lang:
  assumes "plain r"
  shows "re_match (Seq r Eos) s \<noteq> None \<longleftrightarrow> s \<in> lang r \<or> (\<exists>u\<in>lang r. s = u @ [CHR 0x0A])"
proof
  assume "re_match (Seq r Eos) s \<noteq> None"
  then obtain x where "rx_match (Seq r Eos) (\<lambda>(b, ys, c). Some c) ([], s, []) = Some x" by (auto simp: re_match_def)
  from rx_match_sound [OF this] obtain b ys c where "rx_rel r ([], s, []) (b, ys, c)" and e: "ys = [] \<or> ys = [CHR 0x0A]"
    by auto
  from lang_rel [OF assms this(1)] e show "s \<in> lang r \<or> (\<exists>u\<in>lang r. s = u @ [CHR 0x0A])" by auto
next
  assume "s \<in> lang r \<or> (\<exists>u\<in>lang r. s = u @ [CHR 0x0A])"
  then obtain u ys where u: "u \<in> lang r" "s = u @ ys" "ys = [] \<or> ys = [CHR 0x0A]" by force
  from rel_lang [OF assms u(1), of "[]" ys "[]"] obtain c where "rx_rel r ([], s, []) (rev u, ys, c)"
    unfolding u(2) by auto
  with u(3) have "rx_rel (Seq r Eos) ([], s, []) (rev u, ys, c)" by auto
  then show "re_match (Seq r Eos) s \<noteq> None" unfolding re_match_def by (rule rx_match_complete) simp
qed

lemma re_match_groups:
  assumes "plain_groups r" and "re_match r s = Some c" and "dget c n = Some u"
  shows "\<exists>p. (n, p) \<in> set (groups r) \<and> u \<in> lang p"
proof -
  from rx_match_sound [OF assms(2) [unfolded re_match_def]] obtain b ys where "rx_rel r ([], s, []) (b, ys, c)" by auto
  from rel_groups [OF assms(1) this, of n] assms(3) show ?thesis by auto
qed

section \<open>Following the search\<close>

text \<open>
  Rules that follow the search through a text whose parts are known: what an optional part, a repetition of a
  class and a list of separated parts do when the greedy choice is the right one.
\<close>

definition stops :: "(char \<Rightarrow> bool) \<Rightarrow> string \<Rightarrow> bool" where
  "stops P ys \<longleftrightarrow> ys = [] \<or> \<not> P (hd ys)"

lemma stops_simps [simp]: "stops P []" "stops P (x # xs) \<longleftrightarrow> \<not> P x"
  by (simp_all add: stops_def)

lemma left_simps [simp]: "left (b, xs, c) = length xs"
  by (simp add: left_def)

lemma eaten_append [simp]: "eaten (u @ ys) ys = u"
  by (simp add: eaten_def)

lemma eaten_self [simp]: "eaten ys ys = []"
  by (simp add: eaten_def)

lemma eaten_Cons [simp]: "length ys \<le> length xs \<Longrightarrow> eaten (x # xs) ys = x # eaten xs ys"
  by (simp add: eaten_def Suc_diff_le)

lemma eaten_append2 [simp]: "eaten (u @ v @ ys) ys = u @ v"
  using eaten_append [of "u @ v" ys] by simp

lemma opt_take: "rx_match r k s = Some x \<Longrightarrow> rx_match (Opt r) k s = Some x"
  by (simp add: Opt_def)

lemma opt_skip: "rx_match r k s = None \<Longrightarrow> rx_match (Opt r) k s = k s"
  by (simp add: Opt_def)

lemma rx_match_Seq: "rx_match (Seq r1 r2) k = rx_match r1 (rx_match r2 k)"
  by (rule ext) simp

lemma star_unfold: "rx_match (Star r) k s =
    (case rx_match r (\<lambda>s'. if left s' < left s then rx_match (Star r) k s' else None) s of
       Some x \<Rightarrow> Some x | None \<Rightarrow> k s)"
  unfolding rx_match.simps(5) by (rule star_match.simps)

declare rx_match.simps(5) [simp del]

lemma star_chr_stop: "stops P xs \<Longrightarrow> rx_match (Star (Chr P)) k (b, xs, c) = k (b, xs, c)"
  by (cases xs) (simp_all add: star_unfold)

lemma star_chr_take:
  assumes "list_all P us" and "stops P ys" and "k (rev us @ b, ys, c) = Some x"
  shows "rx_match (Star (Chr P)) k (b, us @ ys, c) = Some x"
  using assms
proof (induction us arbitrary: b)
  case Nil
  then show ?case by (simp only: append_Nil star_chr_stop) simp
next
  case (Cons u us)
  from Cons.IH [of "u # b"] Cons.prems have "rx_match (Star (Chr P)) k (u # b, us @ ys, c) = Some x" by simp
  with Cons.prems(1) show ?case by (subst star_unfold) simp
qed

lemma plus_chr_stop: "stops P xs \<Longrightarrow> rx_match (Plus (Chr P)) k (b, xs, c) = None"
  by (cases xs) (simp_all add: Plus_def)

lemma plus_chr_take:
  assumes "list_all P us" and "us \<noteq> []" and "stops P ys" and "k (rev us @ b, ys, c) = Some x"
  shows "rx_match (Plus (Chr P)) k (b, us @ ys, c) = Some x"
  using star_chr_take [of P "tl us" ys k "hd us # b" c x] assms by (cases us) (simp_all add: Plus_def)

text \<open>Parts of one class, each after a separator.\<close>

definition sep_parts :: "char \<Rightarrow> string list \<Rightarrow> string" where
  "sep_parts d ps = concat (map (\<lambda>p. d # p) ps)"

lemma sep_parts_simps [simp]:
  "sep_parts d [] = []" "sep_parts d (p # ps) = d # p @ sep_parts d ps"
  by (simp_all add: sep_parts_def)

lemma join_sep_parts: "join_with [d] (p # ps) = p @ sep_parts d ps"
  by (induction ps arbitrary: p) auto

lemma star_parts_take:
  assumes "\<forall>p\<in>set ps. p \<noteq> [] \<and> list_all P p" and "Q d" and "\<not> P d"
    and "stops P ys" and "stops Q ys \<or> stops P (tl ys)"
    and "k (rev (sep_parts d ps) @ b, ys, c) = Some x"
  shows "rx_match (Star (Seq (Chr Q) (Plus (Chr P)))) k (b, sep_parts d ps @ ys, c) = Some x"
  using assms(1,6)
proof (induction ps arbitrary: b)
  case Nil
  have "rx_match (Seq (Chr Q) (Plus (Chr P))) k' (b, ys, c) = None" for k' :: "rx_state \<Rightarrow> 'a option"
    using assms(5) by (cases ys) (auto simp: plus_chr_stop)
  then show ?case using Nil.prems(2) by (subst star_unfold) simp
next
  case (Cons p ps)
  let ?ys = "sep_parts d ps @ ys"
  let ?k = "\<lambda>s'. if left s' < length (d # p @ ?ys) then rx_match (Star (Seq (Chr Q) (Plus (Chr P)))) k s' else None"
  have "stops P ?ys" using assms(3,4) by (cases ps) auto
  moreover from Cons.IH [of "rev p @ d # b"] Cons.prems
  have "rx_match (Star (Seq (Chr Q) (Plus (Chr P)))) k (rev p @ d # b, ?ys, c) = Some x" by simp
  ultimately have "rx_match (Plus (Chr P)) ?k (d # b, p @ ?ys, c) = Some x"
    using Cons.prems(1) by (intro plus_chr_take) auto
  with assms(2) show ?case
    by (subst star_unfold) simp
qed

text \<open>A pattern fails where none of its texts begins.\<close>

lemma match_fails:
  assumes "plain r" and "\<And>u. u \<in> lang r \<Longrightarrow> \<not> prefix u xs"
  shows "rx_match r k (b, xs, c) = None"
proof (rule ccontr)
  assume "rx_match r k (b, xs, c) \<noteq> None"
  then obtain y where "rx_match r k (b, xs, c) = Some y" by auto
  from rx_match_sound [OF this] obtain b' ys c' where "rx_rel r (b, xs, c) (b', ys, c')" by auto
  from lang_rel [OF assms(1) this] assms(2) show False by (auto simp: prefix_def)
qed

lemma plain_forms [simp]:
  "plain (Opt r) \<longleftrightarrow> plain r" "plain (Plus r) \<longleftrightarrow> plain r" "plain (cls w)" "plain Digit" "plain Space" "plain Alnum"
  by (simp_all add: Opt_def Plus_def cls_def Digit_def Space_def Alnum_def)

lemma plain_lit [simp]: "plain (lit w)"
  by (induction w rule: lit.induct) (simp_all add: lit.simps)

lemma groups_forms [simp]:
  "groups (Opt r) = groups r" "groups (Plus r) = groups r @ groups r" "groups (cls w) = []" "groups Digit = []"
  "groups Space = []" "groups Alnum = []"
  by (simp_all add: Opt_def Plus_def cls_def Digit_def Space_def Alnum_def)

lemma groups_lit [simp]: "groups (lit w) = []"
  by (induction w rule: lit.induct) (simp_all add: lit.simps)

lemma lang_Seq_Chr: "u \<in> lang (Seq (Chr P) r) \<longleftrightarrow> (\<exists>x v. u = x # v \<and> P x \<and> v \<in> lang r)"
proof
  assume "u \<in> lang (Seq (Chr P) r)"
  then obtain w v where "u = w @ v" "w \<in> lang (Chr P)" "v \<in> lang r" by auto
  then show "\<exists>x v. u = x # v \<and> P x \<and> v \<in> lang r" by auto
next
  assume "\<exists>x v. u = x # v \<and> P x \<and> v \<in> lang r"
  then obtain x v where "u = [x] @ v" "[x] \<in> lang (Chr P)" "v \<in> lang r" by auto
  then show "u \<in> lang (Seq (Chr P) r)" unfolding lang.simps(3) by blast
qed

lemma lang_lit: "u \<in> lang (lit w) \<longleftrightarrow> map lower_char u = w"
proof (induction w arbitrary: u rule: lit.induct)
  case (3 c d w)
  have "u \<in> lang (lit (c # d # w)) \<longleftrightarrow> (\<exists>x v. u = x # v \<and> lower_char x = c \<and> v \<in> lang (lit (d # w)))"
    unfolding lit.simps lang_Seq_Chr ..
  with 3 show ?case by (auto simp: map_eq_Cons_conv)
qed (auto simp: lit.simps map_eq_Cons_conv)

lemma lang_star_chr: "u \<in> lang (Star (Chr P)) \<longleftrightarrow> list_all P u"
proof
  assume "u \<in> lang (Star (Chr P))"
  then obtain us where "u = concat us" "set us \<subseteq> {[x] |x. P x}" by auto
  then show "list_all P u" by (induction us arbitrary: u) auto
next
  assume "list_all P u"
  then have "set (map (\<lambda>x. [x]) u) \<subseteq> lang (Chr P)" by (auto simp: list_all_iff)
  moreover have "concat (map (\<lambda>x. [x]) u) = u" by (induction u) auto
  ultimately show "u \<in> lang (Star (Chr P))" unfolding lang.simps(5) mem_Collect_eq by metis
qed

lemma lang_Plus_chr: "u \<in> lang (Plus (Chr P)) \<longleftrightarrow> u \<noteq> [] \<and> list_all P u"
proof -
  have "u \<in> lang (Plus (Chr P)) \<longleftrightarrow> (\<exists>x v. u = x # v \<and> P x \<and> list_all P v)"
    unfolding Plus_def lang_Seq_Chr lang_star_chr ..
  then show ?thesis by (cases u) auto
qed

lemma lang_Opt: "u \<in> lang (Opt r) \<longleftrightarrow> u = [] \<or> u \<in> lang r"
  by (auto simp: Opt_def)

lemma lang_Plus_Digit: "u \<in> lang (Plus Digit) \<longleftrightarrow> isdigit u"
  by (auto simp: Digit_def lang_Plus_chr isdigit_def all_digits_def)

lemma lang_Plus_Alnum: "u \<in> lang (Plus Alnum) \<longleftrightarrow> u \<noteq> [] \<and> list_all alnum u"
  by (simp add: Alnum_def lang_Plus_chr)

text \<open>Groups that take part in every match.\<close>

primrec sure :: "rx \<Rightarrow> string list" where
  "sure Eps = []"
| "sure (Chr P) = []"
| "sure (Seq r1 r2) = sure r1 @ sure r2"
| "sure (Alt r1 r2) = []"
| "sure (Star r) = []"
| "sure (Group n r) = n # sure r"
| "sure (Behind ws) = []"
| "sure (NotBehind ws) = []"
| "sure Eos = []"

lemma rel_keeps: "rx_rel r s s' \<Longrightarrow> dom (dget (snd (snd s))) \<subseteq> dom (dget (snd (snd s')))"
proof (induction r arbitrary: s s')
  case (Seq r1 r2)
  then obtain t where "rx_rel r1 s t" "rx_rel r2 t s'" unfolding rx_rel.simps by blast
  from Seq.IH(1) [OF this(1)] Seq.IH(2) [OF this(2)] show ?case by (rule subset_trans)
next
  case (Star r)
  from Star.prems show ?case unfolding rx_rel.simps
  proof (induction rule: converse_rtranclp_induct)
    case (step s t)
    then show ?case using Star.IH [of s t] by blast
  qed simp
next
  case (Group n r)
  then obtain b ys c where "rx_rel r s (b, ys, c)" "s' = (b, ys, dset n (eaten (fst (snd s)) ys) c)" by auto
  with Group.IH [of s "(b, ys, c)"] show ?case by (auto simp: update_conv')
next
  case (Alt r1 r2)
  then show ?case unfolding rx_rel.simps by blast
qed auto

lemma rel_sure: "rx_rel r s s' \<Longrightarrow> n \<in> set (sure r) \<Longrightarrow> n \<in> dom (dget (snd (snd s')))"
proof (induction r arbitrary: s s')
  case (Seq r1 r2)
  then obtain t where t: "rx_rel r1 s t" "rx_rel r2 t s'" unfolding rx_rel.simps by blast
  from Seq.prems(2) Seq.IH(1) [OF t(1)] Seq.IH(2) [OF t(2)] rel_keeps [OF t(2)] show ?case by auto
next
  case (Group m r)
  then obtain b ys c where "rx_rel r s (b, ys, c)" "s' = (b, ys, dset m (eaten (fst (snd s)) ys) c)" by auto
  with Group.IH [of s "(b, ys, c)"] Group.prems(2) show ?case by (cases "n = m") (auto simp: update_conv')
qed auto

lemma re_match_sure:
  assumes "re_match r s = Some c" and "n \<in> set (sure r)"
  shows "\<exists>u. dget c n = Some u"
proof -
  from rx_match_sound [OF assms(1) [unfolded re_match_def]] obtain s' where
    "rx_rel r ([], s, []) s'" "snd (snd s') = c" by auto
  from rel_sure [OF this(1) assms(2)] this(2) show ?thesis by auto
qed

text \<open>A group that takes part only together with another one.\<close>

primrec needs :: "string \<Rightarrow> string \<Rightarrow> rx \<Rightarrow> bool" where
  "needs n m Eps \<longleftrightarrow> True"
| "needs n m (Chr P) \<longleftrightarrow> True"
| "needs n m (Seq r1 r2) \<longleftrightarrow> m \<in> set (sure r1) \<or> m \<in> set (sure r2) \<or> needs n m r1 \<and> needs n m r2"
| "needs n m (Alt r1 r2) \<longleftrightarrow> needs n m r1 \<and> needs n m r2"
| "needs n m (Star r) \<longleftrightarrow> needs n m r"
| "needs n m (Group p r) \<longleftrightarrow> p = m \<or> m \<in> set (sure r) \<or> p \<noteq> n \<and> needs n m r"
| "needs n m (Behind ws) \<longleftrightarrow> True"
| "needs n m (NotBehind ws) \<longleftrightarrow> True"
| "needs n m Eos \<longleftrightarrow> True"

lemma rel_needs:
  "rx_rel r s s' \<Longrightarrow> needs n m r \<Longrightarrow> (n \<in> dom (dget (snd (snd s))) \<longrightarrow> m \<in> dom (dget (snd (snd s))))
     \<Longrightarrow> n \<in> dom (dget (snd (snd s'))) \<longrightarrow> m \<in> dom (dget (snd (snd s')))"
proof (induction r arbitrary: s s')
  case (Seq r1 r2)
  then obtain t where t: "rx_rel r1 s t" "rx_rel r2 t s'" unfolding rx_rel.simps by blast
  show ?case
  proof (cases "m \<in> set (sure r1) \<or> m \<in> set (sure r2)")
    case True
    with rel_sure [OF t(1), of m] rel_sure [OF t(2), of m] rel_keeps [OF t(2)] show ?thesis by blast
  next
    case False
    with Seq.prems(2) have "needs n m r1" "needs n m r2" by simp_all
    with Seq.IH(1) [OF t(1)] Seq.IH(2) [OF t(2)] Seq.prems(3) show ?thesis by blast
  qed
next
  case (Star r)
  from Star.prems(1,3) show ?case unfolding rx_rel.simps
  proof (induction rule: converse_rtranclp_induct)
    case (step s t)
    then show ?case using Star.IH [of s t] Star.prems(2) by simp
  qed simp
next
  case (Group p r)
  then obtain b ys c where 1: "rx_rel r s (b, ys, c)" "s' = (b, ys, dset p (eaten (fst (snd s)) ys) c)" by auto
  from Group.prems(2) rel_sure [OF 1(1), of m] Group.IH [OF 1(1)] Group.prems(3) 1(2)
  show ?case by (auto simp: dom_def)
next
  case (Alt r1 r2)
  then show ?case unfolding rx_rel.simps needs.simps by blast
qed auto

lemma re_match_needs:
  assumes "re_match r s = Some c" and "needs n m r" and "dget c n = Some u"
  shows "\<exists>v. dget c m = Some v"
proof -
  from rx_match_sound [OF assms(1) [unfolded re_match_def]] obtain s' where
    "rx_rel r ([], s, []) s'" "snd (snd s') = c" by auto
  from rel_needs [OF this(1) assms(2)] this(2) assms(3) show ?thesis by auto
qed

end
