(* ===== verification/PyParsing.thy ===== *)
theory PyParsing
  imports PyRegex
begin

text \<open>
  The parsing expressions of \<open>pkg_resources/_vendor/pyparsing.py\<close> that the grammars of markers and requirements are
  built from. An element is a function from the text that is left to its tokens and the text left after them, or
  \<open>None\<close> where it raises \<open>ParseException\<close>. \<open>_parseNoCache\<close> with no debugging and no ignored expressions is
  \<open>preParse\<close>, \<open>parseImpl\<close>, \<open>postParse\<close>, parse actions: an element that skips white space is \<open>skipping\<close> of its
  \<open>parseImpl\<close>, an action is \<open>with_action\<close>. Positions, which only the texts of the exceptions use, and Python's limit
  of the recursion depth are left out.
\<close>

section \<open>Elements\<close>

type_synonym 'a parser = "string \<Rightarrow> ('a list \<times> string) option"

definition is_white :: "char \<Rightarrow> bool" where
  "is_white c \<longleftrightarrow> c \<in> set [CHR '' '', CHR 0x0A, CHR 0x09, CHR 0x0D]"

definition pre_parse :: "string \<Rightarrow> string" where
  "pre_parse s = dropWhile is_white s"

definition skipping :: "'a parser \<Rightarrow> 'a parser" where
  "skipping p s = p (pre_parse s)"

definition with_action :: "('a list \<Rightarrow> 'b list) \<Rightarrow> 'a parser \<Rightarrow> 'b parser" where
  "with_action f p s = (case p s of None \<Rightarrow> None | Some (ts, s') \<Rightarrow> Some (f ts, s'))"

definition literal_impl :: "string \<Rightarrow> string parser" where
  "literal_impl w s = (if prefix w s then Some ([w], drop (length w) s) else None)"

text \<open>\<open>Word\<close> with one set of characters and no bounds.\<close>

definition word_impl :: "(char \<Rightarrow> bool) \<Rightarrow> string parser" where
  "word_impl P s = (if takeWhile P s = [] then None else Some ([takeWhile P s], dropWhile P s))"

definition regex_impl :: "rx \<Rightarrow> string parser" where
  "regex_impl r s = (case re_at r s of None \<Rightarrow> None | Some s' \<Rightarrow> Some ([eaten s s'], s'))"

text \<open>
  \<open>QuotedString(q)\<close> of one quote character: one line up to the next quote, with the quotes taken off and the
  escaped white space replaced.
\<close>

definition unescape :: "string \<Rightarrow> string" where
  "unescape s =
     (if CHR 0x5C \<in> set s
      then fold (\<lambda>(w, c). replace_all [CHR 0x5C, w] [c])
        [(CHR ''t'', CHR 0x09), (CHR ''n'', CHR 0x0A), (CHR ''f'', CHR 0x0C), (CHR ''r'', CHR 0x0D)] s
      else s)"

definition quoted_impl :: "char \<Rightarrow> string parser" where
  "quoted_impl q s =
     (case s of [] \<Rightarrow> None
      | c # t \<Rightarrow> if c \<noteq> q then None
          else (case dropWhile (\<lambda>x. x \<noteq> q \<and> x \<noteq> CHR 0x0A \<and> x \<noteq> CHR 0x0D) t of
              [] \<Rightarrow> None
            | d # t' \<Rightarrow> if d = q
                then Some ([unescape (takeWhile (\<lambda>x. x \<noteq> q \<and> x \<noteq> CHR 0x0A \<and> x \<noteq> CHR 0x0D) t)], t') else None))"

text \<open>At the start of a grammar \<open>stringStart\<close> has only white space before it, which it allows.\<close>

definition string_start :: "'a parser" where
  "string_start s = Some ([], s)"

definition string_end :: "'a parser" where
  "string_end s = (if s = [] then Some ([], []) else None)"

section \<open>Combinations\<close>

fun and_parse :: "'a parser list \<Rightarrow> 'a parser" where
  "and_parse [] s = Some ([], s)"
| "and_parse (p # ps) s = (case p s of None \<Rightarrow> None
     | Some (ts, s') \<Rightarrow> (case and_parse ps s' of None \<Rightarrow> None | Some (us, s'') \<Rightarrow> Some (ts @ us, s'')))"

fun match_first :: "'a parser list \<Rightarrow> 'a parser" where
  "match_first [] s = None"
| "match_first (p # ps) s = (case p s of None \<Rightarrow> match_first ps s | Some r \<Rightarrow> Some r)"

text \<open>\<open>Or\<close>: the longest match, the first of several such.\<close>

fun longest :: "'a parser list \<Rightarrow> 'a parser" where
  "longest [] s = None"
| "longest (p # ps) s = (case (p s, longest ps s) of
     (None, r) \<Rightarrow> r
   | (Some r, None) \<Rightarrow> Some r
   | (Some (ts, s'), Some (us, s'')) \<Rightarrow> if length s'' < length s' then Some (us, s'') else Some (ts, s'))"

definition optional :: "'a parser \<Rightarrow> 'a parser" where
  "optional p s = (case p s of None \<Rightarrow> Some ([], s) | Some r \<Rightarrow> Some r)"

text \<open>
  \<open>ZeroOrMore\<close> takes the element as often as it matches. An element that matches without taking anything would be
  asked for ever; no element under a \<open>ZeroOrMore\<close> of the grammars is one (\<open>progress\<close> below), so the test never stops it.
\<close>

function zero_or_more :: "'a parser \<Rightarrow> 'a parser" where
  "zero_or_more p s = (case p s of None \<Rightarrow> Some ([], s)
     | Some (ts, s') \<Rightarrow> if length s' < length s
         then (case zero_or_more p s' of None \<Rightarrow> None | Some (us, s'') \<Rightarrow> Some (ts @ us, s''))
         else Some ([], s))"
  by pat_completeness auto
termination
  by (relation "measure (\<lambda>(p, s). length s)") auto

declare zero_or_more.simps [simp del]

definition suppress :: "'a parser \<Rightarrow> 'b parser" where
  "suppress p = with_action (\<lambda>_. []) p"

definition combine :: "string \<Rightarrow> string parser \<Rightarrow> string parser" where
  "combine w p = with_action (\<lambda>ts. [join_with w ts]) p"

section \<open>Whole texts\<close>

text \<open>\<open>str.expandtabs()\<close>; the first argument is the column.\<close>

fun expandtabs :: "nat \<Rightarrow> string \<Rightarrow> string" where
  "expandtabs n [] = []"
| "expandtabs n (c # s) =
     (if c = CHR 0x09 then replicate (8 - n mod 8) (CHR '' '') @ expandtabs 0 s
      else c # expandtabs (if c = CHR 0x0A \<or> c = CHR 0x0D then 0 else Suc n) s)"

definition parse_string :: "'a parser \<Rightarrow> string \<Rightarrow> 'a list option" where
  "parse_string p s = map_option fst (p (expandtabs 0 s))"

section \<open>Laws\<close>

lemma expandtabs_id [simp]: "CHR 0x09 \<notin> set s \<Longrightarrow> expandtabs n s = s"
  by (induction s arbitrary: n) auto

lemma pre_parse_simps [simp]:
  "pre_parse [] = []"
  "is_white c \<Longrightarrow> pre_parse (c # s) = pre_parse s"
  "\<not> is_white c \<Longrightarrow> pre_parse (c # s) = c # s"
  by (simp_all add: pre_parse_def)

lemma pre_parse_idem [simp]: "pre_parse (pre_parse s) = pre_parse s"
  by (simp add: pre_parse_def dropWhile_idem)

lemma length_pre_parse [simp]: "length (pre_parse s) \<le> length s"
  by (simp add: pre_parse_def length_dropWhile_le)

lemma skipping_pre_parse [simp]: "skipping p (pre_parse s) = skipping p s"
  by (simp add: skipping_def)

lemma with_action_eq:
  "with_action f p s = Some (us, s') \<longleftrightarrow> (\<exists>ts. p s = Some (ts, s') \<and> us = f ts)"
  "with_action f p s = None \<longleftrightarrow> p s = None"
  by (auto simp: with_action_def split: option.splits)

lemma with_action_simps [simp]:
  "p s = Some (ts, s') \<Longrightarrow> with_action f p s = Some (f ts, s')"
  "p s = None \<Longrightarrow> with_action f p s = None"
  by (simp_all add: with_action_def)

lemma suppress_simps [simp]:
  "p s = Some (ts, s') \<Longrightarrow> suppress p s = Some ([], s')"
  "p s = None \<Longrightarrow> suppress p s = None"
  by (simp_all add: suppress_def)

lemma literal_append [simp]: "literal_impl w (w @ s) = Some ([w], s)"
  by (simp add: literal_impl_def)

lemma and_parse_step:
  "p s = Some (ts, s') \<Longrightarrow> and_parse ps s' = Some (us, s'') \<Longrightarrow> and_parse (p # ps) s = Some (ts @ us, s'')"
  by simp

text \<open>Elements whose result is what is left of the text; and those that take at least one character.\<close>

definition shrinks :: "'a parser \<Rightarrow> bool" where
  "shrinks p \<longleftrightarrow> (\<forall>s ts s'. p s = Some (ts, s') \<longrightarrow> length s' \<le> length s)"

definition progress :: "'a parser \<Rightarrow> bool" where
  "progress p \<longleftrightarrow> (\<forall>s ts s'. p s = Some (ts, s') \<longrightarrow> length s' < length s)"

lemma progress_shrinks: "progress p \<Longrightarrow> shrinks p"
  unfolding progress_def shrinks_def by (meson less_imp_le)

lemma progress_skipping: "progress p \<Longrightarrow> progress (skipping p)"
  unfolding progress_def skipping_def using length_pre_parse order.strict_trans2 by blast

lemma shrinks_skipping: "shrinks p \<Longrightarrow> shrinks (skipping p)"
  unfolding shrinks_def skipping_def using length_pre_parse order.trans by blast

lemma progress_literal: "w \<noteq> [] \<Longrightarrow> progress (literal_impl w)"
  by (auto simp: progress_def literal_impl_def prefix_def)

lemma progress_word: "progress (word_impl P)"
  unfolding progress_def word_impl_def
  by (metis append_Nil length_append length_greater_0_conv less_add_same_cancel2 option.inject option.simps(3) prod.inject
      takeWhile_dropWhile_id)

lemma progress_quoted: "progress (quoted_impl q)"
proof -
  have "length t' < length t" if "dropWhile P t = d # t'" for P t d t'
    using length_dropWhile_le [of P t] that by simp
  then show ?thesis by (auto simp: progress_def quoted_impl_def less_Suc_eq split: list.splits if_splits)
qed

lemma progress_with_action: "progress p \<Longrightarrow> progress (with_action f p)"
  unfolding progress_def by (metis with_action_eq(1))

lemma shrinks_with_action: "shrinks p \<Longrightarrow> shrinks (with_action f p)"
  unfolding shrinks_def by (metis with_action_eq(1))

lemma shrinks_string_start: "shrinks string_start" and shrinks_string_end: "shrinks string_end"
  by (simp_all add: shrinks_def string_start_def string_end_def)

lemma and_parse_Cons_eq:
  "and_parse (p # ps) s = Some (ts, s') \<longleftrightarrow>
     (\<exists>us v vs. p s = Some (us, v) \<and> and_parse ps v = Some (vs, s') \<and> ts = us @ vs)"
  by (auto split: option.splits)

lemma shrinks_and: "\<forall>p\<in>set ps. shrinks p \<Longrightarrow> shrinks (and_parse ps)"
proof (induction ps)
  case (Cons p ps)
  then have "shrinks p" "shrinks (and_parse ps)" by auto
  then show ?case unfolding shrinks_def and_parse_Cons_eq by (meson order.trans)
qed (simp add: shrinks_def)

lemma progress_and: "progress p \<Longrightarrow> \<forall>p\<in>set ps. shrinks p \<Longrightarrow> progress (and_parse (p # ps))"
  using shrinks_and [of ps] unfolding progress_def shrinks_def and_parse_Cons_eq by (meson order.strict_trans1)

lemma match_first_cases: "match_first ps s = Some r \<Longrightarrow> \<exists>p\<in>set ps. p s = Some r"
  by (induction ps) (auto split: option.splits)

lemma progress_match_first: "\<forall>p\<in>set ps. progress p \<Longrightarrow> progress (match_first ps)"
  unfolding progress_def using match_first_cases by blast

lemma longest_cases: "longest ps s = Some r \<Longrightarrow> \<exists>p\<in>set ps. p s = Some r"
  by (induction ps) (auto split: option.splits if_splits)

lemma progress_longest: "\<forall>p\<in>set ps. progress p \<Longrightarrow> progress (longest ps)"
  unfolding progress_def using longest_cases by blast

lemma shrinks_zero_or_more: "shrinks (zero_or_more p)"
  unfolding shrinks_def
proof (intro allI impI)
  fix s ts s'
  assume "zero_or_more p s = Some (ts, s')"
  then show "length s' \<le> length s"
  proof (induction s arbitrary: ts rule: measure_induct_rule [of length])
    case (less s)
    from less.prems less.IH show ?case
      by (subst (asm) zero_or_more.simps) (fastforce split: option.splits if_splits prod.splits)
  qed
qed

lemma shrinks_optional: "shrinks p \<Longrightarrow> shrinks (optional p)"
  by (auto simp: shrinks_def optional_def split: option.splits)

lemma zero_or_more_total: "\<exists>ts s'. zero_or_more p s = Some (ts, s')"
proof (induction s rule: measure_induct_rule [of length])
  case (less s)
  then show ?case by (subst zero_or_more.simps) (fastforce split: option.splits)
qed

lemma zero_or_more_stop: "p s = None \<Longrightarrow> zero_or_more p s = Some ([], s)"
  by (subst zero_or_more.simps) simp

lemma zero_or_more_step:
  "p s = Some (ts, s') \<Longrightarrow> length s' < length s \<Longrightarrow> zero_or_more p s' = Some (us, s'')
    \<Longrightarrow> zero_or_more p s = Some (ts @ us, s'')"
  by (subst zero_or_more.simps) simp

lemma zero_or_more_cong:
  assumes "\<And>t. length t \<le> length s \<Longrightarrow> p t = q t"
  shows "zero_or_more p s = zero_or_more q s"
  using assms
proof (induction s rule: measure_induct_rule [of length])
  case (less s)
  have "p s = q s" by (rule less.prems) simp
  moreover have "zero_or_more p t = zero_or_more q t" if "length t < length s" for t
    using that by (intro less.IH less.prems) simp_all
  ultimately show ?case
    by (subst (1 2) zero_or_more.simps) (auto split: option.splits)
qed

lemma zero_or_more_result:
  "zero_or_more p s = Some (ts, s') \<Longrightarrow> (\<And>t us t'. p t = Some (us, t') \<Longrightarrow> \<forall>u\<in>set us. P u) \<Longrightarrow> \<forall>u\<in>set ts. P u"
proof (induction s arbitrary: ts rule: measure_induct_rule [of length])
  case (less s)
  from less.prems(1) show ?case
    by (subst (asm) zero_or_more.simps)
      (use less.IH less.prems(2) in \<open>fastforce split: option.splits if_splits prod.splits\<close>)
qed

end
