(* ===== verification/PkgVersion.thy ===== *)
theory PkgVersion
  imports PyRegex
begin

text \<open>
  \<open>pkg_resources/_vendor/packaging/version.py\<close>, \<open>_structures.py\<close> and \<open>utils.py\<close>: versions after PEP 440
  with their keys, the versions of the old scheme, and all comparisons with the rules of Python for tuples
  and the two infinities. \<open>__repr__\<close>, \<open>__hash__\<close> and comparisons with other objects are left out.
\<close>

section \<open>Comparing keys\<close>

datatype cmp_val =
    PInt int
  | PStr string
  | PTup "cmp_val list"
  | Infinity
  | NegativeInfinity

datatype cmp_op = Lt | Le | Gt | Ge

fun by_op :: "cmp_op \<Rightarrow> 'a::linorder \<Rightarrow> 'a \<Rightarrow> bool" where
  "by_op Lt a b \<longleftrightarrow> a < b"
| "by_op Le a b \<longleftrightarrow> a \<le> b"
| "by_op Gt a b \<longleftrightarrow> b < a"
| "by_op Ge a b \<longleftrightarrow> b \<le> a"

definition wants_less :: "cmp_op \<Rightarrow> bool" where
  "wants_less op \<longleftrightarrow> op = Lt \<or> op = Le"

text \<open>
  Python asks the left operand, and the right one with the mirrored operation when the left one does not
  know. \<open>Infinity\<close> and \<open>NegativeInfinity\<close> answer without looking at the other side. Tuples compare the first
  elements that are not equal, or else their lengths.
\<close>

fun py_cmp :: "cmp_op \<Rightarrow> cmp_val \<Rightarrow> cmp_val \<Rightarrow> bool res"
  and py_cmp_list :: "cmp_op \<Rightarrow> cmp_val list \<Rightarrow> cmp_val list \<Rightarrow> bool res" where
  "py_cmp op Infinity b = Inr (\<not> wants_less op)"
| "py_cmp op NegativeInfinity b = Inr (wants_less op)"
| "py_cmp op (PInt a) (PInt b) = Inr (by_op op a b)"
| "py_cmp op (PStr a) (PStr b) = Inr (by_op op a b)"
| "py_cmp op (PTup as) (PTup bs) = py_cmp_list op as bs"
| "py_cmp op (PInt a) Infinity = Inr (wants_less op)"
| "py_cmp op (PStr a) Infinity = Inr (wants_less op)"
| "py_cmp op (PTup a) Infinity = Inr (wants_less op)"
| "py_cmp op (PInt a) NegativeInfinity = Inr (\<not> wants_less op)"
| "py_cmp op (PStr a) NegativeInfinity = Inr (\<not> wants_less op)"
| "py_cmp op (PTup a) NegativeInfinity = Inr (\<not> wants_less op)"
| "py_cmp op (PInt a) (PStr b) = Inl TypeError"
| "py_cmp op (PInt a) (PTup b) = Inl TypeError"
| "py_cmp op (PStr a) (PInt b) = Inl TypeError"
| "py_cmp op (PStr a) (PTup b) = Inl TypeError"
| "py_cmp op (PTup a) (PInt b) = Inl TypeError"
| "py_cmp op (PTup a) (PStr b) = Inl TypeError"
| "py_cmp_list op (a # as) (b # bs) = (if a = b then py_cmp_list op as bs else py_cmp op a b)"
| "py_cmp_list op [] bs = Inr (by_op op 0 (length bs))"
| "py_cmp_list op (a # as) [] = Inr (by_op op (Suc (length as)) 0)"

section \<open>The pattern\<close>

definition dash :: rx where "dash = Opt (cls ''-_.'')"

definition VERSION_PATTERN :: rx where
  "VERSION_PATTERN = seqs [
     Opt (lit ''v''),
     Opt (Seq (Group ''epoch'' (Plus Digit)) (lit ''!'')),
     Group ''release'' (Seq (Plus Digit) (Star (Seq (lit ''.'') (Plus Digit)))),
     Opt (Group ''pre'' (seqs [dash,
       Group ''pre_l'' (alts [lit ''a'', lit ''b'', lit ''c'', lit ''rc'', lit ''alpha'', lit ''beta'', lit ''pre'', lit ''preview'']),
       dash, Opt (Group ''pre_n'' (Plus Digit))])),
     Opt (Group ''post'' (Alt
       (Seq (lit ''-'') (Group ''post_n1'' (Plus Digit)))
       (seqs [dash, Group ''post_l'' (alts [lit ''post'', lit ''rev'', lit ''r'']), dash,
         Opt (Group ''post_n2'' (Plus Digit))]))),
     Opt (Group ''dev'' (seqs [dash, Group ''dev_l'' (lit ''dev''), dash, Opt (Group ''dev_n'' (Plus Digit))])),
     Opt (Seq (lit ''+'') (Group ''local'' (Seq (Plus Alnum) (Star (Seq (cls ''-_.'') (Plus Alnum))))))]"

definition version_regex :: rx where
  "version_regex = Seq (seqs [Star Space, VERSION_PATTERN, Star Space]) Eos"

section \<open>Versions\<close>

datatype local_part = LInt int | LStr string

record pep440 =
  v_epoch :: int
  v_release :: "int list"
  v_dev :: "(string \<times> int) option"
  v_pre :: "(string \<times> int) option"
  v_post :: "(string \<times> int) option"
  v_local :: "local_part list option"

definition int_of :: "string \<Rightarrow> int" where
  "int_of s = int (nat_of_digits s)"

text \<open>A group of a match is falsy when it took no part or is empty.\<close>

definition truthy :: "string option \<Rightarrow> string option" where
  "truthy g = (case g of None \<Rightarrow> None | Some s \<Rightarrow> if s = [] then None else Some s)"

definition spelling :: "string \<Rightarrow> string" where
  "spelling l =
     (if l = ''alpha'' then ''a''
      else if l = ''beta'' then ''b''
      else if l \<in> {''c'', ''pre'', ''preview''} then ''rc''
      else if l \<in> {''rev'', ''r''} then ''post''
      else l)"

definition parse_letter_version :: "string option \<Rightarrow> string option \<Rightarrow> (string \<times> int) option" where
  "parse_letter_version letter number = (case truthy letter of
     Some l \<Rightarrow> Some (spelling (lower l), case number of None \<Rightarrow> 0 | Some n \<Rightarrow> int_of n)
   | None \<Rightarrow> (case truthy number of Some n \<Rightarrow> Some (''post'', int_of n) | None \<Rightarrow> None))"

text \<open>\<open>_local_version_separators.split\<close>.\<close>

fun split_any :: "(char \<Rightarrow> bool) \<Rightarrow> string \<Rightarrow> string list" where
  "split_any P [] = [[]]"
| "split_any P (c # s) =
     (if P c then [] # split_any P s
      else (case split_any P s of [] \<Rightarrow> [[c]] | p # ps \<Rightarrow> (c # p) # ps))"

definition local_part_of :: "string \<Rightarrow> local_part" where
  "local_part_of p = (if isdigit p then LInt (int_of p) else LStr (lower p))"

definition parse_local_version :: "string option \<Rightarrow> local_part list option" where
  "parse_local_version l = map_option (\<lambda>s. map local_part_of (split_any (\<lambda>c. c \<in> set ''._-'') s)) l"

definition version_of_groups :: "caps \<Rightarrow> pep440" where
  "version_of_groups g = \<lparr>
     v_epoch = (case truthy (dget g ''epoch'') of Some e \<Rightarrow> int_of e | None \<Rightarrow> 0),
     v_release = map int_of (split_on CHR ''.'' (the (dget g ''release''))),
     v_dev = parse_letter_version (dget g ''dev_l'') (dget g ''dev_n''),
     v_pre = parse_letter_version (dget g ''pre_l'') (dget g ''pre_n''),
     v_post = parse_letter_version (dget g ''post_l'')
       (case truthy (dget g ''post_n1'') of Some n \<Rightarrow> Some n | None \<Rightarrow> dget g ''post_n2''),
     v_local = parse_local_version (dget g ''local'')\<rparr>"

text \<open>\<open>Version(s)\<close>; \<open>InvalidVersion\<close> is a \<open>ValueError\<close>.\<close>

definition pep_version :: "string \<Rightarrow> pep440 res" where
  "pep_version s = (case re_match version_regex s of
     None \<Rightarrow> Inl ValueError | Some g \<Rightarrow> Inr (version_of_groups g))"

definition local_text :: "local_part \<Rightarrow> string" where
  "local_text p = (case p of LInt i \<Rightarrow> str_of_int i | LStr s \<Rightarrow> s)"

text \<open>The property \<open>local\<close>: the parts joined by dots.\<close>

definition pv_local :: "pep440 \<Rightarrow> string option" where
  "pv_local v = (case v_local v of
     Some (p # ps) \<Rightarrow> Some (join_with ''.'' (map local_text (p # ps))) | _ \<Rightarrow> None)"

definition epoch_text :: "pep440 \<Rightarrow> string" where
  "epoch_text v = (if v_epoch v \<noteq> 0 then str_of_int (v_epoch v) @ ''!'' else [])"

definition release_text :: "pep440 \<Rightarrow> string" where
  "release_text v = join_with ''.'' (map str_of_int (v_release v))"

definition tail_text :: "pep440 \<Rightarrow> string" where
  "tail_text v =
     (case v_pre v of None \<Rightarrow> [] | Some (l, n) \<Rightarrow> l @ str_of_int n)
     @ (case v_post v of None \<Rightarrow> [] | Some (_, n) \<Rightarrow> ''.post'' @ str_of_int n)
     @ (case v_dev v of None \<Rightarrow> [] | Some (_, n) \<Rightarrow> ''.dev'' @ str_of_int n)
     @ (case pv_local v of None \<Rightarrow> [] | Some l \<Rightarrow> ''+'' @ l)"

definition pep_str :: "pep440 \<Rightarrow> string" where
  "pep_str v = epoch_text v @ release_text v @ tail_text v"

definition pep_public :: "pep440 \<Rightarrow> string" where
  "pep_public v = takeWhile (\<lambda>c. c \<noteq> CHR ''+'') (pep_str v)"

definition pep_base_version :: "pep440 \<Rightarrow> string" where
  "pep_base_version v = epoch_text v @ release_text v"

definition pep_is_prerelease :: "pep440 \<Rightarrow> bool" where
  "pep_is_prerelease v \<longleftrightarrow> v_dev v \<noteq> None \<or> v_pre v \<noteq> None"

definition pep_is_postrelease :: "pep440 \<Rightarrow> bool" where
  "pep_is_postrelease v \<longleftrightarrow> v_post v \<noteq> None"

definition pep_is_devrelease :: "pep440 \<Rightarrow> bool" where
  "pep_is_devrelease v \<longleftrightarrow> v_dev v \<noteq> None"

definition pep_nth :: "nat \<Rightarrow> pep440 \<Rightarrow> int" where
  "pep_nth i v = (if i < length (v_release v) then v_release v ! i else 0)"

definition pep_major :: "pep440 \<Rightarrow> int" where "pep_major = pep_nth 0"

definition pep_minor :: "pep440 \<Rightarrow> int" where "pep_minor = pep_nth 1"

definition pep_micro :: "pep440 \<Rightarrow> int" where "pep_micro = pep_nth 2"

section \<open>Keys\<close>

definition num_val :: "string \<times> int \<Rightarrow> cmp_val" where
  "num_val p = PTup [PStr (fst p), PInt (snd p)]"

definition local_val :: "local_part \<Rightarrow> cmp_val" where
  "local_val p = (case p of LInt i \<Rightarrow> PTup [PInt i, PStr []] | LStr s \<Rightarrow> PTup [NegativeInfinity, PStr s])"

definition pep_cmpkey :: "pep440 \<Rightarrow> cmp_val list" where
  "pep_cmpkey v =
     (let rel = rstrip_while (\<lambda>x. x = 0) (v_release v);
          pre = (if v_pre v = None \<and> v_post v = None \<and> v_dev v \<noteq> None then NegativeInfinity
            else case v_pre v of None \<Rightarrow> Infinity | Some p \<Rightarrow> num_val p);
          post = (case v_post v of None \<Rightarrow> NegativeInfinity | Some p \<Rightarrow> num_val p);
          dev = (case v_dev v of None \<Rightarrow> Infinity | Some p \<Rightarrow> num_val p);
          loc = (case v_local v of None \<Rightarrow> NegativeInfinity | Some ps \<Rightarrow> PTup (map local_val ps))
      in [PInt (v_epoch v), PTup (map PInt rel), pre, post, dev, loc])"

section \<open>Versions of the old scheme\<close>

definition legacy_component_re :: rx where
  "legacy_component_re = alts [Plus Digit, Plus (cls ''abcdefghijklmnopqrstuvwxyz''), lit ''.'', lit ''-'']"

definition legacy_replacement :: "string \<Rightarrow> string" where
  "legacy_replacement p =
     (if p = ''pre'' \<or> p = ''preview'' \<or> p = ''rc'' then ''c''
      else if p = ''-'' then ''final-''
      else if p = ''dev'' then ''@''
      else p)"

definition zfill :: "nat \<Rightarrow> string \<Rightarrow> string" where
  "zfill n s = replicate (n - length s) (CHR ''0'') @ s"

definition parse_version_parts :: "string \<Rightarrow> string list" where
  "parse_version_parts s =
     map (\<lambda>p. if is_digit (hd p) then zfill 8 p else CHR ''*'' # p)
       (filter (\<lambda>p. p \<noteq> [] \<and> p \<noteq> ''.'') (map legacy_replacement (re_split legacy_component_re s)))
     @ [''*final'']"

definition legacy_step :: "string list \<Rightarrow> string \<Rightarrow> string list" where
  "legacy_step parts part =
     (if prefix ''*'' part then
        rstrip_while (\<lambda>p. p = ''00000000'')
          (if part < ''*final'' then rstrip_while (\<lambda>p. p = ''*final-'') parts else parts)
      else parts) @ [part]"

definition legacy_cmpkey :: "string \<Rightarrow> cmp_val list" where
  "legacy_cmpkey s = [PInt (- 1), PTup (map PStr (foldl legacy_step [] (parse_version_parts (lower s))))]"

section \<open>Both kinds\<close>

datatype any_version = Version pep440 | LegacyVersion string

definition pkg_parse :: "string \<Rightarrow> any_version" where
  "pkg_parse s = (case pep_version s of Inr v \<Rightarrow> Version v | Inl _ \<Rightarrow> LegacyVersion s)"

definition key :: "any_version \<Rightarrow> cmp_val" where
  "key v = PTup (case v of Version p \<Rightarrow> pep_cmpkey p | LegacyVersion s \<Rightarrow> legacy_cmpkey s)"

definition av_str :: "any_version \<Rightarrow> string" where
  "av_str v = (case v of Version p \<Rightarrow> pep_str p | LegacyVersion s \<Rightarrow> s)"

definition av_public :: "any_version \<Rightarrow> string" where
  "av_public v = (case v of Version p \<Rightarrow> pep_public p | LegacyVersion s \<Rightarrow> s)"

definition av_base_version :: "any_version \<Rightarrow> string" where
  "av_base_version v = (case v of Version p \<Rightarrow> pep_base_version p | LegacyVersion s \<Rightarrow> s)"

definition av_is_prerelease :: "any_version \<Rightarrow> bool" where
  "av_is_prerelease v = (case v of Version p \<Rightarrow> pep_is_prerelease p | LegacyVersion _ \<Rightarrow> False)"

definition av_eq :: "any_version \<Rightarrow> any_version \<Rightarrow> bool" where
  "av_eq v w \<longleftrightarrow> key v = key w"

definition av_ne :: "any_version \<Rightarrow> any_version \<Rightarrow> bool" where
  "av_ne v w \<longleftrightarrow> key v \<noteq> key w"

definition av_cmp :: "cmp_op \<Rightarrow> any_version \<Rightarrow> any_version \<Rightarrow> bool res" where
  "av_cmp op v w = py_cmp op (key v) (key w)"

section \<open>Canonical texts\<close>

definition zeros_re :: rx where
  "zeros_re = Seq (Plus (lit ''.0'')) Eos"

definition canonicalize_version :: "string \<Rightarrow> string" where
  "canonicalize_version s = (case pep_version s of
     Inl _ \<Rightarrow> s
   | Inr v \<Rightarrow> epoch_text v @ re_sub zeros_re [] (release_text v) @ tail_text v)"

definition canonicalize_name :: "string \<Rightarrow> string" where
  "canonicalize_name s = lower (re_sub (Plus (cls ''-_.'')) ''-'' s)"

end
