(* ===== verification/PkgSpecifiers.thy ===== *)
theory PkgSpecifiers
  imports PkgVersion
begin

text \<open>
  \<open>pkg_resources/_vendor/packaging/specifiers.py\<close>: single specifiers of both kinds with their comparisons,
  sets of specifiers, and filtering. A frozen set of specifiers is a list without two equal members, in one
  of its possible orders. \<open>__repr__\<close>, \<open>__hash__\<close> and the abstract base class are left out.
\<close>

section \<open>The patterns\<close>

definition spec_release :: "(rx \<Rightarrow> rx) \<Rightarrow> rx" where
  "spec_release again = seqs [Star Space, Opt (lit ''v''), Opt (Seq (Plus Digit) (lit ''!'')),
     Plus Digit, again (Seq (lit ''.'') (Plus Digit))]"

definition spec_pre :: rx where
  "spec_pre = Opt (seqs [dash,
     alts [lit ''a'', lit ''b'', lit ''c'', lit ''rc'', lit ''alpha'', lit ''beta'', lit ''pre'', lit ''preview''],
     dash, Star Digit])"

definition spec_post :: rx where
  "spec_post = Opt (Alt (Seq (lit ''-'') (Plus Digit))
     (seqs [dash, alts [lit ''post'', lit ''rev'', lit ''r''], dash, Star Digit]))"

definition spec_dev :: rx where
  "spec_dev = Opt (seqs [dash, lit ''dev'', dash, Star Digit])"

definition spec_local :: rx where
  "spec_local = Opt (Seq (lit ''+'') (Seq (Plus Alnum) (Star (Seq (cls ''-_.'') (Plus Alnum)))))"

text \<open>The four alternatives for the version: after \<open>===\<close>, after \<open>==\<close> and \<open>!=\<close>, after \<open>~=\<close>, and after the others.\<close>

definition identity_text :: rx where
  "identity_text = Seq (Star Space) (Star (Chr (\<lambda>x. \<not> strip_ws x)))"

definition equal_text :: rx where
  "equal_text = seqs [spec_release Star, spec_pre, spec_post, Opt (Alt (Seq spec_dev spec_local) (Seq (lit ''.'') (lit ''*'')))]"

definition compatible_text :: rx where
  "compatible_text = seqs [spec_release Plus, spec_pre, spec_post, spec_dev]"

definition ordered_text :: rx where
  "ordered_text = seqs [spec_release Star, spec_pre, spec_post, spec_dev]"

definition specifier_regex :: rx where
  "specifier_regex = seqs [Star Space,
     Group ''operator'' (alts [lit ''~='', lit ''=='', lit ''!='', lit ''<='', lit ''>='', lit ''<'', lit ''>'', lit ''==='']),
     Group ''version'' (alts [
       Seq (Behind [''==='']) identity_text,
       Seq (Behind [''=='', ''!='']) equal_text,
       Seq (Behind [''~='']) compatible_text,
       Seq (NotBehind [''=='', ''!='', ''~='']) ordered_text]),
     Star Space, Eos]"

definition legacy_specifier_regex :: rx where
  "legacy_specifier_regex = seqs [Star Space,
     Group ''operator'' (alts [lit ''=='', lit ''!='', lit ''<='', lit ''>='', lit ''<'', lit ''>'']),
     Star Space,
     Group ''version'' (Star (Chr (\<lambda>x. x \<noteq> CHR '','' \<and> x \<noteq> CHR '';'' \<and> \<not> strip_ws x \<and> x \<noteq> CHR '')''))),
     Star Space, Eos]"

section \<open>Single specifiers\<close>

record specifier =
  sp_legacy :: bool
  sp_operator :: string
  sp_version :: string
  sp_prereleases :: "bool option"

definition group_text :: "caps \<Rightarrow> string \<Rightarrow> string" where
  "group_text g n = strip (the (dget g n))"

definition specifier_of :: "bool \<Rightarrow> bool option \<Rightarrow> caps \<Rightarrow> specifier" where
  "specifier_of legacy pre g = \<lparr>sp_legacy = legacy, sp_operator = group_text g ''operator'',
     sp_version = group_text g ''version'', sp_prereleases = pre\<rparr>"

text \<open>\<open>InvalidSpecifier\<close> is a \<open>ValueError\<close>.\<close>

definition new_specifier :: "string \<Rightarrow> bool option \<Rightarrow> specifier res" where
  "new_specifier s pre = (case re_match specifier_regex s of
     None \<Rightarrow> Inl ValueError | Some g \<Rightarrow> Inr (specifier_of False pre g))"

definition new_legacy_specifier :: "string \<Rightarrow> bool option \<Rightarrow> specifier res" where
  "new_legacy_specifier s pre = (case re_match legacy_specifier_regex s of
     None \<Rightarrow> Inl ValueError | Some g \<Rightarrow> Inr (specifier_of True pre g))"

definition spec_str :: "specifier \<Rightarrow> string" where
  "spec_str sp = sp_operator sp @ sp_version sp"

definition canonical_spec :: "specifier \<Rightarrow> string \<times> string" where
  "canonical_spec sp = (sp_operator sp, canonicalize_version (sp_version sp))"

text \<open>
  \<open>__eq__\<close> and \<open>__ne__\<close> of two specifiers. Of different classes both know nothing of each other and Python compares
  identities. \<open>__ne__\<close> compares the texts.
\<close>

definition spec_eq :: "specifier \<Rightarrow> specifier \<Rightarrow> bool" where
  "spec_eq a b \<longleftrightarrow> sp_legacy a = sp_legacy b \<and> canonical_spec a = canonical_spec b"

definition spec_ne :: "specifier \<Rightarrow> specifier \<Rightarrow> bool" where
  "spec_ne a b \<longleftrightarrow> sp_legacy a \<noteq> sp_legacy b \<or> sp_operator a \<noteq> sp_operator b \<or> sp_version a \<noteq> sp_version b"

definition endswith_star :: "string \<Rightarrow> bool" where
  "endswith_star s \<longleftrightarrow> suffix ''.*'' s"

definition drop_star :: "string \<Rightarrow> string" where
  "drop_star s = take (length s - 2) s"

text \<open>\<open>Specifier.prereleases\<close> and the one of the base class.\<close>

definition spec_prereleases :: "specifier \<Rightarrow> bool option" where
  "spec_prereleases sp =
     (if sp_legacy sp \<or> sp_prereleases sp \<noteq> None then sp_prereleases sp
      else Some (sp_operator sp \<in> {''=='', ''>='', ''<='', ''~='', ''===''}
        \<and> av_is_prerelease (pkg_parse (if sp_operator sp = ''=='' \<and> endswith_star (sp_version sp)
             then drop_star (sp_version sp) else sp_version sp))))"

text \<open>An item that is asked about: a text or a version object.\<close>

datatype item = ItemText string | ItemVersion any_version

definition parse_item :: "item \<Rightarrow> any_version" where
  "parse_item i = (case i of ItemText s \<Rightarrow> pkg_parse s | ItemVersion v \<Rightarrow> v)"

definition coerce_item :: "bool \<Rightarrow> item \<Rightarrow> any_version" where
  "coerce_item legacy i = (if legacy
     then (case i of ItemText s \<Rightarrow> LegacyVersion s
       | ItemVersion (LegacyVersion s) \<Rightarrow> LegacyVersion s
       | ItemVersion (Version v) \<Rightarrow> LegacyVersion (pep_str v))
     else parse_item i)"

section \<open>Prefixes\<close>

definition prefix_regex :: rx where
  "prefix_regex = seqs [Group ''1'' (Plus Digit),
     Group ''2'' (Seq (alts [cls ''a'', cls ''b'', cls ''c'', Seq (cls ''r'') (cls ''c'')]) (Plus Digit)), Eos]"

definition split_item :: "string \<Rightarrow> string list" where
  "split_item s = (case re_match prefix_regex s of
     Some g \<Rightarrow> [the (dget g ''1''), the (dget g ''2'')] | None \<Rightarrow> [s])"

definition version_split :: "string \<Rightarrow> string list" where
  "version_split s = concat (map split_item (split_on CHR ''.'' s))"

definition pad_version :: "string list \<Rightarrow> string list \<Rightarrow> string list \<times> string list" where
  "pad_version l r =
     (let l0 = takeWhile isdigit l; r0 = takeWhile isdigit r
      in (l0 @ replicate (length r0 - length l0) ''0'' @ drop (length l0) l,
          r0 @ replicate (length l0 - length r0) ''0'' @ drop (length r0) r))"

section \<open>Comparisons\<close>

text \<open>
  The methods of \<open>Specifier\<close> for a \<open>Version\<close>; \<open>_require_version_compare\<close> answers \<open>False\<close> for a legacy version.
\<close>

definition compare_equal :: "pep440 \<Rightarrow> string \<Rightarrow> bool res" where
  "compare_equal v spec =
     (if endswith_star spec
      then bindR (pep_version (pep_public v)) (\<lambda>p.
        let split_spec = version_split (drop_star spec);
            shortened = take (length split_spec) (version_split (pep_str p));
            (padded_spec, padded) = pad_version split_spec shortened
        in Inr (padded = padded_spec))
      else bindR (pep_version spec) (\<lambda>w.
        bindR (if pv_local w = None \<or> pv_local w = Some [] then pep_version (pep_public v) else Inr v) (\<lambda>p.
          Inr (av_eq (Version p) (Version w)))))"

definition compare_not_equal :: "pep440 \<Rightarrow> string \<Rightarrow> bool res" where
  "compare_not_equal v spec = bindR (compare_equal v spec) (\<lambda>b. Inr (\<not> b))"

definition compare_less_than_equal :: "pep440 \<Rightarrow> string \<Rightarrow> bool res" where
  "compare_less_than_equal v spec = bindR (pep_version (pep_public v)) (\<lambda>p. bindR (pep_version spec) (\<lambda>w.
     av_cmp Le (Version p) (Version w)))"

definition compare_greater_than_equal :: "pep440 \<Rightarrow> string \<Rightarrow> bool res" where
  "compare_greater_than_equal v spec = bindR (pep_version (pep_public v)) (\<lambda>p. bindR (pep_version spec) (\<lambda>w.
     av_cmp Ge (Version p) (Version w)))"

definition same_base :: "pep440 \<Rightarrow> pep440 \<Rightarrow> bool res" where
  "same_base v w = bindR (pep_version (pep_base_version v)) (\<lambda>a. bindR (pep_version (pep_base_version w)) (\<lambda>b.
     Inr (av_eq (Version a) (Version b))))"

definition compare_less_than :: "pep440 \<Rightarrow> string \<Rightarrow> bool res" where
  "compare_less_than v spec = bindR (pep_version spec) (\<lambda>w.
     bindR (av_cmp Lt (Version v) (Version w)) (\<lambda>less.
       if \<not> less then Inr False
       else if \<not> pep_is_prerelease w \<and> pep_is_prerelease v then bindR (same_base v w) (\<lambda>same. Inr (\<not> same))
       else Inr True))"

definition compare_greater_than :: "pep440 \<Rightarrow> string \<Rightarrow> bool res" where
  "compare_greater_than v spec = bindR (pep_version spec) (\<lambda>w.
     bindR (av_cmp Gt (Version v) (Version w)) (\<lambda>greater.
       if \<not> greater then Inr False
       else bindR (if \<not> pep_is_postrelease w \<and> pep_is_postrelease v then same_base v w else Inr False) (\<lambda>same.
         if same then Inr False
         else bindR (if pv_local v \<noteq> None then same_base v w else Inr False) (\<lambda>same'. Inr (\<not> same')))))"

definition compatible_prefix :: "string \<Rightarrow> string" where
  "compatible_prefix spec =
     join_with ''.'' (butlast (takeWhile (\<lambda>x. \<not> prefix ''post'' x \<and> \<not> prefix ''dev'' x) (version_split spec))) @ ''.*''"

definition compare_compatible :: "pep440 \<Rightarrow> string \<Rightarrow> bool res" where
  "compare_compatible v spec = bindR (compare_greater_than_equal v spec) (\<lambda>ge.
     if ge then compare_equal v (compatible_prefix spec) else Inr False)"

definition compare_arbitrary :: "any_version \<Rightarrow> string \<Rightarrow> bool" where
  "compare_arbitrary v spec \<longleftrightarrow> lower (av_str v) = lower spec"

definition require_version :: "(pep440 \<Rightarrow> string \<Rightarrow> bool res) \<Rightarrow> any_version \<Rightarrow> string \<Rightarrow> bool res" where
  "require_version f v spec = (case v of Version p \<Rightarrow> f p spec | LegacyVersion _ \<Rightarrow> Inr False)"

text \<open>\<open>_get_operator\<close>; for another operator the lookup would raise.\<close>

definition pep_operator :: "string \<Rightarrow> any_version \<Rightarrow> string \<Rightarrow> bool res" where
  "pep_operator op v spec =
     (if op = ''~='' then require_version compare_compatible v spec
      else if op = ''=='' then require_version compare_equal v spec
      else if op = ''!='' then require_version compare_not_equal v spec
      else if op = ''<='' then require_version compare_less_than_equal v spec
      else if op = ''>='' then require_version compare_greater_than_equal v spec
      else if op = ''<'' then require_version compare_less_than v spec
      else if op = ''>'' then require_version compare_greater_than v spec
      else if op = ''==='' then Inr (compare_arbitrary v spec)
      else Inl KeyError)"

definition legacy_operator :: "string \<Rightarrow> any_version \<Rightarrow> string \<Rightarrow> bool res" where
  "legacy_operator op v spec = (let w = LegacyVersion spec in
      if op = ''=='' then Inr (av_eq v w)
      else if op = ''!='' then Inr (av_ne v w)
      else if op = ''<='' then av_cmp Le v w
      else if op = ''>='' then av_cmp Ge v w
      else if op = ''<'' then av_cmp Lt v w
      else if op = ''>'' then av_cmp Gt v w
      else Inl KeyError)"

definition spec_contains :: "specifier \<Rightarrow> item \<Rightarrow> bool option \<Rightarrow> bool res" where
  "spec_contains sp i pre =
     (let allowed = (if pre = None then spec_prereleases sp else pre);
          v = coerce_item (sp_legacy sp) i
      in if av_is_prerelease v \<and> allowed \<noteq> Some True then Inr False
         else (if sp_legacy sp then legacy_operator else pep_operator) (sp_operator sp) v (sp_version sp))"

text \<open>\<open>filter\<close>: what is yielded at once and what is kept for the case that nothing is.\<close>

fun filter_items :: "specifier \<Rightarrow> bool option \<Rightarrow> item list \<Rightarrow> (item list \<times> item list) res" where
  "filter_items sp pre [] = Inr ([], [])"
| "filter_items sp pre (i # is) =
     (let v = coerce_item (sp_legacy sp) i
      in bindR (spec_contains sp (ItemVersion v) (Some (pre \<noteq> Some False))) (\<lambda>b.
           bindR (filter_items sp pre is) (\<lambda>(ys, ps). Inr
             (if \<not> b then (ys, ps)
              else if av_is_prerelease v \<and> \<not> (pre = Some True \<or> spec_prereleases sp = Some True) then (ys, i # ps)
              else (i # ys, ps)))))"

definition spec_filter :: "specifier \<Rightarrow> item list \<Rightarrow> bool option \<Rightarrow> item list res" where
  "spec_filter sp is pre = bindR (filter_items sp pre is) (\<lambda>(ys, ps). Inr (if ys = [] then ps else ys))"

section \<open>Sets of specifiers\<close>

record specifier_set =
  ss_specs :: "specifier list"
  ss_prereleases :: "bool option"

definition spec_member :: "specifier \<Rightarrow> specifier list \<Rightarrow> bool" where
  "spec_member sp sps \<longleftrightarrow> list_ex (\<lambda>x. spec_eq x sp) sps"

definition spec_add :: "specifier \<Rightarrow> specifier list \<Rightarrow> specifier list" where
  "spec_add sp sps = (if spec_member sp sps then sps else sps @ [sp])"

definition new_any_specifier :: "string \<Rightarrow> specifier res" where
  "new_any_specifier s = (case new_specifier s None of
     Inr sp \<Rightarrow> Inr sp | Inl _ \<Rightarrow> new_legacy_specifier s None)"

fun parse_specifiers :: "string list \<Rightarrow> specifier list \<Rightarrow> specifier list res" where
  "parse_specifiers [] acc = Inr acc"
| "parse_specifiers (s # ss) acc = bindR (new_any_specifier s) (\<lambda>sp. parse_specifiers ss (spec_add sp acc))"

definition new_specifier_set :: "string \<Rightarrow> bool option \<Rightarrow> specifier_set res" where
  "new_specifier_set s pre =
     bindR (parse_specifiers (filter (\<lambda>x. x \<noteq> []) (map strip (split_on CHR '','' s))) []) (\<lambda>sps.
       Inr \<lparr>ss_specs = sps, ss_prereleases = pre\<rparr>)"

definition set_str :: "specifier_set \<Rightarrow> string" where
  "set_str ss = join_with '','' (sort (map spec_str (ss_specs ss)))"

text \<open>The operation \<open>&\<close> on two sets.\<close>

definition set_and :: "specifier_set \<Rightarrow> specifier_set \<Rightarrow> specifier_set res" where
  "set_and a b =
     (let specs = foldl (\<lambda>acc sp. spec_add sp acc) (ss_specs a) (ss_specs b)
      in if ss_prereleases a = None \<and> ss_prereleases b \<noteq> None then Inr \<lparr>ss_specs = specs, ss_prereleases = ss_prereleases b\<rparr>
         else if ss_prereleases a \<noteq> None \<and> ss_prereleases b = None then Inr \<lparr>ss_specs = specs, ss_prereleases = ss_prereleases a\<rparr>
         else if ss_prereleases a = ss_prereleases b then Inr \<lparr>ss_specs = specs, ss_prereleases = ss_prereleases a\<rparr>
         else Inl ValueError)"

definition set_eq :: "specifier_set \<Rightarrow> specifier_set \<Rightarrow> bool" where
  "set_eq a b \<longleftrightarrow> list_all (\<lambda>x. spec_member x (ss_specs b)) (ss_specs a) \<and> list_all (\<lambda>x. spec_member x (ss_specs a)) (ss_specs b)"

definition set_prereleases :: "specifier_set \<Rightarrow> bool option" where
  "set_prereleases ss =
     (if ss_prereleases ss \<noteq> None then ss_prereleases ss
      else if ss_specs ss = [] then None
      else Some (list_ex (\<lambda>sp. spec_prereleases sp = Some True) (ss_specs ss)))"

fun all_contain :: "specifier list \<Rightarrow> item \<Rightarrow> bool option \<Rightarrow> bool res" where
  "all_contain [] i pre = Inr True"
| "all_contain (sp # sps) i pre = bindR (spec_contains sp i pre) (\<lambda>b. if b then all_contain sps i pre else Inr False)"

definition set_contains :: "specifier_set \<Rightarrow> item \<Rightarrow> bool option \<Rightarrow> bool res" where
  "set_contains ss i pre =
     (let v = parse_item i; allowed = (if pre = None then set_prereleases ss else pre)
      in if allowed \<noteq> Some True \<and> av_is_prerelease v then Inr False
         else all_contain (ss_specs ss) (ItemVersion v) allowed)"

fun filter_chain :: "specifier list \<Rightarrow> item list \<Rightarrow> bool \<Rightarrow> item list res" where
  "filter_chain [] is pre = Inr is"
| "filter_chain (sp # sps) is pre = bindR (spec_filter sp is (Some pre)) (\<lambda>is'. filter_chain sps is' pre)"

text \<open>Without specifiers: the final versions, or else the pre-releases; no legacy versions.\<close>

fun rough_filter :: "bool option \<Rightarrow> item list \<Rightarrow> item list \<Rightarrow> item list \<Rightarrow> item list" where
  "rough_filter pre [] filtered found = (if filtered = [] \<and> found \<noteq> [] \<and> pre = None then found else filtered)"
| "rough_filter pre (i # is) filtered found =
     (case parse_item i of
        LegacyVersion _ \<Rightarrow> rough_filter pre is filtered found
      | Version v \<Rightarrow>
          if pep_is_prerelease v \<and> pre \<noteq> Some True
          then rough_filter pre is filtered (if filtered = [] then found @ [i] else found)
          else rough_filter pre is (filtered @ [i]) found)"

definition set_filter :: "specifier_set \<Rightarrow> item list \<Rightarrow> bool option \<Rightarrow> item list res" where
  "set_filter ss is pre =
     (let allowed = (if pre = None then set_prereleases ss else pre)
      in if ss_specs ss \<noteq> [] then filter_chain (ss_specs ss) is (allowed = Some True)
         else Inr (rough_filter allowed is [] []))"

end
