(* ===== verification/PkgMarkers.thy ===== *)
theory PkgMarkers
  imports PyParsing PkgSpecifiers
begin

text \<open>
  Environment markers: \<open>pkg_resources/_vendor/packaging/markers.py\<close>. The grammar of markers, their printing and their
  evaluation. A value of the environment is a text or \<open>None\<close>, which \<open>pkg_resources\<close> gives to \<open>extra\<close>.
\<close>

section \<open>Markers\<close>

text \<open>
  What the grammar makes of a text: nodes, the tuple of an item, lists and the words \<open>and\<close> and \<open>or\<close>. A marker holds
  a list of these.
\<close>

datatype mark =
    Variable string
  | Value string
  | Op string
  | Text string
  | Tuple "mark list"
  | Nested "mark list"

fun node_str :: "mark \<Rightarrow> string res" where
  "node_str (Variable v) = Inr v"
| "node_str (Value v) = Inr v"
| "node_str (Op v) = Inr v"
| "node_str _ = Inl AttributeError"

section \<open>The grammar\<close>

definition L :: "string \<Rightarrow> mark parser" where
  "L w = skipping (with_action (map Text) (literal_impl w))"

definition variable_names :: "string list" where
  "variable_names = [''implementation_version'', ''platform_python_implementation'', ''implementation_name'',
     ''python_full_version'', ''platform_release'', ''platform_version'', ''platform_machine'', ''platform_system'',
     ''python_version'', ''sys_platform'', ''os_name'', ''os.name'', ''sys.platform'', ''platform.version'',
     ''platform.machine'', ''platform.python_implementation'', ''python_implementation'', ''extra'']"

definition ALIASES :: "(string, string) dict" where
  "ALIASES = [(''os.name'', ''os_name''), (''sys.platform'', ''sys_platform''), (''platform.version'', ''platform_version''),
     (''platform.machine'', ''platform_machine''), (''platform.python_implementation'', ''platform_python_implementation''),
     (''python_implementation'', ''platform_python_implementation'')]"

definition unalias :: "string \<Rightarrow> string" where
  "unalias v = (case dget ALIASES v of None \<Rightarrow> v | Some w \<Rightarrow> w)"

definition text_of :: "mark list \<Rightarrow> string" where
  "text_of ts = (case ts of Text w # _ \<Rightarrow> w | _ \<Rightarrow> [])"

definition VARIABLE :: "mark parser" where
  "VARIABLE = with_action (\<lambda>t. [Variable (unalias (text_of t))]) (match_first (map L variable_names))"

definition marker_ops :: "string list" where
  "marker_ops = [''==='', ''=='', ''>='', ''<='', ''!='', ''~='', ''>'', ''<'', ''not in'', ''in'']"

definition MARKER_OP :: "mark parser" where
  "MARKER_OP = with_action (\<lambda>t. [Op (text_of t)]) (match_first (map L marker_ops))"

definition quoted_string :: "char \<Rightarrow> mark parser" where
  "quoted_string q = skipping (with_action (map Text) (quoted_impl q))"

definition MARKER_VALUE :: "mark parser" where
  "MARKER_VALUE = with_action (\<lambda>t. [Value (text_of t)])
     (match_first [quoted_string (CHR 0x27), quoted_string (CHR 0x22)])"

definition BOOLOP :: "mark parser" where
  "BOOLOP = match_first [L ''and'', L ''or'']"

definition MARKER_VAR :: "mark parser" where
  "MARKER_VAR = match_first [VARIABLE, MARKER_VALUE]"

definition MARKER_ITEM :: "mark parser" where
  "MARKER_ITEM = with_action (\<lambda>t. [Tuple t]) (and_parse [MARKER_VAR, MARKER_OP, MARKER_VAR])"

definition LPAREN :: "mark parser" where "LPAREN = suppress (L ''('')"

definition RPAREN :: "mark parser" where "RPAREN = suppress (L '')'')"

definition MARKER_ATOM :: "mark parser \<Rightarrow> mark parser" where
  "MARKER_ATOM expr = match_first [MARKER_ITEM, with_action (\<lambda>t. [Nested t]) (and_parse [LPAREN, expr, RPAREN])]"

text \<open>
  \<open>MARKER_EXPR\<close> is a \<open>Forward\<close> that stands in its own definition. The number bounds how often it is entered from
  within itself; each time at least one character has been taken, so the length of the text is enough
  (\<open>marker_expr_enough\<close>).
\<close>

primrec MARKER_EXPR :: "nat \<Rightarrow> mark parser" where
  "MARKER_EXPR 0 s = None"
| "MARKER_EXPR (Suc n) s = and_parse [MARKER_ATOM (MARKER_EXPR n), zero_or_more (and_parse [BOOLOP, MARKER_EXPR n])] s"

definition MARKER :: "nat \<Rightarrow> mark parser" where
  "MARKER n = and_parse [skipping string_start, MARKER_EXPR n, skipping string_end]"

text \<open>\<open>Marker(s)\<close>; \<open>InvalidMarker\<close> is a \<open>ValueError\<close>.\<close>

definition new_marker :: "string \<Rightarrow> mark list res" where
  "new_marker s = (case parse_string (MARKER (Suc (length (expandtabs 0 s)))) s of
     None \<Rightarrow> Inl ValueError | Some ts \<Rightarrow> Inr ts)"

section \<open>Printing\<close>

definition serialize :: "mark \<Rightarrow> string res" where
  "serialize m = (case m of Value v \<Rightarrow> Inr (CHR 0x22 # v @ [CHR 0x22]) | _ \<Rightarrow> node_str m)"

fun serialize_all :: "mark list \<Rightarrow> string list res" where
  "serialize_all [] = Inr []"
| "serialize_all (m # ms) = bindR (serialize m) (\<lambda>w. bindR (serialize_all ms) (\<lambda>ws. Inr (w # ws)))"

fun is_group :: "mark \<Rightarrow> bool" where
  "is_group (Tuple _) = True"
| "is_group (Nested _) = True"
| "is_group _ = False"

text \<open>A list of one list or tuple is printed as that, in the place of the outermost list.\<close>

fun format_marker :: "bool \<Rightarrow> mark \<Rightarrow> string res"
  and format_inner :: "mark list \<Rightarrow> string list res" where
  "format_marker b (Nested ms) =
     (case ms of
        [m] \<Rightarrow> if is_group m then format_marker True m
               else bindR (format_inner [m]) (\<lambda>ws. Inr (if b then join_with '' '' ws else ''('' @ join_with '' '' ws @ '')''))
      | _ \<Rightarrow> bindR (format_inner ms) (\<lambda>ws. Inr (if b then join_with '' '' ws else ''('' @ join_with '' '' ws @ '')'')))"
| "format_marker b (Tuple ms) = bindR (serialize_all ms) (\<lambda>ws. Inr (join_with '' '' ws))"
| "format_marker b (Text w) = Inr w"
| "format_marker b (Variable _) = Inl AssertionError"
| "format_marker b (Value _) = Inl AssertionError"
| "format_marker b (Op _) = Inl AssertionError"
| "format_inner [] = Inr []"
| "format_inner (m # ms) = bindR (format_marker False m) (\<lambda>w. bindR (format_inner ms) (\<lambda>ws. Inr (w # ws)))"

definition marker_str :: "mark list \<Rightarrow> string res" where
  "marker_str ms = format_marker True (Nested ms)"

section \<open>Evaluation\<close>

definition text_in :: "string \<Rightarrow> string \<Rightarrow> bool" where
  "text_in s t \<longleftrightarrow> list_ex (prefix s) (suffixes t)"

text \<open>
  \<open>_eval_op\<close>: a version comparison where the operator and the right side make a specifier, otherwise one of texts.
  \<open>UndefinedComparison\<close> and \<open>UndefinedEnvironmentName\<close> are \<open>ValueError\<close>s.
\<close>

definition text_operator :: "string \<Rightarrow> (string \<Rightarrow> string \<Rightarrow> bool) option" where
  "text_operator op =
     (if op = ''in'' then Some text_in
      else if op = ''not in'' then Some (\<lambda>a b. \<not> text_in a b)
      else if op = ''<'' then Some (\<lambda>a b. a < b)
      else if op = ''<='' then Some (\<lambda>a b. a \<le> b)
      else if op = ''=='' then Some (\<lambda>a b. a = b)
      else if op = ''!='' then Some (\<lambda>a b. a \<noteq> b)
      else if op = ''>='' then Some (\<lambda>a b. b \<le> a)
      else if op = ''>'' then Some (\<lambda>a b. b < a)
      else None)"

definition eval_op :: "string option \<Rightarrow> string \<Rightarrow> string option \<Rightarrow> bool res" where
  "eval_op lhs op rhs = (case rhs of None \<Rightarrow> Inl TypeError
   | Some r \<Rightarrow> (case new_specifier (op @ r) None of
       Inr sp \<Rightarrow> (case lhs of None \<Rightarrow> Inl TypeError | Some l \<Rightarrow> spec_contains sp (ItemText l) None)
     | Inl _ \<Rightarrow> (case text_operator op of None \<Rightarrow> Inl ValueError
         | Some f \<Rightarrow> (case lhs of Some l \<Rightarrow> Inr (f l r)
             | None \<Rightarrow> if op = ''=='' then Inr False else if op = ''!='' then Inr True else Inl TypeError))))"

definition get_env :: "(string, string option) dict \<Rightarrow> string \<Rightarrow> string option res" where
  "get_env env name = (case dget env name of None \<Rightarrow> Inl ValueError | Some v \<Rightarrow> Inr v)"

definition eval_item :: "(string, string option) dict \<Rightarrow> mark \<Rightarrow> mark \<Rightarrow> mark \<Rightarrow> bool res" where
  "eval_item env lhs op rhs =
     bindR (if (case lhs of Variable _ \<Rightarrow> True | _ \<Rightarrow> False)
       then bindR (node_str lhs) (\<lambda>l. bindR (get_env env l) (\<lambda>l'. bindR (node_str rhs) (\<lambda>r. Inr (l', Some r))))
       else bindR (node_str lhs) (\<lambda>l. bindR (node_str rhs) (\<lambda>r. bindR (get_env env r) (\<lambda>r'. Inr (Some l, r')))))
     (\<lambda>(l, r). bindR (node_str op) (\<lambda>w. eval_op l w r))"

definition add_result :: "bool \<Rightarrow> bool list list \<Rightarrow> bool list list" where
  "add_result b gs = butlast gs @ [last gs @ [b]]"

definition any_group :: "bool list list \<Rightarrow> bool" where
  "any_group gs \<longleftrightarrow> list_ex (list_all (\<lambda>b. b)) gs"

text \<open>The groups are joined by \<open>or\<close>, the results within one by \<open>and\<close>. Every item is evaluated.\<close>

fun eval_step :: "(string, string option) dict \<Rightarrow> mark \<Rightarrow> bool list list \<Rightarrow> bool list list res"
  and eval_list :: "(string, string option) dict \<Rightarrow> mark list \<Rightarrow> bool list list \<Rightarrow> bool list list res" where
  "eval_step env (Nested ms) gs = bindR (eval_list env ms [[]]) (\<lambda>g. Inr (add_result (any_group g) gs))"
| "eval_step env (Tuple ms) gs = (case ms of
     [lhs, op, rhs] \<Rightarrow> bindR (eval_item env lhs op rhs) (\<lambda>b. Inr (add_result b gs))
   | _ \<Rightarrow> Inl ValueError)"
| "eval_step env (Text w) gs =
     (if w = ''and'' then Inr gs else if w = ''or'' then Inr (gs @ [[]]) else Inl AssertionError)"
| "eval_step env (Variable _) gs = Inl AssertionError"
| "eval_step env (Value _) gs = Inl AssertionError"
| "eval_step env (Op _) gs = Inl AssertionError"
| "eval_list env [] gs = Inr gs"
| "eval_list env (m # ms) gs = bindR (eval_step env m gs) (eval_list env ms)"

definition evaluate_markers :: "mark list \<Rightarrow> (string, string option) dict \<Rightarrow> bool res" where
  "evaluate_markers ms env = bindR (eval_list env ms [[]]) (\<lambda>g. Inr (any_group g))"

section \<open>The environment\<close>

text \<open>What is asked of the interpreter and the platform.\<close>

record version_info =
  vi_major :: int
  vi_minor :: int
  vi_micro :: int
  vi_releaselevel :: string
  vi_serial :: int

definition format_full_version :: "version_info \<Rightarrow> string" where
  "format_full_version i =
     str_of_int (vi_major i) @ ''.'' @ str_of_int (vi_minor i) @ ''.'' @ str_of_int (vi_micro i)
     @ (if vi_releaselevel i \<noteq> ''final'' then take 1 (vi_releaselevel i) @ str_of_int (vi_serial i) else [])"

record interpreter =
  in_implementation :: "(string \<times> version_info) option"
  in_os_name :: string
  in_machine :: string
  in_release :: string
  in_system :: string
  in_version :: string
  in_python_version :: string
  in_implementation_name :: string
  in_version_tuple :: "string list"
  in_platform :: string

definition default_environment :: "interpreter \<Rightarrow> (string, string) dict" where
  "default_environment p =
     (let (name, iver) = (case in_implementation p of Some (n, v) \<Rightarrow> (n, format_full_version v) | None \<Rightarrow> ([], ''0''))
      in [(''implementation_name'', name), (''implementation_version'', iver), (''os_name'', in_os_name p),
          (''platform_machine'', in_machine p), (''platform_release'', in_release p), (''platform_system'', in_system p),
          (''platform_version'', in_version p), (''python_full_version'', in_python_version p),
          (''platform_python_implementation'', in_implementation_name p),
          (''python_version'', join_with ''.'' (take 2 (in_version_tuple p))), (''sys_platform'', in_platform p)])"

definition env_update :: "(string, string option) dict \<Rightarrow> (string, string option) dict \<Rightarrow> (string, string option) dict" where
  "env_update d e = fold (\<lambda>(k, v). dset k v) e d"

definition marker_evaluate :: "interpreter \<Rightarrow> mark list \<Rightarrow> (string, string option) dict option \<Rightarrow> bool res" where
  "marker_evaluate p ms env = evaluate_markers ms
     (let d = map (\<lambda>(k, v). (k, Some v)) (default_environment p)
      in case env of None \<Rightarrow> d | Some e \<Rightarrow> env_update d e)"

end
