(* ===== verification/PkgRequirements.thy ===== *)
theory PkgRequirements
  imports PkgMarkers
begin

text \<open>
  Requirements: \<open>pkg_resources/_vendor/packaging/requirements.py\<close>, and of \<open>pkg_resources/__init__.py\<close> the helpers for
  names and lines, \<open>parse_requirements\<close>, \<open>Requirement\<close> and \<open>split_sections\<close>. A set of extras is a list without
  repetitions, in one of its possible orders.
\<close>

section \<open>The grammar\<close>

text \<open>The tokens: the named results.\<close>

datatype rtok = TName string | TExtra string | TUrl string | TSpec string | TMarker string

definition mute :: "string \<Rightarrow> 'a parser" where
  "mute w = suppress (skipping (literal_impl w))"

definition ALPHANUM :: "string parser" where
  "ALPHANUM = word_impl alnum"

definition PUNCTUATION :: "string parser" where
  "PUNCTUATION = word_impl (\<lambda>c. c \<in> set ''-_.'')"

definition IDENTIFIER_END :: "string parser" where
  "IDENTIFIER_END = match_first [ALPHANUM, and_parse [zero_or_more PUNCTUATION, ALPHANUM]]"

definition IDENTIFIER :: "string parser" where
  "IDENTIFIER = skipping (combine [] (and_parse [ALPHANUM, zero_or_more IDENTIFIER_END]))"

definition NAME :: "rtok parser" where
  "NAME = with_action (map TName) IDENTIFIER"

definition EXTRA :: "rtok parser" where
  "EXTRA = with_action (map TExtra) IDENTIFIER"

definition URL :: "rtok parser" where
  "URL = and_parse [mute ''@'', with_action (map TUrl) (skipping (regex_impl (Plus (Chr (\<lambda>c. c \<noteq> CHR '' '')))))]"

definition EXTRAS_LIST :: "rtok parser" where
  "EXTRAS_LIST = and_parse [EXTRA, zero_or_more (and_parse [mute '','', EXTRA])]"

definition EXTRAS :: "rtok parser" where
  "EXTRAS = and_parse [mute ''['', optional EXTRAS_LIST, mute '']'']"

text \<open>\<open>Specifier._regex_str\<close> and \<open>LegacySpecifier._regex_str\<close>, here without the anchors of \<open>_regex\<close>.\<close>

definition specifier_regex_str :: rx where
  "specifier_regex_str = seqs [
     Group ''operator'' (alts [lit ''~='', lit ''=='', lit ''!='', lit ''<='', lit ''>='', lit ''<'', lit ''>'', lit ''==='']),
     Group ''version'' (alts [
       Seq (Behind [''==='']) identity_text,
       Seq (Behind [''=='', ''!='']) equal_text,
       Seq (Behind [''~='']) compatible_text,
       Seq (NotBehind [''=='', ''!='', ''~='']) ordered_text])]"

definition legacy_regex_str :: rx where
  "legacy_regex_str = seqs [
     Group ''operator'' (alts [lit ''=='', lit ''!='', lit ''<='', lit ''>='', lit ''<'', lit ''>'']),
     Star Space,
     Group ''version'' (Star (Chr (\<lambda>x. x \<noteq> CHR '','' \<and> x \<noteq> CHR '';'' \<and> \<not> strip_ws x \<and> x \<noteq> CHR '')'')))]"

definition VERSION_ONE :: "string parser" where
  "VERSION_ONE = longest [skipping (regex_impl specifier_regex_str), skipping (regex_impl legacy_regex_str)]"

definition VERSION_MANY :: "string parser" where
  "VERSION_MANY = combine '','' (and_parse [VERSION_ONE, zero_or_more (and_parse [mute '','', VERSION_ONE])])"

definition VERSION_SPEC :: "rtok parser" where
  "VERSION_SPEC = with_action (\<lambda>ts. [TSpec (case ts of w # _ \<Rightarrow> w | [] \<Rightarrow> [])])
     (and_parse [skipping string_start, optional (match_first [and_parse [mute ''('', VERSION_MANY, mute '')''], VERSION_MANY])])"

text \<open>\<open>originalTextFor\<close>: the text an expression takes, without the white space before it.\<close>

definition original_text :: "'a parser \<Rightarrow> string parser" where
  "original_text p s = (let t = pre_parse s in case p t of None \<Rightarrow> None | Some (_, s') \<Rightarrow> Some ([eaten t s'], s'))"

definition SEPARATED_MARKER :: "nat \<Rightarrow> rtok parser" where
  "SEPARATED_MARKER n = and_parse [mute '';'', with_action (map TMarker) (original_text (MARKER_EXPR n))]"

definition NAMED_REQUIREMENT :: "nat \<Rightarrow> rtok parser" where
  "NAMED_REQUIREMENT n = and_parse [NAME, optional EXTRAS,
     match_first [and_parse [URL, optional (SEPARATED_MARKER n)], and_parse [VERSION_SPEC, optional (SEPARATED_MARKER n)]]]"

definition REQUIREMENT :: "nat \<Rightarrow> rtok parser" where
  "REQUIREMENT n = and_parse [skipping string_start, NAMED_REQUIREMENT n, skipping string_end]"

section \<open>URLs\<close>

text \<open>\<open>urllib.parse.urlsplit\<close> and \<open>urlunsplit\<close>, which for the scheme \<open>file\<close> are \<open>urlparse\<close> and \<open>urlunparse\<close>.\<close>

record url_parts =
  u_scheme :: string
  u_netloc :: string
  u_path :: string
  u_query :: string
  u_fragment :: string

definition cut :: "char \<Rightarrow> string \<Rightarrow> string \<times> string" where
  "cut c s = (takeWhile (\<lambda>x. x \<noteq> c) s, drop 1 (dropWhile (\<lambda>x. x \<noteq> c) s))"

definition split_scheme :: "string \<Rightarrow> string \<times> string" where
  "split_scheme s = (let (a, b) = cut CHR '':'' s
     in if CHR '':'' \<in> set s \<and> a \<noteq> [] \<and> list_all (\<lambda>c. alnum c \<or> c \<in> set ''+-.'') a then (lower a, b) else ([], s))"

definition urlsplit :: "string \<Rightarrow> url_parts res" where
  "urlsplit s =
     (let s0 = filter (\<lambda>c. c \<notin> set [CHR 0x09, CHR 0x0A, CHR 0x0D]) s;
          (scheme, s1) = split_scheme s0;
          inner = (\<lambda>c. c \<notin> set ''/?#'');
          (netloc, s2) = (if prefix ''//'' s1 then (takeWhile inner (drop 2 s1), dropWhile inner (drop 2 s1)) else ([], s1));
          (s3, fragment) = cut CHR ''#'' s2;
          (path, query) = cut CHR ''?'' s3
      in if (CHR ''['' \<in> set netloc) \<noteq> (CHR '']'' \<in> set netloc) then Inl ValueError
         else Inr \<lparr>u_scheme = scheme, u_netloc = netloc, u_path = path, u_query = query, u_fragment = fragment\<rparr>)"

definition unsplit_file :: "url_parts \<Rightarrow> string" where
  "unsplit_file u =
     (let url = (if u_netloc u \<noteq> [] \<or> \<not> prefix ''//'' (u_path u)
          then ''//'' @ u_netloc u @ (if u_path u \<noteq> [] \<and> \<not> prefix ''/'' (u_path u) then ''/'' @ u_path u else u_path u)
          else u_path u)
      in u_scheme u @ '':'' @ url @ (if u_query u \<noteq> [] then ''?'' @ u_query u else [])
         @ (if u_fragment u \<noteq> [] then ''#'' @ u_fragment u else []))"

definition check_url :: "string \<Rightarrow> unit res" where
  "check_url url = bindR (urlsplit url) (\<lambda>u.
     if u_scheme u = ''file'' then guardR (unsplit_file u = url) ValueError
     else guardR (u_scheme u \<noteq> [] \<and> u_netloc u \<noteq> []) ValueError)"

section \<open>Requirements of packaging\<close>

record base_requirement =
  rq_name :: string
  rq_url :: "string option"
  rq_extras :: "string list"
  rq_specifier :: specifier_set
  rq_marker :: "mark list option"

text \<open>The last result of a name; \<open>''''\<close> where there is none.\<close>

definition named :: "(rtok \<Rightarrow> string list) \<Rightarrow> rtok list \<Rightarrow> string" where
  "named f ts = last ([] # concat (map f ts))"

definition tok_name :: "rtok \<Rightarrow> string list" where
  "tok_name t = (case t of TName w \<Rightarrow> [w] | _ \<Rightarrow> [])"

definition tok_url :: "rtok \<Rightarrow> string list" where
  "tok_url t = (case t of TUrl w \<Rightarrow> [w] | _ \<Rightarrow> [])"

definition tok_extra :: "rtok \<Rightarrow> string list" where
  "tok_extra t = (case t of TExtra w \<Rightarrow> [w] | _ \<Rightarrow> [])"

definition tok_spec :: "rtok \<Rightarrow> string list" where
  "tok_spec t = (case t of TSpec w \<Rightarrow> [w] | _ \<Rightarrow> [])"

definition tok_marker :: "rtok \<Rightarrow> string list" where
  "tok_marker t = (case t of TMarker w \<Rightarrow> [w] | _ \<Rightarrow> [])"

text \<open>
  \<open>set(extras)\<close>: the members without repetitions. The set has no order; the model lists it in the order of the first
  occurrences, which is one of those that Python may list it in, and the properties speak of the members only.
\<close>

definition set_of :: "'a list \<Rightarrow> 'a list" where
  "set_of xs = fold (\<lambda>x acc. if x \<in> set acc then acc else acc @ [x]) xs []"

text \<open>\<open>Requirement(s)\<close>; \<open>InvalidRequirement\<close>, \<open>InvalidSpecifier\<close> and \<open>InvalidMarker\<close> are \<open>ValueError\<close>s.\<close>

definition new_base_requirement :: "string \<Rightarrow> base_requirement res" where
  "new_base_requirement s = (case parse_string (REQUIREMENT (Suc (length (expandtabs 0 s)))) s of
     None \<Rightarrow> Inl ValueError
   | Some ts \<Rightarrow> bindR (case concat (map tok_marker ts) of [] \<Rightarrow> Inr None | m # _ \<Rightarrow> bindR (new_marker m) (\<lambda>ms. Inr (Some ms)))
       (\<lambda>marker. bindR (if named tok_url ts \<noteq> [] then bindR (check_url (named tok_url ts)) (\<lambda>_. Inr (Some (named tok_url ts)))
           else Inr None)
       (\<lambda>url. bindR (new_specifier_set (named tok_spec ts) None)
       (\<lambda>specs. Inr \<lparr>rq_name = named tok_name ts, rq_url = url, rq_extras = set_of (concat (map tok_extra ts)),
           rq_specifier = specs, rq_marker = marker\<rparr>))))"

definition base_requirement_str :: "'a base_requirement_scheme \<Rightarrow> string res" where
  "base_requirement_str r =
     bindR (case rq_marker r of None \<Rightarrow> Inr [] | Some ms \<Rightarrow> bindR (marker_str ms) (\<lambda>w. Inr (''; '' @ w))) (\<lambda>m.
       Inr (rq_name r
         @ (if rq_extras r \<noteq> [] then ''['' @ join_with '','' (sort (rq_extras r)) @ '']'' else [])
         @ (if ss_specs (rq_specifier r) \<noteq> [] then set_str (rq_specifier r) else [])
         @ (case rq_url r of None \<Rightarrow> [] | Some u \<Rightarrow> ''@ '' @ u @ (if rq_marker r \<noteq> None then '' '' else []))
         @ m))"

section \<open>Names and lines\<close>

definition safe_name :: "string \<Rightarrow> string" where
  "safe_name s = re_sub (Plus (Chr (\<lambda>c. \<not> (alnum c \<or> c = CHR ''.'')))) ''-'' s"

definition safe_version :: "string \<Rightarrow> string" where
  "safe_version s = (case pep_version s of Inr v \<Rightarrow> pep_str v | Inl _ \<Rightarrow> safe_name (replace_all '' '' ''.'' s))"

definition safe_extra :: "string \<Rightarrow> string" where
  "safe_extra s = lower (re_sub (Plus (Chr (\<lambda>c. \<not> (alnum c \<or> c \<in> set ''.-'')))) ''_'' s)"

definition to_filename :: "string \<Rightarrow> string" where
  "to_filename s = replace_all ''-'' ''_'' s"

text \<open>\<open>str.splitlines()\<close>; a carriage return and the line feed after it are one break.\<close>

definition is_break :: "char \<Rightarrow> bool" where
  "is_break c \<longleftrightarrow> of_char c \<in> {10, 11, 12, 13, 28, 29, 30 :: nat}"

definition after_break :: "char \<Rightarrow> string \<Rightarrow> string" where
  "after_break c s = (if c = CHR 0x0D \<and> prefix [CHR 0x0A] s then tl s else s)"

function splitlines :: "string \<Rightarrow> string list" where
  "splitlines s = (if s = [] then [] else takeWhile (\<lambda>c. \<not> is_break c) s #
     (case dropWhile (\<lambda>c. \<not> is_break c) s of [] \<Rightarrow> [] | c # t \<Rightarrow> splitlines (after_break c t)))"
  by pat_completeness auto
termination
proof (relation "measure length")
  fix s c t
  assume "dropWhile (\<lambda>c. \<not> is_break c) s = c # t"
  then have "length (c # t) \<le> length s" using length_dropWhile_le [of "\<lambda>c. \<not> is_break c" s] by simp
  then show "(after_break c t, s) \<in> measure length" by (auto simp: after_break_def intro: le_less_trans [OF diff_le_self])
qed simp

declare splitlines.simps [simp del]

text \<open>A text, or a sequence of such.\<close>

datatype strs = Str string | Strs "strs list"

primrec yield_lines :: "strs \<Rightarrow> string list" where
  "yield_lines (Str s) = filter (\<lambda>l. l \<noteq> [] \<and> \<not> prefix ''#'' l) (map strip (splitlines s))"
| "yield_lines (Strs ss) = concat (map yield_lines ss)"

fun drop_comment :: "string \<Rightarrow> string" where
  "drop_comment [] = []"
| "drop_comment (c # s) = (if prefix '' #'' (c # s) then [] else c # drop_comment s)"

fun requirement_lines :: "string list \<Rightarrow> string list" where
  "requirement_lines [] = []"
| "requirement_lines (l # ls) =
     (let l' = drop_comment l
      in if suffix [CHR 0x5C] l' then (case ls of [] \<Rightarrow> []
           | m # ms \<Rightarrow> (strip (take (length l' - 2) l') @ m) # requirement_lines ms)
         else l' # requirement_lines ls)"

section \<open>Requirements of pkg_resources\<close>

record requirement = base_requirement +
  rq_unsafe_name :: string
  rq_project_name :: string
  rq_key :: string

definition new_requirement :: "string \<Rightarrow> requirement res" where
  "new_requirement s = bindR (new_base_requirement s) (\<lambda>b.
     bindR (case rq_marker b of None \<Rightarrow> Inr [] | Some ms \<Rightarrow> marker_str ms) (\<lambda>_.
       Inr (base_requirement.extend (b \<lparr>rq_extras := map safe_extra (rq_extras b)\<rparr>)
         (requirement.fields (rq_name b) (safe_name (rq_name b)) (lower (safe_name (rq_name b)))))))"

definition specs :: "requirement \<Rightarrow> (string \<times> string) list" where
  "specs r = map (\<lambda>sp. (sp_operator sp, sp_version sp)) (ss_specs (rq_specifier r))"

text \<open>\<open>__eq__\<close> compares the fields of \<open>hashCmp\<close>.\<close>

definition req_eq :: "requirement \<Rightarrow> requirement \<Rightarrow> bool" where
  "req_eq r q \<longleftrightarrow> rq_key r = rq_key q \<and> rq_url r = rq_url q \<and> set_eq (rq_specifier r) (rq_specifier q)
     \<and> set (rq_extras r) = set (rq_extras q) \<and> map_option marker_str (rq_marker r) = map_option marker_str (rq_marker q)"

definition contains_version :: "requirement \<Rightarrow> string \<Rightarrow> bool res" where
  "contains_version r v = set_contains (rq_specifier r) (ItemText v) (Some True)"

definition parse_requirements :: "strs \<Rightarrow> requirement list res" where
  "parse_requirements ss = map_res new_requirement (requirement_lines (yield_lines ss))"

text \<open>\<open>Requirement.parse\<close> unpacks one; another number is a \<open>ValueError\<close>, as is everything that parsing raises.\<close>

definition parse_requirement :: "string \<Rightarrow> requirement res" where
  "parse_requirement s = bindR (parse_requirements (Str s)) (\<lambda>rs. case rs of [r] \<Rightarrow> Inr r | _ \<Rightarrow> Inl ValueError)"

section \<open>Sections\<close>

fun sections :: "string option \<Rightarrow> string list \<Rightarrow> string list \<Rightarrow> (string option \<times> string list) list res" where
  "sections section content [] = Inr [(section, content)]"
| "sections section content (l # ls) =
     (if prefix ''['' l
      then if suffix '']'' l
        then bindR (sections (Some (strip (butlast (tl l)))) [] ls) (\<lambda>r.
          Inr (if (section \<noteq> None \<and> section \<noteq> Some []) \<or> content \<noteq> [] then (section, content) # r else r))
        else Inl ValueError
      else sections section (content @ [l]) ls)"

definition split_sections :: "strs \<Rightarrow> (string option \<times> string list) list res" where
  "split_sections ss = sections None [] (yield_lines ss)"

end
