(* ===== verification/PkgDistributions.thy ===== *)
theory PkgDistributions
  imports PkgRequirements "HOL-Library.Product_Lexorder"
begin

text \<open>
  \<open>Distribution\<close>, \<open>EggInfoDistribution\<close> and \<open>DistInfoDistribution\<close> of \<open>pkg_resources/__init__.py\<close>, what
  distributions require and the compatibility of platforms. The metadata of a distribution is a dictionary from file names to texts, in the place of its provider;
  a distribution has a location. What is cached is computed again.
\<close>

section \<open>Distributions\<close>

datatype dist_kind = EggDist | EggInfoDist | DistInfoDist

record dist =
  d_kind :: dist_kind
  d_project_name :: string
  d_given_version :: "string option"
  d_py_version :: "string option"
  d_platform :: "string option"
  d_location :: string
  d_precedence :: int
  d_metadata :: "(string, string) dict"

definition EGG_DIST :: int where "EGG_DIST = 3"

definition or_empty :: "string option \<Rightarrow> string" where
  "or_empty s = (case s of None \<Rightarrow> [] | Some w \<Rightarrow> w)"

definition new_distribution :: "dist_kind \<Rightarrow> string \<Rightarrow> (string, string) dict \<Rightarrow> string option \<Rightarrow> string option
    \<Rightarrow> string option \<Rightarrow> string option \<Rightarrow> int \<Rightarrow> dist" where
  "new_distribution kind location metadata project_name version py_version platform precedence =
     \<lparr>d_kind = kind, d_project_name = safe_name (if or_empty project_name = [] then ''Unknown'' else or_empty project_name),
      d_given_version = map_option safe_version version, d_py_version = py_version, d_platform = platform,
      d_location = location, d_precedence = precedence, d_metadata = metadata\<rparr>"

definition d_key :: "dist \<Rightarrow> string" where
  "d_key d = lower (d_project_name d)"

text \<open>\<open>_get_metadata\<close>: the lines of a file, none if it is not there.\<close>

definition get_metadata :: "dist \<Rightarrow> string \<Rightarrow> string list" where
  "get_metadata d name = (case dget (d_metadata d) name of None \<Rightarrow> [] | Some t \<Rightarrow> yield_lines (Str t))"

definition PKG_INFO :: "dist \<Rightarrow> string" where
  "PKG_INFO d = (if d_kind d = DistInfoDist then ''METADATA'' else ''PKG-INFO'')"

definition version_from_file :: "string list \<Rightarrow> string option" where
  "version_from_file ls =
     (let line = (case filter (\<lambda>l. prefix ''version:'' (lower l)) ls of [] \<Rightarrow> [] | l # _ \<Rightarrow> l);
          v = safe_version (strip (snd (cut CHR '':'' line)))
      in if v = [] then None else Some v)"

definition dist_version :: "dist \<Rightarrow> string res" where
  "dist_version d = (case d_given_version d of Some v \<Rightarrow> Inr v
   | None \<Rightarrow> (case version_from_file (get_metadata d (PKG_INFO d)) of None \<Rightarrow> Inl ValueError | Some v \<Rightarrow> Inr v))"

definition has_version :: "dist \<Rightarrow> bool" where
  "has_version d \<longleftrightarrow> is_ok (dist_version d)"

definition parsed_version :: "dist \<Rightarrow> any_version res" where
  "parsed_version d = bindR (dist_version d) (\<lambda>v. Inr (pkg_parse v))"

text \<open>\<open>from_location\<close> with the class by the extension of the name, and \<open>_reload_version\<close>.\<close>

definition splitext :: "string \<Rightarrow> string \<times> string" where
  "splitext s =
     (let ext = rev (takeWhile (\<lambda>c. c \<noteq> CHR ''.'') (rev s)); base = rev (drop 1 (dropWhile (\<lambda>c. c \<noteq> CHR ''.'') (rev s)))
      in if CHR ''.'' \<notin> set s \<or> CHR ''/'' \<in> set ext \<or> list_all (\<lambda>c. c = CHR ''.'') (path_tail base) then (s, [])
         else (base, CHR ''.'' # ext))"

definition no_dash :: rx where "no_dash = Plus (Chr (\<lambda>c. c \<noteq> CHR ''-''))"

definition EGG_NAME :: rx where
  "EGG_NAME = seqs [Group ''name'' no_dash, Opt (seqs [lit ''-'', Group ''ver'' no_dash,
     Opt (seqs [lit ''-py'', Group ''pyver'' no_dash,
       Opt (seqs [lit ''-'', Group ''plat'' (Plus (Chr (\<lambda>c. c \<noteq> CHR 0x0A)))])])])]"

definition distributionImpl :: "string \<Rightarrow> dist_kind option" where
  "distributionImpl ext = (if ext = ''.egg'' then Some EggDist else if ext = ''.egg-info'' then Some EggInfoDist
     else if ext = ''.dist-info'' then Some DistInfoDist else None)"

definition reload_version :: "dist \<Rightarrow> dist" where
  "reload_version d = (if d_kind d = EggInfoDist
     then (case version_from_file (get_metadata d (PKG_INFO d)) of None \<Rightarrow> d | Some v \<Rightarrow> d \<lparr>d_given_version := Some v\<rparr>)
     else d)"

definition from_location :: "string \<Rightarrow> string \<Rightarrow> (string, string) dict \<Rightarrow> int \<Rightarrow> dist" where
  "from_location location basename metadata precedence =
     (let (base, ext) = splitext basename;
          g = (if distributionImpl (lower ext) = None then [] else case re_match EGG_NAME base of None \<Rightarrow> [] | Some g \<Rightarrow> g);
          kind = (case distributionImpl (lower ext) of None \<Rightarrow> EggDist | Some k \<Rightarrow> k)
      in reload_version (new_distribution kind location metadata (dget g ''name'') (dget g ''ver'') (dget g ''pyver'')
           (dget g ''plat'') precedence))"

text \<open>
  \<open>hashcmp\<close> and the comparisons. \<open>==\<close> asks a subclass first, so distributions of different classes are not equal.
  Tuples compare their first elements that are not equal.
\<close>

type_synonym hash = "any_version \<times> int \<times> string \<times> string \<times> string \<times> string"

definition hashcmp :: "dist \<Rightarrow> hash res" where
  "hashcmp d = bindR (parsed_version d) (\<lambda>v.
     Inr (v, d_precedence d, d_key d, d_location d, or_empty (d_py_version d), or_empty (d_platform d)))"

definition hash_eq :: "hash \<Rightarrow> hash \<Rightarrow> bool" where
  "hash_eq x y \<longleftrightarrow> av_eq (fst x) (fst y) \<and> snd x = snd y"

definition hash_less :: "hash \<Rightarrow> hash \<Rightarrow> bool res" where
  "hash_less x y = (if av_eq (fst x) (fst y) then Inr (snd x < snd y) else av_cmp Lt (fst x) (fst y))"

definition dist_eq :: "dist \<Rightarrow> dist \<Rightarrow> bool res" where
  "dist_eq d e = (if d_kind d \<noteq> d_kind e then Inr False
     else bindR (hashcmp d) (\<lambda>x. bindR (hashcmp e) (\<lambda>y. Inr (hash_eq x y))))"

definition dist_less :: "dist \<Rightarrow> dist \<Rightarrow> bool res" where
  "dist_less d e = bindR (hashcmp d) (\<lambda>x. bindR (hashcmp e) (\<lambda>y. hash_less x y))"

definition dist_str :: "dist \<Rightarrow> string" where
  "dist_str d = d_project_name d @ '' '' @ (case dist_version d of
     Inr v \<Rightarrow> if v = [] then ''[unknown version]'' else v | Inl _ \<Rightarrow> ''[unknown version]'')"

text \<open>\<open>dist in requirement\<close>.\<close>

definition dist_in :: "requirement \<Rightarrow> dist \<Rightarrow> bool res" where
  "dist_in r d = (if d_key d \<noteq> rq_key r then Inr False else bindR (dist_version d) (contains_version r))"

definition as_requirement :: "dist \<Rightarrow> requirement res" where
  "as_requirement d = bindR (parsed_version d) (\<lambda>v. parse_requirement (d_project_name d
     @ (case v of Version _ \<Rightarrow> ''=='' | LegacyVersion _ \<Rightarrow> ''==='') @ av_str v))"

definition egg_name :: "string \<Rightarrow> dist \<Rightarrow> string res" where
  "egg_name py_major d = bindR (dist_version d) (\<lambda>v.
     Inr (to_filename (d_project_name d) @ ''-'' @ to_filename v @ ''-py''
       @ (if or_empty (d_py_version d) = [] then py_major else or_empty (d_py_version d))
       @ (if or_empty (d_platform d) = [] then [] else ''-'' @ or_empty (d_platform d))))"

section \<open>What a distribution requires\<close>

text \<open>
  The exceptions of the resolution, apart from those of Python: \<open>VersionConflict\<close> with the projects that required the
  requirement (the context), \<open>DistributionNotFound\<close> with the requirers, \<open>UnknownExtra\<close>.
\<close>

datatype failure =
    VersionConflict dist requirement "string list"
  | DistributionNotFound requirement "string list"
  | UnknownExtra dist string
  | Raised py_error

definition lift :: "'a res \<Rightarrow> failure + 'a" where
  "lift r = (case r of Inl e \<Rightarrow> Inl (Raised e) | Inr x \<Rightarrow> Inr x)"

text \<open>A list of a dictionary that is extended, and created for that if it is not there.\<close>

definition extend_at :: "'k \<Rightarrow> 'v list \<Rightarrow> ('k, 'v list) dict \<Rightarrow> ('k, 'v list) dict" where
  "extend_at k vs d = dset k ((case dget d k of None \<Rightarrow> [] | Some us \<Rightarrow> us) @ vs) d"

type_synonym dep_map = "(string option, requirement list) dict"

fun build_sections :: "(string option \<times> string list) list \<Rightarrow> dep_map \<Rightarrow> dep_map res" where
  "build_sections [] dm = Inr dm"
| "build_sections ((extra, ls) # ss) dm =
     bindR (parse_requirements (Strs (map Str ls))) (\<lambda>rs. build_sections ss (extend_at extra rs dm))"

definition build_dep_map :: "dist \<Rightarrow> dep_map res" where
  "build_dep_map d =
     bindR (split_sections (Strs (map Str (get_metadata d ''requires.txt'')))) (\<lambda>ss. bindR (build_sections ss []) (\<lambda>dm.
     bindR (split_sections (Strs (map Str (get_metadata d ''depends.txt'')))) (\<lambda>ss'. build_sections ss' dm)))"

text \<open>\<open>invalid_marker(m) or not evaluate_marker(m)\<close>: a marker that does not parse fails, others may raise.\<close>

definition fails_marker :: "interpreter \<Rightarrow> string \<Rightarrow> bool res" where
  "fails_marker p m = (if m = [] then Inr False else case new_marker m of
     Inl _ \<Rightarrow> Inr True | Inr ms \<Rightarrow> bindR (marker_evaluate p ms None) (\<lambda>b. Inr (\<not> b)))"

fun filter_extra_list :: "interpreter \<Rightarrow> string list \<Rightarrow> dep_map \<Rightarrow> dep_map res" where
  "filter_extra_list p [] dm = Inr dm"
| "filter_extra_list p (extra # es) dm =
     (let reqs = (case dget dm (Some extra) of None \<Rightarrow> [] | Some rs \<Rightarrow> rs);
          (name, marker) = cut CHR '':'' extra
      in bindR (fails_marker p marker) (\<lambda>fails.
           filter_extra_list p es (extend_at (if safe_extra name = [] then None else Some (safe_extra name))
             (if fails then [] else reqs) (ddel (Some extra) dm))))"

definition filter_extras :: "interpreter \<Rightarrow> dep_map \<Rightarrow> dep_map res" where
  "filter_extras p dm = filter_extra_list p [e. Some e \<leftarrow> dkeys dm, e \<noteq> []] dm"

text \<open>
  \<open>email.parser\<close>: the headers are the lines up to the first one that is no header. A line that begins with white space
  belongs to the header before it.
\<close>

definition header_line :: "string \<Rightarrow> bool" where
  "header_line l \<longleftrightarrow> l \<noteq> [] \<and> (hd l \<in> set [CHR '' '', CHR 0x09] \<or> CHR '':'' \<in> set l
     \<and> list_all (\<lambda>c. 33 \<le> (of_char c :: nat) \<and> (of_char c :: nat) \<le> 126) (fst (cut CHR '':'' l)))"

fun fold_headers :: "string list \<Rightarrow> (string \<times> string) list \<Rightarrow> (string \<times> string) list" where
  "fold_headers [] hs = hs"
| "fold_headers (l # ls) hs =
     (if hd l \<in> set [CHR '' '', CHR 0x09]
      then fold_headers ls (if hs = [] then hs else butlast hs @ [(fst (last hs), snd (last hs) @ CHR 0x0A # l)])
      else fold_headers ls (hs @ [(fst (cut CHR '':'' l), lstrip_while (\<lambda>c. c \<in> set [CHR '' '', CHR 0x09]) (snd (cut CHR '':'' l)))]))"

definition message_lines :: "string \<Rightarrow> string list" where
  "message_lines s = split_on (CHR 0x0A) (replace_all [CHR 0x0D] [CHR 0x0A] (replace_all [CHR 0x0D, CHR 0x0A] [CHR 0x0A] s))"

definition get_all :: "dist \<Rightarrow> string \<Rightarrow> string list" where
  "get_all d name = map snd (filter (\<lambda>(k, v). lower k = lower name)
     (fold_headers (takeWhile header_line (message_lines (or_empty (dget (d_metadata d) (PKG_INFO d))))) []))"

definition req_member :: "requirement \<Rightarrow> requirement list \<Rightarrow> bool" where
  "req_member r rs \<longleftrightarrow> list_ex (\<lambda>q. req_eq q r) rs"

text \<open>\<open>frozenset(reqs_for_extra(extra))\<close>: without repetitions, in one of its possible orders.\<close>

fun reqs_for_extra :: "interpreter \<Rightarrow> string option \<Rightarrow> requirement list \<Rightarrow> requirement list \<Rightarrow> requirement list res" where
  "reqs_for_extra p extra [] acc = Inr acc"
| "reqs_for_extra p extra (r # rs) acc =
     bindR (case rq_marker r of None \<Rightarrow> Inr True | Some ms \<Rightarrow> marker_evaluate p ms (Some [(''extra'', extra)])) (\<lambda>b.
       reqs_for_extra p extra rs (if b \<and> \<not> req_member r acc then acc @ [r] else acc))"

fun provided_extras :: "interpreter \<Rightarrow> requirement list \<Rightarrow> requirement list \<Rightarrow> string list \<Rightarrow> dep_map \<Rightarrow> dep_map res" where
  "provided_extras p reqs common [] dm = Inr dm"
| "provided_extras p reqs common (e # es) dm = bindR (reqs_for_extra p (Some e) reqs []) (\<lambda>rs.
     provided_extras p reqs common es (dset (Some (safe_extra (strip e))) (filter (\<lambda>r. \<not> req_member r common) rs) dm))"

definition compute_dependencies :: "interpreter \<Rightarrow> dist \<Rightarrow> dep_map res" where
  "compute_dependencies p d =
     (if dget (d_metadata d) (PKG_INFO d) = None then Inl (OSError 2)
      else bindR (map_res (\<lambda>l. parse_requirements (Str l)) (get_all d ''Requires-Dist'')) (\<lambda>rss.
        bindR (reqs_for_extra p None (concat rss) []) (\<lambda>common.
          provided_extras p (concat rss) common (get_all d ''Provides-Extra'') [(None, common)])))"

definition get_dep_map :: "interpreter \<Rightarrow> dist \<Rightarrow> dep_map res" where
  "get_dep_map p d = (if d_kind d = DistInfoDist then compute_dependencies p d
     else bindR (build_dep_map d) (filter_extras p))"

fun extra_deps :: "dist \<Rightarrow> dep_map \<Rightarrow> string list \<Rightarrow> failure + requirement list" where
  "extra_deps d dm [] = Inr []"
| "extra_deps d dm (e # es) = (case dget dm (Some (safe_extra e)) of None \<Rightarrow> Inl (UnknownExtra d e)
   | Some rs \<Rightarrow> bindR (extra_deps d dm es) (\<lambda>qs. Inr (rs @ qs)))"

definition requires :: "interpreter \<Rightarrow> dist \<Rightarrow> string list \<Rightarrow> failure + requirement list" where
  "requires p d es = bindR (lift (get_dep_map p d)) (\<lambda>dm.
     bindR (extra_deps d dm es) (\<lambda>qs. Inr ((case dget dm None of None \<Rightarrow> [] | Some rs \<Rightarrow> rs) @ qs)))"

definition dist_extras :: "interpreter \<Rightarrow> dist \<Rightarrow> string list res" where
  "dist_extras p d = bindR (get_dep_map p d) (\<lambda>dm. Inr [e. Some e \<leftarrow> dkeys dm, e \<noteq> []])"

section \<open>Places on a path\<close>

text \<open>
  \<open>insert_on\<close>: the loop over the normalised path looks for the location or, for an egg, its directory. After a hit the
  other places of the location are removed; the search goes on behind the place that was removed. The warnings of
  \<open>check_version_conflict\<close> are left out.
\<close>

fun drop_duplicates :: "nat \<Rightarrow> string \<Rightarrow> nat \<Rightarrow> string list \<Rightarrow> string list \<Rightarrow> string list" where
  "drop_duplicates 0 nloc p npath path = path"
| "drop_duplicates (Suc n) nloc p npath path =
     (case find_index (\<lambda>x. x = nloc) (drop (Suc p) npath) of None \<Rightarrow> path
      | Some i \<Rightarrow> let np = Suc p + i in drop_duplicates n nloc np (take np npath @ drop (Suc np) npath) (take np path @ drop (Suc np) path))"

definition normal_path :: "(string \<Rightarrow> string) \<Rightarrow> string list \<Rightarrow> string list" where
  "normal_path norm path = map (\<lambda>p. if p \<noteq> [] \<and> norm p \<noteq> [] then norm p else p) path"

definition insert_at :: "nat \<Rightarrow> 'a \<Rightarrow> 'a list \<Rightarrow> 'a list" where
  "insert_at p x xs = take p xs @ x # drop p xs"

definition insert_on :: "(string \<Rightarrow> string) \<Rightarrow> dist \<Rightarrow> string list \<Rightarrow> string option \<Rightarrow> bool \<Rightarrow> string list" where
  "insert_on norm d path loc0 replace =
     (let loc = (if or_empty loc0 = [] then d_location d else or_empty loc0);
          nloc = norm loc; bdir = dirname nloc; npath = normal_path norm path
      in if loc = [] then path
         else (case find_index (\<lambda>item. item = nloc \<or> item = bdir \<and> d_precedence d = EGG_DIST) npath of
             None \<Rightarrow> if replace then loc # path else path @ [loc]
           | Some p \<Rightarrow>
               if npath ! p = nloc
               then (if replace then drop_duplicates (length npath) nloc p npath path else path)
               else if \<not> replace \<and> nloc \<in> set (drop p npath) then path
               else drop_duplicates (Suc (length npath)) nloc p (insert_at p nloc npath) (insert_at p loc path)))"

section \<open>Platforms\<close>

definition exact :: "string \<Rightarrow> rx" where
  "exact w = seqs (map (\<lambda>c. cls [c]) w)"

definition any_text :: rx where "any_text = Star (Chr (\<lambda>c. c \<noteq> CHR 0x0A))"

definition macosVersionString :: rx where
  "macosVersionString = seqs [exact ''macosx-'', Group ''1'' (Plus Digit), exact ''.'', Group ''2'' (Plus Digit), exact ''-'',
     Group ''3'' any_text]"

definition darwinVersionString :: rx where
  "darwinVersionString = seqs [exact ''darwin-'', Group ''1'' (Plus Digit), exact ''.'', Group ''2'' (Plus Digit), exact ''.'',
     Group ''3'' (Plus Digit), exact ''-'', Group ''4'' any_text]"

definition group :: "caps \<Rightarrow> string \<Rightarrow> string" where
  "group g n = or_empty (dget g n)"

definition compatible_platforms :: "string option \<Rightarrow> string option \<Rightarrow> bool" where
  "compatible_platforms provided required = (case (provided, required) of
     (Some prov, Some req) \<Rightarrow> prov = req \<or> (case re_match macosVersionString req of None \<Rightarrow> False
       | Some r \<Rightarrow> (case re_match macosVersionString prov of
           None \<Rightarrow> (case re_match darwinVersionString prov of None \<Rightarrow> False
             | Some g \<Rightarrow> (let dversion = int_of (group g ''1''); macosversion = group r ''1'' @ ''.'' @ group r ''2''
                 in dversion = 7 \<and> ''10.3'' \<le> macosversion \<or> dversion = 8 \<and> ''10.4'' \<le> macosversion))
         | Some g \<Rightarrow> group g ''1'' = group r ''1'' \<and> group g ''3'' = group r ''3''
             \<and> int_of (group g ''2'') \<le> int_of (group r ''2'')))
   | _ \<Rightarrow> True)"

end
