(* ===== verification/PkgWorkingSet.thy ===== *)
theory PkgWorkingSet
  imports PkgDistributions
begin

text \<open>
  \<open>Environment\<close>, \<open>WorkingSet\<close> and \<open>_ReqExtras\<close> of \<open>pkg_resources/__init__.py\<close>. What the finders see on a path entry, the
  platform and the normal form of paths are asked of the world; callbacks are numbers, and what they are called with is
  kept in a log. An installer is a function that answers a requirement.
\<close>

record world =
  w_interpreter :: interpreter
  w_find_distributions :: "string \<Rightarrow> bool \<Rightarrow> dist list"
  w_platform :: "string option"
  w_python :: string
  w_normalize :: "string \<Rightarrow> string"
  w_sys_path :: "string list"

type_synonym installer = "requirement \<Rightarrow> dist option"

section \<open>Environments\<close>

record environment =
  en_distmap :: "(string, dist list) dict"
  en_platform :: "string option"
  en_python :: "string option"

definition can_add :: "environment \<Rightarrow> dist \<Rightarrow> bool" where
  "can_add env d \<longleftrightarrow> (en_python env = None \<or> d_py_version d = None \<or> d_py_version d = en_python env)
     \<and> compatible_platforms (d_platform d) (en_platform env)"

text \<open>\<open>sort(key=hashcmp, reverse=True)\<close> is stable. Distributions with versions can always be compared (\<open>env_lists_sorted\<close>).\<close>

definition older :: "dist \<Rightarrow> dist \<Rightarrow> bool" where
  "older d e \<longleftrightarrow> dist_less d e = Inr True"

fun place :: "dist \<Rightarrow> dist list \<Rightarrow> dist list" where
  "place d [] = [d]"
| "place d (e # es) = (if older d e then e # place d es else d # e # es)"

definition newest_first :: "dist list \<Rightarrow> dist list" where
  "newest_first ds = foldr place ds []"

text \<open>\<open>dist in dists\<close> for distributions that have versions.\<close>

definition dist_member :: "dist \<Rightarrow> dist list \<Rightarrow> bool" where
  "dist_member d ds \<longleftrightarrow> list_ex (\<lambda>e. dist_eq e d = Inr True) ds"

definition env_list :: "environment \<Rightarrow> string \<Rightarrow> dist list" where
  "env_list env k = (case dget (en_distmap env) k of None \<Rightarrow> [] | Some ds \<Rightarrow> ds)"

definition env_add :: "dist \<Rightarrow> environment \<Rightarrow> environment" where
  "env_add d env =
     (if can_add env d \<and> has_version d
      then env \<lparr>en_distmap := dset (d_key d)
             (if dist_member d (env_list env (d_key d)) then env_list env (d_key d)
              else newest_first (env_list env (d_key d) @ [d])) (en_distmap env)\<rparr>
      else env)"

text \<open>\<open>remove\<close>: the list of the project, and in it an equal distribution, have to be there.\<close>

fun remove_dist :: "dist \<Rightarrow> dist list \<Rightarrow> dist list res" where
  "remove_dist d [] = Inl ValueError"
| "remove_dist d (e # es) = bindR (dist_eq e d) (\<lambda>b. if b then Inr es else bindR (remove_dist d es) (\<lambda>r. Inr (e # r)))"

definition env_remove :: "dist \<Rightarrow> environment \<Rightarrow> environment res" where
  "env_remove d env = bindR (dget_or (en_distmap env) (d_key d)) (\<lambda>ds. bindR (remove_dist d ds) (\<lambda>ds'.
     Inr (env \<lparr>en_distmap := dset (d_key d) ds' (en_distmap env)\<rparr>)))"

definition env_scan :: "world \<Rightarrow> string list \<Rightarrow> environment \<Rightarrow> environment" where
  "env_scan w path env = fold (\<lambda>item env. fold env_add (w_find_distributions w item False) env) path env"

definition new_environment :: "world \<Rightarrow> string list \<Rightarrow> string option \<Rightarrow> string option \<Rightarrow> environment" where
  "new_environment w path platform python = env_scan w path \<lparr>en_distmap = [], en_platform = platform, en_python = python\<rparr>"

definition default_env :: "world \<Rightarrow> string list \<Rightarrow> environment" where
  "default_env w path = new_environment w path (w_platform w) (Some (w_python w))"

definition env_getitem :: "environment \<Rightarrow> string \<Rightarrow> dist list" where
  "env_getitem env name = env_list env (lower name)"

definition env_iter :: "environment \<Rightarrow> string list" where
  "env_iter env = filter (\<lambda>k. env_getitem env k \<noteq> []) (dkeys (en_distmap env))"

definition env_iadd :: "environment \<Rightarrow> environment \<Rightarrow> environment" where
  "env_iadd env other = fold (\<lambda>k env. fold env_add (env_getitem other k) env) (env_iter other) env"

definition env_plus :: "world \<Rightarrow> environment \<Rightarrow> environment \<Rightarrow> environment" where
  "env_plus w a b = env_iadd (env_iadd (new_environment w [] None None) a) b"

definition obtain_dist :: "installer option \<Rightarrow> requirement \<Rightarrow> dist option" where
  "obtain_dist installer r = (case installer of None \<Rightarrow> None | Some f \<Rightarrow> f r)"

text \<open>The first distribution of a list that is in the requirement.\<close>

fun first_in :: "requirement \<Rightarrow> dist list \<Rightarrow> failure + dist option" where
  "first_in r [] = Inr None"
| "first_in r (d # ds) = bindR (lift (dist_in r d)) (\<lambda>b. if b then Inr (Some d) else first_in r ds)"

section \<open>Working sets\<close>

record working_set =
  ws_entries :: "string list"
  ws_entry_keys :: "(string, string list) dict"
  ws_by_key :: "(string, dist) dict"
  ws_callbacks :: "nat list"
  ws_called :: "(nat \<times> dist) list"

definition no_distributions :: working_set where
  "no_distributions = \<lparr>ws_entries = [], ws_entry_keys = [], ws_by_key = [], ws_callbacks = [], ws_called = []\<rparr>"

definition setdefault :: "'k \<Rightarrow> 'v list \<Rightarrow> ('k, 'v list) dict \<Rightarrow> ('k, 'v list) dict" where
  "setdefault k v d = (case dget d k of None \<Rightarrow> dset k v d | Some _ \<Rightarrow> d)"

definition add_key :: "string \<Rightarrow> string \<Rightarrow> (string, string list) dict \<Rightarrow> (string, string list) dict" where
  "add_key entry k d = (case dget d entry of None \<Rightarrow> d | Some ks \<Rightarrow> if k \<in> set ks then d else dset entry (ks @ [k]) d)"

definition added_new :: "dist \<Rightarrow> working_set \<Rightarrow> working_set" where
  "added_new d ws = ws \<lparr>ws_called := ws_called ws @ map (\<lambda>c. (c, d)) (ws_callbacks ws)\<rparr>"

definition ws_add :: "world \<Rightarrow> dist \<Rightarrow> string option \<Rightarrow> bool \<Rightarrow> bool \<Rightarrow> working_set \<Rightarrow> working_set" where
  "ws_add w d entry0 on_path replace ws =
     (let ws = (if on_path then ws \<lparr>ws_entries := insert_on (w_normalize w) d (ws_entries ws) entry0 replace\<rparr> else ws);
          entry = (case entry0 of None \<Rightarrow> d_location d | Some e \<Rightarrow> e);
          ws = ws \<lparr>ws_entry_keys := setdefault (d_location d) [] (setdefault entry [] (ws_entry_keys ws))\<rparr>
      in if \<not> replace \<and> dget (ws_by_key ws) (d_key d) \<noteq> None then ws
         else added_new d (ws \<lparr>ws_by_key := dset (d_key d) d (ws_by_key ws),
                ws_entry_keys := add_key (d_location d) (d_key d) (add_key entry (d_key d) (ws_entry_keys ws))\<rparr>))"

definition ws_add_entry :: "world \<Rightarrow> string \<Rightarrow> working_set \<Rightarrow> working_set" where
  "ws_add_entry w entry ws =
     fold (\<lambda>d. ws_add w d (Some entry) False False) (w_find_distributions w entry True)
       (ws \<lparr>ws_entry_keys := setdefault entry [] (ws_entry_keys ws), ws_entries := ws_entries ws @ [entry]\<rparr>)"

definition new_working_set :: "world \<Rightarrow> string list \<Rightarrow> working_set" where
  "new_working_set w entries = fold (ws_add_entry w) entries no_distributions"

definition ws_contains :: "working_set \<Rightarrow> dist \<Rightarrow> bool res" where
  "ws_contains ws d = (case dget (ws_by_key ws) (d_key d) of None \<Rightarrow> Inr False | Some e \<Rightarrow> dist_eq e d)"

definition ws_find :: "working_set \<Rightarrow> requirement \<Rightarrow> failure + dist option" where
  "ws_find ws r = (case dget (ws_by_key ws) (rq_key r) of None \<Rightarrow> Inr None
   | Some d \<Rightarrow> bindR (lift (dist_in r d)) (\<lambda>b. if b then Inr (Some d) else Inl (VersionConflict d r [])))"

text \<open>\<open>__iter__\<close>: a distribution for each key, in the order of the entries; a key has to be in \<open>by_key\<close>.\<close>

fun iter_keys :: "working_set \<Rightarrow> string list \<Rightarrow> string list \<Rightarrow> dist list res" where
  "iter_keys ws seen [] = Inr []"
| "iter_keys ws seen (k # ks) = (if k \<in> set seen then iter_keys ws seen ks
     else bindR (dget_or (ws_by_key ws) k) (\<lambda>d. bindR (iter_keys ws (k # seen) ks) (\<lambda>ds. Inr (d # ds))))"

definition listed_keys :: "working_set \<Rightarrow> string list" where
  "listed_keys ws = concat (map (\<lambda>item. case dget (ws_entry_keys ws) item of None \<Rightarrow> [] | Some ks \<Rightarrow> ks) (ws_entries ws))"

definition ws_iter :: "working_set \<Rightarrow> dist list res" where
  "ws_iter ws = iter_keys ws [] (listed_keys ws)"

definition ws_subscribe :: "nat \<Rightarrow> bool \<Rightarrow> working_set \<Rightarrow> working_set res" where
  "ws_subscribe c existing ws =
     (if c \<in> set (ws_callbacks ws) then Inr ws
      else (let ws = ws \<lparr>ws_callbacks := ws_callbacks ws @ [c]\<rparr>
        in if \<not> existing then Inr ws
           else bindR (ws_iter ws) (\<lambda>ds. Inr (ws \<lparr>ws_called := ws_called ws @ map (\<lambda>d. (c, d)) ds\<rparr>))))"

section \<open>Resolution\<close>

text \<open>Dictionaries with requirements as keys, which are compared by \<open>==\<close>; an equal key stays as it is.\<close>

type_synonym 'v req_dict = "(requirement \<times> 'v) list"

fun rget :: "'v req_dict \<Rightarrow> requirement \<Rightarrow> 'v option" where
  "rget [] r = None"
| "rget ((q, v) # d) r = (if req_eq q r then Some v else rget d r)"

fun rset :: "requirement \<Rightarrow> 'v \<Rightarrow> 'v req_dict \<Rightarrow> 'v req_dict" where
  "rset r v [] = [(r, v)]"
| "rset r v ((q, u) # d) = (if req_eq q r then (q, v) # d else (q, u) # rset r v d)"

text \<open>\<open>markers_pass\<close>: \<open>any\<close> stops at the first extra for which the marker holds.\<close>

fun any_extra :: "interpreter \<Rightarrow> mark list \<Rightarrow> string option list \<Rightarrow> bool res" where
  "any_extra p ms [] = Inr False"
| "any_extra p ms (e # es) =
     bindR (marker_evaluate p ms (Some [(''extra'', e)])) (\<lambda>b. if b then Inr True else any_extra p ms es)"

text \<open>The extras, a tuple, that stand for no extra where there are none.\<close>

definition or_none :: "string list \<Rightarrow> string option list" where
  "or_none es = (if es = [] then [None] else map Some es)"

definition markers_pass :: "interpreter \<Rightarrow> string list req_dict \<Rightarrow> requirement \<Rightarrow> string list \<Rightarrow> bool res" where
  "markers_pass p demanded r extras = (case rq_marker r of None \<Rightarrow> Inr True
   | Some ms \<Rightarrow> any_extra p ms ((case rget demanded r of None \<Rightarrow> [] | Some es \<Rightarrow> map Some es) @ or_none extras))"

definition best_match :: "environment \<Rightarrow> requirement \<Rightarrow> working_set \<Rightarrow> installer option \<Rightarrow> bool \<Rightarrow> failure + dist option" where
  "best_match env r ws installer replace =
     bindR (case ws_find ws r of
         Inl (VersionConflict d q c) \<Rightarrow> if replace then Inr None else Inl (VersionConflict d q c)
       | x \<Rightarrow> x)
     (\<lambda>found. case found of Some d \<Rightarrow> Inr (Some d)
      | None \<Rightarrow> bindR (first_in r (env_getitem env (rq_key r))) (\<lambda>d.
          Inr (case d of Some d \<Rightarrow> Some d | None \<Rightarrow> obtain_dist installer r)))"

record resolution =
  rs_requirements :: "requirement list"
  rs_processed :: "requirement list"
  rs_best :: "(string, dist) dict"
  rs_to_activate :: "dist list"
  rs_req_extras :: "string list req_dict"
  rs_required_by :: "string list req_dict"
  rs_env :: "environment option"

text \<open>
  The choice of a distribution for a requirement that passes its markers, which is activated unless it was chosen
  before. Where it is looked for: with no environment given it is that of the entries, but an empty environment and
  working set for a project that has a conflicting distribution; it stays the environment from then on.
\<close>

definition searched :: "world \<Rightarrow> working_set \<Rightarrow> requirement \<Rightarrow> resolution \<Rightarrow> environment \<times> working_set" where
  "searched w self r s = (case rs_env s of Some env \<Rightarrow> (env, self)
   | None \<Rightarrow> if dget (ws_by_key self) (rq_key r) = None then (default_env w (ws_entries self), self)
       else (default_env w [], new_working_set w []))"

definition choose_dist :: "world \<Rightarrow> working_set \<Rightarrow> installer option \<Rightarrow> bool \<Rightarrow> requirement \<Rightarrow> resolution
    \<Rightarrow> failure + dist \<times> resolution" where
  "choose_dist w self installer replace r s = (case dget (rs_best s) (rq_key r) of
     Some d \<Rightarrow> Inr (d, s)
   | None \<Rightarrow>
     bindR (case dget (ws_by_key self) (rq_key r) of None \<Rightarrow> Inr True
        | Some d \<Rightarrow> bindR (lift (dist_in r d)) (\<lambda>b. Inr (\<not> b \<and> replace))) (\<lambda>search.
     bindR
       (if \<not> search then Inr (the (dget (ws_by_key self) (rq_key r)), s)
        else (let (env, ws) = searched w self r s
          in bindR (best_match env r ws installer replace) (\<lambda>found. case found of
               None \<Rightarrow> Inl (DistributionNotFound r (case rget (rs_required_by s) r of None \<Rightarrow> [] | Some ns \<Rightarrow> ns))
             | Some d \<Rightarrow> Inr (d, s \<lparr>rs_env := Some env, rs_best := dset (rq_key r) d (rs_best s)\<rparr>))))
       (\<lambda>(d, s). Inr (d, s \<lparr>rs_to_activate := rs_to_activate s @ [d]\<rparr>))))"

definition register :: "requirement \<Rightarrow> requirement \<Rightarrow> resolution \<Rightarrow> resolution" where
  "register r q s =
     (let ns = (case rget (rs_required_by s) q of None \<Rightarrow> [] | Some ns \<Rightarrow> ns)
      in s \<lparr>rs_required_by := rset q (if rq_project_name r \<in> set ns then ns else ns @ [rq_project_name r]) (rs_required_by s),
            rs_req_extras := rset q (rq_extras r) (rs_req_extras s)\<rparr>)"

text \<open>One round of the loop.\<close>

definition resolve_step :: "world \<Rightarrow> working_set \<Rightarrow> installer option \<Rightarrow> bool \<Rightarrow> string list \<Rightarrow> resolution \<Rightarrow> failure + resolution" where
  "resolve_step w self installer replace extras s = (case rs_requirements s of
     [] \<Rightarrow> Inr s
   | r # rs \<Rightarrow>
     (let s = s \<lparr>rs_requirements := rs\<rparr>
      in if req_member r (rs_processed s) then Inr s
         else bindR (lift (markers_pass (w_interpreter w) (rs_req_extras s) r extras)) (\<lambda>pass.
           if \<not> pass then Inr s
           else bindR (choose_dist w self installer replace r s) (\<lambda>(d, s).
             bindR (lift (dist_in r d)) (\<lambda>b.
               if \<not> b then Inl (VersionConflict d r (case rget (rs_required_by s) r of None \<Rightarrow> [] | Some ns \<Rightarrow> ns))
               else bindR (requires (w_interpreter w) d (rq_extras r)) (\<lambda>qs.
                 Inr (fold (register r) (rev qs) (s \<lparr>rs_requirements := rs_requirements s @ rev qs\<rparr>)
                        \<lparr>rs_processed := rs_processed s @ [r]\<rparr>)))))))"

partial_function (option) resolve_loop :: "world \<Rightarrow> working_set \<Rightarrow> installer option \<Rightarrow> bool \<Rightarrow> string list
    \<Rightarrow> resolution \<Rightarrow> (failure + dist list) option" where
  "resolve_loop w self installer replace extras s =
     (if rs_requirements s = [] then Some (Inr (rs_to_activate s))
      else (case resolve_step w self installer replace extras s of
          Inl e \<Rightarrow> Some (Inl e)
        | Inr s' \<Rightarrow> resolve_loop w self installer replace extras s'))"

declare resolve_loop.simps [code]

definition resolve_start :: "requirement list \<Rightarrow> environment option \<Rightarrow> resolution" where
  "resolve_start rs env = \<lparr>rs_requirements = rev rs, rs_processed = [], rs_best = [], rs_to_activate = [],
     rs_req_extras = [], rs_required_by = [], rs_env = env\<rparr>"

definition resolve :: "world \<Rightarrow> working_set \<Rightarrow> requirement list \<Rightarrow> environment option \<Rightarrow> installer option \<Rightarrow> bool
    \<Rightarrow> string list \<Rightarrow> (failure + dist list) option" where
  "resolve w self rs env installer replace extras =
     resolve_loop w self installer replace extras (resolve_start rs env)"

section \<open>What is built on the resolution\<close>

definition add_all :: "world \<Rightarrow> dist list \<Rightarrow> working_set \<Rightarrow> working_set" where
  "add_all w ds ws = fold (\<lambda>d. ws_add w d None True False) ds ws"

definition ws_require :: "world \<Rightarrow> strs \<Rightarrow> working_set \<Rightarrow> (failure + dist list \<times> working_set) option" where
  "ws_require w ss ws = (case parse_requirements ss of Inl e \<Rightarrow> Some (Inl (Raised e))
   | Inr rs \<Rightarrow> map_option (\<lambda>x. bindR x (\<lambda>ds. Inr (ds, add_all w ds ws))) (resolve w ws rs None None False []))"

text \<open>\<open>_build_from_requirements\<close>: the working set, and what \<open>sys.path\<close> becomes.\<close>

definition build_from_requirements :: "world \<Rightarrow> strs \<Rightarrow> (failure + working_set \<times> string list) option" where
  "build_from_requirements w ss = (case parse_requirements ss of Inl e \<Rightarrow> Some (Inl (Raised e))
   | Inr rs \<Rightarrow> map_option (\<lambda>x. bindR x (\<lambda>ds.
       let ws = fold (\<lambda>e ws. if e \<in> set (ws_entries ws) then ws else ws_add_entry w e ws) (w_sys_path w)
             (add_all w ds (new_working_set w []))
       in Inr (ws, ws_entries ws))) (resolve w (new_working_set w []) rs (Some (default_env w (w_sys_path w))) None False []))"

text \<open>\<open>_build_master\<close>, with \<open>__requires__\<close> of the main program; only a conflict starts anew.\<close>

definition build_master :: "world \<Rightarrow> strs option \<Rightarrow> (failure + working_set \<times> string list) option" where
  "build_master w requires0 =
     (let ws = new_working_set w (w_sys_path w)
      in case requires0 of None \<Rightarrow> Some (Inr (ws, w_sys_path w))
       | Some ss \<Rightarrow> (case ws_require w ss ws of
           Some (Inl (VersionConflict d r c)) \<Rightarrow> build_from_requirements w ss
         | x \<Rightarrow> map_option (\<lambda>x. bindR x (\<lambda>(ds, ws). Inr (ws, w_sys_path w))) x))"

text \<open>
  \<open>find_plugins\<close>: the projects of the plug-in environment in alphabetical order, of each the distributions from the newest
  on until one can be resolved. An error of the resolution is kept, others end it.
\<close>

record plugin_search =
  ps_shadow :: working_set
  ps_found :: "dist list"
  ps_errors :: "(dist \<times> failure) list"

definition resolution_error :: "failure \<Rightarrow> bool" where
  "resolution_error f = (case f of Raised _ \<Rightarrow> False | _ \<Rightarrow> True)"

fun try_versions :: "world \<Rightarrow> environment \<Rightarrow> installer option \<Rightarrow> bool \<Rightarrow> dist list \<Rightarrow> plugin_search
    \<Rightarrow> (failure + plugin_search) option" where
  "try_versions w env installer fallback [] ps = Some (Inr ps)"
| "try_versions w env installer fallback (d # ds) ps = (case as_requirement d of
     Inl e \<Rightarrow> Some (Inl (Raised e))
   | Inr r \<Rightarrow> (case resolve w (ps_shadow ps) [r] (Some env) installer False [] of
       None \<Rightarrow> None
     | Some (Inl f) \<Rightarrow>
         if \<not> resolution_error f then Some (Inl f)
         else (let ps = ps \<lparr>ps_errors := ps_errors ps @ [(d, f)]\<rparr>
           in if fallback then try_versions w env installer fallback ds ps else Some (Inr ps))
     | Some (Inr rs) \<Rightarrow> Some (Inr (ps \<lparr>ps_shadow := add_all w rs (ps_shadow ps),
         ps_found := fold (\<lambda>x acc. if dist_member x acc then acc else acc @ [x]) rs (ps_found ps)\<rparr>))))"

fun try_projects :: "world \<Rightarrow> environment \<Rightarrow> environment \<Rightarrow> installer option \<Rightarrow> bool \<Rightarrow> string list \<Rightarrow> plugin_search
    \<Rightarrow> (failure + plugin_search) option" where
  "try_projects w env plugins installer fallback [] ps = Some (Inr ps)"
| "try_projects w env plugins installer fallback (n # ns) ps =
     (case try_versions w env installer fallback (env_getitem plugins n) ps of
        Some (Inr ps') \<Rightarrow> try_projects w env plugins installer fallback ns ps'
      | x \<Rightarrow> x)"

definition oldest_first :: "dist list \<Rightarrow> dist list" where
  "oldest_first ds = rev (newest_first (rev ds))"

definition find_plugins :: "world \<Rightarrow> working_set \<Rightarrow> environment \<Rightarrow> environment option \<Rightarrow> installer option \<Rightarrow> bool
    \<Rightarrow> (failure + dist list \<times> (dist \<times> failure) list) option" where
  "find_plugins w self plugins full installer fallback =
     (let env = (case full of None \<Rightarrow> env_iadd (default_env w (ws_entries self)) plugins | Some f \<Rightarrow> env_plus w f plugins)
      in case ws_iter self of Inl e \<Rightarrow> Some (Inl (Raised e))
       | Inr ds \<Rightarrow> map_option (\<lambda>x. bindR x (\<lambda>ps. Inr (oldest_first (ps_found ps), ps_errors ps)))
           (try_projects w env plugins installer fallback (sort (env_iter plugins))
             \<lparr>ps_shadow = add_all w ds (new_working_set w []), ps_found = [], ps_errors = []\<rparr>))"

end
