(* ===== verification/PkgVersionLaws.thy ===== *)
theory PkgVersionLaws
  imports PkgVersion "HOL-Library.Product_Lexorder"
begin

text \<open>
  Laws of \<open>packaging/version.py\<close>: a version prints as a text that reads back, the comparisons of any two
  parsed texts never raise and are a linear order given by a rank, and canonical texts decide equality.
\<close>

section \<open>Well-formed versions\<close>

definition num_ok :: "string set \<Rightarrow> (string \<times> int) option \<Rightarrow> bool" where
  "num_ok L p = (case p of None \<Rightarrow> True | Some (l, n) \<Rightarrow> l \<in> L \<and> 0 \<le> n)"

definition local_ok :: "local_part \<Rightarrow> bool" where
  "local_ok p = (case p of LInt i \<Rightarrow> 0 \<le> i
     | LStr s \<Rightarrow> s \<noteq> [] \<and> list_all alnum s \<and> lower s = s \<and> \<not> isdigit s)"

definition pep_wf :: "pep440 \<Rightarrow> bool" where
  "pep_wf v \<longleftrightarrow> 0 \<le> v_epoch v \<and> v_release v \<noteq> [] \<and> list_all (\<lambda>x. 0 \<le> x) (v_release v)
     \<and> num_ok {''a'', ''b'', ''rc''} (v_pre v) \<and> num_ok {''post''} (v_post v) \<and> num_ok {''dev''} (v_dev v)
     \<and> (case v_local v of None \<Rightarrow> True | Some ps \<Rightarrow> ps \<noteq> [] \<and> list_all local_ok ps)"

lemma int_of_nonneg [simp]: "0 \<le> int_of s"
  by (simp add: int_of_def)

lemma str_of_nonneg: "0 \<le> n \<Longrightarrow> str_of_int n = str_of_nat (nat n)"
  by (simp add: str_of_int_def)

lemma int_of_str [simp]: "0 \<le> n \<Longrightarrow> int_of (str_of_int n) = n"
  by (simp add: int_of_def str_of_nonneg)

lemma str_of_int_digits: "0 \<le> n \<Longrightarrow> list_all is_digit (str_of_int n) \<and> str_of_int n \<noteq> []"
  using str_of_nat_digits [of "nat n"] by (simp add: str_of_nonneg all_digits_def)

lemma lower_digit: "is_digit d \<Longrightarrow> lower_char d = d"
  by (auto simp: is_digit_def lower_char_def)

lemma lower_char_idem [simp]: "lower_char (lower_char c) = lower_char c"
  by (auto simp: lower_char_def Let_def)

lemma lower_idem [simp]: "lower (lower s) = lower s"
  by (simp add: lower_def)

lemma is_digit_lower [simp]: "is_digit (lower_char c) \<longleftrightarrow> is_digit c"
proof (cases "65 \<le> (of_char c :: nat) \<and> (of_char c :: nat) \<le> 90")
  case True
  then have "\<not> is_digit c" by (auto simp: is_digit_def)
  moreover have "\<not> is_digit (lower_char c)"
  proof
    assume "is_digit (lower_char c)"
    then have "of_char (lower_char c) < (58 :: nat)" by (auto simp: is_digit_def)
    then show False using True by (simp add: lower_char_def Let_def of_char_of)
  qed
  ultimately show ?thesis by simp
qed (auto simp: lower_char_def Let_def)

lemma alnum_lower [simp]: "alnum (lower_char c) \<longleftrightarrow> alnum c"
  by (simp add: alnum_def)

lemma isdigit_lower [simp]: "isdigit (lower s) \<longleftrightarrow> isdigit s"
  by (auto simp: isdigit_def all_digits_def lower_def list_all_iff)

text \<open>What the groups of a match are texts of.\<close>

lemma version_regex_plain: "plain (seqs [Star Space, VERSION_PATTERN, Star Space])"
  by (simp add: VERSION_PATTERN_def dash_def)

lemma version_regex_groups: "plain_groups (seqs [Star Space, VERSION_PATTERN, Star Space]) \<Longrightarrow> plain_groups version_regex"
  by (simp add: version_regex_def)

definition release_re :: rx where
  "release_re = Seq (Plus Digit) (Star (Seq (lit ''.'') (Plus Digit)))"

definition local_re :: rx where
  "local_re = Seq (Plus Alnum) (Star (Seq (cls ''-_.'') (Plus Alnum)))"

lemma version_groups:
  assumes "re_match version_regex s = Some g" and "dget g n = Some u"
  shows "n = ''pre_l'' \<Longrightarrow> lower u \<in> {''a'', ''b'', ''c'', ''rc'', ''alpha'', ''beta'', ''pre'', ''preview''}"
    and "n = ''post_l'' \<Longrightarrow> lower u \<in> {''post'', ''rev'', ''r''}"
    and "n = ''dev_l'' \<Longrightarrow> lower u = ''dev''"
    and "n \<in> {''epoch'', ''pre_n'', ''post_n1'', ''post_n2'', ''dev_n''} \<Longrightarrow> isdigit u"
    and "n = ''release'' \<Longrightarrow> u \<in> lang release_re"
    and "n = ''local'' \<Longrightarrow> u \<in> lang local_re"
  using re_match_groups [OF plain_plain_groups [OF version_regex_plain, THEN version_regex_groups] assms]
  by (auto simp: version_regex_def VERSION_PATTERN_def dash_def local_re_def release_re_def lang_lit lower_def lang_Plus_Digit)

lemma version_release:
  assumes "re_match version_regex s = Some g"
  shows "\<exists>u. dget g ''release'' = Some u \<and> u \<in> lang release_re"
proof -
  have "''release'' \<in> set (sure version_regex)" by (simp add: version_regex_def VERSION_PATTERN_def)
  from re_match_sure [OF assms this] obtain u where "dget g ''release'' = Some u" ..
  with version_groups(5) [OF assms this] show ?thesis by simp
qed

text \<open>Parsed versions are well-formed.\<close>

lemma parse_letter_ok:
  assumes "\<And>l. letter = Some l \<Longrightarrow> spelling (lower l) \<in> L" and "''post'' \<in> L \<or> number = None \<or> letter \<noteq> None"
    and "letter \<noteq> Some []"
  shows "num_ok L (parse_letter_version letter number)"
  using assms by (cases letter; cases number)
    (auto simp: parse_letter_version_def num_ok_def truthy_def)

lemma split_any_not_Nil [simp]: "split_any P s \<noteq> []"
  by (induction s) (auto split: list.splits)

lemma split_any_free: "list_all (\<lambda>c. \<not> P c) p \<Longrightarrow> split_any P p = [p]"
  by (induction p) auto

lemma split_any_append: "list_all (\<lambda>c. \<not> P c) p \<Longrightarrow> P d \<Longrightarrow> split_any P (p @ d # s) = p # split_any P s"
  by (induction p) auto

lemma split_any_concat:
  assumes "list_all (\<lambda>c. \<not> P c) p" and "\<forall>q\<in>set us. \<exists>d r. q = d # r \<and> P d \<and> list_all (\<lambda>c. \<not> P c) r"
  shows "split_any P (p @ concat us) = p # map tl us"
  using assms
proof (induction us arbitrary: p)
  case Nil
  then show ?case by (simp add: split_any_free)
next
  case (Cons q us)
  then obtain d r where q: "q = d # r" "P d" "list_all (\<lambda>c. \<not> P c) r" by auto
  with Cons show ?case by (simp add: split_any_append)
qed

lemma split_any_dots: "split_any (\<lambda>c. c = d) s = split_on d s"
  by (induction s) (auto split: list.split)

lemma lang_parts:
  assumes "u \<in> lang (Seq (Plus (Chr P)) (Star (Seq (Chr Q) (Plus (Chr P)))))" and "\<And>c. P c \<Longrightarrow> \<not> Q c"
  shows "\<forall>p\<in>set (split_any Q u). p \<noteq> [] \<and> list_all P p"
proof -
  from assms(1) obtain p w where u: "u = p @ w" "p \<noteq> [] \<and> list_all P p" "w \<in> lang (Star (Seq (Chr Q) (Plus (Chr P))))"
    by (auto simp: lang_Plus_chr)
  from u(3) obtain us where w: "w = concat us" "set us \<subseteq> lang (Seq (Chr Q) (Plus (Chr P)))" by auto
  have us: "\<forall>q\<in>set us. \<exists>d r. q = d # r \<and> Q d \<and> r \<noteq> [] \<and> list_all P r"
    using w(2) unfolding subset_iff lang_Seq_Chr lang_Plus_chr by blast
  have free: "list_all P r \<Longrightarrow> list_all (\<lambda>c. \<not> Q c) r" for r using assms(2) by (auto simp: list_all_iff)
  have "split_any Q u = p # map tl us" unfolding u(1) w(1)
    by (rule split_any_concat) (use u(2) us free in blast)+
  with us u(2) show ?thesis by fastforce
qed

lemma alnum_not_sep: "alnum c \<Longrightarrow> c \<notin> set ''-_.''"
  by (auto simp: alnum_def is_digit_def lower_char_def)

lemma local_part_ok: "p \<noteq> [] \<Longrightarrow> list_all alnum p \<Longrightarrow> local_ok (local_part_of p)"
  by (auto simp: local_part_of_def local_ok_def lower_def list_all_iff isdigit_def all_digits_def)

lemma version_needs:
  assumes "re_match version_regex s = Some g"
  shows "dget g ''pre_l'' = None \<Longrightarrow> dget g ''pre_n'' = None" and "dget g ''dev_l'' = None \<Longrightarrow> dget g ''dev_n'' = None"
proof -
  note forms = version_regex_def VERSION_PATTERN_def dash_def Opt_def Plus_def Space_def Digit_def Alnum_def cls_def lit.simps
  have "needs ''pre_n'' ''pre_l'' version_regex" "needs ''dev_n'' ''dev_l'' version_regex" by (simp_all add: forms)
  from this [THEN re_match_needs [OF assms]] show "dget g ''pre_l'' = None \<Longrightarrow> dget g ''pre_n'' = None"
    "dget g ''dev_l'' = None \<Longrightarrow> dget g ''dev_n'' = None" by force+
qed

theorem version_of_groups_wf:
  assumes "re_match version_regex s = Some g"
  shows "pep_wf (version_of_groups g)"
proof -
  note vg = version_groups [OF assms] and vn = version_needs [OF assms]
  have "num_ok {''a'', ''b'', ''rc''} (v_pre (version_of_groups g))"
    unfolding version_of_groups_def pep440.simps
  proof (rule parse_letter_ok)
    fix l assume "dget g ''pre_l'' = Some l"
    from vg(1) [OF this] show "spelling (lower l) \<in> {''a'', ''b'', ''rc''}" by (auto simp: spelling_def)
  qed (use vg(1) [of "''pre_l''"] vn(1) in \<open>auto simp: lower_def\<close>)
  moreover have "num_ok {''post''} (v_post (version_of_groups g))"
    unfolding version_of_groups_def pep440.simps
  proof (rule parse_letter_ok)
    fix l assume "dget g ''post_l'' = Some l"
    from vg(2) [OF this] show "spelling (lower l) \<in> {''post''}" by (auto simp: spelling_def)
  qed (use vg(2) [of "''post_l''"] in \<open>auto simp: lower_def\<close>)
  moreover have "num_ok {''dev''} (v_dev (version_of_groups g))"
    unfolding version_of_groups_def pep440.simps
  proof (rule parse_letter_ok)
    fix l assume "dget g ''dev_l'' = Some l"
    from vg(3) [OF this] show "spelling (lower l) \<in> {''dev''}" by (auto simp: spelling_def)
  qed (use vg(3) [of "''dev_l''"] vn(2) in \<open>auto simp: lower_def\<close>)
  moreover have "case v_local (version_of_groups g) of None \<Rightarrow> True | Some ps \<Rightarrow> ps \<noteq> [] \<and> list_all local_ok ps"
  proof (cases "dget g ''local''")
    case (Some u)
    from vg(6) [OF this] have "\<forall>p\<in>set (split_any (\<lambda>c. c \<in> set ''-_.'') u). p \<noteq> [] \<and> list_all alnum p"
      unfolding local_re_def Alnum_def cls_def using alnum_not_sep by (intro lang_parts) auto
    moreover have "(\<lambda>c. c \<in> set ''-_.'') = (\<lambda>c. c \<in> set ''._-'')" by auto
    ultimately have "list_all local_ok (map local_part_of (split_any (\<lambda>c. c \<in> set ''._-'') u))"
      by (auto simp: list_all_iff intro: local_part_ok [unfolded list_all_iff])
    with Some show ?thesis by (simp add: version_of_groups_def parse_local_version_def)
  qed (simp add: version_of_groups_def parse_local_version_def)
  ultimately show ?thesis
    by (auto simp: pep_wf_def version_of_groups_def list_all_iff truthy_def split: option.split)
qed

lemma pep_version_wf: "pep_version s = Inr v \<Longrightarrow> pep_wf v"
  using version_of_groups_wf by (auto simp: pep_version_def split: option.splits)

section \<open>Printing and reading back\<close>

text \<open>The groups that the parts of a printed version leave.\<close>

definition epoch_caps :: "pep440 \<Rightarrow> caps" where
  "epoch_caps v = (if v_epoch v \<noteq> 0 then [(''epoch'', str_of_int (v_epoch v))] else [])"

definition pre_caps :: "(string \<times> int) option \<Rightarrow> caps \<Rightarrow> caps" where
  "pre_caps p c = (case p of None \<Rightarrow> c
     | Some (l, n) \<Rightarrow> dset ''pre'' (l @ str_of_int n) (dset ''pre_n'' (str_of_int n) (dset ''pre_l'' l c)))"

definition post_caps :: "(string \<times> int) option \<Rightarrow> caps \<Rightarrow> caps" where
  "post_caps p c = (case p of None \<Rightarrow> c
     | Some (l, n) \<Rightarrow> dset ''post'' (''.post'' @ str_of_int n) (dset ''post_n2'' (str_of_int n) (dset ''post_l'' ''post'' c)))"

definition dev_caps :: "(string \<times> int) option \<Rightarrow> caps \<Rightarrow> caps" where
  "dev_caps p c = (case p of None \<Rightarrow> c
     | Some (l, n) \<Rightarrow> dset ''dev'' (''.dev'' @ str_of_int n) (dset ''dev_n'' (str_of_int n) (dset ''dev_l'' ''dev'' c)))"

lemma digit_head: "0 \<le> n \<Longrightarrow> \<exists>d ds. str_of_int n = d # ds \<and> is_digit d \<and> list_all is_digit ds"
  using str_of_int_digits [of n] by (cases "str_of_int n") auto

lemma digit_not [simp]:
  "is_digit d \<Longrightarrow> lower_char d = c \<longleftrightarrow> d = c"
  "is_digit d \<Longrightarrow> d \<noteq> CHR ''-''" "is_digit d \<Longrightarrow> d \<noteq> CHR ''_''" "is_digit d \<Longrightarrow> d \<noteq> CHR ''.''"
  by (auto simp: lower_digit) (auto simp: is_digit_def)

text \<open>The optional parts on a text that has them, and on one that goes on with a later part.\<close>

definition after_pre :: "string \<Rightarrow> bool" where
  "after_pre ys \<longleftrightarrow> ys = [] \<or> hd ys = CHR ''+'' \<or> prefix ''.post'' ys \<or> prefix ''.dev'' ys"

definition after_post :: "string \<Rightarrow> bool" where
  "after_post ys \<longleftrightarrow> ys = [] \<or> hd ys = CHR ''+'' \<or> prefix ''.dev'' ys"

definition after_dev :: "string \<Rightarrow> bool" where
  "after_dev ys \<longleftrightarrow> ys = [] \<or> hd ys = CHR ''+''"

lemma after_stops:
  "after_pre ys \<Longrightarrow> stops is_digit ys" "after_post ys \<Longrightarrow> after_pre ys" "after_dev ys \<Longrightarrow> after_post ys"
  by (auto simp: after_pre_def after_post_def after_dev_def stops_def prefix_def is_digit_def)

lemma lower_concrete [simp]:
  "lower_char (CHR ''.'') = CHR ''.''" "lower_char (CHR ''+'') = CHR ''+''" "lower_char (CHR ''-'') = CHR ''-''"
  "lower_char (CHR ''p'') = CHR ''p''" "lower_char (CHR ''o'') = CHR ''o''" "lower_char (CHR ''s'') = CHR ''s''"
  "lower_char (CHR ''t'') = CHR ''t''" "lower_char (CHR ''d'') = CHR ''d''" "lower_char (CHR ''e'') = CHR ''e''"
  "lower_char (CHR ''v'') = CHR ''v''" "lower_char (CHR ''a'') = CHR ''a''" "lower_char (CHR ''b'') = CHR ''b''"
  "lower_char (CHR ''r'') = CHR ''r''" "lower_char (CHR ''c'') = CHR ''c''"
  by (simp_all add: lower_char_def)

lemmas rx_forms = dash_def Opt_def cls_def lit.simps

definition pre_re :: rx where
  "pre_re = Opt (Group ''pre'' (seqs [dash,
       Group ''pre_l'' (alts [lit ''a'', lit ''b'', lit ''c'', lit ''rc'', lit ''alpha'', lit ''beta'', lit ''pre'', lit ''preview'']),
       dash, Opt (Group ''pre_n'' (Plus Digit))]))"

definition post_re :: rx where
  "post_re = Opt (Group ''post'' (Alt
       (Seq (lit ''-'') (Group ''post_n1'' (Plus Digit)))
       (seqs [dash, Group ''post_l'' (alts [lit ''post'', lit ''rev'', lit ''r'']), dash,
         Opt (Group ''post_n2'' (Plus Digit))])))"

definition dev_re :: rx where
  "dev_re = Opt (Group ''dev'' (seqs [dash, Group ''dev_l'' (lit ''dev''), dash, Opt (Group ''dev_n'' (Plus Digit))]))"

lemma pre_skip:
  assumes "after_pre ys"
  shows "rx_match pre_re k (b, ys, c) = k (b, ys, c)"
proof -
  from assms consider "ys = []" | zs where "ys = CHR ''+'' # zs" | zs where "ys = ''.post'' @ zs" | zs where "ys = ''.dev'' @ zs"
    by (cases ys) (auto simp: after_pre_def prefix_def)
  then show ?thesis by cases (simp_all add: pre_re_def rx_forms)
qed

lemma post_skip:
  assumes "after_post ys"
  shows "rx_match post_re k (b, ys, c) = k (b, ys, c)"
proof -
  from assms consider "ys = []" | zs where "ys = CHR ''+'' # zs" | zs where "ys = ''.dev'' @ zs"
    by (cases ys) (auto simp: after_post_def prefix_def)
  then show ?thesis by cases (simp_all add: post_re_def rx_forms)
qed

lemma dev_skip:
  assumes "after_dev ys"
  shows "rx_match dev_re k (b, ys, c) = k (b, ys, c)"
proof -
  from assms consider "ys = []" | zs where "ys = CHR ''+'' # zs"
    by (cases ys) (auto simp: after_dev_def)
  then show ?thesis by cases (simp_all add: dev_re_def rx_forms)
qed

text \<open>A number at the end of such a part.\<close>

lemma dash_digit: "is_digit d \<Longrightarrow> rx_match dash k (b, d # xs, c) = k (b, d # xs, c)"
  unfolding dash_def by (rule opt_skip) (auto simp: cls_def)

lemma dash_other: "x \<notin> set ''-_.'' \<Longrightarrow> rx_match dash k (b, x # xs, c) = k (b, x # xs, c)"
  unfolding dash_def by (rule opt_skip) (auto simp: cls_def)

lemma dash_sep: "x \<in> set ''-_.'' \<Longrightarrow> rx_match dash k (b, x # xs, c)
    = (case k (x # b, xs, c) of Some y \<Rightarrow> Some y | None \<Rightarrow> k (b, x # xs, c))"
  by (auto simp: dash_def Opt_def cls_def split: option.split)

lemma number_take:
  assumes "0 \<le> n" and "stops is_digit ys" and "k (rev (str_of_int n) @ b, ys, dset g (str_of_int n) c) = Some x"
  shows "rx_match (Seq dash (Opt (Group g (Plus Digit)))) k (b, str_of_int n @ ys, c) = Some x"
proof -
  from digit_head [OF assms(1)] obtain d ds where d: "str_of_int n = d # ds" "is_digit d" "list_all is_digit ds" by auto
  have "rx_match (Plus Digit) (\<lambda>(b', ys', c'). k (b', ys', dset g (eaten (str_of_int n @ ys) ys') c'))
      (b, str_of_int n @ ys, c) = Some x"
    unfolding Digit_def using assms str_of_int_digits [OF assms(1)] by (intro plus_chr_take) auto
  then have "rx_match (Opt (Group g (Plus Digit))) k (b, str_of_int n @ ys, c) = Some x"
    by (intro opt_take) simp
  with d show ?thesis by (simp add: dash_digit)
qed

lemma pre_take:
  assumes "num_ok {''a'', ''b'', ''rc''} p" and "after_pre ys"
    and "k (rev (case p of None \<Rightarrow> [] | Some (l, n) \<Rightarrow> l @ str_of_int n) @ b, ys, pre_caps p c) = Some x"
  shows "rx_match pre_re k (b, (case p of None \<Rightarrow> [] | Some (l, n) \<Rightarrow> l @ str_of_int n) @ ys, c) = Some x"
proof (cases p)
  case None
  with assms show ?thesis by (simp add: pre_skip pre_caps_def)
next
  case (Some q)
  obtain l n where q: "q = (l, n)" by (cases q)
  with Some assms(1) have n: "0 \<le> n" and l: "l = ''a'' \<or> l = ''b'' \<or> l = ''rc''" by (auto simp: num_ok_def)
  let ?k = "\<lambda>(b', ys', c'). k (b', ys', dset ''pre'' (eaten ((l @ str_of_int n) @ ys) ys') c')"
  have k: "?k (rev (str_of_int n) @ rev l @ b, ys, dset ''pre_n'' (str_of_int n) (dset ''pre_l'' l c)) = Some x"
    using assms(3) unfolding Some q by (simp add: pre_caps_def)
  have "rx_match (Seq dash (Opt (Group ''pre_n'' (Plus Digit)))) ?k (rev l @ b, str_of_int n @ ys, dset ''pre_l'' l c) = Some x"
    by (rule number_take [where k = ?k, OF n after_stops(1) [OF assms(2)] k])
  with l have "rx_match (seqs [dash,
       Group ''pre_l'' (alts [lit ''a'', lit ''b'', lit ''c'', lit ''rc'', lit ''alpha'', lit ''beta'', lit ''pre'', lit ''preview'']),
       dash, Opt (Group ''pre_n'' (Plus Digit))]) ?k (b, (l @ str_of_int n) @ ys, c) = Some x"
    by (elim disjE; hypsubst; simp add: lit.simps dash_other)
  then show ?thesis unfolding Some q pre_re_def by (simp add: Opt_def)
qed

lemma post_take:
  assumes "num_ok {''post''} p" and "after_post ys"
    and "k (rev (case p of None \<Rightarrow> [] | Some (l, n) \<Rightarrow> ''.post'' @ str_of_int n) @ b, ys, post_caps p c) = Some x"
  shows "rx_match post_re k (b, (case p of None \<Rightarrow> [] | Some (l, n) \<Rightarrow> ''.post'' @ str_of_int n) @ ys, c) = Some x"
proof (cases p)
  case None
  with assms show ?thesis by (simp add: post_skip post_caps_def)
next
  case (Some q)
  obtain n where q: "q = (''post'', n)" using assms(1) Some by (cases q) (auto simp: num_ok_def)
  with Some assms(1) have n: "0 \<le> n" by (auto simp: num_ok_def)
  let ?k = "\<lambda>(b', ys', c'). k (b', ys', dset ''post'' (eaten (''.post'' @ str_of_int n @ ys) ys') c')"
  have k: "?k (rev (str_of_int n) @ rev ''.post'' @ b, ys, dset ''post_n2'' (str_of_int n) (dset ''post_l'' ''post'' c)) = Some x"
    using assms(3) unfolding Some q by (simp add: post_caps_def)
  have "rx_match (Seq dash (Opt (Group ''post_n2'' (Plus Digit)))) ?k (rev ''.post'' @ b, str_of_int n @ ys, dset ''post_l'' ''post'' c) = Some x"
    by (rule number_take [where k = ?k, OF n after_stops(1) [OF after_stops(2) [OF assms(2)]] k])
  then have "rx_match (Alt (Seq (lit ''-'') (Group ''post_n1'' (Plus Digit)))
       (seqs [dash, Group ''post_l'' (alts [lit ''post'', lit ''rev'', lit ''r'']), dash,
         Opt (Group ''post_n2'' (Plus Digit))])) ?k (b, ''.post'' @ str_of_int n @ ys, c) = Some x"
    by (simp add: lit.simps dash_sep)
  then show ?thesis unfolding Some q post_re_def by (simp add: Opt_def)
qed

lemma dev_take:
  assumes "num_ok {''dev''} p" and "after_dev ys"
    and "k (rev (case p of None \<Rightarrow> [] | Some (l, n) \<Rightarrow> ''.dev'' @ str_of_int n) @ b, ys, dev_caps p c) = Some x"
  shows "rx_match dev_re k (b, (case p of None \<Rightarrow> [] | Some (l, n) \<Rightarrow> ''.dev'' @ str_of_int n) @ ys, c) = Some x"
proof (cases p)
  case None
  with assms show ?thesis by (simp add: dev_skip dev_caps_def)
next
  case (Some q)
  obtain n where q: "q = (''dev'', n)" using assms(1) Some by (cases q) (auto simp: num_ok_def)
  with Some assms(1) have n: "0 \<le> n" by (auto simp: num_ok_def)
  let ?k = "\<lambda>(b', ys', c'). k (b', ys', dset ''dev'' (eaten (''.dev'' @ str_of_int n @ ys) ys') c')"
  have k: "?k (rev (str_of_int n) @ rev ''.dev'' @ b, ys, dset ''dev_n'' (str_of_int n) (dset ''dev_l'' ''dev'' c)) = Some x"
    using assms(3) unfolding Some q by (simp add: dev_caps_def)
  have "stops is_digit ys" using assms(2) after_stops by blast
  then have "rx_match (Seq dash (Opt (Group ''dev_n'' (Plus Digit)))) ?k (rev ''.dev'' @ b, str_of_int n @ ys, dset ''dev_l'' ''dev'' c) = Some x"
    by (rule number_take [where k = ?k, OF n _ k])
  then have "rx_match (seqs [dash, Group ''dev_l'' (lit ''dev''), dash, Opt (Group ''dev_n'' (Plus Digit))]) ?k
      (b, ''.dev'' @ str_of_int n @ ys, c) = Some x"
    by (simp add: lit.simps dash_sep)
  then show ?thesis unfolding Some q dev_re_def by (simp add: Opt_def)
qed

definition epoch_re :: rx where
  "epoch_re = Opt (Seq (Group ''epoch'' (Plus Digit)) (lit ''!''))"

definition local_part_re :: rx where
  "local_part_re = Opt (Seq (lit ''+'') (Group ''local'' local_re))"

lemma VERSION_PATTERN_parts:
  "VERSION_PATTERN = seqs [Opt (lit ''v''), epoch_re, Group ''release'' release_re, pre_re, post_re, dev_re, local_part_re]"
  by (simp add: VERSION_PATTERN_def epoch_re_def release_re_def pre_re_def post_re_def dev_re_def local_part_re_def local_re_def)

lemma lower_bang: "lower_char z = CHR ''!'' \<Longrightarrow> z = CHR ''!''"
proof (rule ccontr)
  assume z: "lower_char z = CHR ''!''" "z \<noteq> CHR ''!''"
  then have "lower_char z \<noteq> z" by auto
  then have "97 \<le> (of_char (lower_char z) :: nat)" by (auto simp: lower_char_def Let_def)
  with z(1) show False by simp
qed

lemma epoch_take:
  assumes "0 \<le> v_epoch v" and "CHR ''!'' \<notin> set ys" and "k (rev (epoch_text v) @ b, ys, epoch_caps v) = Some x"
  shows "rx_match epoch_re k (b, epoch_text v @ ys, []) = Some x"
proof (cases "v_epoch v = 0")
  case True
  have "rx_match (Seq (Group ''epoch'' (Plus Digit)) (lit ''!'')) k (b, ys, []) = None"
  proof (rule match_fails)
    fix u assume "u \<in> lang (Seq (Group ''epoch'' (Plus Digit)) (lit ''!''))"
    then obtain d w where "u = d @ w" "lower w = ''!''" by (auto simp: lang_lit lower_def)
    then have "CHR ''!'' \<in> set u" by (auto simp: lower_def dest: lower_bang)
    with assms(2) show "\<not> prefix u ys" by (auto dest: set_mono_prefix)
  qed simp
  with True assms(3) show ?thesis by (simp add: epoch_re_def opt_skip epoch_text_def epoch_caps_def)
next
  case False
  let ?e = "str_of_int (v_epoch v)"
  have "rx_match (Plus Digit) (\<lambda>(b', ys', c'). rx_match (lit ''!'') k (b', ys', dset ''epoch'' (eaten (?e @ ''!'' @ ys) ys') c'))
      (b, ?e @ ''!'' @ ys, []) = Some x"
    unfolding Digit_def using assms(3) False str_of_int_digits [OF assms(1)]
    by (intro plus_chr_take) (auto simp: lit.simps lower_char_def is_digit_def epoch_text_def epoch_caps_def)
  with False show ?thesis by (simp add: epoch_re_def Opt_def epoch_text_def)
qed

lemma release_take:
  assumes "ns \<noteq> []" and "list_all (\<lambda>n. 0 \<le> n) ns" and "after_pre ys \<or> (\<exists>y zs. ys = y # zs \<and> y \<in> set ''abr'')"
    and "k (rev (join_with ''.'' (map str_of_int ns)) @ b, ys, dset ''release'' (join_with ''.'' (map str_of_int ns)) c) = Some x"
  shows "rx_match (Group ''release'' release_re) k (b, join_with ''.'' (map str_of_int ns) @ ys, c) = Some x"
proof -
  obtain m ms where ns: "ns = m # ms" using assms(1) by (cases ns) auto
  let ?ps = "map str_of_int ms"
  let ?t = "join_with ''.'' (map str_of_int ns)"
  have t: "?t = str_of_int m @ sep_parts CHR ''.'' ?ps" by (simp add: ns join_sep_parts)
  let ?k = "\<lambda>(b', ys', c'). k (b', ys', dset ''release'' (eaten (?t @ ys) ys') c')"
  have st: "stops is_digit ys" "stops (\<lambda>x. lower_char x = CHR ''.'') ys \<or> stops is_digit (tl ys)"
    using assms(3) by (auto simp: after_pre_def prefix_def is_digit_def lower_char_def stops_def)
  have ps: "\<forall>p\<in>set ?ps. p \<noteq> [] \<and> list_all is_digit p"
    using assms(2) str_of_int_digits by (auto simp: ns list_all_iff)
  have "rx_match (Star (Seq (Chr (\<lambda>x. lower_char x = CHR ''.'')) (Plus (Chr is_digit)))) ?k
      (rev (str_of_int m) @ b, sep_parts CHR ''.'' ?ps @ ys, c) = Some x"
    by (rule star_parts_take [where k = ?k, OF ps]) (use st assms(4) t in \<open>auto simp: is_digit_def\<close>)
  moreover have "stops is_digit (sep_parts CHR ''.'' ?ps @ ys)" using st(1) by (cases ?ps) (auto simp: is_digit_def)
  moreover have "list_all is_digit (str_of_int m)" "str_of_int m \<noteq> []"
    using assms(2) str_of_int_digits [of m] by (simp_all add: ns)
  ultimately have "rx_match (Plus (Chr is_digit)) (rx_match (Star (Seq (Chr (\<lambda>x. lower_char x = CHR ''.'')) (Plus (Chr is_digit)))) ?k)
      (b, str_of_int m @ sep_parts CHR ''.'' ?ps @ ys, c) = Some x"
    by (intro plus_chr_take) auto
  then show ?thesis unfolding t by (simp add: release_re_def Digit_def lit.simps t)
qed

definition local_caps :: "pep440 \<Rightarrow> caps \<Rightarrow> caps" where
  "local_caps v c = (case pv_local v of None \<Rightarrow> c | Some l \<Rightarrow> dset ''local'' l c)"

lemma local_text_ok: "local_ok p \<Longrightarrow> local_text p \<noteq> [] \<and> list_all alnum (local_text p)"
  using str_of_int_digits by (cases p) (auto simp: local_ok_def local_text_def list_all_iff alnum_def)

lemma local_take:
  assumes "case v_local v of None \<Rightarrow> True | Some ps \<Rightarrow> ps \<noteq> [] \<and> list_all local_ok ps"
    and "k (rev (case pv_local v of None \<Rightarrow> [] | Some l \<Rightarrow> ''+'' @ l) @ b, [], local_caps v c) = Some x"
  shows "rx_match local_part_re k (b, case pv_local v of None \<Rightarrow> [] | Some l \<Rightarrow> ''+'' @ l, c) = Some x"
proof (cases "v_local v")
  case None
  then have "pv_local v = None" by (simp add: pv_local_def)
  with assms(2) show ?thesis by (simp add: local_part_re_def local_caps_def lit.simps Opt_def)
next
  case (Some qs)
  then obtain p ps where p: "v_local v = Some (p # ps)" using assms(1) by (cases qs) auto
  let ?ts = "map local_text ps"
  let ?l = "join_with ''.'' (map local_text (p # ps))"
  have l: "pv_local v = Some ?l" using p by (simp add: pv_local_def)
  have t: "?l = local_text p @ sep_parts CHR ''.'' ?ts" by (simp add: join_sep_parts)
  let ?k = "\<lambda>(b', ys', c'). k (b', ys', dset ''local'' (eaten ?l ys') c')"
  have ok: "\<forall>t\<in>set (local_text p # ?ts). t \<noteq> [] \<and> list_all alnum t"
    using assms(1) p local_text_ok by (auto simp: list_all_iff)
  have "rx_match (Star (Seq (Chr (\<lambda>x. x \<in> set ''-_.'')) (Plus (Chr alnum)))) ?k
      (rev (local_text p) @ CHR ''+'' # b, sep_parts CHR ''.'' ?ts @ [], c) = Some x"
  proof (rule star_parts_take [where k = ?k])
    show "\<forall>t\<in>set ?ts. t \<noteq> [] \<and> list_all alnum t" using ok by simp
    show "\<not> alnum (CHR ''.'')" using alnum_not_sep [of "CHR ''.''"] by auto
    show "?k (rev (sep_parts CHR ''.'' ?ts) @ rev (local_text p) @ CHR ''+'' # b, [], c) = Some x"
      using assms(2) l by (simp add: join_sep_parts local_caps_def eaten_def)
  qed simp_all
  moreover have "stops alnum (sep_parts CHR ''.'' ?ts)"
    using alnum_not_sep [of "CHR ''.''"] by (cases ?ts) auto
  ultimately have "rx_match (Plus (Chr alnum)) (rx_match (Star (Seq (Chr (\<lambda>x. x \<in> set ''-_.'')) (Plus (Chr alnum)))) ?k)
      (CHR ''+'' # b, local_text p @ sep_parts CHR ''.'' ?ts, c) = Some x"
    using ok by (intro plus_chr_take) auto
  then have "rx_match (Group ''local'' local_re) k (CHR ''+'' # b, ?l, c) = Some x"
    unfolding t by (simp add: local_re_def Alnum_def cls_def)
  then show ?thesis unfolding l by (simp add: local_part_re_def lit.simps Opt_def)
qed

definition printed_caps :: "pep440 \<Rightarrow> caps" where
  "printed_caps v = local_caps v (dev_caps (v_dev v) (post_caps (v_post v) (pre_caps (v_pre v)
     (dset ''release'' (release_text v) (epoch_caps v)))))"

lemma str_of_int_chars: "0 \<le> n \<Longrightarrow> c \<in> set (str_of_int n) \<Longrightarrow> is_digit c"
  using str_of_int_digits [of n] by (simp add: list_all_iff)

lemma release_text_chars:
  assumes "list_all (\<lambda>n. 0 \<le> n) (v_release v)" and "c \<in> set (release_text v)"
  shows "is_digit c \<or> c = CHR ''.''"
proof -
  from assms(2) set_join_with [of "''.''" "map str_of_int (v_release v)"]
  have "c = CHR ''.'' \<or> (\<exists>n\<in>set (v_release v). c \<in> set (str_of_int n))" by (auto simp: release_text_def)
  with assms(1) str_of_int_chars show ?thesis by (auto simp: list_all_iff)
qed

lemma not_digit_punct [simp]: "\<not> is_digit (CHR ''!'')" "\<not> is_digit (CHR ''+'')" "\<not> is_digit (CHR ''.'')" "\<not> is_digit (CHR ''*'')"
  "\<not> is_digit (CHR ''-'')"
  by (simp_all add: is_digit_def)

lemma not_alnum_punct [simp]: "\<not> alnum (CHR ''!'')" "\<not> alnum (CHR ''+'')" "\<not> alnum (CHR ''.'')" "\<not> alnum (CHR ''*'')"
  by (simp_all add: alnum_def lower_char_def)

definition suffix_text :: "pep440 \<Rightarrow> string" where
  "suffix_text v =
     (case v_pre v of None \<Rightarrow> [] | Some (l, n) \<Rightarrow> l @ str_of_int n)
     @ (case v_post v of None \<Rightarrow> [] | Some (_, n) \<Rightarrow> ''.post'' @ str_of_int n)
     @ (case v_dev v of None \<Rightarrow> [] | Some (_, n) \<Rightarrow> ''.dev'' @ str_of_int n)"

definition plus_text :: "pep440 \<Rightarrow> string" where
  "plus_text v = (case pv_local v of None \<Rightarrow> [] | Some l \<Rightarrow> ''+'' @ l)"

lemma tail_text_eq: "tail_text v = suffix_text v @ plus_text v"
  by (simp add: tail_text_def suffix_text_def plus_text_def)

lemma suffix_text_chars:
  assumes "pep_wf v" and "c \<in> set (suffix_text v)"
  shows "is_digit c \<or> c \<in> set ''.abrcpostdev''"
  using assms str_of_int_chars
  by (auto simp: pep_wf_def num_ok_def suffix_text_def split: option.splits)

lemma plus_text_chars:
  assumes "pep_wf v" and "c \<in> set (plus_text v)"
  shows "alnum c \<or> c = CHR ''+'' \<or> c = CHR ''.''"
proof (cases "v_local v")
  case None
  with assms(2) show ?thesis by (simp add: plus_text_def pv_local_def)
next
  case (Some ps)
  with assms have "ps \<noteq> []" "list_all local_ok ps" by (auto simp: pep_wf_def)
  with Some assms(2) have "c = CHR ''+'' \<or> c \<in> set (join_with ''.'' (map local_text ps))"
    by (cases ps) (auto simp: plus_text_def pv_local_def)
  with set_join_with [of "''.''" "map local_text ps"] \<open>list_all local_ok ps\<close> local_text_ok show ?thesis
    by (fastforce simp: list_all_iff)
qed

lemma text_bang_free:
  assumes "pep_wf v"
  shows "CHR ''!'' \<notin> set (release_text v @ tail_text v)"
proof -
  have "list_all (\<lambda>n. 0 \<le> n) (v_release v)" using assms by (simp add: pep_wf_def)
  from release_text_chars [OF this, of "CHR ''!''"] suffix_text_chars [OF assms, of "CHR ''!''"]
    plus_text_chars [OF assms, of "CHR ''!''"] show ?thesis by (auto simp: tail_text_eq)
qed

lemma after_texts:
  assumes "pep_wf v"
  shows "after_dev (plus_text v)"
    and "after_post ((case v_dev v of None \<Rightarrow> [] | Some (_, n) \<Rightarrow> ''.dev'' @ str_of_int n) @ plus_text v)"
    and "after_pre ((case v_post v of None \<Rightarrow> [] | Some (_, n) \<Rightarrow> ''.post'' @ str_of_int n)
      @ (case v_dev v of None \<Rightarrow> [] | Some (_, n) \<Rightarrow> ''.dev'' @ str_of_int n) @ plus_text v)"
proof -
  show 1: "after_dev (plus_text v)" by (auto simp: after_dev_def plus_text_def split: option.split)
  show 2: "after_post ((case v_dev v of None \<Rightarrow> [] | Some (_, n) \<Rightarrow> ''.dev'' @ str_of_int n) @ plus_text v)"
    using after_stops(3) [OF 1] by (auto simp: after_post_def split: option.split)
  show "after_pre ((case v_post v of None \<Rightarrow> [] | Some (_, n) \<Rightarrow> ''.post'' @ str_of_int n)
      @ (case v_dev v of None \<Rightarrow> [] | Some (_, n) \<Rightarrow> ''.dev'' @ str_of_int n) @ plus_text v)"
    using after_stops(2) [OF 2] by (auto simp: after_pre_def split: option.split)
qed

lemma tail_take:
  assumes "pep_wf v" and "rx_match r k (rev (tail_text v) @ b, [], local_caps v (dev_caps (v_dev v)
      (post_caps (v_post v) (pre_caps (v_pre v) c)))) = Some x"
  shows "rx_match pre_re (rx_match post_re (rx_match dev_re (rx_match local_part_re (rx_match r k))))
    (b, tail_text v, c) = Some x"
proof -
  note at = after_texts [OF assms(1)]
  have pre: "num_ok {''a'', ''b'', ''rc''} (v_pre v)" and post: "num_ok {''post''} (v_post v)"
    and dev: "num_ok {''dev''} (v_dev v)"
    and loc: "case v_local v of None \<Rightarrow> True | Some ps \<Rightarrow> ps \<noteq> [] \<and> list_all local_ok ps"
    using assms(1) by (simp_all add: pep_wf_def)
  show ?thesis unfolding tail_text_def
    apply (rule pre_take [OF pre])
    subgoal using at(3) by (simp add: plus_text_def)
    apply (rule post_take [OF post])
    subgoal using at(2) by (simp add: plus_text_def)
    apply (rule dev_take [OF dev])
    subgoal using at(1) by (simp add: plus_text_def)
    apply (rule local_take [OF loc])
    using assms(2) by (simp add: tail_text_def)
qed

lemma match_printed:
  assumes "pep_wf v"
  shows "re_match version_regex (pep_str v) = Some (printed_caps v)"
proof -
  define k where "k = rx_match (Star Space) (rx_match Eos (\<lambda>(b :: string, ys :: string, c). Some (c :: caps)))"
  have wf: "0 \<le> v_epoch v" "v_release v \<noteq> []" "list_all (\<lambda>n. 0 \<le> n) (v_release v)"
    using assms by (simp_all add: pep_wf_def)
  have k: "k (b, [], c) = Some c" for b c by (simp add: k_def Space_def star_chr_stop)
  have goes: "after_pre (tail_text v) \<or> (\<exists>y zs. tail_text v = y # zs \<and> y \<in> set ''abr'')"
  proof (cases "v_pre v")
    case None
    with after_texts(3) [OF assms] show ?thesis by (simp add: tail_text_eq suffix_text_def)
  next
    case (Some p)
    with assms show ?thesis by (cases p) (auto simp: pep_wf_def num_ok_def tail_text_def)
  qed
  define t where "t = pep_str v"
  obtain d ds where d: "t = d # ds" "is_digit d"
  proof -
    obtain n ns where n: "v_release v = n # ns" using wf(2) by (cases "v_release v") auto
    then have "0 \<le> n" using wf(3) by simp
    from digit_head [OF this] obtain a as where a: "str_of_int n = a # as" "is_digit a" by blast
    have r: "release_text v = str_of_int n @ sep_parts CHR ''.'' (map str_of_int ns)"
      by (simp add: release_text_def n join_sep_parts)
    show thesis
    proof (cases "v_epoch v = 0")
      case True
      with a r that show thesis by (simp add: t_def pep_str_def epoch_text_def)
    next
      case False
      from digit_head [OF wf(1)] obtain a' as' where "str_of_int (v_epoch v) = a' # as'" "is_digit a'" by blast
      with False that show thesis by (simp add: t_def pep_str_def epoch_text_def)
    qed
  qed
  have "rx_match epoch_re (rx_match (Group ''release'' release_re) (rx_match pre_re (rx_match post_re
      (rx_match dev_re (rx_match local_part_re (rx_match Eps k)))))) ([], t, []) = Some (printed_caps v)"
    unfolding t_def pep_str_def
    apply (rule epoch_take [OF wf(1) text_bang_free [OF assms]])
    unfolding release_text_def
    apply (rule release_take [OF wf(2,3) goes])
    apply (rule tail_take [OF assms])
    by (simp add: k printed_caps_def release_text_def)
  moreover have "rx_match (lit ''v'') k' ([], t, []) = None" for k' :: "rx_state \<Rightarrow> caps option"
    using d by (auto simp: lit.simps is_digit_def)
  moreover have "rx_match Eps k = k" by (rule ext) simp
  ultimately have "rx_match VERSION_PATTERN k ([], t, []) = Some (printed_caps v)"
    by (simp add: VERSION_PATTERN_parts opt_skip rx_match_Seq)
  moreover have "rx_match (Star Space) (rx_match VERSION_PATTERN k) ([], t, []) = rx_match VERSION_PATTERN k ([], t, [])"
    unfolding Space_def using d by (intro star_chr_stop) (auto simp: is_digit_def strip_ws_def)
  ultimately show ?thesis unfolding re_match_def version_regex_def t_def k_def by (simp add: rx_match_Seq)
qed

lemma local_part_of_text: "local_ok p \<Longrightarrow> local_part_of (local_text p) = p"
  using str_of_int_digits
  by (cases p) (auto simp: local_ok_def local_text_def local_part_of_def isdigit_def all_digits_def)

lemma parse_pv_local:
  assumes "case v_local v of None \<Rightarrow> True | Some ps \<Rightarrow> ps \<noteq> [] \<and> list_all local_ok ps"
  shows "parse_local_version (pv_local v) = v_local v"
proof (cases "v_local v")
  case (Some qs)
  then obtain p ps where p: "v_local v = Some (p # ps)" "list_all local_ok (p # ps)" using assms by (cases qs) auto
  let ?Q = "\<lambda>c. c \<in> set ''._-''"
  have free: "list_all (\<lambda>c. \<not> ?Q c) (local_text q)" if "local_ok q" for q
    unfolding list_all_iff
  proof
    fix c assume "c \<in> set (local_text q)"
    with local_text_ok [OF that] have "alnum c" by (simp add: list_all_iff)
    from alnum_not_sep [OF this] show "\<not> ?Q c" by auto
  qed
  let ?us = "map (\<lambda>q. CHR ''.'' # local_text q) ps"
  have "\<exists>d r. u = d # r \<and> ?Q d \<and> list_all (\<lambda>c. \<not> ?Q c) r" if "u \<in> set ?us" for u
  proof -
    from that obtain q where "q \<in> set ps" "u = CHR ''.'' # local_text q" by auto
    with free [of q] p(2) show ?thesis by (intro exI [of _ "CHR ''.''"] exI [of _ "local_text q"]) (simp add: list_all_iff)
  qed
  then have "split_any ?Q (local_text p @ concat ?us) = local_text p # map tl ?us"
    using free [of p] p(2) by (intro split_any_concat) auto
  moreover have "pv_local v = Some (local_text p @ concat ?us)"
    using p(1) by (simp add: pv_local_def join_sep_parts sep_parts_def comp_def)
  moreover have "map (\<lambda>q. local_part_of (local_text q)) (p # ps) = p # ps"
    by (rule map_idI) (use p(2) local_part_of_text in \<open>auto simp: list_all_iff\<close>)
  ultimately show ?thesis using p(1) by (simp add: parse_local_version_def comp_def del: list.set)
qed (simp add: parse_local_version_def pv_local_def)

lemma split_release:
  assumes "v_release v \<noteq> []" and "list_all (\<lambda>n. 0 \<le> n) (v_release v)"
  shows "map int_of (split_on CHR ''.'' (release_text v)) = v_release v"
proof -
  have "split_on CHR ''.'' (release_text v) = map str_of_int (v_release v)"
    unfolding release_text_def
    by (rule split_join) (use assms str_of_int_chars [of _ "CHR ''.''"] in \<open>auto simp: list_all_iff\<close>)
  moreover have "map (int_of \<circ> str_of_int) (v_release v) = v_release v"
    using assms(2) by (auto simp: list_all_iff intro: map_idI)
  ultimately show ?thesis by simp
qed

lemma caps_get:
  "m \<notin> {''pre'', ''pre_n'', ''pre_l''} \<Longrightarrow> dget (pre_caps p c) m = dget c m"
  "m \<notin> {''post'', ''post_n2'', ''post_l''} \<Longrightarrow> dget (post_caps p c) m = dget c m"
  "m \<notin> {''dev'', ''dev_n'', ''dev_l''} \<Longrightarrow> dget (dev_caps p c) m = dget c m"
  "m \<noteq> ''local'' \<Longrightarrow> dget (local_caps v c) m = dget c m"
  "m \<noteq> ''epoch'' \<Longrightarrow> dget (epoch_caps v) m = None"
  by (auto simp: pre_caps_def post_caps_def dev_caps_def local_caps_def epoch_caps_def split: option.split)

lemma printed_get:
  "dget (printed_caps v) ''epoch'' = dget (epoch_caps v) ''epoch''"
  "dget (printed_caps v) ''release'' = Some (release_text v)"
  "dget (printed_caps v) ''pre_l'' = map_option fst (v_pre v)"
  "dget (printed_caps v) ''pre_n'' = map_option (\<lambda>p. str_of_int (snd p)) (v_pre v)"
  "dget (printed_caps v) ''post_l'' = map_option (\<lambda>p. ''post'') (v_post v)"
  "dget (printed_caps v) ''post_n1'' = None"
  "dget (printed_caps v) ''post_n2'' = map_option (\<lambda>p. str_of_int (snd p)) (v_post v)"
  "dget (printed_caps v) ''dev_l'' = map_option (\<lambda>p. ''dev'') (v_dev v)"
  "dget (printed_caps v) ''dev_n'' = map_option (\<lambda>p. str_of_int (snd p)) (v_dev v)"
  "dget (printed_caps v) ''local'' = pv_local v"
proof -
  have 1: "dget (pre_caps p c) ''pre_l'' = (case p of None \<Rightarrow> dget c ''pre_l'' | Some q \<Rightarrow> Some (fst q))"
    "dget (pre_caps p c) ''pre_n'' = (case p of None \<Rightarrow> dget c ''pre_n'' | Some q \<Rightarrow> Some (str_of_int (snd q)))"
    "dget (post_caps p c) ''post_l'' = (case p of None \<Rightarrow> dget c ''post_l'' | Some q \<Rightarrow> Some ''post'')"
    "dget (post_caps p c) ''post_n2'' = (case p of None \<Rightarrow> dget c ''post_n2'' | Some q \<Rightarrow> Some (str_of_int (snd q)))"
    "dget (dev_caps p c) ''dev_l'' = (case p of None \<Rightarrow> dget c ''dev_l'' | Some q \<Rightarrow> Some ''dev'')"
    "dget (dev_caps p c) ''dev_n'' = (case p of None \<Rightarrow> dget c ''dev_n'' | Some q \<Rightarrow> Some (str_of_int (snd q)))"
    "dget (local_caps v c) ''local'' = (case pv_local v of None \<Rightarrow> dget c ''local'' | Some q \<Rightarrow> Some q)" for p c
    by (auto simp: pre_caps_def post_caps_def dev_caps_def local_caps_def split: option.split)
  show "dget (printed_caps v) ''epoch'' = dget (epoch_caps v) ''epoch''"
    "dget (printed_caps v) ''release'' = Some (release_text v)"
    "dget (printed_caps v) ''pre_l'' = map_option fst (v_pre v)"
    "dget (printed_caps v) ''pre_n'' = map_option (\<lambda>p. str_of_int (snd p)) (v_pre v)"
    "dget (printed_caps v) ''post_l'' = map_option (\<lambda>p. ''post'') (v_post v)"
    "dget (printed_caps v) ''post_n1'' = None"
    "dget (printed_caps v) ''post_n2'' = map_option (\<lambda>p. str_of_int (snd p)) (v_post v)"
    "dget (printed_caps v) ''dev_l'' = map_option (\<lambda>p. ''dev'') (v_dev v)"
    "dget (printed_caps v) ''dev_n'' = map_option (\<lambda>p. str_of_int (snd p)) (v_dev v)"
    "dget (printed_caps v) ''local'' = pv_local v"
    by (simp_all add: printed_caps_def caps_get 1 split: option.split)
qed

lemma parse_letter_printed:
  assumes "num_ok L p" and "\<And>l. l \<in> L \<Longrightarrow> l \<noteq> [] \<and> spelling (lower l) = l"
  shows "parse_letter_version (map_option fst p) (map_option (\<lambda>p. str_of_int (snd p)) p) = p"
  using assms str_of_int_digits by (cases p) (auto simp: num_ok_def parse_letter_version_def truthy_def)

lemma fixed_letter: "num_ok {l} p \<Longrightarrow> map_option (\<lambda>p. l) p = map_option fst p"
  by (cases p) (auto simp: num_ok_def)

lemma printed_groups:
  assumes "pep_wf v"
  shows "version_of_groups (printed_caps v) = v"
proof -
  have wf: "0 \<le> v_epoch v" "v_release v \<noteq> []" "list_all (\<lambda>n. 0 \<le> n) (v_release v)"
    "num_ok {''a'', ''b'', ''rc''} (v_pre v)" "num_ok {''post''} (v_post v)" "num_ok {''dev''} (v_dev v)"
    "case v_local v of None \<Rightarrow> True | Some ps \<Rightarrow> ps \<noteq> [] \<and> list_all local_ok ps"
    using assms by (simp_all add: pep_wf_def)
  have ne: "str_of_int (v_epoch v) \<noteq> []" using str_of_int_digits [OF wf(1)] by blast
  note sp = spelling_def lower_def lower_char_def
  have "parse_letter_version (map_option fst (v_pre v)) (map_option (\<lambda>p. str_of_int (snd p)) (v_pre v)) = v_pre v"
    by (rule parse_letter_printed [OF wf(4)]) (auto simp: sp)
  moreover have "parse_letter_version (map_option fst (v_post v)) (map_option (\<lambda>p. str_of_int (snd p)) (v_post v)) = v_post v"
    by (rule parse_letter_printed [OF wf(5)]) (auto simp: sp)
  moreover have "parse_letter_version (map_option fst (v_dev v)) (map_option (\<lambda>p. str_of_int (snd p)) (v_dev v)) = v_dev v"
    by (rule parse_letter_printed [OF wf(6)]) (auto simp: sp)
  moreover have "(case truthy (dget (epoch_caps v) ''epoch'') of Some e \<Rightarrow> int_of e | None \<Rightarrow> 0) = v_epoch v"
    using wf(1) ne by (simp add: epoch_caps_def truthy_def)
  ultimately show ?thesis
    using split_release [OF wf(2,3)] parse_pv_local [OF wf(7)]
    by (simp add: version_of_groups_def printed_get truthy_def [of None] fixed_letter [OF wf(5)] fixed_letter [OF wf(6)])
qed

lemma pep_version_str: "pep_wf v \<Longrightarrow> pep_version (pep_str v) = Inr v"
  by (simp add: pep_version_def match_printed printed_groups)

section \<open>The order of versions\<close>

text \<open>A type with a least and a greatest element added, for the segments that may be missing.\<close>

datatype 'a ext = Low | Val 'a | High

fun ext_less :: "'a::linorder ext \<Rightarrow> 'a ext \<Rightarrow> bool" where
  "ext_less Low b \<longleftrightarrow> b \<noteq> Low"
| "ext_less (Val a) (Val b) \<longleftrightarrow> a < b"
| "ext_less (Val a) b \<longleftrightarrow> b = High"
| "ext_less High b \<longleftrightarrow> False"

instantiation ext :: (linorder) linorder
begin

definition less_ext :: "'a ext \<Rightarrow> 'a ext \<Rightarrow> bool" where
  "less_ext = ext_less"

definition less_eq_ext :: "'a ext \<Rightarrow> 'a ext \<Rightarrow> bool" where
  "less_eq_ext a b \<longleftrightarrow> a = b \<or> ext_less a b"

instance
proof
  fix x y z :: "'a ext"
  show "(x < y) = (x \<le> y \<and> \<not> y \<le> x)"
    by (cases x; cases y) (auto simp: less_ext_def less_eq_ext_def)
  show "x \<le> x" by (simp add: less_eq_ext_def)
  show "x \<le> z" if "x \<le> y" "y \<le> z"
    using that by (cases x; cases y; cases z) (auto simp: less_eq_ext_def)
  show "x = y" if "x \<le> y" "y \<le> x"
    using that by (cases x; cases y) (auto simp: less_eq_ext_def)
  show "x \<le> y \<or> y \<le> x"
    by (cases x; cases y) (auto simp: less_eq_ext_def)
qed

end

lemma ext_order [simp]:
  "Low < b \<longleftrightarrow> b \<noteq> Low" "\<not> High < b" "Val x < Val y \<longleftrightarrow> x < y" "Val x < High" "\<not> Val x < Low"
  "Low \<le> b" "a \<le> High" "Val x \<le> Val y \<longleftrightarrow> x \<le> y" "\<not> High \<le> Val x" "\<not> High \<le> Low" "\<not> Val x \<le> Low"
  by (cases a; cases b; auto simp: less_ext_def less_eq_ext_def)+

text \<open>
  The rank of a version: epoch, the parts of the old scheme, the release without trailing zeros, then the phase
  before the release, the one after it, the development phase and the local part. The phase before the
  release is least for a development version without the others, and greatest when it is missing.
\<close>

type_synonym rank = "int \<times> string list \<times> int list \<times> (string \<times> int) ext \<times> (string \<times> int) ext
  \<times> (string \<times> int) ext \<times> (int ext \<times> string) list ext"

definition rel_rank :: "pep440 \<Rightarrow> int list" where
  "rel_rank v = rstrip_while (\<lambda>x. x = 0) (v_release v)"

definition pre_rank :: "pep440 \<Rightarrow> (string \<times> int) ext" where
  "pre_rank v = (case v_pre v of Some p \<Rightarrow> Val p
     | None \<Rightarrow> if v_post v = None \<and> v_dev v \<noteq> None then Low else High)"

definition post_rank :: "pep440 \<Rightarrow> (string \<times> int) ext" where
  "post_rank v = (case v_post v of Some p \<Rightarrow> Val p | None \<Rightarrow> Low)"

definition dev_rank :: "pep440 \<Rightarrow> (string \<times> int) ext" where
  "dev_rank v = (case v_dev v of Some p \<Rightarrow> Val p | None \<Rightarrow> High)"

definition part_rank :: "local_part \<Rightarrow> int ext \<times> string" where
  "part_rank p = (case p of LInt i \<Rightarrow> (Val i, []) | LStr s \<Rightarrow> (Low, s))"

definition local_rank :: "pep440 \<Rightarrow> (int ext \<times> string) list ext" where
  "local_rank v = (case v_local v of Some ps \<Rightarrow> Val (map part_rank ps) | None \<Rightarrow> Low)"

definition legacy_parts :: "string \<Rightarrow> string list" where
  "legacy_parts s = foldl legacy_step [] (parse_version_parts (lower s))"

definition rank :: "any_version \<Rightarrow> rank" where
  "rank v = (case v of
     Version p \<Rightarrow> (v_epoch p, [], rel_rank p, pre_rank p, post_rank p, dev_rank p, local_rank p)
   | LegacyVersion s \<Rightarrow> (- 1, legacy_parts s, [], Low, Low, Low, Low))"

lemma by_op_refl [simp]: "by_op op a a \<longleftrightarrow> op = Le \<or> op = Ge"
  by (cases op) auto

lemma by_op_pair:
  "x \<noteq> y \<Longrightarrow> by_op op (x, a) (y, b) = by_op op x y"
  "by_op op (x, a) (x, b) = by_op op a b"
  by (cases op; auto)+

lemma by_op_list:
  "x \<noteq> y \<Longrightarrow> by_op op (x # xs) (y # ys) = by_op op x y"
  "by_op op (x # xs) (x # ys) = by_op op xs ys"
  "by_op op [] (y # ys) = wants_less op"
  "by_op op (x # xs) [] = (\<not> wants_less op)"
  by (cases op; auto simp: wants_less_def)+

text \<open>Lists of encoded elements compare as the lists do.\<close>

lemma py_cmp_map:
  assumes "\<And>a b. f a = f b \<longleftrightarrow> a = b" and "\<And>a b. a \<noteq> b \<Longrightarrow> py_cmp op (f a) (f b) = Inr (by_op op a b)"
  shows "py_cmp_list op (map f xs) (map f ys) = Inr (by_op op xs ys)"
proof (induction xs arbitrary: ys)
  case Nil
  show ?case by (cases ys; cases op) auto
next
  case (Cons x xs)
  show ?case
  proof (cases ys)
    case Nil
    show ?thesis unfolding Nil by (cases op) auto
  next
    case (Cons y zs)
    then show ?thesis using Cons.IH [of zs] assms by (cases "x = y") (auto simp: by_op_list)
  qed
qed

fun ext_val :: "('a \<Rightarrow> cmp_val) \<Rightarrow> 'a ext \<Rightarrow> cmp_val" where
  "ext_val f Low = NegativeInfinity"
| "ext_val f (Val a) = f a"
| "ext_val f High = Infinity"

text \<open>What the keys do: they tell different values apart, and compare those as the order does.\<close>

definition encodes :: "('a::linorder \<Rightarrow> cmp_val) \<Rightarrow> bool" where
  "encodes f \<longleftrightarrow> (\<forall>a b. f a = f b \<longrightarrow> a = b) \<and> (\<forall>op a b. a \<noteq> b \<longrightarrow> py_cmp op (f a) (f b) = Inr (by_op op a b))
     \<and> (\<forall>a. f a \<noteq> Infinity \<and> f a \<noteq> NegativeInfinity)"

lemma encodes_atoms: "encodes PInt" "encodes PStr"
  by (simp_all add: encodes_def)

lemma encodes_list:
  assumes "inj f" and "\<And>op a b. a \<noteq> b \<Longrightarrow> py_cmp op (f a) (f b) = Inr (by_op op a b)"
  shows "encodes (\<lambda>xs. PTup (map f xs))"
  using py_cmp_map [of f, OF _ assms(2)] assms(1) by (auto simp: encodes_def inj_eq inj_map_eq_map)

lemma ext_val_inj:
  assumes "encodes f"
  shows "ext_val f a = ext_val f b \<longleftrightarrow> a = b"
  using assms unfolding encodes_def by (cases a; cases b; simp; metis)

lemma py_cmp_outer:
  assumes "b \<noteq> Infinity" and "b \<noteq> NegativeInfinity"
  shows "py_cmp op b Infinity = Inr (wants_less op)" "py_cmp op b NegativeInfinity = Inr (\<not> wants_less op)"
  using assms by (cases b; simp)+

lemma ext_val_cmp:
  assumes "encodes f" and "a \<noteq> b"
  shows "py_cmp op (ext_val f a) (ext_val f b) = Inr (by_op op a b)"
proof -
  have 1: "by_op op (Val x) (Val y) = by_op op x y" for x y :: 'a by (cases op) auto
  have 2: "by_op op (Val x) High = wants_less op" "by_op op High (Val x) = (\<not> wants_less op)"
    "by_op op Low (Val x) = wants_less op" "by_op op (Val x) Low = (\<not> wants_less op)"
    "by_op op (Low :: 'a ext) High = wants_less op" "by_op op (High :: 'a ext) Low = (\<not> wants_less op)" for x :: 'a
    by (cases op; simp add: wants_less_def)+
  show ?thesis using assms 1 2 py_cmp_outer
    by (cases a; cases b) (auto simp: encodes_def)
qed

lemma py_cmp_Cons:
  assumes "f a = f b \<longleftrightarrow> a = b" and "a \<noteq> b \<Longrightarrow> py_cmp op (f a) (f b) = Inr (by_op op a b)"
    and "py_cmp_list op as bs = Inr (by_op op x y)"
  shows "py_cmp_list op (f a # as) (f b # bs) = Inr (by_op op (a, x) (b, y))"
  using assms by (cases "a = b") (simp_all add: by_op_pair)

lemma py_cmp_single:
  assumes "f a = f b \<longleftrightarrow> a = b" and "a \<noteq> b \<Longrightarrow> py_cmp op (f a) (f b) = Inr (by_op op a b)"
  shows "py_cmp_list op [f a] [f b] = Inr (by_op op a b)"
  using assms by (cases "a = b") simp_all

lemma encodes_pair:
  assumes "\<And>a b. f a = f b \<longleftrightarrow> a = b" and "\<And>op a b. a \<noteq> b \<Longrightarrow> py_cmp op (f a) (f b) = Inr (by_op op a b)"
    and "encodes g"
  shows "encodes (\<lambda>(a, b). PTup [f a, g b])"
proof -
  have "py_cmp_list op [f a, g b] [f a', g b'] = Inr (by_op op (a, b) (a', b'))" for op a a' b b'
    by (intro py_cmp_Cons py_cmp_single) (use assms in \<open>auto simp: encodes_def\<close>)
  then show ?thesis using assms(1,3) unfolding encodes_def by auto
qed

definition part_val :: "int ext \<times> string \<Rightarrow> cmp_val" where
  "part_val = (\<lambda>(a, b). PTup [ext_val PInt a, PStr b])"

lemma encodes_num_val: "encodes num_val"
proof -
  have "num_val = (\<lambda>(a, b). PTup [PStr a, PInt b])" by (rule ext) (simp add: num_val_def split: prod.split)
  then show ?thesis using encodes_pair [of PStr PInt] encodes_atoms by (simp add: encodes_def)
qed

lemma encodes_part_val: "encodes part_val"
  unfolding part_val_def
  by (rule encodes_pair) (use ext_val_inj ext_val_cmp encodes_atoms in blast)+

lemma encodesD:
  "encodes f \<Longrightarrow> f a = f b \<longleftrightarrow> a = b" "encodes f \<Longrightarrow> a \<noteq> b \<Longrightarrow> py_cmp op (f a) (f b) = Inr (by_op op a b)"
  unfolding encodes_def by blast+

lemma encodes_lists: "encodes f \<Longrightarrow> encodes (\<lambda>xs. PTup (map f xs))"
  by (rule encodes_list) (auto simp: inj_def encodesD)

lemma local_val_part: "local_val = part_val \<circ> part_rank"
  by (rule ext) (auto simp: local_val_def part_val_def part_rank_def split: local_part.split)

lemma key_rank: "pep_cmpkey v = [PInt (v_epoch v), PTup (map PInt (rel_rank v)), ext_val num_val (pre_rank v),
    ext_val num_val (post_rank v), ext_val num_val (dev_rank v), ext_val (\<lambda>ps. PTup (map part_val ps)) (local_rank v)]"
  by (auto simp: pep_cmpkey_def Let_def rel_rank_def pre_rank_def post_rank_def dev_rank_def local_rank_def
      local_val_part split: option.split)

lemma key_cmp_versions: "py_cmp op (key (Version v)) (key (Version w)) = Inr (by_op op (rank (Version v)) (rank (Version w)))"
proof -
  note 1 = encodesD [OF encodes_atoms(1)]
  note 2 = encodesD [OF encodes_lists [OF encodes_atoms(1)]]
  note 3 = ext_val_inj [OF encodes_num_val] ext_val_cmp [OF encodes_num_val]
  note 4 = ext_val_inj [OF encodes_lists [OF encodes_part_val]] ext_val_cmp [OF encodes_lists [OF encodes_part_val]]
  have shift: "by_op op (e, ([] :: string list), x) (e', [], y) = by_op op (e, x) (e', y)" for e e' :: int and x y :: "'b::linorder"
    by (cases op) auto
  show ?thesis
    unfolding key_def any_version.case key_rank py_cmp.simps rank_def shift
    by (rule py_cmp_Cons [where f = PInt, OF 1] py_cmp_Cons [where f = "\<lambda>xs. PTup (map PInt xs)", OF 2]
        py_cmp_Cons [where f = "ext_val num_val", OF 3] py_cmp_single [where f = "ext_val (\<lambda>ps. PTup (map part_val ps))", OF 4]
        | assumption)+
qed

lemma py_cmp_epoch: "a < b \<Longrightarrow> py_cmp_list op (PInt a # as) (PInt b # bs) = Inr (wants_less op)"
  "b < a \<Longrightarrow> py_cmp_list op (PInt a # as) (PInt b # bs) = Inr (\<not> wants_less op)"
  by (cases op; simp add: wants_less_def)+

text \<open>Any two parsed texts compare, as their ranks do.\<close>

definition epoch_ok :: "any_version \<Rightarrow> bool" where
  "epoch_ok v = (case v of Version p \<Rightarrow> 0 \<le> v_epoch p | LegacyVersion _ \<Rightarrow> True)"

lemma epoch_ok_parse: "epoch_ok (pkg_parse s)"
  using pep_version_wf by (auto simp: epoch_ok_def pkg_parse_def pep_wf_def split: sum.split)

lemma key_cmp:
  assumes "epoch_ok v" and "epoch_ok w"
  shows "av_cmp op v w = Inr (by_op op (rank v) (rank w))"
proof (cases v; cases w)
  fix p q assume "v = Version p" "w = Version q"
  then show ?thesis by (simp add: av_cmp_def key_cmp_versions)
next
  fix s t assume "v = LegacyVersion s" "w = LegacyVersion t"
  moreover have "py_cmp_list op (map PStr xs) (map PStr ys) = Inr (by_op op xs ys)" for xs ys
    by (rule py_cmp_map) auto
  moreover have "by_op op (x, z) (y, z) = by_op op x y" for x y :: "string list" and z :: "int list \<times> (string \<times> int) ext \<times> (string \<times> int) ext
      \<times> (string \<times> int) ext \<times> (int ext \<times> string) list ext" by (cases op) auto
  ultimately show ?thesis
    by (simp add: av_cmp_def key_def legacy_cmpkey_def rank_def by_op_pair legacy_parts_def [symmetric] inj_map_eq_map inj_def)
next
  fix p s assume "v = Version p" "w = LegacyVersion s"
  with assms show ?thesis
    by (cases op) (simp_all add: av_cmp_def key_def legacy_cmpkey_def key_rank rank_def epoch_ok_def py_cmp_epoch wants_less_def)
next
  fix p s assume "v = LegacyVersion s" "w = Version p"
  with assms show ?thesis
    by (cases op) (simp_all add: av_cmp_def key_def legacy_cmpkey_def key_rank rank_def epoch_ok_def py_cmp_epoch wants_less_def)
qed

lemma key_eq:
  assumes "epoch_ok v" and "epoch_ok w"
  shows "key v = key w \<longleftrightarrow> rank v = rank w"
proof -
  note 1 = ext_val_inj [OF encodes_num_val] ext_val_inj [OF encodes_lists [OF encodes_part_val]]
  show ?thesis
    using assms 1 by (cases v; cases w) (auto simp: key_def key_rank legacy_cmpkey_def legacy_parts_def rank_def epoch_ok_def
        inj_map_eq_map inj_def)
qed

section \<open>Canonical texts\<close>

text \<open>Removing the trailing \<open>.0\<close> of a release.\<close>

lemma rstrip_while_Cons: "rstrip_while P (x # xs) =
    (if rstrip_while P xs = [] then (if P x then [] else [x]) else x # rstrip_while P xs)"
  by (simp add: rstrip_while_def dropWhile_append dropWhile_eq_Nil_conv)

lemma rstrip_while_Nil [simp]: "rstrip_while P [] = []"
  by (simp add: rstrip_while_def)

lemma rstrip_eq_Nil: "rstrip_while P xs = [] \<longleftrightarrow> (\<forall>x\<in>set xs. P x)"
  by (simp add: rstrip_while_def dropWhile_eq_Nil_conv)

lemma lower_zero: "lower_char x = CHR ''0'' \<Longrightarrow> x = CHR ''0''"
  using is_digit_lower [of x] lower_digit [of x] by (auto simp: is_digit_def)

lemma lower_dot: "lower_char x = CHR ''.'' \<Longrightarrow> x = CHR ''.''"
proof (rule ccontr)
  assume z: "lower_char x = CHR ''.''" "x \<noteq> CHR ''.''"
  then have "lower_char x \<noteq> x" by auto
  then have "97 \<le> (of_char (lower_char x) :: nat)" by (auto simp: lower_char_def Let_def)
  with z(1) show False by simp
qed

lemma lit_dot_zero: "u \<in> lang (lit ''.0'') \<longleftrightarrow> u = ''.0''"
proof
  assume "u \<in> lang (lit ''.0'')"
  then obtain x y where "u = [x, y]" "lower_char x = CHR ''.''" "lower_char y = CHR ''0''"
    unfolding lang_lit map_eq_Cons_conv map_is_Nil_conv by blast
  then show "u = ''.0''" using lower_dot [of x] lower_zero [of y] by simp
next
  assume "u = ''.0''"
  then show "u \<in> lang (lit ''.0'')" unfolding lang_lit by (simp add: lower_char_def)
qed

lemma zeros_lang: "u \<in> lang (Plus (lit ''.0'')) \<longleftrightarrow> (\<exists>k. u = sep_parts CHR ''.'' (replicate (Suc k) ''0''))"
proof
  assume "u \<in> lang (Plus (lit ''.0''))"
  then obtain v us where "u = v @ concat us" "v \<in> lang (lit ''.0'')" "set us \<subseteq> lang (lit ''.0'')"
    unfolding Plus_def lang.simps by blast
  then have u: "u = ''.0'' @ concat us" "set us \<subseteq> {''.0''}" unfolding subset_iff lit_dot_zero by simp_all
  have "set us \<subseteq> {''.0''} \<Longrightarrow> concat us = sep_parts CHR ''.'' (replicate (length us) ''0'')"
    by (induction us) auto
  with u have "u = sep_parts CHR ''.'' (replicate (Suc (length us)) ''0'')" by simp
  then show "\<exists>k. u = sep_parts CHR ''.'' (replicate (Suc k) ''0'')" ..
next
  assume "\<exists>k. u = sep_parts CHR ''.'' (replicate (Suc k) ''0'')"
  then obtain k where k: "u = ''.0'' @ concat (replicate k ''.0'')" by (auto simp: sep_parts_def)
  have "set (replicate k ''.0'') \<subseteq> lang (lit ''.0'')" by (auto simp: lit_dot_zero)
  then have "concat (replicate k ''.0'') \<in> lang (Star (lit ''.0''))" unfolding lang.simps(5) by blast
  moreover have "''.0'' \<in> lang (lit ''.0'')" by (simp add: lit_dot_zero)
  ultimately show "u \<in> lang (Plus (lit ''.0''))" unfolding k Plus_def lang.simps(3) by blast
qed

lemma re_at_zeros:
  assumes "CHR 0x0A \<notin> set s"
  shows "re_at zeros_re s = (if s \<in> lang (Plus (lit ''.0'')) then Some [] else None)"
proof -
  have "re_at zeros_re s \<noteq> None \<longleftrightarrow> re_match zeros_re s \<noteq> None"
  proof
    assume "re_at zeros_re s \<noteq> None"
    then obtain y where "rx_match zeros_re (\<lambda>(b, ys, c). Some ys) ([], s, []) = Some y" by (auto simp: re_at_def)
    from rx_match_sound [OF this] obtain s' where "rx_rel zeros_re ([], s, []) s'" by blast
    then show "re_match zeros_re s \<noteq> None" unfolding re_match_def by (rule rx_match_complete) (auto split: prod.split)
  next
    assume "re_match zeros_re s \<noteq> None"
    then obtain y where "rx_match zeros_re (\<lambda>(b, ys, c). Some c) ([], s, []) = Some y" by (auto simp: re_match_def)
    from rx_match_sound [OF this] obtain s' where "rx_rel zeros_re ([], s, []) s'" by blast
    then show "re_at zeros_re s \<noteq> None" unfolding re_at_def by (rule rx_match_complete) (auto split: prod.split)
  qed
  moreover have "re_match zeros_re s \<noteq> None \<longleftrightarrow> s \<in> lang (Plus (lit ''.0''))"
    unfolding zeros_re_def using re_match_lang [of "Plus (lit ''.0'')" s] assms by auto
  moreover have "ys = []" if "re_at zeros_re s = Some ys" for ys
  proof -
    from rx_match_sound [OF that [unfolded re_at_def]] obtain b c where
      "rx_rel zeros_re ([], s, []) (b, ys, c)" by auto
    then obtain b' ys' c' where r: "rx_rel (Plus (lit ''.0'')) ([], s, []) (b', ys', c')" "ys = ys'" "ys' = [] \<or> ys' = [CHR 0x0A]"
      unfolding zeros_re_def by auto
    from lang_rel [OF _ r(1)] obtain u where "s = u @ ys'" by auto
    with r(2,3) assms show "ys = []" by auto
  qed
  ultimately show ?thesis by (cases "re_at zeros_re s") auto
qed

lemma split_sep_parts: "\<forall>p\<in>set ps. d \<notin> set p \<Longrightarrow> split_on d (sep_parts d ps) = [] # ps"
proof (induction ps)
  case (Cons p ps)
  have "split_on d (p @ sep_parts d ps) = p # ps"
  proof (cases ps)
    case Nil
    with Cons.prems show ?thesis by (simp add: split_on_free)
  next
    case (Cons q qs)
    with Cons.prems Cons.IH show ?thesis by (simp add: split_on_append)
  qed
  then show ?case by simp
qed simp

lemma zero_parts:
  assumes "list_all (\<lambda>n. 0 \<le> n) ns"
  shows "sep_parts CHR ''.'' (map str_of_int ns) \<in> lang (Plus (lit ''.0'')) \<longleftrightarrow> ns \<noteq> [] \<and> (\<forall>n\<in>set ns. n = 0)"
proof
  assume "sep_parts CHR ''.'' (map str_of_int ns) \<in> lang (Plus (lit ''.0''))"
  then obtain k where "sep_parts CHR ''.'' (map str_of_int ns) = sep_parts CHR ''.'' (replicate (Suc k) ''0'')"
    unfolding zeros_lang by blast
  then have "split_on CHR ''.'' (sep_parts CHR ''.'' (map str_of_int ns)) = split_on CHR ''.'' (sep_parts CHR ''.'' (replicate (Suc k) ''0''))"
    by (rule arg_cong)
  moreover have "\<forall>p\<in>set (map str_of_int ns). CHR ''.'' \<notin> set p"
    using assms str_of_int_chars [of _ "CHR ''.''"] by (auto simp: list_all_iff)
  moreover have "\<forall>p\<in>set (replicate (Suc k) ''0''). CHR ''.'' \<notin> set p" by auto
  ultimately have e: "map str_of_int ns = replicate (Suc k) ''0''" by (simp only: split_sep_parts list.inject)
  have "n = 0" if "n \<in> set ns" for n
  proof -
    from that e have "str_of_int n = ''0''" by (metis in_set_replicate list.set_map imageI)
    with that assms int_of_str [of n] have "n = int_of ''0''" by (auto simp: list_all_iff)
    then show "n = 0" by (simp add: int_of_def nat_of_digits_def digit_val_def)
  qed
  with e show "ns \<noteq> [] \<and> (\<forall>n\<in>set ns. n = 0)" by auto
next
  assume "ns \<noteq> [] \<and> (\<forall>n\<in>set ns. n = 0)"
  then have "ns = replicate (length ns) 0" "ns \<noteq> []" by (simp_all add: replicate_eqI)
  then obtain k where k: "ns = replicate (Suc k) 0" by (metis length_0_conv not0_implies_Suc)
  have "str_of_int 0 = ''0''" by (simp add: str_of_int_def)
  with k show "sep_parts CHR ''.'' (map str_of_int ns) \<in> lang (Plus (lit ''.0''))"
    unfolding zeros_lang by (auto simp: map_replicate simp del: replicate_Suc)
qed

lemma newline_not_digit [simp]: "\<not> is_digit (CHR 0x0A)"
  by (simp add: is_digit_def)

lemma parts_newline: "list_all (\<lambda>n. 0 \<le> n) ms \<Longrightarrow> CHR 0x0A \<notin> set (sep_parts CHR ''.'' (map str_of_int ms))"
proof (induction ms)
  case (Cons m ms)
  then show ?case using str_of_int_chars [of m "CHR 0x0A"] by auto
qed simp

lemma re_sub_digits:
  assumes "list_all is_digit ds" and "CHR 0x0A \<notin> set s"
  shows "re_sub zeros_re [] (ds @ s) = ds @ re_sub zeros_re [] s"
  using assms(1)
proof (induction ds)
  case (Cons d ds)
  have nl: "CHR 0x0A \<notin> set (d # ds @ s)"
    using assms(2) Cons.prems newline_not_digit by (auto simp: list_all_iff simp del: newline_not_digit)
  have "d # ds @ s \<notin> lang (Plus (lit ''.0''))"
    using Cons.prems unfolding zeros_lang by auto
  with re_at_zeros [OF nl] Cons show ?case by simp
qed simp

lemma re_sub_parts:
  assumes "list_all (\<lambda>n. 0 \<le> n) ns"
  shows "re_sub zeros_re [] (sep_parts CHR ''.'' (map str_of_int ns)) = sep_parts CHR ''.'' (map str_of_int (rstrip_while (\<lambda>n. n = 0) ns))"
  using assms
proof (induction ns)
  case (Cons n ns)
  let ?t = "sep_parts CHR ''.'' (map str_of_int (n # ns))"
  have nl: "CHR 0x0A \<notin> set ?t" "CHR 0x0A \<notin> set (sep_parts CHR ''.'' (map str_of_int ns))"
    using parts_newline [of "n # ns"] parts_newline [of ns] Cons.prems by simp_all
  note zp = zero_parts [OF Cons.prems] and at = re_at_zeros [OF nl(1)]
  show ?case
  proof (cases "\<forall>m\<in>set (n # ns). m = 0")
    case True
    with zp at have "re_at zeros_re ?t = Some []" by auto
    moreover have "rstrip_while (\<lambda>n. n = 0) (n # ns) = []" using True unfolding rstrip_eq_Nil .
    ultimately show ?thesis by simp
  next
    case False
    with zp at have "re_at zeros_re ?t = None" by auto
    moreover have "re_sub zeros_re [] (str_of_int n @ sep_parts CHR ''.'' (map str_of_int ns))
        = str_of_int n @ re_sub zeros_re [] (sep_parts CHR ''.'' (map str_of_int ns))"
      using re_sub_digits [OF _ nl(2)] str_of_int_digits [of n] Cons.prems by simp
    moreover have "rstrip_while (\<lambda>n. n = 0) (n # ns) = n # rstrip_while (\<lambda>n. n = 0) ns"
      using False rstrip_eq_Nil [of "\<lambda>n. n = 0" ns] by (auto simp: rstrip_while_Cons)
    ultimately show ?thesis using Cons by simp
  qed
qed simp

definition canonical_release :: "int list \<Rightarrow> int list" where
  "canonical_release ns = hd ns # rstrip_while (\<lambda>n. n = 0) (tl ns)"

lemma canonical_release_rel:
  "ns \<noteq> [] \<Longrightarrow> canonical_release ns = (if rstrip_while (\<lambda>n. n = 0) ns = [] then [0] else rstrip_while (\<lambda>n. n = 0) ns)"
  by (cases ns) (auto simp: canonical_release_def rstrip_while_Cons)

lemma canonical_rank:
  "v_release v \<noteq> [] \<Longrightarrow> v_release w \<noteq> [] \<Longrightarrow>
     canonical_release (v_release v) = canonical_release (v_release w) \<longleftrightarrow> rel_rank v = rel_rank w"
proof -
  have no: "rstrip_while (\<lambda>n. n = 0) ns \<noteq> [0]" for ns :: "int list"
  proof
    assume "rstrip_while (\<lambda>n. n = 0) ns = [0]"
    then have "dropWhile (\<lambda>n. n = 0) (rev ns) = [0]" by (simp add: rstrip_while_def)
    with hd_dropWhile [of "\<lambda>n. n = 0" "rev ns"] show False by simp
  qed
  show "v_release v \<noteq> [] \<Longrightarrow> v_release w \<noteq> [] \<Longrightarrow>
     canonical_release (v_release v) = canonical_release (v_release w) \<longleftrightarrow> rel_rank v = rel_rank w"
    using no [of "v_release v"] no [of "v_release w"] by (auto simp: canonical_release_rel rel_rank_def eq_commute)
qed

definition canonical :: "pep440 \<Rightarrow> pep440" where
  "canonical v = v\<lparr>v_release := canonical_release (v_release v)\<rparr>"

lemma rstrip_while_subset: "set (rstrip_while P xs) \<subseteq> set xs"
  by (auto simp: rstrip_while_def dest: set_dropWhileD)

lemma canonical_wf: "pep_wf v \<Longrightarrow> pep_wf (canonical v)"
  using rstrip_while_subset [of "\<lambda>n. n = 0" "tl (v_release v)"]
  by (cases "v_release v") (auto simp: pep_wf_def canonical_def canonical_release_def list_all_iff)

lemma canonicalize_eq:
  assumes "pep_version s = Inr v"
  shows "canonicalize_version s = pep_str (canonical v)"
proof -
  from pep_version_wf [OF assms] have wf: "v_release v \<noteq> []" "list_all (\<lambda>n. 0 \<le> n) (v_release v)" by (simp_all add: pep_wf_def)
  obtain n ns where n: "v_release v = n # ns" using wf(1) by (cases "v_release v") auto
  have nl: "CHR 0x0A \<notin> set (sep_parts CHR ''.'' (map str_of_int ns))"
    using wf(2) n parts_newline [of ns] by simp
  have "re_sub zeros_re [] (release_text v) = release_text (canonical v)"
    using re_sub_digits [OF _ nl, of "str_of_int n"] re_sub_parts [of ns] wf(2) str_of_int_digits [of n]
    by (simp add: release_text_def canonical_def canonical_release_def n join_sep_parts)
  moreover have "epoch_text (canonical v) = epoch_text v" "tail_text (canonical v) = tail_text v"
    by (simp_all add: epoch_text_def tail_text_def canonical_def pv_local_def)
  ultimately show ?thesis using assms by (simp add: canonicalize_version_def pep_str_def)
qed

section \<open>Properties\<close>

lemma pep_str_inj: "pep_wf v \<Longrightarrow> pep_wf w \<Longrightarrow> pep_str v = pep_str w \<longleftrightarrow> v = w"
  by (metis pep_version_str sum.inject(2))

lemma rank_parts:
  assumes "pep_wf v" and "pep_wf w"
  shows "rank (Version v) = rank (Version w) \<longleftrightarrow> canonical v = canonical w"
proof -
  have ne: "v_release v \<noteq> []" "v_release w \<noteq> []" using assms by (simp_all add: pep_wf_def)
  have inj: "part_rank p = part_rank q \<longleftrightarrow> p = q" for p q by (auto simp: part_rank_def split: local_part.splits)
  then have "map part_rank ps = map part_rank qs \<longleftrightarrow> ps = qs" for ps qs
    by (simp add: inj_map_eq_map inj_def)
  then have "local_rank v = local_rank w \<longleftrightarrow> v_local v = v_local w" by (auto simp: local_rank_def split: option.splits)
  moreover have "post_rank v = post_rank w \<longleftrightarrow> v_post v = v_post w" by (auto simp: post_rank_def split: option.splits)
  moreover have "dev_rank v = dev_rank w \<longleftrightarrow> v_dev v = v_dev w" by (auto simp: dev_rank_def split: option.splits)
  moreover have "v_post v = v_post w \<Longrightarrow> v_dev v = v_dev w \<Longrightarrow> pre_rank v = pre_rank w \<longleftrightarrow> v_pre v = v_pre w"
    by (auto simp: pre_rank_def split: option.splits if_splits)
  ultimately have "rank (Version v) = rank (Version w) \<longleftrightarrow> v_epoch v = v_epoch w \<and> rel_rank v = rel_rank w
      \<and> v_pre v = v_pre w \<and> v_post v = v_post w \<and> v_dev v = v_dev w \<and> v_local v = v_local w"
    by (auto simp: rank_def)
  then show ?thesis unfolding canonical_rank [OF ne, symmetric] by (cases v; cases w) (auto simp: canonical_def)
qed

lemma without_local:
  assumes "pep_wf v"
  shows "pep_public v = pep_str (v\<lparr>v_local := None\<rparr>)" and "pep_wf (v\<lparr>v_local := None\<rparr>)"
proof -
  let ?p = "v\<lparr>v_local := None\<rparr>"
  show "pep_wf ?p" using assms by (simp add: pep_wf_def)
  have same: "epoch_text ?p = epoch_text v" "release_text ?p = release_text v" "suffix_text ?p = suffix_text v" "plus_text ?p = []"
    by (simp_all add: epoch_text_def release_text_def suffix_text_def plus_text_def pv_local_def)
  have "list_all (\<lambda>n. 0 \<le> n) (v_release v)" "0 \<le> v_epoch v" using assms by (simp_all add: pep_wf_def)
  then have "CHR ''+'' \<notin> set (epoch_text v @ release_text v @ suffix_text v)"
    using release_text_chars [of v "CHR ''+''"] suffix_text_chars [OF assms, of "CHR ''+''"]
      str_of_int_chars [of "v_epoch v" "CHR ''+''"] by (auto simp: epoch_text_def)
  moreover have "stops (\<lambda>c. c \<noteq> CHR ''+'') (plus_text v)" by (simp add: plus_text_def split: option.split)
  ultimately have "takeWhile (\<lambda>c. c \<noteq> CHR ''+'') ((epoch_text v @ release_text v @ suffix_text v) @ plus_text v)
      = epoch_text v @ release_text v @ suffix_text v"
    by (intro span_unique(1)) (auto simp: stops_def)
  then show "pep_public v = pep_str ?p" by (simp add: pep_public_def pep_str_def tail_text_eq same)
qed

lemma pep_version_public: "pep_wf v \<Longrightarrow> pep_version (pep_public v) = Inr (v\<lparr>v_local := None\<rparr>)"
  by (simp add: without_local pep_version_str)

definition base_of :: "pep440 \<Rightarrow> pep440" where
  "base_of v = v\<lparr>v_local := None, v_pre := None, v_post := None, v_dev := None\<rparr>"

lemma base_of_wf: "pep_wf v \<Longrightarrow> pep_wf (base_of v)"
  by (simp add: pep_wf_def num_ok_def base_of_def)

lemma pep_version_base: "pep_wf v \<Longrightarrow> pep_version (pep_base_version v) = Inr (base_of v)"
proof -
  assume "pep_wf v"
  have "epoch_text (base_of v) = epoch_text v" "release_text (base_of v) = release_text v" "tail_text (base_of v) = []"
    by (simp_all add: epoch_text_def release_text_def pv_local_def tail_text_def base_of_def)
  then have "pep_base_version v = pep_str (base_of v)" by (simp add: pep_base_version_def pep_str_def)
  with pep_version_str [OF base_of_wf [OF \<open>pep_wf v\<close>]] show ?thesis by simp
qed

definition sample_version :: "int list \<Rightarrow> pep440" where
  "sample_version ns = \<lparr>v_epoch = 1, v_release = ns, v_dev = None, v_pre = Some (''rc'', 1), v_post = None, v_local = Some [LStr ''x'']\<rparr>"

lemma sample_version_text:
  "pep_str (sample_version [2, 0]) = ''1!2.0rc1+x''" "pep_version ''1!2.0rc1+x'' = Inr (sample_version [2, 0])"
  "pep_str (sample_version [2]) = ''1!2rc1+x''" "pep_version ''1!2rc1+x'' = Inr (sample_version [2])"
proof -
  note texts = sample_version_def pep_str_def epoch_text_def release_text_def tail_text_def pv_local_def local_text_def
    str_of_int_def str_of_nat.simps digit_char_def
  show 1: "pep_str (sample_version [2, 0]) = ''1!2.0rc1+x''" and 2: "pep_str (sample_version [2]) = ''1!2rc1+x''"
    by (simp_all add: texts)
  have "pep_wf (sample_version [2, 0])" "pep_wf (sample_version [2])"
    by (simp_all add: sample_version_def pep_wf_def num_ok_def local_ok_def alnum_def lower_def lower_char_def isdigit_def
        all_digits_def is_digit_def)
  from this [THEN pep_version_str] show "pep_version ''1!2.0rc1+x'' = Inr (sample_version [2, 0])"
    "pep_version ''1!2rc1+x'' = Inr (sample_version [2])" unfolding 1 2 .
qed

text \<open>
  C26: A version of PEP 440 prints as a text that reads back as the same version, whatever spelling it was read
  from; so does its public version, without the local part, and its base version, which keeps the epoch and
  the release only.
\<close>
theorem pep_version_roundtrip:
  assumes "pep_version s = Inr v"
  shows "pep_version (pep_str v) = Inr v \<and> pep_version (pep_public v) = Inr (v\<lparr>v_local := None\<rparr>)
    \<and> pep_version (pep_base_version v) = Inr (v\<lparr>v_local := None, v_pre := None, v_post := None, v_dev := None\<rparr>)"
  using pep_version_wf [OF assms] by (simp add: pep_version_str pep_version_public pep_version_base base_of_def)

lemma pep_version_roundtrip_witness: "pep_version ''1!2.0rc1'' = Inr ((sample_version [2, 0])\<lparr>v_local := None\<rparr>)"
proof -
  have "pep_public (sample_version [2, 0]) = ''1!2.0rc1''" by (simp add: pep_public_def sample_version_text)
  with pep_version_roundtrip [OF sample_version_text(2)] show ?thesis by simp
qed

text \<open>
  C25: The comparisons of any two texts that \<open>parse\<close> reads, versions and legacy versions alike, never raise and
  follow the order of the ranks, a linear order; equality is equality of the ranks, and every legacy version is
  before every version of PEP 440.
\<close>
theorem version_comparisons:
  "av_cmp op (pkg_parse s) (pkg_parse t) = Inr (by_op op (rank (pkg_parse s)) (rank (pkg_parse t)))
   \<and> (av_eq (pkg_parse s) (pkg_parse t) \<longleftrightarrow> rank (pkg_parse s) = rank (pkg_parse t))
   \<and> (av_ne (pkg_parse s) (pkg_parse t) \<longleftrightarrow> rank (pkg_parse s) \<noteq> rank (pkg_parse t))
   \<and> (pep_version s = Inl e \<and> pep_version t = Inr w \<longrightarrow> av_cmp Lt (pkg_parse s) (pkg_parse t) = Inr True)"
proof (intro conjI impI)
  note ok = epoch_ok_parse [of s] epoch_ok_parse [of t]
  show 1: "av_cmp op (pkg_parse s) (pkg_parse t) = Inr (by_op op (rank (pkg_parse s)) (rank (pkg_parse t)))" for op
    by (rule key_cmp [OF ok])
  show "av_eq (pkg_parse s) (pkg_parse t) \<longleftrightarrow> rank (pkg_parse s) = rank (pkg_parse t)"
    "av_ne (pkg_parse s) (pkg_parse t) \<longleftrightarrow> rank (pkg_parse s) \<noteq> rank (pkg_parse t)"
    using key_eq [OF ok] by (simp_all add: av_eq_def av_ne_def)
  assume "pep_version s = Inl e \<and> pep_version t = Inr w"
  with pep_version_wf [of t w] 1 [of Lt] show "av_cmp Lt (pkg_parse s) (pkg_parse t) = Inr True"
    by (simp add: pkg_parse_def rank_def pep_wf_def)
qed

lemma version_comparisons_witness:
  "av_cmp Lt (pkg_parse ''2.0-junk'') (pkg_parse ''1rc1'') = Inr True"
proof -
  have "pep_version ''2.0-junk'' = Inl ValueError" by code_simp
  moreover have "pep_version ''1rc1'' = Inr \<lparr>v_epoch = 0, v_release = [1], v_dev = None, v_pre = Some (''rc'', 1),
      v_post = None, v_local = None\<rparr>" by code_simp
  ultimately show ?thesis using version_comparisons [of Lt "''2.0-junk''" "''1rc1''"] by blast
qed

text \<open>
  \<open>canonicalize_version\<close> decides equality: two texts that are versions have the same canonical text if and
  only if the versions are equal; and the canonical text is again a version, equal to the first.
\<close>
theorem canonical_decides_equality:
  assumes "pep_version s = Inr v" and "pep_version t = Inr w"
  shows "(canonicalize_version s = canonicalize_version t \<longleftrightarrow> av_eq (Version v) (Version w))
    \<and> (\<exists>u. pep_version (canonicalize_version s) = Inr u \<and> av_eq (Version u) (Version v))"
proof -
  have wf: "pep_wf v" "pep_wf w" using assms pep_version_wf by blast+
  note cwf = wf [THEN canonical_wf]
  have ok: "epoch_ok (Version v)" "epoch_ok (Version w)" "epoch_ok (Version (canonical v))"
    using wf cwf by (simp_all add: epoch_ok_def pep_wf_def)
  have "canonical (canonical v) = canonical v"
    by (simp add: canonical_def canonical_release_def rstrip_while_def dropWhile_idem)
  then have "rank (Version (canonical v)) = rank (Version v)" using rank_parts [OF cwf(1) wf(1)] by simp
  moreover have "pep_version (canonicalize_version s) = Inr (canonical v)"
    using canonicalize_eq [OF assms(1)] pep_version_str [OF cwf(1)] by simp
  ultimately have "\<exists>u. pep_version (canonicalize_version s) = Inr u \<and> av_eq (Version u) (Version v)"
    using key_eq [OF ok(3,1)] by (auto simp: av_eq_def)
  then show ?thesis
    using rank_parts [OF wf] key_eq [OF ok(1,2)] pep_str_inj [OF cwf] canonicalize_eq [OF assms(1)] canonicalize_eq [OF assms(2)]
    by (simp add: av_eq_def)
qed

lemma canonical_decides_equality_witness: "canonicalize_version ''1!2.0rc1+x'' = canonicalize_version ''1!2rc1+x''"
proof -
  have "av_eq (Version (sample_version [2, 0])) (Version (sample_version [2]))"
    by (simp add: av_eq_def key_def pep_cmpkey_def sample_version_def rstrip_while_def)
  with canonical_decides_equality [OF sample_version_text(2) sample_version_text(4)] show ?thesis by simp
qed

text \<open>The phases of one release.\<close>

definition release_phase :: "pep440 \<Rightarrow> (string \<times> int) option \<Rightarrow> int option \<Rightarrow> int option \<Rightarrow> local_part list option \<Rightarrow> any_version" where
  "release_phase r pre post dev loc = Version (r\<lparr>v_pre := pre, v_post := map_option (Pair ''post'') post,
     v_dev := map_option (Pair ''dev'') dev, v_local := loc\<rparr>)"

text \<open>
  The order of PEP 440 within a release, with any numbers: development version, alpha with its own
  development and post versions, beta, candidate, the release itself, the release with a local part, then the
  post release's development version and the post release.
\<close>
theorem release_phases:
  "sorted_wrt (\<lambda>v w. av_cmp Lt v w = Inr True)
     [release_phase r None None (Some k) None,
      release_phase r (Some (''a'', n)) None (Some k) None, release_phase r (Some (''a'', n)) None None None,
      release_phase r (Some (''a'', n)) (Some m) (Some k) None, release_phase r (Some (''a'', n)) (Some m) None None,
      release_phase r (Some (''b'', n)) None None None, release_phase r (Some (''rc'', n)) None None None,
      release_phase r None None None None, release_phase r None None None (Some (p # ps)),
      release_phase r None (Some m) (Some k) None, release_phase r None (Some m) None None]"
  by (simp add: release_phase_def av_cmp_def key_cmp_versions rank_def rel_rank_def pre_rank_def post_rank_def dev_rank_def local_rank_def)

end
