(* ===== verification/PkgSpecifiersLaws.thy ===== *)
theory PkgSpecifiersLaws
  imports PkgSpecifiers PkgVersionLaws
begin

text \<open>
  Laws of \<open>packaging/specifiers.py\<close>: asking a parsed specifier or set about a parsed version never raises, what the
  operators mean, which releases a prefix matches, and that filtering by a set is filtering by membership.
\<close>

section \<open>Texts of the patterns\<close>

definition conc :: "string set \<Rightarrow> string set \<Rightarrow> string set" where
  "conc A B = {u @ v |u v. u \<in> A \<and> v \<in> B}"

lemma lang_Seq: "lang (Seq r1 r2) = conc (lang r1) (lang r2)"
  by (simp add: conc_def)

lemma conc_assoc: "conc (conc A B) C = conc A (conc B C)"
  unfolding conc_def by (auto; metis append.assoc)

lemma conc_mono: "A \<subseteq> A' \<Longrightarrow> B \<subseteq> B' \<Longrightarrow> conc A B \<subseteq> conc A' B'"
  by (auto simp: conc_def)

lemma conc_Nil: "[] \<in> B \<Longrightarrow> A \<subseteq> conc A B"
  by (force simp: conc_def)

text \<open>Patterns whose texts consist of characters of one kind.\<close>

primrec all_chr :: "(char \<Rightarrow> bool) \<Rightarrow> rx \<Rightarrow> bool" where
  "all_chr P Eps \<longleftrightarrow> True"
| "all_chr P (Chr Q) \<longleftrightarrow> (\<forall>x. Q x \<longrightarrow> P x)"
| "all_chr P (Seq r1 r2) \<longleftrightarrow> all_chr P r1 \<and> all_chr P r2"
| "all_chr P (Alt r1 r2) \<longleftrightarrow> all_chr P r1 \<and> all_chr P r2"
| "all_chr P (Star r) \<longleftrightarrow> all_chr P r"
| "all_chr P (Group n r) \<longleftrightarrow> all_chr P r"
| "all_chr P (Behind ws) \<longleftrightarrow> True"
| "all_chr P (NotBehind ws) \<longleftrightarrow> True"
| "all_chr P Eos \<longleftrightarrow> True"

lemma lang_all_chr: "all_chr P r \<Longrightarrow> u \<in> lang r \<Longrightarrow> list_all P u"
proof (induction r arbitrary: u)
  case (Star r)
  then obtain us where "u = concat us" "set us \<subseteq> lang r" by auto
  with Star show ?case by (auto simp: list_all_iff)
qed auto

lemma lower_space: "strip_ws x \<Longrightarrow> lower_char x = x"
  by (auto simp: strip_ws_def lower_char_def)

lemma visible [simp]:
  "\<not> strip_ws (CHR ''a'')" "\<not> strip_ws (CHR ''b'')" "\<not> strip_ws (CHR ''c'')" "\<not> strip_ws (CHR ''d'')"
  "\<not> strip_ws (CHR ''e'')" "\<not> strip_ws (CHR ''h'')" "\<not> strip_ws (CHR ''i'')" "\<not> strip_ws (CHR ''l'')"
  "\<not> strip_ws (CHR ''o'')" "\<not> strip_ws (CHR ''p'')" "\<not> strip_ws (CHR ''r'')" "\<not> strip_ws (CHR ''s'')"
  "\<not> strip_ws (CHR ''t'')" "\<not> strip_ws (CHR ''v'')" "\<not> strip_ws (CHR ''w'')" "\<not> strip_ws (CHR ''!'')"
  "\<not> strip_ws (CHR ''+'')" "\<not> strip_ws (CHR ''.'')" "\<not> strip_ws (CHR ''-'')" "\<not> strip_ws (CHR ''='')"
  "\<not> strip_ws (CHR ''<'')" "\<not> strip_ws (CHR ''>'')" "\<not> strip_ws (CHR ''~'')" "\<not> strip_ws (CHR ''*'')"
  by (simp_all add: strip_ws_def)

lemma no_space:
  "all_chr (\<lambda>x. \<not> strip_ws x) Digit" "all_chr (\<lambda>x. \<not> strip_ws x) Alnum"
  "all_chr (\<lambda>x. \<not> strip_ws x) (cls ''-_.'')"
  "\<forall>c\<in>set w. \<not> strip_ws c \<Longrightarrow> all_chr (\<lambda>x. \<not> strip_ws x) (lit w)"
proof -
  show "all_chr (\<lambda>x. \<not> strip_ws x) Digit" by (auto simp: Digit_def is_digit_def strip_ws_def)
  show "all_chr (\<lambda>x. \<not> strip_ws x) Alnum"
  proof -
    have "\<not> alnum x" if "strip_ws x" for x
      using that lower_space [OF that] by (auto simp: alnum_def is_digit_def strip_ws_def)
    then show ?thesis by (auto simp: Alnum_def)
  qed
  show "all_chr (\<lambda>x. \<not> strip_ws x) (cls ''-_.'')" by (auto simp: cls_def strip_ws_def)
  show "\<forall>c\<in>set w. \<not> strip_ws c \<Longrightarrow> all_chr (\<lambda>x. \<not> strip_ws x) (lit w)"
    by (induction w rule: lit.induct) (auto simp: lit.simps lower_space)
qed

lemma lang_digits: "insert [] (lang (Plus Digit)) = lang (Star Digit)"
  by (auto simp: Digit_def lang_Plus_chr lang_star_chr simp del: lang.simps(5))

lemma lang_parts_eq:
  "lang pre_re = lang spec_pre" "lang post_re = lang spec_post" "lang dev_re = lang spec_dev"
  "lang local_part_re = lang spec_local"
proof -
  have o: "lang (Opt r) = insert [] (lang r)" for r by (auto simp: Opt_def)
  have g: "lang (Group n r) = lang r" for n r by simp
  note forms = o g seqs.simps lang_Seq lang.simps(4) lang_digits
  show "lang pre_re = lang spec_pre" by (simp only: pre_re_def spec_pre_def forms)
  show "lang post_re = lang spec_post" by (simp only: post_re_def spec_post_def forms)
  show "lang dev_re = lang spec_dev" by (simp only: dev_re_def spec_dev_def forms)
  show "lang local_part_re = lang spec_local" by (simp only: local_part_re_def spec_local_def forms local_re_def)
qed

text \<open>Each alternative for the version of a specifier is white space and a version, or a version with a wild card.\<close>

definition spaced :: "string set \<Rightarrow> string set" where
  "spaced A = {w @ x |w x. list_all strip_ws w \<and> x \<in> A}"

lemma spaced_conc: "spaced A = conc (lang (Star Space)) A"
  unfolding spaced_def conc_def Space_def lang_star_chr by simp

lemma version_pattern_conc:
  "lang VERSION_PATTERN = conc (lang (Opt (lit ''v''))) (conc (lang (Opt (Seq (Plus Digit) (lit ''!''))))
     (conc (lang (Plus Digit)) (conc (lang (Star (Seq (lit ''.'') (Plus Digit)))) (conc (lang spec_pre)
       (conc (lang spec_post) (conc (lang spec_dev) (lang spec_local)))))))"
proof -
  have o: "lang (Opt r) = insert [] (lang r)" for r by (auto simp: Opt_def)
  have g: "lang (Group n r) = lang r" for n r by simp
  show ?thesis
    by (simp only: VERSION_PATTERN_parts seqs.simps lang_Seq lang_parts_eq epoch_re_def release_re_def o g conc_assoc)
qed

lemma conc_end: "[] \<in> B \<Longrightarrow> x \<in> A \<Longrightarrow> x \<in> conc A B"
  using conc_Nil by blast

lemma ordered_text_lang: "lang ordered_text \<subseteq> spaced (lang VERSION_PATTERN)"
proof -
  have "[] \<in> lang spec_local" by (simp add: spec_local_def lang_Opt)
  then have "lang spec_dev \<subseteq> conc (lang spec_dev) (lang spec_local)" by (rule conc_Nil)
  then show ?thesis
    unfolding spaced_conc version_pattern_conc ordered_text_def spec_release_def seqs.simps lang_Seq conc_assoc
    by (intro conc_mono subset_refl)
qed

lemma compatible_text_lang: "lang compatible_text \<subseteq> spaced (lang VERSION_PATTERN)"
proof -
  have "lang (Plus r) \<subseteq> lang (Star r)" for r
  proof
    fix u assume "u \<in> lang (Plus r)"
    then obtain v us where "u = concat (v # us)" "set (v # us) \<subseteq> lang r" unfolding Plus_def by auto
    then show "u \<in> lang (Star r)" unfolding lang.simps(5) by blast
  qed
  moreover have "[] \<in> lang spec_local" by (simp add: spec_local_def lang_Opt)
  then have "lang spec_dev \<subseteq> conc (lang spec_dev) (lang spec_local)" by (rule conc_Nil)
  ultimately show ?thesis
    unfolding spaced_conc version_pattern_conc compatible_text_def spec_release_def seqs.simps lang_Seq conc_assoc
    by (intro conc_mono subset_refl)
qed

lemma wild_card_lang: "lang (Seq (lit ''.'') (lit ''*'')) = {''.*''}"
proof -
  have "lower_char x = CHR ''*'' \<longleftrightarrow> x = CHR ''*''" for x
  proof
    assume l: "lower_char x = CHR ''*''"
    show "x = CHR ''*''"
    proof (rule ccontr)
      assume "x \<noteq> CHR ''*''"
      with l have "lower_char x \<noteq> x" by auto
      then have "97 \<le> (of_char (lower_char x) :: nat)" by (auto simp: lower_char_def Let_def)
      with l show False by simp
    qed
  qed (simp add: lower_char_def)
  moreover have "lower_char x = CHR ''.'' \<longleftrightarrow> x = CHR ''.''" for x using lower_dot [of x] by auto
  ultimately show ?thesis by (auto simp: lit.simps)
qed

lemma equal_text_lang: "lang equal_text \<subseteq> spaced (lang VERSION_PATTERN \<union> {x @ ''.*'' |x. list_all (\<lambda>c. \<not> strip_ws c) x})"
proof
  fix u assume u: "u \<in> lang equal_text"
  let ?B = "lang (Opt (Alt (Seq spec_dev spec_local) (Seq (lit ''.'') (lit ''*''))))"
  define front where "front = seqs [Opt (lit ''v''), Opt (Seq (Plus Digit) (lit ''!'')), Plus Digit,
    Star (Seq (lit ''.'') (Plus Digit)), spec_pre, spec_post]"
  have "lang equal_text = conc (lang (Star Space)) (conc (lang front) ?B)"
    by (simp only: equal_text_def front_def spec_release_def seqs.simps lang_Seq conc_assoc)
  with u obtain w y z where y: "u = w @ y @ z" "w \<in> lang (Star Space)" "y \<in> lang front" "z \<in> ?B"
    unfolding conc_def by auto
  have w: "list_all strip_ws w" using y(2) unfolding Space_def lang_star_chr .
  from y(4) have "z = [] \<or> z \<in> lang (Seq spec_dev spec_local) \<or> z \<in> lang (Seq (lit ''.'') (lit ''*''))"
    unfolding lang_Opt lang.simps(4) by blast
  then have "z = [] \<or> z \<in> conc (lang spec_dev) (lang spec_local) \<or> z = ''.*''"
    unfolding wild_card_lang lang_Seq [of spec_dev] by simp
  moreover have "[] \<in> conc (lang spec_dev) (lang spec_local)"
    by (auto simp: conc_def spec_dev_def spec_local_def lang_Opt)
  ultimately consider "z \<in> conc (lang spec_dev) (lang spec_local)" | "z = ''.*''" by auto
  then show "u \<in> spaced (lang VERSION_PATTERN \<union> {x @ ''.*'' |x. list_all (\<lambda>c. \<not> strip_ws c) x})"
  proof cases
    case 1
    have "y @ z \<in> conc (lang front) (conc (lang spec_dev) (lang spec_local))" using y(3) 1 unfolding conc_def by blast
    also have "\<dots> = lang VERSION_PATTERN"
      by (simp only: version_pattern_conc front_def seqs.simps lang_Seq conc_assoc)
    finally show ?thesis using w y(1) unfolding spaced_def by blast
  next
    case 2
    have "all_chr (\<lambda>x. \<not> strip_ws x) front"
      unfolding front_def by (simp add: spec_pre_def spec_post_def dash_def Opt_def Plus_def no_space)
    from lang_all_chr [OF this y(3)] w y(1) 2 show ?thesis unfolding spaced_def by blast
  qed
qed

lemma version_pattern_no_space: "x \<in> lang VERSION_PATTERN \<Longrightarrow> list_all (\<lambda>c. \<not> strip_ws c) x"
proof (rule lang_all_chr)
  show "all_chr (\<lambda>x. \<not> strip_ws x) VERSION_PATTERN"
    unfolding VERSION_PATTERN_def by (simp add: dash_def Opt_def Plus_def no_space)
qed

lemma strip_spaced: "list_all strip_ws w \<Longrightarrow> list_all (\<lambda>c. \<not> strip_ws c) x \<Longrightarrow> strip (w @ x) = x"
proof -
  assume w: "list_all strip_ws w" and x: "list_all (\<lambda>c. \<not> strip_ws c) x"
  have "dropWhile strip_ws (w @ x) = dropWhile strip_ws x" using w by (simp add: list_all_iff)
  moreover have "dropWhile strip_ws x = x" using x by (cases x) auto
  moreover have "dropWhile strip_ws (rev x) = rev x" using x by (cases "rev x") (auto simp: list_all_iff)
  ultimately show ?thesis by (simp add: strip_def lstrip_while_def rstrip_while_def)
qed

lemma pattern_version: "x \<in> lang VERSION_PATTERN \<Longrightarrow> \<exists>v. pep_version x = Inr v"
proof -
  assume "x \<in> lang VERSION_PATTERN"
  moreover have e: "[] \<in> lang (Star Space)" unfolding Space_def lang_star_chr by simp
  ultimately have "x \<in> conc (lang VERSION_PATTERN) (lang (Star Space))" using conc_Nil by blast
  with e have "[] @ x \<in> lang (seqs [Star Space, VERSION_PATTERN, Star Space])"
    unfolding seqs.simps lang_Seq conc_def [of "lang (Star Space)"] by blast
  then have "x \<in> lang (seqs [Star Space, VERSION_PATTERN, Star Space])" by simp
  then have "re_match version_regex x \<noteq> None" unfolding version_regex_def re_match_lang [OF version_regex_plain] ..
  then show ?thesis by (auto simp: pep_version_def)
qed

section \<open>What a parsed specifier is\<close>

definition no_letter :: "char \<Rightarrow> bool" where
  "no_letter c \<longleftrightarrow> of_char c < (97 :: nat) \<or> (122 :: nat) < of_char c"

lemma lower_punct: "no_letter (lower_char x) \<Longrightarrow> lower_char x = x"
  unfolding no_letter_def lower_char_def Let_def by (auto split: if_splits)

lemma lower_puncts: "list_all no_letter (map lower_char u) \<Longrightarrow> map lower_char u = u"
  by (induction u) (auto intro: lower_punct)

lemma lit_puncts: "u \<in> lang (lit w) \<Longrightarrow> list_all no_letter w \<Longrightarrow> u = w"
  using lower_puncts [of u] by (simp add: lang_lit)

lemma eaten_lang: "plain r \<Longrightarrow> rx_rel r (b, xs, c) (b', ys, c') \<Longrightarrow> eaten xs ys \<in> lang r"
  by (drule (1) lang_rel) auto

lemma space_rel:
  assumes "rx_rel (Star Space) (b, xs, c) (b', ys, c')"
  shows "\<exists>w. list_all strip_ws w \<and> xs = w @ ys \<and> b' = rev w @ b \<and> dget c' = dget c"
proof -
  from lang_rel [OF _ assms] obtain w where "w \<in> lang (Star Space)" "xs = w @ ys" "b' = rev w @ b" by auto
  moreover have "dget c' n = dget c n" for n
    using rel_groups [OF _ assms, of n] by (simp add: Space_def)
  ultimately show ?thesis unfolding Space_def lang_star_chr by blast
qed

definition pep_operators :: "string list" where
  "pep_operators = [''~='', ''=='', ''!='', ''<='', ''>='', ''<'', ''>'', ''==='']"

lemma operator_lang:
  "u \<in> lang (alts [lit ''~='', lit ''=='', lit ''!='', lit ''<='', lit ''>='', lit ''<'', lit ''>'', lit ''===''])
     \<Longrightarrow> u \<in> set pep_operators"
  unfolding alts.simps lang.simps(4) Un_iff pep_operators_def
  by (elim disjE; drule lit_puncts; simp add: no_letter_def)

lemma group_rel:
  assumes "plain r" and "rx_rel (Group n r) (b, xs, c) (b', ys, c')"
  shows "\<exists>u\<in>lang r. xs = u @ ys \<and> b' = rev u @ b \<and> dget c' n = Some u"
proof -
  from assms(2) obtain c1 where c: "rx_rel r (b, xs, c) (b', ys, c1)" "c' = dset n (eaten xs ys) c1" by auto
  from lang_rel [OF assms(1) c(1)] c(2) show ?thesis by auto
qed

text \<open>The version follows the operator with its own alternative.\<close>

definition version_texts :: "string \<Rightarrow> string set" where
  "version_texts op =
     (if op = ''==='' then UNIV
      else if op = ''=='' \<or> op = ''!='' then lang equal_text
      else if op = ''~='' then lang compatible_text
      else lang ordered_text)"

lemma text_plain: "plain equal_text" "plain compatible_text" "plain ordered_text" "plain identity_text"
  by (simp_all add: equal_text_def compatible_text_def ordered_text_def identity_text_def spec_release_def spec_pre_def
      spec_post_def spec_dev_def spec_local_def dash_def)

lemma behind_operators:
  assumes "op \<in> set pep_operators" and "list_all strip_ws w"
  shows "behind [''==='' ] (rev op @ rev w) \<longleftrightarrow> op = ''===''"
    and "behind [''=='', ''!=''] (rev op @ rev w) \<longleftrightarrow> op \<in> {''=='', ''!='', ''===''}"
    and "behind [''~=''] (rev op @ rev w) \<longleftrightarrow> op = ''~=''"
    and "behind [''=='', ''!='', ''~=''] (rev op @ rev w) \<longleftrightarrow> op \<in> {''=='', ''!='', ''==='', ''~=''}"
proof -
  have w: "\<not> strip_ws x \<Longrightarrow> \<not> prefix (x # xs) (rev w)" for x xs
  proof
    assume x: "\<not> strip_ws x" and "prefix (x # xs) (rev w)"
    then have "x \<in> set (rev w)" by (auto simp: prefix_def)
    with x assms(2) show False by (simp add: list_all_iff)
  qed
  from assms(1) have op: "op = ''~='' \<or> op = ''=='' \<or> op = ''!='' \<or> op = ''<='' \<or> op = ''>='' \<or> op = ''<'' \<or> op = ''>'' \<or> op = ''===''"
    by (simp add: pep_operators_def)
  show "behind [''==='' ] (rev op @ rev w) \<longleftrightarrow> op = ''===''"
    using op by (elim disjE; simp add: behind_def w)
  show "behind [''=='', ''!=''] (rev op @ rev w) \<longleftrightarrow> op \<in> {''=='', ''!='', ''===''}"
    using op by (elim disjE; simp add: behind_def w)
  show "behind [''~=''] (rev op @ rev w) \<longleftrightarrow> op = ''~=''"
    using op by (elim disjE; simp add: behind_def w)
  show "behind [''=='', ''!='', ''~=''] (rev op @ rev w) \<longleftrightarrow> op \<in> {''=='', ''!='', ''==='', ''~=''}"
    using op by (elim disjE; simp add: behind_def w)
qed

lemma version_rel:
  assumes "op \<in> set pep_operators" and "list_all strip_ws w"
    and "rx_rel (Group ''version'' (alts [
       Seq (Behind [''==='']) identity_text,
       Seq (Behind [''=='', ''!='']) equal_text,
       Seq (Behind [''~='']) compatible_text,
       Seq (NotBehind [''=='', ''!='', ''~='']) ordered_text])) (rev op @ rev w, xs, c) (b', ys, c')"
  shows "\<exists>u\<in>version_texts op. dget c' ''version'' = Some u \<and> dget c' ''operator'' = dget c ''operator''"
proof -
  note bh = behind_operators [OF assms(1,2)]
  from assms(3) obtain c1 where c1: "c' = dset ''version'' (eaten xs ys) c1"
    "op = ''==='' \<and> rx_rel identity_text (rev op @ rev w, xs, c) (b', ys, c1)
     \<or> op \<in> {''=='', ''!='', ''===''} \<and> rx_rel equal_text (rev op @ rev w, xs, c) (b', ys, c1)
     \<or> op = ''~='' \<and> rx_rel compatible_text (rev op @ rev w, xs, c) (b', ys, c1)
     \<or> op \<notin> {''=='', ''!='', ''==='', ''~=''} \<and> rx_rel ordered_text (rev op @ rev w, xs, c) (b', ys, c1)"
    by (auto simp: bh)
  have gr: "groups equal_text = []" "groups compatible_text = []" "groups ordered_text = []" "groups identity_text = []"
    by (simp_all add: equal_text_def compatible_text_def ordered_text_def identity_text_def spec_release_def spec_pre_def
        spec_post_def spec_dev_def spec_local_def dash_def)
  have keeps: "dget c1 ''operator'' = dget c ''operator''"
    using c1(2) rel_groups [of _ "rev op @ rev w" xs c b' ys c1 "''operator''"] text_plain [THEN plain_plain_groups] gr by fastforce
  have "eaten xs ys \<in> version_texts op"
    using c1(2) eaten_lang [OF text_plain(1)] eaten_lang [OF text_plain(2)] eaten_lang [OF text_plain(3)]
    unfolding version_texts_def by (elim disjE conjE) auto
  with c1(1) keeps show ?thesis by auto
qed

lemma new_specifier_parts:
  assumes "new_specifier s pre = Inr sp"
  shows "\<not> sp_legacy sp \<and> sp_prereleases sp = pre \<and> sp_operator sp \<in> set pep_operators
    \<and> (\<exists>u\<in>version_texts (sp_operator sp). sp_version sp = strip u)"
proof -
  from assms obtain g where g: "re_match specifier_regex s = Some g" "sp = specifier_of False pre g"
    by (auto simp: new_specifier_def split: option.splits)
  from rx_match_sound [OF g(1) [unfolded re_match_def]] obtain b ys where
    rel: "rx_rel specifier_regex ([], s, []) (b, ys, g)" by auto
  then obtain t1 t2 t3 t4 where
    "rx_rel (Star Space) ([], s, []) t1"
    "rx_rel (Group ''operator'' (alts [lit ''~='', lit ''=='', lit ''!='', lit ''<='', lit ''>='', lit ''<'', lit ''>'', lit ''===''])) t1 t2"
    "rx_rel (Group ''version'' (alts [
       Seq (Behind [''==='']) identity_text,
       Seq (Behind [''=='', ''!='']) equal_text,
       Seq (Behind [''~='']) compatible_text,
       Seq (NotBehind [''=='', ''!='', ''~='']) ordered_text])) t2 t3"
    "rx_rel (Star Space) t3 t4" "(b, ys, g) = t4"
    unfolding specifier_regex_def seqs.simps rx_rel.simps(3) rx_rel.simps(9) by blast
  moreover obtain b1 x1 c1 b2 x2 c2 b3 x3 c3 where "t1 = (b1, x1, c1)" "t2 = (b2, x2, c2)" "t3 = (b3, x3, c3)"
    by (cases t1; cases t2; cases t3)
  ultimately have
    1: "rx_rel (Star Space) ([], s, []) (b1, x1, c1)"
    and 2: "rx_rel (Group ''operator'' (alts [lit ''~='', lit ''=='', lit ''!='', lit ''<='', lit ''>='', lit ''<'', lit ''>'', lit ''===''])) (b1, x1, c1) (b2, x2, c2)"
    and 3: "rx_rel (Group ''version'' (alts [
       Seq (Behind [''==='']) identity_text,
       Seq (Behind [''=='', ''!='']) equal_text,
       Seq (Behind [''~='']) compatible_text,
       Seq (NotBehind [''=='', ''!='', ''~='']) ordered_text])) (b2, x2, c2) (b3, x3, c3)"
    and 4: "rx_rel (Star Space) (b3, x3, c3) (b, ys, g)" by (simp_all only:)
  from space_rel [OF 1] obtain w where w: "list_all strip_ws w" "b1 = rev w" by auto
  from group_rel [OF _ 2] obtain op where op: "op \<in> set pep_operators" "b2 = rev op @ b1" "dget c2 ''operator'' = Some op"
    using operator_lang by (auto simp only: plain_lit alts.simps plain.simps)
  from version_rel [OF op(1) w(1)] 3 op(2) w(2) obtain u where
    u: "u \<in> version_texts op" "dget c3 ''version'' = Some u" "dget c3 ''operator'' = dget c2 ''operator''" by blast
  from space_rel [OF 4] have "dget g = dget c3" by auto
  with u(2,3) op(3) have d: "dget g ''version'' = Some u" "dget g ''operator'' = Some op" by simp_all
  have "strip op = op" using op(1) strip_spaced [of "[]" op] by (auto simp: pep_operators_def)
  with g(2) d op(1) u(1) show ?thesis by (auto simp: specifier_of_def group_text_def)
qed

text \<open>The version of a specifier is one of PEP 440, or ends in a wild card, unless anything is allowed.\<close>

lemma spec_version_cases:
  assumes "new_specifier s pre = Inr sp" and "sp_operator sp \<noteq> ''===''"
  shows "(\<exists>w. pep_version (sp_version sp) = Inr w)
    \<or> sp_operator sp \<in> {''=='', ''!=''} \<and> endswith_star (sp_version sp)"
proof -
  from new_specifier_parts [OF assms(1)] obtain u where
    u: "u \<in> version_texts (sp_operator sp)" "sp_version sp = strip u" by blast
  let ?W = "{x @ ''.*'' |x. list_all (\<lambda>c. \<not> strip_ws c) x}"
  have eq: "sp_operator sp \<in> {''=='', ''!=''} \<Longrightarrow> u \<in> spaced (lang VERSION_PATTERN \<union> ?W)"
    using u(1) equal_text_lang unfolding version_texts_def by auto
  have other: "sp_operator sp \<notin> {''=='', ''!=''} \<Longrightarrow> u \<in> spaced (lang VERSION_PATTERN)"
    using u(1) assms(2) compatible_text_lang ordered_text_lang unfolding version_texts_def
    by (auto split: if_splits)
  have "\<exists>w x. u = w @ x \<and> list_all strip_ws w \<and> (x \<in> lang VERSION_PATTERN \<or> sp_operator sp \<in> {''=='', ''!=''} \<and> x \<in> ?W)"
    using eq other unfolding spaced_def by blast
  then obtain w x where x: "u = w @ x" "list_all strip_ws w"
    "x \<in> lang VERSION_PATTERN \<or> sp_operator sp \<in> {''=='', ''!=''} \<and> x \<in> ?W" by blast
  have "list_all (\<lambda>c. \<not> strip_ws c) x" using x(3) version_pattern_no_space by auto
  from strip_spaced [OF x(2) this] have v: "sp_version sp = x" using u(2) x(1) by simp
  show ?thesis
    using x(3) pattern_version [of x] unfolding v endswith_star_def suffix_def by blast
qed

section \<open>What the operators mean\<close>

text \<open>The result of each comparison of a well-formed version; the public version of \<open>v\<close> is \<open>v\<close> without its local part.\<close>

abbreviation rk :: "pep440 \<Rightarrow> rank" where
  "rk v \<equiv> rank (Version v)"

definition public_of :: "pep440 \<Rightarrow> pep440" where
  "public_of v = v\<lparr>v_local := None\<rparr>"

lemma public_of_wf: "pep_wf v \<Longrightarrow> pep_wf (public_of v)"
  by (simp add: public_of_def without_local(2))

lemma pv_local_None: "pep_wf v \<Longrightarrow> pv_local v = None \<longleftrightarrow> v_local v = None"
  by (auto simp: pep_wf_def pv_local_def split: option.splits list.splits)

lemma pv_local_not_empty: "pep_wf v \<Longrightarrow> pv_local v \<noteq> Some []"
  using local_text_ok
  by (auto simp: pep_wf_def pv_local_def join_sep_parts split: option.splits list.splits)

lemma wf_epoch: "pep_wf v \<Longrightarrow> epoch_ok (Version v)"
  by (simp add: epoch_ok_def pep_wf_def)

lemma av_eq_rk: "pep_wf v \<Longrightarrow> pep_wf w \<Longrightarrow> av_eq (Version v) (Version w) \<longleftrightarrow> rk v = rk w"
  using key_eq [of "Version v" "Version w"] by (simp add: av_eq_def wf_epoch)

lemma av_cmp_rk: "pep_wf v \<Longrightarrow> pep_wf w \<Longrightarrow> av_cmp op (Version v) (Version w) = Inr (by_op op (rk v) (rk w))"
  by (intro key_cmp wf_epoch)

definition same_release :: "pep440 \<Rightarrow> pep440 \<Rightarrow> bool" where
  "same_release v w \<longleftrightarrow> rk (base_of v) = rk (base_of w)"

lemma same_base_eq: "pep_wf v \<Longrightarrow> pep_wf w \<Longrightarrow> same_base v w = Inr (same_release v w)"
  by (simp add: same_base_def pep_version_base av_eq_rk base_of_wf same_release_def)

lemma compare_results:
  assumes "pep_wf v" and "pep_version spec = Inr w"
  shows "compare_less_than_equal v spec = Inr (rk (public_of v) \<le> rk w)"
    and "compare_greater_than_equal v spec = Inr (rk w \<le> rk (public_of v))"
    and "\<not> endswith_star spec \<Longrightarrow> compare_equal v spec = Inr (rk (if v_local w = None then public_of v else v) = rk w)"
    and "compare_less_than v spec = Inr (rk v < rk w \<and> \<not> (\<not> pep_is_prerelease w \<and> pep_is_prerelease v \<and> same_release v w))"
    and "compare_greater_than v spec = Inr (rk w < rk v \<and> \<not> (\<not> pep_is_postrelease w \<and> pep_is_postrelease v \<and> same_release v w)
      \<and> \<not> (v_local v \<noteq> None \<and> same_release v w))"
proof -
  have w: "pep_wf w" using assms(2) by (rule pep_version_wf)
  note facts = pep_version_public [OF assms(1)] assms(2) av_cmp_rk av_eq_rk assms(1) w public_of_wf
    same_base_eq pv_local_None pv_local_not_empty
  show "compare_less_than_equal v spec = Inr (rk (public_of v) \<le> rk w)"
    "compare_greater_than_equal v spec = Inr (rk w \<le> rk (public_of v))"
    by (simp_all add: compare_less_than_equal_def compare_greater_than_equal_def facts public_of_def [symmetric])
  show "\<not> endswith_star spec \<Longrightarrow> compare_equal v spec = Inr (rk (if v_local w = None then public_of v else v) = rk w)"
    by (simp add: compare_equal_def facts public_of_def [symmetric])
  show "compare_less_than v spec = Inr (rk v < rk w \<and> \<not> (\<not> pep_is_prerelease w \<and> pep_is_prerelease v \<and> same_release v w))"
    by (simp add: compare_less_than_def facts)
  show "compare_greater_than v spec = Inr (rk w < rk v \<and> \<not> (\<not> pep_is_postrelease w \<and> pep_is_postrelease v \<and> same_release v w)
      \<and> \<not> (v_local v \<noteq> None \<and> same_release v w))"
    by (simp add: compare_greater_than_def facts)
qed

lemma compare_equal_star:
  assumes "pep_wf v" and "endswith_star spec"
  shows "\<exists>b. compare_equal v spec = Inr b"
  using assms by (auto simp: compare_equal_def pep_version_public Let_def split: prod.split)

lemma pep_operator_total:
  assumes "new_specifier s pre = Inr sp" and "case v of Version p \<Rightarrow> pep_wf p | LegacyVersion _ \<Rightarrow> True"
  shows "\<exists>b. pep_operator (sp_operator sp) v (sp_version sp) = Inr b"
proof (cases v)
  case (LegacyVersion t)
  with new_specifier_parts [OF assms(1)] show ?thesis
    by (auto simp: pep_operators_def pep_operator_def require_version_def)
next
  case (Version p)
  with assms(2) have p: "pep_wf p" by simp
  show ?thesis
  proof (cases "sp_operator sp = ''===''")
    case True
    then show ?thesis by (simp add: pep_operator_def)
  next
    case False
    let ?t = "sp_version sp"
    have star: "endswith_star ?t \<Longrightarrow> \<exists>b. compare_equal p ?t = Inr b" by (rule compare_equal_star [OF p])
    have prefix: "\<exists>b. compare_equal p (compatible_prefix ?t) = Inr b"
      by (rule compare_equal_star [OF p]) (simp add: endswith_star_def compatible_prefix_def suffix_def)
    from spec_version_cases [OF assms(1) False] new_specifier_parts [OF assms(1)] show ?thesis
    proof (elim disjE exE conjE)
      fix w assume w: "pep_version ?t = Inr w" and op: "sp_operator sp \<in> set pep_operators"
      note c = compare_results [OF p w]
      have "\<exists>b. compare_equal p ?t = Inr b" using c(3) star by blast
      with op False Version c prefix show ?thesis
        by (auto simp: pep_operators_def pep_operator_def require_version_def compare_not_equal_def compare_compatible_def)
    next
      assume "sp_operator sp \<in> {''=='', ''!=''}" "endswith_star ?t"
      with star Version show ?thesis by (auto simp: pep_operator_def require_version_def compare_not_equal_def)
    qed
  qed
qed

lemma legacy_operator_lang:
  "u \<in> lang (alts [lit ''=='', lit ''!='', lit ''<='', lit ''>='', lit ''<'', lit ''>''])
     \<Longrightarrow> u \<in> {''=='', ''!='', ''<='', ''>='', ''<'', ''>''}"
  unfolding alts.simps lang.simps(4) Un_iff
  by (elim disjE; drule lit_puncts; simp add: no_letter_def)

lemma new_legacy_specifier_parts:
  assumes "new_legacy_specifier s pre = Inr sp"
  shows "sp_legacy sp \<and> sp_operator sp \<in> {''=='', ''!='', ''<='', ''>='', ''<'', ''>''}"
proof -
  from assms obtain g where g: "re_match legacy_specifier_regex s = Some g" "sp = specifier_of True pre g"
    by (auto simp: new_legacy_specifier_def split: option.splits)
  have "''operator'' \<in> set (sure legacy_specifier_regex)" by (simp add: legacy_specifier_regex_def)
  from re_match_sure [OF g(1) this] obtain op where op: "dget g ''operator'' = Some op" ..
  have "plain_groups legacy_specifier_regex" by (simp add: legacy_specifier_regex_def plain_plain_groups)
  from re_match_groups [OF this g(1) op]
  have l: "op \<in> lang (alts [lit ''=='', lit ''!='', lit ''<='', lit ''>='', lit ''<'', lit ''>''])"
    by (auto simp: legacy_specifier_regex_def simp del: lang.simps)
  then have "op \<in> {''=='', ''!='', ''<='', ''>='', ''<'', ''>''}" by (rule legacy_operator_lang)
  moreover from this have "strip op = op" using strip_spaced [of "[]" op] by auto
  ultimately show ?thesis using g(2) op by (simp add: specifier_of_def group_text_def)
qed

section \<open>Asking never raises\<close>

definition version_ok :: "any_version \<Rightarrow> bool" where
  "version_ok v = (case v of Version p \<Rightarrow> pep_wf p | LegacyVersion _ \<Rightarrow> True)"

lemma version_ok_parse: "version_ok (pkg_parse s)"
  using pep_version_wf by (auto simp: version_ok_def pkg_parse_def split: sum.split)

lemma spec_contains_total:
  assumes "new_any_specifier s = Inr sp" and "version_ok (parse_item i)"
  shows "\<exists>b. spec_contains sp i pre = Inr b"
proof (cases "new_specifier s None")
  case (Inr sp')
  with assms(1) have sp: "new_specifier s None = Inr sp" by (simp add: new_any_specifier_def)
  then have "\<not> sp_legacy sp" using new_specifier_parts by blast
  with pep_operator_total [OF sp, of "parse_item i"] assms(2) show ?thesis
    by (auto simp: spec_contains_def Let_def coerce_item_def version_ok_def)
next
  case (Inl e)
  with assms(1) have "new_legacy_specifier s None = Inr sp" by (simp add: new_any_specifier_def)
  from new_legacy_specifier_parts [OF this]
  have sp: "sp_legacy sp" "sp_operator sp \<in> {''=='', ''!='', ''<='', ''>='', ''<'', ''>''}" by auto
  have cmp: "av_cmp op (LegacyVersion a) (LegacyVersion b) = Inr (by_op op (rank (LegacyVersion a)) (rank (LegacyVersion b)))" for op a b
    by (rule key_cmp) (simp_all add: epoch_ok_def)
  have "\<exists>a. coerce_item True i = LegacyVersion a"
    by (simp add: coerce_item_def split: item.split any_version.split)
  then obtain a where "coerce_item True i = LegacyVersion a" ..
  with sp show ?thesis by (auto simp: spec_contains_def Let_def legacy_operator_def cmp av_is_prerelease_def)
qed

definition specs_ok :: "specifier list \<Rightarrow> bool" where
  "specs_ok sps \<longleftrightarrow> (\<forall>sp\<in>set sps. \<exists>s. new_any_specifier s = Inr sp)"

lemma parse_specifiers_ok: "specs_ok acc \<Longrightarrow> parse_specifiers ss acc = Inr sps \<Longrightarrow> specs_ok sps"
proof (induction ss acc rule: parse_specifiers.induct)
  case (2 s ss acc)
  then obtain sp where sp: "new_any_specifier s = Inr sp" "parse_specifiers ss (spec_add sp acc) = Inr sps"
    by (auto simp: res_simps)
  from 2(2) sp(1) have "specs_ok (spec_add sp acc)" by (auto simp: specs_ok_def spec_add_def)
  with 2(1) sp(2) show ?case by blast
qed simp

lemma new_set_ok: "new_specifier_set s p = Inr ss \<Longrightarrow> specs_ok (ss_specs ss)"
  using parse_specifiers_ok [of "[]"] by (auto simp: new_specifier_set_def res_simps specs_ok_def)

lemma all_contain_total:
  "specs_ok sps \<Longrightarrow> version_ok (parse_item i) \<Longrightarrow> \<exists>b. all_contain sps i pre = Inr b"
proof (induction sps)
  case (Cons sp sps)
  then obtain s where "new_any_specifier s = Inr sp" by (auto simp: specs_ok_def)
  from spec_contains_total [OF this Cons.prems(2)] obtain b where "spec_contains sp i pre = Inr b" by blast
  moreover have "\<exists>b. all_contain sps i pre = Inr b" using Cons by (simp add: specs_ok_def)
  ultimately show ?case by (cases b) auto
qed (simp add: exI [of _ True])

lemma set_contains_total:
  "specs_ok (ss_specs ss) \<Longrightarrow> version_ok (parse_item i) \<Longrightarrow> \<exists>b. set_contains ss i pre = Inr b"
proof -
  assume "specs_ok (ss_specs ss)" and "version_ok (parse_item i)"
  then have "\<exists>b. all_contain (ss_specs ss) (ItemVersion (parse_item i)) p = Inr b" for p
    using all_contain_total [of "ss_specs ss" "ItemVersion (parse_item i)"] by (simp add: parse_item_def)
  then show ?thesis by (cases "(if pre = None then set_prereleases ss else pre) \<noteq> Some True \<and> av_is_prerelease (parse_item i)")
    (auto simp: set_contains_def Let_def)
qed

lemma filter_items_total:
  "new_any_specifier s = Inr sp \<Longrightarrow> \<forall>i\<in>set is. version_ok (parse_item i) \<Longrightarrow> \<exists>r. filter_items sp pre is = Inr r"
proof (induction "is")
  case (Cons i "is")
  have "version_ok (parse_item (ItemVersion (coerce_item (sp_legacy sp) i)))"
    using Cons.prems(2) by (auto simp: coerce_item_def parse_item_def version_ok_def split: item.splits any_version.split)
  from spec_contains_total [OF Cons.prems(1) this] obtain b where
    "spec_contains sp (ItemVersion (coerce_item (sp_legacy sp) i)) (Some (pre \<noteq> Some False)) = Inr b" by blast
  moreover from Cons obtain r where "filter_items sp pre is = Inr r" by auto
  ultimately show ?case by (auto simp: Let_def split: prod.split)
qed simp

lemma filter_items_subset: "filter_items sp pre is = Inr (ys, ps) \<Longrightarrow> set ys \<union> set ps \<subseteq> set is"
proof (induction "is" arbitrary: ys ps)
  case (Cons i "is")
  let ?j = "ItemVersion (coerce_item (sp_legacy sp) i)"
  from Cons.prems obtain b where b: "spec_contains sp ?j (Some (pre \<noteq> Some False)) = Inr b"
    by (auto simp: Let_def res_simps)
  from Cons.prems b obtain y1 p1 where "filter_items sp pre is = Inr (y1, p1)"
    by (cases "filter_items sp pre is") (auto simp: Let_def)
  with Cons.IH [OF this] Cons.prems b show ?case by (auto simp: Let_def split: if_splits)
qed simp

lemma spec_filter_total:
  assumes "new_any_specifier s = Inr sp" and "\<forall>i\<in>set is. version_ok (parse_item i)"
  shows "\<exists>ys. spec_filter sp is pre = Inr ys \<and> set ys \<subseteq> set is"
proof -
  from filter_items_total [OF assms] obtain ys ps where f: "filter_items sp pre is = Inr (ys, ps)" by fast
  from filter_items_subset [OF f] f show ?thesis by (simp add: spec_filter_def)
qed

lemma filter_chain_total:
  "specs_ok sps \<Longrightarrow> \<forall>i\<in>set is. version_ok (parse_item i) \<Longrightarrow> \<exists>ys. filter_chain sps is pre = Inr ys \<and> set ys \<subseteq> set is"
proof (induction sps arbitrary: "is")
  case (Cons sp sps)
  then obtain s where "new_any_specifier s = Inr sp" by (auto simp: specs_ok_def)
  from spec_filter_total [OF this Cons.prems(2)] obtain ys where y: "spec_filter sp is (Some pre) = Inr ys" "set ys \<subseteq> set is" by blast
  moreover have "\<exists>zs. filter_chain sps ys pre = Inr zs \<and> set zs \<subseteq> set ys"
    by (rule Cons.IH) (use Cons.prems y(2) in \<open>auto simp: specs_ok_def\<close>)
  ultimately show ?case by auto
qed simp

text \<open>A set to try things on.\<close>

definition sample_set :: specifier_set where
  "sample_set = \<lparr>ss_specs = [\<lparr>sp_legacy = False, sp_operator = ''>='', sp_version = ''1'', sp_prereleases = None\<rparr>,
     \<lparr>sp_legacy = False, sp_operator = ''<'', sp_version = ''2'', sp_prereleases = None\<rparr>], ss_prereleases = None\<rparr>"

lemma sample_from: "new_any_specifier ''>=1'' = Inr \<lparr>sp_legacy = False, sp_operator = ''>='', sp_version = ''1'', sp_prereleases = None\<rparr>"
  by code_simp

lemma sample_below: "new_any_specifier ''<2'' = Inr \<lparr>sp_legacy = False, sp_operator = ''<'', sp_version = ''2'', sp_prereleases = None\<rparr>"
  by code_simp

lemma sample_set_parsed: "new_specifier_set ''>=1,<2'' None = Inr sample_set"
proof -
  have "filter (\<lambda>x. x \<noteq> []) (map strip (split_on CHR '','' ''>=1,<2'')) = [''>=1'', ''<2'']"
    by (simp add: strip_def lstrip_while_def rstrip_while_def strip_ws_def)
  then show ?thesis
    by (simp add: new_specifier_set_def sample_from sample_below spec_add_def spec_member_def spec_eq_def canonical_spec_def
        sample_set_def)
qed

text \<open>
  C27: Whatever text a set of specifiers was read from, asking it about any text of a version and filtering any
  texts by it never raises: every text after an operator that the pattern lets through is a version of PEP 440
  where the comparison reads it as one.
\<close>
theorem specifiers_never_raise:
  assumes "new_specifier_set s p = Inr ss"
  shows "(\<exists>b. set_contains ss (ItemText t) pre = Inr b) \<and> (\<exists>ys. set_filter ss (map ItemText ts) pre = Inr ys)"
proof
  note ok = new_set_ok [OF assms]
  show "\<exists>b. set_contains ss (ItemText t) pre = Inr b"
    by (rule set_contains_total [OF ok]) (simp add: parse_item_def version_ok_parse)
  have "\<exists>ys. filter_chain (ss_specs ss) (map ItemText ts) b = Inr ys \<and> set ys \<subseteq> set (map ItemText ts)" for b
    by (rule filter_chain_total [OF ok]) (simp add: parse_item_def version_ok_parse)
  then show "\<exists>ys. set_filter ss (map ItemText ts) pre = Inr ys" by (auto simp: set_filter_def Let_def)
qed

lemma specifiers_never_raise_witness: "\<exists>b. set_contains sample_set (ItemText ''1.5'') None = Inr b"
  using specifiers_never_raise [OF sample_set_parsed] by blast

section \<open>Equal specifiers\<close>

text \<open>
  Equal specifiers accept the same versions, unless their operator depends on how the version is written
  (\<open>~=\<close>, \<open>===\<close>) or they are legacy.
\<close>

lemma version_no_star:
  assumes "pep_version s = Inr w"
  shows "\<not> endswith_star s"
proof -
  let ?R = "seqs [Star Space, VERSION_PATTERN, Star Space]"
  have "re_match version_regex s \<noteq> None" using assms by (auto simp: pep_version_def split: option.splits)
  then have s: "s \<in> lang ?R \<or> (\<exists>u\<in>lang ?R. s = u @ [CHR 0x0A])"
    unfolding version_regex_def re_match_lang [OF version_regex_plain] .
  have stars: "all_chr (\<lambda>x. x \<noteq> CHR ''*'') Digit" "all_chr (\<lambda>x. x \<noteq> CHR ''*'') Alnum"
    "all_chr (\<lambda>x. x \<noteq> CHR ''*'') Space" "all_chr (\<lambda>x. x \<noteq> CHR ''*'') (cls ''-_.'')"
    by (auto simp: Digit_def Alnum_def Space_def cls_def is_digit_def alnum_def lower_char_def strip_ws_def)
  have lit: "CHR ''*'' \<notin> set w \<Longrightarrow> all_chr (\<lambda>x. x \<noteq> CHR ''*'') (lit w)" for w
    by (induction w rule: lit.induct) (auto simp: lit.simps lower_char_def)
  have "all_chr (\<lambda>x. x \<noteq> CHR ''*'') ?R" unfolding VERSION_PATTERN_def by (simp add: dash_def Opt_def Plus_def stars lit del: all_chr.simps(2))
  from lang_all_chr [OF this] have "u \<in> lang ?R \<Longrightarrow> list_all (\<lambda>x. x \<noteq> CHR ''*'') u" for u .
  with s have "list_all (\<lambda>x. x \<noteq> CHR ''*'') s" by fastforce
  then show ?thesis by (auto simp: endswith_star_def suffix_def)
qed

lemma same_rank:
  assumes "pep_wf v" and "pep_wf w" and "canonical v = canonical w"
  shows "rk v = rk w" and "pep_is_prerelease v = pep_is_prerelease w" and "pep_is_postrelease v = pep_is_postrelease w"
    and "v_local v = v_local w" and "pep_wf u \<Longrightarrow> same_release u v = same_release u w"
proof -
  show "rk v = rk w" using rank_parts [OF assms(1,2)] assms(3) by simp
  have parts: "v_epoch v = v_epoch w" "v_dev v = v_dev w" "v_pre v = v_pre w" "v_post v = v_post w" "v_local v = v_local w"
    "canonical_release (v_release v) = canonical_release (v_release w)"
    using assms(3) by (cases v; cases w; simp add: canonical_def)+
  then show "pep_is_prerelease v = pep_is_prerelease w" "pep_is_postrelease v = pep_is_postrelease w" "v_local v = v_local w"
    by (simp_all add: pep_is_prerelease_def pep_is_postrelease_def)
  have "canonical (base_of v) = canonical (base_of w)"
    using parts by (cases v; cases w) (simp add: canonical_def base_of_def)
  then show "same_release u v = same_release u w"
    using rank_parts [OF base_of_wf [OF assms(1)] base_of_wf [OF assms(2)]] by (simp add: same_release_def)
qed

definition by_value :: "specifier \<Rightarrow> bool" where
  "by_value sp \<longleftrightarrow> \<not> sp_legacy sp \<and> sp_operator sp \<notin> {''~='', ''===''}"

lemma equal_specifiers_agree:
  assumes "spec_eq a b" and "by_value a" and "version_ok v"
  shows "spec_contains a (ItemVersion v) (Some pre) = spec_contains b (ItemVersion v) (Some pre)"
proof (cases v)
  case (LegacyVersion t)
  with assms show ?thesis
    by (auto simp: spec_contains_def spec_eq_def canonical_spec_def by_value_def Let_def coerce_item_def parse_item_def
        pep_operator_def require_version_def)
next
  case (Version p)
  with assms(3) have p: "pep_wf p" by (simp add: version_ok_def)
  let ?s = "sp_version a" and ?t = "sp_version b"
  from assms(1) have eqs: "sp_legacy a = sp_legacy b" "sp_operator a = sp_operator b"
    "canonicalize_version ?s = canonicalize_version ?t" by (simp_all add: spec_eq_def canonical_spec_def)
  have reads: "pep_version (canonicalize_version x) = Inr (canonical w) \<and> pep_wf w" if "pep_version x = Inr w" for x w
    using canonicalize_eq [OF that] pep_version_str [OF canonical_wf] pep_version_wf [OF that] by simp
  have "pep_operator (sp_operator a) v ?s = pep_operator (sp_operator a) v ?t"
  proof (cases "pep_version ?s")
    case (Inl e)
    then have s: "canonicalize_version ?s = ?s" by (simp add: canonicalize_version_def)
    have "?t = ?s"
    proof (cases "pep_version ?t")
      case (Inr w)
      from reads [OF this] Inl s eqs(3) show ?thesis by simp
    next
      case Inl
      with s eqs(3) show ?thesis by (simp add: canonicalize_version_def)
    qed
    then show ?thesis by simp
  next
    case s: (Inr w)
    then obtain u where t: "pep_version ?t = Inr u"
      using reads [OF s] eqs(3) by (cases "pep_version ?t") (simp_all add: canonicalize_version_def)
    from reads [OF s] reads [OF t] eqs(3) have wf: "pep_wf w" "pep_wf u" and same: "canonical w = canonical u" by simp_all
    note facts = same_rank [OF wf same]
    from compare_results [OF p s] compare_results [OF p t] version_no_star [OF s] version_no_star [OF t] assms(2) Version
    show ?thesis
      by (simp add: pep_operator_def by_value_def require_version_def compare_not_equal_def facts p)
  qed
  with eqs assms(2) show ?thesis
    by (auto simp: spec_contains_def by_value_def Let_def coerce_item_def parse_item_def)
qed

section \<open>Filtering\<close>

lemma filter_items_eq:
  assumes "new_any_specifier s = Inr sp" and "\<not> sp_legacy sp" and "\<forall>i\<in>set is. version_ok (parse_item i)"
  shows "filter_items sp (Some b) is = Inr (filter (\<lambda>i. spec_contains sp (ItemVersion (parse_item i)) (Some b) = Inr True) is, [])"
  using assms(3)
proof (induction "is")
  case (Cons i "is")
  let ?i = "ItemVersion (parse_item i)"
  have i: "coerce_item (sp_legacy sp) i = parse_item i" "parse_item ?i = parse_item i"
    using assms(2) by (simp_all add: coerce_item_def parse_item_def)
  from spec_contains_total [OF assms(1), of ?i] Cons.prems i(2) obtain c where
    c: "spec_contains sp ?i (Some b) = Inr c" by auto
  have "c \<Longrightarrow> av_is_prerelease (parse_item i) \<Longrightarrow> b"
    using c assms(2) by (auto simp: spec_contains_def Let_def coerce_item_def i split: if_splits)
  with c Cons show ?case by (auto simp: Let_def i)
qed simp

lemma filter_chain_eq:
  "specs_ok sps \<Longrightarrow> \<forall>sp\<in>set sps. \<not> sp_legacy sp \<Longrightarrow> \<forall>i\<in>set is. version_ok (parse_item i) \<Longrightarrow>
     filter_chain sps is b = Inr (filter (\<lambda>i. \<forall>sp\<in>set sps. spec_contains sp (ItemVersion (parse_item i)) (Some b) = Inr True) is)"
proof (induction sps arbitrary: "is")
  case (Cons sp sps)
  then obtain s where "new_any_specifier s = Inr sp" by (auto simp: specs_ok_def)
  from filter_items_eq [OF this _ Cons.prems(3)] Cons.prems(2)
  have "spec_filter sp is (Some b) = Inr (filter (\<lambda>i. spec_contains sp (ItemVersion (parse_item i)) (Some b) = Inr True) is)"
    by (simp add: spec_filter_def)
  with Cons.IH [of "filter (\<lambda>i. spec_contains sp (ItemVersion (parse_item i)) (Some b) = Inr True) is"] Cons.prems
  show ?case by (simp add: specs_ok_def filter_filter conj_commute)
qed simp

lemma all_contain_True: "all_contain sps i pre = Inr True \<longleftrightarrow> (\<forall>sp\<in>set sps. spec_contains sp i pre = Inr True)"
  by (induction sps) (auto simp: res_simps split: if_splits)

text \<open>Whether pre-releases are allowed, by the caller or else by the set.\<close>

definition set_allows :: "specifier_set \<Rightarrow> bool option \<Rightarrow> bool" where
  "set_allows ss pre \<longleftrightarrow> (if pre = None then set_prereleases ss else pre) = Some True"

text \<open>
  Filtering by a set of specifiers of PEP 440 keeps exactly the versions that the set contains, in their
  order, with pre-releases allowed if the caller or else the set allows them. So the order in which the
  frozen set is gone through does not matter.
\<close>
theorem set_filter_members:
  assumes "new_specifier_set s p = Inr ss" and "ss_specs ss \<noteq> []" and "list_all (\<lambda>sp. \<not> sp_legacy sp) (ss_specs ss)"
  shows "set_filter ss (map ItemText ts) pre
    = Inr (filter (\<lambda>i. set_contains ss i (Some (set_allows ss pre)) = Inr True) (map ItemText ts))"
proof -
  let ?is = "map ItemText ts" and ?a = "set_allows ss pre"
  have ok: "\<forall>i\<in>set ?is. version_ok (parse_item i)" by (simp add: parse_item_def version_ok_parse)
  have nl: "\<forall>sp\<in>set (ss_specs ss). \<not> sp_legacy sp" using assms(3) by (simp add: list_all_iff)
  have "set_contains ss i (Some ?a) = Inr True
      \<longleftrightarrow> (\<forall>sp\<in>set (ss_specs ss). spec_contains sp (ItemVersion (parse_item i)) (Some ?a) = Inr True)" for i
  proof (cases "\<not> ?a \<and> av_is_prerelease (parse_item i)")
    case True
    obtain sp where "sp \<in> set (ss_specs ss)" using assms(2) by (cases "ss_specs ss") auto
    moreover have "spec_contains sp (ItemVersion (parse_item i)) (Some ?a) = Inr False"
      using True nl calculation by (simp add: spec_contains_def coerce_item_def parse_item_def)
    ultimately have "\<exists>sp\<in>set (ss_specs ss). spec_contains sp (ItemVersion (parse_item i)) (Some ?a) \<noteq> Inr True"
      using True by (intro bexI [of _ sp]) auto
    then show ?thesis using True by (auto simp: set_contains_def Let_def)
  next
    case False
    then show ?thesis by (auto simp: set_contains_def Let_def all_contain_True)
  qed
  then show ?thesis
    using filter_chain_eq [OF new_set_ok [OF assms(1)] nl ok] assms(2) by (simp add: set_filter_def Let_def set_allows_def)
qed

lemma set_filter_members_witness:
  "set_filter sample_set (map ItemText [''1.5'', ''3'']) (Some True)
    = Inr (filter (\<lambda>i. set_contains sample_set i (Some True) = Inr True) [ItemText ''1.5'', ItemText ''3''])"
  using set_filter_members [OF sample_set_parsed, where ts = "[''1.5'', ''3'']" and pre = "Some True"]
  by (simp add: sample_set_def set_allows_def)

section \<open>Prefixes\<close>

lemma re_match_assoc: "re_match (Seq r1 (Seq r2 r3)) s = re_match (Seq (Seq r1 r2) r3) s"
  by (simp add: re_match_def rx_match_Seq)

definition letters_re :: rx where
  "letters_re = alts [cls ''a'', cls ''b'', cls ''c'', Seq (cls ''r'') (cls ''c'')]"

lemma prefix_regex_assoc: "re_match prefix_regex s =
    re_match (Seq (Seq (Group ''1'' (Plus Digit)) (Group ''2'' (Seq letters_re (Plus Digit)))) Eos) s"
  by (simp add: prefix_regex_def re_match_assoc letters_re_def)

lemma not_digit_letters [simp]:
  "\<not> is_digit (CHR ''a'')" "\<not> is_digit (CHR ''b'')" "\<not> is_digit (CHR ''c'')" "\<not> is_digit (CHR ''r'')"
  "\<not> is_digit (CHR ''p'')" "\<not> is_digit (CHR ''d'')"
  by (simp_all add: is_digit_def)

lemma letters_lang: "l \<in> lang letters_re \<Longrightarrow> \<exists>c cs. l = c # cs \<and> \<not> is_digit c"
proof -
  have c: "lang (cls [x]) = {[x]}" for x by (simp add: cls_def)
  assume "l \<in> lang letters_re"
  then have "l = ''a'' \<or> l = ''b'' \<or> l = ''c'' \<or> l = ''rc''"
    unfolding letters_re_def alts.simps lang.simps(3,4) c by auto
  then show ?thesis by (elim disjE) simp_all
qed

lemma prefix_lang:
  assumes "u \<in> lang (Seq (Group ''1'' (Plus Digit)) (Group ''2'' (Seq letters_re (Plus Digit))))"
  shows "\<exists>d ds ys. u = d # ds @ ys \<and> is_digit d \<and> list_all is_digit ds \<and> ys \<noteq> [] \<and> \<not> is_digit (hd ys)"
proof -
  from assms obtain d l n where u: "u = d @ l @ n" "isdigit d" "l \<in> lang letters_re"
    unfolding lang.simps(3,6) lang_Plus_Digit by blast
  from letters_lang [OF u(3)] obtain c cs where "l = c # cs" "\<not> is_digit c" by blast
  moreover obtain e es where "d = e # es" "is_digit e" "list_all is_digit es"
    using u(2) by (cases d) (simp_all add: isdigit_def all_digits_def)
  ultimately show ?thesis using u(1) by (intro exI [of _ e] exI [of _ es] exI [of _ "c # cs @ n"]) simp
qed

lemma split_item_plain:
  assumes "s \<noteq> []" and "list_all is_digit s \<or> \<not> is_digit (hd s)"
  shows "split_item s = [s]"
proof -
  let ?r = "Seq (Group ''1'' (Plus Digit)) (Group ''2'' (Seq letters_re (Plus Digit)))"
  have no: "\<not> prefix u s" if "u \<in> lang ?r" for u
  proof
    assume "prefix u s"
    then obtain z where z: "s = u @ z" by (auto simp: prefix_def)
    from prefix_lang [OF that] obtain d ds ys where u: "u = d # ds @ ys" "is_digit d" "ys \<noteq> []" "\<not> is_digit (hd ys)" by blast
    then obtain y ys' where "ys = y # ys'" "\<not> is_digit y" by (cases ys) simp_all
    with u(1,2) z assms(2) show False by simp
  qed
  have "plain ?r" by (simp add: letters_re_def)
  from match_fails [OF this no] have "rx_match ?r (rx_match Eos (\<lambda>(b, ys, c). Some c)) ([], s, []) = (None :: caps option)" .
  then have "re_match (Seq ?r Eos) s = None" unfolding re_match_def rx_match_Seq .
  then show ?thesis by (simp add: split_item_def prefix_regex_assoc)
qed

lemma split_item_pre:
  assumes "0 \<le> n" and "0 \<le> m" and "l \<in> {''a'', ''b'', ''rc''}"
  shows "split_item (str_of_int n @ l @ str_of_int m) = [str_of_int n, l @ str_of_int m]"
proof -
  let ?s = "str_of_int n @ l @ str_of_int m"
  define k where "k = (\<lambda>(b :: string, ys :: string, c). Some (c :: caps))"
  let ?g = "dset ''2'' (l @ str_of_int m) [(''1'', str_of_int n)]"
  let ?k2 = "\<lambda>(b', ys', c'). rx_match Eos k (b', ys', dset ''2'' (eaten (l @ str_of_int m) ys') c')"
  let ?k1 = "\<lambda>(b', ys', c'). rx_match (Group ''2'' (Seq letters_re (Plus Digit))) (rx_match Eos k) (b', ys', dset ''1'' (eaten ?s ys') c')"
  have "rx_match (Plus (Chr is_digit)) ?k2 (rev l @ rev (str_of_int n), str_of_int m @ [], [(''1'', str_of_int n)]) = Some ?g"
    by (rule plus_chr_take) (use str_of_int_digits [OF assms(2)] in \<open>auto simp: k_def eaten_def\<close>)
  then have "rx_match (Seq letters_re (Plus Digit)) ?k2 (rev (str_of_int n), l @ str_of_int m, [(''1'', str_of_int n)]) = Some ?g"
    using assms(3) by (auto simp: letters_re_def cls_def Digit_def)
  then have "?k1 (rev (str_of_int n) @ [], l @ str_of_int m, []) = Some ?g" by simp
  then have "rx_match (Plus (Chr is_digit)) ?k1 ([], str_of_int n @ l @ str_of_int m, []) = Some ?g"
    using str_of_int_digits [OF assms(1)] assms(3) by (intro plus_chr_take [where k = ?k1]) auto
  then have "re_match prefix_regex ?s = Some ?g"
    by (subst prefix_regex_assoc) (simp add: re_match_def k_def Digit_def rx_match_Seq)
  then show ?thesis by (simp add: split_item_def)
qed

text \<open>The segments after the release of a version.\<close>

definition segments :: "pep440 \<Rightarrow> string list" where
  "segments v = (case v_pre v of None \<Rightarrow> [] | Some (l, n) \<Rightarrow> [l @ str_of_int n])
     @ (case v_post v of None \<Rightarrow> [] | Some (_, n) \<Rightarrow> [''post'' @ str_of_int n])
     @ (case v_dev v of None \<Rightarrow> [] | Some (_, n) \<Rightarrow> [''dev'' @ str_of_int n])"

lemma version_split_join:
  assumes "ps \<noteq> []" and "\<forall>p\<in>set ps. CHR ''.'' \<notin> set p"
  shows "version_split (join_with ''.'' ps) = concat (map split_item ps)"
  by (simp add: version_split_def split_join [OF assms])

lemma split_numbers: "list_all (\<lambda>n. 0 \<le> n) ns \<Longrightarrow> concat (map split_item (map str_of_int ns)) = map str_of_int ns"
  using str_of_int_digits by (induction ns) (simp_all add: split_item_plain)

lemma dot_free: "0 \<le> n \<Longrightarrow> CHR ''.'' \<notin> set (str_of_int n)"
  using str_of_int_chars [of n "CHR ''.''"] by auto

lemma version_split_release:
  "ns \<noteq> [] \<Longrightarrow> list_all (\<lambda>n. 0 \<le> n) ns \<Longrightarrow> version_split (join_with ''.'' (map str_of_int ns)) = map str_of_int ns"
  using version_split_join [of "map str_of_int ns"] split_numbers [of ns] dot_free by (auto simp: list_all_iff)

lemma join_snoc: "ps \<noteq> [] \<Longrightarrow> join_with s (ps @ [q]) = join_with s ps @ s @ q"
  by (induction ps rule: induct_list012) auto

lemma join_append: "ps \<noteq> [] \<Longrightarrow> qs \<noteq> [] \<Longrightarrow> join_with s (ps @ qs) = join_with s ps @ s @ join_with s qs"
  by (induction ps rule: induct_list012) (auto simp: join_with_Cons)

lemma version_split_str:
  assumes wf: "pep_wf v" and "v_epoch v = 0" and "v_local v = None"
  shows "version_split (pep_str v) = map str_of_int (v_release v) @ segments v"
proof -
  have nn: "v_release v \<noteq> []" "list_all (\<lambda>n. 0 \<le> n) (v_release v)" "num_ok {''a'', ''b'', ''rc''} (v_pre v)"
    "num_ok {''post''} (v_post v)" "num_ok {''dev''} (v_dev v)" using wf by (simp_all add: pep_wf_def)
  obtain ms n where r: "v_release v = ms @ [n]" using nn(1) by (cases "v_release v" rule: rev_cases) auto
  have ms: "list_all (\<lambda>n. 0 \<le> n) ms" "0 \<le> n" using nn(2) r by simp_all
  let ?p = "case v_pre v of None \<Rightarrow> [] | Some (l, k) \<Rightarrow> l @ str_of_int k"
  let ?post = "case v_post v of None \<Rightarrow> [] | Some (_, k) \<Rightarrow> [''post'' @ str_of_int k]"
  let ?dev = "case v_dev v of None \<Rightarrow> [] | Some (_, k) \<Rightarrow> [''dev'' @ str_of_int k]"
  define parts where "parts = map str_of_int ms @ (str_of_int n @ ?p) # ?post @ ?dev"
  have tail: "join_with ''.'' (x # ?post @ ?dev) = x @ (case v_post v of None \<Rightarrow> [] | Some (_, k) \<Rightarrow> ''.post'' @ str_of_int k)
      @ (case v_dev v of None \<Rightarrow> [] | Some (_, k) \<Rightarrow> ''.dev'' @ str_of_int k)" for x
    by (auto split: option.split)
  have join: "join_with ''.'' (map str_of_int ms @ [str_of_int n] @ []) @ y = join_with ''.'' (map str_of_int ms @ [str_of_int n @ y])" for y
    by (cases "ms = []") (simp_all add: join_snoc)
  have "pep_str v = join_with ''.'' parts"
    using assms(2,3) join [of "?p"] tail
    by (cases "ms = []")
      (simp_all add: pep_str_def epoch_text_def release_text_def r tail_text_def pv_local_def parts_def join_append join_snoc)
  moreover have "\<forall>p\<in>set parts. CHR ''.'' \<notin> set p"
    using ms nn(3-5) dot_free by (auto simp: parts_def list_all_iff num_ok_def split: option.splits)
  moreover have "parts \<noteq> []" by (simp add: parts_def)
  ultimately have 1: "version_split (pep_str v) = concat (map split_item parts)" by (simp add: version_split_join)
  have 2: "concat (map split_item (map str_of_int ms)) = map str_of_int ms" by (rule split_numbers [OF ms(1)])
  have 3: "split_item (str_of_int n @ ?p) = str_of_int n # (case v_pre v of None \<Rightarrow> [] | Some (l, k) \<Rightarrow> [l @ str_of_int k])"
  proof (cases "v_pre v")
    case None
    then show ?thesis using str_of_int_digits [OF ms(2)] by (simp add: split_item_plain)
  next
    case (Some q)
    then show ?thesis using nn(3) split_item_pre [OF ms(2)] by (cases q) (simp add: num_ok_def)
  qed
  have 4: "concat (map split_item (?post @ ?dev)) = ?post @ ?dev"
    by (auto simp: split_item_plain split: option.split)
  show ?thesis unfolding 1 using 2 3 4 by (simp add: parts_def r segments_def)
qed

lemma isdigit_str [simp]: "0 \<le> n \<Longrightarrow> isdigit (str_of_int n)"
  using str_of_int_digits [of n] by (simp add: isdigit_def all_digits_def)

lemma segments_not_digit: "pep_wf v \<Longrightarrow> s \<in> set (segments v) \<Longrightarrow> \<not> isdigit s"
  by (auto simp: segments_def pep_wf_def num_ok_def isdigit_def split: option.splits)

lemma takeWhile_numbers:
  "list_all (\<lambda>n. 0 \<le> n) ns \<Longrightarrow> \<forall>s\<in>set ss. \<not> isdigit s \<Longrightarrow> takeWhile isdigit (map str_of_int ns @ ss) = map str_of_int ns"
  by (rule span_unique(1)) (auto simp: list_all_iff)

lemma map_str_inj: "list_all (\<lambda>n. 0 \<le> n) ns \<Longrightarrow> list_all (\<lambda>n. 0 \<le> n) ms \<Longrightarrow> map str_of_int ns = map str_of_int ms \<longleftrightarrow> ns = ms"
  by (metis (no_types, lifting) int_of_str list_all_iff map_idI map_map o_apply)

text \<open>Which versions a release with a wild card matches.\<close>

definition matches_prefix :: "int list \<Rightarrow> pep440 \<Rightarrow> bool" where
  "matches_prefix ns v \<longleftrightarrow>
     (let rel = v_release v in
      if length ns \<le> length rel then take (length ns) rel = ns
      else v_pre v = None \<and> v_post v = None \<and> v_dev v = None \<and> rel @ replicate (length ns - length rel) 0 = ns)"

lemma segments_Nil: "segments v = [] \<longleftrightarrow> v_pre v = None \<and> v_post v = None \<and> v_dev v = None"
  by (auto simp: segments_def split: option.splits)

lemma compare_equal_prefix:
  assumes wf: "pep_wf v" and epoch: "v_epoch v = 0" and ns: "ns \<noteq> []" "list_all (\<lambda>n. 0 \<le> n) ns"
  shows "compare_equal v (join_with ''.'' (map str_of_int ns) @ ''.*'') = Inr (matches_prefix ns v)"
proof -
  let ?rel = "v_release v" and ?seg = "segments v"
  let ?short = "take (length ns) (map str_of_int ?rel @ ?seg)"
  have rel: "list_all (\<lambda>n. 0 \<le> n) ?rel" using wf by (simp add: pep_wf_def)
  have spec: "version_split (drop_star (join_with ''.'' (map str_of_int ns) @ ''.*'')) = map str_of_int ns"
    using version_split_release [OF ns] by (simp add: drop_star_def)
  have split: "version_split (pep_str (public_of v)) = map str_of_int ?rel @ ?seg"
    using version_split_str [OF public_of_wf [OF wf]] epoch by (simp add: public_of_def segments_def)
  have l0: "takeWhile isdigit (map str_of_int ns) = map str_of_int ns"
    using takeWhile_numbers [OF ns(2), of "[]"] by simp
  have short: "?short = map str_of_int (take (length ns) ?rel) @ take (length ns - length ?rel) ?seg"
    by (simp add: take_map)
  have rel': "list_all (\<lambda>n. 0 \<le> n) (take (length ns) ?rel)" using rel by (auto simp: list_all_iff dest: in_set_takeD)
  have r0: "takeWhile isdigit ?short = map str_of_int (take (length ns) ?rel)"
    unfolding short by (rule takeWhile_numbers [OF rel']) (use segments_not_digit [OF wf] in \<open>auto dest: in_set_takeD\<close>)
  have zero: "replicate k ''0'' = map str_of_int (replicate k 0)" for k by (simp add: map_replicate str_of_int_def)
  have pad: "pad_version (map str_of_int ns) ?short
      = (map str_of_int ns, map str_of_int (take (length ns) ?rel @ replicate (length ns - length ?rel) 0) @ take (length ns - length ?rel) ?seg)"
    unfolding pad_version_def Let_def l0 r0 by (simp add: short zero min_def)
  have "compare_equal v (join_with ''.'' (map str_of_int ns) @ ''.*'')
      = Inr (map str_of_int (take (length ns) ?rel @ replicate (length ns - length ?rel) 0) @ take (length ns - length ?rel) ?seg = map str_of_int ns)"
    using spec split pad pep_version_public [OF wf]
    by (simp add: compare_equal_def endswith_star_def suffix_def public_of_def [symmetric] Let_def)
  moreover have "(map str_of_int (take (length ns) ?rel @ replicate (length ns - length ?rel) 0) @ take (length ns - length ?rel) ?seg = map str_of_int ns)
      \<longleftrightarrow> matches_prefix ns v"
  proof (cases "length ns \<le> length ?rel")
    case True
    then show ?thesis using map_str_inj [OF rel' ns(2)] by (simp add: matches_prefix_def)
  next
    case False
    let ?z = "?rel @ replicate (length ns - length ?rel) 0"
    have z: "list_all (\<lambda>n. 0 \<le> n) ?z" using rel by (auto simp: list_all_iff)
    have "length (map str_of_int ?z @ take (length ns - length ?rel) ?seg) = length (map str_of_int ns) \<Longrightarrow> ?seg = []"
      using False by (cases ?seg) auto
    then have "map str_of_int ?z @ take (length ns - length ?rel) ?seg = map str_of_int ns \<longleftrightarrow> ?seg = [] \<and> ?z = ns"
      using map_str_inj [OF z ns(2)] by (metis append_Nil2 take_Nil)
    with False show ?thesis by (simp add: matches_prefix_def segments_Nil Let_def)
  qed
  ultimately show ?thesis by simp
qed

text \<open>The version with a release only.\<close>

definition release_version :: "int list \<Rightarrow> pep440" where
  "release_version ns = \<lparr>v_epoch = 0, v_release = ns, v_dev = None, v_pre = None, v_post = None, v_local = None\<rparr>"

lemma release_version_text:
  assumes "ns \<noteq> []" and "list_all (\<lambda>n. 0 \<le> n) ns"
  shows "pep_version (join_with ''.'' (map str_of_int ns)) = Inr (release_version ns)"
proof -
  have "pep_str (release_version ns) = join_with ''.'' (map str_of_int ns)"
    by (simp add: release_version_def pep_str_def epoch_text_def release_text_def tail_text_def pv_local_def)
  moreover have "pep_wf (release_version ns)" using assms by (simp add: release_version_def pep_wf_def num_ok_def)
  ultimately show ?thesis using pep_version_str [of "release_version ns"] by simp
qed

lemma compatible_prefix_release:
  assumes "list_all (\<lambda>n. 0 \<le> n) (ns @ [m])"
  shows "compatible_prefix (join_with ''.'' (map str_of_int (ns @ [m]))) = join_with ''.'' (map str_of_int ns) @ ''.*''"
proof -
  have "\<not> prefix ''post'' (str_of_int k) \<and> \<not> prefix ''dev'' (str_of_int k)" if k: "0 \<le> k" for k
  proof -
    from digit_head [OF k] obtain d ds where "str_of_int k = d # ds" "is_digit d" by blast
    then show ?thesis using not_digit_letters by auto
  qed
  then have t: "takeWhile (\<lambda>x. \<not> prefix ''post'' x \<and> \<not> prefix ''dev'' x) (map str_of_int (ns @ [m])) = map str_of_int (ns @ [m])"
    using assms by (intro takeWhile_eq_all_conv [THEN iffD2]) (auto simp: list_all_iff)
  have "version_split (join_with ''.'' (map str_of_int (ns @ [m]))) = map str_of_int (ns @ [m])"
    by (rule version_split_release) (use assms in auto)
  then show ?thesis unfolding compatible_prefix_def by (simp only: t) simp
qed

text \<open>
  C28: What a wild card and a compatible release mean, for versions without an epoch. \<open>==N.*\<close> holds exactly for the
  versions whose release begins with the numbers \<open>N\<close>, and for a bare release that is a shorter spelling of \<open>N\<close>
  with zeros; \<open>~=N.m\<close> holds exactly for those of them whose public version is not before \<open>N.m\<close>.
\<close>
theorem prefix_and_compatible_release:
  assumes "pep_version s = Inr v" and "v_epoch v = 0" and "ns \<noteq> []" and "list_all (\<lambda>n. 0 \<le> n) (ns @ [m])"
  shows "pep_operator ''=='' (Version v) (join_with ''.'' (map str_of_int ns) @ ''.*'') = Inr (matches_prefix ns v)
    \<and> pep_operator ''~='' (Version v) (join_with ''.'' (map str_of_int (ns @ [m])))
        = Inr (rk (release_version (ns @ [m])) \<le> rk (public_of v) \<and> matches_prefix ns v)"
proof -
  have wf: "pep_wf v" using assms(1) by (rule pep_version_wf)
  have nn: "list_all (\<lambda>n. 0 \<le> n) ns" "ns @ [m] \<noteq> []" using assms(4) by simp_all
  note eq = compare_equal_prefix [OF wf assms(2,3) nn(1)]
  note ge = compare_results(2) [OF wf release_version_text [OF nn(2) assms(4)]]
  show ?thesis
    by (simp add: pep_operator_def require_version_def eq compare_compatible_def ge
        compatible_prefix_release [OF assms(4)] del: map_append)
qed

lemma numerals: "join_with ''.'' (map str_of_int [1, 2]) = ''1.2''" "join_with ''.'' (map str_of_int [1, 3]) = ''1.3''"
  "join_with ''.'' (map str_of_int [1]) = ''1''"
  by (simp_all add: str_of_int_def str_of_nat.simps digit_char_def)

lemma numerals_version: "pep_version ''1.2'' = Inr (release_version [1, 2])" "pep_version ''1.3'' = Inr (release_version [1, 3])"
  using release_version_text [of "[1, 2]"] release_version_text [of "[1, 3]"] by (simp_all add: numerals del: list.map)

lemma prefix_and_compatible_release_witness: "pep_operator ''=='' (Version (release_version [1, 2])) ''1.*'' = Inr True
    \<and> pep_operator ''~='' (Version (release_version [1, 2])) ''1.3'' = Inr False"
  using prefix_and_compatible_release [OF numerals_version(1), of "[1]" 3]
  by (simp add: numerals [simplified] matches_prefix_def release_version_def public_of_def rank_def rel_rank_def rstrip_while_def
      str_of_int_def str_of_nat.simps digit_char_def)

text \<open>
  C29: The operators against a version \<open>w\<close> without a wild card. \<open><=\<close>, \<open>>=\<close> and, for a \<open>w\<close> without local part, \<open>==\<close>
  and \<open>!=\<close> look at the public version only. At most one of \<open><\<close>, \<open>==\<close> and \<open>>\<close> holds; and one of them does unless
  the version is one of the same epoch and release as \<open>w\<close>.
\<close>
theorem specifier_operators:
  assumes "pep_version s = Inr v" and "pep_version t = Inr w" and "\<not> endswith_star t"
  shows "\<exists>l e g. pep_operator ''<'' (Version v) t = Inr l \<and> pep_operator ''=='' (Version v) t = Inr e
    \<and> pep_operator ''>'' (Version v) t = Inr g \<and> pep_operator ''!='' (Version v) t = Inr (\<not> e)
    \<and> pep_operator ''<='' (Version v) t = Inr (rk (public_of v) \<le> rk w)
    \<and> pep_operator ''>='' (Version v) t = Inr (rk w \<le> rk (public_of v))
    \<and> (e \<longleftrightarrow> rk (if v_local w = None then public_of v else v) = rk w)
    \<and> \<not> (l \<and> e) \<and> \<not> (l \<and> g) \<and> \<not> (e \<and> g) \<and> (l \<or> e \<or> g \<or> same_release v w)"
proof -
  have wf: "pep_wf v" "pep_wf w" using assms(1,2) pep_version_wf by blast+
  note c = compare_results [OF wf(1) assms(2)]
  have rk_base: "rk x = rk y \<Longrightarrow> same_release x y" for x y
    by (simp add: same_release_def rank_def base_of_def rel_rank_def pre_rank_def post_rank_def dev_rank_def local_rank_def)
  have same_public: "same_release (public_of v) w = same_release v w"
    by (simp add: same_release_def base_of_def public_of_def)
  have public: "rk (public_of v) \<le> rk v"
    by (cases "v_local v") (auto simp: rank_def public_of_def rel_rank_def pre_rank_def post_rank_def dev_rank_def local_rank_def)
  have bare: "v_local v = None \<Longrightarrow> public_of v = v" by (simp add: public_of_def)
  let ?e = "rk (if v_local w = None then public_of v else v) = rk w"
  let ?l = "rk v < rk w \<and> \<not> (\<not> pep_is_prerelease w \<and> pep_is_prerelease v \<and> same_release v w)"
  let ?g = "rk w < rk v \<and> \<not> (\<not> pep_is_postrelease w \<and> pep_is_postrelease v \<and> same_release v w)
      \<and> \<not> (v_local v \<noteq> None \<and> same_release v w)"
  have "\<not> (?l \<and> ?e)" using public by (auto split: if_splits)
  moreover have "\<not> (?e \<and> ?g)" using bare rk_base [of "public_of v" w] same_public by (cases "v_local v") (auto split: if_splits)
  moreover have "?l \<or> ?e \<or> ?g \<or> same_release v w" using rk_base [of v w] by (metis linorder_less_linear)
  moreover have "\<not> (?l \<and> ?g)" by auto
  moreover have "pep_operator ''<'' (Version v) t = Inr ?l" "pep_operator ''>'' (Version v) t = Inr ?g"
    "pep_operator ''<='' (Version v) t = Inr (rk (public_of v) \<le> rk w)" "pep_operator ''>='' (Version v) t = Inr (rk w \<le> rk (public_of v))"
    "pep_operator ''=='' (Version v) t = Inr ?e" "pep_operator ''!='' (Version v) t = Inr (\<not> ?e)"
    by (simp_all add: pep_operator_def require_version_def c(1,2,4,5) c(3) [OF assms(3)] compare_not_equal_def)
  ultimately show ?thesis
    by (rule_tac x = ?l in exI, rule_tac x = ?e in exI, rule_tac x = ?g in exI) argo
qed

lemma specifier_operators_witness: "pep_operator ''<='' (Version (release_version [1, 2])) ''1.3''
    = Inr (rk (public_of (release_version [1, 2])) \<le> rk (release_version [1, 3]))"
  using specifier_operators [OF numerals_version] by (auto simp: endswith_star_def suffix_Cons)

section \<open>Where the comparisons are not what they should be\<close>

text \<open>Two equal versions that a wild card tells apart, and a release with an epoch that is not padded.\<close>

lemma prefix_tells_equal_apart:
  fixes v w
  defines "v \<equiv> (release_version [1])\<lparr>v_pre := Some (''a'', 1)\<rparr>" and "w \<equiv> (release_version [1, 0])\<lparr>v_pre := Some (''a'', 1)\<rparr>"
  shows "av_eq (Version v) (Version w) \<and> compare_equal v ''1.0.*'' = Inr False \<and> compare_equal w ''1.0.*'' = Inr True"
proof -
  have wf: "pep_wf v" "pep_wf w" by (simp_all add: v_def w_def release_version_def pep_wf_def num_ok_def)
  have t: "join_with ''.'' (map str_of_int [1, 0]) @ ''.*'' = ''1.0.*''" by (simp add: str_of_int_def str_of_nat.simps digit_char_def)
  have "rk v = rk w" by (simp add: v_def w_def release_version_def rank_def rel_rank_def rstrip_while_def pre_rank_def post_rank_def
      dev_rank_def local_rank_def)
  then show ?thesis
    using compare_equal_prefix [OF wf(1), of "[1, 0]"] compare_equal_prefix [OF wf(2), of "[1, 0]"] wf unfolding t
    by (simp add: av_eq_rk) (simp add: v_def w_def release_version_def matches_prefix_def)
qed

lemma epoch_prefix_not_padded:
  "compare_equal \<lparr>v_epoch = 1, v_release = [2], v_dev = None, v_pre = None, v_post = None, v_local = None\<rparr> ''1!2.0.*'' = Inr False"
  by code_simp

lemma equal_and_unequal_specifiers:
  fixes a b
  defines "a \<equiv> \<lparr>sp_legacy = False, sp_operator = ''=='', sp_version = ''1'', sp_prereleases = None\<rparr>"
    and "b \<equiv> \<lparr>sp_legacy = False, sp_operator = ''=='', sp_version = ''1.0'', sp_prereleases = None\<rparr>"
  shows "spec_eq a b \<and> spec_ne a b"
proof -
  have "canonicalize_version ''1'' = canonicalize_version ''1.0''" by code_simp
  then show ?thesis by (simp add: a_def b_def spec_eq_def spec_ne_def canonical_spec_def)
qed

end
