(* ===== verification/PkgSpecifierText.thy ===== *)
theory PkgSpecifierText
  imports PkgSpecifiersLaws
begin

text \<open>
  Which texts are specifiers of PEP 440, exactly, and printing them. The bodies are the texts of a version that each
  operator takes, without the white space before them.
\<close>

section \<open>The bodies\<close>

definition release_body :: "(rx \<Rightarrow> rx) \<Rightarrow> rx" where
  "release_body again = seqs [Opt (lit ''v''), Opt (Seq (Plus Digit) (lit ''!'')), Plus Digit, again (Seq (lit ''.'') (Plus Digit))]"

definition equal_body :: rx where
  "equal_body = seqs [release_body Star, spec_pre, spec_post, Opt (Alt (Seq spec_dev spec_local) (Seq (lit ''.'') (lit ''*'')))]"

definition compatible_body :: rx where
  "compatible_body = seqs [release_body Plus, spec_pre, spec_post, spec_dev]"

definition ordered_body :: rx where
  "ordered_body = seqs [release_body Star, spec_pre, spec_post, spec_dev]"

definition bodies :: "string \<Rightarrow> string set" where
  "bodies op =
     (if op = ''==='' then {x. list_all (\<lambda>c. \<not> strip_ws c) x}
      else if op = ''=='' \<or> op = ''!='' then lang equal_body
      else if op = ''~='' then lang compatible_body
      else lang ordered_body)"

lemma text_body:
  "lang equal_text = spaced (lang equal_body)" "lang compatible_text = spaced (lang compatible_body)"
  "lang ordered_text = spaced (lang ordered_body)"
  "lang identity_text = spaced {x. list_all (\<lambda>c. \<not> strip_ws c) x}"
proof -
  have "lang (Star (Chr (\<lambda>x. \<not> strip_ws x))) = {x. list_all (\<lambda>c. \<not> strip_ws c) x}"
    using lang_star_chr by blast
  then show "lang identity_text = spaced {x. list_all (\<lambda>c. \<not> strip_ws c) x}"
    by (simp only: identity_text_def lang_Seq spaced_conc)
  have r: "lang (spec_release f) = conc (lang (Star Space)) (lang (release_body f))" for f
    by (simp only: spec_release_def release_body_def seqs.simps lang_Seq)
  show "lang equal_text = spaced (lang equal_body)" "lang compatible_text = spaced (lang compatible_body)"
    "lang ordered_text = spaced (lang ordered_body)"
    by (simp_all only: equal_text_def equal_body_def compatible_text_def compatible_body_def ordered_text_def ordered_body_def
        seqs.simps lang_Seq r spaced_conc conc_assoc)
qed

definition visible_chr :: "char \<Rightarrow> bool" where
  "visible_chr c \<longleftrightarrow> \<not> strip_ws c \<and> c \<noteq> CHR ''=''"

lemma visible_lower: "visible_chr (lower_char x) \<Longrightarrow> visible_chr x"
  using lower_space [of x] by (auto simp: visible_chr_def lower_char_def Let_def)

lemma visible_parts:
  "all_chr visible_chr Digit" "all_chr visible_chr Alnum" "all_chr visible_chr (cls ''-_.'')" "all_chr visible_chr dash"
  "list_all visible_chr w \<Longrightarrow> all_chr visible_chr (lit w)"
proof -
  show "all_chr visible_chr Digit" by (auto simp: Digit_def is_digit_def visible_chr_def strip_ws_def)
  have "\<not> alnum (CHR ''='')" by (simp add: alnum_def is_digit_def lower_char_def)
  then have "alnum x \<Longrightarrow> visible_chr x" for x
    using no_space(2) by (auto simp: Alnum_def visible_chr_def)
  then show "all_chr visible_chr Alnum" by (auto simp: Alnum_def)
  show "all_chr visible_chr (cls ''-_.'')" by (auto simp: cls_def visible_chr_def strip_ws_def)
  then show "all_chr visible_chr dash" by (simp add: dash_def Opt_def)
  show "list_all visible_chr w \<Longrightarrow> all_chr visible_chr (lit w)"
    by (induction w rule: lit.induct) (auto simp: lit.simps dest: visible_lower)
qed

lemma visible_bodies: "x \<in> bodies op \<Longrightarrow> op \<noteq> ''==='' \<Longrightarrow> list_all visible_chr x"
proof -
  note forms = release_body_def spec_pre_def spec_post_def spec_dev_def spec_local_def Opt_def Plus_def
  have "all_chr visible_chr equal_body" "all_chr visible_chr compatible_body" "all_chr visible_chr ordered_body"
    by (simp_all add: equal_body_def compatible_body_def ordered_body_def forms visible_parts visible_chr_def)
  then show "x \<in> bodies op \<Longrightarrow> op \<noteq> ''==='' \<Longrightarrow> list_all visible_chr x"
    by (auto simp: bodies_def dest: lang_all_chr split: if_splits)
qed

lemma bodies_no_space: "x \<in> bodies op \<Longrightarrow> list_all (\<lambda>c. \<not> strip_ws c) x"
  using visible_bodies [of x op] by (cases "op = ''===''") (auto simp: bodies_def visible_chr_def list_all_iff)

section \<open>Where the parts of a text are\<close>

lemma guard_rel:
  "rx_rel (Seq (Behind ws) r) s s' \<longleftrightarrow> behind ws (fst s) \<and> rx_rel r s s'"
  "rx_rel (Seq (NotBehind ws) r) s s' \<longleftrightarrow> \<not> behind ws (fst s) \<and> rx_rel r s s'"
  by auto

lemma guarded_alts:
  "rx_rel (Group n (alts [Seq (Behind w1) r1, Seq (Behind w2) r2, Seq (Behind w3) r3, Seq (NotBehind w4) r4])) (b, xs, c) (b', ys, c')
     \<longleftrightarrow> (\<exists>c1. c' = dset n (eaten xs ys) c1
       \<and> (behind w1 b \<and> rx_rel r1 (b, xs, c) (b', ys, c1) \<or> behind w2 b \<and> rx_rel r2 (b, xs, c) (b', ys, c1)
         \<or> behind w3 b \<and> rx_rel r3 (b, xs, c) (b', ys, c1) \<or> \<not> behind w4 b \<and> rx_rel r4 (b, xs, c) (b', ys, c1)))"
  unfolding rx_rel.simps(6) alts.simps rx_rel.simps(4) guard_rel fst_conv snd_conv by auto

lemma version_rel_text:
  assumes "op \<in> set pep_operators" and "list_all strip_ws w"
    and "rx_rel (Group ''version'' (alts [
       Seq (Behind [''==='']) identity_text,
       Seq (Behind [''=='', ''!='']) equal_text,
       Seq (Behind [''~='']) compatible_text,
       Seq (NotBehind [''=='', ''!='', ''~='']) ordered_text])) (rev op @ rev w, xs, c) (b', ys, c')"
  shows "\<exists>u\<in>spaced (bodies op). xs = u @ ys \<and> dget c' ''version'' = Some u \<and> dget c' ''operator'' = dget c ''operator''"
proof -
  note bh = behind_operators [OF assms(1,2)]
  have "lang equal_body \<subseteq> {x. list_all (\<lambda>c. \<not> strip_ws c) x}"
    using bodies_no_space [of _ "''==''"] by (auto simp: bodies_def)
  then have sub: "lang equal_body \<subseteq> bodies op" if "op \<in> {''=='', ''!='', ''===''}"
    using that by (auto simp: bodies_def)
  from assms(3) [unfolded guarded_alts bh] obtain c1 where c': "c' = dset ''version'' (eaten xs ys) c1" and
    c1: "op = ''==='' \<and> rx_rel identity_text (rev op @ rev w, xs, c) (b', ys, c1)
     \<or> op \<in> {''=='', ''!='', ''===''} \<and> rx_rel equal_text (rev op @ rev w, xs, c) (b', ys, c1)
     \<or> op = ''~='' \<and> rx_rel compatible_text (rev op @ rev w, xs, c) (b', ys, c1)
     \<or> \<not> op \<in> {''=='', ''!='', ''==='', ''~=''} \<and> rx_rel ordered_text (rev op @ rev w, xs, c) (b', ys, c1)"
    by (elim exE conjE)
  have "\<exists>u\<in>spaced (bodies op). xs = u @ ys"
    using c1
  proof (elim disjE conjE)
    assume 1: "op = ''===''" "rx_rel identity_text (rev op @ rev w, xs, c) (b', ys, c1)"
    from lang_rel [OF text_plain(4) 1(2)] 1(1) show ?thesis by (auto simp: text_body bodies_def)
  next
    assume 2: "op \<in> {''=='', ''!='', ''===''}" "rx_rel equal_text (rev op @ rev w, xs, c) (b', ys, c1)"
    from lang_rel [OF text_plain(1) 2(2)] sub [OF 2(1)] show ?thesis unfolding text_body spaced_def by blast
  next
    assume 3: "op = ''~=''" "rx_rel compatible_text (rev op @ rev w, xs, c) (b', ys, c1)"
    from lang_rel [OF text_plain(2) 3(2)] 3(1) show ?thesis by (auto simp: text_body bodies_def)
  next
    assume 4: "\<not> op \<in> {''=='', ''!='', ''==='', ''~=''}" "rx_rel ordered_text (rev op @ rev w, xs, c) (b', ys, c1)"
    from lang_rel [OF text_plain(3) 4(2)] 4(1) show ?thesis by (simp add: text_body bodies_def) blast
  qed
  moreover have "dget c' ''operator'' = dget c ''operator''" using version_rel [OF assms] by auto
  ultimately show ?thesis using c' by auto
qed

lemma new_specifier_split:
  assumes "new_specifier s pre = Inr sp"
  shows "\<exists>w op v x y. s = w @ op @ v @ x @ y \<and> list_all strip_ws (w @ v @ y) \<and> op \<in> set pep_operators \<and> x \<in> bodies op
    \<and> sp = \<lparr>sp_legacy = False, sp_operator = op, sp_version = x, sp_prereleases = pre\<rparr>"
proof -
  from assms obtain g where g: "re_match specifier_regex s = Some g" "sp = specifier_of False pre g"
    by (auto simp: new_specifier_def split: option.splits)
  from rx_match_sound [OF g(1) [unfolded re_match_def]] obtain b ys where
    rel: "rx_rel specifier_regex ([], s, []) (b, ys, g)" by auto
  then obtain t1 t2 t3 t4 where
    "rx_rel (Star Space) ([], s, []) t1"
    "rx_rel (Group ''operator'' (alts [lit ''~='', lit ''=='', lit ''!='', lit ''<='', lit ''>='', lit ''<'', lit ''>'', lit ''===''])) t1 t2"
    "rx_rel (Group ''version'' (alts [
       Seq (Behind [''==='']) identity_text,
       Seq (Behind [''=='', ''!='']) equal_text,
       Seq (Behind [''~='']) compatible_text,
       Seq (NotBehind [''=='', ''!='', ''~='']) ordered_text])) t2 t3"
    "rx_rel (Star Space) t3 t4" "fst (snd t4) = [] \<or> fst (snd t4) = [CHR 0x0A]" "(b, ys, g) = t4"
    unfolding specifier_regex_def seqs.simps rx_rel.simps(3) rx_rel.simps(9) by blast
  moreover obtain b1 x1 c1 b2 x2 c2 b3 x3 c3 where "t1 = (b1, x1, c1)" "t2 = (b2, x2, c2)" "t3 = (b3, x3, c3)"
    by (cases t1; cases t2; cases t3)
  ultimately have
    1: "rx_rel (Star Space) ([], s, []) (b1, x1, c1)"
    and 2: "rx_rel (Group ''operator'' (alts [lit ''~='', lit ''=='', lit ''!='', lit ''<='', lit ''>='', lit ''<'', lit ''>'', lit ''===''])) (b1, x1, c1) (b2, x2, c2)"
    and 3: "rx_rel (Group ''version'' (alts [
       Seq (Behind [''==='']) identity_text,
       Seq (Behind [''=='', ''!='']) equal_text,
       Seq (Behind [''~='']) compatible_text,
       Seq (NotBehind [''=='', ''!='', ''~='']) ordered_text])) (b2, x2, c2) (b3, x3, c3)"
    and 4: "rx_rel (Star Space) (b3, x3, c3) (b, ys, g)" and 5: "ys = [] \<or> ys = [CHR 0x0A]"
    by (simp_all only:) (metis fst_conv snd_conv)
  from space_rel [OF 1] obtain w where w: "list_all strip_ws w" "b1 = rev w" "s = w @ x1" by auto
  from group_rel [OF _ 2] obtain op where op: "op \<in> set pep_operators" "b2 = rev op @ b1" "dget c2 ''operator'' = Some op" "x1 = op @ x2"
    using operator_lang by (auto simp only: plain_lit alts.simps plain.simps)
  from version_rel_text [OF op(1) w(1)] 3 op(2) w(2) obtain u where
    u: "u \<in> spaced (bodies op)" "x2 = u @ x3" "dget c3 ''version'' = Some u" "dget c3 ''operator'' = dget c2 ''operator''" by blast
  from u(1) obtain v x where x: "u = v @ x" "list_all strip_ws v" "x \<in> bodies op" by (auto simp: spaced_def)
  from space_rel [OF 4] obtain z where z: "list_all strip_ws z" "x3 = z @ ys" "dget g = dget c3" by auto
  have "strip u = x" unfolding x(1) by (rule strip_spaced [OF x(2) bodies_no_space [OF x(3)]])
  moreover have "strip op = op" using op(1) strip_spaced [of "[]" op] by (auto simp: pep_operators_def)
  ultimately have "sp = \<lparr>sp_legacy = False, sp_operator = op, sp_version = x, sp_prereleases = pre\<rparr>"
    using g(2) u(3,4) op(3) z(3) by (simp add: specifier_of_def group_text_def)
  moreover have "list_all strip_ws (z @ ys)" using z(1) 5 by (auto simp: strip_ws_def)
  ultimately show ?thesis using w op(1,4) u(2) x z(2)
    by (intro exI [of _ w] exI [of _ op] exI [of _ v] exI [of _ x] exI [of _ "z @ ys"]) simp
qed

section \<open>The texts are read\<close>

lemma rel_spaces: "list_all strip_ws w \<Longrightarrow> \<exists>c'. rx_rel (Star Space) (b, w @ xs, c) (rev w @ b, xs, c')"
  using rel_lang [of "Star Space" w b xs c] lang_star_chr [of w strip_ws] unfolding Space_def plain.simps by blast

lemma operator_in_lang: "op \<in> set pep_operators \<Longrightarrow>
  op \<in> lang (Group ''operator'' (alts [lit ''~='', lit ''=='', lit ''!='', lit ''<='', lit ''>='', lit ''<'', lit ''>'', lit ''==='']))"
proof -
  have "w \<in> lang (lit w)" if "map lower_char w = w" for w using that by (simp add: lang_lit)
  then show "op \<in> set pep_operators \<Longrightarrow> ?thesis"
    unfolding pep_operators_def list.set insert_iff empty_iff alts.simps lang.simps(4) lang.simps(6) Un_iff
    by (elim disjE FalseE; simp add: lower_char_def)
qed

lemma version_rel_make:
  assumes "op \<in> set pep_operators" and "list_all strip_ws w" and "u \<in> spaced (bodies op)"
  shows "\<exists>c'. rx_rel (Group ''version'' (alts [
       Seq (Behind [''==='']) identity_text,
       Seq (Behind [''=='', ''!='']) equal_text,
       Seq (Behind [''~='']) compatible_text,
       Seq (NotBehind [''=='', ''!='', ''~='']) ordered_text])) (rev op @ rev w, u @ ys, c) (rev u @ rev op @ rev w, ys, c')"
proof -
  note bh = behind_operators [OF assms(1,2)]
  have texts: "op = ''==='' \<Longrightarrow> u \<in> lang identity_text" "op = ''=='' \<or> op = ''!='' \<Longrightarrow> u \<in> lang equal_text"
    "op = ''~='' \<Longrightarrow> u \<in> lang compatible_text" "\<not> op \<in> {''=='', ''!='', ''==='', ''~=''} \<Longrightarrow> u \<in> lang ordered_text"
    using assms(3) by (auto simp: text_body bodies_def)
  note make = text_plain [THEN rel_lang, of u "rev op @ rev w" ys c]
  consider "op = ''===''" | "op = ''=='' \<or> op = ''!=''" | "op = ''~=''" | "\<not> op \<in> {''=='', ''!='', ''==='', ''~=''}" by blast
  then show ?thesis
  proof cases
    case 1
    from make(4) [OF texts(1) [OF 1]] obtain c1 where "rx_rel identity_text (rev op @ rev w, u @ ys, c) (rev u @ rev op @ rev w, ys, c1)" by blast
    with 1 show ?thesis unfolding guarded_alts bh by (intro exI conjI refl disjI1) simp_all
  next
    case 2
    from make(1) [OF texts(2) [OF 2]] obtain c1 where r: "rx_rel equal_text (rev op @ rev w, u @ ys, c) (rev u @ rev op @ rev w, ys, c1)" by blast
    from 2 have "op \<in> {''=='', ''!='', ''===''}" by auto
    with r show ?thesis unfolding guarded_alts bh by (intro exI) (rule conjI [OF refl], rule disjI2, rule disjI1, intro conjI)
  next
    case 3
    from make(2) [OF texts(3) [OF 3]] obtain c1 where "rx_rel compatible_text (rev op @ rev w, u @ ys, c) (rev u @ rev op @ rev w, ys, c1)" by blast
    with 3 show ?thesis unfolding guarded_alts bh by (intro exI) (rule conjI [OF refl], rule disjI2, rule disjI2, rule disjI1, intro conjI)
  next
    case 4
    from make(3) [OF texts(4) [OF 4]] obtain c1 where "rx_rel ordered_text (rev op @ rev w, u @ ys, c) (rev u @ rev op @ rev w, ys, c1)" by blast
    with 4 show ?thesis unfolding guarded_alts bh by (intro exI) (rule conjI [OF refl], rule disjI2, rule disjI2, rule disjI2, intro conjI)
  qed
qed

lemma new_specifier_found:
  assumes "list_all strip_ws (w @ v @ y)" and "op \<in> set pep_operators" and "x \<in> bodies op"
  shows "\<exists>sp. new_specifier (w @ op @ v @ x @ y) p = Inr sp"
proof -
  have sp: "list_all strip_ws w" "list_all strip_ws v" "list_all strip_ws y" using assms(1) by simp_all
  have u: "v @ x \<in> spaced (bodies op)" using sp(2) assms(3) by (auto simp: spaced_def)
  from rel_spaces [OF sp(1), of "[]" "op @ (v @ x) @ y" "[]"] obtain c1 where
    1: "rx_rel (Star Space) ([], w @ op @ (v @ x) @ y, []) (rev w, op @ (v @ x) @ y, c1)" by auto
  let ?op = "Group ''operator'' (alts [lit ''~='', lit ''=='', lit ''!='', lit ''<='', lit ''>='', lit ''<'', lit ''>'', lit ''==='']) :: rx"
  have "plain ?op" by simp
  from rel_lang [OF this operator_in_lang [OF assms(2)], of "rev w" "(v @ x) @ y" c1] obtain c2 where
    2: "rx_rel ?op (rev w, op @ (v @ x) @ y, c1) (rev op @ rev w, (v @ x) @ y, c2)" by blast
  from version_rel_make [OF assms(2) sp(1) u] obtain c3 where 3: "rx_rel (Group ''version'' (alts [
       Seq (Behind [''==='']) identity_text,
       Seq (Behind [''=='', ''!='']) equal_text,
       Seq (Behind [''~='']) compatible_text,
       Seq (NotBehind [''=='', ''!='', ''~='']) ordered_text])) (rev op @ rev w, (v @ x) @ y, c2) (rev (v @ x) @ rev op @ rev w, y, c3)"
    by blast
  from rel_spaces [OF sp(3), of "rev (v @ x) @ rev op @ rev w" "[]" c3] obtain c4 where
    4: "rx_rel (Star Space) (rev (v @ x) @ rev op @ rev w, y, c3) (rev y @ rev (v @ x) @ rev op @ rev w, [], c4)" by auto
  have 5: "rx_rel Eos (rev y @ rev (v @ x) @ rev op @ rev w, [], c4) (rev y @ rev (v @ x) @ rev op @ rev w, [], c4)" by simp
  have "rx_rel specifier_regex ([], w @ op @ (v @ x) @ y, []) (rev y @ rev (v @ x) @ rev op @ rev w, [], c4)"
    unfolding specifier_regex_def seqs.simps rx_rel.simps(3) using 1 2 3 4 5 by blast
  from rx_match_complete [OF this, of "\<lambda>(b, ys, c). Some c"] show ?thesis
    by (auto simp: new_specifier_def re_match_def)
qed

section \<open>One reading only\<close>

lemma middle_word: "list_all strip_ws v \<Longrightarrow> list_all (\<lambda>c. \<not> strip_ws c) x \<Longrightarrow> list_all strip_ws y \<Longrightarrow>
  takeWhile (\<lambda>c. \<not> strip_ws c) (dropWhile strip_ws (v @ x @ y)) = x"
proof -
  assume a: "list_all strip_ws v" "list_all (\<lambda>c. \<not> strip_ws c) x" "list_all strip_ws y"
  have y: "takeWhile (\<lambda>c. \<not> strip_ws c) y = []" "dropWhile strip_ws y = []" using a(3) by (cases y; auto simp: list_all_iff)+
  have "dropWhile strip_ws (v @ x @ y) = dropWhile strip_ws (x @ y)" using a(1) by (simp add: dropWhile_append2 list_all_iff)
  moreover have "dropWhile strip_ws (x @ y) = x @ y" if "x \<noteq> []" using a(2) that by (cases x) simp_all
  moreover have "dropWhile strip_ws (v @ y) = []" using a(1,3) by (simp add: list_all_iff)
  moreover have "takeWhile (\<lambda>c. \<not> strip_ws c) (x @ y) = x" using a(2) y(1) by (simp add: takeWhile_append2 list_all_iff)
  ultimately show ?thesis by (cases "x = []") simp_all
qed

lemma operator_heads: "op \<in> set pep_operators \<Longrightarrow> \<exists>c cs. op = c # cs \<and> \<not> strip_ws c"
  unfolding pep_operators_def list.set insert_iff empty_iff by (elim disjE FalseE) simp_all

lemma no_equals_head:
  assumes "op \<noteq> ''===''" and "list_all strip_ws v" and "x \<in> bodies op" and "list_all strip_ws y"
  shows "v @ x @ y \<noteq> CHR ''='' # z"
proof
  assume e: "v @ x @ y = CHR ''='' # z"
  have "CHR ''='' \<in> set (v @ x @ y)" unfolding e by simp
  then have "CHR ''='' \<in> set v \<or> CHR ''='' \<in> set x \<or> CHR ''='' \<in> set y" by simp
  moreover have "list_all visible_chr x" by (rule visible_bodies [OF assms(3,1)])
  moreover have "\<not> strip_ws (CHR ''='')" "\<not> visible_chr (CHR ''='')" by (simp_all add: visible_chr_def)
  ultimately show False using assms(2,4) unfolding list_all_iff by blast
qed

lemma operator_unique:
  assumes "op @ v @ x @ y = op' @ v' @ x' @ y'" and "op \<in> set pep_operators" and "op' \<in> set pep_operators"
    and "x \<in> bodies op" and "x' \<in> bodies op'" and "list_all strip_ws (v @ y)" and "list_all strip_ws (v' @ y')"
  shows "op = op'"
proof (rule ccontr)
  assume ne: "op \<noteq> op'"
  have longer: "\<exists>t. b = a @ CHR ''='' # t \<and> a \<noteq> ''===''" if "prefix a b" "a \<noteq> b" "a \<in> set pep_operators" "b \<in> set pep_operators" for a b
    using that by (auto simp: pep_operators_def)
  from assms(1) consider "prefix op op'" | "prefix op' op" by (metis prefixI prefix_same_cases)
  then show False
  proof cases
    case 1
    from longer [OF 1 ne assms(2,3)] obtain t where "op' = op @ CHR ''='' # t" "op \<noteq> ''===''" by blast
    with assms(1) have "v @ x @ y = CHR ''='' # t @ v' @ x' @ y'" "op \<noteq> ''===''" by simp_all
    moreover have "v @ x @ y \<noteq> CHR ''='' # t @ v' @ x' @ y'"
      by (rule no_equals_head [OF calculation(2) _ assms(4)]) (use assms(6) in simp_all)
    ultimately show False by blast
  next
    case 2
    from longer [OF 2 _ assms(3,2)] ne obtain t where "op = op' @ CHR ''='' # t" "op' \<noteq> ''===''" by blast
    with assms(1) have "v' @ x' @ y' = CHR ''='' # t @ v @ x @ y" "op' \<noteq> ''===''" by simp_all
    moreover have "v' @ x' @ y' \<noteq> CHR ''='' # t @ v @ x @ y"
      by (rule no_equals_head [OF calculation(2) _ assms(5)]) (use assms(7) in simp_all)
    ultimately show False by blast
  qed
qed

lemma dropWhile_operator: "list_all strip_ws w \<Longrightarrow> op \<in> set pep_operators \<Longrightarrow> dropWhile strip_ws (w @ op @ r) = op @ r"
  using operator_heads [of op] by (auto simp: dropWhile_append2 list_all_iff)

lemma specifier_text:
  assumes "list_all strip_ws (w @ v @ y)" and "op \<in> set pep_operators" and "x \<in> bodies op"
  shows "new_specifier (w @ op @ v @ x @ y) p = Inr \<lparr>sp_legacy = False, sp_operator = op, sp_version = x, sp_prereleases = p\<rparr>"
proof -
  from new_specifier_found [OF assms] obtain sp where sp: "new_specifier (w @ op @ v @ x @ y) p = Inr sp" by blast
  from new_specifier_split [OF this] obtain w' op' v' x' y' where
    s: "w @ op @ v @ x @ y = w' @ op' @ v' @ x' @ y'" "list_all strip_ws (w' @ v' @ y')" "op' \<in> set pep_operators" "x' \<in> bodies op'"
      "sp = \<lparr>sp_legacy = False, sp_operator = op', sp_version = x', sp_prereleases = p\<rparr>" by blast
  have ops: "op @ v @ x @ y = op' @ v' @ x' @ y'"
    using arg_cong [OF s(1), of "dropWhile strip_ws"] assms(1,2) s(2,3) by (simp add: dropWhile_operator)
  have "op = op'" using operator_unique [OF ops assms(2) s(3) assms(3) s(4)] assms(1) s(2) by simp
  with ops have "v @ x @ y = v' @ x' @ y'" by simp
  then have "x = x'"
    using middle_word [of v x y] middle_word [of v' x' y'] assms(1) s(2) bodies_no_space [OF assms(3)] bodies_no_space [OF s(4)] by simp
  with \<open>op = op'\<close> s(5) sp show ?thesis by simp
qed

text \<open>
  Exactly which texts are specifiers of PEP 440 and how they are read: an operator and a text that the operator
  takes, with white space around and between them, and nothing else.
\<close>
theorem specifier_texts_exact:
  "new_specifier s p = Inr sp \<longleftrightarrow> (\<exists>w op v x y. s = w @ op @ v @ x @ y \<and> list_all strip_ws (w @ v @ y)
     \<and> op \<in> set pep_operators \<and> x \<in> bodies op
     \<and> sp = \<lparr>sp_legacy = False, sp_operator = op, sp_version = x, sp_prereleases = p\<rparr>)"
  using new_specifier_split specifier_text by blast

lemma specifier_reread: "new_specifier s p = Inr sp \<Longrightarrow> new_specifier (spec_str sp) p = Inr sp"
proof -
  assume "new_specifier s p = Inr sp"
  from new_specifier_split [OF this] obtain op x where
    "op \<in> set pep_operators" "x \<in> bodies op" "sp = \<lparr>sp_legacy = False, sp_operator = op, sp_version = x, sp_prereleases = p\<rparr>" by blast
  then show ?thesis using specifier_text [of "[]" "[]" "[]" op x p] by (simp add: spec_str_def)
qed

section \<open>Releases\<close>

definition dots :: "int list \<Rightarrow> string" where
  "dots ns = join_with ''.'' (map str_of_int ns)"

lemma concI: "u \<in> A \<Longrightarrow> v \<in> B \<Longrightarrow> u @ v \<in> conc A B"
  by (auto simp: conc_def)

lemma conc_start: "[] \<in> A \<Longrightarrow> v \<in> B \<Longrightarrow> v \<in> conc A B"
  by (force simp: conc_def)

lemma release_in_bodies:
  assumes "ns \<noteq> []" and "list_all (\<lambda>n. 0 \<le> n) ns" and "op \<in> {''<='', ''>='', ''<'', ''>'', ''=='', ''!=''}"
  shows "dots ns \<in> bodies op"
proof -
  from assms(1) obtain m ms where ns: "ns = m # ms" by (cases ns) auto
  have digits: "str_of_int n \<in> lang (Plus Digit)" if "n \<in> set ns" for n
    using assms(2) that str_of_int_digits [of n] unfolding lang_Plus_Digit by (auto simp: isdigit_def all_digits_set list_all_iff)
  have "sep_parts CHR ''.'' (map str_of_int ms) \<in> lang (Star (Seq (lit ''.'') (Plus Digit)))"
  proof -
    have "CHR ''.'' # str_of_int n \<in> lang (Seq (lit ''.'') (Plus Digit))" if "n \<in> set ms" for n
      unfolding lang_Seq conc_def using digits [of n] that
      by (intro CollectI exI [of _ "''.''"] exI [of _ "str_of_int n"]) (simp add: ns lang_lit lower_char_def)
    then show ?thesis unfolding lang.simps(5) sep_parts_def by (intro CollectI exI conjI refl) auto
  qed
  moreover have "str_of_int m \<in> lang (Plus Digit)" using digits ns by simp
  ultimately have "str_of_int m @ sep_parts CHR ''.'' (map str_of_int ms)
      \<in> conc (lang (Plus Digit)) (lang (Star (Seq (lit ''.'') (Plus Digit))))" by (rule concI [rotated])
  moreover have empty: "[] \<in> lang (Opt r)" for r by (simp add: lang_Opt)
  ultimately have r: "dots ns \<in> lang (release_body Star)"
    unfolding release_body_def seqs.simps lang_Seq dots_def ns list.map join_sep_parts by (intro conc_start [OF empty])
  have "dots ns \<in> lang equal_body"
    unfolding equal_body_def seqs.simps lang_Seq spec_pre_def spec_post_def
    by (rule conc_end [OF _ r], rule conc_start [OF empty], rule conc_start [OF empty], rule empty)
  moreover have "dots ns \<in> lang ordered_body"
    unfolding ordered_body_def seqs.simps lang_Seq spec_pre_def spec_post_def spec_dev_def
    by (rule conc_end [OF _ r], rule conc_start [OF empty], rule conc_start [OF empty], rule empty)
  ultimately show ?thesis using assms(3) by (auto simp: bodies_def)
qed

lemma release_rank: "rk (release_version ms) \<le> rk (release_version ns) \<longleftrightarrow> rstrip_while (\<lambda>n. n = 0) ms \<le> rstrip_while (\<lambda>n. n = 0) ns"
  "rk (release_version ms) < rk (release_version ns) \<longleftrightarrow> rstrip_while (\<lambda>n. n = 0) ms < rstrip_while (\<lambda>n. n = 0) ns"
  "rk (release_version ms) = rk (release_version ns) \<longleftrightarrow> rstrip_while (\<lambda>n. n = 0) ms = rstrip_while (\<lambda>n. n = 0) ns"
  by (auto simp: rank_def release_version_def rel_rank_def pre_rank_def post_rank_def dev_rank_def local_rank_def less_le)

definition compares :: "string \<Rightarrow> 'a::linorder \<Rightarrow> 'a \<Rightarrow> bool" where
  "compares op a b = (if op = ''<='' then a \<le> b else if op = ''>='' then b \<le> a else if op = ''<'' then a < b
     else if op = ''>'' then b < a else if op = ''=='' then a = b else a \<noteq> b)"

lemma release_contained:
  assumes "ms \<noteq> []" "list_all (\<lambda>n. 0 \<le> n) ms" "ns \<noteq> []" "list_all (\<lambda>n. 0 \<le> n) ns"
    and "op \<in> {''<='', ''>='', ''<'', ''>'', ''=='', ''!=''}"
  shows "\<exists>sp. new_specifier (op @ dots ns) None = Inr sp \<and> spec_contains sp (ItemText (dots ms)) None
    = Inr (compares op (rstrip_while (\<lambda>n. n = 0) ms) (rstrip_while (\<lambda>n. n = 0) ns))"
proof -
  let ?sp = "\<lparr>sp_legacy = False, sp_operator = op, sp_version = dots ns, sp_prereleases = None\<rparr>"
  have "op \<in> set pep_operators" using assms(5) by (auto simp: pep_operators_def)
  from specifier_text [of "[]" "[]" "[]", OF _ this release_in_bodies [OF assms(3-5)]]
  have sp: "new_specifier (op @ dots ns) None = Inr ?sp" by simp
  have v: "pep_version (dots ms) = Inr (release_version ms)" "pep_version (dots ns) = Inr (release_version ns)"
    using release_version_text assms(1-4) by (simp_all add: dots_def)
  have wf: "pep_wf (release_version ms)" using v(1) by (rule pep_version_wf)
  have "\<not> endswith_star (dots ns)"
  proof
    assume "endswith_star (dots ns)"
    then have "CHR ''*'' \<in> set (dots ns)" by (auto simp: endswith_star_def suffix_def)
    then show False using set_join_with [of "''.''" "map str_of_int ns"] assms(4) str_of_int_chars
      by (fastforce simp: dots_def list_all_iff)
  qed
  note c = compare_results [OF wf v(2)] and eq = compare_results(3) [OF wf v(2) this]
  have plain: "\<not> pep_is_prerelease (release_version ms)" "\<not> pep_is_postrelease (release_version ms)"
    "v_local (release_version ms) = None" "v_local (release_version ns) = None" "public_of (release_version ms) = release_version ms"
    by (simp_all add: release_version_def pep_is_prerelease_def pep_is_postrelease_def public_of_def)
  have "pep_operator op (Version (release_version ms)) (dots ns)
    = Inr (compares op (rstrip_while (\<lambda>n. n = 0) ms) (rstrip_while (\<lambda>n. n = 0) ns))"
    using assms(5) by (auto simp: pep_operator_def require_version_def c(1,2,4,5) eq plain release_rank compare_not_equal_def compares_def)
  then show ?thesis using sp
    by (intro exI [of _ ?sp]) (simp add: spec_contains_def coerce_item_def parse_item_def pkg_parse_def v(1) av_is_prerelease_def plain(1))
qed

end
