(* ===== verification/PkgMarkersLaws.thy ===== *)
theory PkgMarkersLaws
  imports PkgMarkers PkgSpecifierText
begin

text \<open>
  Laws of the markers: the bound of the grammar's recursion is enough, what the grammar gives has the shape that
  printing and evaluation expect, printed markers read back, and a marker means what its text says as a boolean
  expression.
\<close>

section \<open>The shape of a marker\<close>

fun node_ok :: "(string \<Rightarrow> bool) \<Rightarrow> mark \<Rightarrow> bool" where
  "node_ok V (Variable v) \<longleftrightarrow> v \<in> set (map unalias variable_names)"
| "node_ok V (Value x) \<longleftrightarrow> V x"
| "node_ok V _ \<longleftrightarrow> False"

definition item_ok :: "(string \<Rightarrow> bool) \<Rightarrow> mark list \<Rightarrow> bool" where
  "item_ok V ts \<longleftrightarrow> (\<exists>a w b. ts = [a, Op w, b] \<and> node_ok V a \<and> w \<in> set marker_ops \<and> node_ok V b)"

text \<open>Atoms joined by \<open>and\<close> and \<open>or\<close>; \<open>C\<close> is what is asked of the lists in parentheses.\<close>

fun atom_ok :: "(string \<Rightarrow> bool) \<Rightarrow> (mark list \<Rightarrow> bool) \<Rightarrow> mark \<Rightarrow> bool"
  and marks_ok :: "(string \<Rightarrow> bool) \<Rightarrow> (mark list \<Rightarrow> bool) \<Rightarrow> mark list \<Rightarrow> bool" where
  "atom_ok V C (Tuple ts) \<longleftrightarrow> item_ok V ts"
| "atom_ok V C (Nested ms) \<longleftrightarrow> C ms \<and> marks_ok V C ms"
| "atom_ok V C (Variable _) \<longleftrightarrow> False"
| "atom_ok V C (Value _) \<longleftrightarrow> False"
| "atom_ok V C (Op _) \<longleftrightarrow> False"
| "atom_ok V C (Text _) \<longleftrightarrow> False"
| "marks_ok V C [] \<longleftrightarrow> False"
| "marks_ok V C [m] \<longleftrightarrow> atom_ok V C m"
| "marks_ok V C (m # w # ms) \<longleftrightarrow> atom_ok V C m \<and> (w = Text ''and'' \<or> w = Text ''or'') \<and> marks_ok V C ms"

definition any_marks :: "mark list \<Rightarrow> bool" where
  "any_marks ms \<longleftrightarrow> marks_ok (\<lambda>_. True) (\<lambda>_. True) ms"

text \<open>Values that a printed marker can hold, and lists in parentheses that keep their parentheses.\<close>

definition plain_value :: "string \<Rightarrow> bool" where
  "plain_value x \<longleftrightarrow> set x \<inter> {CHR 0x22, CHR 0x5C, CHR 0x09, CHR 0x0A, CHR 0x0D} = {}"

definition printable :: "mark list \<Rightarrow> bool" where
  "printable ms \<longleftrightarrow> marks_ok plain_value (\<lambda>ms. length ms > 1) ms"

lemma weaken_lists:
  "atom_ok V C m \<Longrightarrow> atom_ok V (\<lambda>_. True) m"
  "marks_ok V C ms \<Longrightarrow> marks_ok V (\<lambda>_. True) ms"
  by (induction V C m and V C ms rule: atom_ok_marks_ok.induct) auto

lemma marks_ok_append:
  "marks_ok V C ms \<Longrightarrow> w = Text ''and'' \<or> w = Text ''or'' \<Longrightarrow> marks_ok V C ns \<Longrightarrow> marks_ok V C (ms @ w # ns)"
proof (induction ms rule: induct_list012)
  case (2 x)
  then show ?case by (cases ns) auto
next
  case (3 x y zs)
  then show ?case by (cases zs; cases ns) auto
qed simp

section \<open>Elements of the grammar\<close>

lemma white_simps [simp]:
  "is_white (CHR '' '')" "\<not> is_white (CHR ''('')" "\<not> is_white (CHR '')'')" "\<not> is_white (CHR 0x22)" "\<not> is_white (CHR ''a'')"
  "\<not> is_white (CHR ''o'')"
  by (simp_all add: is_white_def)

definition lenient :: "'a parser \<Rightarrow> bool" where
  "lenient p \<longleftrightarrow> (\<forall>s. p (pre_parse s) = p s)"

lemma lenient_space: "lenient p \<Longrightarrow> p (CHR '' '' # s) = p s"
  unfolding lenient_def by (metis pre_parse_simps(2) white_simps(1))

lemma lenient_skipping: "lenient (skipping p)"
  by (simp add: lenient_def)

lemma lenient_with_action: "lenient p \<Longrightarrow> lenient (with_action f p)"
  by (simp add: lenient_def with_action_def)

lemma lenient_match_first: "\<forall>p\<in>set ps. lenient p \<Longrightarrow> lenient (match_first ps)"
proof (induction ps)
  case (Cons p ps)
  then have "lenient p" "lenient (match_first ps)" by auto
  then show ?case unfolding lenient_def match_first.simps by metis
qed (simp add: lenient_def)

lemma lenient_and: "lenient p \<Longrightarrow> lenient (and_parse (p # ps))"
  by (simp add: lenient_def)

lemma lenient_L: "lenient (L w)"
  by (simp add: L_def lenient_skipping)

lemmas grammar_defs = VARIABLE_def MARKER_OP_def MARKER_VALUE_def BOOLOP_def MARKER_VAR_def MARKER_ITEM_def LPAREN_def
  RPAREN_def MARKER_ATOM_def quoted_string_def suppress_def

lemma lenient_elements:
  "lenient VARIABLE" "lenient MARKER_OP" "lenient MARKER_VALUE" "lenient BOOLOP" "lenient MARKER_VAR" "lenient MARKER_ITEM"
  "lenient LPAREN" "lenient RPAREN" "lenient (MARKER_ATOM e)"
  unfolding grammar_defs
  by (intro lenient_with_action lenient_match_first lenient_and ballI | simp add: lenient_L lenient_skipping | elim disjE
    | hypsubst | auto simp: lenient_L lenient_skipping intro!: lenient_with_action lenient_match_first lenient_and)+

lemma progress_L: "w \<noteq> [] \<Longrightarrow> progress (L w)"
  by (simp add: L_def progress_skipping progress_with_action progress_literal)

lemma names_not_Nil: "[] \<notin> set variable_names" "[] \<notin> set marker_ops"
  by (simp_all add: variable_names_def marker_ops_def)

lemma progress_elements:
  "progress VARIABLE" "progress MARKER_OP" "progress MARKER_VALUE" "progress BOOLOP" "progress MARKER_VAR" "progress MARKER_ITEM"
  "progress LPAREN" "progress RPAREN"
proof -
  show a: "progress VARIABLE" "progress MARKER_OP"
    unfolding VARIABLE_def MARKER_OP_def using names_not_Nil
    by (auto intro!: progress_with_action progress_match_first progress_L)
  show b: "progress MARKER_VALUE"
    unfolding MARKER_VALUE_def quoted_string_def
    by (auto intro!: progress_with_action progress_match_first progress_skipping progress_quoted)
  show "progress BOOLOP" unfolding BOOLOP_def by (auto intro!: progress_match_first progress_L)
  show c: "progress MARKER_VAR" unfolding MARKER_VAR_def using a b by (auto intro!: progress_match_first)
  show "progress MARKER_ITEM"
    unfolding MARKER_ITEM_def using a b c by (auto intro!: progress_with_action progress_and intro: progress_shrinks)
  show "progress LPAREN" "progress RPAREN"
    unfolding LPAREN_def RPAREN_def suppress_def by (auto intro!: progress_with_action progress_L)
qed

section \<open>The recursion\<close>

lemma atom_cong:
  assumes "\<And>t. length t < length s \<Longrightarrow> e t = e' t"
  shows "MARKER_ATOM e s = MARKER_ATOM e' s"
proof -
  have "and_parse [LPAREN, e, RPAREN] s = and_parse [LPAREN, e', RPAREN] s"
    using assms progress_elements(7) unfolding progress_def by (auto split: option.splits)
  then show ?thesis by (cases "MARKER_ITEM s") (simp_all add: MARKER_ATOM_def with_action_def del: and_parse.simps)
qed

lemma boolop_cong:
  assumes "\<And>t. length t < length s \<Longrightarrow> e t = e' t"
  shows "and_parse [BOOLOP, e] s = and_parse [BOOLOP, e'] s"
  using assms progress_elements(4) unfolding progress_def by (auto split: option.splits)

lemma progress_atom: "shrinks e \<Longrightarrow> progress (MARKER_ATOM e)"
  unfolding MARKER_ATOM_def using progress_elements progress_elements(8) [THEN progress_shrinks]
  by (auto intro!: progress_match_first progress_with_action progress_and)

lemma progress_expr: "progress (MARKER_EXPR n)"
proof (induction n)
  case 0
  show ?case by (simp add: progress_def)
next
  case (Suc n)
  have "progress (and_parse [MARKER_ATOM (MARKER_EXPR n), zero_or_more (and_parse [BOOLOP, MARKER_EXPR n])])"
    using Suc by (intro progress_and progress_atom) (auto simp: shrinks_zero_or_more intro: progress_shrinks)
  then show ?case by (simp add: progress_def)
qed

lemma and_cong:
  "p s = p' s \<Longrightarrow> (\<And>ts t. p' s = Some (ts, t) \<Longrightarrow> q t = q' t) \<Longrightarrow> and_parse [p, q] s = and_parse [p', q'] s"
  by (cases "p' s") auto

lemma marker_expr_step:
  assumes "\<And>t. length t < length s \<Longrightarrow> MARKER_EXPR n t = MARKER_EXPR m t"
  shows "MARKER_EXPR (Suc n) s = MARKER_EXPR (Suc m) s"
  unfolding MARKER_EXPR.simps
proof (rule and_cong)
  show "MARKER_ATOM (MARKER_EXPR n) s = MARKER_ATOM (MARKER_EXPR m) s" by (rule atom_cong) (rule assms)
next
  fix ts t
  assume "MARKER_ATOM (MARKER_EXPR m) s = Some (ts, t)"
  then have "length t < length s"
    using progress_atom [OF progress_shrinks [OF progress_expr]] unfolding progress_def by blast
  then show "zero_or_more (and_parse [BOOLOP, MARKER_EXPR n]) t = zero_or_more (and_parse [BOOLOP, MARKER_EXPR m]) t"
    by (intro zero_or_more_cong boolop_cong) (erule assms [OF order.strict_trans] order.strict_trans2 | simp add: assms)+
qed

lemma marker_expr_same:
  "length s < n \<Longrightarrow> length s < m \<Longrightarrow> MARKER_EXPR n s = MARKER_EXPR m s"
proof (induction s arbitrary: n m rule: measure_induct_rule [of length])
  case (less s)
  from less.prems obtain n' where n: "n = Suc n'" by (cases n) simp_all
  from less.prems obtain m' where m: "m = Suc m'" by (cases m) simp_all
  note nm = n m
  show ?case unfolding nm
  proof (rule marker_expr_step)
    fix t :: string
    assume t: "length t < length s"
    then have "length t < n'" "length t < m'" using less.prems unfolding nm by linarith+
    then show "MARKER_EXPR n' t = MARKER_EXPR m' t" by (rule less.IH [OF t])
  qed
qed

section \<open>What the grammar gives\<close>

lemma L_result: "L w s = Some (ts, s') \<Longrightarrow> ts = [Text w]"
  by (auto simp: L_def skipping_def with_action_eq literal_impl_def split: if_splits)

lemma match_first_L: "match_first (map L ws) s = Some (ts, s') \<Longrightarrow> \<exists>w\<in>set ws. ts = [Text w]"
  using match_first_cases L_result by fastforce

lemma node_result: "MARKER_VAR s = Some (ts, s') \<Longrightarrow> \<exists>a. ts = [a] \<and> node_ok (\<lambda>_. True) a"
proof -
  assume "MARKER_VAR s = Some (ts, s')"
  then consider "VARIABLE s = Some (ts, s')" | "MARKER_VALUE s = Some (ts, s')"
    by (auto simp: MARKER_VAR_def split: option.splits)
  then show ?thesis
    by cases (auto simp: VARIABLE_def MARKER_VALUE_def with_action_eq text_of_def dest: match_first_L)
qed

lemma op_result: "MARKER_OP s = Some (ts, s') \<Longrightarrow> \<exists>w\<in>set marker_ops. ts = [Op w]"
  by (auto simp: MARKER_OP_def with_action_eq text_of_def dest!: match_first_L)

lemma item_result: "MARKER_ITEM s = Some (ts, s') \<Longrightarrow> \<exists>us. ts = [Tuple us] \<and> item_ok (\<lambda>_. True) us"
  unfolding MARKER_ITEM_def with_action_eq and_parse_Cons_eq
  by (force simp: item_ok_def dest: node_result op_result)

lemma boolop_result: "BOOLOP s = Some (ts, s') \<Longrightarrow> ts = [Text ''and''] \<or> ts = [Text ''or'']"
  by (auto simp: BOOLOP_def split: option.splits dest: L_result)

lemma expr_result: "MARKER_EXPR n s = Some (ts, s') \<Longrightarrow> any_marks ts"
proof (induction n arbitrary: s ts s')
  case (Suc n)
  have atom: "\<exists>a. us = [a] \<and> atom_ok (\<lambda>_. True) (\<lambda>_. True) a" if "MARKER_ATOM (MARKER_EXPR n) s = Some (us, t)" for us t
  proof -
    from that consider "MARKER_ITEM s = Some (us, t)"
      | us' where "us = [Nested us']" "and_parse [LPAREN, MARKER_EXPR n, RPAREN] s = Some (us', t)"
      by (auto simp: MARKER_ATOM_def with_action_eq split: option.splits)
    then show ?thesis
    proof cases
      case 1
      then show ?thesis using item_result by force
    next
      case 2
      then show ?thesis unfolding and_parse_Cons_eq
        by (auto simp: LPAREN_def RPAREN_def suppress_def with_action_eq any_marks_def [symmetric] dest: Suc.IH)
    qed
  qed
  have rest: "any_marks (xs @ us)" if "zero_or_more (and_parse [BOOLOP, MARKER_EXPR n]) t = Some (us, t')" "any_marks xs"
    for xs t us t'
    using that
  proof (induction t arbitrary: xs us rule: measure_induct_rule [of length])
    case (less t)
    show ?case
    proof (cases "and_parse [BOOLOP, MARKER_EXPR n] t")
      case None
      with less.prems show ?thesis by (simp add: zero_or_more_stop)
    next
      case (Some r)
      then obtain ys u where r: "and_parse [BOOLOP, MARKER_EXPR n] t = Some (ys, u)" by (cases r) auto
      then obtain b zs where ys: "ys = b # zs" "b = Text ''and'' \<or> b = Text ''or''" "any_marks zs"
        unfolding and_parse_Cons_eq by (fastforce dest: boolop_result Suc.IH)
      have more: "any_marks (xs @ ys)" using less.prems(2) ys by (simp add: any_marks_def marks_ok_append)
      show ?thesis
      proof (cases "length u < length t")
        case True
        with less.prems(1) r obtain vs where vs: "zero_or_more (and_parse [BOOLOP, MARKER_EXPR n]) u = Some (vs, t')" "us = ys @ vs"
          by (subst (asm) zero_or_more.simps) (auto split: option.splits)
        with less.IH [OF True vs(1) more] show ?thesis by simp
      next
        case False
        with less.prems r show ?thesis by (subst (asm) zero_or_more.simps) simp
      qed
    qed
  qed
  from Suc.prems obtain us t vs where "MARKER_ATOM (MARKER_EXPR n) s = Some (us, t)"
      "zero_or_more (and_parse [BOOLOP, MARKER_EXPR n]) t = Some (vs, s')" "ts = us @ vs"
    unfolding MARKER_EXPR.simps and_parse_Cons_eq by auto
  with atom rest [of t vs s' us] show ?case by (force simp: any_marks_def)
qed simp

lemma new_marker_result: "new_marker s = Inr ms \<Longrightarrow> any_marks ms"
  unfolding new_marker_def parse_string_def MARKER_def
  by (auto simp: and_parse_Cons_eq string_start_def string_end_def skipping_def simp del: MARKER_EXPR.simps and_parse.simps(2)
    split: option.splits if_splits dest: expr_result)

section \<open>Reading what was printed\<close>

lemma pre_parse_text: "w \<noteq> [] \<Longrightarrow> \<not> is_white (hd w) \<Longrightarrow> pre_parse (w @ s) = w @ s"
  by (cases w) simp_all

lemma L_eq: "L w s = (if prefix w (pre_parse s) then Some ([Text w], drop (length w) (pre_parse s)) else None)"
  by (simp add: L_def skipping_def with_action_def literal_impl_def)

lemma match_first_unique:
  assumes "w \<in> set ws" and "pre_parse s = w @ r" and "\<And>w'. w' \<in> set ws \<Longrightarrow> prefix w' (w @ r) \<Longrightarrow> w' = w"
  shows "match_first (map L ws) s = Some ([Text w], r)"
  using assms(1,3)
proof (induction ws)
  case (Cons v ws)
  show ?case
  proof (cases "prefix v (w @ r)")
    case True
    then have "v = w" using Cons.prems(2) by simp
    then show ?thesis by (simp add: L_eq assms(2))
  next
    case False
    then have "v \<noteq> w" by (auto simp: prefix_def)
    with Cons have "match_first (map L ws) s = Some ([Text w], r)" by simp
    with False show ?thesis by (simp add: L_eq [of v s] assms(2))
  qed
qed simp

lemma names_incomparable: "list_all (\<lambda>v. v \<noteq> [] \<and> \<not> is_white (hd v) \<and> list_all (\<lambda>w. prefix v w \<longrightarrow> v = w) variable_names) variable_names"
  by code_simp

lemma canonical_names: "list_all (\<lambda>v. unalias v \<in> set variable_names \<and> unalias (unalias v) = unalias v) variable_names"
  by code_simp

lemma variable_parse:
  assumes "v \<in> set (map unalias variable_names)"
  shows "VARIABLE (v @ r) = Some ([Variable v], r)"
proof -
  from assms canonical_names have v: "v \<in> set variable_names" "unalias v = v" by (auto simp: list_all_iff)
  with names_incomparable have w: "pre_parse (v @ r) = v @ r" by (auto simp: list_all_iff intro!: pre_parse_text)
  have "w = v" if "w \<in> set variable_names" "prefix w (v @ r)" for w
  proof -
    from that(2) have "prefix w v \<or> prefix v w" by (meson prefix_same_cases prefixI)
    with that(1) v names_incomparable show ?thesis unfolding list_all_iff by blast
  qed
  with match_first_unique [OF v(1) w] v(2) show ?thesis
    by (simp add: VARIABLE_def with_action_def text_of_def)
qed

lemma op_parse:
  assumes "w \<in> set marker_ops"
  shows "MARKER_OP (w @ CHR '' '' # r) = Some ([Op w], CHR '' '' # r)"
proof -
  have "match_first (map L marker_ops) (w @ CHR '' '' # r) = Some ([Text w], CHR '' '' # r)"
    using assms unfolding marker_ops_def list.set insert_iff empty_iff
    by (elim disjE FalseE) (simp_all add: L_eq is_white_def)
  then show ?thesis by (simp add: MARKER_OP_def with_action_def text_of_def)
qed

lemma value_parse:
  assumes "plain_value x"
  shows "MARKER_VAR (CHR 0x22 # x @ CHR 0x22 # r) = Some ([Value x], r)"
proof -
  have no_name: "VARIABLE (CHR 0x22 # s) = None" for s
    by (simp add: VARIABLE_def with_action_def variable_names_def L_eq)
  have q: "takeWhile (\<lambda>c. c \<noteq> CHR 0x22 \<and> c \<noteq> CHR 0x0A \<and> c \<noteq> CHR 0x0D) (x @ CHR 0x22 # r) = x"
    "dropWhile (\<lambda>c. c \<noteq> CHR 0x22 \<and> c \<noteq> CHR 0x0A \<and> c \<noteq> CHR 0x0D) (x @ CHR 0x22 # r) = CHR 0x22 # r"
    using assms by (auto simp: plain_value_def takeWhile_append2 dropWhile_append2 disjoint_iff)
  have "quoted_string (CHR 0x27) (CHR 0x22 # x @ CHR 0x22 # r) = None"
    by (simp add: quoted_string_def skipping_def with_action_def quoted_impl_def)
  moreover have "quoted_string (CHR 0x22) (CHR 0x22 # x @ CHR 0x22 # r) = Some ([Text x], r)"
    using assms by (simp add: quoted_string_def skipping_def with_action_def quoted_impl_def q unescape_def plain_value_def)
  ultimately show ?thesis
    by (simp add: MARKER_VAR_def no_name MARKER_VALUE_def with_action_def text_of_def)
qed

lemma node_parse:
  assumes "node_ok plain_value a"
  shows "\<exists>t. serialize a = Inr t \<and> (\<forall>r. MARKER_VAR (t @ r) = Some ([a], r))
    \<and> (\<exists>c u. t = c # u \<and> c \<noteq> CHR ''('') \<and> set t \<inter> {CHR 0x09} = {}"
proof (cases a)
  case (Variable v)
  with assms names_incomparable canonical_names have "v \<noteq> []" by (auto simp: list_all_iff)
  moreover have "CHR ''('' \<notin> set v \<and> CHR 0x09 \<notin> set v"
  proof -
    have "list_all (\<lambda>v. CHR ''('' \<notin> set v \<and> CHR 0x09 \<notin> set v) (map unalias variable_names)" by code_simp
    with Variable assms show ?thesis unfolding list_all_iff by auto
  qed
  ultimately show ?thesis using Variable assms variable_parse [of v]
    by (cases v) (auto simp: serialize_def MARKER_VAR_def)
next
  case (Value x)
  with assms value_parse [of x] show ?thesis by (auto simp: serialize_def plain_value_def)
qed (use assms in auto)

lemma item_parse:
  assumes "item_ok plain_value ts"
  shows "\<exists>t. format_marker b (Tuple ts) = Inr t \<and> (\<forall>r. MARKER_ITEM (t @ r) = Some ([Tuple ts], r))
    \<and> (\<exists>c u. t = c # u \<and> c \<noteq> CHR ''('') \<and> CHR 0x09 \<notin> set t"
proof -
  from assms obtain x w y where ts: "ts = [x, Op w, y]" and ok: "node_ok plain_value x" "w \<in> set marker_ops" "node_ok plain_value y"
    by (auto simp: item_ok_def)
  from node_parse [OF ok(1)] obtain t where t: "serialize x = Inr t" "\<And>r. MARKER_VAR (t @ r) = Some ([x], r)"
    "\<exists>c u. t = c # u \<and> c \<noteq> CHR ''(''" "CHR 0x09 \<notin> set t" by auto
  from node_parse [OF ok(3)] obtain u where u: "serialize y = Inr u" "\<And>r. MARKER_VAR (u @ r) = Some ([y], r)"
    "CHR 0x09 \<notin> set u" by auto
  have w: "serialize (Op w) = Inr w" by (simp add: serialize_def)
  have op: "MARKER_OP (CHR '' '' # w @ CHR '' '' # r) = Some ([Op w], CHR '' '' # r)" for r
    using op_parse [OF ok(2)] lenient_space [OF lenient_elements(2)] by simp
  have "CHR 0x09 \<notin> set w" using ok(2) by (auto simp: marker_ops_def)
  then show ?thesis
    using t u(3) by (auto simp: ts u(1,2) w op lenient_space [OF lenient_elements(5)] MARKER_ITEM_def with_action_def)
qed

lemma format_nested:
  "length ms > 1 \<Longrightarrow> format_marker b (Nested ms)
    = bindR (format_inner ms) (\<lambda>ws. Inr (if b then join_with '' '' ws else ''('' @ join_with '' '' ws @ '')''))"
proof -
  assume "length ms > 1"
  then obtain m n ns where "ms = m # n # ns" by (cases ms; cases "tl ms") auto
  then show ?thesis by simp
qed

lemma paren_parse:
  "LPAREN (CHR ''('' # s) = Some ([], s)" "RPAREN (CHR '')'' # s) = Some ([], s)" "BOOLOP (CHR '')'' # s) = None"
  "BOOLOP [] = None"
  by (simp_all add: LPAREN_def RPAREN_def BOOLOP_def suppress_def with_action_def L_eq)

lemma item_no_paren: "MARKER_ITEM (CHR ''('' # s) = None"
proof -
  have "VARIABLE (CHR ''('' # s) = None"
    by (simp add: VARIABLE_def with_action_def variable_names_def L_eq)
  moreover have "quoted_string (CHR 0x27) (CHR ''('' # s) = None" "quoted_string (CHR 0x22) (CHR ''('' # s) = None"
    by (simp_all add: quoted_string_def skipping_def with_action_def quoted_impl_def)
  ultimately show ?thesis by (simp add: MARKER_ITEM_def with_action_def MARKER_VAR_def MARKER_VALUE_def)
qed

lemma boolop_parse:
  "w = ''and'' \<or> w = ''or'' \<Longrightarrow> BOOLOP (CHR '' '' # w @ r) = Some ([Text w], r)"
  by (auto simp: BOOLOP_def L_eq)

definition reads_atom :: "mark \<Rightarrow> string \<Rightarrow> bool" where
  "reads_atom m t \<longleftrightarrow> t \<noteq> [] \<and> CHR 0x09 \<notin> set t
     \<and> (\<forall>n r. length t \<le> Suc n \<longrightarrow> MARKER_ATOM (MARKER_EXPR n) (t @ r) = Some ([m], r))"

definition reads_list :: "mark list \<Rightarrow> string \<Rightarrow> bool" where
  "reads_list ms t \<longleftrightarrow> t \<noteq> [] \<and> CHR 0x09 \<notin> set t
     \<and> (\<forall>n r. length t \<le> n \<longrightarrow> BOOLOP r = None \<longrightarrow> MARKER_EXPR n (t @ r) = Some (ms, r))"

lemma reads_single: "reads_atom m t \<Longrightarrow> reads_list [m] t"
  unfolding reads_list_def
proof (intro conjI allI impI)
  assume m: "reads_atom m t"
  then show "t \<noteq> []" "CHR 0x09 \<notin> set t" by (simp_all add: reads_atom_def)
  fix n and r :: string
  assume n: "length t \<le> n" and r: "BOOLOP r = None"
  from n \<open>t \<noteq> []\<close> obtain k where k: "n = Suc k" by (cases n) auto
  from m n have "MARKER_ATOM (MARKER_EXPR k) (t @ r) = Some ([m], r)" by (simp add: reads_atom_def k)
  with r show "MARKER_EXPR n (t @ r) = Some ([m], r)" by (simp add: k zero_or_more_stop)
qed

lemma reads_more:
  assumes "reads_atom m t" and "w = ''and'' \<or> w = ''or''" and "reads_list ms u"
  shows "reads_list (m # Text w # ms) (t @ '' '' @ w @ '' '' @ u)"
  unfolding reads_list_def
proof (intro conjI allI impI)
  show "t @ '' '' @ w @ '' '' @ u \<noteq> []" "CHR 0x09 \<notin> set (t @ '' '' @ w @ '' '' @ u)"
    using assms by (auto simp: reads_atom_def reads_list_def)
  fix n and r :: string
  assume n: "length (t @ '' '' @ w @ '' '' @ u) \<le> n" and r: "BOOLOP r = None"
  from n obtain k where k: "n = Suc k" by (cases n) auto
  let ?p = "and_parse [BOOLOP, MARKER_EXPR k]" and ?s = "CHR '' '' # w @ CHR '' '' # u @ r"
  have "MARKER_ATOM (MARKER_EXPR k) (t @ ?s) = Some ([m], ?s)" using assms(1) n by (simp add: reads_atom_def k)
  moreover have e: "MARKER_EXPR k (u @ r) = Some (ms, r)" using assms(3) n r by (simp add: reads_list_def k)
  have "MARKER_EXPR k (CHR '' '' # u @ r) = MARKER_EXPR k (u @ r)"
  proof (cases k)
    case (Suc l)
    have "lenient (MARKER_EXPR k)"
      using lenient_and [OF lenient_elements(9)] by (simp add: Suc lenient_def)
    then show ?thesis by (rule lenient_space)
  qed simp
  with e have "?p ?s = Some (Text w # ms, r)" by (simp add: boolop_parse [OF assms(2)])
  then have "zero_or_more ?p ?s = Some (Text w # ms, r)"
    using zero_or_more_step [of ?p ?s "Text w # ms" r "[]" r] r by (simp add: zero_or_more_stop)
  ultimately show "MARKER_EXPR n ((t @ '' '' @ w @ '' '' @ u) @ r) = Some (m # Text w # ms, r)"
    by (simp add: k)
qed

lemma reads_nested: "reads_list ms t \<Longrightarrow> reads_atom (Nested ms) (''('' @ t @ '')'')"
  by (auto simp: reads_list_def reads_atom_def MARKER_ATOM_def item_no_paren with_action_def paren_parse)

lemma printed_reads:
  "atom_ok V C m \<Longrightarrow> V = plain_value \<Longrightarrow> C = (\<lambda>ms. length ms > 1) \<Longrightarrow> \<exists>t. format_marker False m = Inr t \<and> reads_atom m t"
  "marks_ok V C ms \<Longrightarrow> V = plain_value \<Longrightarrow> C = (\<lambda>ms. length ms > 1)
    \<Longrightarrow> \<exists>ws. format_inner ms = Inr ws \<and> ws \<noteq> [] \<and> reads_list ms (join_with '' '' ws)"
proof (induction V C m and V C ms rule: atom_ok_marks_ok.induct)
  case (1 V C ts)
  then obtain t where t: "format_marker False (Tuple ts) = Inr t" "\<And>r. MARKER_ITEM (t @ r) = Some ([Tuple ts], r)"
    "t \<noteq> []" "CHR 0x09 \<notin> set t" using item_parse [of ts False] by auto
  then have "reads_atom (Tuple ts) t" by (simp add: reads_atom_def MARKER_ATOM_def)
  with t(1) show ?case by blast
next
  case (2 V C ms)
  then obtain ws where ws: "format_inner ms = Inr ws" "reads_list ms (join_with '' '' ws)" by auto
  from 2 have "format_marker False (Nested ms) = Inr (''('' @ join_with '' '' ws @ '')'')"
    by (simp add: format_nested ws(1) del: format_marker.simps)
  with reads_nested [OF ws(2)] show ?case by blast
next
  case (8 V C m)
  then obtain t where "format_marker False m = Inr t" "reads_atom m t" by auto
  with reads_single [of m t] show ?case by auto
next
  case (9 V C m w ms)
  then obtain t ws where t: "format_marker False m = Inr t" "reads_atom m t"
    and ws: "format_inner ms = Inr ws" "ws \<noteq> []" "reads_list ms (join_with '' '' ws)" by auto
  from "9.prems" obtain v where v: "w = Text v" "v = ''and'' \<or> v = ''or''" by auto
  have "reads_list (m # w # ms) (join_with '' '' (t # v # ws))"
    using reads_more [OF t(2) v(2) ws(3)] ws(2) by (cases ws) (simp_all add: v(1))
  with t(1) ws(1) show ?case by (simp add: v(1))
qed simp_all

lemma printable_reads:
  assumes "printable ms" and "\<And>ns. ms \<noteq> [Nested ns]"
  shows "\<exists>t. marker_str ms = Inr t \<and> reads_list ms t"
proof -
  from assms(1) have ok: "marks_ok plain_value (\<lambda>ms. length ms > 1) ms" by (simp add: printable_def)
  from printed_reads(2) [OF this refl refl] obtain ws where ws: "format_inner ms = Inr ws" "reads_list ms (join_with '' '' ws)"
    by blast
  have "marker_str ms = Inr (join_with '' '' ws)"
  proof (cases "length ms > 1")
    case True
    then show ?thesis by (simp add: marker_str_def format_nested ws(1) del: format_marker.simps)
  next
    case False
    from ok obtain m ns where "ms = m # ns" by (cases ms) auto
    with False have m: "ms = [m]" by simp
    with ok assms(2) obtain ts where ts: "m = Tuple ts" by (cases m) auto
    then obtain t where "format_marker b (Tuple ts) = Inr t" for b using item_parse [of ts] ok m by fastforce
    with ws(1) show ?thesis by (auto simp: m ts marker_str_def simp del: format_marker.simps(2))
  qed
  with ws(2) show ?thesis by blast
qed

lemma reads_marker:
  assumes "reads_list ms t"
  shows "new_marker t = Inr ms"
proof -
  have tab: "expandtabs 0 t = t" using assms by (simp add: reads_list_def)
  have e: "MARKER_EXPR (Suc (length t)) (pre_parse t) = Some (ms, [])"
  proof -
    have "MARKER_EXPR (Suc (length t)) (t @ []) = Some (ms, [])"
      using assms paren_parse(4) unfolding reads_list_def by (metis le_SucI order_refl)
    moreover have "lenient (MARKER_EXPR (Suc (length t)))"
      using lenient_and [OF lenient_elements(9)] by (simp add: lenient_def)
    ultimately show ?thesis by (simp add: lenient_def del: MARKER_EXPR.simps)
  qed
  have "lenient (MARKER_EXPR (Suc (length t)))"
    using lenient_and [OF lenient_elements(9)] by (simp add: lenient_def)
  with e have "MARKER_EXPR (Suc (length t)) t = Some (ms, [])" by (simp add: lenient_def del: MARKER_EXPR.simps)
  then show ?thesis
    using e by (simp add: new_marker_def tab parse_string_def MARKER_def skipping_def string_start_def string_end_def del: MARKER_EXPR.simps)
qed

section \<open>Boolean expressions\<close>

datatype bexp = BItem mark string mark | BAnd bexp bexp | BOr bexp bexp

fun is_or :: "bexp \<Rightarrow> bool" where
  "is_or (BOr _ _) = True"
| "is_or _ = False"

text \<open>The text with the fewest parentheses: \<open>and\<close> binds tighter than \<open>or\<close>.\<close>

fun node_text :: "mark \<Rightarrow> string" where
  "node_text (Value x) = CHR 0x22 # x @ [CHR 0x22]"
| "node_text (Variable v) = v"
| "node_text _ = []"

fun bexp_text :: "bexp \<Rightarrow> string" where
  "bexp_text (BItem a w b) = node_text a @ '' '' @ w @ '' '' @ node_text b"
| "bexp_text (BAnd x y) = (if is_or x then ''('' @ bexp_text x @ '')'' else bexp_text x) @ '' and ''
     @ (if is_or y then ''('' @ bexp_text y @ '')'' else bexp_text y)"
| "bexp_text (BOr x y) = bexp_text x @ '' or '' @ bexp_text y"

fun marks_of :: "bexp \<Rightarrow> mark list" where
  "marks_of (BItem a w b) = [Tuple [a, Op w, b]]"
| "marks_of (BAnd x y) = (if is_or x then [Nested (marks_of x)] else marks_of x) @ Text ''and''
     # (if is_or y then [Nested (marks_of y)] else marks_of y)"
| "marks_of (BOr x y) = marks_of x @ Text ''or'' # marks_of y"

fun bexp_ok :: "bexp \<Rightarrow> bool" where
  "bexp_ok (BItem a w b) \<longleftrightarrow> item_ok plain_value [a, Op w, b]"
| "bexp_ok (BAnd x y) \<longleftrightarrow> bexp_ok x \<and> bexp_ok y"
| "bexp_ok (BOr x y) \<longleftrightarrow> bexp_ok x \<and> bexp_ok y"

text \<open>The value of an item and of the whole; it has one only if every item has.\<close>

fun defined :: "(string, string option) dict \<Rightarrow> bexp \<Rightarrow> bool" where
  "defined env (BItem a w b) \<longleftrightarrow> is_ok (eval_item env a (Op w) b)"
| "defined env (BAnd x y) \<longleftrightarrow> defined env x \<and> defined env y"
| "defined env (BOr x y) \<longleftrightarrow> defined env x \<and> defined env y"

fun truth :: "(string, string option) dict \<Rightarrow> bexp \<Rightarrow> bool" where
  "truth env (BItem a w b) \<longleftrightarrow> eval_item env a (Op w) b = Inr True"
| "truth env (BAnd x y) \<longleftrightarrow> truth env x \<and> truth env y"
| "truth env (BOr x y) \<longleftrightarrow> truth env x \<or> truth env y"

lemma marks_of_not_Nil [simp]: "marks_of x \<noteq> []"
  by (induction x) auto

lemma marks_of_or: "is_or x \<Longrightarrow> length (marks_of x) > 1"
  by (cases x) (auto simp: Suc_lessI)

lemma marks_of_ok: "bexp_ok x \<Longrightarrow> marks_ok plain_value (\<lambda>ms. length ms > 1) (marks_of x)"
  by (induction x) (use marks_of_or in \<open>auto intro!: marks_ok_append\<close>)

lemma serialize_node: "node_ok V a \<Longrightarrow> serialize a = Inr (node_text a)"
  by (cases a) (simp_all add: serialize_def)

lemma format_inner_append:
  "format_inner ms = Inr ws \<Longrightarrow> format_inner ns = Inr vs \<Longrightarrow> format_inner (ms @ ns) = Inr (ws @ vs)"
  by (induction ms arbitrary: ws) (auto simp: res_simps simp del: format_marker.simps)

lemma join_words: "ws \<noteq> [] \<Longrightarrow> vs \<noteq> [] \<Longrightarrow> join_with '' '' (ws @ w # vs) = join_with '' '' ws @ '' '' @ w @ '' '' @ join_with '' '' vs"
  by (simp add: join_append join_with_Cons)

lemma bexp_format:
  "bexp_ok x \<Longrightarrow> \<exists>ws. format_inner (marks_of x) = Inr ws \<and> ws \<noteq> [] \<and> join_with '' '' ws = bexp_text x"
proof (induction x)
  case (BItem a w b)
  then have "serialize a = Inr (node_text a)" "serialize b = Inr (node_text b)"
    by (auto simp: item_ok_def intro: serialize_node)
  then show ?case by (simp add: serialize_def [of "Op w"])
next
  case (BAnd x y)
  have part: "\<exists>vs. format_inner (if is_or z then [Nested (marks_of z)] else marks_of z) = Inr vs \<and> vs \<noteq> []
      \<and> join_with '' '' vs = (if is_or z then ''('' @ bexp_text z @ '')'' else bexp_text z)"
    if "\<exists>ws. format_inner (marks_of z) = Inr ws \<and> ws \<noteq> [] \<and> join_with '' '' ws = bexp_text z" for z
    using that marks_of_or [of z] by (auto simp: format_nested simp del: format_marker.simps)
  from BAnd part [of x] part [of y] obtain vs ws where
    v: "format_inner (if is_or x then [Nested (marks_of x)] else marks_of x) = Inr vs" "vs \<noteq> []"
      "join_with '' '' vs = (if is_or x then ''('' @ bexp_text x @ '')'' else bexp_text x)"
    and w: "format_inner (if is_or y then [Nested (marks_of y)] else marks_of y) = Inr ws" "ws \<noteq> []"
      "join_with '' '' ws = (if is_or y then ''('' @ bexp_text y @ '')'' else bexp_text y)" by auto
  have "format_inner (Text ''and'' # (if is_or y then [Nested (marks_of y)] else marks_of y)) = Inr (''and'' # ws)"
    using w(1) by simp
  from format_inner_append [OF v(1) this] v(2,3) w(2,3) show ?case
    by (simp add: join_words del: format_marker.simps)
next
  case (BOr x y)
  then obtain vs ws where v: "format_inner (marks_of x) = Inr vs" "vs \<noteq> []" "join_with '' '' vs = bexp_text x"
    and w: "format_inner (marks_of y) = Inr ws" "ws \<noteq> []" "join_with '' '' ws = bexp_text y" by auto
  have "format_inner (Text ''or'' # marks_of y) = Inr (''or'' # ws)" using w(1) by simp
  from format_inner_append [OF v(1) this] v(2,3) w(2,3) show ?case by (simp add: join_words)
qed

lemma bexp_reads: "bexp_ok x \<Longrightarrow> new_marker (bexp_text x) = Inr (marks_of x)"
  using printed_reads(2) [OF marks_of_ok refl refl] bexp_format reads_marker by fastforce

section \<open>Evaluating\<close>

lemma eval_list_append: "eval_list env (ms @ ns) gs = bindR (eval_list env ms gs) (eval_list env ns)"
  by (induction ms arbitrary: gs) (auto simp: bindR_def simp del: eval_step.simps split: sum.split)

lemma any_group_simps [simp]:
  "any_group [] = False" "any_group (g # gs) = (list_all (\<lambda>b. b) g \<or> any_group gs)"
  by (simp_all add: any_group_def)

lemma add_result_last [simp]: "add_result b (gs @ [g]) = gs @ [g @ [b]]" "add_result b [g] = [g @ [b]]"
  by (simp_all add: add_result_def)

text \<open>
  What evaluating the marks of an expression does to the groups: the last group grows, and others follow only after
  an \<open>or\<close>.
\<close>

definition adds :: "(string, string option) dict \<Rightarrow> mark list \<Rightarrow> bool \<Rightarrow> bool \<Rightarrow> bool" where
  "adds env ms single b \<longleftrightarrow> (\<forall>gs g. \<exists>h hs. eval_list env ms (gs @ [g]) = Inr (gs @ (g @ h) # hs)
     \<and> (b \<longleftrightarrow> list_all (\<lambda>b. b) h \<or> any_group hs) \<and> (single \<longrightarrow> hs = []))"

lemma adds_nested: "adds env ms s b \<Longrightarrow> adds env [Nested ms] True b"
  unfolding adds_def
proof (intro allI)
  fix gs g
  assume "\<forall>gs g. \<exists>h hs. eval_list env ms (gs @ [g]) = Inr (gs @ (g @ h) # hs)
     \<and> (b \<longleftrightarrow> list_all (\<lambda>b. b) h \<or> any_group hs) \<and> (s \<longrightarrow> hs = [])"
  then obtain h hs where "eval_list env ms ([] @ [[]]) = Inr ([] @ ([] @ h) # hs)" "b \<longleftrightarrow> list_all (\<lambda>b. b) h \<or> any_group hs" by blast
  then show "\<exists>h hs. eval_list env [Nested ms] (gs @ [g]) = Inr (gs @ (g @ h) # hs)
     \<and> (b \<longleftrightarrow> list_all (\<lambda>b. b) h \<or> any_group hs) \<and> (True \<longrightarrow> hs = [])"
    by (auto intro!: exI [of _ "[b]"])
qed

lemma adds_and:
  assumes "adds env ms True b" and "adds env ns True c"
  shows "adds env (ms @ Text ''and'' # ns) True (b \<and> c)"
  unfolding adds_def
proof (intro allI)
  fix gs g
  from assms(1) obtain h where h: "eval_list env ms (gs @ [g]) = Inr (gs @ [g @ h])" "b \<longleftrightarrow> list_all (\<lambda>b. b) h"
    unfolding adds_def by fastforce
  from assms(2) obtain k where "eval_list env ns (gs @ [g @ h]) = Inr (gs @ [(g @ h) @ k])" "c \<longleftrightarrow> list_all (\<lambda>b. b) k"
    unfolding adds_def by fastforce
  with h show "\<exists>h hs. eval_list env (ms @ Text ''and'' # ns) (gs @ [g]) = Inr (gs @ (g @ h) # hs)
      \<and> (b \<and> c \<longleftrightarrow> list_all (\<lambda>b. b) h \<or> any_group hs) \<and> (True \<longrightarrow> hs = [])"
    by (auto simp: eval_list_append intro!: exI [of _ "h @ k"])
qed

lemma adds_or:
  assumes "adds env ms s b" and "adds env ns t c"
  shows "adds env (ms @ Text ''or'' # ns) False (b \<or> c)"
  unfolding adds_def
proof (intro allI)
  fix gs g
  from assms(1) obtain h hs where h: "eval_list env ms (gs @ [g]) = Inr (gs @ (g @ h) # hs)"
    "b \<longleftrightarrow> list_all (\<lambda>b. b) h \<or> any_group hs" unfolding adds_def by blast
  from assms(2) obtain k ks where "eval_list env ns ((gs @ (g @ h) # hs) @ [[]]) = Inr ((gs @ (g @ h) # hs) @ ([] @ k) # ks)"
    "c \<longleftrightarrow> list_all (\<lambda>b. b) k \<or> any_group ks" unfolding adds_def by blast
  with h show "\<exists>h hs. eval_list env (ms @ Text ''or'' # ns) (gs @ [g]) = Inr (gs @ (g @ h) # hs)
      \<and> (b \<or> c \<longleftrightarrow> list_all (\<lambda>b. b) h \<or> any_group hs) \<and> (False \<longrightarrow> hs = [])"
    by (auto simp: eval_list_append any_group_def intro!: exI [of _ h] exI [of _ "hs @ k # ks"])
qed

lemma adds_weaken: "adds env ms True b \<Longrightarrow> adds env ms s b"
  unfolding adds_def by blast

lemma eval_defined: "defined env x \<Longrightarrow> adds env (marks_of x) (\<not> is_or x) (truth env x)"
proof (induction x)
  case (BItem a w b)
  then obtain v where "eval_item env a (Op w) b = Inr v" by (auto simp: is_ok_iff)
  then show ?case by (auto simp: adds_def intro!: exI [of _ "[v]"])
next
  case (BAnd x y)
  have part: "adds env (if is_or z then [Nested (marks_of z)] else marks_of z) True (truth env z)"
    if "adds env (marks_of z) (\<not> is_or z) (truth env z)" for z
    using that adds_nested by (auto split: if_splits)
  from BAnd part [of x] part [of y] show ?case by (simp add: adds_and)
next
  case (BOr x y)
  then show ?case by (simp add: adds_or)
qed

lemma eval_truth: "defined env x \<Longrightarrow> evaluate_markers (marks_of x) env = Inr (truth env x)"
proof -
  assume "defined env x"
  from eval_defined [OF this] obtain h hs where "eval_list env (marks_of x) ([] @ [[]]) = Inr ([] @ ([] @ h) # hs)"
    "truth env x \<longleftrightarrow> list_all (\<lambda>b. b) h \<or> any_group hs" unfolding adds_def by blast
  then show ?thesis by (simp add: evaluate_markers_def)
qed

section \<open>Errors\<close>

text \<open>A result, or a \<open>ValueError\<close>.\<close>

definition tame :: "'a res \<Rightarrow> bool" where
  "tame r \<longleftrightarrow> is_ok r \<or> r = Inl ValueError"

lemma tame_simps [simp]: "tame (Inr x)" "tame (Inl e) \<longleftrightarrow> e = ValueError"
  by (simp_all add: tame_def)

lemma tame_bind: "tame r \<Longrightarrow> (\<And>x. r = Inr x \<Longrightarrow> tame (f x)) \<Longrightarrow> tame (bindR r f)"
  by (cases r) simp_all

text \<open>An environment of texts; only \<open>None\<close> can raise a \<open>TypeError\<close>.\<close>

definition texts :: "(string, string option) dict \<Rightarrow> bool" where
  "texts env \<longleftrightarrow> list_all (\<lambda>(k, v). v \<noteq> None) env"

lemma eval_op_tame: "tame (eval_op (Some l) w (Some r))"
proof (cases "new_specifier (w @ r) None")
  case (Inl e)
  then show ?thesis by (simp add: eval_op_def split: option.split)
next
  case (Inr sp)
  then have "new_any_specifier (w @ r) = Inr sp" by (simp add: new_any_specifier_def)
  from spec_contains_total [OF this, of "ItemText l" None] Inr show ?thesis
    by (auto simp: eval_op_def parse_item_def version_ok_parse)
qed

lemma get_env_texts: "texts env \<Longrightarrow> get_env env n = Inl ValueError \<or> (\<exists>v. get_env env n = Inr (Some v))"
  by (auto simp: get_env_def texts_def list_all_iff split: option.splits dest!: map_of_SomeD)

lemma node_str_ok: "node_ok V a \<Longrightarrow> \<exists>v. node_str a = Inr v"
  by (cases a) simp_all

lemma eval_item_tame:
  assumes "texts env" and "node_ok V a" and "node_ok V b"
  shows "tame (eval_item env a (Op w) b)"
proof -
  from assms obtain l r where "node_str a = Inr l" "node_str b = Inr r" using node_str_ok by blast
  then show ?thesis using get_env_texts [OF assms(1), of l] get_env_texts [OF assms(1), of r]
    by (auto simp: eval_item_def eval_op_tame)
qed

lemma eval_tame:
  assumes "texts env"
  shows "atom_ok V C m \<Longrightarrow> tame (eval_step env m gs)"
    and "marks_ok V C ms \<Longrightarrow> tame (eval_list env ms gs)"
proof (induction V C m and V C ms arbitrary: gs and gs rule: atom_ok_marks_ok.induct)
  case (1 V C ts)
  then obtain a w b where "ts = [a, Op w, b]" "node_ok V a" "node_ok V b" by (auto simp: item_ok_def)
  with eval_item_tame [OF assms, of V a b w] show ?case by (auto intro: tame_bind)
next
  case (9 V C m w ms)
  then have "w = Text ''and'' \<or> w = Text ''or''" by auto
  then have w: "tame (eval_step env w r)" for r by auto
  from 9 have "tame (eval_step env m gs)" "tame (eval_list env ms r)" for r by auto
  with w show ?case by (auto intro!: tame_bind simp del: eval_step.simps)
qed (auto intro: tame_bind)

lemma evaluate_tame: "texts env \<Longrightarrow> any_marks ms \<Longrightarrow> tame (evaluate_markers ms env)"
  unfolding any_marks_def evaluate_markers_def by (auto intro!: tame_bind eval_tame(2))

lemma eval_undefined:
  assumes "texts env"
  shows "bexp_ok x \<Longrightarrow> \<not> defined env x \<Longrightarrow> eval_list env (marks_of x) gs = Inl ValueError"
proof (induction x arbitrary: gs)
  case (BItem a w b)
  then show ?case using eval_item_tame [OF assms, of plain_value a b w] by (auto simp: tame_def item_ok_def)
next
  case (BAnd x y)
  let ?part = "\<lambda>z. if is_or z then [Nested (marks_of z)] else marks_of z"
  have bad: "eval_list env (?part z) gs = Inl ValueError"
    if "\<And>gs. eval_list env (marks_of z) gs = Inl ValueError" for z gs
    using that by simp
  have "marks_ok plain_value (\<lambda>_. True) (?part x)"
    using weaken_lists(2) [OF marks_of_ok [of x]] BAnd.prems(1) by simp
  then have "tame (eval_list env (?part x) gs)" by (rule eval_tame(2) [OF assms])
  with BAnd show ?case using bad [of x] bad [of y]
    by (auto simp: eval_list_append tame_def is_ok_iff simp del: eval_step.simps(1))
next
  case (BOr x y)
  then show ?case using eval_tame(2) [OF assms marks_of_ok, of x gs] by (auto simp: eval_list_append tame_def is_ok_iff)
qed

section \<open>Properties\<close>

text \<open>
  The grammar of markers always comes to an end: the elements it repeats take at least one character each, and the
  bound on its recursion changes nothing as soon as it exceeds the length of the text.
\<close>
theorem marker_grammar_ends:
  "progress (and_parse [BOOLOP, MARKER_EXPR n]) \<and> MARKER_EXPR (Suc (length s) + k) s = MARKER_EXPR (Suc (length s)) s"
proof
  show "progress (and_parse [BOOLOP, MARKER_EXPR n])"
    by (intro progress_and progress_elements(4)) (auto intro: progress_shrinks [OF progress_expr])
  show "MARKER_EXPR (Suc (length s) + k) s = MARKER_EXPR (Suc (length s)) s" by (rule marker_expr_same) simp_all
qed

text \<open>
  Any marker that the grammar accepts can be evaluated in any environment of texts: evaluation gives a truth
  value or raises \<open>UndefinedEnvironmentName\<close> or \<open>UndefinedComparison\<close>, both \<open>ValueError\<close>s, and nothing else.
\<close>
theorem markers_evaluate:
  assumes "new_marker s = Inr ms" and "texts env"
  shows "any_marks ms \<and> (evaluate_markers ms env = Inl ValueError \<or> (\<exists>b. evaluate_markers ms env = Inr b))"
  using new_marker_result [OF assms(1)] evaluate_tame [OF assms(2), of ms] by (auto simp: tame_def is_ok_iff)

text \<open>
  Printing and reading a marker gives the marker back, for markers whose values can stand between double quotes
  and whose parentheses hold more than one atom.
\<close>
theorem marker_roundtrip:
  assumes "printable ms" and "\<forall>ns. ms \<noteq> [Nested ns]"
  shows "\<exists>t. marker_str ms = Inr t \<and> new_marker t = Inr ms"
  using printable_reads [OF assms(1)] assms(2) reads_marker by blast

text \<open>
  C24: A marker means what its text says: the text of a boolean expression over items, with parentheses only where an
  \<open>or\<close> stands below an \<open>and\<close>, is read as a marker whose value is that of the expression. Every item is evaluated; if
  one of them has no value the marker raises. The environment holds texts.
\<close>
theorem marker_meaning:
  assumes "bexp_ok x" and "texts env"
  shows "\<exists>ms. new_marker (bexp_text x) = Inr ms
    \<and> evaluate_markers ms env = (if defined env x then Inr (truth env x) else Inl ValueError)"
  using bexp_reads [OF assms(1)] eval_truth [of env x] eval_undefined [OF assms(2,1), of "[[]]"]
  by (auto simp: evaluate_markers_def)


text \<open>
  Versions in markers compare as numbers, not as texts: for releases on both sides, an item compares the lists of
  their numbers without trailing zeros, whatever the texts would give (\<open>python_version >= "3.9"\<close> holds for \<open>3.10\<close>).
\<close>
theorem markers_compare_releases:
  assumes "dget env v = Some (Some (dots ms))" and "ms \<noteq> []" "list_all (\<lambda>n. 0 \<le> n) ms" and "ns \<noteq> []" "list_all (\<lambda>n. 0 \<le> n) ns"
    and "op \<in> {''<='', ''>='', ''<'', ''>'', ''=='', ''!=''}"
  shows "eval_item env (Variable v) (Op op) (Value (dots ns))
    = Inr (compares op (rstrip_while (\<lambda>n. n = 0) ms) (rstrip_while (\<lambda>n. n = 0) ns))"
  using release_contained [OF assms(2-6)] assms(1) by (auto simp: eval_item_def get_env_def eval_op_def)

lemma markers_compare_releases_witness:
  "eval_item [(''python_version'', Some ''3.10'')] (Variable ''python_version'') (Op ''>='') (Value ''3.9'') = Inr True"
proof -
  have "dots [3, 10] = ''3.10''" "dots [3, 9] = ''3.9''"
    by (simp_all add: dots_def str_of_int_def str_of_nat.simps digit_char_def)
  then show ?thesis
    using markers_compare_releases [of "[(''python_version'', Some ''3.10'')]" "''python_version''" "[3, 10]" "[3, 9]" "''>=''"]
    by (simp add: compares_def rstrip_while_def)
qed

definition doubled :: "mark list" where
  "doubled = [Nested [Nested [Tuple [Variable ''os_name'', Op ''=='', Value ''a''], Text ''or'',
     Tuple [Variable ''os_name'', Op ''=='', Value ''b'']]], Text ''and'', Tuple [Variable ''os_name'', Op ''=='', Value ''b'']]"

lemma specifier_of_letters: "new_specifier ''==a'' None = Inl ValueError" "new_specifier ''==b'' None = Inl ValueError"
  by code_simp+

lemma doubled_read: "new_marker ''((os_name == \"a\" or os_name == \"b\")) and os_name == \"b\"'' = Inr doubled"
  by code_simp

lemma markers_evaluate_witness:
  "evaluate_markers doubled [(''extra'', Some ''a'')] = Inl ValueError \<or> (\<exists>b. evaluate_markers doubled [(''extra'', Some ''a'')] = Inr b)"
  using markers_evaluate [OF doubled_read, of "[(''extra'', Some ''a'')]"] by (simp add: texts_def)

definition sample :: bexp where
  "sample = BAnd (BOr (BItem (Variable ''os_name'') ''=='' (Value ''a'')) (BItem (Value ''b'') ''in'' (Variable ''sys_platform'')))
     (BItem (Variable ''extra'') ''!='' (Value ''x''))"

lemma sample_ok: "bexp_ok sample"
  by (simp add: sample_def item_ok_def marker_ops_def plain_value_def variable_names_def unalias_def ALIASES_def)

lemma marker_roundtrip_witness: "\<exists>t. marker_str (marks_of sample) = Inr t \<and> new_marker t = Inr (marks_of sample)"
proof (rule marker_roundtrip)
  show "printable (marks_of sample)" using marks_of_ok [OF sample_ok] by (simp add: printable_def)
  show "\<forall>ns. marks_of sample \<noteq> [Nested ns]" by (simp add: sample_def)
qed

lemma marker_meaning_witness:
  "\<exists>ms. new_marker ''(os_name == \"a\" or \"b\" in sys_platform) and extra != \"x\"'' = Inr ms \<and> evaluate_markers ms [] = Inl ValueError"
proof -
  have "bexp_text sample = ''(os_name == \"a\" or \"b\" in sys_platform) and extra != \"x\"''" "\<not> defined [] sample"
    by (simp_all add: sample_def eval_item_def get_env_def)
  then show ?thesis using marker_meaning [OF sample_ok, of "[]"] by (simp add: texts_def)
qed

section \<open>Where markers are not what they should be\<close>

text \<open>Doubled parentheses get lost when a marker is printed, and with them the meaning.\<close>

lemma doubled_parentheses:
  "marker_str doubled = Inr ''os_name == \"a\" or os_name == \"b\" and os_name == \"b\"''"
  "evaluate_markers doubled [(''os_name'', Some ''a'')] = Inr False"
  by (simp_all add: doubled_def marker_str_def evaluate_markers_def serialize_def eval_item_def get_env_def eval_op_def
      specifier_of_letters text_operator_def add_result_def)

lemma doubled_reread:
  "new_marker ''os_name == \"a\" or os_name == \"b\" and os_name == \"b\"'' = Inr (marks_of (BOr
     (BItem (Variable ''os_name'') ''=='' (Value ''a'')) (BAnd (BItem (Variable ''os_name'') ''=='' (Value ''b''))
       (BItem (Variable ''os_name'') ''=='' (Value ''b'')))))"
  by code_simp

lemma doubled_changes:
  "bindR (new_marker ''os_name == \"a\" or os_name == \"b\" and os_name == \"b\"'') (\<lambda>m. evaluate_markers m [(''os_name'', Some ''a'')]) = Inr True"
  by (simp add: doubled_reread evaluate_markers_def eval_item_def get_env_def eval_op_def
      specifier_of_letters text_operator_def add_result_def)

text \<open>A value in single quotes may hold double quotes, which are printed as they are.\<close>

lemma quotes_lost:
  "new_marker (''os_name == '' @ [CHR 0x27] @ ''a'' @ [CHR 0x22] @ ''b'' @ [CHR 0x27])
     = Inr [Tuple [Variable ''os_name'', Op ''=='', Value (''a'' @ [CHR 0x22] @ ''b'')]]"
  "bindR (marker_str [Tuple [Variable ''os_name'', Op ''=='', Value (''a'' @ [CHR 0x22] @ ''b'')]]) new_marker = Inl ValueError"
  by code_simp+

text \<open>
  Two values may be compared by the grammar, but the right one is then taken for the name of a variable; and of two
  variables only the left one is looked up.
\<close>

lemma right_value_is_name:
  "evaluate_markers [Tuple [Value x, Op w, Value y]] env
     = (case dget env y of None \<Rightarrow> Inl ValueError | Some v \<Rightarrow> eval_op (Some x) w v)"
  "evaluate_markers [Tuple [Variable x, Op w, Variable y]] env
     = (case dget env x of None \<Rightarrow> Inl ValueError | Some v \<Rightarrow> eval_op v w (Some y))"
  by (auto simp: evaluate_markers_def eval_item_def get_env_def add_result_def bindR_def split: option.splits sum.splits)

end
