(* ===== verification/PkgEnvironmentLaws.thy ===== *)
theory PkgEnvironmentLaws
  imports PkgWorkingSet PkgMarkersLaws
begin

text \<open>
  Laws of distributions and environments: distributions with versions are ordered by a rank, the lists of an
  environment are sorted by it and hold only what may be added, the best match is the newest candidate, and inserting
  a distribution on a path puts its location where it belongs.
\<close>

section \<open>The order of distributions\<close>

definition dist_rank :: "dist \<Rightarrow> rank \<times> int \<times> string \<times> string \<times> string \<times> string" where
  "dist_rank d = (case dist_version d of Inr v \<Rightarrow> rank (pkg_parse v) | Inl _ \<Rightarrow> rank (LegacyVersion []),
     d_precedence d, d_key d, d_location d, or_empty (d_py_version d), or_empty (d_platform d))"

lemma hashcmp_version: "dist_version d = Inr v \<Longrightarrow> hashcmp d = Inr (pkg_parse v, snd (dist_rank d))"
  by (simp add: hashcmp_def parsed_version_def dist_rank_def)

lemma av_eq_rank: "av_eq (pkg_parse s) (pkg_parse t) \<longleftrightarrow> rank (pkg_parse s) = rank (pkg_parse t)"
  unfolding av_eq_def by (rule key_eq) (rule epoch_ok_parse)+

lemma dist_less_rank:
  assumes "has_version d" and "has_version e"
  shows "dist_less d e = Inr (dist_rank d < dist_rank e)"
proof -
  from assms obtain v w where v: "dist_version d = Inr v" "dist_version e = Inr w" by (auto simp: has_version_def is_ok_iff)
  then have r: "fst (dist_rank d) = rank (pkg_parse v)" "fst (dist_rank e) = rank (pkg_parse w)" by (simp_all add: dist_rank_def)
  have "av_cmp Lt (pkg_parse v) (pkg_parse w) = Inr (rank (pkg_parse v) < rank (pkg_parse w))"
    using key_cmp [OF epoch_ok_parse epoch_ok_parse] by simp
  then have "hash_less (pkg_parse v, snd (dist_rank d)) (pkg_parse w, snd (dist_rank e))
      = Inr ((fst (dist_rank d), snd (dist_rank d)) < (fst (dist_rank e), snd (dist_rank e)))"
    by (auto simp: hash_less_def av_eq_rank r)
  then show ?thesis by (simp add: dist_less_def hashcmp_version [OF v(1)] hashcmp_version [OF v(2)])
qed

lemma older_rank: "has_version d \<Longrightarrow> has_version e \<Longrightarrow> older d e \<longleftrightarrow> dist_rank d < dist_rank e"
  by (simp add: older_def dist_less_rank)

lemma dist_eq_rank:
  assumes "has_version d" and "has_version e"
  shows "dist_eq d e = Inr (d_kind d = d_kind e \<and> dist_rank d = dist_rank e)"
proof -
  from assms obtain v w where v: "dist_version d = Inr v" "dist_version e = Inr w" by (auto simp: has_version_def is_ok_iff)
  then show ?thesis
    by (simp add: dist_eq_def hashcmp_version hash_eq_def av_eq_rank prod_eq_iff [of "dist_rank d"]) (simp add: dist_rank_def)
qed

section \<open>Sorted lists\<close>

definition versioned :: "dist list \<Rightarrow> bool" where
  "versioned ds \<longleftrightarrow> list_all has_version ds"

definition newest_sorted :: "dist list \<Rightarrow> bool" where
  "newest_sorted ds \<longleftrightarrow> sorted_wrt (\<lambda>d e. dist_rank e \<le> dist_rank d) ds"

lemma set_place [simp]: "set (place d es) = insert d (set es)"
  by (induction es) auto

lemma set_newest_first [simp]: "set (newest_first ds) = set ds"
  by (induction ds) (auto simp: newest_first_def)

lemma place_sorted:
  "has_version d \<Longrightarrow> versioned es \<Longrightarrow> newest_sorted es \<Longrightarrow> newest_sorted (place d es)"
proof (induction es)
  case (Cons e es)
  then have "newest_sorted (place d es)" by (simp add: versioned_def newest_sorted_def)
  with Cons.prems show ?case by (auto simp: newest_sorted_def versioned_def older_rank not_less)
qed (simp add: newest_sorted_def)

lemma newest_first_sorted: "versioned ds \<Longrightarrow> newest_sorted (newest_first ds)"
proof (induction ds)
  case (Cons d ds)
  then have "versioned (newest_first ds)" by (simp add: versioned_def list_all_iff)
  with Cons show ?case by (simp add: newest_first_def versioned_def place_sorted)
qed (simp add: newest_first_def newest_sorted_def)

lemma length_place [simp]: "length (place d es) = Suc (length es)"
  by (induction es) auto

lemma length_newest_first [simp]: "length (newest_first ds) = length ds"
  by (induction ds) (simp_all add: newest_first_def)

text \<open>No two equal distributions: of one class and one rank.\<close>

definition no_equals :: "dist list \<Rightarrow> bool" where
  "no_equals ds \<longleftrightarrow> distinct (map (\<lambda>d. (d_kind d, dist_rank d)) ds)"

lemma no_equals_card: "no_equals ds \<longleftrightarrow> card ((\<lambda>d. (d_kind d, dist_rank d)) ` set ds) = length ds"
proof -
  have "distinct xs \<longleftrightarrow> card (set xs) = length xs" for xs :: "(dist_kind \<times> rank \<times> int \<times> string \<times> string \<times> string \<times> string) list"
    using distinct_card card_distinct by blast
  then show ?thesis by (simp add: no_equals_def)
qed

lemma dist_member_rank:
  assumes "versioned ds" and "has_version d"
  shows "dist_member d ds \<longleftrightarrow> (d_kind d, dist_rank d) \<in> (\<lambda>d. (d_kind d, dist_rank d)) ` set ds"
proof -
  have "dist_member d ds \<longleftrightarrow> (\<exists>e\<in>set ds. d_kind e = d_kind d \<and> dist_rank e = dist_rank d)"
    using assms by (auto simp: dist_member_def versioned_def list_ex_iff list_all_iff dist_eq_rank)
  also have "\<dots> \<longleftrightarrow> (d_kind d, dist_rank d) \<in> (\<lambda>d. (d_kind d, dist_rank d)) ` set ds"
    unfolding image_iff Bex_def by (simp only: prod.inject) metis
  finally show ?thesis .
qed

lemma no_equals_insert:
  assumes "versioned ds" and "has_version d" and "no_equals ds" and "\<not> dist_member d ds"
  shows "no_equals (newest_first (ds @ [d]))"
  using assms by (simp add: no_equals_card dist_member_rank)

section \<open>Environments\<close>

text \<open>
  What holds of every list of an environment: it holds distributions of its key, with versions, that may be added; no
  two are equal; and they stand from the newest to the oldest.
\<close>

definition env_list_ok :: "environment \<Rightarrow> string \<Rightarrow> dist list \<Rightarrow> bool" where
  "env_list_ok env k ds \<longleftrightarrow> list_all (\<lambda>d. d_key d = k \<and> can_add env d) ds \<and> versioned ds \<and> no_equals ds \<and> newest_sorted ds"

definition env_ok :: "environment \<Rightarrow> bool" where
  "env_ok env \<longleftrightarrow> dict_ok (en_distmap env) \<and> (\<forall>k. env_list_ok env k (env_list env k))"

lemma env_list_ok_Nil [simp]: "env_list_ok env k []"
  by (simp add: env_list_ok_def versioned_def no_equals_def newest_sorted_def)

lemma can_add_update [simp]: "can_add (env \<lparr>en_distmap := m\<rparr>) = can_add env"
  by (simp add: can_add_def fun_eq_iff)

lemma env_list_ok_update [simp]: "env_list_ok (env \<lparr>en_distmap := m\<rparr>) = env_list_ok env"
  by (simp add: env_list_ok_def fun_eq_iff)

lemma env_list_update [simp]:
  "env_list (env \<lparr>en_distmap := dset k ds m\<rparr>) j = (if j = k then ds else env_list (env \<lparr>en_distmap := m\<rparr>) j)"
  by (simp add: env_list_def)

lemma env_ok_update:
  assumes "env_ok env" and "env_list_ok env k ds"
  shows "env_ok (env \<lparr>en_distmap := dset k ds (en_distmap env)\<rparr>)"
  using assms by (simp add: env_ok_def)

lemma env_add_ok:
  assumes "env_ok env"
  shows "env_ok (env_add d env)"
proof (cases "can_add env d \<and> has_version d")
  case True
  let ?ds = "env_list env (d_key d)"
  from assms have ds: "env_list_ok env (d_key d) ?ds" by (simp add: env_ok_def)
  have "env_list_ok env (d_key d) (newest_first (?ds @ [d]))" if "\<not> dist_member d ?ds"
    using ds True that no_equals_insert [of ?ds d] newest_first_sorted [of "?ds @ [d]"]
    by (simp add: env_list_ok_def versioned_def list_all_iff)
  with True ds show ?thesis by (simp add: env_add_def env_ok_update [OF assms])
qed (auto simp: env_add_def assms)

lemma remove_dist_ok: "env_list_ok env k ds \<Longrightarrow> remove_dist d ds = Inr ds' \<Longrightarrow> env_list_ok env k ds' \<and> set ds' \<subseteq> set ds"
proof (induction ds arbitrary: ds')
  case (Cons e es)
  from Cons.prems(1) have es: "env_list_ok env k es"
    by (simp add: env_list_ok_def versioned_def no_equals_def newest_sorted_def)
  from Cons.prems(2) obtain b where b: "dist_eq e d = Inr b" by (auto simp: res_simps)
  show ?case
  proof (cases b)
    case True
    with Cons.prems b es show ?thesis by auto
  next
    case False
    with Cons.prems b obtain r where r: "remove_dist d es = Inr r" "ds' = e # r" by (auto simp: res_simps)
    with Cons.IH [OF es] have "env_list_ok env k r" "set r \<subseteq> set es" by auto
    moreover have "(\<lambda>d. (d_kind d, dist_rank d)) ` set r \<subseteq> (\<lambda>d. (d_kind d, dist_rank d)) ` set es"
      using calculation(2) by auto
    ultimately show ?thesis using Cons.prems(1) r(2)
      by (auto simp: env_list_ok_def versioned_def no_equals_def newest_sorted_def)
  qed
qed simp

lemma env_remove_ok: "env_ok env \<Longrightarrow> env_remove d env = Inr env' \<Longrightarrow> env_ok env'"
proof -
  assume ok: "env_ok env" and "env_remove d env = Inr env'"
  then obtain ds ds' where ds: "dget (en_distmap env) (d_key d) = Some ds" "remove_dist d ds = Inr ds'"
    "env' = env \<lparr>en_distmap := dset (d_key d) ds' (en_distmap env)\<rparr>" by (auto simp: env_remove_def res_simps)
  with ok have "env_list_ok env (d_key d) ds" by (auto simp: env_ok_def env_list_def dest: spec [of _ "d_key d"])
  with ds ok remove_dist_ok show ?thesis by (simp add: env_ok_update)
qed

text \<open>All operations on an environment.\<close>

inductive env_step :: "environment \<Rightarrow> environment \<Rightarrow> bool" where
  step_add: "env_step env (env_add d env)"
| step_remove: "env_remove d env = Inr env' \<Longrightarrow> env_step env env'"
| step_scan: "env_step env (env_scan w path env)"
| step_iadd: "env_step env (env_iadd env other)"

lemma fold_env_add_ok: "env_ok env \<Longrightarrow> env_ok (fold env_add ds env)"
  by (induction ds arbitrary: env) (simp_all add: env_add_ok)

lemma fold_folds_ok: "env_ok env \<Longrightarrow> env_ok (fold (\<lambda>k. fold env_add (f k)) ks env)"
  by (induction ks arbitrary: env) (simp_all add: fold_env_add_ok)

definition empty_env :: "environment \<Rightarrow> bool" where
  "empty_env env \<longleftrightarrow> en_distmap env = []"

interpretation env: invariant empty_env env_step env_ok
proof
  fix env env'
  show "env_ok env" if "empty_env env"
    using that by (simp add: empty_env_def env_ok_def env_list_def)
  show "env_ok env'" if "env_ok env" "env_step env env'"
    using that(2,1) by (cases rule: env_step.cases) (auto simp: env_add_ok env_remove_ok env_scan_def env_iadd_def fold_folds_ok)
qed

lemma new_environment_ok: "env_ok (new_environment w path platform python)"
  unfolding new_environment_def
  by (rule env.step_inv [OF env.start_inv step_scan]) (simp add: empty_env_def)

text \<open>What an environment holds comes from what was put into it.\<close>

definition env_dists :: "environment \<Rightarrow> dist set" where
  "env_dists env = (\<Union>k. set (env_list env k))"

lemma env_add_dists: "env_dists (env_add d env) \<subseteq> insert d (env_dists env)"
  by (auto simp: env_add_def env_dists_def split: if_splits)

lemma finite_env_dists: "finite (env_dists env)"
proof -
  have "env_dists env \<subseteq> (\<Union>(k, ds)\<in>set (en_distmap env). set ds)"
  proof
    fix d assume "d \<in> env_dists env"
    then obtain k where "d \<in> set (env_list env k)" by (auto simp: env_dists_def)
    then obtain ds where "dget (en_distmap env) k = Some ds" "d \<in> set ds"
      by (cases "dget (en_distmap env) k") (auto simp: env_list_def)
    then show "d \<in> (\<Union>(k, ds)\<in>set (en_distmap env). set ds)" using map_of_SomeD by fastforce
  qed
  moreover have "finite (\<Union>(k, ds)\<in>set (en_distmap env). set ds)" by auto
  ultimately show ?thesis by (rule finite_subset)
qed

section \<open>The best match\<close>

lemma first_in_filter:
  "\<forall>d\<in>set ds. is_ok (dist_in r d)
    \<Longrightarrow> first_in r ds = Inr (case filter (\<lambda>d. dist_in r d = Inr True) ds of [] \<Rightarrow> None | d # _ \<Rightarrow> Some d)"
  by (induction ds) (auto simp: is_ok_iff lift_def)

definition req_wf :: "requirement \<Rightarrow> bool" where
  "req_wf r \<longleftrightarrow> rq_key r = lower (rq_key r) \<and> (\<exists>t. new_specifier_set t None = Inr (rq_specifier r))"

lemma new_requirement_wf: "new_requirement s = Inr r \<Longrightarrow> req_wf r"
  by (auto simp: new_requirement_def new_base_requirement_def req_wf_def res_simps requirement.defs base_requirement.defs
      split: option.splits list.splits) blast+

lemma contains_version_total: "req_wf r \<Longrightarrow> \<exists>b. contains_version r v = Inr b"
  unfolding req_wf_def contains_version_def
  by (auto intro!: set_contains_total new_set_ok simp: parse_item_def version_ok_parse)

lemma dist_in_total: "req_wf r \<Longrightarrow> has_version d \<Longrightarrow> \<exists>b. dist_in r d = Inr b"
  using contains_version_total by (fastforce simp: dist_in_def has_version_def is_ok_iff)

lemma best_match_candidates:
  assumes "env_ok env" and "req_wf r" and "dget (ws_by_key ws) (rq_key r) = None"
  defines "cs \<equiv> filter (\<lambda>d. dist_in r d = Inr True) (env_list env (rq_key r))"
  shows "best_match env r ws installer replace = Inr (case cs of [] \<Rightarrow> obtain_dist installer r | d # _ \<Rightarrow> Some d)"
proof -
  have "env_list_ok env (rq_key r) (env_list env (rq_key r))" using assms(1) by (simp add: env_ok_def)
  then have ok: "\<forall>d\<in>set (env_list env (rq_key r)). is_ok (dist_in r d)"
    using dist_in_total [OF assms(2)] by (fastforce simp: env_list_ok_def versioned_def list_all_iff is_ok_iff)
  have "lower (rq_key r) = rq_key r" using assms(2) by (simp add: req_wf_def)
  then have "env_getitem env (rq_key r) = env_list env (rq_key r)" by (simp add: env_getitem_def)
  with assms(3) first_in_filter [OF ok] show ?thesis
    by (simp add: best_match_def ws_find_def cs_def split: list.split)
qed

lemma newest_candidate:
  assumes "env_ok env" and "filter P (env_list env k) = d # ds"
  shows "\<forall>e\<in>set (d # ds). \<not> older d e"
proof
  fix e assume "e \<in> set (d # ds)"
  have ok: "env_list_ok env k (env_list env k)" using assms(1) by (simp add: env_ok_def)
  then have "newest_sorted (d # ds)" unfolding assms(2) [symmetric] by (simp add: env_list_ok_def newest_sorted_def sorted_wrt_filter)
  then have "dist_rank e \<le> dist_rank d" using \<open>e \<in> set (d # ds)\<close> by (auto simp: newest_sorted_def)
  moreover have "set (d # ds) \<subseteq> set (env_list env k)" unfolding assms(2) [symmetric] by auto
  then have "has_version d" "has_version e"
    using ok \<open>e \<in> set (d # ds)\<close> by (auto simp: env_list_ok_def versioned_def list_all_iff)
  ultimately show "\<not> older d e" by (simp add: older_rank)
qed

lemma distinct_map_sorted: "distinct (map f ds) \<longleftrightarrow> sorted_wrt (\<lambda>d e. f d \<noteq> f e) ds"
  by (induction ds) auto

text \<open>
  C16: Environments stay in order: whatever is added, removed, scanned or merged, each list of an environment holds only
  distributions of its project that have a version and suit its platform and Python, no two of them equal, from
  the newest to the oldest.
\<close>
theorem env_lists_sorted:
  assumes "reach empty_env env_step env"
  shows "list_all (\<lambda>d. d_key d = k \<and> can_add env d \<and> has_version d) (env_list env k)
    \<and> sorted_wrt (\<lambda>d e. \<not> older d e \<and> dist_eq d e = Inr False) (env_list env k)"
proof -
  have ok: "env_list_ok env k (env_list env k)" using env.reach_inv [OF assms] by (simp add: env_ok_def)
  then have v: "has_version d" if "d \<in> set (env_list env k)" for d
    using that by (simp add: env_list_ok_def versioned_def list_all_iff)
  have "sorted_wrt (\<lambda>d e. dist_rank e \<le> dist_rank d \<and> (d_kind d, dist_rank d) \<noteq> (d_kind e, dist_rank e)) (env_list env k)"
    using ok by (simp add: env_list_ok_def newest_sorted_def no_equals_def distinct_map_sorted sorted_wrt_iff_nth_less)
  then have "sorted_wrt (\<lambda>d e. \<not> older d e \<and> dist_eq d e = Inr False) (env_list env k)"
    by (rule sorted_wrt_mono_rel [rotated]) (use v in \<open>auto simp: older_rank dist_eq_rank\<close>)
  with ok show ?thesis by (simp add: env_list_ok_def versioned_def list_all_iff)
qed

text \<open>
  C17: The best match of a requirement for a project that is not active: the newest of the distributions in the environment
  that meet it, and what the installer gives (nothing without one) only if there is none. It raises nothing.
\<close>
theorem best_match_newest:
  assumes "reach empty_env env_step env" and "new_requirement s = Inr r" and "dget (ws_by_key ws) (rq_key r) = None"
  shows "\<exists>found. best_match env r ws installer replace = Inr found
    \<and> (let cs = filter (\<lambda>d. dist_in r d = Inr True) (env_list env (rq_key r))
       in if cs = [] then found = obtain_dist installer r
          else \<exists>d\<in>set cs. found = Some d \<and> (\<forall>e\<in>set cs. \<not> older d e))"
proof -
  have ok: "env_ok env" by (rule env.reach_inv [OF assms(1)])
  show ?thesis
  proof (cases "filter (\<lambda>d. dist_in r d = Inr True) (env_list env (rq_key r))")
    case Nil
    with best_match_candidates [OF ok new_requirement_wf [OF assms(2)] assms(3)] show ?thesis by simp
  next
    case (Cons d ds)
    with newest_candidate [OF ok this] best_match_candidates [OF ok new_requirement_wf [OF assms(2)] assms(3)]
    show ?thesis by simp
  qed
qed

section \<open>Inserting on a path\<close>

lemma insert_at_map: "map f (insert_at p x xs) = insert_at p (f x) (map f xs)"
  by (simp add: insert_at_def take_map drop_map)

definition normal :: "(string \<Rightarrow> string) \<Rightarrow> string \<Rightarrow> string" where
  "normal norm p = (if p \<noteq> [] \<and> norm p \<noteq> [] then norm p else p)"

lemma normal_path_map: "normal_path norm path = map (normal norm) path"
  by (simp add: normal_path_def normal_def)

lemma drop_duplicates_none: "x \<notin> set (drop (Suc p) npath) \<Longrightarrow> drop_duplicates n x p npath path = path"
proof (cases n)
  case (Suc m)
  assume "x \<notin> set (drop (Suc p) npath)"
  then have "find_index (\<lambda>z. z = x) (drop (Suc p) npath) = None" by (auto simp: find_index_None)
  with Suc show ?thesis by simp
qed simp

text \<open>With one other place of the location behind the first, that place goes.\<close>

lemma drop_duplicates_one:
  assumes "map f path = xs @ x # ys @ x # zs" and "x \<notin> set ys" and "x \<notin> set zs"
  shows "map f (drop_duplicates (Suc n) x (length xs) (xs @ x # ys @ x # zs) path) = xs @ x # ys @ zs"
proof -
  have i: "find_index (\<lambda>z. z = x) (ys @ x # zs) = Some (length ys)" using assms(2) by (induction ys) auto
  have "drop (Suc (length xs)) (xs @ x # ys @ x # zs) = ys @ x # zs" by simp
  moreover have "take (Suc (length xs + length ys)) (xs @ x # ys @ x # zs) = xs @ x # ys"
    "drop (Suc (Suc (length xs + length ys))) (xs @ x # ys @ x # zs) = zs"
    "drop (Suc (Suc (length xs + length ys))) (xs @ x # ys @ zs) = drop 1 zs" by simp_all
  moreover have "x \<notin> set (drop 1 zs)" using assms(3) by (meson in_set_dropD)
  moreover have "map f (take k path @ drop (Suc k) path) = take k (xs @ x # ys @ x # zs) @ drop (Suc k) (xs @ x # ys @ x # zs)" for k
    by (simp add: take_map [symmetric] drop_map [symmetric] assms(1) [symmetric])
  ultimately show ?thesis using i
    by (simp add: Let_def drop_duplicates_none del: take_append drop_append map_append)
qed

definition path_hit :: "(string \<Rightarrow> string) \<Rightarrow> dist \<Rightarrow> string \<Rightarrow> bool" where
  "path_hit norm d p \<longleftrightarrow> normal norm p = norm (d_location d)
     \<or> normal norm p = dirname (norm (d_location d)) \<and> d_precedence d = EGG_DIST"

lemma find_index_append: "\<forall>x\<in>set xs. \<not> P x \<Longrightarrow> P q \<Longrightarrow> find_index P (xs @ q # ys) = Some (length xs)"
  by (induction xs) auto

lemma insert_on_nowhere [simp]: "d_location d = [] \<Longrightarrow> insert_on norm d path None replace = path"
  by (simp add: insert_on_def or_empty_def)

lemma insert_on_hit:
  assumes "\<forall>p\<in>set xs. \<not> path_hit norm d p" and "path_hit norm d q" and "d_location d \<noteq> []"
  shows "insert_on norm d (xs @ q # ys) None replace =
    (let nloc = norm (d_location d); path = xs @ q # ys
     in if normal norm q = nloc then if replace then drop_duplicates (length path) nloc (length xs) (map (normal norm) path) path else path
        else if \<not> replace \<and> nloc \<in> set (map (normal norm) (q # ys)) then path
        else drop_duplicates (Suc (length path)) nloc (length xs) (map (normal norm) xs @ nloc # map (normal norm) (q # ys))
               (xs @ d_location d # q # ys))"
proof -
  have "find_index (\<lambda>item. item = norm (d_location d) \<or> item = dirname (norm (d_location d)) \<and> d_precedence d = EGG_DIST)
      (map (normal norm) xs @ normal norm q # map (normal norm) ys) = Some (length (map (normal norm) xs))"
    by (rule find_index_append) (use assms in \<open>auto simp: path_hit_def\<close>)
  with assms(3) show ?thesis
    by (simp add: insert_on_def or_empty_def normal_path_map Let_def insert_at_def nth_append)
qed

lemma insert_on_no_hit:
  assumes "\<forall>p\<in>set path. \<not> path_hit norm d p" and "d_location d \<noteq> []"
  shows "insert_on norm d path None replace = (if replace then d_location d # path else path @ [d_location d])"
proof -
  have "find_index (\<lambda>item. item = norm (d_location d) \<or> item = dirname (norm (d_location d)) \<and> d_precedence d = EGG_DIST)
      (map (normal norm) path) = None"
    unfolding find_index_None using assms by (auto simp: path_hit_def)
  with assms(2) show ?thesis by (simp add: insert_on_def or_empty_def normal_path_map Let_def)
qed

text \<open>
  Activating without replacing: a location that is on the path stays where it is, and nothing changes; an egg goes
  just ahead of its directory, if that is on the path; everything else goes to the end.
\<close>
theorem insert_on_places:
  "insert_on norm d path None False =
     (let nloc = norm (d_location d); away = (\<lambda>p. normal norm p \<noteq> dirname nloc)
      in if d_location d = [] \<or> nloc \<in> set (map (normal norm) path) then path
         else if d_precedence d = EGG_DIST then takeWhile away path
           @ d_location d # dropWhile away path
         else path @ [d_location d])"
proof -
  let ?nloc = "norm (d_location d)" and ?away = "\<lambda>p. normal norm p \<noteq> dirname (norm (d_location d))"
  show ?thesis
  proof (cases "\<exists>p\<in>set path. path_hit norm d p")
    case False
    then have "?nloc \<notin> set (map (normal norm) path)" "d_precedence d = EGG_DIST \<Longrightarrow> \<forall>p\<in>set path. ?away p"
      by (auto simp: path_hit_def)
    moreover from this(2) have "takeWhile ?away path = path" "dropWhile ?away path = []" if "d_precedence d = EGG_DIST"
      using that by (simp_all add: takeWhile_eq_all_conv)
    ultimately show ?thesis using insert_on_no_hit [of path norm d False] False
      by (cases "d_location d = []"; cases "d_precedence d = EGG_DIST") (simp_all add: Let_def del: takeWhile_eq_all_conv dropWhile_eq_Nil_conv)
  next
    case True
    then obtain xs q ys where p: "path = xs @ q # ys" "path_hit norm d q" "\<forall>p\<in>set xs. \<not> path_hit norm d p"
      using split_list_first_prop [of path "path_hit norm d"] by blast
    then have before: "?nloc \<notin> set (map (normal norm) xs)" "d_precedence d = EGG_DIST \<Longrightarrow> \<forall>p\<in>set xs. ?away p"
      by (auto simp: path_hit_def)
    show ?thesis
    proof (cases "?nloc \<in> set (map (normal norm) path)")
      case True
      with before p show ?thesis
        by (cases "d_location d = []") (auto simp: insert_on_hit [OF p(3,2)] Let_def)
    next
      case not_there: False
      then have q: "d_precedence d = EGG_DIST" "\<not> ?away q" using p by (auto simp: path_hit_def)
      with before(2) have "takeWhile ?away path = xs" "dropWhile ?away path = q # ys" using p(1) by (auto simp: takeWhile_append dropWhile_append)
      moreover have "insert_on norm d path None False = xs @ d_location d # q # ys" if "d_location d \<noteq> []"
      proof -
        have "drop_duplicates (Suc (length path)) ?nloc (length xs) (map (normal norm) xs @ ?nloc # map (normal norm) (q # ys)) ps = ps" for ps
          by (rule drop_duplicates_none) (use not_there p(1) in auto)
        with not_there p(1) show ?thesis
          by (auto simp: insert_on_hit [OF p(3,2) that] Let_def simp del: drop_duplicates.simps)
      qed
      ultimately show ?thesis using not_there q(1)
        by (cases "d_location d = []") (simp_all add: Let_def)
    qed
  qed
qed

text \<open>
  A path without repetitions stays one, replacing or not, and holds the location afterwards.
\<close>
theorem insert_on_distinct:
  assumes "distinct (map (normal norm) path)" and "d_location d \<noteq> []" and "norm (d_location d) \<noteq> []"
  shows "norm (d_location d) \<in> set (map (normal norm) (insert_on norm d path None replace))
    \<and> distinct (map (normal norm) (insert_on norm d path None replace))"
proof -
  let ?nloc = "norm (d_location d)"
  have loc: "normal norm (d_location d) = ?nloc" using assms by (simp add: normal_def)
  show ?thesis
  proof (cases "\<exists>p\<in>set path. path_hit norm d p")
    case False
    then have "?nloc \<notin> set (map (normal norm) path)" by (auto simp: path_hit_def)
    with False assms(1,2) loc show ?thesis by (simp add: insert_on_no_hit)
  next
    case True
    then obtain xs q ys where p: "path = xs @ q # ys" "path_hit norm d q" "\<forall>p\<in>set xs. \<not> path_hit norm d p"
      using split_list_first_prop [of path "path_hit norm d"] by blast
    then have before: "?nloc \<notin> set (map (normal norm) xs)" by (auto simp: path_hit_def)
    note hit = insert_on_hit [OF p(3,2) assms(2), of ys replace]
    consider "normal norm q = ?nloc" | "normal norm q \<noteq> ?nloc" "?nloc \<notin> set (map (normal norm) ys)"
      | "normal norm q \<noteq> ?nloc" "?nloc \<in> set (map (normal norm) ys)" by blast
    then show ?thesis
    proof cases
      case 1
      with assms(1) p(1) have "?nloc \<notin> set (map (normal norm) ys)" by auto
      then have "insert_on norm d path None replace = path"
        using 1 p(1) hit drop_duplicates_none [of ?nloc "length xs" "map (normal norm) path"] by (auto simp: Let_def)
      with assms(1) p(1) 1 show ?thesis by auto
    next
      case 2
      then have "insert_on norm d path None replace = xs @ d_location d # q # ys"
        using p(1) hit drop_duplicates_none [of ?nloc "length xs" "map (normal norm) xs @ ?nloc # map (normal norm) (q # ys)"]
        by (auto simp: Let_def simp del: drop_duplicates.simps)
      with assms(1) p(1) before 2 loc show ?thesis by auto
    next
      case 3
      then obtain z us vs where u: "ys = us @ z # vs" "normal norm z = ?nloc"
        by (metis (no_types, lifting) in_set_conv_decomp list.set_map imageE)
      with assms(1) p(1) have d: "?nloc \<notin> set (map (normal norm) (q # us))" "?nloc \<notin> set (map (normal norm) vs)"
        using 3(1) by auto
      show ?thesis
      proof (cases replace)
        case False
        with 3 p(1) hit have "insert_on norm d path None replace = path" by (auto simp: Let_def)
        with assms(1) p(1) 3 show ?thesis by auto
      next
        case True
        have "map (normal norm) (xs @ d_location d # q # ys)
            = map (normal norm) xs @ ?nloc # map (normal norm) (q # us) @ ?nloc # map (normal norm) vs"
          using u loc by simp
        note one = drop_duplicates_one [OF this d, of "length path"]
        have "map (normal norm) (insert_on norm d path None replace)
            = map (normal norm) xs @ ?nloc # map (normal norm) (q # us) @ map (normal norm) vs"
          using one hit True 3 p(1) u by (simp add: Let_def del: drop_duplicates.simps)
        with assms(1) p(1) u d before show ?thesis by auto
      qed
    qed
  qed
qed

end
