(* ===== verification/PkgResolveLaws.thy ===== *)
theory PkgResolveLaws
  imports PkgEnvironmentLaws
begin

text \<open>
  Laws of the resolution of requirements: what it returns is a solution, it ends, and where it does not do what it
  means to.
\<close>

section \<open>Solutions\<close>

text \<open>
  A requirement whose markers pass whoever demands it: it has none, or they hold for one of the extras that were asked
  for.
\<close>

definition surely :: "world \<Rightarrow> string list \<Rightarrow> requirement \<Rightarrow> bool" where
  "surely w extras r \<longleftrightarrow> (case rq_marker r of None \<Rightarrow> True
   | Some ms \<Rightarrow> list_ex (\<lambda>e. marker_evaluate (w_interpreter w) ms (Some [(''extra'', e)]) = Inr True) (or_none extras))"

text \<open>
  A distribution settles a requirement if it meets it, or if it meets one that \<open>Requirement.__eq__\<close> takes for the same and
  the two spell a specifier differently that depends on the spelling.
\<close>

definition settled :: "requirement list \<Rightarrow> dist \<Rightarrow> requirement \<Rightarrow> bool" where
  "settled P d r \<longleftrightarrow> dist_in r d = Inr True
     \<or> (\<exists>p\<in>set P. req_eq p r \<and> dist_in p d = Inr True
          \<and> (\<exists>a\<in>set (ss_specs (rq_specifier r)). \<not> by_value a \<and> a \<notin> set (ss_specs (rq_specifier p))))"

lemma dist_in_iff:
  "dist_in r d = Inr True \<longleftrightarrow> d_key d = rq_key r \<and> (\<exists>v. dist_version d = Inr v
     \<and> (\<forall>sp\<in>set (ss_specs (rq_specifier r)). spec_contains sp (ItemVersion (pkg_parse v)) (Some True) = Inr True))"
  by (auto simp: dist_in_def bindR_eq_Inr contains_version_def set_contains_def parse_item_def all_contain_True)

lemma equal_settles:
  assumes "p \<in> set P" and "req_eq p r" and "dist_in p d = Inr True"
  shows "settled P d r"
proof (cases "\<exists>a\<in>set (ss_specs (rq_specifier r)). \<not> by_value a \<and> a \<notin> set (ss_specs (rq_specifier p))")
  case True
  with assms show ?thesis by (auto simp: settled_def)
next
  case False
  from assms(3) obtain v where key: "d_key d = rq_key p" and v: "dist_version d = Inr v"
    "\<And>sp. sp \<in> set (ss_specs (rq_specifier p)) \<Longrightarrow> spec_contains sp (ItemVersion (pkg_parse v)) (Some True) = Inr True"
    unfolding dist_in_iff by blast
  have "spec_contains a (ItemVersion (pkg_parse v)) (Some True) = Inr True" if a: "a \<in> set (ss_specs (rq_specifier r))" for a
  proof (cases "a \<in> set (ss_specs (rq_specifier p))")
    case True
    then show ?thesis by (rule v(2))
  next
    case new: False
    with False a have "by_value a" by blast
    from assms(2) a obtain b where b: "b \<in> set (ss_specs (rq_specifier p))" "spec_eq a b"
      by (auto simp: req_eq_def set_eq_def list_all_iff spec_member_def list_ex_iff spec_eq_def)
    from equal_specifiers_agree [OF b(2) \<open>by_value a\<close> version_ok_parse] v(2) [OF b(1)] show ?thesis by simp
  qed
  with key v(1) assms(2) show ?thesis by (simp add: settled_def dist_in_iff req_eq_def)
qed

text \<open>
  Distributions that meet requirements: a choice of one distribution for each project, and a list \<open>P\<close> of requirements
  that holds (up to \<open>Requirement.__eq__\<close>) the first ones and with a requirement those of the distribution chosen for it; the
  ones of \<open>P\<close> are met by that distribution, what equals them is settled, and there are no other distributions.
\<close>

definition provided :: "requirement list \<Rightarrow> (string \<Rightarrow> dist option) \<Rightarrow> dist list \<Rightarrow> requirement \<Rightarrow> bool" where
  "provided P chosen ds r \<longleftrightarrow> req_member r P \<and> (\<exists>d\<in>set ds. chosen (rq_key r) = Some d \<and> settled P d r)"

definition solution :: "world \<Rightarrow> string list \<Rightarrow> requirement list \<Rightarrow> requirement list \<Rightarrow> (string \<Rightarrow> dist option) \<Rightarrow> dist list \<Rightarrow> bool" where
  "solution w extras rs P chosen ds \<longleftrightarrow>
     (\<forall>r\<in>set rs. surely w extras r \<longrightarrow> provided P chosen ds r)
     \<and> (\<forall>r\<in>set P. \<exists>d\<in>set ds. chosen (rq_key r) = Some d \<and> dist_in r d = Inr True
          \<and> (\<exists>qs. requires (w_interpreter w) d (rq_extras r) = Inr qs \<and> (\<forall>q\<in>set qs. surely w extras q \<longrightarrow> provided P chosen ds q)))
     \<and> (\<forall>d\<in>set ds. chosen (d_key d) = Some d \<and> (\<exists>r\<in>set P. rq_key r = d_key d))"

section \<open>Rounds\<close>

lemma req_eq_refl [simp]: "req_eq r r"
proof -
  have "spec_member x xs" if "x \<in> set xs" for x xs
    using that by (auto simp: spec_member_def list_ex_iff spec_eq_def)
  then show ?thesis by (simp add: req_eq_def set_eq_def list_all_iff)
qed

lemma req_member_append [simp]: "req_member r (P @ Q) \<longleftrightarrow> req_member r P \<or> req_member r Q"
  by (simp add: req_member_def)

lemma req_member_self [simp]: "req_member r [r]"
  by (simp add: req_member_def)

lemma any_extra_False: "any_extra p ms es = Inr False \<Longrightarrow> e \<in> set es \<Longrightarrow> marker_evaluate p ms (Some [(''extra'', e)]) = Inr False"
  by (induction es) (auto simp: res_simps split: if_splits)

lemma markers_fail: "markers_pass (w_interpreter w) demanded r extras = Inr False \<Longrightarrow> \<not> surely w extras r"
  by (auto simp: markers_pass_def surely_def list_ex_iff dest: any_extra_False split: option.splits)

lemma lift_simps [simp]: "lift (Inr x) = Inr x" "lift (Inl e) = Inl (Raised e)" "lift r = Inr x \<longleftrightarrow> r = Inr x"
  by (cases r; simp add: lift_def)+

text \<open>What a project has been given; the working set is asked where there is no other choice.\<close>

definition choice :: "working_set \<Rightarrow> resolution \<Rightarrow> string \<Rightarrow> dist option" where
  "choice ws s k = (case dget (rs_best s) k of Some d \<Rightarrow> Some d | None \<Rightarrow> dget (ws_by_key ws) k)"

lemma fold_register [simp]:
  "rs_requirements (fold (register r) qs s) = rs_requirements s"
  "rs_processed (fold (register r) qs s) = rs_processed s"
  "rs_best (fold (register r) qs s) = rs_best s"
  "rs_to_activate (fold (register r) qs s) = rs_to_activate s"
  "rs_env (fold (register r) qs s) = rs_env s"
  by (induction qs arbitrary: s) (simp_all add: register_def Let_def)

lemma choose_dist_cases:
  assumes "choose_dist w self installer replace r s = Inr (d, s')"
  obtains "dget (rs_best s) (rq_key r) = Some d" and "s' = s"
  | "dget (rs_best s) (rq_key r) = None" and "dget (ws_by_key self) (rq_key r) = Some d"
    and "s' = s \<lparr>rs_to_activate := rs_to_activate s @ [d]\<rparr>"
  | env ws where "dget (rs_best s) (rq_key r) = None" and "dget (ws_by_key self) (rq_key r) = None \<or> replace"
    and "searched w self r s = (env, ws)" and "best_match env r ws installer replace = Inr (Some d)"
    and "s' = s \<lparr>rs_env := Some env, rs_best := dset (rq_key r) d (rs_best s), rs_to_activate := rs_to_activate s @ [d]\<rparr>"
proof (cases "dget (rs_best s) (rq_key r)")
  case (Some e)
  with assms have "d = e" "s' = s" by (simp_all add: choose_dist_def)
  with Some show ?thesis by (intro that(1)) simp_all
next
  case None
  define look where "look = (case dget (ws_by_key self) (rq_key r) of None \<Rightarrow> Inr True
      | Some d \<Rightarrow> bindR (lift (dist_in r d)) (\<lambda>b. Inr (\<not> b \<and> replace)))"
  define found where "found = (\<lambda>env ws. bindR (best_match env r ws installer replace) (\<lambda>found. case found of
       None \<Rightarrow> Inl (DistributionNotFound r (case rget (rs_required_by s) r of None \<Rightarrow> [] | Some ns \<Rightarrow> ns))
     | Some d \<Rightarrow> Inr (d, s \<lparr>rs_env := Some env, rs_best := dset (rq_key r) d (rs_best s)\<rparr>)))"
  obtain env ws where env: "searched w self r s = (env, ws)" by (cases "searched w self r s")
  have "bindR look (\<lambda>search. bindR
       (if \<not> search then Inr (the (dget (ws_by_key self) (rq_key r)), s) else found env ws)
       (\<lambda>(d, s). Inr (d, s \<lparr>rs_to_activate := rs_to_activate s @ [d]\<rparr>))) = Inr (d, s')"
    using assms unfolding choose_dist_def look_def found_def env Let_def None option.case prod.case by assumption
  then obtain search e t where look: "look = Inr search"
    and t: "(if \<not> search then Inr (the (dget (ws_by_key self) (rq_key r)), s) else found env ws) = Inr (e, t)"
    and s': "e = d" "s' = t \<lparr>rs_to_activate := rs_to_activate t @ [d]\<rparr>"
    unfolding bindR_eq_Inr by auto
  show ?thesis
  proof (cases search)
    case False
    with look obtain e where "dget (ws_by_key self) (rq_key r) = Some e" by (auto simp: look_def split: option.splits)
    with t s' False None show ?thesis by (intro that(2)) auto
  next
    case True
    with look have "dget (ws_by_key self) (rq_key r) = None \<or> replace" by (auto simp: look_def res_simps split: option.splits)
    moreover from t True have "best_match env r ws installer replace = Inr (Some e)"
      "t = s \<lparr>rs_env := Some env, rs_best := dset (rq_key r) e (rs_best s)\<rparr>"
      by (auto simp: found_def bindR_eq_Inr split: option.splits)
    ultimately show ?thesis using s' None env by (intro that(3)) auto
  qed
qed

lemma choose_dist_keeps:
  assumes "choose_dist w ws installer replace r s = Inr (d, s')"
  shows "rs_requirements s' = rs_requirements s" and "rs_processed s' = rs_processed s"
    and "rs_to_activate s' = (if dget (rs_best s) (rq_key r) = Some d then rs_to_activate s else rs_to_activate s @ [d])"
    and "dget (rs_best s) (rq_key r) = None \<or> dget (rs_best s) (rq_key r) = Some d"
  using assms by (cases rule: choose_dist_cases; simp)+

lemma choose_dist_choice:
  assumes "choose_dist w ws installer False r s = Inr (d, s')"
  shows "choice ws s' (rq_key r) = Some d" and "choice ws s k \<noteq> None \<Longrightarrow> choice ws s' k = choice ws s k"
    and "rs_best s' = rs_best s \<or> rs_best s' = dset (rq_key r) d (rs_best s)"
proof -
  show "choice ws s' (rq_key r) = Some d"
    using assms by (cases rule: choose_dist_cases) (simp_all add: choice_def)
  show "choice ws s' k = choice ws s k" if "choice ws s k \<noteq> None"
    using assms by (cases rule: choose_dist_cases) (use that in \<open>auto simp: choice_def\<close>)
  show "rs_best s' = rs_best s \<or> rs_best s' = dset (rq_key r) d (rs_best s)"
    using assms by (cases rule: choose_dist_cases) simp_all
qed

text \<open>A round that goes on: the requirement is left out, or it is processed.\<close>

lemma resolve_step_cases:
  assumes "resolve_step w ws installer replace extras s = Inr s'" and "rs_requirements s = r # rs"
  obtains "s' = s \<lparr>rs_requirements := rs\<rparr>" and "req_member r (rs_processed s) \<or> \<not> surely w extras r"
  | d t qs where "choose_dist w ws installer replace r (s \<lparr>rs_requirements := rs\<rparr>) = Inr (d, t)" and "dist_in r d = Inr True"
    and "requires (w_interpreter w) d (rq_extras r) = Inr qs"
    and "s' = fold (register r) (rev qs) (t \<lparr>rs_requirements := rs @ rev qs\<rparr>) \<lparr>rs_processed := rs_processed s @ [r]\<rparr>"
    and "\<not> req_member r (rs_processed s)"
proof (cases "req_member r (rs_processed s)")
  case True
  with assms that(1) show ?thesis by (simp add: resolve_step_def Let_def)
next
  case False
  with assms obtain pass where pass: "markers_pass (w_interpreter w) (rs_req_extras s) r extras = Inr pass"
    by (auto simp: resolve_step_def Let_def res_simps)
  show ?thesis
  proof (cases pass)
    case True
    from assms have "bindR (choose_dist w ws installer replace r (s \<lparr>rs_requirements := rs\<rparr>)) (\<lambda>(d, t). bindR (lift (dist_in r d)) (\<lambda>b.
        if \<not> b then Inl (VersionConflict d r (case rget (rs_required_by t) r of None \<Rightarrow> [] | Some ns \<Rightarrow> ns))
        else bindR (requires (w_interpreter w) d (rq_extras r)) (\<lambda>qs. Inr (fold (register r) (rev qs)
          (t \<lparr>rs_requirements := rs_requirements t @ rev qs\<rparr>) \<lparr>rs_processed := rs_processed t @ [r]\<rparr>)))) = Inr s'"
      using False pass True by (simp add: resolve_step_def Let_def lift_def)
    then obtain d t qs where "choose_dist w ws installer replace r (s \<lparr>rs_requirements := rs\<rparr>) = Inr (d, t)"
      "dist_in r d = Inr True" "requires (w_interpreter w) d (rq_extras r) = Inr qs"
      "s' = fold (register r) (rev qs) (t \<lparr>rs_requirements := rs_requirements t @ rev qs\<rparr>) \<lparr>rs_processed := rs_processed t @ [r]\<rparr>"
      by (auto simp: res_simps simp del: fold_register split: if_splits)
    with False that(2) choose_dist_keeps(1,2) [OF this(1)] show ?thesis by simp
  next
    case fails: False
    with False pass assms that(1) markers_fail show ?thesis by (auto simp: resolve_step_def Let_def)
  qed
qed

section \<open>The resolution is sound\<close>

definition pending :: "resolution \<Rightarrow> requirement \<Rightarrow> bool" where
  "pending s r \<longleftrightarrow> req_member r (rs_processed s) \<or> r \<in> set (rs_requirements s)"

definition sound :: "world \<Rightarrow> working_set \<Rightarrow> string list \<Rightarrow> requirement list \<Rightarrow> resolution \<Rightarrow> bool" where
  "sound w ws extras rs0 s \<longleftrightarrow>
     (\<forall>r\<in>set rs0. surely w extras r \<longrightarrow> pending s r)
     \<and> (\<forall>r\<in>set (rs_processed s). \<exists>d\<in>set (rs_to_activate s). choice ws s (rq_key r) = Some d \<and> dist_in r d = Inr True
          \<and> (\<exists>qs. requires (w_interpreter w) d (rq_extras r) = Inr qs \<and> (\<forall>q\<in>set qs. surely w extras q \<longrightarrow> pending s q)))
     \<and> (\<forall>d\<in>set (rs_to_activate s). \<exists>r\<in>set (rs_processed s). choice ws s (rq_key r) = Some d)
     \<and> (\<forall>k d. dget (rs_best s) k = Some d \<longrightarrow> d \<in> set (rs_to_activate s))"

lemma sound_skip:
  assumes "sound w ws extras rs0 s" and "rs_requirements s = r # rs" and "req_member r (rs_processed s) \<or> \<not> surely w extras r"
  shows "sound w ws extras rs0 (s \<lparr>rs_requirements := rs\<rparr>)"
proof -
  have "pending (s \<lparr>rs_requirements := rs\<rparr>) q" if "pending s q" "surely w extras q" for q
    using that assms(2,3) by (auto simp: pending_def)
  moreover have "choice ws (s \<lparr>rs_requirements := rs\<rparr>) = choice ws s" by (simp add: choice_def fun_eq_iff)
  ultimately show ?thesis using assms(1) unfolding sound_def by simp blast
qed

lemma sound_process:
  assumes "sound w ws extras rs0 s" and "rs_requirements s = r # rs"
    and "choose_dist w ws installer False r (s \<lparr>rs_requirements := rs\<rparr>) = Inr (d, t)" and "dist_in r d = Inr True"
    and "requires (w_interpreter w) d (rq_extras r) = Inr qs"
    and s': "s' = fold (register r) (rev qs) (t \<lparr>rs_requirements := rs @ rev qs\<rparr>) \<lparr>rs_processed := rs_processed s @ [r]\<rparr>"
  shows "sound w ws extras rs0 s'"
proof -
  note keeps = choose_dist_keeps [OF assms(3)] and chosen = choose_dist_choice [OF assms(3)]
  have fields: "rs_requirements s' = rs @ rev qs" "rs_processed s' = rs_processed s @ [r]" "rs_best s' = rs_best t"
    "rs_to_activate s' = rs_to_activate t" by (simp_all add: s')
  have choice: "choice ws s' = choice ws t" by (simp add: choice_def fields fun_eq_iff)
  have same: "choice ws (s \<lparr>rs_requirements := rs\<rparr>) = choice ws s" by (simp add: choice_def fun_eq_iff)
  have stays: "choice ws s' k = Some e" if "choice ws s k = Some e" for k e
    using chosen(2) [of k] that by (simp add: choice same)
  have d: "choice ws s' (rq_key r) = Some d" using chosen(1) by (simp add: choice)
  have pending: "pending s' q" if "pending s q \<or> q \<in> set qs" for q
    using that assms(2) by (auto simp: pending_def fields)
  have acts: "set (rs_to_activate s) \<subseteq> set (rs_to_activate s')" "d \<in> set (rs_to_activate s')"
    "set (rs_to_activate s') \<subseteq> insert d (set (rs_to_activate s))"
    using keeps(3,4) assms(1) by (auto simp: fields sound_def split: if_splits)
  show ?thesis unfolding sound_def
  proof (intro conjI)
    show "\<forall>r\<in>set rs0. surely w extras r \<longrightarrow> pending s' r" using assms(1) pending by (simp add: sound_def)
    show "\<forall>q\<in>set (rs_processed s'). \<exists>e\<in>set (rs_to_activate s'). choice ws s' (rq_key q) = Some e \<and> dist_in q e = Inr True
        \<and> (\<exists>us. requires (w_interpreter w) e (rq_extras q) = Inr us \<and> (\<forall>u\<in>set us. surely w extras u \<longrightarrow> pending s' u))"
    proof
      fix q assume "q \<in> set (rs_processed s')"
      then consider "q \<in> set (rs_processed s)" | "q = r" by (auto simp: fields)
      then show "\<exists>e\<in>set (rs_to_activate s'). choice ws s' (rq_key q) = Some e \<and> dist_in q e = Inr True
        \<and> (\<exists>us. requires (w_interpreter w) e (rq_extras q) = Inr us \<and> (\<forall>u\<in>set us. surely w extras u \<longrightarrow> pending s' u))"
      proof cases
        case 1
        with assms(1) obtain e us where "e \<in> set (rs_to_activate s)" "choice ws s (rq_key q) = Some e" "dist_in q e = Inr True"
          "requires (w_interpreter w) e (rq_extras q) = Inr us" "\<forall>u\<in>set us. surely w extras u \<longrightarrow> pending s u"
          unfolding sound_def by blast
        with acts(1) stays pending show ?thesis by blast
      next
        case 2
        with acts(2) d assms(4,5) pending show ?thesis by blast
      qed
    qed
    show "\<forall>e\<in>set (rs_to_activate s'). \<exists>q\<in>set (rs_processed s'). choice ws s' (rq_key q) = Some e"
    proof
      fix e assume "e \<in> set (rs_to_activate s')"
      then consider "e \<in> set (rs_to_activate s)" | "e = d" using acts(3) by blast
      then show "\<exists>q\<in>set (rs_processed s'). choice ws s' (rq_key q) = Some e"
      proof cases
        case 1
        with assms(1) obtain q where "q \<in> set (rs_processed s)" "choice ws s (rq_key q) = Some e" unfolding sound_def by blast
        with stays show ?thesis by (auto simp: fields)
      qed (use d fields in auto)
    qed
    show "\<forall>k e. dget (rs_best s') k = Some e \<longrightarrow> e \<in> set (rs_to_activate s')"
      using chosen(3) assms(1) acts by (fastforce simp: fields sound_def split: if_splits)
  qed
qed

lemma resolve_step_sound:
  assumes "sound w ws extras rs0 s" and "rs_requirements s \<noteq> []" and "resolve_step w ws installer False extras s = Inr s'"
  shows "sound w ws extras rs0 s'"
proof -
  from assms(2) obtain r rs where rs: "rs_requirements s = r # rs" by (cases "rs_requirements s") auto
  from resolve_step_cases [OF assms(3) rs] show ?thesis
    by cases (use sound_skip [OF assms(1) rs] sound_process [OF assms(1) rs] in blast)+
qed

lemma resolve_loop_inv:
  assumes "resolve_loop w ws installer replace extras s = Some x" and "I s" and "x = Inr ds"
    and "\<And>s s'. I s \<Longrightarrow> rs_requirements s \<noteq> [] \<Longrightarrow> resolve_step w ws installer replace extras s = Inr s' \<Longrightarrow> I s'"
  shows "\<exists>s'. I s' \<and> rs_requirements s' = [] \<and> ds = rs_to_activate s'"
  using assms
proof (induction w ws installer replace extras s x rule: resolve_loop.raw_induct [rotated, consumes 1, case_names loop])
  case (loop go w ws installer replace extras s x)
  show ?case
  proof (cases "rs_requirements s = []")
    case True
    with loop(2-4) show ?thesis by auto
  next
    case False
    with loop(2,4) obtain s' where s': "resolve_step w ws installer replace extras s = Inr s'"
      "go w ws installer replace extras s' = Some x" by (auto split: sum.splits)
    show ?thesis by (rule loop(1) [OF s'(2) loop(5) [OF loop(3) False s'(1)] loop(4) loop(5)])
  qed
qed

lemma dist_in_key: "dist_in r d = Inr True \<Longrightarrow> d_key d = rq_key r"
  by (simp add: dist_in_def split: if_splits)

text \<open>
  C13: A resolution that succeeds, without replacing conflicting distributions, gives a solution: for each project there is
  one distribution, and each distribution that is returned is required by a requirement that it meets. Take a requirement
  that was asked for, or that a chosen distribution has with the extras of a requirement that was processed, and
  whose markers hold for one of the extras of the call (or that has none). Then a requirement that the code takes for
  equal to it was processed and is met by the distribution of the project; the requirement itself is met by it as
  well, unless one of its specifiers has the operator \<open>~=\<close> or \<open>===\<close> or is a legacy one and the equal requirement spells it
  differently (as \<open>~=1.0\<close> and \<open>~=1.0.0\<close>, which the code confuses).
\<close>
theorem resolve_sound:
  assumes "resolve w ws rs env installer False extras = Some (Inr ds)"
  shows "\<exists>P chosen. solution w extras rs P chosen ds"
proof -
  have "sound w ws extras rs (resolve_start rs env)"
    by (simp add: sound_def resolve_start_def pending_def)
  from resolve_loop_inv [where I = "sound w ws extras rs", OF assms [unfolded resolve_def] this refl] resolve_step_sound
  obtain s where s: "sound w ws extras rs s" "rs_requirements s = []" "ds = rs_to_activate s" by blast
  let ?P = "rs_processed s" and ?chosen = "choice ws s"
  have provided: "provided ?P ?chosen ds r" if "pending s r" for r
  proof -
    from that s(2) obtain p where p: "p \<in> set ?P" "req_eq p r" by (auto simp: pending_def req_member_def list_ex_iff)
    with s(1,3) obtain d where d: "d \<in> set ds" "?chosen (rq_key p) = Some d" "dist_in p d = Inr True" unfolding sound_def by blast
    with p equal_settles [OF p d(3)] show ?thesis by (auto simp: provided_def req_member_def list_ex_iff req_eq_def)
  qed
  have "?chosen (d_key d) = Some d \<and> (\<exists>r\<in>set ?P. rq_key r = d_key d)" if d: "d \<in> set ds" for d
  proof -
    from d s obtain r where r: "r \<in> set ?P" "?chosen (rq_key r) = Some d" unfolding sound_def by blast
    with s(1) have "dist_in r d = Inr True" unfolding sound_def by fastforce
    with r dist_in_key [of r d] show ?thesis by auto
  qed
  with s(1,3) provided have "solution w extras rs ?P ?chosen ds" unfolding solution_def sound_def by blast
  then show ?thesis by blast
qed

section \<open>The resolution ends\<close>

text \<open>The distributions that there are, and the requirements that they have: finitely many.\<close>

definition available :: "world \<Rightarrow> working_set \<Rightarrow> environment option \<Rightarrow> installer option \<Rightarrow> dist set" where
  "available w ws env installer = ran (dget (ws_by_key ws))
     \<union> (case env of Some e \<Rightarrow> env_dists e | None \<Rightarrow> env_dists (default_env w (ws_entries ws)) \<union> env_dists (default_env w []))
     \<union> {d. \<exists>r. obtain_dist installer r = Some d}"

definition dep_reqs :: "world \<Rightarrow> dist \<Rightarrow> requirement set" where
  "dep_reqs w d = (case get_dep_map (w_interpreter w) d of Inl _ \<Rightarrow> {} | Inr dm \<Rightarrow> (\<Union>(k, rs)\<in>set dm. set rs))"

lemma finite_available: "(\<And>f. installer = Some f \<Longrightarrow> finite (range f)) \<Longrightarrow> finite (available w ws env installer)"
proof -
  assume fin: "\<And>f. installer = Some f \<Longrightarrow> finite (range f)"
  have "{d. \<exists>r. obtain_dist installer r = Some d} \<subseteq> the ` range (obtain_dist installer)"
  proof
    fix d assume "d \<in> {d. \<exists>r. obtain_dist installer r = Some d}"
    then obtain r where "obtain_dist installer r = Some d" by blast
    then show "d \<in> the ` range (obtain_dist installer)" by (metis option.sel rangeI imageI)
  qed
  moreover have "finite (range (obtain_dist installer))"
    using fin by (cases installer) (simp_all add: obtain_dist_def [abs_def])
  ultimately have "finite {d. \<exists>r. obtain_dist installer r = Some d}" by (meson finite_imageI finite_subset)
  moreover have "finite (ran (dget (ws_by_key ws)))" by (rule finite_ran) (rule finite_dom_map_of)
  ultimately show ?thesis by (simp add: available_def finite_env_dists split: option.split)
qed

lemma finite_dep_reqs: "finite (dep_reqs w d)"
  by (auto simp: dep_reqs_def split: sum.split)

lemma map_of_dep_reqs: "get_dep_map (w_interpreter w) d = Inr dm \<Longrightarrow> dget dm k = Some rs \<Longrightarrow> set rs \<subseteq> dep_reqs w d"
  by (force simp: dep_reqs_def dest: map_of_SomeD)

lemma requires_subset: "requires (w_interpreter w) d es = Inr qs \<Longrightarrow> set qs \<subseteq> dep_reqs w d"
proof -
  assume "requires (w_interpreter w) d es = Inr qs"
  then obtain dm us where dm: "get_dep_map (w_interpreter w) d = Inr dm" and us: "extra_deps d dm es = Inr us"
    and qs: "qs = (case dget dm None of None \<Rightarrow> [] | Some rs \<Rightarrow> rs) @ us"
    by (auto simp: requires_def bindR_eq_Inr)
  have "set us \<subseteq> dep_reqs w d" using us
  proof (induction es arbitrary: us)
    case (Cons e es)
    then show ?case using map_of_dep_reqs [OF dm] by (fastforce simp: bindR_eq_Inr split: option.splits)
  qed simp
  moreover have "set (case dget dm None of None \<Rightarrow> [] | Some rs \<Rightarrow> rs) \<subseteq> dep_reqs w d"
    using map_of_dep_reqs [OF dm] by (cases "dget dm None") auto
  ultimately show ?thesis by (simp add: qs)
qed

lemma first_in_mem: "first_in r ds = Inr (Some d) \<Longrightarrow> d \<in> set ds"
  by (induction ds) (auto simp: bindR_eq_Inr split: if_splits)

lemma best_match_from:
  assumes "best_match env r ws installer replace = Inr (Some d)"
  shows "d \<in> env_dists env \<or> dget (ws_by_key ws) (rq_key r) = Some d \<or> obtain_dist installer r = Some d"
proof -
  from assms obtain found where found: "(case ws_find ws r of
         Inl (VersionConflict d q c) \<Rightarrow> if replace then Inr None else Inl (VersionConflict d q c) | x \<Rightarrow> x) = Inr found"
    and rest: "(case found of Some d \<Rightarrow> Inr (Some d) | None \<Rightarrow> bindR (first_in r (env_getitem env (rq_key r))) (\<lambda>d.
          Inr (case d of Some d \<Rightarrow> Some d | None \<Rightarrow> obtain_dist installer r))) = Inr (Some d)"
    unfolding best_match_def bindR_eq_Inr by blast
  show ?thesis
  proof (cases found)
    case None
    with rest obtain x where "first_in r (env_getitem env (rq_key r)) = Inr x"
      "(case x of Some d \<Rightarrow> Some d | None \<Rightarrow> obtain_dist installer r) = Some d" by (auto simp: bindR_eq_Inr)
    then show ?thesis
      by (cases x) (auto simp: env_dists_def env_getitem_def dest: first_in_mem)
  next
    case (Some e)
    with found rest have "ws_find ws r = Inr (Some d)" by (auto split: sum.splits failure.splits if_splits)
    then show ?thesis by (auto simp: ws_find_def bindR_eq_Inr split: option.splits if_splits)
  qed
qed

lemma no_distributions_by_key [simp]: "ws_by_key (new_working_set w []) = []"
  by (simp add: new_working_set_def no_distributions_def)

text \<open>What the loop keeps: it uses available distributions only, and its requirements are theirs or the first ones.\<close>

definition within :: "dist set \<Rightarrow> requirement set \<Rightarrow> environment option \<Rightarrow> resolution \<Rightarrow> bool" where
  "within D U env s \<longleftrightarrow> ran (dget (rs_best s)) \<subseteq> D \<and> set (rs_requirements s) \<subseteq> U
     \<and> (case rs_env s of None \<Rightarrow> env = None | Some e \<Rightarrow> env_dists e \<subseteq> D)"

lemma choose_dist_within:
  assumes "within (available w ws env installer) U env s" and "choose_dist w ws installer replace r s = Inr (d, t)"
  shows "d \<in> available w ws env installer" and "within (available w ws env installer) U env t"
proof -
  let ?D = "available w ws env installer"
  have ws: "dget (ws_by_key ws) k = Some e \<Longrightarrow> e \<in> ?D" for k e by (auto simp: available_def ran_def)
  from assms(2) have "d \<in> ?D \<and> within ?D U env t"
  proof (cases rule: choose_dist_cases)
    case 1
    with assms(1) show ?thesis by (auto simp: within_def ran_def)
  next
    case 2
    with assms(1) ws show ?thesis by (auto simp: within_def)
  next
    case (3 e v)
    have e: "env_dists e \<subseteq> ?D"
    proof (cases "rs_env s")
      case None
      with assms(1) have "env = None" by (simp add: within_def)
      with None 3(3) show ?thesis by (auto simp: searched_def available_def split: if_splits)
    next
      case (Some x)
      with assms(1) 3(3) show ?thesis by (simp add: within_def searched_def)
    qed
    have v: "dget (ws_by_key v) k = Some x \<Longrightarrow> x \<in> ?D" for k x
      using 3(3) ws by (auto simp: searched_def split: option.splits if_splits)
    have "d \<in> ?D" using best_match_from [OF 3(4)] e v by (auto simp: available_def)
    with assms(1) e 3(5) show ?thesis by (auto simp: within_def ran_def split: if_splits)
  qed
  then show "d \<in> ?D" and "within ?D U env t" by simp_all
qed

lemma resolve_ends:
  assumes "finite U" and "\<And>d. d \<in> available w ws env installer \<Longrightarrow> dep_reqs w d \<subseteq> U"
    and "within (available w ws env installer) U env s"
  shows "\<exists>x. resolve_loop w ws installer replace extras s = Some x"
  using assms(3)
proof (induction "(card {u \<in> U. \<not> req_member u (rs_processed s)}, length (rs_requirements s))" arbitrary: s
    rule: wf_induct_rule [OF wf_lex_prod [OF wf_less_than wf_less_than]])
  case (1 s)
  show ?case
  proof (cases "rs_requirements s")
    case Nil
    then show ?thesis by (subst resolve_loop.simps) simp
  next
    case (Cons r rs)
    show ?thesis
    proof (cases "resolve_step w ws installer replace extras s")
      case (Inl e)
      with Cons show ?thesis by (subst resolve_loop.simps) simp
    next
      case (Inr s')
      have "\<exists>x. resolve_loop w ws installer replace extras s' = Some x"
        using Inr Cons
      proof (cases rule: resolve_step_cases)
        case 1
        show ?thesis by (rule "1.hyps") (use 1 Cons "1.prems" in \<open>simp_all add: within_def\<close>)
      next
        case (2 d t qs)
        have "within (available w ws env installer) U env (s \<lparr>rs_requirements := rs\<rparr>)"
          using "1.prems" Cons by (simp add: within_def)
        note t = choose_dist_within [OF this 2(1)]
        have "set qs \<subseteq> U" using requires_subset [OF 2(3)] assms(2) [OF t(1)] by blast
        with t(2) "1.prems" Cons have w: "within (available w ws env installer) U env s'"
          by (simp add: within_def 2(4))
        have "r \<in> U" using "1.prems" Cons by (simp add: within_def)
        moreover have "req_member r (rs_processed s')" by (simp add: 2(4))
        moreover have "{u \<in> U. \<not> req_member u (rs_processed s')} \<subseteq> {u \<in> U. \<not> req_member u (rs_processed s)}"
          by (auto simp: 2(4))
        ultimately have "{u \<in> U. \<not> req_member u (rs_processed s')} \<subset> {u \<in> U. \<not> req_member u (rs_processed s)}"
          using 2(5) by blast
        then have "card {u \<in> U. \<not> req_member u (rs_processed s')} < card {u \<in> U. \<not> req_member u (rs_processed s)}"
          by (intro psubset_card_mono) (use assms(1) in simp_all)
        then show ?thesis by (intro "1.hyps" w) simp
      qed
      with Inr Cons show ?thesis by (subst resolve_loop.simps) simp
    qed
  qed
qed

text \<open>
  C14: The resolution ends, with cyclic requirements as well, if the installer has finitely many distributions to give (or
  there is none): it returns distributions or raises.
\<close>
theorem resolve_terminates:
  assumes "\<forall>f. installer = Some f \<longrightarrow> finite (range f)"
  shows "\<exists>x. resolve w ws rs env installer replace extras = Some x"
proof -
  let ?D = "available w ws env installer"
  have "finite ?D" using assms by (intro finite_available) simp
  then have "finite (set rs \<union> (\<Union>d\<in>?D. dep_reqs w d))" using finite_dep_reqs by blast
  then show ?thesis unfolding resolve_def
  proof (rule resolve_ends)
    show "dep_reqs w d \<subseteq> set rs \<union> (\<Union>d\<in>?D. dep_reqs w d)" if "d \<in> ?D" for d using that by blast
    show "within ?D (set rs \<union> (\<Union>d\<in>?D. dep_reqs w d)) env (resolve_start rs env)"
      by (cases env) (auto simp: within_def resolve_start_def available_def)
  qed
qed

section \<open>Errors\<close>

lemma resolve_loop_fails:
  assumes "resolve_loop w ws installer replace extras s = Some x" and "I s" and "x = Inl f"
    and "\<And>s s'. I s \<Longrightarrow> rs_requirements s \<noteq> [] \<Longrightarrow> resolve_step w ws installer replace extras s = Inr s' \<Longrightarrow> I s'"
  shows "\<exists>s'. I s' \<and> rs_requirements s' \<noteq> [] \<and> resolve_step w ws installer replace extras s' = Inl f"
  using assms
proof (induction w ws installer replace extras s x rule: resolve_loop.raw_induct [rotated, consumes 1, case_names loop])
  case (loop go w ws installer replace extras s x)
  show ?case
  proof (cases "rs_requirements s = []")
    case True
    with loop(2,4) show ?thesis by simp
  next
    case False
    show ?thesis
    proof (cases "resolve_step w ws installer replace extras s")
      case (Inl e)
      with loop(2,4) False have "e = f" by simp
      with Inl loop(3) False show ?thesis by blast
    next
      case (Inr s')
      with loop(2) False have "go w ws installer replace extras s' = Some x" by simp
      from loop(1) [OF this loop(5) [OF loop(3) False Inr] loop(4) loop(5)] show ?thesis .
    qed
  qed
qed

text \<open>What an error of a resolution says.\<close>

definition failure_ok :: "world \<Rightarrow> installer option \<Rightarrow> environment \<Rightarrow> failure \<Rightarrow> bool" where
  "failure_ok w installer env f = (case f of
     VersionConflict d r ns \<Rightarrow> dist_in r d = Inr False
   | DistributionNotFound r ns \<Rightarrow> obtain_dist installer r = None \<and> list_all (\<lambda>d. dist_in r d = Inr False) (env_getitem env (rq_key r))
   | UnknownExtra d e \<Rightarrow> (\<exists>dm. get_dep_map (w_interpreter w) d = Inr dm \<and> dget dm (Some (safe_extra e)) = None)
   | Raised e \<Rightarrow> True)"

lemma lift_fails: "lift r = Inl f \<Longrightarrow> \<exists>e. f = Raised e"
  by (cases r) (auto simp: lift_def)

lemma first_in_None: "first_in r ds = Inr None \<Longrightarrow> list_all (\<lambda>d. dist_in r d = Inr False) ds"
  by (induction ds) (auto simp: bindR_eq_Inr split: if_splits)

lemma first_in_fails: "first_in r ds = Inl f \<Longrightarrow> \<exists>e. f = Raised e"
  by (induction ds) (auto simp: bindR_eq_Inl split: if_splits dest: lift_fails)

lemma ws_find_fails: "ws_find ws r = Inl f \<Longrightarrow> failure_ok w installer env f"
  by (auto simp: ws_find_def bindR_eq_Inl failure_ok_def split: option.splits if_splits dest: lift_fails)

lemma best_match_fails:
  assumes "best_match env r ws installer replace = Inl f"
  shows "failure_ok w installer env f"
  using assms
  by (auto simp: best_match_def bindR_eq_Inl failure_ok_def split: sum.splits failure.splits if_splits option.splits dest: ws_find_fails [of _ _ _ w installer env] dest!: first_in_fails)

lemma best_match_none:
  assumes "best_match env r ws installer replace = Inr None"
  shows "failure_ok w installer env (DistributionNotFound r ns)"
  using assms first_in_None
  by (auto simp: best_match_def bindR_eq_Inr failure_ok_def split: sum.splits failure.splits if_splits option.splits)

lemma extra_deps_fails: "extra_deps d dm es = Inl f \<Longrightarrow> \<exists>e. f = UnknownExtra d e \<and> dget dm (Some (safe_extra e)) = None"
  by (induction es) (auto simp: bindR_eq_Inl split: option.splits)

lemma requires_fails: "requires (w_interpreter w) d es = Inl f \<Longrightarrow> failure_ok w installer env f"
  by (auto simp: requires_def bindR_eq_Inl failure_ok_def dest!: lift_fails extra_deps_fails)

lemma choose_dist_fails:
  assumes "choose_dist w ws installer replace r s = Inl f" and "rs_env s = Some env"
  shows "failure_ok w installer env f"
proof -
  have "searched w ws r s = (env, ws)" using assms(2) by (simp add: searched_def)
  with assms(1) show ?thesis
    by (auto simp: choose_dist_def Let_def bindR_eq_Inl failure_ok_def [of w installer env "Raised e" for e] split: option.splits if_splits
      dest!: lift_fails intro: best_match_fails best_match_none)
qed


lemma resolve_step_fails:
  assumes "resolve_step w ws installer replace extras s = Inl f" and "rs_env s = Some env"
  shows "failure_ok w installer env f"
proof (cases "rs_requirements s")
  case Nil
  with assms(1) show ?thesis by (simp add: resolve_step_def)
next
  case (Cons r rs)
  have chosen: "failure_ok w installer env e" if "choose_dist w ws installer replace r (s \<lparr>rs_requirements := rs\<rparr>) = Inl e" for e
    by (rule choose_dist_fails [OF that]) (simp add: assms(2))
  have "failure_ok w installer env (Raised e)" "dist_in q d = Inr False \<Longrightarrow> failure_ok w installer env (VersionConflict d q ns)" for e d q ns
    by (simp_all add: failure_ok_def)
  with assms(1) show ?thesis
    by (auto simp: resolve_step_def Cons Let_def bindR_eq_Inl bindR_eq_Inr split: if_splits
      dest: chosen requires_fails [of _ _ _ _ installer env] dest!: lift_fails)
qed

lemma resolve_step_env:
  assumes "resolve_step w ws installer replace extras s = Inr s'" and "rs_requirements s \<noteq> []" and "rs_env s = Some env"
  shows "rs_env s' = Some env"
proof -
  from assms(2) obtain r rs where "rs_requirements s = r # rs" by (cases "rs_requirements s") auto
  from assms(1) this show ?thesis
  proof (cases rule: resolve_step_cases)
    case (2 d t qs)
    from 2(1) have "rs_env t = Some env"
      by (cases rule: choose_dist_cases) (use assms(3) in \<open>auto simp: searched_def\<close>)
    then show ?thesis by (simp add: 2(4))
  qed (simp add: assms(3))
qed

text \<open>
  C15: The errors of a resolution in an environment tell the truth: a distribution that is reported as conflicting does not
  meet the requirement; where none was found, no distribution of the environment meets the requirement and the
  installer has none; and an unknown extra is not among those of the distribution.
\<close>
theorem resolve_failures:
  assumes "resolve w ws rs (Some env) installer replace extras = Some (Inl f)"
  shows "case f of
      VersionConflict d r ns \<Rightarrow> dist_in r d = Inr False
    | DistributionNotFound r ns \<Rightarrow> obtain_dist installer r = None
        \<and> list_all (\<lambda>d. dist_in r d = Inr False) (env_getitem env (rq_key r))
    | UnknownExtra d e \<Rightarrow> \<exists>dm. get_dep_map (w_interpreter w) d = Inr dm \<and> dget dm (Some (safe_extra e)) = None
    | Raised e \<Rightarrow> True"
proof -
  have "rs_env (resolve_start rs (Some env)) = Some env" by (simp add: resolve_start_def)
  from resolve_loop_fails [where I = "\<lambda>s. rs_env s = Some env", OF assms [unfolded resolve_def] this refl]
  obtain s where "rs_env s = Some env" "resolve_step w ws installer replace extras s = Inl f"
    using resolve_step_env by blast
  from resolve_step_fails [OF this(2,1)] show ?thesis unfolding failure_ok_def .
qed

end
