(* ===== verification/PkgWorkingSetLaws.thy ===== *)
theory PkgWorkingSetLaws
  imports PkgWorkingSet
begin

text \<open>
  Laws of the working set: what is listed under an entry is active, so iterating never raises, and gives each project
  once.
\<close>

section \<open>The keys that are listed\<close>

definition ws_ok :: "working_set \<Rightarrow> bool" where
  "ws_ok ws \<longleftrightarrow> (\<forall>e ks k. dget (ws_entry_keys ws) e = Some ks \<longrightarrow> k \<in> set ks \<longrightarrow> dget (ws_by_key ws) k \<noteq> None)
     \<and> (\<forall>k d. dget (ws_by_key ws) k = Some d \<longrightarrow> d_key d = k)"

inductive ws_step :: "working_set \<Rightarrow> working_set \<Rightarrow> bool" where
  step_add: "ws_step ws (ws_add w d entry on_path replace ws)"
| step_entry: "ws_step ws (ws_add_entry w entry ws)"
| step_subscribe: "ws_subscribe c existing ws = Inr ws' \<Longrightarrow> ws_step ws ws'"
| step_require: "ws_require w ss ws = Some (Inr (ds, ws')) \<Longrightarrow> ws_step ws ws'"

lemma dget_setdefault: "dget (setdefault k [] d) e = Some ks \<Longrightarrow> ks = [] \<or> dget d e = Some ks"
  by (auto simp: setdefault_def split: option.splits if_splits)

lemma dget_add_key: "dget (add_key entry k d) e = Some ks \<Longrightarrow> x \<in> set ks \<Longrightarrow> x = k \<or> (\<exists>ls. dget d e = Some ls \<and> x \<in> set ls)"
  by (auto simp: add_key_def split: option.splits if_splits)

lemma ws_add_ok: "ws_ok ws \<Longrightarrow> ws_ok (ws_add w d entry on_path replace ws)"
proof -
  assume ok: "ws_ok ws"
  let ?loc = "d_location d" and ?e = "case entry of None \<Rightarrow> d_location d | Some e \<Rightarrow> e"
  let ?ek = "setdefault ?loc [] (setdefault ?e [] (ws_entry_keys ws))"
  have listed: "dget (ws_by_key ws) x \<noteq> None" if "dget ?ek e = Some ks" "x \<in> set ks" for e ks x
    using dget_setdefault [OF that(1)] dget_setdefault that(2) ok unfolding ws_ok_def by fastforce
  have new: "x = d_key d \<or> dget (ws_by_key ws) x \<noteq> None"
    if "dget (add_key ?loc (d_key d) (add_key ?e (d_key d) ?ek)) e = Some ks" "x \<in> set ks" for e ks x
    using dget_add_key [OF that] dget_add_key [of ?e "d_key d" ?ek e _ x] listed by blast
  let ?ws = "ws_add w d entry on_path replace ws"
  consider "ws_by_key ?ws = ws_by_key ws" "ws_entry_keys ?ws = ?ek"
    | "ws_by_key ?ws = dset (d_key d) d (ws_by_key ws)" "ws_entry_keys ?ws = add_key ?loc (d_key d) (add_key ?e (d_key d) ?ek)"
    by (cases "\<not> replace \<and> dget (ws_by_key ws) (d_key d) \<noteq> None"; cases on_path)
      (simp_all add: ws_add_def Let_def added_new_def del: not_None_eq)
  then show ?thesis
  proof cases
    case 1
    with ok listed show ?thesis unfolding ws_ok_def by metis
  next
    case 2
    from new have "dget (ws_by_key ?ws) x \<noteq> None" if "dget (ws_entry_keys ?ws) e = Some ks" "x \<in> set ks" for e ks x
      using that unfolding 2 by (metis dget_dset option.discI)
    with ok show ?thesis unfolding ws_ok_def 2(1) by simp
  qed
qed

lemma ws_adds_ok: "ws_ok ws \<Longrightarrow> ws_ok (fold (\<lambda>d. ws_add w d entry on_path replace) ds ws)"
  by (induction ds arbitrary: ws) (simp_all add: ws_add_ok)

lemma ws_ok_cong: "ws_by_key ws' = ws_by_key ws \<Longrightarrow> ws_entry_keys ws' = ws_entry_keys ws \<Longrightarrow> ws_ok ws' = ws_ok ws"
  by (simp add: ws_ok_def)

lemma ws_add_entry_ok: "ws_ok ws \<Longrightarrow> ws_ok (ws_add_entry w entry ws)"
  unfolding ws_add_entry_def
  by (intro ws_adds_ok) (auto simp: ws_ok_def dest!: dget_setdefault)

lemma ws_subscribe_ok: "ws_ok ws \<Longrightarrow> ws_subscribe c existing ws = Inr ws' \<Longrightarrow> ws_ok ws'"
  unfolding ws_subscribe_def Let_def
  by (cases "c \<in> set (ws_callbacks ws)"; cases existing) (auto simp: bindR_eq_Inr ws_ok_def simp del: dget_dset)

lemma ws_require_ok: "ws_ok ws \<Longrightarrow> ws_require w ss ws = Some (Inr (ds, ws')) \<Longrightarrow> ws_ok ws'"
proof -
  assume ok: "ws_ok ws" and r: "ws_require w ss ws = Some (Inr (ds, ws'))"
  from r obtain rs where "parse_requirements ss = Inr rs" by (cases "parse_requirements ss") (simp_all add: ws_require_def)
  with r have "map_option (\<lambda>x. bindR x (\<lambda>ds. Inr (ds, add_all w ds ws))) (resolve w ws rs None None False []) = Some (Inr (ds, ws'))"
    by (simp add: ws_require_def)
  then obtain x :: "failure + dist list" where "bindR x (\<lambda>ds. Inr (ds, add_all w ds ws)) = Inr (ds, ws')"
    unfolding map_option_eq_Some by blast
  then have "ws' = add_all w ds ws" by (cases x) simp_all
  with ok show "ws_ok ws'" by (simp add: add_all_def ws_adds_ok)
qed

definition no_ws :: "working_set \<Rightarrow> bool" where
  "no_ws ws \<longleftrightarrow> ws = no_distributions"

interpretation ws: invariant no_ws ws_step ws_ok
proof
  fix ws ws'
  show "ws_ok ws" if "no_ws ws" using that by (simp add: no_ws_def ws_ok_def no_distributions_def)
  show "ws_ok ws'" if "ws_ok ws" "ws_step ws ws'"
    using that(2,1)
  by cases (simp_all only: ws_add_ok ws_add_entry_ok, (erule (1) ws_subscribe_ok ws_require_ok)+)
qed

section \<open>Iterating\<close>

lemma iter_keys_total:
  assumes "\<forall>k\<in>set ks. dget (ws_by_key ws) k \<noteq> None" and "\<forall>k d. dget (ws_by_key ws) k = Some d \<longrightarrow> d_key d = k"
  shows "\<exists>ds. iter_keys ws seen ks = Inr ds \<and> distinct (map d_key ds) \<and> d_key ` set ds = set ks - set seen
    \<and> (\<forall>d\<in>set ds. dget (ws_by_key ws) (d_key d) = Some d)"
  using assms(1)
proof (induction ks arbitrary: seen)
  case (Cons k ks)
  show ?case
  proof (cases "k \<in> set seen")
    case True
    with Cons show ?thesis by (auto simp: insert_Diff_if)
  next
    case False
    from Cons.prems obtain d where d: "dget (ws_by_key ws) k = Some d" by auto
    with assms(2) have k: "d_key d = k" by blast
    from Cons.IH [of "k # seen"] Cons.prems obtain ds where ds: "iter_keys ws (k # seen) ks = Inr ds"
      "distinct (map d_key ds)" "d_key ` set ds = set ks - set (k # seen)" "\<forall>d\<in>set ds. dget (ws_by_key ws) (d_key d) = Some d"
      by auto
    with False d k show ?thesis by (auto simp: dget_or_def)
  qed
qed simp

text \<open>
  C18: A working set can be iterated, whatever was added to it, found on new entries, required or subscribed: no key is
  missing, and what comes is one distribution for each project that is listed under an entry of the path, the active one.
\<close>
theorem working_set_iterates:
  assumes "reach no_ws ws_step ws"
  shows "\<exists>ds. ws_iter ws = Inr ds \<and> distinct (map d_key ds) \<and> set (map d_key ds) = set (listed_keys ws)
    \<and> list_all (\<lambda>d. dget (ws_by_key ws) (d_key d) = Some d \<and> ws_contains ws d = dist_eq d d) ds"
proof -
  have ok: "ws_ok ws" by (rule ws.reach_inv [OF assms])
  have "\<forall>k\<in>set (listed_keys ws). dget (ws_by_key ws) k \<noteq> None"
    using ok unfolding ws_ok_def listed_keys_def by (auto split: option.splits) (metis option.discI)
  with ok iter_keys_total [of "listed_keys ws" ws "[]"] show ?thesis
    by (auto simp: ws_iter_def ws_ok_def list_all_iff ws_contains_def)
qed

end
