(* ===== verification/PkgRequirementsLaws.thy ===== *)
theory PkgRequirementsLaws
  imports PkgRequirements PkgMarkersLaws
begin

text \<open>
  Laws of requirements: a requirement prints as a text that reads back, parsing raises \<open>ValueError\<close> only, and what the
  helpers for lines and names give.
\<close>

section \<open>Words and brackets\<close>

lemma alnum_not_white: "alnum c \<Longrightarrow> \<not> is_white c"
proof -
  have "is_white c \<Longrightarrow> strip_ws c" by (auto simp: is_white_def strip_ws_def)
  then show "alnum c \<Longrightarrow> \<not> is_white c" using no_space(2) by (auto simp: Alnum_def)
qed

definition id_chr :: "char \<Rightarrow> bool" where
  "id_chr c \<longleftrightarrow> alnum c \<or> c \<in> set ''-_.''"

definition is_identifier :: "string \<Rightarrow> bool" where
  "is_identifier n \<longleftrightarrow> n \<noteq> [] \<and> alnum (hd n) \<and> alnum (last n) \<and> list_all id_chr n"

lemma mute_char:
  "\<not> is_white c \<Longrightarrow> mute [c] (c # s) = Some ([], s)"
  "\<not> is_white d \<Longrightarrow> d \<noteq> c \<Longrightarrow> mute [c] (d # s) = None"
  "mute [c] [] = None"
  by (simp_all add: mute_def suppress_def with_action_def skipping_def literal_impl_def)

lemma word_take: "list_all P u \<Longrightarrow> u \<noteq> [] \<Longrightarrow> stops P r \<Longrightarrow> word_impl P (u @ r) = Some ([u], r)"
  using span_unique [of u P r] by (simp add: word_impl_def list_all_iff stops_def)

lemma word_stop: "stops P r \<Longrightarrow> word_impl P r = None"
  by (cases r) (simp_all add: word_impl_def stops_def)

lemma punct_not_alnum: "c \<in> set ''-_.'' \<Longrightarrow> \<not> alnum c"
  using alnum_not_sep by blast

lemma identifier_end_stop: "stops id_chr r \<Longrightarrow> IDENTIFIER_END r = None"
proof -
  assume "stops id_chr r"
  then have s: "stops alnum r" "stops (\<lambda>c. c \<in> set ''-_.'') r" by (cases r; simp add: id_chr_def)+
  then have "zero_or_more PUNCTUATION r = Some ([], r)" by (intro zero_or_more_stop) (simp add: PUNCTUATION_def word_stop)
  with s show ?thesis by (simp add: IDENTIFIER_END_def ALPHANUM_def word_stop)
qed

text \<open>One round of the identifier: letters and digits, with the punctuation before them.\<close>

lemma identifier_end_step:
  assumes "t \<noteq> []" and "list_all id_chr t" and "alnum (last t)" and "stops id_chr r"
  shows "\<exists>ws v. IDENTIFIER_END (t @ r) = Some (ws, v @ r) \<and> t = concat ws @ v \<and> length v < length t"
proof -
  let ?p = "\<lambda>c. c \<in> set ''-_.''"
  define u v where uv: "u = takeWhile ?p t" "v = dropWhile ?p t"
  then have t: "t = u @ v" by simp
  have u: "list_all ?p u" unfolding uv by (auto simp: list_all_iff dest: set_takeWhileD)
  have v: "v \<noteq> []"
  proof
    assume "v = []"
    with t u assms(1) have "?p (last t)" by (auto simp: list_all_iff)
    with assms(3) punct_not_alnum show False by blast
  qed
  then have "\<not> ?p (hd v)" unfolding uv using hd_dropWhile by blast
  with assms(2) v t have hd: "alnum (hd v)" "stops ?p (v @ r)" by (auto simp: list_all_iff id_chr_def stops_def)
  define x y where xy: "x = takeWhile alnum v" "y = dropWhile alnum v"
  then have vxy: "v = x @ y" by simp
  have x: "list_all alnum x" "x \<noteq> []" using hd(1) v by (auto simp: xy list_all_iff takeWhile_eq_Nil_iff dest: set_takeWhileD)
  have "stops alnum (y @ r)"
  proof (cases y)
    case Nil
    with assms(4) show ?thesis by (cases r) (simp_all add: id_chr_def)
  next
    case (Cons c y')
    then have "\<not> alnum c" unfolding xy by (metis hd_dropWhile list.sel(1) list.distinct(1))
    with Cons show ?thesis by simp
  qed
  then have a: "ALPHANUM (v @ r) = Some ([x], y @ r)" using x by (simp add: ALPHANUM_def vxy word_take)
  show ?thesis
  proof (cases "u = []")
    case True
    with a t vxy x show ?thesis by (intro exI [of _ "[x]"] exI [of _ y]) (simp add: IDENTIFIER_END_def)
  next
    case False
    have "\<not> alnum (hd (t @ r))" using False t u punct_not_alnum by (cases u) auto
    then have "ALPHANUM (t @ r) = None" by (simp add: ALPHANUM_def word_stop stops_def)
    moreover have "PUNCTUATION (u @ v @ r) = Some ([u], v @ r)" "PUNCTUATION (v @ r) = None"
      using u False hd(2) by (simp_all add: PUNCTUATION_def word_take word_stop)
    then have "zero_or_more PUNCTUATION (t @ r) = Some ([u], v @ r)"
      using zero_or_more_step [of PUNCTUATION "u @ v @ r" "[u]" "v @ r" "[]" "v @ r"] zero_or_more_stop [of PUNCTUATION "v @ r"] False
      by (simp add: t)
    ultimately show ?thesis using a t vxy x
      by (intro exI [of _ "[u, x]"] exI [of _ y]) (simp add: IDENTIFIER_END_def)
  qed
qed

lemma identifier_ends:
  "list_all id_chr t \<Longrightarrow> t = [] \<or> alnum (last t) \<Longrightarrow> stops id_chr r
    \<Longrightarrow> \<exists>ws. zero_or_more IDENTIFIER_END (t @ r) = Some (ws, r) \<and> concat ws = t"
proof (induction t rule: measure_induct_rule [of length])
  case (less t)
  show ?case
  proof (cases "t = []")
    case True
    with identifier_end_stop [OF less.prems(3)] show ?thesis by (simp add: zero_or_more_stop)
  next
    case False
    with less.prems identifier_end_step [of t r] obtain ws v where
      w: "IDENTIFIER_END (t @ r) = Some (ws, v @ r)" "t = concat ws @ v" "length v < length t" by blast
    from less.prems w(2) have "list_all id_chr v" "v = [] \<or> alnum (last v)" by (auto simp: last_append split: if_splits)
    from less.IH [OF w(3) this less.prems(3)] obtain us where "zero_or_more IDENTIFIER_END (v @ r) = Some (us, r)" "concat us = v" by blast
    with w zero_or_more_step [of IDENTIFIER_END "t @ r" ws "v @ r" us r] show ?thesis by auto
  qed
qed

lemma join_nothing: "join_with [] ws = concat ws"
  by (induction "[] :: string" ws rule: join_with.induct) auto

lemma identifier_parse: "is_identifier n \<Longrightarrow> stops id_chr r \<Longrightarrow> IDENTIFIER (n @ r) = Some ([n], r)"
proof -
  assume n: "is_identifier n" and r: "stops id_chr r"
  define x y where xy: "x = takeWhile alnum n" "y = dropWhile alnum n"
  then have t: "n = x @ y" by simp
  have x: "list_all alnum x" "x \<noteq> []" using n by (auto simp: xy is_identifier_def list_all_iff takeWhile_eq_Nil_iff dest: set_takeWhileD)
  have "stops alnum (y @ r)"
  proof (cases y)
    case Nil
    with r show ?thesis by (cases r) (simp_all add: id_chr_def)
  next
    case (Cons c y')
    then have "\<not> alnum c" unfolding xy by (metis hd_dropWhile list.sel(1) list.distinct(1))
    with Cons show ?thesis by simp
  qed
  with x have 1: "ALPHANUM (n @ r) = Some ([x], y @ r)" by (simp add: t ALPHANUM_def word_take)
  have "list_all id_chr y" "y = [] \<or> alnum (last y)" using n t by (auto simp: is_identifier_def last_append split: if_splits)
  from identifier_ends [OF this r] obtain ws where "zero_or_more IDENTIFIER_END (y @ r) = Some (ws, r)" "concat ws = y" by blast
  moreover have "pre_parse (n @ r) = n @ r" using n alnum_not_white by (cases n) (auto simp: is_identifier_def)
  ultimately show ?thesis using 1 by (simp add: IDENTIFIER_def skipping_def combine_def with_action_def join_nothing t)
qed

section \<open>Extras\<close>

lemma extra_parse: "is_identifier e \<Longrightarrow> stops id_chr r \<Longrightarrow> EXTRA (e @ r) = Some ([TExtra e], r)"
  by (simp add: EXTRA_def with_action_def identifier_parse)

lemma extras_more:
  "\<forall>e\<in>set es. is_identifier e \<Longrightarrow>
    zero_or_more (and_parse [mute '','', EXTRA]) (sep_parts CHR '','' es @ CHR '']'' # r) = Some (map TExtra es, CHR '']'' # r)"
proof (induction es)
  case Nil
  then show ?case by (simp add: zero_or_more_stop mute_char is_white_def)
next
  case (Cons e es)
  have "stops id_chr (sep_parts CHR '','' es @ CHR '']'' # r)" by (cases es) (simp_all add: id_chr_def alnum_def is_digit_def lower_char_def)
  with Cons have "and_parse [mute '','', EXTRA] (sep_parts CHR '','' (e # es) @ CHR '']'' # r)
      = Some ([TExtra e], sep_parts CHR '','' es @ CHR '']'' # r)"
    by (simp add: mute_char is_white_def extra_parse)
  from zero_or_more_step [OF this _ Cons.IH] Cons.prems show ?case by simp
qed

lemma extras_parse:
  assumes "\<forall>e\<in>set es. is_identifier e" and "es \<noteq> []"
  shows "EXTRAS (''['' @ join_with '','' es @ '']'' @ r) = Some (map TExtra es, r)"
proof -
  from assms(2) obtain e fs where es: "es = e # fs" by (cases es) auto
  have "stops id_chr (sep_parts CHR '','' fs @ CHR '']'' # r)" by (cases fs) (simp_all add: id_chr_def alnum_def is_digit_def lower_char_def)
  then have "EXTRAS_LIST (join_with '','' es @ CHR '']'' # r) = Some (map TExtra es, CHR '']'' # r)"
    using assms(1) extras_more [of fs r] by (simp add: EXTRAS_LIST_def es join_sep_parts extra_parse)
  then show ?thesis by (simp add: EXTRAS_def optional_def mute_char is_white_def)
qed

section \<open>Specifiers in a requirement\<close>

definition body_chr :: "char \<Rightarrow> bool" where
  "body_chr c \<longleftrightarrow> visible_chr c \<and> c \<notin> set '',;)''"

lemma alnum_body: "alnum c \<Longrightarrow> body_chr c"
proof -
  assume c: "alnum c"
  have "\<not> alnum d" if "d \<in> set ''=,;)''" for d using that by (auto simp: alnum_def is_digit_def lower_char_def)
  with c have "c \<notin> set ''=,;)''" by blast
  with c no_space(2) show "body_chr c" by (auto simp: body_chr_def visible_chr_def Alnum_def)
qed

lemma body_lower: "body_chr (lower_char x) \<Longrightarrow> body_chr x"
  using visible_lower [of x] by (auto simp: body_chr_def lower_char_def Let_def)

lemma body_parts:
  "all_chr body_chr Digit" "all_chr body_chr Alnum" "all_chr body_chr (cls ''-_.'')" "all_chr body_chr dash"
  "list_all body_chr w \<Longrightarrow> all_chr body_chr (lit w)"
proof -
  show "all_chr body_chr Digit" by (simp add: Digit_def alnum_body alnum_def)
  show "all_chr body_chr Alnum" by (simp add: Alnum_def alnum_body)
  show "all_chr body_chr (cls ''-_.'')" by (auto simp: cls_def body_chr_def visible_chr_def strip_ws_def)
  then show "all_chr body_chr dash" by (simp add: dash_def Opt_def)
  show "list_all body_chr w \<Longrightarrow> all_chr body_chr (lit w)"
    by (induction w rule: lit.induct) (auto simp: lit.simps dest: body_lower)
qed

lemma body_bodies: "x \<in> bodies op \<Longrightarrow> op \<noteq> ''==='' \<Longrightarrow> list_all body_chr x"
proof -
  note forms = release_body_def spec_pre_def spec_post_def spec_dev_def spec_local_def Opt_def Plus_def
  have "body_chr (CHR ''!'')" "body_chr (CHR ''.'')" "body_chr (CHR ''*'')" "body_chr (CHR ''+'')" "body_chr (CHR ''-'')"
    by (simp_all add: body_chr_def visible_chr_def strip_ws_def)
  then have "all_chr body_chr equal_body" "all_chr body_chr compatible_body" "all_chr body_chr ordered_body"
    by (simp_all add: equal_body_def compatible_body_def ordered_body_def forms body_parts alnum_body alnum_def lower_char_def is_digit_def)
  then show "x \<in> bodies op \<Longrightarrow> op \<noteq> ''==='' \<Longrightarrow> list_all body_chr x"
    by (auto simp: bodies_def dest: lang_all_chr split: if_splits)
qed

lemma bodies_not_Nil: "x \<in> bodies op \<Longrightarrow> op \<noteq> ''==='' \<Longrightarrow> x \<noteq> []"
proof -
  have "[] \<notin> lang (release_body f)" for f
    by (simp add: release_body_def lang_Plus_Digit isdigit_def)
  then have "[] \<notin> lang equal_body" "[] \<notin> lang compatible_body" "[] \<notin> lang ordered_body"
    by (simp_all add: equal_body_def compatible_body_def ordered_body_def)
  then show "x \<in> bodies op \<Longrightarrow> op \<noteq> ''==='' \<Longrightarrow> x \<noteq> []" by (auto simp: bodies_def split: if_splits)
qed

definition common_ops :: "string list" where
  "common_ops = [''=='', ''!='', ''<='', ''>='', ''<'', ''>'']"

text \<open>What the unanchored pattern can take: an operator, white space and a body.\<close>

lemma specifier_regex_rel:
  assumes "re_at specifier_regex_str s = Some ys"
  shows "\<exists>op v x. s = op @ v @ x @ ys \<and> op \<in> set pep_operators \<and> list_all strip_ws v \<and> x \<in> bodies op"
proof -
  from rx_match_sound [OF assms [unfolded re_at_def]] obtain b c where "rx_rel specifier_regex_str ([], s, []) (b, ys, c)" by auto
  then obtain b2 x2 c2 where
    2: "rx_rel (Group ''operator'' (alts [lit ''~='', lit ''=='', lit ''!='', lit ''<='', lit ''>='', lit ''<'', lit ''>'', lit ''==='']))
      ([], s, []) (b2, x2, c2)"
    and 3: "rx_rel (Group ''version'' (alts [
       Seq (Behind [''==='']) identity_text,
       Seq (Behind [''=='', ''!='']) equal_text,
       Seq (Behind [''~='']) compatible_text,
       Seq (NotBehind [''=='', ''!='', ''~='']) ordered_text])) (b2, x2, c2) (b, ys, c)"
    unfolding specifier_regex_str_def seqs.simps rx_rel.simps(3) by (metis prod.exhaust)
  from group_rel [OF _ 2] obtain op where op: "op \<in> set pep_operators" "b2 = rev op" "s = op @ x2"
    using operator_lang by (auto simp only: plain_lit alts.simps plain.simps append_Nil2)
  have sp: "list_all strip_ws []" by simp
  from 3 have "rx_rel (Group ''version'' (alts [
       Seq (Behind [''==='']) identity_text,
       Seq (Behind [''=='', ''!='']) equal_text,
       Seq (Behind [''~='']) compatible_text,
       Seq (NotBehind [''=='', ''!='', ''~='']) ordered_text])) (rev op @ rev [], x2, c2) (b, ys, c)"
    by (simp only: op(2) rev.simps(1) append_Nil2)
  from version_rel_text [OF op(1) sp this] obtain u where "u \<in> spaced (bodies op)" "x2 = u @ ys" by blast
  with op show ?thesis by (auto simp: spaced_def)
qed

lemma specifier_regex_stays:
  assumes "re_at specifier_regex_str (op @ x @ r) = Some ys" and "op \<in> set common_ops" and "x \<in> bodies op"
    and "stops (\<lambda>c. c \<notin> set '',;'') r"
  shows "length r \<le> length ys"
proof (rule ccontr)
  assume less: "\<not> length r \<le> length ys"
  from specifier_regex_rel [OF assms(1)] obtain op' v x' where
    s: "op @ x @ r = op' @ v @ x' @ ys" "op' \<in> set pep_operators" "list_all strip_ws v" "x' \<in> bodies op'" by blast
  have ne: "op \<noteq> ''===''" using assms(2) by (auto simp: common_ops_def)
  from bodies_not_Nil [OF assms(3) ne] obtain c x1 where x: "x = c # x1" by (cases x) auto
  with body_bodies [OF assms(3) ne] have "c \<noteq> CHR ''=''" by (simp add: body_chr_def visible_chr_def)
  then have "op' \<noteq> ''===''" using s(1) assms(2) unfolding x common_ops_def list.set insert_iff empty_iff
    by (elim disjE FalseE) auto
  then have "list_all (\<lambda>c. c \<notin> set '',;'') x'" using body_bodies [OF s(4)] by (simp add: body_chr_def list_all_iff)
  moreover have "list_all (\<lambda>c. c \<notin> set '',;'') op'" using s(2) unfolding pep_operators_def list.set insert_iff empty_iff
    by (elim disjE FalseE) simp_all
  moreover have "\<not> strip_ws c" if "c \<in> set '',;''" for c using that by (auto simp: strip_ws_def)
  then have "list_all (\<lambda>c. c \<notin> set '',;'') v" using s(3) unfolding list_all_iff by blast
  ultimately have ok: "\<forall>c\<in>set (op' @ v @ x'). c \<notin> set '',;''" unfolding list_all_iff set_append by blast
  from less obtain d r' where r: "r = d # r'" by (cases r) auto
  with assms(4) have d: "d \<in> set '',;''" by simp
  from s(1) have "(op' @ v @ x') @ ys = (op @ x) @ r" by simp
  then consider us where "op' @ v @ x' = (op @ x) @ us" "us @ ys = r" | us where "ys = us @ r"
    unfolding append_eq_append_conv2 by blast
  then show False
  proof cases
    case 1
    with less r have "d \<in> set us" by (cases us) auto
    with 1(1) have "d \<in> set (op' @ v @ x')" by simp
    with ok d show False by blast
  qed (use less in simp)
qed

lemma legacy_operator_take:
  assumes "op \<in> set common_ops" and "lower_char c \<noteq> CHR ''=''" and "k (rev op @ b, c # s, g) = Some y"
  shows "rx_match (alts [lit ''=='', lit ''!='', lit ''<='', lit ''>='', lit ''<'', lit ''>'']) k (b, op @ c # s, g) = Some y"
  using assms by (auto simp: common_ops_def lit.simps lower_char_def)

lemma lower_equals: "lower_char z = CHR ''='' \<Longrightarrow> z = CHR ''=''"
proof (rule ccontr)
  assume z: "lower_char z = CHR ''=''" "z \<noteq> CHR ''=''"
  then have "lower_char z \<noteq> z" by auto
  then have "97 \<le> (of_char (lower_char z) :: nat)" by (auto simp: lower_char_def Let_def)
  with z(1) show False by simp
qed

lemma legacy_takes:
  assumes "op \<in> set common_ops" and "x \<in> bodies op" and "stops (\<lambda>c. c \<notin> set '',;'') r"
  shows "re_at legacy_regex_str (op @ x @ r) = Some r"
proof -
  let ?Q = "\<lambda>x. x \<noteq> CHR '','' \<and> x \<noteq> CHR '';'' \<and> \<not> strip_ws x \<and> x \<noteq> CHR '')''"
  have ne: "op \<noteq> ''===''" using assms(1) by (auto simp: common_ops_def)
  note body = body_bodies [OF assms(2) ne]
  from bodies_not_Nil [OF assms(2) ne] obtain c x1 where x: "x = c # x1" by (cases x) auto
  with body have c: "body_chr c" by simp
  then have "lower_char c \<noteq> CHR ''=''" using lower_equals by (auto simp: body_chr_def visible_chr_def)
  note op = legacy_operator_take [OF assms(1) this]
  have q: "list_all ?Q x" "stops ?Q r"
    using body assms(3) by (auto simp: body_chr_def visible_chr_def list_all_iff stops_def)
  have v: "rx_match (Star (Chr ?Q)) k (b, x @ r, g) = Some y" if "k (rev x @ b, r, g) = Some y" for k b g y
    by (rule star_chr_take [where us = x and ys = r]) (use q that in simp_all)
  have "stops strip_ws (x @ r)" using c by (simp add: x body_chr_def visible_chr_def)
  then have w: "rx_match (Star Space) k (b, x @ r, g) = k (b, x @ r, g)" for k b g
    unfolding Space_def by (rule star_chr_stop)
  have "rx_match (Group ''version'' (Star (Chr ?Q))) (\<lambda>(b, ys, c). Some ys) (b, x @ r, g) = Some r" for b g
    unfolding rx_match.simps(6) by (rule v) simp
  then have "rx_match (Group ''operator'' (alts [lit ''=='', lit ''!='', lit ''<='', lit ''>='', lit ''<'', lit ''>'']))
      (rx_match (Star Space) (rx_match (Group ''version'' (Star (Chr ?Q))) (\<lambda>(b, ys, c). Some ys))) ([], op @ x @ r, []) = Some r"
    unfolding rx_match.simps(6) x append_Cons
    by (intro op) (simp add: w [unfolded x append_Cons] del: rx_match.simps)
  then show ?thesis by (simp only: re_at_def legacy_regex_str_def seqs.simps rx_match.simps(3) rx_match_Seq)
qed

lemma version_one_parse:
  assumes "op \<in> set common_ops" and "x \<in> bodies op" and "stops (\<lambda>c. c \<notin> set '',;'') r"
  shows "VERSION_ONE (op @ x @ r) = Some ([op @ x], r)"
proof -
  let ?s = "op @ x @ r"
  have pre: "pre_parse ?s = ?s" using assms(1) by (auto simp: common_ops_def is_white_def)
  have legacy: "skipping (regex_impl legacy_regex_str) ?s = Some ([op @ x], r)"
    using legacy_takes [OF assms] by (simp add: skipping_def pre regex_impl_def)
  show ?thesis
  proof (cases "re_at specifier_regex_str ?s")
    case None
    then show ?thesis using legacy by (simp add: VERSION_ONE_def skipping_def pre regex_impl_def)
  next
    case (Some ys)
    have le: "length r \<le> length ys" by (rule specifier_regex_stays [OF Some assms])
    have "ys = r" if "length ys = length r"
    proof -
      from specifier_regex_rel [OF Some] obtain u where "(op @ x) @ r = u @ ys" by (metis append.assoc)
      with that show ?thesis by (metis append_eq_append_conv)
    qed
    moreover have "skipping (regex_impl specifier_regex_str) ?s = Some ([eaten ?s ys], ys)"
      by (simp add: skipping_def pre regex_impl_def Some)
    ultimately show ?thesis using legacy le by (cases "length ys = length r") (simp_all add: VERSION_ONE_def)
  qed
qed

lemma version_one_stop: "r = [] \<or> hd r \<in> set '',;@'' \<Longrightarrow> VERSION_ONE r = None"
proof -
  assume r: "r = [] \<or> hd r \<in> set '',;@''"
  have "re_at specifier_regex_str r = None \<and> re_at legacy_regex_str r = None"
    using r by (cases r) (auto simp: re_at_def specifier_regex_str_def legacy_regex_str_def lit.simps lower_char_def)
  moreover have "pre_parse r = r" using r by (cases r) (auto simp: is_white_def)
  ultimately show ?thesis by (simp add: VERSION_ONE_def skipping_def regex_impl_def)
qed

text \<open>The texts of a list of specifiers.\<close>

definition common_text :: "string \<Rightarrow> bool" where
  "common_text w \<longleftrightarrow> (\<exists>op x. w = op @ x \<and> op \<in> set common_ops \<and> x \<in> bodies op)"

definition after_spec :: "string \<Rightarrow> bool" where
  "after_spec r \<longleftrightarrow> r = [] \<or> hd r = CHR '';''"

lemma common_text_parse: "common_text w \<Longrightarrow> stops (\<lambda>c. c \<notin> set '',;'') r \<Longrightarrow> VERSION_ONE (w @ r) = Some ([w], r)"
  using version_one_parse by (auto simp: common_text_def)

lemma version_more:
  "\<forall>w\<in>set ws. common_text w \<Longrightarrow> after_spec r
    \<Longrightarrow> zero_or_more (and_parse [mute '','', VERSION_ONE]) (sep_parts CHR '','' ws @ r) = Some (ws, r)"
proof (induction ws)
  case Nil
  then have "mute '','' r = (None :: (string list \<times> string) option)"
    by (cases r) (auto simp: after_spec_def mute_char is_white_def)
  then show ?case by (simp add: zero_or_more_stop)
next
  case (Cons w ws)
  have "stops (\<lambda>c. c \<notin> set '',;'') (sep_parts CHR '','' ws @ r)"
    using Cons.prems(2) by (cases ws; cases r) (auto simp: after_spec_def)
  with Cons.prems(1) have "and_parse [mute '','', VERSION_ONE] (sep_parts CHR '','' (w # ws) @ r)
      = Some ([w], sep_parts CHR '','' ws @ r)"
    by (simp add: mute_char is_white_def common_text_parse)
  from zero_or_more_step [OF this _ Cons.IH] Cons.prems show ?case by simp
qed

lemma version_spec_parse:
  assumes "\<forall>w\<in>set ws. common_text w" and "after_spec r"
  shows "VERSION_SPEC (join_with '','' ws @ r) = Some ([TSpec (join_with '','' ws)], r)"
proof (cases ws)
  case Nil
  have "VERSION_ONE r = None" using assms(2) by (intro version_one_stop) (auto simp: after_spec_def)
  moreover have "mute ''('' r = (None :: (string list \<times> string) option)" "pre_parse r = r"
    using assms(2) by (cases r; auto simp: after_spec_def mute_char is_white_def)+
  ultimately show ?thesis
    by (simp add: VERSION_SPEC_def Nil with_action_def skipping_def string_start_def optional_def VERSION_MANY_def combine_def)
next
  case (Cons w vs)
  let ?s = "join_with '','' ws @ r"
  have "stops (\<lambda>c. c \<notin> set '',;'') (sep_parts CHR '','' vs @ r)"
    using assms(2) by (cases vs; cases r) (auto simp: after_spec_def)
  with assms version_more [of vs r] have m: "VERSION_MANY ?s = Some ([join_with '','' ws], r)"
    by (simp add: VERSION_MANY_def combine_def with_action_def Cons join_sep_parts common_text_parse)
  from assms(1) obtain c cs where w: "w = c # cs" "c \<in> set ''=!<>''"
    by (auto simp: Cons common_text_def common_ops_def)
  then have s: "?s = c # cs @ sep_parts CHR '','' vs @ r" by (simp add: Cons join_sep_parts)
  have "mute ''('' ?s = (None :: (string list \<times> string) option)" "pre_parse ?s = ?s"
    unfolding s using w(2) by (auto simp: mute_char is_white_def)
  with m show ?thesis by (simp add: VERSION_SPEC_def with_action_def skipping_def string_start_def optional_def)
qed

section \<open>Whole requirements\<close>

lemma lenient_marker_expr: "lenient (MARKER_EXPR n)"
proof (cases n)
  case (Suc k)
  then show ?thesis using lenient_and [OF lenient_elements(9)] by (simp add: lenient_def)
qed (simp add: lenient_def)

lemma reads_list_parse:
  assumes "reads_list ms t" and "length t < n"
  shows "MARKER_EXPR n (pre_parse t) = Some (ms, [])" and "new_marker (pre_parse t) = Inr ms"
proof -
  have "MARKER_EXPR n (t @ []) = Some (ms, [])" if "length t < n" for n
    using assms(1) that paren_parse(4) unfolding reads_list_def by (metis less_imp_le)
  then have e: "MARKER_EXPR n (pre_parse t) = Some (ms, [])" if "length t < n" for n
    using lenient_marker_expr that by (simp add: lenient_def)
  then show "MARKER_EXPR n (pre_parse t) = Some (ms, [])" using assms(2) .
  let ?t = "pre_parse t"
  have "CHR 0x09 \<notin> set t" using assms(1) by (simp add: reads_list_def)
  then have "CHR 0x09 \<notin> set ?t" by (auto simp: pre_parse_def dest: set_dropWhileD)
  then have tab: "expandtabs 0 ?t = ?t" by simp
  have "length ?t < Suc (length t)" by (simp add: less_Suc_eq_le)
  then have "MARKER_EXPR (Suc (length ?t)) ?t = Some (ms, [])"
    using marker_expr_same [of ?t "Suc (length ?t)" "Suc (length t)"] e [of "Suc (length t)"] by simp
  then show "new_marker ?t = Inr ms"
    by (simp add: new_marker_def tab parse_string_def MARKER_def skipping_def string_start_def string_end_def del: MARKER_EXPR.simps)
qed

lemma marker_part:
  assumes "reads_list ms t" and "length t < n"
  shows "SEPARATED_MARKER n (''; '' @ t) = Some ([TMarker (pre_parse t)], [])"
  using reads_list_parse(1) [OF assms]
  by (simp add: SEPARATED_MARKER_def mute_char original_text_def with_action_def white_simps(1) is_white_def eaten_def
      del: MARKER_EXPR.simps)

lemma marker_part_none: "mute '';'' r = (None :: (rtok list \<times> string) option) \<Longrightarrow> SEPARATED_MARKER n r = None"
  by (simp add: SEPARATED_MARKER_def)

text \<open>The marker part of a printed requirement, and what is read of it.\<close>

definition marker_text :: "mark list option \<Rightarrow> string \<Rightarrow> bool" where
  "marker_text m t \<longleftrightarrow> (case m of None \<Rightarrow> t = [] | Some ms \<Rightarrow> \<exists>w. t = ''; '' @ w \<and> reads_list ms w)"

lemma marker_text_parse:
  assumes "marker_text m t" and "length t < n"
  shows "\<exists>ts. optional (SEPARATED_MARKER n) t = Some (ts, [])
    \<and> (case m of None \<Rightarrow> ts = [] | Some ms \<Rightarrow> \<exists>w. ts = [TMarker w] \<and> new_marker w = Inr ms)"
proof (cases m)
  case None
  then have "t = []" using assms(1) by (simp add: marker_text_def)
  moreover have "SEPARATED_MARKER n [] = None" by (simp add: SEPARATED_MARKER_def mute_char)
  ultimately show ?thesis using None by (simp add: optional_def)
next
  case (Some ms)
  then obtain w where w: "t = ''; '' @ w" "reads_list ms w" using assms(1) by (auto simp: marker_text_def)
  with assms(2) have "length w < n" by simp
  with marker_part [OF w(2) this] reads_list_parse(2) [OF w(2) this] Some w(1) show ?thesis
    by (simp add: optional_def)
qed

text \<open>Requirements whose text can be read: names and extras that are identifiers, common operators, printable markers.\<close>

definition spec_id :: "specifier \<Rightarrow> bool \<times> string \<times> string" where
  "spec_id sp = (sp_legacy sp, canonical_spec sp)"

definition writable :: "base_requirement \<Rightarrow> bool" where
  "writable b \<longleftrightarrow> is_identifier (rq_name b) \<and> list_all is_identifier (rq_extras b) \<and> distinct (rq_extras b)
     \<and> list_all (\<lambda>sp. \<not> sp_legacy sp \<and> sp_prereleases sp = None \<and> common_text (spec_str sp)
         \<and> new_specifier (spec_str sp) None = Inr sp) (ss_specs (rq_specifier b))
     \<and> distinct (map spec_id (ss_specs (rq_specifier b))) \<and> ss_prereleases (rq_specifier b) = None
     \<and> (case rq_marker b of None \<Rightarrow> True | Some ms \<Rightarrow> printable ms \<and> (\<forall>ns. ms \<noteq> [Nested ns]))
     \<and> (case rq_url b of None \<Rightarrow> True | Some u \<Rightarrow> ss_specs (rq_specifier b) = [] \<and> check_url u = Inr () \<and> u \<noteq> []
         \<and> list_all (\<lambda>c. \<not> is_white c) u)"

definition extras_text :: "string list \<Rightarrow> string" where
  "extras_text es = (if es = [] then [] else ''['' @ join_with '','' es @ '']'')"

lemma id_chr_not [simp]:
  "\<not> id_chr (CHR ''['')" "\<not> id_chr (CHR '';'')" "\<not> id_chr (CHR ''@'')" "\<not> id_chr (CHR ''='')" "\<not> id_chr (CHR ''!'')"
  "\<not> id_chr (CHR ''<'')" "\<not> id_chr (CHR ''>'')"
  by (simp_all add: id_chr_def alnum_def is_digit_def lower_char_def)

lemma name_parse: "is_identifier n \<Longrightarrow> stops id_chr r \<Longrightarrow> NAME (n @ r) = Some ([TName n], r)"
  by (simp add: NAME_def with_action_def identifier_parse)

lemma optional_extras_parse:
  assumes "\<forall>e\<in>set es. is_identifier e" and "r = [] \<or> hd r \<in> set ''@;=!<>''"
  shows "optional EXTRAS (extras_text es @ r) = Some (map TExtra es, r)"
proof (cases "es = []")
  case True
  have "EXTRAS r = None" using assms(2) by (cases r) (auto simp: EXTRAS_def mute_char is_white_def)
  with True show ?thesis by (simp add: optional_def extras_text_def)
next
  case False
  with extras_parse [OF assms(1) this, of r] show ?thesis by (simp add: optional_def extras_text_def)
qed

text \<open>The head of a part, and what may stand before it.\<close>

lemma part_heads:
  assumes "r = [] \<or> hd r \<in> set ''@;=!<>''"
  shows "stops id_chr (extras_text es @ r)"
  using assms by (cases r) (auto simp: extras_text_def)

lemma named_parse:
  assumes "is_identifier n" and "\<forall>e\<in>set es. is_identifier e" and "r = [] \<or> hd r \<in> set ''@;=!<>''"
    and "match_first [and_parse [URL, optional (SEPARATED_MARKER k)], and_parse [VERSION_SPEC, optional (SEPARATED_MARKER k)]] r = Some (ts, [])"
  shows "REQUIREMENT k (n @ extras_text es @ r) = Some (TName n # map TExtra es @ ts, [])"
proof -
  have "pre_parse (n @ extras_text es @ r) = n @ extras_text es @ r"
    using assms(1) alnum_not_white by (cases n) (auto simp: is_identifier_def)
  moreover have "NAMED_REQUIREMENT k (n @ extras_text es @ r) = Some (TName n # map TExtra es @ ts, [])"
    using name_parse [OF assms(1) part_heads [OF assms(3)]] optional_extras_parse [OF assms(2,3)] assms(4)
    by (simp add: NAMED_REQUIREMENT_def del: match_first.simps)
  ultimately show ?thesis
    by (simp add: REQUIREMENT_def skipping_def string_start_def string_end_def)
qed

lemma version_part_parse:
  assumes "\<forall>w\<in>set ws. common_text w" and "marker_text m t" and "length t < k"
  shows "\<exists>ts. match_first [and_parse [URL, optional (SEPARATED_MARKER k)], and_parse [VERSION_SPEC, optional (SEPARATED_MARKER k)]]
      (join_with '','' ws @ t) = Some (TSpec (join_with '','' ws) # ts, [])
    \<and> (case m of None \<Rightarrow> ts = [] | Some ms \<Rightarrow> \<exists>w. ts = [TMarker w] \<and> new_marker w = Inr ms)"
proof -
  let ?r = "join_with '','' ws @ t"
  have after: "after_spec t" using assms(2) by (auto simp: marker_text_def after_spec_def split: option.splits)
  have "?r = [] \<or> hd ?r \<in> set '';=!<>''"
  proof (cases ws)
    case Nil
    with after show ?thesis by (auto simp: after_spec_def)
  next
    case (Cons w vs)
    with assms(1) obtain c cs where "w = c # cs" "c \<in> set ''=!<>''" by (auto simp: common_text_def common_ops_def)
    with Cons show ?thesis by (auto simp: join_sep_parts)
  qed
  then have "URL ?r = None" by (cases ?r) (auto simp: URL_def mute_char is_white_def)
  with version_spec_parse [OF assms(1) after] marker_text_parse [OF assms(2,3)] show ?thesis by auto
qed

lemma url_part_parse:
  assumes "u \<noteq> []" and "list_all (\<lambda>c. \<not> is_white c) u" and "marker_text m t" and "length t < k"
  shows "\<exists>ts. match_first [and_parse [URL, optional (SEPARATED_MARKER k)], and_parse [VERSION_SPEC, optional (SEPARATED_MARKER k)]]
      (''@ '' @ u @ (if m \<noteq> None then '' '' else []) @ t) = Some (TUrl u # ts, [])
    \<and> (case m of None \<Rightarrow> ts = [] | Some ms \<Rightarrow> \<exists>w. ts = [TMarker w] \<and> new_marker w = Inr ms)"
proof -
  let ?t = "(if m \<noteq> None then '' '' else []) @ t"
  have st: "stops (\<lambda>c. c \<noteq> CHR '' '') ?t" using assms(3) by (auto simp: marker_text_def)
  have u: "list_all (\<lambda>c. c \<noteq> CHR '' '') u" using assms(2) by (auto simp: list_all_iff is_white_def)
  have "re_at (Plus (Chr (\<lambda>c. c \<noteq> CHR '' ''))) (u @ ?t) = Some ?t"
    unfolding re_at_def by (rule plus_chr_take [OF u assms(1) st]) simp
  moreover have "pre_parse (CHR '' '' # u @ ?t) = u @ ?t"
    using assms(1,2) by (cases u) (simp_all add: is_white_def)
  ultimately have "skipping (regex_impl (Plus (Chr (\<lambda>c. c \<noteq> CHR '' '')))) (CHR '' '' # u @ ?t) = Some ([u], ?t)"
    unfolding skipping_def by (simp add: regex_impl_def)
  then have url: "URL (''@ '' @ u @ ?t) = Some ([TUrl u], ?t)"
    by (simp add: URL_def mute_char is_white_def with_action_def)
  have "optional (SEPARATED_MARKER k) ?t = optional (SEPARATED_MARKER k) t"
  proof (cases m)
    case (Some ms)
    then obtain w where t: "t = ''; '' @ w" "reads_list ms w" using assms(3) by (auto simp: marker_text_def)
    with assms(4) have "length w < k" by simp
    from marker_part [OF t(2) this] have "SEPARATED_MARKER k t = Some ([TMarker (pre_parse w)], [])" by (simp add: t(1))
    moreover have "mute '';'' (CHR '' '' # t) = (mute '';'' t :: (rtok list \<times> string) option)"
      by (simp add: mute_def suppress_def with_action_def skipping_def is_white_def)
    ultimately show ?thesis using Some by (simp add: optional_def SEPARATED_MARKER_def)
  qed simp
  with url marker_text_parse [OF assms(3,4)] show ?thesis by auto
qed

text \<open>The text of a set of specifiers is read as a set with the same members.\<close>

definition reread :: "string \<Rightarrow> specifier" where
  "reread w = (case new_specifier w None of Inr sp \<Rightarrow> sp)"

lemma spec_member_id: "spec_member sp sps \<longleftrightarrow> spec_id sp \<in> spec_id ` set sps"
  by (force simp: spec_member_def spec_id_def spec_eq_def list_ex_iff)

lemma parse_specifiers_new:
  "\<forall>w\<in>set ws. new_specifier w None = Inr (reread w) \<Longrightarrow> distinct (map spec_id (acc @ map reread ws))
    \<Longrightarrow> parse_specifiers ws acc = Inr (acc @ map reread ws)"
proof (induction ws arbitrary: acc)
  case (Cons w ws)
  then have "\<not> spec_member (reread w) acc" by (simp add: spec_member_id)
  with Cons.IH [of "acc @ [reread w]"] Cons.prems show ?case by (simp add: new_any_specifier_def spec_add_def)
qed simp

lemma common_text_chars: "common_text w \<Longrightarrow> w \<noteq> [] \<and> list_all (\<lambda>c. \<not> strip_ws c \<and> c \<noteq> CHR '','') w"
proof -
  assume "common_text w"
  then obtain op x where w: "w = op @ x" "op \<in> set common_ops" "x \<in> bodies op" by (auto simp: common_text_def)
  then have "op \<noteq> ''===''" by (auto simp: common_ops_def)
  from body_bodies [OF w(3) this] have "list_all (\<lambda>c. \<not> strip_ws c \<and> c \<noteq> CHR '','') x"
    by (auto simp: list_all_iff body_chr_def visible_chr_def)
  moreover have "op \<noteq> [] \<and> list_all (\<lambda>c. \<not> strip_ws c \<and> c \<noteq> CHR '','') op"
    using w(2) unfolding common_ops_def list.set insert_iff empty_iff by (elim disjE FalseE) (simp_all add: strip_ws_def)
  ultimately show ?thesis by (simp add: w(1))
qed

lemma specifier_set_reads:
  assumes "list_all (\<lambda>sp. common_text (spec_str sp) \<and> new_specifier (spec_str sp) None = Inr sp) sps" and "distinct (map spec_id sps)"
  shows "\<exists>ss. new_specifier_set (join_with '','' (sort (map spec_str sps))) None = Inr ss \<and> ss_prereleases ss = None
    \<and> set (ss_specs ss) = set sps"
proof -
  let ?ws = "sort (map spec_str sps)"
  have ok: "\<forall>w\<in>set ?ws. common_text w" and rd: "\<forall>sp\<in>set sps. reread (spec_str sp) = sp"
    and new: "\<forall>w\<in>set ?ws. new_specifier w None = Inr (reread w)"
    using assms(1) by (auto simp: list_all_iff reread_def)
  have strip: "map strip ?ws = ?ws"
    by (rule map_idI) (use ok common_text_chars strip_spaced [of "[]"] in \<open>force simp: list_all_iff\<close>)
  have parts: "filter (\<lambda>x. x \<noteq> []) (map strip (split_on CHR '','' (join_with '','' ?ws))) = ?ws"
  proof (cases "?ws = []")
    case False
    have "split_on CHR '','' (join_with '','' ?ws) = ?ws"
      by (rule split_join [OF False]) (use ok common_text_chars in \<open>auto simp: list_all_iff\<close>)
    moreover have "filter (\<lambda>x. x \<noteq> []) ?ws = ?ws" unfolding filter_id_conv using ok common_text_chars by blast
    ultimately show ?thesis by (simp only: strip)
  qed (simp add: strip_def lstrip_while_def rstrip_while_def)
  have sps: "map reread (map spec_str sps) = sps" using rd by (simp add: map_idI)
  then have "distinct (map (spec_id \<circ> reread) (map spec_str sps))" using assms(2) by (metis map_map)
  then have "distinct (map (spec_id \<circ> reread) ?ws)"
    by (simp only: distinct_map [of "spec_id \<circ> reread"] distinct_sort set_sort)
  then have "distinct (map spec_id (map reread ?ws))" by simp
  with parse_specifiers_new [OF new, of "[]"] have "new_specifier_set (join_with '','' ?ws) None = Inr \<lparr>ss_specs = map reread ?ws, ss_prereleases = None\<rparr>"
    unfolding new_specifier_set_def parts by simp
  moreover have "set (map reread ?ws) = set sps" by (subst (2) sps [symmetric]) (simp add: image_image)
  ultimately show ?thesis by auto
qed

lemma tok_extras [simp]:
  "concat (map tok_name (map TExtra es)) = []" "concat (map tok_url (map TExtra es)) = []" "concat (map tok_spec (map TExtra es)) = []"
  "concat (map tok_marker (map TExtra es)) = []" "concat (map tok_extra (map TExtra es)) = es"
  by (induction es) (simp_all add: tok_name_def tok_url_def tok_spec_def tok_marker_def tok_extra_def)

lemma set_of_distinct: "distinct xs \<Longrightarrow> set_of xs = xs"
proof -
  have "distinct (acc @ xs) \<Longrightarrow> fold (\<lambda>x acc. if x \<in> set acc then acc else acc @ [x]) xs acc = acc @ xs" for acc
    by (induction xs arbitrary: acc) simp_all
  from this [of "[]"] show "distinct xs \<Longrightarrow> ?thesis" by (simp add: set_of_def)
qed

lemma sort_join: "sort es = [] \<longleftrightarrow> es = []"
  by (metis length_0_conv length_sort)

lemma identifier_chars: "is_identifier n \<Longrightarrow> CHR 0x09 \<notin> set n"
proof -
  have "\<not> alnum (CHR 0x09)" using alnum_not_white [of "CHR 0x09"] by (auto simp: is_white_def)
  then show "is_identifier n \<Longrightarrow> ?thesis" by (auto simp: is_identifier_def list_all_iff id_chr_def)
qed

text \<open>What the tokens of a text make.\<close>

lemma read_tokens:
  assumes "parse_string (REQUIREMENT (Suc (length (expandtabs 0 t)))) t = Some (TName n # map TExtra es @ x # ts)" and "distinct es"
    and "case m of None \<Rightarrow> ts = [] | Some ms \<Rightarrow> \<exists>w. ts = [TMarker w] \<and> new_marker w = Inr ms"
    and "(\<exists>s. x = TSpec s \<and> url = None \<and> new_specifier_set s None = Inr ss)
      \<or> (\<exists>u. x = TUrl u \<and> u \<noteq> [] \<and> check_url u = Inr () \<and> url = Some u \<and> new_specifier_set [] None = Inr ss)"
  shows "new_base_requirement t = Inr \<lparr>rq_name = n, rq_url = url, rq_extras = es, rq_specifier = ss, rq_marker = m\<rparr>"
proof -
  have m: "concat (map tok_name ts) = [] \<and> concat (map tok_url ts) = [] \<and> concat (map tok_spec ts) = [] \<and> concat (map tok_extra ts) = []
      \<and> (case concat (map tok_marker ts) of [] \<Rightarrow> Inr None | w # _ \<Rightarrow> bindR (new_marker w) (\<lambda>ms. Inr (Some ms))) = Inr m"
    using assms(3) by (cases m) (auto simp: tok_name_def tok_url_def tok_spec_def tok_extra_def tok_marker_def)
  have x: "tok_name x = [] \<and> tok_extra x = [] \<and> tok_marker x = []"
    using assms(4) by (auto simp: tok_name_def tok_extra_def tok_marker_def)
  have n: "tok_name (TName n) = [n]" "tok_url (TName n) = []" "tok_spec (TName n) = []" "tok_marker (TName n) = []" "tok_extra (TName n) = []"
    by (simp_all add: tok_name_def tok_url_def tok_spec_def tok_extra_def tok_marker_def)
  let ?all = "TName n # map TExtra es @ x # ts"
  have all: "concat (map tok_name ?all) = [n]" "concat (map tok_url ?all) = tok_url x" "concat (map tok_spec ?all) = tok_spec x"
    "concat (map tok_extra ?all) = es" "concat (map tok_marker ?all) = concat (map tok_marker ts)"
    using m x n tok_extras [of es]
    by (simp_all only: list.map map_append concat.simps concat_append append_Nil append_Nil2 append_Cons)
  from assms(4) show ?thesis
  proof (elim disjE exE conjE)
    fix s assume s: "x = TSpec s" "url = None" "new_specifier_set s None = Inr ss"
    then have "tok_url x = [] \<and> tok_spec x = [s]" by (simp add: tok_url_def tok_spec_def)
    with s m show ?thesis
      unfolding new_base_requirement_def assms(1) option.case named_def all by (simp add: set_of_distinct [OF assms(2)])
  next
    fix u assume u: "x = TUrl u" "u \<noteq> []" "check_url u = Inr ()" "url = Some u" "new_specifier_set [] None = Inr ss"
    then have "tok_url x = [u] \<and> tok_spec x = []" by (simp add: tok_url_def tok_spec_def)
    with u m show ?thesis
      unfolding new_base_requirement_def assms(1) option.case named_def all by (simp add: set_of_distinct [OF assms(2)])
  qed
qed

lemma common_head: "common_text w \<Longrightarrow> \<exists>c cs. w = c # cs \<and> c \<in> set ''=!<>''"
  by (auto simp: common_text_def common_ops_def)

lemma common_texts_head:
  assumes "\<forall>w\<in>set ws. common_text w" and "marker_text m t"
  shows "join_with '','' ws @ t = [] \<or> hd (join_with '','' ws @ t) \<in> set ''@;=!<>''"
proof (cases ws)
  case Nil
  with assms(2) show ?thesis by (auto simp: marker_text_def split: option.splits)
next
  case (Cons w vs)
  with assms(1) have "common_text w" by simp
  from common_head [OF this] obtain c cs where "w = c # cs" "c \<in> set ''=!<>''" by blast
  with Cons show ?thesis by (auto simp: join_sep_parts)
qed

lemma common_texts_no_tab: "\<forall>w\<in>set ws. common_text w \<Longrightarrow> CHR 0x09 \<notin> set (join_with '','' ws)"
proof
  assume ws: "\<forall>w\<in>set ws. common_text w" and "CHR 0x09 \<in> set (join_with '','' ws)"
  then obtain w where "w \<in> set ws" "CHR 0x09 \<in> set w" using set_join_with [of "'',''" ws] by auto
  with ws common_text_chars [of w] have "\<not> strip_ws (CHR 0x09)" by (auto simp: list_all_iff)
  then show False by (simp add: strip_ws_def)
qed

lemma extras_no_tab: "\<forall>e\<in>set es. is_identifier e \<Longrightarrow> CHR 0x09 \<notin> set (extras_text es)"
proof -
  assume es: "\<forall>e\<in>set es. is_identifier e"
  have "CHR 0x09 \<notin> set (join_with '','' es)"
    using identifier_chars es set_join_with [of "'',''" es] by auto
  then show ?thesis by (simp add: extras_text_def)
qed

text \<open>Texts with a specifier and with a URL.\<close>

lemma read_with_specifiers:
  assumes "is_identifier n" and "\<forall>e\<in>set es. is_identifier e" and "distinct es" and "\<forall>w\<in>set ws. common_text w" and "marker_text m t"
    and "new_specifier_set (join_with '','' ws) None = Inr ss" and "CHR 0x09 \<notin> set t"
  shows "new_base_requirement (n @ extras_text es @ join_with '','' ws @ t)
    = Inr \<lparr>rq_name = n, rq_url = None, rq_extras = es, rq_specifier = ss, rq_marker = m\<rparr>"
proof -
  let ?t = "n @ extras_text es @ join_with '','' ws @ t"
  have tab: "expandtabs 0 ?t = ?t"
    by (rule expandtabs_id) (use assms identifier_chars extras_no_tab common_texts_no_tab in auto)
  have "length t < Suc (length ?t)" by simp
  from version_part_parse [OF assms(4,5) this] obtain ts where ts:
    "match_first [and_parse [URL, optional (SEPARATED_MARKER (Suc (length ?t)))], and_parse [VERSION_SPEC, optional (SEPARATED_MARKER (Suc (length ?t)))]]
      (join_with '','' ws @ t) = Some (TSpec (join_with '','' ws) # ts, [])"
    "case m of None \<Rightarrow> ts = [] | Some ms \<Rightarrow> \<exists>w. ts = [TMarker w] \<and> new_marker w = Inr ms" by blast
  note parsed = named_parse [OF assms(1,2) common_texts_head [OF assms(4,5)] ts(1)]
  have "parse_string (REQUIREMENT (Suc (length (expandtabs 0 ?t)))) ?t = Some (TName n # map TExtra es @ TSpec (join_with '','' ws) # ts)"
    unfolding parse_string_def tab parsed by simp
  from read_tokens [OF this assms(3) ts(2)] assms(6) show ?thesis by blast
qed

lemma read_with_url:
  assumes "is_identifier n" and "\<forall>e\<in>set es. is_identifier e" and "distinct es" and "u \<noteq> []" and "list_all (\<lambda>c. \<not> is_white c) u"
    and "check_url u = Inr ()" and "marker_text m t" and "CHR 0x09 \<notin> set t"
  shows "new_base_requirement (n @ extras_text es @ ''@ '' @ u @ (if m \<noteq> None then '' '' else []) @ t)
    = Inr \<lparr>rq_name = n, rq_url = Some u, rq_extras = es, rq_specifier = \<lparr>ss_specs = [], ss_prereleases = None\<rparr>, rq_marker = m\<rparr>"
proof -
  let ?r = "''@ '' @ u @ (if m \<noteq> None then '' '' else []) @ t"
  let ?t = "n @ extras_text es @ ?r"
  have "CHR 0x09 \<notin> set u" using assms(5) by (auto simp: list_all_iff is_white_def)
  then have tab: "expandtabs 0 ?t = ?t"
    by (intro expandtabs_id) (use assms identifier_chars extras_no_tab in auto)
  have "length t < Suc (length ?t)" by simp
  from url_part_parse [OF assms(4,5,7) this] obtain ts where ts:
    "match_first [and_parse [URL, optional (SEPARATED_MARKER (Suc (length ?t)))], and_parse [VERSION_SPEC, optional (SEPARATED_MARKER (Suc (length ?t)))]]
      ?r = Some (TUrl u # ts, [])"
    "case m of None \<Rightarrow> ts = [] | Some ms \<Rightarrow> \<exists>w. ts = [TMarker w] \<and> new_marker w = Inr ms" by blast
  have "?r = [] \<or> hd ?r \<in> set ''@;=!<>''" by simp
  note parsed = named_parse [OF assms(1,2) this ts(1)]
  have "new_specifier_set [] None = Inr \<lparr>ss_specs = [], ss_prereleases = None\<rparr>" by code_simp
  moreover have "parse_string (REQUIREMENT (Suc (length (expandtabs 0 ?t)))) ?t = Some (TName n # map TExtra es @ TUrl u # ts)"
    unfolding parse_string_def tab parsed by simp
  ultimately show ?thesis using read_tokens [OF _ assms(3) ts(2), of ?t n "TUrl u"] assms(4,6) by blast
qed

text \<open>
  C19: A requirement of these (\<open>writable\<close>) prints as a text that reads back as the same requirement, the extras and the
  specifiers being sets: its name and extras are identifiers, no extra and no specifier occurs twice; its specifiers
  are ones of PEP 440 as parsing gives them, with the operators \<open>==\<close>, \<open>!=\<close>, \<open><=\<close>, \<open>>=\<close>, \<open><\<close> and \<open>>\<close> (nothing is said of
  \<open>~=\<close> and \<open>===\<close>, nor of legacy specifiers), without a choice on pre-releases; it has specifiers or a valid URL without
  white space, not both; its marker, if there is one, consists of comparisons of known variables and values joined by \<open>and\<close> and \<open>or\<close>,
  its values have no double quote, backslash, tab or line break, parentheses enclose more than one term, and
  do not enclose all of it. (Outside this class it fails: see \<open>quotes_lost\<close> and \<open>doubled_changes\<close>.)
\<close>
theorem requirement_roundtrip:
  assumes "writable b"
  shows "\<exists>t c. base_requirement_str b = Inr t \<and> new_base_requirement t = Inr c \<and> rq_name c = rq_name b \<and> rq_url c = rq_url b
    \<and> set (rq_extras c) = set (rq_extras b) \<and> set (ss_specs (rq_specifier c)) = set (ss_specs (rq_specifier b))
    \<and> rq_marker c = rq_marker b"
proof -
  let ?es = "sort (rq_extras b)" and ?ws = "sort (map spec_str (ss_specs (rq_specifier b)))"
  have name: "is_identifier (rq_name b)" and es: "\<forall>e\<in>set ?es. is_identifier e" "distinct ?es"
    using assms by (simp_all add: writable_def list_all_iff)
  obtain m where m: "(case rq_marker b of None \<Rightarrow> Inr [] | Some ms \<Rightarrow> bindR (marker_str ms) (\<lambda>w. Inr (''; '' @ w))) = (Inr m :: string res)"
    "marker_text (rq_marker b) m" "CHR 0x09 \<notin> set m"
  proof (cases "rq_marker b")
    case None
    with that [of "[]"] show ?thesis by (simp add: marker_text_def)
  next
    case (Some ms)
    with assms have "printable ms" "\<And>ns. ms \<noteq> [Nested ns]" by (simp_all add: writable_def)
    from printable_reads [OF this] obtain w where "marker_str ms = Inr w" "reads_list ms w" by blast
    with Some that [of "''; '' @ w"] show ?thesis by (simp add: marker_text_def) (simp add: reads_list_def)
  qed
  have specs: "list_all (\<lambda>sp. common_text (spec_str sp) \<and> new_specifier (spec_str sp) None = Inr sp) (ss_specs (rq_specifier b))"
    "distinct (map spec_id (ss_specs (rq_specifier b)))"
    using assms by (auto simp: writable_def list_all_iff)
  then have ws: "\<forall>w\<in>set ?ws. common_text w" by (auto simp: list_all_iff)
  show ?thesis
  proof (cases "rq_url b")
    case None
    have str: "base_requirement_str b = Inr (rq_name b @ extras_text ?es @ join_with '','' ?ws @ m)"
      using m(1) None by (simp add: base_requirement_str_def extras_text_def sort_join set_str_def)
    from specifier_set_reads [OF specs] obtain ss where
      ss: "new_specifier_set (join_with '','' ?ws) None = Inr ss" "set (ss_specs ss) = set (ss_specs (rq_specifier b))" by blast
    from str read_with_specifiers [OF name es ws m(2) ss(1) m(3)] ss(2) None show ?thesis by auto
  next
    case (Some u)
    with assms have u: "ss_specs (rq_specifier b) = []" "check_url u = Inr ()" "u \<noteq> []" "list_all (\<lambda>c. \<not> is_white c) u"
      by (simp_all add: writable_def)
    have str: "base_requirement_str b = Inr (rq_name b @ extras_text ?es @ ''@ '' @ u @ (if rq_marker b \<noteq> None then '' '' else []) @ m)"
      using m(1) Some u(1) by (simp add: base_requirement_str_def extras_text_def sort_join)
    from str read_with_url [OF name es u(3,4,2) m(2,3)] u(1) Some show ?thesis by auto
  qed
qed

definition sample_specifier :: "string \<Rightarrow> int list \<Rightarrow> specifier" where
  "sample_specifier op ns = \<lparr>sp_legacy = False, sp_operator = op, sp_version = dots ns, sp_prereleases = None\<rparr>"

lemma sample_specifier_reads:
  assumes "op \<in> set common_ops" and "ns \<noteq> []" and "list_all (\<lambda>n. 0 \<le> n) ns"
  shows "common_text (spec_str (sample_specifier op ns)) \<and> new_specifier (spec_str (sample_specifier op ns)) None = Inr (sample_specifier op ns)"
proof -
  have op: "op \<in> set pep_operators" "op \<noteq> ''~=''" "op \<noteq> ''===''" using assms(1) by (auto simp: common_ops_def pep_operators_def)
  with assms have "dots ns \<in> bodies op" using release_in_bodies by (auto simp: common_ops_def)
  with assms(1) op specifier_text [of "[]" "[]" "[]" op "dots ns" None] show ?thesis
    by (auto simp: common_text_def sample_specifier_def spec_str_def)
qed

definition sample_requirement :: base_requirement where
  "sample_requirement = \<lparr>rq_name = ''Foo.bar'', rq_url = None, rq_extras = [''b'', ''a-c''],
     rq_specifier = \<lparr>ss_specs = [sample_specifier ''>='' [1, 2], sample_specifier ''<'' [2]], ss_prereleases = None\<rparr>,
     rq_marker = Some (marks_of sample)\<rparr>"

lemma sample_writable: "writable sample_requirement"
proof -
  have "is_identifier ''Foo.bar''" "is_identifier ''b''" "is_identifier ''a-c''"
    by code_simp+
  moreover have "printable (marks_of sample)" using marks_of_ok [OF sample_ok] by (simp add: printable_def)
  moreover have "\<forall>ns. marks_of sample \<noteq> [Nested ns]" by (simp add: sample_def)
  moreover have "spec_id (sample_specifier ''>='' [1, 2]) \<noteq> spec_id (sample_specifier ''<'' [2])"
    by (simp add: spec_id_def canonical_spec_def sample_specifier_def)
  moreover have "\<not> sp_legacy (sample_specifier op ns)" "sp_prereleases (sample_specifier op ns) = None" for op ns
    by (simp_all add: sample_specifier_def)
  ultimately show ?thesis
    using sample_specifier_reads [of "''>=''" "[1, 2]"] sample_specifier_reads [of "''<''" "[2]"]
    by (simp add: writable_def sample_requirement_def common_ops_def)
qed

lemma requirement_roundtrip_witness:
  "\<exists>t c. base_requirement_str sample_requirement = Inr t \<and> new_base_requirement t = Inr c \<and> rq_name c = ''Foo.bar''
    \<and> set (rq_extras c) = {''b'', ''a-c''}"
  using requirement_roundtrip [OF sample_writable] by (auto simp: sample_requirement_def)

section \<open>Errors\<close>

lemma format_total:
  "atom_ok V C m \<Longrightarrow> \<exists>t. format_marker b m = Inr t"
  "marks_ok V C ms \<Longrightarrow> (\<exists>ws. format_inner ms = Inr ws) \<and> (\<forall>m b. ms = [m] \<longrightarrow> (\<exists>t. format_marker b m = Inr t))"
proof (induction V C m and V C ms arbitrary: b and rule: atom_ok_marks_ok.induct)
  case (1 V C ts)
  then obtain a w c where "ts = [a, Op w, c]" "node_ok V a" "node_ok V c" by (auto simp: item_ok_def)
  then show ?case using serialize_node [of V a] serialize_node [of V c] by (simp add: serialize_def [of "Op w"])
next
  case (2 V C ms)
  then obtain ws where ws: "format_inner ms = Inr ws" and m: "ms = [m] \<Longrightarrow> \<exists>t. format_marker b m = Inr t" for m b by auto
  show ?case
  proof (cases "\<exists>m. ms = [m]")
    case True
    with m [of _ True] ws show ?thesis by (auto simp del: format_inner.simps)
  next
    case False
    with ws show ?thesis by (auto split: list.splits)
  qed
next
  case (8 V C m)
  then obtain u where "format_marker False m = Inr u" by auto
  with 8 show ?case by auto
next
  case (9 V C m w ms)
  then have "\<exists>u. format_marker False m = Inr u" by simp
  then obtain u where "format_marker False m = Inr u" by blast
  with 9 show ?case by auto
qed auto

text \<open>What is read has a text, so only reading can raise.\<close>

lemma marker_text_total: "new_marker s = Inr ms \<Longrightarrow> \<exists>t. marker_str ms = Inr t"
  using new_marker_result [of s ms] format_total(1) [of "\<lambda>_. True" "\<lambda>_. True" "Nested ms"] by (simp add: any_marks_def marker_str_def)

definition value_error :: "'a res \<Rightarrow> bool" where
  "value_error r \<longleftrightarrow> (\<forall>e. r = Inl e \<longrightarrow> e = ValueError)"

lemma value_error_simps [simp]: "value_error (Inr x)" "value_error (Inl e) \<longleftrightarrow> e = ValueError"
  by (auto simp: value_error_def)

lemma value_error_bind: "value_error r \<Longrightarrow> (\<And>x. r = Inr x \<Longrightarrow> value_error (f x)) \<Longrightarrow> value_error (bindR r f)"
  by (cases r) (simp_all add: value_error_def)

lemma guard_value_error: "value_error (guardR b ValueError)"
  by (cases b) (simp_all add: guardR_def)

lemma marker_value_error: "value_error (new_marker s)"
  by (auto simp: new_marker_def split: option.split)

lemma specifier_value_error: "value_error (new_any_specifier s)"
  by (auto simp: new_any_specifier_def new_legacy_specifier_def split: sum.split option.split)

lemma specifiers_value_error: "value_error (parse_specifiers ss acc)"
  by (induction ss arbitrary: acc) (auto intro!: value_error_bind specifier_value_error)

lemma url_value_error: "value_error (check_url u)"
  unfolding check_url_def
  by (auto intro!: value_error_bind guard_value_error simp: urlsplit_def Let_def split: prod.split)

lemma base_value_error: "value_error (new_base_requirement s)"
  unfolding new_base_requirement_def new_specifier_set_def
  by (auto intro!: value_error_bind marker_value_error url_value_error specifiers_value_error split: option.split list.split)

lemma base_marker_text:
  "new_base_requirement s = Inr b \<Longrightarrow> rq_marker b = Some ms \<Longrightarrow> \<exists>t. marker_str ms = Inr t"
  by (auto simp: new_base_requirement_def bindR_eq_Inr split: option.splits list.splits dest: marker_text_total)

lemma requirement_value_error: "value_error (new_requirement s)"
proof -
  have "value_error (marker_str ms)" if "new_base_requirement s = Inr b" "rq_marker b = Some ms" for b ms
    using base_marker_text [OF that] by auto
  then show ?thesis unfolding new_requirement_def
    by (auto intro!: value_error_bind base_value_error split: option.split)
qed

lemma map_res_value_error: "(\<And>x. value_error (f x)) \<Longrightarrow> value_error (map_res f xs)"
  by (induction xs) (auto intro!: value_error_bind)

lemma sections_value_error: "value_error (sections s c ls)"
  by (induction s c ls rule: sections.induct) (auto intro!: value_error_bind)


lemma value_error_cases: "value_error r \<longleftrightarrow> r = Inl ValueError \<or> is_ok r"
  by (cases r) (simp_all add: is_ok_iff)

lemma requirement_prints: "new_requirement s = Inr r \<Longrightarrow> is_ok (base_requirement_str r)"
proof -
  assume r: "new_requirement s = Inr r"
  then obtain b where "new_base_requirement s = Inr b" "rq_marker r = rq_marker b"
    by (auto simp: new_requirement_def bindR_eq_Inr base_requirement.defs)
  then have "is_ok (case rq_marker r of None \<Rightarrow> Inr [] | Some ms \<Rightarrow> bindR (marker_str ms) (\<lambda>w. Inr (''; '' @ w)))"
    using base_marker_text by (fastforce simp: is_ok_iff split: option.split)
  then show ?thesis by (auto simp: base_requirement_str_def is_ok_iff)
qed

text \<open>
  Reading requirements has two outcomes: a \<open>ValueError\<close>, whichever part of the text is wrong, or requirements, each of
  which can be printed.
\<close>
theorem requirements_read:
  "parse_requirements ss = Inl ValueError
    \<or> (\<exists>rs. parse_requirements ss = Inr rs \<and> list_all (\<lambda>r. is_ok (base_requirement_str r)) rs)"
proof (cases "parse_requirements ss")
  case (Inl e)
  moreover have "value_error (parse_requirements ss)"
    unfolding parse_requirements_def by (rule map_res_value_error) (rule requirement_value_error)
  ultimately show ?thesis by simp
next
  case (Inr rs)
  then have "list_all (\<lambda>r. is_ok (base_requirement_str r)) rs"
    unfolding parse_requirements_def by (rule map_res_all) (rule requirement_prints)
  with Inr show ?thesis by blast
qed

end
