(* ===== verification/PkgExamples.thy ===== *)
theory PkgExamples
  imports PkgResolveLaws PkgWorkingSetLaws PkgRequirementsLaws
begin

text \<open>
  The laws of requirements, environments and working sets at concrete projects, cyclic requirements among them, and
  where the code does not do what it means to.
\<close>

section \<open>Requirements of a name alone\<close>

definition plain :: "string \<Rightarrow> requirement" where
  "plain n = \<lparr>rq_name = n, rq_url = None, rq_extras = [], rq_specifier = \<lparr>ss_specs = [], ss_prereleases = None\<rparr>,
     rq_marker = None, rq_unsafe_name = n, rq_project_name = safe_name n, rq_key = lower (safe_name n)\<rparr>"

lemma plain_reads: "is_identifier n \<Longrightarrow> new_requirement n = Inr (plain n)"
proof -
  assume "is_identifier n"
  moreover have "new_specifier_set [] None = Inr \<lparr>ss_specs = [], ss_prereleases = None\<rparr>" by code_simp
  ultimately have "new_base_requirement n = Inr \<lparr>rq_name = n, rq_url = None, rq_extras = [],
      rq_specifier = \<lparr>ss_specs = [], ss_prereleases = None\<rparr>, rq_marker = None\<rparr>"
    using read_with_specifiers [of n "[]" "[]" None "[]"] by (simp add: marker_text_def extras_text_def)
  then show ?thesis
    by (simp add: new_requirement_def plain_def base_requirement.defs requirement.defs)
qed

section \<open>Two projects that require each other\<close>

definition sample_interpreter :: interpreter where
  "sample_interpreter = \<lparr>in_implementation = None, in_os_name = ''posix'', in_machine = [], in_release = [], in_system = [],
     in_version = [], in_python_version = ''3.9.1'', in_implementation_name = [], in_version_tuple = [''3'', ''9''], in_platform = ''linux''\<rparr>"

definition sample_dist :: "string \<Rightarrow> string \<Rightarrow> string \<Rightarrow> dist" where
  "sample_dist n v reqs = \<lparr>d_kind = EggDist, d_project_name = n, d_given_version = Some v, d_py_version = None,
     d_platform = None, d_location = ''/'' @ n @ v, d_precedence = EGG_DIST, d_metadata = [(''requires.txt'', reqs)]\<rparr>"

definition sample_world :: "dist list \<Rightarrow> world" where
  "sample_world ds = \<lparr>w_interpreter = sample_interpreter, w_find_distributions = (\<lambda>item only. if item = ''/'' then ds else []),
     w_platform = None, w_python = ''3.9'', w_normalize = (\<lambda>p. p), w_sys_path = [''/'']\<rparr>"

definition pair_world :: world where
  "pair_world = sample_world [sample_dist ''a'' ''1'' ''b'', sample_dist ''b'' ''1'' ''a'']"

definition pair_env :: environment where
  "pair_env = default_env pair_world [''/'']"

lemma pair_env: "pair_env = \<lparr>en_distmap = [(''a'', [sample_dist ''a'' ''1'' ''b'']), (''b'', [sample_dist ''b'' ''1'' ''a''])],
   en_platform = None, en_python = Some ''3.9''\<rparr>"
  by code_simp

lemma lower_safe: "safe_name ''a'' = ''a''" "safe_name ''b'' = ''b''" "lower ''a'' = ''a''" "lower ''b'' = ''b''"
  by code_simp+

lemma plain_keys: "rq_key (plain ''a'') = ''a''" "rq_key (plain ''b'') = ''b''" "rq_extras (plain n) = []" "rq_marker (plain n) = None"
  "rq_specifier (plain n) = \<lparr>ss_specs = [], ss_prereleases = None\<rparr>" "rq_project_name (plain ''a'') = ''a''"  "rq_project_name (plain ''b'') = ''b''"
  by (simp_all add: plain_def lower_safe)

lemma plain_requires:
  assumes "is_identifier q" and "yield_lines (Str q) = [q]" and "requirement_lines [q] = [q]"
   and "hd q \<noteq> CHR ''[''"
  shows "requires p (sample_dist n v q) [] = Inr [plain q]"
proof -
  have "q \<noteq> []" using assms(1) by (auto simp: is_identifier_def)
  then have "split_sections (Strs (map Str (get_metadata (sample_dist n v q) ''requires.txt''))) = Inr [(None, [q])]"
    using assms(2,4) by (cases q) (simp_all add: get_metadata_def sample_dist_def split_sections_def)
  moreover have "parse_requirements (Strs (map Str [q])) = Inr [plain q]"
    using assms plain_reads [OF assms(1)] by (simp add: parse_requirements_def)
  moreover have "split_sections (Strs (map Str (get_metadata (sample_dist n v q) ''depends.txt''))) = Inr [(None, [])]"
    by (simp add: get_metadata_def sample_dist_def split_sections_def)
  moreover have "parse_requirements (Strs (map Str [])) = Inr []" by code_simp
  moreover have "d_kind (sample_dist n v q) = EggDist" by (simp add: sample_dist_def)
  ultimately show ?thesis
    by (simp add: requires_def get_dep_map_def build_dep_map_def filter_extras_def extend_at_def dkeys_def) 
qed

lemma ab_lines: "yield_lines (Str ''a'') = [''a'']" "yield_lines (Str ''b'') = [''b'']"
  "requirement_lines [''a''] = [''a'']" "requirement_lines [''b''] = [''b'']"
  "is_identifier ''a''" "is_identifier ''b''"
  by code_simp+

lemma ab_in: "dist_in (plain ''a'') (sample_dist ''a'' ''1'' q) = Inr True" "dist_in (plain ''b'') (sample_dist ''b'' ''1'' q) = Inr True"
proof -
  have e: "set_contains \<lparr>ss_specs = [], ss_prereleases = None\<rparr> (ItemText ''1'') (Some True) = Inr True" by code_simp
  have k: "d_key (sample_dist ''a'' v q) = ''a''"  "d_key (sample_dist ''b'' v q) = ''b''" for v 
    by (simp_all add: d_key_def sample_dist_def lower_safe)
  show "dist_in (plain ''a'') (sample_dist ''a'' ''1'' q) = Inr True" "dist_in (plain ''b'') (sample_dist ''b'' ''1'' q) = Inr True"
    by (simp_all add: dist_in_def k plain_keys) (simp_all add: sample_dist_def dist_version_def contains_version_def plain_keys e)
qed

lemma req_eq_ab: "req_eq (plain ''a'') (plain ''b'') = False" "req_eq (plain ''b'') (plain ''a'') = False"
  by (simp_all add: req_eq_def plain_keys)

lemmas requires_ab = plain_requires [OF ab_lines(5,1,3), simplified] plain_requires [OF ab_lines(6,2,4), simplified]

lemmas pair_facts = resolve_step_def req_member_def markers_pass_def plain_keys choose_dist_def no_distributions_def
  searched_def best_match_def ws_find_def pair_env env_getitem_def env_list_def lower_safe ab_in requires_ab register_def req_eq_ab

lemma pair_resolved:
  "resolve pair_world no_distributions [plain ''a''] (Some pair_env) None False []
   = Some (Inr [sample_dist ''a'' ''1'' ''b'', sample_dist ''b'' ''1'' ''a''])"
  unfolding resolve_def
  by (subst resolve_loop.simps, simp add: pair_facts resolve_start_def)
    (subst resolve_loop.simps, simp add: pair_facts, subst resolve_loop.simps, simp add: pair_facts, subst resolve_loop.simps, simp)

lemma resolve_sound_witness:
  "\<exists>P chosen. solution pair_world [] [plain ''a''] P chosen [sample_dist ''a'' ''1'' ''b'', sample_dist ''b'' ''1'' ''a'']"
  by (rule resolve_sound [OF pair_resolved])

lemma resolve_terminates_witness:
  "\<exists>x. resolve pair_world no_distributions [plain ''a''] None None True [''x''] = Some x"
  by (rule resolve_terminates) simp

lemma pair_env_reached: "reach empty_env env_step pair_env"
proof -
  let ?e = "\<lparr>en_distmap = [], en_platform = None, en_python = Some ''3.9''\<rparr>"
  have "env_scan pair_world [''/''] ?e = pair_env"
    by (simp add: pair_env_def default_env_def new_environment_def pair_world_def sample_world_def)
  then have "env_step ?e pair_env" using step_scan [of ?e pair_world "[''/'']"] by simp
  moreover have "reach empty_env env_step ?e" by (rule reach.intros) (simp add: empty_env_def)
  ultimately show ?thesis by (metis reach.intros)
qed

lemma env_lists_sorted_witness:
  "list_all (\<lambda>d. d_key d = ''a'' \<and> can_add pair_env d \<and> has_version d) (env_list pair_env ''a'')
    \<and> sorted_wrt (\<lambda>d e. \<not> older d e \<and> dist_eq d e = Inr False) (env_list pair_env ''a'')"
  by (rule env_lists_sorted [OF pair_env_reached])

lemma best_match_newest_witness:
  "\<exists>found. best_match pair_env (plain ''a'') no_distributions None False = Inr found
    \<and> (let cs = filter (\<lambda>d. dist_in (plain ''a'') d = Inr True) (env_list pair_env (rq_key (plain ''a'')))
       in if cs = [] then found = obtain_dist None (plain ''a'')
          else \<exists>d\<in>set cs. found = Some d \<and> (\<forall>e\<in>set cs. \<not> older d e))"
  by (rule best_match_newest [OF pair_env_reached plain_reads [OF ab_lines(5)]]) (simp add: no_distributions_def)

lemma insert_on_distinct_witness:
  "''/a1'' \<in> set (map (normal (\<lambda>p. p)) (insert_on (\<lambda>p. p) (sample_dist ''a'' ''1'' []) [''/x'', ''/'', ''/y''] None True))
    \<and> distinct (map (normal (\<lambda>p. p)) (insert_on (\<lambda>p. p) (sample_dist ''a'' ''1'' []) [''/x'', ''/'', ''/y''] None True))"
  using insert_on_distinct [of "\<lambda>p. p" "[''/x'', ''/'', ''/y'']" "sample_dist ''a'' ''1'' []" True]
  by (simp add: sample_dist_def normal_def)

section \<open>A requirement with a version\<close>

definition constrained :: "string \<Rightarrow> string \<Rightarrow> int list \<Rightarrow> requirement" where
  "constrained n op ns = plain n \<lparr>rq_specifier := \<lparr>ss_specs = [sample_specifier op ns], ss_prereleases = None\<rparr>\<rparr>"

lemma constrained_reads:
  assumes "is_identifier n" and "op \<in> set common_ops" and "ns \<noteq> []" and "list_all (\<lambda>n. 0 \<le> n) ns"
  shows "new_requirement (n @ op @ dots ns) = Inr (constrained n op ns)"
proof -
  let ?w = "op @ dots ns"
  have str: "spec_str (sample_specifier op ns) = ?w" by (simp add: spec_str_def sample_specifier_def)
  note reads = sample_specifier_reads [OF assms(2-4), unfolded str]
  have w: "list_all (\<lambda>c. \<not> strip_ws c \<and> c \<noteq> CHR '','') ?w" "?w \<noteq> []"
    using reads common_text_chars by blast+
  have "split_on CHR '','' ?w = [?w]"
    using split_join [of "[?w]"] w by (auto simp: list_all_iff)
  moreover have "strip ?w = ?w" using strip_spaced [of "[]" ?w] w by (auto simp: list_all_iff)
  ultimately have "new_specifier_set ?w None = Inr \<lparr>ss_specs = [sample_specifier op ns], ss_prereleases = None\<rparr>"
    using reads w(2) by (simp add: new_specifier_set_def new_any_specifier_def spec_add_def spec_member_def del: append_is_Nil_conv)
  with read_with_specifiers [of n "[]" "[?w]" None "[]"] reads assms(1) show ?thesis
    by (simp add: marker_text_def extras_text_def new_requirement_def constrained_def plain_def base_requirement.defs requirement.defs)
qed

lemma at_least_2_in: "dist_in (constrained ''a'' ''>='' [2]) (sample_dist ''a'' ''1'' []) = Inr False"
 "dist_in (constrained ''a'' ''>='' [2]) (sample_dist ''a'' ''2'' []) = Inr True"
  by code_simp+

section \<open>Conflicts that are replaced\<close>

lemma bare_requires: "requires p (sample_dist n v []) [] = Inr []"
proof -
  have "split_sections (Strs (map Str (get_metadata (sample_dist n v []) f))) = Inr [(None, [])]" for f
    by (simp add: get_metadata_def sample_dist_def split_sections_def splitlines.simps)
  moreover have "parse_requirements (Strs []) = Inr []" by code_simp
  moreover have "d_kind (sample_dist n v q) = EggDist" for q by (simp add: sample_dist_def)
  ultimately show ?thesis
    by (simp add: requires_def get_dep_map_def build_dep_map_def filter_extras_def extend_at_def dkeys_def)
qed

definition one_world :: world where
  "one_world = sample_world [sample_dist ''b'' ''1'' []]"

definition one_set :: working_set where
  "one_set = ws_add one_world (sample_dist ''a'' ''1'' []) (Some ''/'') True False no_distributions"

definition newer :: installer where
  "newer r = (if rq_key r = ''a'' then Some (sample_dist ''a'' ''2'' []) else None)"

lemma one_set: "ws_entries one_set = [''/'']" "ws_by_key one_set = [(''a'', sample_dist ''a'' ''1'' [])]"
  by code_simp+

lemma one_env: "default_env one_world [''/''] = \<lparr>en_distmap = [(''b'', [sample_dist ''b'' ''1'' []])], en_platform = None, en_python = Some ''3.9''\<rparr>"
  "default_env one_world [] = \<lparr>en_distmap = [], en_platform = None, en_python = Some ''3.9''\<rparr>"
  by code_simp+

lemma at_least_2: "rq_key (constrained ''a'' op ns) = ''a''" "rq_extras (constrained n op ns) = []" "rq_marker (constrained n op ns) = None"
  "rq_specifier (constrained n op ns) = \<lparr>ss_specs = [sample_specifier op ns], ss_prereleases = None\<rparr>"
  by (simp_all add: constrained_def plain_def lower_safe)

lemma constrained_eq: "req_eq (plain n) (constrained m op ns) = False" "req_eq (constrained m op ns) (plain n) = False"
  by (simp_all add: req_eq_def at_least_2 plain_keys set_eq_def spec_member_def)

lemmas one_facts = resolve_step_def req_member_def markers_pass_def plain_keys choose_dist_def
  searched_def best_match_def ws_find_def one_set one_env env_getitem_def env_list_def lower_safe ab_in bare_requires register_def
  at_least_2 constrained_eq at_least_2_in newer_def obtain_dist_def

lemma two_versions:
  "resolve one_world one_set [constrained ''a'' ''>='' [2], plain ''a''] None (Some newer) True []
   = Some (Inr [sample_dist ''a'' ''1'' [], sample_dist ''a'' ''2'' []])"
  unfolding resolve_def
  by (subst resolve_loop.simps, simp add: one_facts resolve_start_def)
    (subst resolve_loop.simps, simp add: one_facts new_working_set_def no_distributions_def, subst resolve_loop.simps, simp)

lemma environment_lost:
  "resolve one_world one_set [constrained ''a'' ''>='' [2], plain ''b''] None (Some newer) True []
   = Some (Inr [sample_dist ''b'' ''1'' [], sample_dist ''a'' ''2'' []])"
  "resolve one_world one_set [plain ''b'', constrained ''a'' ''>='' [2]] None (Some newer) True []
   = Some (Inl (DistributionNotFound (plain ''b'') []))"
  unfolding resolve_def
  by (subst resolve_loop.simps, simp add: one_facts resolve_start_def,
    (subst resolve_loop.simps, simp add: one_facts, subst resolve_loop.simps, simp))
    ((subst resolve_loop.simps, simp add: one_facts resolve_start_def new_working_set_def no_distributions_def),
    (subst resolve_loop.simps, simp add: one_facts new_working_set_def no_distributions_def))

lemma not_found:
  "resolve one_world no_distributions [plain ''b''] (Some (default_env one_world [])) (Some newer) False []
   = Some (Inl (DistributionNotFound (plain ''b'') []))"
  unfolding resolve_def
  by (subst resolve_loop.simps, simp add: one_facts resolve_start_def no_distributions_def)

lemma resolve_failures_witness:
  "obtain_dist (Some newer) (plain ''b'') = None
    \<and> list_all (\<lambda>d. dist_in (plain ''b'') d = Inr False) (env_getitem (default_env one_world []) (rq_key (plain ''b'')))"
  using resolve_failures [OF not_found] by simp

lemma working_set_iterates_witness:
  "\<exists>ds. ws_iter one_set = Inr ds \<and> distinct (map d_key ds) \<and> set (map d_key ds) = set (listed_keys one_set)
    \<and> list_all (\<lambda>d. dget (ws_by_key one_set) (d_key d) = Some d \<and> ws_contains one_set d = dist_eq d d) ds"
proof -
  have "reach no_ws ws_step no_distributions" by (rule reach.intros) (simp add: no_ws_def)
  then have "reach no_ws ws_step one_set"
    unfolding one_set_def by (rule reach.intros) (rule ws_step.step_add)
  then show ?thesis by (rule working_set_iterates)
qed

section \<open>Versions, paths, platforms and lines\<close>

text \<open>
  Specifiers that accept different versions are equal, so a resolution drops the second. Of repetitions of a place side
  by side every second one stays. The versions of macOS are compared as texts. A continuation takes the character before
  the backslash with it, and on the last line the requirement. An extra that is \<open>None\<close> has no place in a text.
\<close>

definition compatible :: "int list \<Rightarrow> specifier_set" where
  "compatible ns = \<lparr>ss_specs = [sample_specifier ''~='' ns], ss_prereleases = None\<rparr>"

lemma compatible_confused: "set_eq (compatible [1, 0]) (compatible [1, 0, 0])"
  by code_simp

lemma compatible_accepts: "set_contains (compatible [1, 0]) (ItemText ''1.1'') (Some True) = Inr True"
  by code_simp

lemma compatible_refuses: "set_contains (compatible [1, 0, 0]) (ItemText ''1.1'') (Some True) = Inr False"
  by code_simp

lemma continuations:
  "requirement_lines [''ab'' @ [CHR 0x5C], ''>=1''] = [''a>=1'']"
  "requirement_lines [''ab'', ''c'' @ [CHR 0x5C]] = [''ab'']"
  by code_simp+

lemma repetition_stays:
  "insert_on (\<lambda>p. p) (sample_dist ''A'' ''1'' []) [''a'', ''/A1'', ''b'', ''/A1'', ''/A1'', ''c''] None True
    = [''a'', ''/A1'', ''b'', ''/A1'', ''c'']"
  by code_simp

lemma platforms_as_texts: "\<not> compatible_platforms (Some ''darwin-8.1.0-x'') (Some ''macosx-10.10-x'')"
  "compatible_platforms (Some ''darwin-8.1.0-x'') (Some ''macosx-10.9-x'')"
  by code_simp+

lemma none_extra:
  "marker_evaluate sample_interpreter [Tuple [Variable ''extra'', Op ''in'', Value ''ab'']] (Some [(''extra'', None)])
    = Inl TypeError"
  by code_simp

end
