(* ===== verification/PkgEntryPoints.thy ===== *)
theory PkgEntryPoints
  imports PkgWorkingSet
begin

text \<open>
  \<open>EntryPoint\<close> of \<open>pkg_resources/__init__.py\<close>, and the operations of distributions and working sets on entry points.
  Importing a module and reading an attribute are given as functions.
\<close>

section \<open>Entry points\<close>

definition word_chr :: "char \<Rightarrow> bool" where
  "word_chr c \<longleftrightarrow> alnum c \<or> c = CHR ''_''"

definition dotted_chr :: "char \<Rightarrow> bool" where
  "dotted_chr c \<longleftrightarrow> word_chr c \<or> c = CHR ''.''"

definition MODULE :: rx where
  "MODULE = seqs [Plus (Chr word_chr), Star (seqs [exact ''.'', Plus (Chr word_chr)]), Eos]"

record entry_point =
  ep_name :: string
  ep_module :: string
  ep_attrs :: "string list"
  ep_extras :: "string list"
  ep_dist :: "dist option"

definition new_entry_point :: "string \<Rightarrow> string \<Rightarrow> string list \<Rightarrow> string list \<Rightarrow> dist option \<Rightarrow> entry_point res" where
  "new_entry_point name module_name attrs extras d =
     (if re_match MODULE module_name = None then Inl ValueError
      else Inr \<lparr>ep_name = name, ep_module = module_name, ep_attrs = attrs, ep_extras = extras, ep_dist = d\<rparr>)"

definition entry_point_str :: "entry_point \<Rightarrow> string" where
  "entry_point_str ep = ep_name ep @ '' = '' @ ep_module ep
     @ (if ep_attrs ep \<noteq> [] then '':'' @ join_with ''.'' (ep_attrs ep) else [])
     @ (if ep_extras ep \<noteq> [] then '' ['' @ join_with '','' (ep_extras ep) @ '']'' else [])"

text \<open>
  The pattern of \<open>parse\<close>. Its name is \<open>.+?\<close>: the shortest text, of at least one character and on one line, with which
  the rest of the pattern matches.
\<close>

fun shortest :: "(rx_state \<Rightarrow> 'a option) \<Rightarrow> rx_state \<Rightarrow> 'a option" where
  "shortest k (b, [], c) = None"
| "shortest k (b, x # xs, c) = (if x = CHR 0x0A then None
     else case k (x # b, xs, c) of Some r \<Rightarrow> Some r | None \<Rightarrow> shortest k (x # b, xs, c))"

definition after_name :: rx where
  "after_name = seqs [Star Space, exact ''='', Star Space, Group ''module'' (Plus (Chr dotted_chr)), Star Space,
     Opt (seqs [exact '':'', Star Space, Group ''attr'' (Plus (Chr dotted_chr))]), Star Space,
     Opt (Group ''extras'' (seqs [exact ''['', any_text, exact '']''])), Star Space, Eos]"

definition entry_match :: "string \<Rightarrow> caps option" where
  "entry_match s = rx_match (Star Space) (\<lambda>(b, ys, c).
     shortest (\<lambda>(b', zs, c'). rx_match after_name (\<lambda>(_, _, c''). Some c'') (b', zs, dset ''name'' (eaten ys zs) c')) (b, ys, c))
     ([], s, [])"

definition parse_extras :: "string option \<Rightarrow> string list res" where
  "parse_extras extras_spec = (if or_empty extras_spec = [] then Inr []
     else bindR (parse_requirement (CHR ''x'' # or_empty extras_spec)) (\<lambda>r.
       if specs r \<noteq> [] then Inl ValueError else Inr (rq_extras r)))"

definition parse_entry_point :: "string \<Rightarrow> dist option \<Rightarrow> entry_point res" where
  "parse_entry_point src d = (case entry_match src of None \<Rightarrow> Inl ValueError
   | Some g \<Rightarrow> bindR (parse_extras (dget g ''extras'')) (\<lambda>extras.
       new_entry_point (group g ''name'') (group g ''module'')
         (if group g ''attr'' = [] then [] else split_on CHR ''.'' (group g ''attr'')) extras d))"

section \<open>Groups and maps\<close>

type_synonym entry_group = "(string, entry_point) dict"

fun parse_group_lines :: "string list \<Rightarrow> dist option \<Rightarrow> entry_group \<Rightarrow> entry_group res" where
  "parse_group_lines [] d this = Inr this"
| "parse_group_lines (l # ls) d this = bindR (parse_entry_point l d) (\<lambda>ep.
     if dget this (ep_name ep) \<noteq> None then Inl ValueError
     else parse_group_lines ls d (dset (ep_name ep) ep this))"

definition parse_group :: "string \<Rightarrow> strs \<Rightarrow> dist option \<Rightarrow> entry_group res" where
  "parse_group name ls d = (if re_match MODULE name = None then Inl ValueError else parse_group_lines (yield_lines ls) d [])"

fun parse_groups :: "(string option \<times> string list) list \<Rightarrow> dist option \<Rightarrow> (string, entry_group) dict
    \<Rightarrow> (string, entry_group) dict res" where
  "parse_groups [] d maps = Inr maps"
| "parse_groups ((None, ls) # ss) d maps = (if ls = [] then parse_groups ss d maps else Inl ValueError)"
| "parse_groups ((Some g, ls) # ss) d maps =
     (if dget maps (strip g) \<noteq> None then Inl ValueError
      else bindR (parse_group (strip g) (Strs (map Str ls)) d) (\<lambda>eg. parse_groups ss d (dset (strip g) eg maps)))"

text \<open>\<open>parse_map\<close> of a text or lines, and of a dictionary.\<close>

definition parse_map :: "strs \<Rightarrow> dist option \<Rightarrow> (string, entry_group) dict res" where
  "parse_map data d = bindR (split_sections data) (\<lambda>ss. parse_groups ss d [])"

definition parse_map_dict :: "(string option, string list) dict \<Rightarrow> dist option \<Rightarrow> (string, entry_group) dict res" where
  "parse_map_dict data d = parse_groups data d []"

section \<open>Entry points of distributions and working sets\<close>

definition entry_map :: "dist \<Rightarrow> (string, entry_group) dict res" where
  "entry_map d = parse_map (Strs (map Str (get_metadata d ''entry_points.txt''))) (Some d)"

definition get_entry_map :: "dist \<Rightarrow> string \<Rightarrow> entry_group res" where
  "get_entry_map d g = bindR (entry_map d) (\<lambda>m. Inr (case dget m g of None \<Rightarrow> [] | Some eg \<Rightarrow> eg))"

definition get_entry_info :: "dist \<Rightarrow> string \<Rightarrow> string \<Rightarrow> entry_point option res" where
  "get_entry_info d g name = bindR (get_entry_map d g) (\<lambda>eg. Inr (dget eg name))"

definition iter_entry_points :: "working_set \<Rightarrow> string \<Rightarrow> string option \<Rightarrow> entry_point list res" where
  "iter_entry_points ws g name = bindR (ws_iter ws) (\<lambda>ds. bindR (map_res (\<lambda>d. get_entry_map d g) ds) (\<lambda>egs.
     Inr (filter (\<lambda>ep. name = None \<or> name = Some (ep_name ep)) (concat (map (map snd) egs)))))"

text \<open>
  \<open>require\<close>: what it raises when extras are asked of an entry point without a distribution has the entry point in the
  place of a distribution.
\<close>

datatype entry_failure = NoDistribution entry_point | Failed failure

definition entry_require :: "world \<Rightarrow> entry_point \<Rightarrow> environment option \<Rightarrow> installer option \<Rightarrow> working_set
    \<Rightarrow> (entry_failure + working_set) option" where
  "entry_require w ep env installer ws = (case ep_dist ep of
     None \<Rightarrow> Some (Inl (if ep_extras ep \<noteq> [] then NoDistribution ep else Failed (Raised AttributeError)))
   | Some d \<Rightarrow> (case requires (w_interpreter w) d (ep_extras ep) of
       Inl f \<Rightarrow> Some (Inl (Failed f))
     | Inr reqs \<Rightarrow> map_option (\<lambda>x. case x of Inl f \<Rightarrow> Inl (Failed f) | Inr items \<Rightarrow> Inr (add_all w items ws))
         (resolve w ws reqs env installer False (ep_extras ep))))"

text \<open>\<open>resolve\<close>: an attribute that is missing is an \<open>ImportError\<close>.\<close>

fun reduce_attrs :: "('o \<Rightarrow> string \<Rightarrow> 'o res) \<Rightarrow> 'o \<Rightarrow> string list \<Rightarrow> 'o res" where
  "reduce_attrs getattr ob [] = Inr ob"
| "reduce_attrs getattr ob (a # as) = bindR (getattr ob a) (\<lambda>ob'. reduce_attrs getattr ob' as)"

definition entry_resolve :: "(string \<Rightarrow> 'o res) \<Rightarrow> ('o \<Rightarrow> string \<Rightarrow> 'o res) \<Rightarrow> entry_point \<Rightarrow> 'o res" where
  "entry_resolve import getattr ep = bindR (import (ep_module ep)) (\<lambda>m.
     case reduce_attrs getattr m (ep_attrs ep) of Inl AttributeError \<Rightarrow> Inl ImportError | x \<Rightarrow> x)"

definition load_entry_point :: "world \<Rightarrow> (string \<Rightarrow> 'o res) \<Rightarrow> ('o \<Rightarrow> string \<Rightarrow> 'o res) \<Rightarrow> dist \<Rightarrow> string \<Rightarrow> string
    \<Rightarrow> working_set \<Rightarrow> (entry_failure + 'o \<times> working_set) option" where
  "load_entry_point w import getattr d g name ws = (case get_entry_info d g name of
     Inl e \<Rightarrow> Some (Inl (Failed (Raised e)))
   | Inr None \<Rightarrow> Some (Inl (Failed (Raised ImportError)))
   | Inr (Some ep) \<Rightarrow> map_option (\<lambda>x. bindR x (\<lambda>ws'. case entry_resolve import getattr ep of
         Inl e \<Rightarrow> Inl (Failed (Raised e)) | Inr ob \<Rightarrow> Inr (ob, ws')))
       (entry_require w ep None None ws))"

end
