(* ===== verification/PkgEntryPointsLaws.thy ===== *)
theory PkgEntryPointsLaws
  imports PkgEntryPoints PkgRequirementsLaws
begin

text \<open>
  Laws of entry points: how the search of the pattern of \<open>EntryPoint.parse\<close> goes through a printed entry point, the round
  trip, and what a group holds.
\<close>

section \<open>The shortest name\<close>

lemma shortest_at:
  assumes "K (rev n @ b, ys, c) = Some x" and "n \<noteq> []" and "CHR 0x0A \<notin> set n"
    and "\<And>u v. n = u @ v \<Longrightarrow> u \<noteq> [] \<Longrightarrow> v \<noteq> [] \<Longrightarrow> K (rev u @ b, v @ ys, c) = None"
  shows "shortest K (b, n @ ys, c) = Some x"
  using assms
proof (induction n arbitrary: b)
  case (Cons d n)
  show ?case
  proof (cases n)
    case Nil
    with Cons.prems show ?thesis by simp
  next
    case (Cons e m)
    have "K (d # b, n @ ys, c) = None" using Cons.prems(4) [of "[d]" n] Cons by simp
    moreover have "shortest K (d # b, n @ ys, c) = Some x"
    proof (rule Cons.IH)
      show "K (rev u @ d # b, v @ ys, c) = None" if "n = u @ v" "u \<noteq> []" "v \<noteq> []" for u v
        using Cons.prems(4) [of "d # u" v] that by simp
    qed (use Cons.prems Cons in simp_all)
    ultimately show ?thesis using Cons.prems(3) by auto
  qed
qed simp

lemma star_chr_Some:
  "rx_match (Star (Chr P)) k (b, xs, c) = Some x \<Longrightarrow> \<exists>us ys. xs = us @ ys \<and> list_all P us \<and> k (rev us @ b, ys, c) = Some x"
proof (induction xs arbitrary: b)
  case (Cons d xs)
  show ?case
  proof (cases "P d \<and> rx_match (Star (Chr P)) k (d # b, xs, c) = Some x")
    case True
    with Cons.IH [of "d # b"] obtain us ys where "xs = us @ ys" "list_all P us" "k (rev us @ d # b, ys, c) = Some x" by blast
    with True show ?thesis by (intro exI [of _ "d # us"] exI [of _ ys]) simp
  next
    case False
    with Cons.prems have "k (b, d # xs, c) = Some x" by (subst (asm) star_unfold) (auto split: if_splits option.splits)
    then show ?thesis by (intro exI [of _ "[]"] exI [of _ "d # xs"]) simp
  qed
qed (simp add: star_chr_stop)

lemma star_chr_last:
  "list_all P (us @ [d]) \<Longrightarrow> k (d # rev us @ b, [], c) = None \<Longrightarrow> k (rev us @ b, [d], c) = Some x
    \<Longrightarrow> rx_match (Star (Chr P)) k (b, us @ [d], c) = Some x"
proof (induction us arbitrary: b)
  case Nil
  then show ?case by (subst star_unfold) (simp add: star_chr_stop)
next
  case (Cons u us)
  from Cons.IH [of "u # b"] Cons.prems have "rx_match (Star (Chr P)) k (u # b, us @ [d], c) = Some x" by simp
  with Cons.prems(1) show ?case by (subst star_unfold) simp
qed

lemma exact_one: "exact [c] = Chr (\<lambda>x. x = c)"
  by (simp add: exact_def cls_def)

lemma star_then:
  assumes "rx_match (Star (Chr P)) (rx_match (Chr Q) f) (b, xs, c) = Some x"
  shows "\<exists>us d zs. xs = us @ d # zs \<and> list_all P us \<and> Q d"
proof -
  from star_chr_Some [OF assms] obtain us ys where "xs = us @ ys" "list_all P us" "rx_match (Chr Q) f (rev us @ b, ys, c) = Some x"
    by blast
  then show ?thesis by (cases ys) (auto split: if_splits)
qed

lemma no_equals_sign:
  assumes "v \<noteq> []" and "\<not> strip_ws (last v)" and "CHR ''='' \<notin> set v"
  shows "rx_match after_name k (b, v @ ys, c) = None"
proof (rule ccontr)
  assume "rx_match after_name k (b, v @ ys, c) \<noteq> None"
  then obtain x where "rx_match after_name k (b, v @ ys, c) = Some x" by blast
  from star_then [OF this [unfolded after_name_def Space_def exact_one seqs.simps rx_match_Seq]]
  obtain us d zs where u: "v @ ys = us @ d # zs" "list_all strip_ws us" and d: "d = CHR ''=''" by blast
  from u(1) consider m where "v = us @ m" "m @ ys = d # zs" | m where "us = v @ m" by (auto simp: append_eq_append_conv2)
  then show False
  proof cases
    case (1 m)
    with u(2) d assms show ?thesis by (cases m) (auto simp: list_all_iff)
  next
    case 2
    with u(2) assms(1,2) show ?thesis by (auto simp: list_all_iff)
  qed
qed

section \<open>Round trip\<close>

definition entry_ok :: "entry_point \<Rightarrow> bool" where
  "entry_ok ep \<longleftrightarrow> ep_name ep \<noteq> [] \<and> \<not> strip_ws (hd (ep_name ep)) \<and> \<not> strip_ws (last (ep_name ep))
     \<and> set (ep_name ep) \<inter> {CHR ''='', CHR 0x0A} = {}
     \<and> ep_module ep \<noteq> [] \<and> list_all dotted_chr (ep_module ep) \<and> re_match MODULE (ep_module ep) \<noteq> None
     \<and> list_all (\<lambda>a. a \<noteq> [] \<and> list_all word_chr a) (ep_attrs ep)
     \<and> list_all (\<lambda>e. is_identifier e \<and> safe_extra e = e) (ep_extras ep) \<and> distinct (ep_extras ep)"

lemma dotted_not_white: "dotted_chr x \<Longrightarrow> \<not> strip_ws x"
  by (auto simp: dotted_chr_def word_chr_def alnum_def is_digit_def strip_ws_def lower_char_def split: if_splits)

definition extras_part :: rx where
  "extras_part = seqs [exact ''['', any_text, exact '']'']"

definition attr_part :: rx where
  "attr_part = seqs [exact '':'', Star Space, Group ''attr'' (Plus (Chr dotted_chr))]"

definition ends :: rx where
  "ends = seqs [Star Space, Opt (Group ''extras'' extras_part), Star Space, Eos]"

definition found :: "rx_state \<Rightarrow> caps option" where
  "found s = Some (snd (snd s))"

lemma after_name_parts:
  "after_name = seqs [Star (Chr strip_ws), Chr (\<lambda>x. x = CHR ''=''), Star (Chr strip_ws), Group ''module'' (Plus (Chr dotted_chr)),
     Star (Chr strip_ws), Opt attr_part, ends]"
  by (simp add: after_name_def attr_part_def ends_def extras_part_def Space_def exact_one)

lemma extras_part_match:
  assumes "CHR 0x0A \<notin> set w" and "k (CHR '']'' # rev w @ CHR ''['' # b, [], c) = Some x"
  shows "rx_match extras_part k (b, ''['' @ w @ '']'', c) = Some x"
proof -
  have "rx_match (Star (Chr (\<lambda>c. c \<noteq> CHR 0x0A))) (rx_match (Chr (\<lambda>x. x = CHR '']'')) k) (CHR ''['' # b, w @ [CHR '']''], c) = Some x"
    by (rule star_chr_last) (use assms in \<open>auto simp: list_all_iff\<close>)
  then show ?thesis by (simp add: extras_part_def any_text_def exact_one)
qed

lemma blanks_end: "rx_match (Seq (Star (Chr strip_ws)) Eos) found (b, [], c) = Some c"
  by (simp add: star_chr_stop found_def)

definition with_extras :: "string list \<Rightarrow> caps \<Rightarrow> caps" where
  "with_extras es c = (if es = [] then c else dset ''extras'' (extras_text es) c)"

lemma ends_match:
  assumes "CHR 0x0A \<notin> set (extras_text es)" and "list_all strip_ws sp"
  shows "rx_match ends found (b, sp @ extras_text es, c) = Some (with_extras es c)"
proof -
  let ?x = "Group ''extras'' extras_part" and ?e = "rx_match (Seq (Star (Chr strip_ws)) Eos) found"
  have "rx_match (Opt ?x) ?e (b', extras_text es, c) = Some (with_extras es c)" for b'
  proof (cases "es = []")
    case True
    have "rx_match ?x ?e (b', [], c) = None" by (simp add: extras_part_def exact_one)
    with True blanks_end show ?thesis by (simp add: opt_skip extras_text_def with_extras_def)
  next
    case False
    let ?w = "join_with '','' es"
    have w: "extras_text es = ''['' @ ?w @ '']''" "CHR 0x0A \<notin> set ?w" using False assms(1) by (simp_all add: extras_text_def)
    have "rx_match ?x ?e (b', ''['' @ ?w @ '']'', c) = Some (with_extras es c)"
      unfolding rx_match.simps(6)
      by (rule extras_part_match [OF w(2)]) (use False w(1) blanks_end in \<open>simp add: with_extras_def eaten_def\<close>)
    then show ?thesis unfolding w(1) by (rule opt_take)
  qed
  moreover have "stops strip_ws (extras_text es)" by (simp add: extras_text_def strip_ws_def)
  ultimately show ?thesis
    unfolding ends_def Space_def seqs.simps rx_match_Seq
    by (intro star_chr_take [OF assms(2)]) (simp_all add: rx_match_Seq)
qed

definition with_attrs :: "string list \<Rightarrow> caps \<Rightarrow> caps" where
  "with_attrs as c = (if as = [] then c else dset ''attr'' (join_with ''.'' as) c)"

definition attrs_text :: "string list \<Rightarrow> string" where
  "attrs_text as = (if as = [] then [] else '':'' @ join_with ''.'' as)"

definition blank_extras :: "string list \<Rightarrow> string" where
  "blank_extras es = (if es = [] then [] else '' '' @ extras_text es)"

lemma attrs_match:
  assumes "CHR 0x0A \<notin> set (extras_text es)" and "list_all dotted_chr (join_with ''.'' as)" and "as \<noteq> [] \<Longrightarrow> join_with ''.'' as \<noteq> []"
  shows "rx_match (Seq (Star (Chr strip_ws)) (Seq (Opt attr_part) ends)) found (b, attrs_text as @ blank_extras es, c)
    = Some (with_extras es (with_attrs as c))"
proof -
  have white: "strip_ws (CHR '' '')" by (simp add: strip_ws_def)
  obtain sp where sp: "blank_extras es = sp @ extras_text es" "list_all strip_ws sp"
    using white by (cases "es = []") (auto simp: blank_extras_def extras_text_def)
  have ends: "rx_match ends found (b, sp' @ extras_text es, c') = Some (with_extras es c')" if "list_all strip_ws sp'" for b sp' c'
    using ends_match [OF assms(1) that] .
  show ?thesis
  proof (cases "as = []")
    case True
    have "rx_match attr_part (rx_match ends found) (b', extras_text es, c) = None" for b'
      by (cases "es = []") (simp_all add: attr_part_def exact_one extras_text_def)
    then have "rx_match (Opt attr_part) (rx_match ends found) (b', extras_text es, c) = Some (with_extras es c)" for b'
      using ends [of "[]" b' c] by (simp add: opt_skip)
    moreover have "stops strip_ws (extras_text es)" by (simp add: extras_text_def strip_ws_def)
    ultimately show ?thesis unfolding rx_match_Seq attrs_text_def sp(1) using True
      by (auto intro!: star_chr_take [OF sp(2)] simp: with_attrs_def)
  next
    case False
    let ?w = "join_with ''.'' as"
    have stops: "stops dotted_chr (blank_extras es)"
      by (simp add: blank_extras_def dotted_chr_def word_chr_def alnum_def is_digit_def lower_char_def)
    have "stops strip_ws (?w @ blank_extras es)" using False assms(2,3) dotted_not_white by (cases ?w) auto
    moreover have "rx_match (Plus (Chr dotted_chr)) (\<lambda>(b', ys, c'). rx_match ends found (b', ys, dset ''attr'' (eaten (?w @ blank_extras es) ys) c'))
        (b', ?w @ blank_extras es, c) = Some (with_extras es (with_attrs as c))" for b'
      by (rule plus_chr_take [OF assms(2) _ stops]) (use False assms(3) ends [OF sp(2)] sp(1) in \<open>auto simp: with_attrs_def\<close>)
    ultimately have "rx_match attr_part (rx_match ends found) (b, '':'' @ ?w @ blank_extras es, c) = Some (with_extras es (with_attrs as c))"
      by (simp add: attr_part_def exact_one Space_def star_chr_stop)
    then have "rx_match (Opt attr_part) (rx_match ends found) (b, '':'' @ ?w @ blank_extras es, c) = Some (with_extras es (with_attrs as c))"
      by (rule opt_take)
    with False show ?thesis by (simp add: star_chr_stop attrs_text_def strip_ws_def)
  qed
qed

lemma after_name_match:
  assumes "m \<noteq> []" and "list_all dotted_chr m"
    and "CHR 0x0A \<notin> set (extras_text es)" and "list_all dotted_chr (join_with ''.'' as)" and "as \<noteq> [] \<Longrightarrow> join_with ''.'' as \<noteq> []"
  shows "rx_match after_name found (b, '' = '' @ m @ attrs_text as @ blank_extras es, c)
    = Some (with_extras es (with_attrs as (dset ''module'' m c)))"
proof -
  let ?t = "attrs_text as @ blank_extras es"
  note rest = attrs_match [OF assms(3-5)]
  have stops: "stops dotted_chr ?t"
    by (simp add: attrs_text_def blank_extras_def dotted_chr_def word_chr_def alnum_def is_digit_def lower_char_def)
  have "rx_match (Plus (Chr dotted_chr)) (\<lambda>(b', ys, c'). rx_match (Seq (Star (Chr strip_ws)) (Seq (Opt attr_part) ends)) found
      (b', ys, dset ''module'' (eaten (m @ ?t) ys) c')) (b', m @ ?t, c)
    = Some (with_extras es (with_attrs as (dset ''module'' m c)))" for b'
    by (rule plus_chr_take [OF assms(2,1) stops]) (simp add: rest del: rx_match.simps)
  then have module: "rx_match (Group ''module'' (Plus (Chr dotted_chr))) (rx_match (Seq (Star (Chr strip_ws)) (Seq (Opt attr_part) ends)) found)
      (b', m @ ?t, c) = Some (with_extras es (with_attrs as (dset ''module'' m c)))" for b'
    by (simp del: rx_match.simps(3))
  have white: "list_all strip_ws '' ''" by (simp add: strip_ws_def)
  have eq: "stops strip_ws (''= '' @ m @ ?t)" by (simp add: strip_ws_def)
  have m: "stops strip_ws (m @ ?t)" using assms(1,2) dotted_not_white by (cases m) auto
  let ?k = "rx_match (Group ''module'' (Plus (Chr dotted_chr))) (rx_match (Seq (Star (Chr strip_ws)) (Seq (Opt attr_part) ends)) found)"
  let ?x = "with_extras es (with_attrs as (dset ''module'' m c))"
  have "rx_match (Star (Chr strip_ws)) ?k (b', '' '' @ m @ ?t, c) = Some ?x" for b'
    using star_chr_take [of strip_ws "'' ''" "m @ ?t" ?k b' c ?x] white m module by (simp del: rx_match.simps)
  then have "rx_match (Chr (\<lambda>x. x = CHR ''='')) (rx_match (Star (Chr strip_ws)) ?k) (b', ''= '' @ m @ ?t, c) = Some ?x" for b'
    by (simp del: rx_match.simps(3,6))
  then have "rx_match (Star (Chr strip_ws)) (rx_match (Chr (\<lambda>x. x = CHR ''='')) (rx_match (Star (Chr strip_ws)) ?k))
      (b, '' '' @ ''= '' @ m @ ?t, c) = Some ?x"
    using star_chr_take [of strip_ws "'' ''" "''= '' @ m @ ?t" "rx_match (Chr (\<lambda>x. x = CHR ''='')) (rx_match (Star (Chr strip_ws)) ?k)" b c ?x]
      white eq by (simp del: rx_match.simps)
  then show ?thesis unfolding after_name_parts seqs.simps rx_match_Seq by (simp del: rx_match.simps(2,3,4,6))
qed

lemma entry_text: "entry_point_str ep = ep_name ep @ '' = '' @ ep_module ep @ attrs_text (ep_attrs ep) @ blank_extras (ep_extras ep)"
  by (simp add: entry_point_str_def attrs_text_def blank_extras_def extras_text_def)

lemma id_chars: "id_chr c \<Longrightarrow> \<not> is_break c \<and> \<not> strip_ws c \<and> c \<noteq> CHR '' '' \<and> c \<noteq> CHR 0x0A"
proof -
  have "\<forall>c. id_chr c \<longrightarrow> \<not> is_break c \<and> \<not> strip_ws c \<and> c \<noteq> CHR '' '' \<and> c \<noteq> CHR 0x0A" by code_simp
  then show "id_chr c \<Longrightarrow> \<not> is_break c \<and> \<not> strip_ws c \<and> c \<noteq> CHR '' '' \<and> c \<noteq> CHR 0x0A" by blast
qed

lemma set_join: "set (join_with s ps) \<subseteq> set s \<union> \<Union> (set ` set ps)"
  by (induction s ps rule: join_with.induct) auto

definition tame_chr :: "char \<Rightarrow> bool" where
  "tame_chr c \<longleftrightarrow> \<not> is_break c \<and> \<not> strip_ws c \<and> c \<noteq> CHR '' '' \<and> c \<noteq> CHR 0x0A"

lemma extras_tame:
  assumes "list_all is_identifier es"
  shows "list_all tame_chr (extras_text es)"
proof -
  have "tame_chr c" if "c \<in> set (join_with '','' es)" for c
    using that set_join [of "'',''" es] assms id_chars
    by (fastforce simp: list_all_iff is_identifier_def tame_chr_def is_break_def strip_ws_def)
  moreover have "tame_chr (CHR ''['')" "tame_chr (CHR '']'')" by (simp_all add: tame_chr_def is_break_def strip_ws_def)
  ultimately show ?thesis by (auto simp: extras_text_def list_all_iff)
qed

lemma entry_matches:
  assumes "entry_ok ep"
  shows "entry_match (entry_point_str ep)
    = Some (with_extras (ep_extras ep) (with_attrs (ep_attrs ep) [(''name'', ep_name ep), (''module'', ep_module ep)]))"
proof -
  let ?n = "ep_name ep" and ?r = "'' = '' @ ep_module ep @ attrs_text (ep_attrs ep) @ blank_extras (ep_extras ep)"
  let ?x = "with_extras (ep_extras ep) (with_attrs (ep_attrs ep) [(''name'', ep_name ep), (''module'', ep_module ep)])"
  let ?K = "\<lambda>(b', zs, c'). rx_match after_name found (b', zs, dset ''name'' (eaten (?n @ ?r) zs) c')"
  have name: "?n \<noteq> []" "\<not> strip_ws (hd ?n)" "\<not> strip_ws (last ?n)" "CHR ''='' \<notin> set ?n" "CHR 0x0A \<notin> set ?n"
    using assms by (auto simp: entry_ok_def)
  have es: "CHR 0x0A \<notin> set (extras_text (ep_extras ep))"
    using assms extras_tame by (fastforce simp: entry_ok_def list_all_iff tame_chr_def)
  have attrs: "list_all dotted_chr (join_with ''.'' (ep_attrs ep))" "ep_attrs ep \<noteq> [] \<Longrightarrow> join_with ''.'' (ep_attrs ep) \<noteq> []"
  proof -
    show "list_all dotted_chr (join_with ''.'' (ep_attrs ep))"
      using set_join [of "''.''" "ep_attrs ep"] assms by (fastforce simp: entry_ok_def list_all_iff dotted_chr_def)
    show "join_with ''.'' (ep_attrs ep) \<noteq> []" if "ep_attrs ep \<noteq> []"
      using that assms by (cases "ep_attrs ep" rule: list.exhaust; cases "tl (ep_attrs ep)") (auto simp: entry_ok_def)
  qed
  have "shortest ?K ([], ?n @ ?r, []) = Some ?x"
  proof (rule shortest_at)
    show "?K (rev ?n @ [], ?r, []) = Some ?x"
      using after_name_match [OF _ _ es attrs] assms by (simp add: entry_ok_def)
    show "?K (rev u @ [], v @ ?r, []) = None" if "?n = u @ v" "u \<noteq> []" "v \<noteq> []" for u v
      using no_equals_sign [of v] name that by auto
  qed (use name in simp_all)
  moreover have "stops strip_ws (?n @ ?r)" using name by (cases ?n) simp_all
  moreover have "(\<lambda>(_, _, c). Some c) = found" by (simp add: found_def fun_eq_iff)
  ultimately show ?thesis unfolding entry_match_def entry_text Space_def by (simp add: star_chr_stop)
qed

lemma splitlines_one: "s \<noteq> [] \<Longrightarrow> list_all (\<lambda>c. \<not> is_break c) s \<Longrightarrow> splitlines s = [s]"
  by (subst splitlines.simps) (simp add: list_all_iff takeWhile_eq_all_conv [THEN iffD2] dropWhile_eq_Nil_conv [THEN iffD2])

lemma drop_comment_id: "CHR '' '' \<notin> set s \<Longrightarrow> drop_comment s = s"
  by (induction s) auto

lemma extras_read:
  assumes "list_all (\<lambda>e. is_identifier e \<and> safe_extra e = e) es" and "distinct es" and "es \<noteq> []"
  shows "parse_extras (Some (extras_text es)) = Inr es"
proof -
  let ?s = "CHR ''x'' # extras_text es"
  have x: "is_identifier ''x''" by code_simp
  have t: "list_all tame_chr ?s" using extras_tame [of es] assms(1) by (simp add: list_all_iff tame_chr_def is_break_def strip_ws_def)
  have "strip ?s = ?s" using strip_spaced [of "[]" ?s] t by (simp add: list_all_iff tame_chr_def)
  then have "yield_lines (Str ?s) = [?s]"
    using splitlines_one [of ?s] t by (simp add: list_all_iff tame_chr_def)
  moreover have "drop_comment ?s = ?s" by (rule drop_comment_id) (use t in \<open>auto simp: list_all_iff tame_chr_def\<close>)
  then have "requirement_lines [?s] = [?s]" using assms(3) by (simp add: extras_text_def suffix_def)
  moreover have "new_specifier_set [] None = Inr \<lparr>ss_specs = [], ss_prereleases = None\<rparr>" by code_simp
  then have "new_base_requirement ?s = Inr \<lparr>rq_name = ''x'', rq_url = None, rq_extras = es,
      rq_specifier = \<lparr>ss_specs = [], ss_prereleases = None\<rparr>, rq_marker = None\<rparr>"
    using read_with_specifiers [of "''x''" es "[]" None "[]"] assms x by (simp add: marker_text_def list_all_iff)
  moreover have "map safe_extra es = es" using assms(1) by (simp add: list_all_iff map_idI)
  ultimately show ?thesis using assms(3)
    by (simp add: parse_extras_def or_empty_def extras_text_def parse_requirement_def parse_requirements_def new_requirement_def
      specs_def base_requirement.defs requirement.defs)
qed

text \<open>
  C20: An entry point prints as a text that reads back as the same entry point, up to the order of the extras, which go
  through a set. The name is not empty and has no line feed, no \<open>=\<close> and no white space at its ends; the module is
  one that the constructor accepts; the attributes are words; the extras are distinct identifiers that
  \<open>safe_extra\<close> leaves as they are (in lower case, say).
\<close>
theorem entry_point_roundtrip:
  assumes "entry_ok ep"
  shows "\<exists>es. parse_entry_point (entry_point_str ep) (ep_dist ep) = Inr (ep \<lparr>ep_extras := es\<rparr>)
    \<and> set es = set (ep_extras ep) \<and> distinct es"
proof -
  let ?c = "with_extras (ep_extras ep) (with_attrs (ep_attrs ep) [(''name'', ep_name ep), (''module'', ep_module ep)])"
  have "parse_extras (dget ?c ''extras'') = Inr (ep_extras ep)"
    using extras_read [of "ep_extras ep"] assms
    by (cases "ep_extras ep = []") (simp_all add: with_extras_def with_attrs_def entry_ok_def parse_extras_def or_empty_def)
  moreover have "group ?c ''name'' = ep_name ep" "group ?c ''module'' = ep_module ep"
    by (simp_all add: group_def or_empty_def with_extras_def with_attrs_def)
  moreover have "(if group ?c ''attr'' = [] then [] else split_on CHR ''.'' (group ?c ''attr'')) = ep_attrs ep"
  proof (cases "ep_attrs ep = []")
    case False
    have "\<not> word_chr (CHR ''.'')" by code_simp
    then have "\<forall>a\<in>set (ep_attrs ep). CHR ''.'' \<notin> set a" using assms by (auto simp: entry_ok_def list_all_iff)
    moreover from False assms have "join_with ''.'' (ep_attrs ep) \<noteq> []"
      by (cases "ep_attrs ep"; cases "tl (ep_attrs ep)") (auto simp: entry_ok_def)
    ultimately show ?thesis using False split_join [of "ep_attrs ep" "CHR ''.''"]
      by (simp add: group_def or_empty_def with_extras_def with_attrs_def)
  qed (simp add: group_def or_empty_def with_extras_def with_attrs_def)
  ultimately have "parse_entry_point (entry_point_str ep) (ep_dist ep) = Inr ep"
    using assms unfolding parse_entry_point_def entry_matches [OF assms] by (simp add: new_entry_point_def entry_ok_def)
  moreover have "distinct (ep_extras ep)" using assms by (simp add: entry_ok_def)
  ultimately show ?thesis by (intro exI [of _ "ep_extras ep"]) simp
qed

definition sample_entry :: entry_point where
  "sample_entry = \<lparr>ep_name = ''b c'', ep_module = ''a.b_1'', ep_attrs = [''M'', ''run''], ep_extras = [''y'', ''x-2''], ep_dist = None\<rparr>"

lemma entry_point_roundtrip_witness:
  "entry_point_str sample_entry = ''b c = a.b_1:M.run [y,x-2]''
    \<and> (\<exists>es. parse_entry_point ''b c = a.b_1:M.run [y,x-2]'' None = Inr (sample_entry \<lparr>ep_extras := es\<rparr>) \<and> set es = {''y'', ''x-2''})"
proof -
  have "entry_ok sample_entry" by code_simp
  moreover have "entry_point_str sample_entry = ''b c = a.b_1:M.run [y,x-2]''" by code_simp
  ultimately show ?thesis using entry_point_roundtrip [of sample_entry] by (auto simp: sample_entry_def)
qed

section \<open>Groups\<close>

text \<open>A group holds an entry point for each of its lines, in their order; names that repeat are refused.\<close>

lemma group_keeps_all:
  assumes "parse_group_lines ls d this = Inr eg" and "dict_ok this"
  shows "dict_ok eg \<and> (\<exists>eps. map_res (\<lambda>l. parse_entry_point l d) ls = Inr eps \<and> eg = this @ map (\<lambda>ep. (ep_name ep, ep)) eps)"
  using assms
proof (induction ls d this rule: parse_group_lines.induct)
  case (2 l ls d this)
  from "2.prems"(1) obtain ep where ep: "parse_entry_point l d = Inr ep" "dget this (ep_name ep) = None"
    "parse_group_lines ls d (dset (ep_name ep) ep this) = Inr eg" by (auto simp: bindR_eq_Inr split: if_splits)
  moreover have "dict_ok (this @ [(ep_name ep, ep)])"
    using ep(2) "2.prems"(2) by (auto simp: dict_ok_def map_of_eq_None_iff)
  ultimately obtain eps where "dict_ok eg" "map_res (\<lambda>l. parse_entry_point l d) ls = Inr eps"
    "eg = (this @ [(ep_name ep, ep)]) @ map (\<lambda>ep. (ep_name ep, ep)) eps"
    using "2.IH" [of ep] dset_new [of "ep_name ep" this] ep(2) by (auto simp: map_of_eq_None_iff)
  with ep(1) show ?case by auto
qed simp

end
