(* ===== verification/Dataclasses.thy ===== *)
theory Dataclasses
  imports PyRegex
begin

text \<open>
  \<open>dataclasses310.py\<close>: fields, the decorator with the methods that it generates, and the functions on classes and
  instances. The texts that the code compiles stand here as the code they are: the parameters and assignments of
  \<open>__init__\<close>, the names that the comparisons, \<open>__repr__\<close> and \<open>__hash__\<close> go through. A class knows the classes behind it in
  its method resolution order. The modules are a dictionary from names to what they hold.
\<close>

section \<open>Values and fields\<close>

text \<open>Values without identity; \<open>VNamed\<close> is a named tuple, \<open>VInst\<close> an instance with its dictionary.\<close>

datatype pyval =
    VNone
  | VBool bool
  | VInt int
  | VStr string
  | VList "pyval list"
  | VTuple "pyval list"
  | VDict "(pyval \<times> pyval) list"
  | VSet "pyval list"
  | VNamed string "pyval list"
  | VInst string "(string \<times> pyval) list"
  | VOther string

datatype annot = ClassVarT | InitVarT | KwOnlyT | TextT string | OtherT string

datatype field_kind = FIELD | FIELD_CLASSVAR | FIELD_INITVAR

text \<open>\<open>Field\<close>; \<open>None\<close> is \<open>MISSING\<close> for the defaults and for \<open>kw_only\<close>. A factory is known by its name.\<close>

record dc_field =
  f_name :: string
  f_type :: annot
  f_default :: "pyval option"
  f_factory :: "string option"
  f_init :: bool
  f_repr :: bool
  f_hash :: "bool option"
  f_compare :: bool
  f_metadata :: "(string, pyval) dict"
  f_kw_only :: "bool option"
  f_kind :: field_kind

definition new_field :: "pyval option \<Rightarrow> string option \<Rightarrow> bool \<Rightarrow> bool \<Rightarrow> bool option \<Rightarrow> bool \<Rightarrow> (string, pyval) dict
    \<Rightarrow> bool option \<Rightarrow> dc_field res" where
  "new_field dflt factory init repr hash compare metadata kw_only =
     (if dflt \<noteq> None \<and> factory \<noteq> None then Inl ValueError
      else Inr \<lparr>f_name = [], f_type = OtherT [], f_default = dflt, f_factory = factory, f_init = init, f_repr = repr,
        f_hash = hash, f_compare = compare, f_metadata = metadata, f_kw_only = kw_only, f_kind = FIELD\<rparr>)"

definition fields_in_init_order :: "dc_field list \<Rightarrow> dc_field list \<times> dc_field list" where
  "fields_in_init_order fs =
     (filter (\<lambda>f. f_init f \<and> f_kw_only f \<noteq> Some True) fs, filter (\<lambda>f. f_init f \<and> f_kw_only f = Some True) fs)"

section \<open>Generated code\<close>

text \<open>
  What a line of the body of \<open>__init__\<close> stores: a parameter; what the factory makes if the parameter is the marker of
  a default factory, else the parameter; what the factory makes; the default.
\<close>

datatype source = Param string | ParamOr string string | Factory string | Default pyval

record init_code =
  ic_self :: string
  ic_std :: "dc_field list"
  ic_kw :: "dc_field list"
  ic_body :: "(string \<times> source) list"
  ic_post :: "string list option"

datatype made =
    MadeInit init_code
  | MadeRepr "string list"
  | MadeCmp string "string list"
  | MadeSetattr string "string list"
  | MadeDelattr string "string list"
  | MadeHash "string list"
  | MadeGetstate
  | MadeSetstate

definition field_init :: "bool \<Rightarrow> dc_field \<Rightarrow> (string \<times> source) option" where
  "field_init slots f =
     (case (case f_factory f of
         Some fac \<Rightarrow> Some (if f_init f then ParamOr (f_name f) fac else Factory fac)
       | None \<Rightarrow> if f_init f then Some (Param (f_name f))
           else (case f_default f of Some v \<Rightarrow> if slots then Some (Default v) else None | None \<Rightarrow> None)) of
       None \<Rightarrow> None
     | Some src \<Rightarrow> if f_kind f = FIELD_INITVAR then None else Some (f_name f, src))"

definition has_default :: "dc_field \<Rightarrow> bool" where
  "has_default f \<longleftrightarrow> \<not> (f_default f = None \<and> f_factory f = None)"

fun check_defaults :: "bool \<Rightarrow> dc_field list \<Rightarrow> unit res" where
  "check_defaults seen_default [] = Inr ()"
| "check_defaults seen_default (f # fs) =
     (if f_init f
      then (if has_default f then check_defaults True fs
            else if seen_default then Inl TypeError else check_defaults seen_default fs)
      else check_defaults seen_default fs)"

definition init_fn :: "dc_field list \<Rightarrow> dc_field list \<Rightarrow> dc_field list \<Rightarrow> bool \<Rightarrow> string \<Rightarrow> bool \<Rightarrow> init_code res" where
  "init_fn fs std_fields kw_only_fields has_post_init self_name slots =
     bindR (check_defaults False std_fields) (\<lambda>_. Inr
       \<lparr>ic_self = self_name, ic_std = std_fields, ic_kw = kw_only_fields, ic_body = List.map_filter (field_init slots) fs,
        ic_post = (if has_post_init then Some (map f_name (filter (\<lambda>f. f_kind f = FIELD_INITVAR) fs)) else None)\<rparr>)"

section \<open>Classes\<close>

text \<open>
  Attributes of classes: fields that were written in the body, the members that slots make, values and generated methods.
  Of a class behind another one in the resolution order: its dictionary, and the fields and the \<open>frozen\<close> flag that it has or
  inherits, if it is a dataclass or derived from one. \<open>pc_remade\<close> tells that slots have made a new class after the methods.
\<close>

datatype attr = FieldAttr dc_field | MemberAttr | ValAttr pyval | MadeAttr made

record base_class =
  bs_dict :: "(string, attr) dict"
  bs_fields :: "(string, dc_field) dict option"
  bs_frozen :: bool

record pyclass =
  pc_name :: string
  pc_module :: string
  pc_dict :: "(string, attr) dict"
  pc_annotations :: "(string, annot) dict"
  pc_bases :: "base_class list"
  pc_fields :: "(string, dc_field) dict option"
  pc_frozen :: bool
  pc_remade :: bool

definition own_attr :: "pyclass \<Rightarrow> string \<Rightarrow> attr option" where
  "own_attr c n = dget (pc_dict c) n"

fun first_attr :: "(string, attr) dict list \<Rightarrow> string \<Rightarrow> attr option" where
  "first_attr [] n = None"
| "first_attr (d # ds) n = (case dget d n of Some a \<Rightarrow> Some a | None \<Rightarrow> first_attr ds n)"

definition class_attr :: "pyclass \<Rightarrow> string \<Rightarrow> attr option" where
  "class_attr c n = first_attr (pc_dict c # map bs_dict (pc_bases c)) n"

definition set_attr :: "string \<Rightarrow> attr \<Rightarrow> pyclass \<Rightarrow> pyclass" where
  "set_attr n a c = c \<lparr>pc_dict := dset n a (pc_dict c)\<rparr>"

text \<open>\<open>_set_new_attribute\<close>: whether the attribute was there, and the class.\<close>

definition set_new_attribute :: "string \<Rightarrow> attr \<Rightarrow> pyclass \<Rightarrow> bool \<times> pyclass" where
  "set_new_attribute n a c = (if own_attr c n \<noteq> None then (True, c) else (False, set_attr n a c))"

definition is_field_attr :: "attr option \<Rightarrow> bool" where
  "is_field_attr a \<longleftrightarrow> (case a of Some (FieldAttr _) \<Rightarrow> True | _ \<Rightarrow> False)"

section \<open>Annotations\<close>

text \<open>Names in modules: other modules, annotations, and anything else.\<close>

datatype binding = BModule string | BAnnot annot | BOther

record modules =
  md_modules :: "(string, (string, binding) dict) dict"
  md_self :: string

definition word_character :: "char \<Rightarrow> bool" where
  "word_character c \<longleftrightarrow> alnum c \<or> c = CHR ''_''"

definition MODULE_IDENTIFIER_RE :: rx where
  "MODULE_IDENTIFIER_RE = seqs [Opt (seqs [Star Space, Group ''1'' (Plus (Chr word_character)), Star Space, Chr (\<lambda>c. c = CHR ''.'')]),
     Star Space, Group ''2'' (Plus (Chr word_character))]"

text \<open>The name of the module in which \<open>typing.ClassVar\<close>, \<open>InitVar\<close> or \<open>KW_ONLY\<close> is defined is that of the module it is looked for in.\<close>

definition is_type :: "modules \<Rightarrow> pyclass \<Rightarrow> string \<Rightarrow> string \<Rightarrow> annot \<Rightarrow> bool res" where
  "is_type mods klass annotation a_module wanted = (case re_match MODULE_IDENTIFIER_RE annotation of
     None \<Rightarrow> Inr False
   | Some g \<Rightarrow>
     (let found = (\<lambda>ns. ns \<noteq> [] \<and> (case dget g ''2'' of None \<Rightarrow> False | Some n \<Rightarrow> dget ns n = Some (BAnnot wanted)))
      in case dget g ''1'' of
         None \<Rightarrow> (case dget (md_modules mods) (pc_module klass) of None \<Rightarrow> Inl AttributeError | Some ns \<Rightarrow> Inr (found ns))
       | Some m \<Rightarrow> (case dget (md_modules mods) (pc_module klass) of
             None \<Rightarrow> Inr False
           | Some ns \<Rightarrow> if dget ns m \<noteq> Some (BModule a_module) then Inr False
               else (case dget (md_modules mods) a_module of None \<Rightarrow> Inl AttributeError | Some ns' \<Rightarrow> Inr (found ns')))))"

definition annotates :: "modules \<Rightarrow> pyclass \<Rightarrow> annot \<Rightarrow> string \<Rightarrow> annot \<Rightarrow> bool res" where
  "annotates mods klass a a_module wanted =
     (if a = wanted then Inr True else case a of TextT s \<Rightarrow> is_type mods klass s a_module wanted | _ \<Rightarrow> Inr False)"

definition kind_of :: "modules \<Rightarrow> pyclass \<Rightarrow> annot \<Rightarrow> field_kind res" where
  "kind_of mods klass a =
     bindR (if dget (md_modules mods) ''typing'' = None then Inr False else annotates mods klass a ''typing'' ClassVarT) (\<lambda>cv.
       if cv then Inr FIELD_CLASSVAR
       else bindR (annotates mods klass a (md_self mods) InitVarT) (\<lambda>iv. Inr (if iv then FIELD_INITVAR else FIELD)))"

definition mutable :: "pyval option \<Rightarrow> bool" where
  "mutable v \<longleftrightarrow> (case v of Some (VList _) \<Rightarrow> True | Some (VDict _) \<Rightarrow> True | Some (VSet _) \<Rightarrow> True | _ \<Rightarrow> False)"

definition plain_field :: "pyval option \<Rightarrow> dc_field res" where
  "plain_field dflt = new_field dflt None True True None True [] None"

definition get_field :: "modules \<Rightarrow> pyclass \<Rightarrow> string \<Rightarrow> annot \<Rightarrow> bool \<Rightarrow> dc_field res" where
  "get_field mods klass a_name a_type default_kw_only =
     bindR (case class_attr klass a_name of
         Some (FieldAttr f) \<Rightarrow> Inr f
       | Some MemberAttr \<Rightarrow> plain_field None
       | Some (ValAttr v) \<Rightarrow> plain_field (Some v)
       | Some (MadeAttr _) \<Rightarrow> plain_field (Some (VOther a_name))
       | None \<Rightarrow> plain_field None) (\<lambda>f0.
     bindR (kind_of mods klass a_type) (\<lambda>kind.
     let f = f0 \<lparr>f_name := a_name, f_type := a_type, f_kind := kind\<rparr>
     in if kind \<noteq> FIELD \<and> f_factory f \<noteq> None then Inl TypeError
        else if kind = FIELD_CLASSVAR \<and> f_kw_only f \<noteq> None then Inl TypeError
        else if kind = FIELD \<and> mutable (f_default f) then Inl ValueError
        else Inr (if kind \<noteq> FIELD_CLASSVAR \<and> f_kw_only f = None then f \<lparr>f_kw_only := Some default_kw_only\<rparr> else f)))"

section \<open>The decorator\<close>

record options =
  op_init :: bool
  op_repr :: bool
  op_eq :: bool
  op_order :: bool
  op_unsafe_hash :: bool
  op_frozen :: bool
  op_match_args :: bool
  op_kw_only :: bool
  op_slots :: bool

text \<open>The fields of the bases, from the last one in the resolution order on.\<close>

definition add_fields :: "dc_field list \<Rightarrow> (string, dc_field) dict \<Rightarrow> (string, dc_field) dict" where
  "add_fields fs d = fold (\<lambda>f. dset (f_name f) f) fs d"

definition base_fields :: "pyclass \<Rightarrow> (string, dc_field) dict" where
  "base_fields klass = fold (\<lambda>b d. case bs_fields b of None \<Rightarrow> d | Some fs \<Rightarrow> add_fields (map snd fs) d) (rev (pc_bases klass)) []"

text \<open>The annotations in turn; \<open>KW_ONLY\<close> is no field and may come once.\<close>

fun own_fields :: "modules \<Rightarrow> pyclass \<Rightarrow> (string, annot) dict \<Rightarrow> bool \<Rightarrow> bool \<Rightarrow> dc_field list res" where
  "own_fields mods klass [] seen kw_only = Inr []"
| "own_fields mods klass ((n, a) # as) seen kw_only =
     bindR (annotates mods klass a (md_self mods) KwOnlyT) (\<lambda>marker.
       if marker then (if seen then Inl TypeError else own_fields mods klass as True True)
       else bindR (get_field mods klass n a kw_only) (\<lambda>f. bindR (own_fields mods klass as seen kw_only) (\<lambda>fs. Inr (f # fs))))"

text \<open>A field object in the body of the class gives way to its default, or goes.\<close>

definition real_default :: "dc_field \<Rightarrow> pyclass \<Rightarrow> pyclass res" where
  "real_default f klass =
     (if \<not> is_field_attr (class_attr klass (f_name f)) then Inr klass
      else case f_default f of
        Some v \<Rightarrow> Inr (set_attr (f_name f) (ValAttr v) klass)
      | None \<Rightarrow> if own_attr klass (f_name f) = None then Inl AttributeError
          else Inr (klass \<lparr>pc_dict := ddel (f_name f) (pc_dict klass)\<rparr>))"

fun real_defaults :: "dc_field list \<Rightarrow> pyclass \<Rightarrow> pyclass res" where
  "real_defaults [] klass = Inr klass"
| "real_defaults (f # fs) klass = bindR (real_default f klass) (real_defaults fs)"

definition stray_field :: "pyclass \<Rightarrow> bool" where
  "stray_field klass \<longleftrightarrow> list_ex (\<lambda>(n, a). is_field_attr (Some a) \<and> dget (pc_annotations klass) n = None) (pc_dict klass)"

definition check_frozen :: "bool \<Rightarrow> pyclass \<Rightarrow> unit res" where
  "check_frozen frozen klass =
     (let bs = filter (\<lambda>b. bs_fields b \<noteq> None) (pc_bases klass)
      in guardR (bs = [] \<or> list_ex bs_frozen bs = frozen) TypeError)"

definition real_fields :: "(string, dc_field) dict \<Rightarrow> dc_field list" where
  "real_fields d = filter (\<lambda>f. f_kind f = FIELD) (map snd d)"

definition init_fields :: "(string, dc_field) dict \<Rightarrow> dc_field list" where
  "init_fields d = filter (\<lambda>f. f_kind f \<in> {FIELD, FIELD_INITVAR}) (map snd d)"

definition compare_names :: "(string, dc_field) dict \<Rightarrow> string list" where
  "compare_names d = map f_name (filter f_compare (real_fields d))"

definition hash_names :: "(string, dc_field) dict \<Rightarrow> string list" where
  "hash_names d = map f_name (filter (\<lambda>f. case f_hash f of None \<Rightarrow> f_compare f | Some h \<Rightarrow> h) (real_fields d))"

definition add_init :: "options \<Rightarrow> (string, dc_field) dict \<Rightarrow> pyclass \<Rightarrow> pyclass res" where
  "add_init opts d klass =
     (if \<not> op_init opts then Inr klass
      else let (std, kw) = fields_in_init_order (init_fields d)
        in bindR (init_fn (init_fields d) std kw (class_attr klass ''__post_init__'' \<noteq> None)
             (if dget d ''self'' \<noteq> None then ''__dataclass_self__'' else ''self'') (op_slots opts)) (\<lambda>code.
             Inr (snd (set_new_attribute ''__init__'' (MadeAttr (MadeInit code)) klass))))"

definition add_repr :: "options \<Rightarrow> (string, dc_field) dict \<Rightarrow> pyclass \<Rightarrow> pyclass" where
  "add_repr opts d klass = (if op_repr opts
     then snd (set_new_attribute ''__repr__'' (MadeAttr (MadeRepr (map f_name (filter f_repr (real_fields d))))) klass) else klass)"

definition add_eq :: "options \<Rightarrow> (string, dc_field) dict \<Rightarrow> pyclass \<Rightarrow> pyclass" where
  "add_eq opts d klass = (if op_eq opts
     then snd (set_new_attribute ''__eq__'' (MadeAttr (MadeCmp ''=='' (compare_names d))) klass) else klass)"

text \<open>Methods that must not be there yet.\<close>

fun add_all_new :: "(string \<times> attr) list \<Rightarrow> pyclass \<Rightarrow> pyclass res" where
  "add_all_new [] klass = Inr klass"
| "add_all_new ((n, a) # as) klass =
     (let (there, klass) = set_new_attribute n a klass in if there then Inl TypeError else add_all_new as klass)"

definition order_methods :: "(string, dc_field) dict \<Rightarrow> (string \<times> attr) list" where
  "order_methods d = map (\<lambda>(n, op). (n, MadeAttr (MadeCmp op (compare_names d))))
     [(''__lt__'', ''<''), (''__le__'', ''<=''), (''__gt__'', ''>''), (''__ge__'', ''>='')]"

definition frozen_methods :: "pyclass \<Rightarrow> (string, dc_field) dict \<Rightarrow> (string \<times> attr) list" where
  "frozen_methods klass d = [(''__setattr__'', MadeAttr (MadeSetattr (pc_name klass) (map f_name (real_fields d)))),
     (''__delattr__'', MadeAttr (MadeDelattr (pc_name klass) (map f_name (real_fields d))))]"

text \<open>The table of actions for \<open>unsafe_hash\<close>, \<open>eq\<close>, \<open>frozen\<close> and an explicit hash.\<close>

datatype hash_act = NoHash | SetNone | AddHash | RaiseHash

fun hash_action :: "bool \<Rightarrow> bool \<Rightarrow> bool \<Rightarrow> bool \<Rightarrow> hash_act" where
  "hash_action False False False False = NoHash"
| "hash_action False False False True = NoHash"
| "hash_action False False True False = NoHash"
| "hash_action False False True True = NoHash"
| "hash_action False True False False = SetNone"
| "hash_action False True False True = NoHash"
| "hash_action False True True False = AddHash"
| "hash_action False True True True = NoHash"
| "hash_action True False False False = AddHash"
| "hash_action True False False True = RaiseHash"
| "hash_action True False True False = AddHash"
| "hash_action True False True True = RaiseHash"
| "hash_action True True False False = AddHash"
| "hash_action True True False True = RaiseHash"
| "hash_action True True True False = AddHash"
| "hash_action True True True True = RaiseHash"

definition explicit_hash :: "pyclass \<Rightarrow> bool" where
  "explicit_hash klass = (case own_attr klass ''__hash__'' of None \<Rightarrow> False
     | Some h \<Rightarrow> \<not> (h = ValAttr VNone \<and> own_attr klass ''__eq__'' \<noteq> None))"

definition add_hash :: "hash_act \<Rightarrow> (string, dc_field) dict \<Rightarrow> pyclass \<Rightarrow> pyclass res" where
  "add_hash act d klass = (case act of
     NoHash \<Rightarrow> Inr klass
   | SetNone \<Rightarrow> Inr (set_attr ''__hash__'' (ValAttr VNone) klass)
   | AddHash \<Rightarrow> Inr (set_attr ''__hash__'' (MadeAttr (MadeHash (hash_names d))) klass)
   | RaiseHash \<Rightarrow> Inl TypeError)"

definition add_match_args :: "options \<Rightarrow> (string, dc_field) dict \<Rightarrow> pyclass \<Rightarrow> pyclass" where
  "add_match_args opts d klass = (if op_match_args opts
     then snd (set_new_attribute ''__match_args__''
       (ValAttr (VTuple (map (VStr \<circ> f_name) (fst (fields_in_init_order (init_fields d)))))) klass) else klass)"

definition add_slots :: "options \<Rightarrow> (string, dc_field) dict \<Rightarrow> pyclass \<Rightarrow> pyclass res" where
  "add_slots opts d klass =
     (if \<not> op_slots opts then Inr klass
      else if own_attr klass ''__slots__'' \<noteq> None then Inl TypeError
      else (let names = map f_name (real_fields d);
                klass = set_attr ''__slots__'' (ValAttr (VTuple (map VStr names))) klass;
                klass = klass \<lparr>pc_dict := fold ddel names (pc_dict klass) @ map (\<lambda>n. (n, MemberAttr)) names,
                  pc_remade := True\<rparr>
            in Inr (if op_frozen opts
              then set_attr ''__setstate__'' (MadeAttr MadeSetstate) (set_attr ''__getstate__'' (MadeAttr MadeGetstate) klass)
              else klass)))"

definition process_class :: "modules \<Rightarrow> options \<Rightarrow> pyclass \<Rightarrow> pyclass res" where
  "process_class mods opts cls0 =
     (let cls0 = cls0 \<lparr>pc_frozen := op_frozen opts\<rparr>
      in bindR (own_fields mods cls0 (pc_annotations cls0) False (op_kw_only opts)) (\<lambda>fs.
         let d = add_fields fs (base_fields cls0)
         in bindR (real_defaults fs cls0) (\<lambda>klass.
            bindR (guardR (\<not> stray_field klass) TypeError) (\<lambda>_.
            bindR (check_frozen (op_frozen opts) klass) (\<lambda>_.
            let klass = klass \<lparr>pc_fields := Some d\<rparr>; has_explicit_hash = explicit_hash klass
            in bindR (guardR (op_eq opts \<or> \<not> op_order opts) ValueError) (\<lambda>_.
               bindR (add_init opts d klass) (\<lambda>klass.
               bindR (add_all_new (if op_order opts then order_methods d else []) (add_eq opts d (add_repr opts d klass))) (\<lambda>klass.
               bindR (add_all_new (if op_frozen opts then frozen_methods klass d else []) klass) (\<lambda>klass.
               bindR (add_hash (hash_action (op_unsafe_hash opts) (op_eq opts) (op_frozen opts) has_explicit_hash) d klass) (\<lambda>klass.
                 add_slots opts d (add_match_args opts d klass)))))))))))"

end
