(* ===== verification/DataInstances.thy ===== *)
theory DataInstances
  imports Dataclasses
begin

text \<open>
  What the generated methods do, and the functions \<open>fields\<close>, \<open>asdict\<close>, \<open>astuple\<close>, \<open>make_dataclass\<close> and \<open>replace\<close> of
  \<open>dataclasses310.py\<close>. The user's code (factories, \<open>__post_init__\<close>, constructors of other classes, the comparison and the
  hash of field values) is given with the classes.
\<close>

section \<open>Classes and the user's code\<close>

record runtime =
  rt_classes :: "(string, pyclass) dict"
  rt_factory :: "string \<Rightarrow> pyval res"
  rt_post_init :: "string \<Rightarrow> (string, pyval) dict \<Rightarrow> pyval list \<Rightarrow> (string, pyval) dict res"
  rt_new :: "string \<Rightarrow> (string, pyval) dict \<Rightarrow> pyval res"
  rt_equal :: "pyval \<Rightarrow> pyval \<Rightarrow> bool"
  rt_order :: "string \<Rightarrow> pyval \<Rightarrow> pyval \<Rightarrow> bool res"
  rt_hash :: "pyval list \<Rightarrow> int res"

text \<open>\<open>getattr(cls, _FIELDS)\<close> finds the fields of a base as well.\<close>

definition inherited_fields :: "pyclass \<Rightarrow> (string, dc_field) dict option" where
  "inherited_fields c = (case pc_fields c of Some d \<Rightarrow> Some d
   | None \<Rightarrow> (case List.map_filter bs_fields (pc_bases c) of [] \<Rightarrow> None | d # _ \<Rightarrow> Some d))"

definition class_fields :: "runtime \<Rightarrow> string \<Rightarrow> (string, dc_field) dict option" where
  "class_fields rt n = (case dget (rt_classes rt) n of None \<Rightarrow> None | Some c \<Rightarrow> inherited_fields c)"

definition dc_fields :: "runtime \<Rightarrow> string \<Rightarrow> dc_field list res" where
  "dc_fields rt n = (case class_fields rt n of None \<Rightarrow> Inl TypeError | Some d \<Rightarrow> Inr (real_fields d))"

text \<open>\<open>getattr\<close> of an instance: its dictionary, then the class; a method stands for itself.\<close>

definition read_attr :: "runtime \<Rightarrow> string \<Rightarrow> (string, pyval) dict \<Rightarrow> string \<Rightarrow> pyval res" where
  "read_attr rt c attrs n = (case dget attrs n of Some v \<Rightarrow> Inr v
   | None \<Rightarrow> (case dget (rt_classes rt) c of None \<Rightarrow> Inl AttributeError
       | Some klass \<Rightarrow> (case class_attr klass n of
           Some (ValAttr v) \<Rightarrow> Inr v
         | Some (MadeAttr _) \<Rightarrow> Inr (VOther n)
         | Some (FieldAttr _) \<Rightarrow> Inr (VOther n)
         | _ \<Rightarrow> Inl AttributeError)))"

definition read_all :: "runtime \<Rightarrow> string \<Rightarrow> (string, pyval) dict \<Rightarrow> string list \<Rightarrow> pyval list res" where
  "read_all rt c attrs ns = map_res (read_attr rt c attrs) ns"

section \<open>The generated methods\<close>

text \<open>The arguments of a call; \<open>Marker\<close> is \<open>_HAS_DEFAULT_FACTORY\<close>.\<close>

datatype argument = Given pyval | Marker

definition default_argument :: "dc_field \<Rightarrow> argument res" where
  "default_argument f = (case f_default f of Some v \<Rightarrow> Inr (Given v)
   | None \<Rightarrow> (case f_factory f of Some _ \<Rightarrow> Inr Marker | None \<Rightarrow> Inl TypeError))"

definition bind_args :: "init_code \<Rightarrow> pyval list \<Rightarrow> (string, pyval) dict \<Rightarrow> (string, argument) dict res" where
  "bind_args code args kwargs =
     (let positional = zip (map f_name (ic_std code)) args; params = ic_std code @ ic_kw code
      in bindR (guardR (length args \<le> length (ic_std code)
           \<and> list_all (\<lambda>(n, v). n \<in> set (map f_name params) \<and> dget positional n = None) kwargs) TypeError) (\<lambda>_.
         map_res (\<lambda>f. bindR (case dget positional (f_name f) of Some v \<Rightarrow> Inr (Given v)
             | None \<Rightarrow> (case dget kwargs (f_name f) of Some v \<Rightarrow> Inr (Given v) | None \<Rightarrow> default_argument f))
           (\<lambda>a. Inr (f_name f, a))) params))"

definition param_value :: "(string, argument) dict \<Rightarrow> string \<Rightarrow> pyval res" where
  "param_value env n = (case dget env n of Some (Given v) \<Rightarrow> Inr v | Some Marker \<Rightarrow> Inr (VOther ''<factory>'') | None \<Rightarrow> Inl NameError)"

definition source_value :: "runtime \<Rightarrow> (string, argument) dict \<Rightarrow> source \<Rightarrow> pyval res" where
  "source_value rt env src = (case src of
     Param n \<Rightarrow> param_value env n
   | ParamOr n fac \<Rightarrow> if dget env n = Some Marker then rt_factory rt fac else param_value env n
   | Factory fac \<Rightarrow> rt_factory rt fac
   | Default v \<Rightarrow> Inr v)"

fun run_body :: "runtime \<Rightarrow> (string, argument) dict \<Rightarrow> (string \<times> source) list \<Rightarrow> (string, pyval) dict \<Rightarrow> (string, pyval) dict res" where
  "run_body rt env [] attrs = Inr attrs"
| "run_body rt env ((n, src) # ls) attrs = bindR (source_value rt env src) (\<lambda>v. run_body rt env ls (dset n v attrs))"

definition call_init :: "runtime \<Rightarrow> string \<Rightarrow> init_code \<Rightarrow> pyval list \<Rightarrow> (string, pyval) dict \<Rightarrow> (string, pyval) dict res" where
  "call_init rt c code args kwargs = bindR (bind_args code args kwargs) (\<lambda>env.
     bindR (run_body rt env (ic_body code) []) (\<lambda>attrs.
       case ic_post code of None \<Rightarrow> Inr attrs
       | Some ns \<Rightarrow> bindR (map_res (param_value env) ns) (rt_post_init rt c attrs)))"

text \<open>A call of a class: its generated \<open>__init__\<close>, or what the user's class does.\<close>

definition new_instance :: "runtime \<Rightarrow> string \<Rightarrow> pyval list \<Rightarrow> (string, pyval) dict \<Rightarrow> pyval res" where
  "new_instance rt c args kwargs = (case dget (rt_classes rt) c of None \<Rightarrow> Inl NameError
   | Some klass \<Rightarrow> (case class_attr klass ''__init__'' of
       Some (MadeAttr (MadeInit code)) \<Rightarrow> bindR (call_init rt c code args kwargs) (\<lambda>attrs. Inr (VInst c attrs))
     | _ \<Rightarrow> rt_new rt c kwargs))"

text \<open>
  Comparisons: \<open>None\<close> is \<open>NotImplemented\<close>. Tuples are equal element by element; otherwise the operator is applied to the
  first elements that differ, or to the lengths.
\<close>

fun tuple_equal :: "runtime \<Rightarrow> pyval list \<Rightarrow> pyval list \<Rightarrow> bool" where
  "tuple_equal rt [] [] = True"
| "tuple_equal rt (v # vs) (u # us) \<longleftrightarrow> rt_equal rt v u \<and> tuple_equal rt vs us"
| "tuple_equal rt _ _ = False"

fun tuple_order :: "runtime \<Rightarrow> string \<Rightarrow> pyval list \<Rightarrow> pyval list \<Rightarrow> bool res" where
  "tuple_order rt op [] [] = Inr (op \<in> {''<='', ''>=''})"
| "tuple_order rt op [] (u # us) = Inr (op \<in> {''<'', ''<=''})"
| "tuple_order rt op (v # vs) [] = Inr (op \<in> {''>'', ''>=''})"
| "tuple_order rt op (v # vs) (u # us) = (if rt_equal rt v u then tuple_order rt op vs us else rt_order rt op v u)"

definition tuple_compare :: "runtime \<Rightarrow> string \<Rightarrow> pyval list \<Rightarrow> pyval list \<Rightarrow> bool res" where
  "tuple_compare rt op vs us = (if op = ''=='' then Inr (tuple_equal rt vs us) else tuple_order rt op vs us)"

definition call_cmp :: "runtime \<Rightarrow> string \<Rightarrow> string list \<Rightarrow> pyval \<Rightarrow> pyval \<Rightarrow> bool option res" where
  "call_cmp rt op ns x y = (case (x, y) of
     (VInst c attrs, VInst c' attrs') \<Rightarrow>
       if c = c' then bindR (read_all rt c attrs ns) (\<lambda>vs. bindR (read_all rt c' attrs' ns) (\<lambda>us.
         bindR (tuple_compare rt op vs us) (\<lambda>b. Inr (Some b))))
       else Inr None
   | _ \<Rightarrow> Inr None)"

definition call_hash :: "runtime \<Rightarrow> string list \<Rightarrow> pyval \<Rightarrow> int res" where
  "call_hash rt ns x = (case x of VInst c attrs \<Rightarrow> bindR (read_all rt c attrs ns) (rt_hash rt) | _ \<Rightarrow> Inl TypeError)"

definition call_repr :: "(pyval \<Rightarrow> string) \<Rightarrow> runtime \<Rightarrow> string list \<Rightarrow> pyval \<Rightarrow> string res" where
  "call_repr show_val rt ns x = (case x of
     VInst c attrs \<Rightarrow> bindR (read_all rt c attrs ns) (\<lambda>vs.
       Inr (c @ ''('' @ join_with '', '' (map (\<lambda>(n, v). n @ ''='' @ show_val v) (zip ns vs)) @ '')''))
   | _ \<Rightarrow> Inl TypeError)"

text \<open>
  \<open>__setattr__\<close> and \<open>__delattr__\<close> of a frozen class; \<open>FrozenInstanceError\<close> is an \<open>AttributeError\<close>. The class that they
  know is the one before slots: no instance is of that class, and \<open>super\<close> refuses them all.
\<close>

definition remade :: "runtime \<Rightarrow> string \<Rightarrow> bool" where
  "remade rt klass \<longleftrightarrow> (case dget (rt_classes rt) klass of Some c \<Rightarrow> pc_remade c | None \<Rightarrow> False)"

definition call_setattr :: "runtime \<Rightarrow> string \<Rightarrow> string list \<Rightarrow> string \<Rightarrow> pyval \<Rightarrow> pyval \<Rightarrow> pyval res" where
  "call_setattr rt klass ns n v x = (case x of
     VInst c attrs \<Rightarrow> if c = klass \<and> \<not> remade rt klass \<or> n \<in> set ns then Inl AttributeError
       else if remade rt klass then Inl TypeError else Inr (VInst c (dset n v attrs))
   | _ \<Rightarrow> Inl TypeError)"

definition call_delattr :: "runtime \<Rightarrow> string \<Rightarrow> string list \<Rightarrow> string \<Rightarrow> pyval \<Rightarrow> pyval res" where
  "call_delattr rt klass ns n x = (case x of
     VInst c attrs \<Rightarrow> if c = klass \<and> \<not> remade rt klass \<or> n \<in> set ns then Inl AttributeError
       else if remade rt klass then Inl TypeError
       else if dget attrs n = None then Inl AttributeError else Inr (VInst c (ddel n attrs))
   | _ \<Rightarrow> Inl TypeError)"

text \<open>What slots need for pickling.\<close>

definition call_getstate :: "runtime \<Rightarrow> pyval \<Rightarrow> pyval list res" where
  "call_getstate rt x = (case x of
     VInst c attrs \<Rightarrow> bindR (dc_fields rt c) (\<lambda>fs. read_all rt c attrs (map f_name fs)) | _ \<Rightarrow> Inl TypeError)"

definition call_setstate :: "runtime \<Rightarrow> pyval list \<Rightarrow> pyval \<Rightarrow> pyval res" where
  "call_setstate rt vs x = (case x of
     VInst c attrs \<Rightarrow> bindR (dc_fields rt c) (\<lambda>fs. Inr (VInst c (fold (\<lambda>(f, v). dset (f_name f) v) (zip fs vs) attrs)))
   | _ \<Rightarrow> Inl TypeError)"

section \<open>Dictionaries and tuples of instances\<close>

definition is_dataclass_instance :: "runtime \<Rightarrow> pyval \<Rightarrow> bool" where
  "is_dataclass_instance rt x \<longleftrightarrow> (case x of VInst c _ \<Rightarrow> class_fields rt c \<noteq> None | _ \<Rightarrow> False)"

fun hashable :: "pyval \<Rightarrow> bool" where
  "hashable (VList _) \<longleftrightarrow> False"
| "hashable (VDict _) \<longleftrightarrow> False"
| "hashable (VSet _) \<longleftrightarrow> False"
| "hashable (VTuple vs) \<longleftrightarrow> list_all hashable vs"
| "hashable (VNamed n vs) \<longleftrightarrow> list_all hashable vs"
| "hashable _ \<longleftrightarrow> True"

text \<open>A dictionary from pairs in turn.\<close>

fun dict_of :: "(pyval \<times> pyval) list \<Rightarrow> (pyval \<times> pyval) list \<Rightarrow> pyval res" where
  "dict_of [] d = Inr (VDict d)"
| "dict_of ((k, v) # kvs) d = (if hashable k then dict_of kvs (dset k v d) else Inl TypeError)"

text \<open>
  The recursions of \<open>asdict\<close> and \<open>astuple\<close>, which differ in what they make of an instance. The first argument is the depth
  that Python's recursion limit leaves.
\<close>

definition map_pair :: "(pyval \<Rightarrow> pyval res) \<Rightarrow> pyval \<times> pyval \<Rightarrow> (pyval \<times> pyval) res" where
  "map_pair f kv = bindR (f (fst kv)) (\<lambda>k. bindR (f (snd kv)) (\<lambda>v. Inr (k, v)))"

fun convert :: "nat \<Rightarrow> runtime \<Rightarrow> ((string \<times> pyval) list \<Rightarrow> pyval) \<Rightarrow> pyval \<Rightarrow> pyval res" where
  "convert 0 rt factory x = Inl RuntimeError"
| "convert (Suc n) rt factory x = (case x of
     VInst c attrs \<Rightarrow> (case dc_fields rt c of
         Inl _ \<Rightarrow> Inr (VInst c attrs)
       | Inr fs \<Rightarrow> bindR (map_res (\<lambda>f. bindR (read_attr rt c attrs (f_name f)) (\<lambda>v.
             bindR (convert n rt factory v) (\<lambda>v'. Inr (f_name f, v')))) fs) (\<lambda>nvs. Inr (factory nvs)))
   | VNamed t vs \<Rightarrow> bindR (map_res (convert n rt factory) vs) (\<lambda>us. Inr (VNamed t us))
   | VList vs \<Rightarrow> bindR (map_res (convert n rt factory) vs) (\<lambda>us. Inr (VList us))
   | VTuple vs \<Rightarrow> bindR (map_res (convert n rt factory) vs) (\<lambda>us. Inr (VTuple us))
   | VDict kvs \<Rightarrow> bindR (map_res (map_pair (convert n rt factory)) kvs) (\<lambda>us. dict_of us [])
   | _ \<Rightarrow> Inr x)"

definition make_dict :: "(string \<times> pyval) list \<Rightarrow> pyval" where
  "make_dict nvs = VDict (map (\<lambda>(n, v). (VStr n, v)) nvs)"

definition make_tuple :: "(string \<times> pyval) list \<Rightarrow> pyval" where
  "make_tuple nvs = VTuple (map snd nvs)"

definition asdict :: "nat \<Rightarrow> runtime \<Rightarrow> pyval \<Rightarrow> pyval res" where
  "asdict limit rt x = (if is_dataclass_instance rt x then convert limit rt make_dict x else Inl TypeError)"

definition astuple :: "nat \<Rightarrow> runtime \<Rightarrow> pyval \<Rightarrow> pyval res" where
  "astuple limit rt x = (if is_dataclass_instance rt x then convert limit rt make_tuple x else Inl TypeError)"

section \<open>replace\<close>

fun fill_changes :: "runtime \<Rightarrow> string \<Rightarrow> (string, pyval) dict \<Rightarrow> dc_field list \<Rightarrow> (string, pyval) dict \<Rightarrow> (string, pyval) dict res" where
  "fill_changes rt c attrs [] changes = Inr changes"
| "fill_changes rt c attrs (f # fs) changes =
     (if f_kind f = FIELD_CLASSVAR then fill_changes rt c attrs fs changes
      else if \<not> f_init f
        then (if dget changes (f_name f) \<noteq> None then Inl ValueError else fill_changes rt c attrs fs changes)
      else if dget changes (f_name f) \<noteq> None then fill_changes rt c attrs fs changes
      else if f_kind f = FIELD_INITVAR \<and> f_default f = None then Inl ValueError
      else bindR (read_attr rt c attrs (f_name f)) (\<lambda>v. fill_changes rt c attrs fs (changes @ [(f_name f, v)])))"

definition dc_replace :: "runtime \<Rightarrow> pyval \<Rightarrow> (string, pyval) dict \<Rightarrow> pyval res" where
  "dc_replace rt x changes = (case x of
     VInst c attrs \<Rightarrow> (case class_fields rt c of None \<Rightarrow> Inl TypeError
       | Some d \<Rightarrow> bindR (fill_changes rt c attrs (map snd d) changes) (new_instance rt c []))
   | _ \<Rightarrow> Inl TypeError)"

section \<open>make_dataclass\<close>

datatype field_item = NameItem string | TypeItem string annot | SpecItem string annot attr | BadItem

definition python_keywords :: "string list" where
  "python_keywords = [''False'', ''None'', ''True'', ''and'', ''as'', ''assert'', ''async'', ''await'', ''break'', ''class'',
     ''continue'', ''def'', ''del'', ''elif'', ''else'', ''except'', ''finally'', ''for'', ''from'', ''global'', ''if'', ''import'', ''in'',
     ''is'', ''lambda'', ''nonlocal'', ''not'', ''or'', ''pass'', ''raise'', ''return'', ''try'', ''while'', ''with'', ''yield'']"

definition is_name :: "string \<Rightarrow> bool" where
  "is_name s \<longleftrightarrow> s \<noteq> [] \<and> list_all word_character s \<and> \<not> is_digit (hd s)"

definition item_parts :: "field_item \<Rightarrow> (string \<times> annot \<times> attr option) res" where
  "item_parts i = (case i of
     NameItem n \<Rightarrow> Inr (n, TextT ''typing.Any'', None)
   | TypeItem n a \<Rightarrow> Inr (n, a, None)
   | SpecItem n a s \<Rightarrow> Inr (n, a, Some s)
   | BadItem \<Rightarrow> Inl TypeError)"

text \<open>The annotations and the defaults.\<close>

fun read_items :: "field_item list \<Rightarrow> (string, annot) dict \<Rightarrow> (string, attr) dict \<Rightarrow> ((string, annot) dict \<times> (string, attr) dict) res" where
  "read_items [] annotations defaults = Inr (annotations, defaults)"
| "read_items (i # is) annotations defaults = bindR (item_parts i) (\<lambda>(n, a, spec).
     if \<not> is_name n \<or> n \<in> set python_keywords \<or> dget annotations n \<noteq> None then Inl TypeError
     else read_items is (annotations @ [(n, a)]) (case spec of None \<Rightarrow> defaults | Some s \<Rightarrow> dset n s defaults))"

text \<open>\<open>types.new_class\<close> makes a class of the module \<open>types\<close>; the namespace is that of the user with the defaults.\<close>

definition make_dataclass :: "modules \<Rightarrow> options \<Rightarrow> string \<Rightarrow> field_item list \<Rightarrow> base_class list \<Rightarrow> (string, attr) dict \<Rightarrow> pyclass res" where
  "make_dataclass mods opts cls_name items bases namespace =
     bindR (read_items items [] []) (\<lambda>(annotations, defaults).
       process_class mods opts \<lparr>pc_name = cls_name, pc_module = ''types'', pc_dict = fold (\<lambda>(n, a). dset n a) defaults namespace,
         pc_annotations = annotations, pc_bases = bases, pc_fields = None, pc_frozen = False, pc_remade = False\<rparr>)"

end
