(* ===== verification/DataLaws.thy ===== *)
theory DataLaws
  imports DataInstances
begin

text \<open>
  Laws of the decorator of \<open>dataclasses310.py\<close>: the fields of a class and their order, the methods that a class gets and
  keeps, and when a class is refused.
\<close>

section \<open>The fields of a class\<close>

text \<open>All definitions of fields in the order in which they are found: those of the bases, from the last one on, then its own.\<close>

definition field_sequence :: "pyclass \<Rightarrow> dc_field list \<Rightarrow> dc_field list" where
  "field_sequence klass fs = concat (map (\<lambda>b. case bs_fields b of None \<Rightarrow> [] | Some d \<Rightarrow> map snd d) (rev (pc_bases klass))) @ fs"

text \<open>A dictionary that is filled in turn: the places are those of the first definitions, the values the last ones.\<close>

definition firsts :: "'a list \<Rightarrow> 'a list" where
  "firsts xs = rev (remdups (rev xs))"

lemma firsts_snoc: "firsts (xs @ [x]) = (if x \<in> set xs then firsts xs else firsts xs @ [x])"
  by (simp add: firsts_def)

lemma set_firsts [simp]: "set (firsts xs) = set xs"
  by (simp add: firsts_def)

lemma dkeys_dset: "dkeys (dset k v d) = (if k \<in> set (dkeys d) then dkeys d else dkeys d @ [k])"
  by (simp add: dkeys_def) (induction d; auto)

lemma add_fields_append: "add_fields (fs @ gs) d = add_fields gs (add_fields fs d)"
  by (simp add: add_fields_def)

lemma add_fields_spec:
  "dkeys (add_fields fs []) = firsts (map f_name fs)"
  "dget (add_fields fs []) n = List.find (\<lambda>f. f_name f = n) (rev fs)"
proof (induction fs rule: rev_induct)
  case (snoc f fs)
  {
    case 1
    show ?case using snoc(1) by (simp add: add_fields_append firsts_snoc) (simp add: add_fields_def dkeys_dset)
  next
    case 2
    show ?case using snoc(2) by (simp add: add_fields_append) (simp add: add_fields_def)
  }
qed (simp_all add: add_fields_def firsts_def dkeys_def)

lemma add_fields_sequence: "add_fields fs (base_fields klass) = add_fields (field_sequence klass fs) []"
proof -
  have "fold (\<lambda>b d. case bs_fields b of None \<Rightarrow> d | Some gs \<Rightarrow> add_fields (map snd gs) d) bs d
      = add_fields (concat (map (\<lambda>b. case bs_fields b of None \<Rightarrow> [] | Some d \<Rightarrow> map snd d) bs)) d" for bs d
    by (induction bs arbitrary: d) (auto simp: add_fields_append add_fields_def split: option.split)
  then show ?thesis unfolding base_fields_def field_sequence_def add_fields_append by (rule arg_cong)
qed

lemma fields_named: "list_all (\<lambda>(n, f). f_name f = n) d \<Longrightarrow> list_all (\<lambda>(n, f). f_name f = n) (dset (f_name g) g d)"
  by (induction d) auto

lemma add_fields_named: "list_all (\<lambda>(n, f). f_name f = n) (add_fields fs [])"
  by (induction fs rule: rev_induct) (simp_all add: add_fields_append, simp_all add: add_fields_def fields_named)

section \<open>A class that was processed\<close>

lemma set_new_attribute_keeps:
  assumes "set_new_attribute n a klass = (b, klass')"
  shows "pc_fields klass' = pc_fields klass" and "pc_bases klass' = pc_bases klass" and "pc_name klass' = pc_name klass"
    and "own_attr klass m \<noteq> None \<Longrightarrow> own_attr klass' m = own_attr klass m"
    and "m \<noteq> n \<Longrightarrow> own_attr klass' m = own_attr klass m"
    and "own_attr klass n = None \<Longrightarrow> own_attr klass' n = Some a"
  using assms by (auto simp: set_new_attribute_def set_attr_def own_attr_def split: if_splits)

lemma snd_set_new:
  "pc_fields (snd (set_new_attribute n a klass)) = pc_fields klass"
  "pc_bases (snd (set_new_attribute n a klass)) = pc_bases klass"
  "own_attr (snd (set_new_attribute n a klass)) m
    = (if m = n \<and> own_attr klass n = None then Some a else own_attr klass m)"
  by (auto simp: set_new_attribute_def set_attr_def own_attr_def)

lemma add_all_new_Inr:
  "add_all_new as klass = Inr klass' \<Longrightarrow> pc_fields klass' = pc_fields klass \<and> pc_bases klass' = pc_bases klass
    \<and> (\<forall>m. m \<notin> fst ` set as \<longrightarrow> own_attr klass' m = own_attr klass m)
    \<and> (distinct (map fst as) \<longrightarrow> (\<forall>(n, a)\<in>set as. own_attr klass' n = Some a))"
proof (induction as klass rule: add_all_new.induct)
  case (2 n a as klass)
  then show ?case
    by (cases "set_new_attribute n a klass")
      (force simp: set_new_attribute_def set_attr_def own_attr_def split: if_splits)
qed simp


lemma process_class_steps:
  assumes "process_class mods opts klass0 = Inr klass"
  obtains fs d k1 k2 k3 k4 k5 where "own_fields mods (klass0 \<lparr>pc_frozen := op_frozen opts\<rparr>) (pc_annotations klass0) False (op_kw_only opts) = Inr fs"
    and "d = add_fields fs (base_fields klass0)"
    and "real_defaults fs (klass0 \<lparr>pc_frozen := op_frozen opts\<rparr>) = Inr k1" and "\<not> stray_field k1"
    and "check_frozen (op_frozen opts) k1 = Inr ()" and "op_eq opts \<or> \<not> op_order opts"
    and "add_init opts d (k1 \<lparr>pc_fields := Some d\<rparr>) = Inr k2"
    and "add_all_new (if op_order opts then order_methods d else []) (add_eq opts d (add_repr opts d k2)) = Inr k3"
    and "add_all_new (if op_frozen opts then frozen_methods k3 d else []) k3 = Inr k4"
    and "add_hash (hash_action (op_unsafe_hash opts) (op_eq opts) (op_frozen opts) (explicit_hash (k1 \<lparr>pc_fields := Some d\<rparr>))) d k4 = Inr k5"
    and "add_slots opts d (add_match_args opts d k5) = Inr klass"
proof -
  have b: "base_fields (klass0 \<lparr>pc_frozen := op_frozen opts\<rparr>) = base_fields klass0" by (simp add: base_fields_def)
  from assms show thesis
    unfolding process_class_def Let_def bindR_eq_Inr guardR_eq b pyclass.simps pyclass.update_convs pyclass.select_convs
    by (elim exE conjE) (rule that, (assumption | rule refl | simp)+)
qed

lemma real_default_keeps:
  assumes "real_default f klass = Inr klass'"
  shows "pc_bases klass' = pc_bases klass" and "n \<noteq> f_name f \<Longrightarrow> own_attr klass' n = own_attr klass n"
  using assms by (auto simp: real_default_def set_attr_def own_attr_def split: if_splits option.splits)

lemma real_defaults_keep:
  "real_defaults fs klass = Inr klass' \<Longrightarrow> pc_bases klass' = pc_bases klass
    \<and> (\<forall>n. n \<notin> f_name ` set fs \<longrightarrow> own_attr klass' n = own_attr klass n)"
proof (induction fs arbitrary: klass)
  case (Cons f fs)
  from Cons.prems obtain k where "real_default f klass = Inr k" "real_defaults fs k = Inr klass'" by (auto simp: bindR_eq_Inr)
  with Cons.IH [of k] real_default_keeps [of f klass k] show ?case by auto
qed simp

lemma add_slots_keeps:
  assumes "add_slots opts d klass = Inr klass'"
  shows "pc_fields klass' = pc_fields klass" and "pc_bases klass' = pc_bases klass"
    and "n \<notin> f_name ` set (real_fields d) \<union> {''__slots__'', ''__getstate__'', ''__setstate__''} \<Longrightarrow> own_attr klass' n = own_attr klass n"
proof -
  have "dget (fold ddel ns e) n = (if n \<in> set ns then None else dget e n)" for ns n and e :: "(string, attr) dict"
    by (induction ns arbitrary: e) auto
  moreover have "dget (map (\<lambda>n. (n, MemberAttr)) ns) n = (if n \<in> set ns then Some MemberAttr else None)" for ns and n :: string
    by (induction ns) auto
  ultimately show "pc_fields klass' = pc_fields klass" "pc_bases klass' = pc_bases klass"
    "n \<notin> f_name ` set (real_fields d) \<union> {''__slots__'', ''__getstate__'', ''__setstate__''} \<Longrightarrow> own_attr klass' n = own_attr klass n"
    using assms by (auto simp: add_slots_def Let_def set_attr_def own_attr_def map_add_def split: if_splits option.splits simp del: map_map)
qed

text \<open>The fields of a processed class.\<close>

lemma process_class_fields:
  assumes "process_class mods opts klass0 = Inr klass"
  obtains fs where "own_fields mods (klass0 \<lparr>pc_frozen := op_frozen opts\<rparr>) (pc_annotations klass0) False (op_kw_only opts) = Inr fs"
    and "pc_fields klass = Some (add_fields (field_sequence klass0 fs) [])"
proof -
  from process_class_steps [OF assms] obtain fs d k1 k2 k3 k4 k5
    where fs: "own_fields mods (klass0 \<lparr>pc_frozen := op_frozen opts\<rparr>) (pc_annotations klass0) False (op_kw_only opts) = Inr fs"
      and d: "d = add_fields fs (base_fields klass0)"
      and k: "add_init opts d (k1 \<lparr>pc_fields := Some d\<rparr>) = Inr k2"
        "add_all_new (if op_order opts then order_methods d else []) (add_eq opts d (add_repr opts d k2)) = Inr k3"
        "add_all_new (if op_frozen opts then frozen_methods k3 d else []) k3 = Inr k4"
        "add_hash (hash_action (op_unsafe_hash opts) (op_eq opts) (op_frozen opts) (explicit_hash (k1 \<lparr>pc_fields := Some d\<rparr>))) d k4 = Inr k5"
        "add_slots opts d (add_match_args opts d k5) = Inr klass" by metis
  have "pc_fields k2 = Some d" using k(1) by (auto simp: add_init_def bindR_eq_Inr snd_set_new split: if_splits prod.splits)
  then have "pc_fields (add_eq opts d (add_repr opts d k2)) = Some d" by (simp add: add_eq_def add_repr_def snd_set_new)
  then have "pc_fields k4 = Some d" using add_all_new_Inr [OF k(2)] add_all_new_Inr [OF k(3)] by simp
  then have "pc_fields k5 = Some d" using k(4) by (auto simp: add_hash_def set_attr_def split: hash_act.splits)
  then have "pc_fields klass = Some d" using add_slots_keeps(1) [OF k(5)] by (simp add: add_match_args_def snd_set_new)
  with fs d that show ?thesis by (simp add: add_fields_sequence)
qed

lemma add_all_new_keeps: "add_all_new as klass = Inr klass' \<Longrightarrow> n \<notin> fst ` set as \<Longrightarrow> own_attr klass' n = own_attr klass n"
  using add_all_new_Inr by blast

lemma add_init_keeps:
  "add_init opts d klass = Inr klass' \<Longrightarrow> pc_bases klass' = pc_bases klass \<and> (\<forall>n. n \<noteq> ''__init__'' \<longrightarrow> own_attr klass' n = own_attr klass n)"
  by (auto simp: add_init_def bindR_eq_Inr snd_set_new split: if_splits prod.splits)

lemma add_hash_keeps: "add_hash act d klass = Inr klass' \<Longrightarrow> n \<noteq> ''__hash__'' \<Longrightarrow> own_attr klass' n = own_attr klass n"
  by (auto simp: add_hash_def set_attr_def own_attr_def split: hash_act.splits)

lemma real_names: "list_all (\<lambda>(n, f). f_name f = n) d \<Longrightarrow> f_name ` set (real_fields d) \<subseteq> set (dkeys d)"
  by (force simp: real_fields_def dkeys_def list_all_iff)

text \<open>The class between the steps of the decorator, and the attributes that the steps leave alone.\<close>

lemma process_class_attrs:
  assumes "process_class mods opts klass0 = Inr klass" and "pc_fields klass = Some d"
  obtains k1 k2 k3 k4 k5 where "add_init opts d k1 = Inr k2"
    and "add_all_new (if op_order opts then order_methods d else []) (add_eq opts d (add_repr opts d k2)) = Inr k3"
    and "add_all_new (if op_frozen opts then frozen_methods k3 d else []) k3 = Inr k4"
    and "add_hash (hash_action (op_unsafe_hash opts) (op_eq opts) (op_frozen opts) (explicit_hash k1)) d k4 = Inr k5"
    and "pc_bases k1 = pc_bases klass0" and "\<And>n. n \<notin> set (dkeys d) \<Longrightarrow> own_attr k1 n = own_attr klass0 n"
    and "\<And>n. n \<noteq> ''__init__'' \<Longrightarrow> own_attr k2 n = own_attr k1 n"
    and "\<And>n. n \<notin> {''__eq__'', ''__repr__'', ''__lt__'', ''__le__'', ''__gt__'', ''__ge__''} \<Longrightarrow> own_attr k3 n = own_attr k2 n"
    and "\<And>n. n \<notin> {''__setattr__'', ''__delattr__''} \<Longrightarrow> own_attr k4 n = own_attr k3 n"
    and "\<And>n. n \<noteq> ''__hash__'' \<Longrightarrow> own_attr k5 n = own_attr k4 n"
    and "\<And>n. n \<notin> set (dkeys d) \<union> {''__match_args__'', ''__slots__'', ''__getstate__'', ''__setstate__''} \<Longrightarrow> own_attr klass n = own_attr k5 n"
proof -
  from process_class_steps [OF assms(1)] obtain fs e k1 k2 k3 k4 k5
    where fs: "own_fields mods (klass0 \<lparr>pc_frozen := op_frozen opts\<rparr>) (pc_annotations klass0) False (op_kw_only opts) = Inr fs"
      and e: "e = add_fields fs (base_fields klass0)"
      and k1: "real_defaults fs (klass0 \<lparr>pc_frozen := op_frozen opts\<rparr>) = Inr k1"
      and k: "add_init opts e (k1 \<lparr>pc_fields := Some e\<rparr>) = Inr k2"
        "add_all_new (if op_order opts then order_methods e else []) (add_eq opts e (add_repr opts e k2)) = Inr k3"
        "add_all_new (if op_frozen opts then frozen_methods k3 e else []) k3 = Inr k4"
        "add_hash (hash_action (op_unsafe_hash opts) (op_eq opts) (op_frozen opts) (explicit_hash (k1 \<lparr>pc_fields := Some e\<rparr>))) e k4 = Inr k5"
        "add_slots opts e (add_match_args opts e k5) = Inr klass" by metis
  from process_class_fields [OF assms(1)] fs assms(2) e have d: "e = d" by (auto simp: add_fields_sequence)
  have seq: "d = add_fields (field_sequence klass0 fs) []" by (simp add: d [symmetric] e add_fields_sequence)
  have "f_name ` set fs \<subseteq> set (dkeys d)" by (auto simp: seq add_fields_spec field_sequence_def)
  moreover have "f_name ` set (real_fields d) \<subseteq> set (dkeys d)"
    unfolding seq by (rule real_names [OF add_fields_named])
  ultimately have names: "f_name ` set fs \<subseteq> set (dkeys d)" "f_name ` set (real_fields d) \<subseteq> set (dkeys d)" .
  let ?k1 = "k1 \<lparr>pc_fields := Some d\<rparr>"
  show thesis
  proof (rule that [of ?k1 k2 k3 k4 k5])
    show "own_attr ?k1 n = own_attr klass0 n" if "n \<notin> set (dkeys d)" for n
    proof -
      have "n \<notin> f_name ` set fs" using names(1) that by blast
      with real_defaults_keep [OF k1] show ?thesis by (simp add: own_attr_def)
    qed
    show "own_attr k3 n = own_attr k2 n" if "n \<notin> {''__eq__'', ''__repr__'', ''__lt__'', ''__le__'', ''__gt__'', ''__ge__''}" for n
    proof -
      have "n \<notin> fst ` set (if op_order opts then order_methods e else [])" using that by (auto simp: order_methods_def)
      from add_all_new_keeps [OF k(2) this] that show ?thesis by (simp add: add_eq_def add_repr_def snd_set_new)
    qed
    show "own_attr k4 n = own_attr k3 n" if "n \<notin> {''__setattr__'', ''__delattr__''}" for n
      by (rule add_all_new_keeps [OF k(3)]) (use that in \<open>auto simp: frozen_methods_def\<close>)
    show "own_attr k5 n = own_attr k4 n" if "n \<noteq> ''__hash__''" for n using k(4) that by (rule add_hash_keeps)
    show "own_attr klass n = own_attr k5 n" if "n \<notin> set (dkeys d) \<union> {''__match_args__'', ''__slots__'', ''__getstate__'', ''__setstate__''}" for n
    proof -
      have "n \<notin> f_name ` set (real_fields d)" using names(2) that by blast
      with add_slots_keeps(3) [OF k(5), of n] that show ?thesis by (simp add: d add_match_args_def snd_set_new)
    qed
  qed (use k add_init_keeps [OF k(1)] real_defaults_keep [OF k1] in \<open>auto simp: d own_attr_def\<close>)
qed

lemma class_attr_own: "own_attr klass n = Some a \<Longrightarrow> class_attr klass n = Some a"
  by (simp add: class_attr_def own_attr_def)

text \<open>The methods that the decorator made stay those of the class, unless a field has their name.\<close>

lemma generated_init:
  assumes "process_class mods opts klass0 = Inr klass" and "op_init opts" and "own_attr klass0 ''__init__'' = None"
    and "pc_fields klass = Some d" and "''__init__'' \<notin> set (dkeys d)" and "''__post_init__'' \<notin> set (dkeys d)"
  shows "\<exists>code self. class_attr klass ''__init__'' = Some (MadeAttr (MadeInit code))
    \<and> init_fn (init_fields d) (fst (fields_in_init_order (init_fields d))) (snd (fields_in_init_order (init_fields d)))
      (class_attr klass0 ''__post_init__'' \<noteq> None) self (op_slots opts) = Inr code"
proof (rule process_class_attrs [OF assms(1,4)], goal_cases)
  case (1 k1 k2 k3 k4 k5)
  have k1: "own_attr k1 ''__init__'' = None" "class_attr k1 ''__post_init__'' = class_attr klass0 ''__post_init__''"
    using assms(3,5,6) 1(5) 1(6) [of "''__init__''"] 1(6) [of "''__post_init__''"] by (simp_all add: class_attr_def own_attr_def)
  let ?fs = "init_fields d"
  from 1(1) assms(2) obtain code self where code: "init_fn ?fs (fst (fields_in_init_order ?fs)) (snd (fields_in_init_order ?fs))
      (class_attr klass0 ''__post_init__'' \<noteq> None) self (op_slots opts) = Inr code"
    and k2: "k2 = snd (set_new_attribute ''__init__'' (MadeAttr (MadeInit code)) k1)"
    by (auto simp: add_init_def k1(2) bindR_eq_Inr split: prod.splits)
  have "own_attr klass ''__init__'' = own_attr k2 ''__init__''"
    using assms(5) 1(8,9,10,11) [of "''__init__''"] by simp
  with k1(1) have "own_attr klass ''__init__'' = Some (MadeAttr (MadeInit code))" by (simp add: k2 snd_set_new)
  with code show ?case by (blast intro: class_attr_own)
qed

text \<open>The table of the comment in the source.\<close>

lemma hash_action_table:
  "hash_action unsafe eq frozen explicit =
     (if unsafe then if explicit then RaiseHash else AddHash
      else if eq \<and> \<not> explicit then if frozen then AddHash else SetNone else NoHash)"
  by (cases unsafe; cases eq; cases frozen; cases explicit) simp_all

lemma generated_eq_hash:
  assumes "process_class mods opts klass0 = Inr klass" and "op_eq opts" and "op_frozen opts \<or> op_unsafe_hash opts"
    and "own_attr klass0 ''__eq__'' = None" and "own_attr klass0 ''__hash__'' = None"
    and "pc_fields klass = Some d" and "set (dkeys d) \<inter> {''__eq__'', ''__hash__''} = {}"
  shows "class_attr klass ''__eq__'' = Some (MadeAttr (MadeCmp ''=='' (compare_names d)))
    \<and> class_attr klass ''__hash__'' = Some (MadeAttr (MadeHash (hash_names d)))"
proof (rule process_class_attrs [OF assms(1,6)], goal_cases)
  case (1 k1 k2 k3 k4 k5)
  have k1: "own_attr k1 ''__hash__'' = None" "own_attr k2 ''__eq__'' = None"
    using assms(4,5,7) 1(6) [of "''__hash__''"] 1(6) [of "''__eq__''"] 1(7) [of "''__eq__''"] by simp_all
  have "own_attr klass ''__eq__'' = own_attr k3 ''__eq__''"
    using assms(7) 1(9,10,11) [of "''__eq__''"] by simp
  also have "\<dots> = own_attr (add_eq opts d (add_repr opts d k2)) ''__eq__''"
    by (rule add_all_new_keeps [OF 1(2)]) (auto simp: order_methods_def)
  finally have "own_attr klass ''__eq__'' = Some (MadeAttr (MadeCmp ''=='' (compare_names d)))"
    using assms(2) k1(2) by (simp add: add_eq_def add_repr_def snd_set_new)
  moreover have "hash_action (op_unsafe_hash opts) (op_eq opts) (op_frozen opts) (explicit_hash k1) = AddHash"
    using assms(2,3) k1(1) by (auto simp: hash_action_table explicit_hash_def)
  with 1(4) have "own_attr k5 ''__hash__'' = Some (MadeAttr (MadeHash (hash_names d)))"
    by (auto simp: add_hash_def set_attr_def own_attr_def)
  moreover have "own_attr klass ''__hash__'' = own_attr k5 ''__hash__''"
    using assms(7) 1(11) [of "''__hash__''"] by simp
  ultimately show ?case by (simp add: class_attr_own)
qed

lemma generated_order:
  assumes "process_class mods opts klass0 = Inr klass" and "op_order opts" and "pc_fields klass = Some d"
    and "set (dkeys d) \<inter> {''__lt__'', ''__le__'', ''__gt__'', ''__ge__''} = {}"
  shows "list_all (\<lambda>(n, a). class_attr klass n = Some a) (order_methods d)"
proof (rule process_class_attrs [OF assms(1,3)], goal_cases)
  case (1 k1 k2 k3 k4 k5)
  have "distinct (map fst (order_methods d))" by (simp add: order_methods_def)
  with add_all_new_Inr [OF 1(2)] assms(2) have k3: "\<forall>(n, a)\<in>set (order_methods d). own_attr k3 n = Some a" by simp
  have "own_attr klass n = own_attr k3 n" if "n \<in> fst ` set (order_methods d)" for n
    using that assms(4) 1(9,10,11) [of n] by (auto simp: order_methods_def)
  with k3 show ?case by (force simp: list_all_iff class_attr_own)
qed

section \<open>Order of the fields and defaults\<close>

lemma check_defaults_iff:
  "list_all f_init fs \<Longrightarrow> check_defaults seen fs = Inr () \<longleftrightarrow> list_all has_default (if seen then fs else dropWhile (\<lambda>f. \<not> has_default f) fs)"
  by (induction seen fs rule: check_defaults.induct) auto

lemma get_field_name: "get_field mods klass n a kw = Inr f \<Longrightarrow> f_name f = n"
  by (auto simp: get_field_def Let_def bindR_eq_Inr split: if_splits)

lemma annotates_module: "pc_module k = pc_module k' \<Longrightarrow> annotates mods k a m wanted = annotates mods k' a m wanted"
  by (simp only: annotates_def is_type_def)

lemma own_fields_names:
  "own_fields mods klass as seen kw = Inr fs
    \<Longrightarrow> map f_name fs = map fst (filter (\<lambda>(n, a). annotates mods klass a (md_self mods) KwOnlyT = Inr False) as)"
proof (induction mods klass as seen kw arbitrary: fs rule: own_fields.induct)
  case (2 mods klass n a as seen kw)
  from "2.prems" obtain marker where m: "annotates mods klass a (md_self mods) KwOnlyT = Inr marker" by (auto simp: bindR_eq_Inr)
  show ?case
  proof (cases marker)
    case True
    with "2.prems" m have "own_fields mods klass as True True = Inr fs" "\<not> seen" by (simp_all split: if_splits)
    with "2.IH"(1) m True show ?thesis by simp
  next
    case False
    with "2.prems" m obtain f gs where "get_field mods klass n a kw = Inr f" "own_fields mods klass as seen kw = Inr gs" "fs = f # gs"
      by (auto simp: bindR_eq_Inr)
    with "2.IH"(2) m False get_field_name show ?thesis by auto
  qed
qed simp

lemma init_fn_defaults:
  assumes "init_fn fs std kw post self slots = Inr code" and "list_all f_init std"
  shows "list_all has_default (dropWhile (\<lambda>f. \<not> has_default f) std)"
proof -
  from assms(1) have "check_defaults False std = Inr ()" by (simp add: init_fn_def bindR_eq_Inr)
  with check_defaults_iff [OF assms(2), of False] show ?thesis by simp
qed

text \<open>
  C22: The fields of a dataclass: a field has the place of the first definition of its name, going through the bases from the
  last one in the resolution order on and then through the annotations, and is the last of these definitions: that of the
  class itself, as it is made from its annotations, if there is one, and else that of the nearest base. If there is
  an \<open>__init__\<close>, its positional parameters without a default come before those with one.
\<close>
theorem class_fields_in_order:
  assumes "process_class mods opts klass0 = Inr klass"
  shows "\<exists>fs d. pc_fields klass = Some d
    \<and> own_fields mods (klass0 \<lparr>pc_frozen := op_frozen opts\<rparr>) (pc_annotations klass0) False (op_kw_only opts) = Inr fs
    \<and> map f_name fs = map fst (filter (\<lambda>(n, a). annotates mods klass0 a (md_self mods) KwOnlyT = Inr False) (pc_annotations klass0))
    \<and> dkeys d = firsts (map f_name (field_sequence klass0 fs))
    \<and> (\<forall>n. dget d n = List.find (\<lambda>f. f_name f = n) (rev (field_sequence klass0 fs)))
    \<and> (op_init opts \<longrightarrow> list_all has_default (dropWhile (\<lambda>f. \<not> has_default f) (fst (fields_in_init_order (init_fields d)))))"
proof -
  let ?k = "klass0 \<lparr>pc_frozen := op_frozen opts\<rparr>"
  from process_class_fields [OF assms(1)] obtain fs where fs: "own_fields mods ?k (pc_annotations klass0) False (op_kw_only opts) = Inr fs"
    "pc_fields klass = Some (add_fields (field_sequence klass0 fs) [])" by blast
  have "annotates mods ?k a m wanted = annotates mods klass0 a m wanted" for a m wanted
    by (rule annotates_module) simp
  with own_fields_names [OF fs(1)] have names: "map f_name fs
      = map fst (filter (\<lambda>(n, a). annotates mods klass0 a (md_self mods) KwOnlyT = Inr False) (pc_annotations klass0))" by simp
  let ?d = "add_fields (field_sequence klass0 fs) []"
  from process_class_steps [OF assms(1)] obtain fs' k1 k2
    where "own_fields mods ?k (pc_annotations klass0) False (op_kw_only opts) = Inr fs'"
      and k2: "add_init opts (add_fields fs' (base_fields klass0)) (k1 \<lparr>pc_fields := Some (add_fields fs' (base_fields klass0))\<rparr>) = Inr k2" by metis
  with fs(1) have "add_init opts ?d (k1 \<lparr>pc_fields := Some ?d\<rparr>) = Inr k2" by (simp add: add_fields_sequence)
  then have "list_all has_default (dropWhile (\<lambda>f. \<not> has_default f) (fst (fields_in_init_order (init_fields ?d))))" if "op_init opts"
  proof -
    assume "add_init opts ?d (k1 \<lparr>pc_fields := Some ?d\<rparr>) = Inr k2"
    with that obtain self post code where "init_fn (init_fields ?d) (fst (fields_in_init_order (init_fields ?d)))
        (snd (fields_in_init_order (init_fields ?d))) post self (op_slots opts) = Inr code"
      by (auto simp: add_init_def bindR_eq_Inr split: prod.splits)
    then show ?thesis by (rule init_fn_defaults) (simp add: fields_in_init_order_def list_all_iff)
  qed
  with fs names add_fields_spec [of "field_sequence klass0 fs"] show ?thesis by blast
qed

section \<open>Errors\<close>

lemma is_type_ok:
  assumes "dget (md_modules mods) (pc_module klass) \<noteq> None" and "dget (md_modules mods) m \<noteq> None"
  shows "\<exists>b. is_type mods klass s m wanted = Inr b"
  using assms by (auto simp: is_type_def Let_def split: option.split)

lemma annotates_ok:
  "dget (md_modules mods) (pc_module klass) \<noteq> None \<Longrightarrow> dget (md_modules mods) m \<noteq> None \<Longrightarrow> \<exists>b. annotates mods klass a m wanted = Inr b"
  using is_type_ok by (cases a) (auto simp: annotates_def)

text \<open>The errors that the decorator raises itself.\<close>

definition usual :: "'a res \<Rightarrow> bool" where
  "usual r \<longleftrightarrow> is_ok r \<or> r = Inl TypeError \<or> r = Inl ValueError"

lemma usual_simps [simp]: "usual (Inr x)" "usual (Inl TypeError)" "usual (Inl ValueError)"
  by (simp_all add: usual_def)

lemma usual_bind: "usual r \<Longrightarrow> (\<And>x. r = Inr x \<Longrightarrow> usual (f x)) \<Longrightarrow> usual (bindR r f)"
  by (cases r) (auto simp: usual_def)

lemma usual_guard: "usual (guardR b TypeError)" "usual (guardR b ValueError)"
  by (cases b; simp)+

text \<open>The modules of the class and of the decorator are loaded.\<close>

definition modules_known :: "modules \<Rightarrow> pyclass \<Rightarrow> bool" where
  "modules_known mods klass \<longleftrightarrow> dget (md_modules mods) (pc_module klass) \<noteq> None \<and> dget (md_modules mods) (md_self mods) \<noteq> None"

lemma usual_annotates: "modules_known mods klass \<Longrightarrow> usual (annotates mods klass a (md_self mods) wanted)"
  using annotates_ok by (fastforce simp: modules_known_def usual_def is_ok_iff)

lemma usual_kind: "modules_known mods klass \<Longrightarrow> usual (kind_of mods klass a)"
  unfolding kind_of_def
proof (rule usual_bind)
  show "usual (if dget (md_modules mods) ''typing'' = None then Inr False else annotates mods klass a ''typing'' ClassVarT)" if "modules_known mods klass"
    using that annotates_ok by (fastforce simp: modules_known_def usual_def is_ok_iff)
qed (auto intro!: usual_bind usual_annotates)

lemma usual_get_field: "modules_known mods klass \<Longrightarrow> usual (get_field mods klass n a kw)"
  unfolding get_field_def Let_def
  by (auto intro!: usual_bind usual_kind simp: plain_field_def new_field_def split: option.split attr.split)

lemma usual_own_fields: "modules_known mods klass \<Longrightarrow> usual (own_fields mods klass as seen kw)"
  by (induction mods klass as seen kw rule: own_fields.induct) (auto intro!: usual_bind usual_annotates usual_get_field)


text \<open>No class behind this one keeps a field object as an attribute.\<close>

definition bases_clean :: "pyclass \<Rightarrow> bool" where
  "bases_clean klass \<longleftrightarrow> list_all (\<lambda>b. list_all (\<lambda>(n, a). \<not> is_field_attr (Some a)) (bs_dict b)) (pc_bases klass)"

lemma first_attr_clean:
  "list_all (list_all (\<lambda>(n, a). \<not> is_field_attr (Some a))) ds \<Longrightarrow> \<not> is_field_attr (first_attr ds n)"
proof (induction ds)
  case (Cons d ds)
  show ?case
  proof (cases "dget d n")
    case (Some a)
    then have "(n, a) \<in> set d" by (rule map_of_SomeD)
    with Some Cons.prems show ?thesis by (auto simp: list_all_iff)
  qed (use Cons in simp)
qed (simp add: is_field_attr_def)

lemma clean_field_own:
  assumes "bases_clean klass" and "is_field_attr (class_attr klass n)"
  shows "own_attr klass n \<noteq> None"
proof
  assume "own_attr klass n = None"
  then have "class_attr klass n = first_attr (map bs_dict (pc_bases klass)) n" by (simp add: class_attr_def own_attr_def)
  with assms first_attr_clean [of "map bs_dict (pc_bases klass)" n] show False by (simp add: bases_clean_def list_all_iff)
qed

lemma real_defaults_ok: "bases_clean klass \<Longrightarrow> is_ok (real_defaults fs klass)"
proof (induction fs klass rule: real_defaults.induct)
  case (2 f fs klass)
  have "is_ok (real_default f klass)"
    using clean_field_own [OF "2.prems", of "f_name f"] by (auto simp: real_default_def split: option.split)
  then obtain k where k: "real_default f klass = Inr k" by (auto simp: is_ok_iff)
  with real_default_keeps(1) [OF k] 2 show ?case by (simp add: bases_clean_def)
qed simp

lemma usual_is_ok: "is_ok r \<Longrightarrow> usual r"
  by (simp add: usual_def)

lemma usual_add_init: "usual (add_init opts d klass)"
proof -
  have "usual (check_defaults seen fs)" for seen fs
    by (induction seen fs rule: check_defaults.induct) auto
  then show ?thesis unfolding add_init_def init_fn_def Let_def
    by (auto intro!: usual_bind split: prod.split)
qed

lemma usual_add_all_new: "usual (add_all_new as klass)"
  by (induction as klass rule: add_all_new.induct) (auto split: prod.split)

lemma usual_add_hash: "usual (add_hash act d klass)" and usual_add_slots: "usual (add_slots opts d klass)"
  by (auto simp: add_hash_def add_slots_def Let_def split: hash_act.split)

text \<open>
  A class is refused with a \<open>TypeError\<close> or a \<open>ValueError\<close>, if the modules are known that its annotations are looked up
  in and none of its bases has a field object as an attribute. An order without equality is always refused, and so is a class
  that is frozen while its bases are not, or the other way round.
\<close>
theorem process_class_errors:
  assumes "modules_known mods klass0" and "bases_clean klass0"
  shows "usual (process_class mods opts klass0)
    \<and> (op_order opts \<and> \<not> op_eq opts \<or> check_frozen (op_frozen opts) klass0 \<noteq> Inr () \<longrightarrow> \<not> is_ok (process_class mods opts klass0))"
proof
  let ?k = "klass0 \<lparr>pc_frozen := op_frozen opts\<rparr>"
  have known: "modules_known mods ?k" and clean: "bases_clean ?k" using assms by (simp_all add: modules_known_def bases_clean_def)
  note steps = usual_own_fields [OF known] usual_is_ok [OF real_defaults_ok [OF clean]] usual_guard usual_add_init
    usual_add_all_new usual_add_hash usual_add_slots
  show "usual (process_class mods opts klass0)"
    unfolding process_class_def Let_def check_frozen_def by (intro usual_bind steps)
  show "op_order opts \<and> \<not> op_eq opts \<or> check_frozen (op_frozen opts) klass0 \<noteq> Inr () \<longrightarrow> \<not> is_ok (process_class mods opts klass0)"
  proof (rule ccontr)
    assume not: "\<not> ?thesis"
    then obtain klass where "process_class mods opts klass0 = Inr klass" by (auto simp: is_ok_iff)
    from process_class_steps [OF this] obtain fs k1 where "real_defaults fs ?k = Inr k1" "check_frozen (op_frozen opts) k1 = Inr ()"
      "op_eq opts \<or> \<not> op_order opts" by metis
    with not real_defaults_keep [of fs ?k k1] show False by (auto simp: check_frozen_def)
  qed
qed

end
