(* ===== verification/DataInstanceLaws.thy ===== *)
theory DataInstanceLaws
  imports DataLaws
begin

text \<open>
  Laws of the instances of dataclasses: what \<open>replace\<close> makes, how the generated methods compare and hash, and what
  \<open>asdict\<close> and \<open>astuple\<close> leave.
\<close>

section \<open>replace\<close>

lemma fill_changes_all:
  assumes "list_all (\<lambda>f. f_kind f \<noteq> FIELD_INITVAR \<and> (f_kind f = FIELD \<longrightarrow> f_init f \<and> dget attrs (f_name f) \<noteq> None)) fs"
    and "distinct (map f_name fs)"
  shows "fill_changes rt c attrs fs changes = Inr (changes @ map (\<lambda>f. (f_name f, the (dget attrs (f_name f))))
    (filter (\<lambda>f. f_kind f = FIELD \<and> dget changes (f_name f) = None) fs))"
  using assms
proof (induction fs arbitrary: changes)
  case (Cons f fs)
  have kinds: "f_kind f = FIELD \<or> f_kind f = FIELD_CLASSVAR" using Cons.prems(1) by (cases "f_kind f") simp_all
  show ?case
  proof (cases "f_kind f = FIELD \<and> dget changes (f_name f) = None")
    case True
    then obtain v where v: "dget attrs (f_name f) = Some v" using Cons.prems(1) by auto
    have "filter (\<lambda>g. f_kind g = FIELD \<and> dget (changes @ [(f_name f, v)]) (f_name g) = None) fs
        = filter (\<lambda>g. f_kind g = FIELD \<and> dget changes (f_name g) = None) fs"
    proof (rule filter_cong)
      fix g assume "g \<in> set fs"
      with Cons.prems(2) have "f_name g \<noteq> f_name f" by (simp add: image_iff) metis
      then show "(f_kind g = FIELD \<and> dget (changes @ [(f_name f, v)]) (f_name g) = None) = (f_kind g = FIELD \<and> dget changes (f_name g) = None)"
        by (simp add: map_add_def split: option.split)
    qed simp
    with True v Cons.IH [of "changes @ [(f_name f, v)]"] Cons.prems show ?thesis
      by (simp add: read_attr_def)
  next
    case False
    with kinds Cons.IH [of changes] Cons.prems show ?thesis by auto
  qed
qed simp

lemma bind_kwargs:
  assumes "\<forall>f\<in>set (ic_std code @ ic_kw code). dget kwargs (f_name f) \<noteq> None"
    and "\<forall>n\<in>set (dkeys kwargs). n \<in> f_name ` set (ic_std code @ ic_kw code)"
  shows "bind_args code [] kwargs = Inr (map (\<lambda>f. (f_name f, Given (the (dget kwargs (f_name f))))) (ic_std code @ ic_kw code))"
proof -
  have "map_res (\<lambda>f. bindR (case dget kwargs (f_name f) of Some v \<Rightarrow> Inr (Given v) | None \<Rightarrow> default_argument f) (\<lambda>a. Inr (f_name f, a))) fs
      = Inr (map (\<lambda>f. (f_name f, Given (the (dget kwargs (f_name f))))) fs)"
    if "\<forall>f\<in>set fs. dget kwargs (f_name f) \<noteq> None" for fs
    using that by (induction fs) auto
  from this [OF assms(1)] have "map_res (\<lambda>f. bindR (case dget kwargs (f_name f) of Some v \<Rightarrow> Inr (Given v) | None \<Rightarrow> default_argument f) (\<lambda>a. Inr (f_name f, a)))
      (ic_std code @ ic_kw code) = Inr (map (\<lambda>f. (f_name f, Given (the (dget kwargs (f_name f))))) (ic_std code @ ic_kw code))" .
  moreover have "list_all (\<lambda>(n, v). n \<in> set (map f_name (ic_std code @ ic_kw code)) \<and> dget [] n = None) kwargs"
    using assms(2) by (force simp: list_all_iff dkeys_def)
  ultimately show ?thesis by (simp add: bind_args_def Let_def del: map_append set_append)
qed

lemma run_body_fields:
  assumes "\<forall>f\<in>set fs. f_init f \<and> f_kind f = FIELD \<and> (\<exists>v. dget env (f_name f) = Some (Given v))"
    and "distinct (map f_name fs)" and "f_name ` set fs \<inter> set (dkeys attrs) = {}"
  shows "run_body rt env (List.map_filter (field_init slots) fs) attrs
    = Inr (attrs @ map (\<lambda>f. (f_name f, case dget env (f_name f) of Some (Given v) \<Rightarrow> v)) fs)"
  using assms
proof (induction fs arbitrary: attrs)
  case (Cons f fs)
  from Cons.prems(1) obtain v where v: "dget env (f_name f) = Some (Given v)" by auto
  obtain src where src: "field_init slots f = Some (f_name f, src)" "source_value rt env src = Inr v"
    using Cons.prems(1) v by (cases "f_factory f") (auto simp: field_init_def source_value_def param_value_def)
  have "dset (f_name f) v attrs = attrs @ [(f_name f, v)]"
    using Cons.prems(3) by (intro dset_new) (auto simp: dkeys_def)
  with src v Cons.IH [of "attrs @ [(f_name f, v)]"] Cons.prems show ?case
    by (auto simp: List.map_filter_simps dkeys_def)
qed (simp add: List.map_filter_simps)

lemma map_given: "map_of (map (\<lambda>f. (f_name f, Given (g f))) fs) n = (case List.find (\<lambda>f. f_name f = n) fs of None \<Rightarrow> None | Some f \<Rightarrow> Some (Given (g f)))"
  by (induction fs) auto

lemma find_member: "distinct (map f_name fs) \<Longrightarrow> f \<in> set fs \<Longrightarrow> List.find (\<lambda>g. f_name g = f_name f) fs = Some f"
  by (induction fs) (auto simp: image_iff)

lemma call_init_fields:
  assumes "init_fn fs (fst (fields_in_init_order fs)) (snd (fields_in_init_order fs)) False self slots = Inr code"
    and "\<forall>f\<in>set fs. f_init f \<and> f_kind f = FIELD \<and> dget kwargs (f_name f) = Some (val f)" and "distinct (map f_name fs)"
    and "set (dkeys kwargs) \<subseteq> f_name ` set fs"
  shows "call_init rt c code [] kwargs = Inr (map (\<lambda>f. (f_name f, val f)) fs)"
proof -
  from assms(1) have parts: "ic_std code = fst (fields_in_init_order fs)" "ic_kw code = snd (fields_in_init_order fs)"
    "ic_body code = List.map_filter (field_init slots) fs" "ic_post code = None"
    by (auto simp: init_fn_def bindR_eq_Inr)
  let ?ps = "ic_std code @ ic_kw code"
  have params: "set ?ps = set fs" using assms(2) by (auto simp: parts fields_in_init_order_def)
  have "inj_on f_name (set fs)" using assms(3) by (simp add: distinct_map)
  moreover have "distinct ?ps" using assms(3) by (auto simp: parts fields_in_init_order_def distinct_map)
  ultimately have dist_params: "distinct (map f_name ?ps)" by (simp only: distinct_map params)
  have "\<forall>f\<in>set ?ps. dget kwargs (f_name f) \<noteq> None" unfolding params using assms(2) by simp
  moreover have "\<forall>n\<in>set (dkeys kwargs). n \<in> f_name ` set ?ps" unfolding params using assms(4) by blast
  ultimately have bound: "bind_args code [] kwargs = Inr (map (\<lambda>f. (f_name f, Given (the (dget kwargs (f_name f))))) ?ps)"
    by (rule bind_kwargs)
  let ?env = "map (\<lambda>f. (f_name f, Given (the (dget kwargs (f_name f))))) ?ps"
  have env: "dget ?env (f_name f) = Some (Given (val f))" if "f \<in> set fs" for f
    using find_member [OF dist_params, of f] that assms(2) params by (simp only: map_given option.case option.sel)
  have "run_body rt ?env (ic_body code) [] = Inr ([] @ map (\<lambda>f. (f_name f, case dget ?env (f_name f) of Some (Given v) \<Rightarrow> v)) fs)"
    unfolding parts(3) by (rule run_body_fields) (use assms env in \<open>auto simp: dkeys_def simp del: map_append\<close>)
  moreover have "map (\<lambda>f. (f_name f, case dget ?env (f_name f) of Some (Given v) \<Rightarrow> v)) fs = map (\<lambda>f. (f_name f, val f)) fs"
    using env by (simp del: map_append)
  ultimately have "run_body rt ?env (ic_body code) [] = Inr (map (\<lambda>f. (f_name f, val f)) fs)" by simp
  then show ?thesis by (simp only: call_init_def bound bindR_simps parts(4) option.case)
qed

text \<open>The changes with the values of the other fields.\<close>

lemma filled_value:
  assumes "distinct (map f_name fs)" and "f \<in> set fs" and "P f" and "dget changes (f_name f) = None"
  shows "dget (changes @ map (\<lambda>f. (f_name f, val f)) (filter (\<lambda>f. P f \<and> dget changes (f_name f) = None) fs)) (f_name f) = Some (val f)"
proof -
  let ?left = "filter (\<lambda>f. P f \<and> dget changes (f_name f) = None) fs"
  have "f \<in> set ?left" using assms(2-4) by simp
  moreover have "distinct (map f_name ?left)" using assms(1) by (rule distinct_map_filter)
  ultimately have "dget (map (\<lambda>f. (f_name f, val f)) ?left) (f_name f) = Some (val f)"
    by (intro map_of_is_SomeI) (auto simp: o_def)
  with assms(4) show ?thesis by (simp add: map_add_def)
qed

definition own_init :: "pyclass \<Rightarrow> bool" where
  "own_init klass \<longleftrightarrow> own_attr klass ''__init__'' = None \<and> class_attr klass ''__post_init__'' = None"

text \<open>
  C21: \<open>replace\<close> on an instance of a processed class gives a new instance of the class: the fields that are named have the new
  values, all others those of the old instance. With no changes it is a copy. The class has the generated \<open>__init__\<close>, no
  \<open>__post_init__\<close>, no \<open>InitVar\<close> and no field with the name of one of these methods; all its fields are parameters of \<open>__init__\<close> (\<open>init=True\<close>), the instance
  has a value for each of them, and only fields are named.
\<close>
theorem replace_changes_named:
  assumes "process_class mods opts klass0 = Inr klass" and "op_init opts" and "own_init klass0"
    and "pc_fields klass = Some d" and "set (dkeys d) \<inter> {''__init__'', ''__post_init__''} = {}"
    and "dget (rt_classes rt) c = Some klass"
    and "list_all (\<lambda>f. f_kind f \<noteq> FIELD_INITVAR \<and> (f_kind f = FIELD \<longrightarrow> f_init f \<and> dget attrs (f_name f) \<noteq> None)) (map snd d)"
    and "set (dkeys changes) \<subseteq> set (map f_name (real_fields d))"
  shows "dc_replace rt (VInst c attrs) changes = Inr (VInst c (map (\<lambda>f. (f_name f,
    case dget changes (f_name f) of Some v \<Rightarrow> v | None \<Rightarrow> the (dget attrs (f_name f)))) (real_fields d)))"
proof -
  let ?rs = "real_fields d" and ?val = "\<lambda>f. case dget changes (f_name f) of Some v \<Rightarrow> v | None \<Rightarrow> the (dget attrs (f_name f))"
  obtain fs where d: "d = add_fields (field_sequence klass0 fs) []"
    using process_class_fields [OF assms(1)] assms(4) by (metis option.inject)
  have named: "list_all (\<lambda>(n, f). f_name f = n) d" unfolding d by (rule add_fields_named)
  then have names: "map f_name (map snd d) = dkeys d" by (induction d) (auto simp: dkeys_def)
  have "distinct (dkeys d)" by (simp add: d add_fields_spec firsts_def)
  with names have dist: "distinct (map f_name (map snd d))" by simp
  then have dist_real: "distinct (map f_name ?rs)" unfolding real_fields_def by (rule distinct_map_filter)
  have init: "init_fields d = ?rs" unfolding init_fields_def real_fields_def
    by (rule filter_cong) (use assms(7) in \<open>auto simp: list_all_iff\<close>)
  have reals: "f_init f" "f_kind f = FIELD" "dget attrs (f_name f) \<noteq> None" if "f \<in> set ?rs" for f
    using that assms(7) by (auto simp: real_fields_def list_all_iff)
  obtain code self where code: "class_attr klass ''__init__'' = Some (MadeAttr (MadeInit code))"
    "init_fn ?rs (fst (fields_in_init_order ?rs)) (snd (fields_in_init_order ?rs)) False self (op_slots opts) = Inr code"
    using generated_init [OF assms(1,2) _ assms(4)] assms(3,5) by (auto simp: own_init_def init)
  let ?all = "changes @ map (\<lambda>f. (f_name f, the (dget attrs (f_name f)))) (filter (\<lambda>f. f_kind f = FIELD \<and> dget changes (f_name f) = None) (map snd d))"
  have filled: "fill_changes rt c attrs (map snd d) changes = Inr ?all"
    by (rule fill_changes_all) (use assms(7) dist in simp_all)
  have all: "dget ?all (f_name f) = Some (?val f)" if "f \<in> set ?rs" for f
  proof (cases "dget changes (f_name f)")
    case None
    then show ?thesis using filled_value [OF dist, of f "\<lambda>f. f_kind f = FIELD" changes "\<lambda>f. the (dget attrs (f_name f))"] that
      by (simp add: real_fields_def)
  qed (auto simp: map_add_def dest: map_of_SomeD split: option.split)
  have "set (dkeys ?all) \<subseteq> f_name ` set ?rs" using assms(8) by (auto simp: dkeys_def real_fields_def)
  then have "call_init rt c code [] ?all = Inr (map (\<lambda>f. (f_name f, ?val f)) ?rs)"
    by (intro call_init_fields [OF code(2)] ballI conjI) (use reals all dist_real in blast)+
  then have "new_instance rt c [] ?all = Inr (VInst c (map (\<lambda>f. (f_name f, ?val f)) ?rs))"
    by (simp only: new_instance_def assms(6) code(1) option.case attr.case made.case bindR_simps)
  moreover have "class_fields rt c = Some d" by (simp add: class_fields_def assms(4,6) inherited_fields_def)
  ultimately show ?thesis by (simp only: dc_replace_def pyval.case option.case filled bindR_simps)
qed

section \<open>Comparing and hashing\<close>

lemma read_all_equal:
  assumes "read_all rt c a ns = Inr vs" and "read_all rt c b ns = Inr us" and "tuple_equal rt vs us" and "set ms \<subseteq> set ns"
  shows "\<exists>vs' us'. read_all rt c a ms = Inr vs' \<and> read_all rt c b ms = Inr us' \<and> tuple_equal rt vs' us'"
proof -
  have equal: "\<exists>v u. read_attr rt c a n = Inr v \<and> read_attr rt c b n = Inr u \<and> rt_equal rt v u" if "n \<in> set ns" for n
    using assms(1-3) that unfolding read_all_def
  proof (induction ns arbitrary: vs us)
    case (Cons m ns)
    then show ?case by (auto simp: bindR_eq_Inr)
  qed simp
  from assms(4) show ?thesis unfolding read_all_def
  proof (induction ms)
    case (Cons m ms)
    with equal [of m] show ?case by (auto simp: bindR_eq_Inr)
  qed simp
qed

lemma tuple_equal_iff: "rt_equal rt = (=) \<Longrightarrow> tuple_equal rt vs us \<longleftrightarrow> vs = us"
  by (induction rt vs us rule: tuple_equal.induct) auto

lemma hash_names_compared:
  assumes "list_all (\<lambda>f. f_hash f = Some True \<longrightarrow> f_compare f) (map snd d)"
  shows "set (hash_names d) \<subseteq> set (compare_names d)"
proof -
  have "filter (\<lambda>f. case f_hash f of None \<Rightarrow> f_compare f | Some h \<Rightarrow> h) (real_fields d)
      = filter (\<lambda>f. (case f_hash f of None \<Rightarrow> True | Some h \<Rightarrow> h) \<and> f_compare f) (real_fields d)"
    using assms by (intro filter_cong) (auto simp: real_fields_def list_all_iff split: option.splits)
  then show ?thesis by (auto simp: hash_names_def compare_names_def)
qed

text \<open>What Python asks of values that can be hashed: tuples of values that are equal one by one have the same hash.\<close>

definition hash_law :: "runtime \<Rightarrow> bool" where
  "hash_law rt \<longleftrightarrow> (\<forall>vs us h k. tuple_equal rt vs us \<longrightarrow> rt_hash rt vs = Inr h \<longrightarrow> rt_hash rt us = Inr k \<longrightarrow> h = k)"

lemma equal_same_hash:
  assumes "hash_law rt" and "set ms \<subseteq> set ns" and "call_cmp rt ''=='' ns x y = Inr (Some True)"
    and "call_hash rt ms x = Inr h" and "call_hash rt ms y = Inr k"
  shows "h = k"
proof -
  from assms(3) obtain c a b vs us where xy: "x = VInst c a" "y = VInst c b"
    and read: "read_all rt c a ns = Inr vs" "read_all rt c b ns = Inr us" "tuple_equal rt vs us"
    by (auto simp: call_cmp_def tuple_compare_def bindR_eq_Inr split: pyval.splits if_splits)
  from read_all_equal [OF read assms(2)] assms(4,5) obtain vs' us' where
    "tuple_equal rt vs' us'" "rt_hash rt vs' = Inr h" "rt_hash rt us' = Inr k" by (auto simp: xy call_hash_def)
  with assms(1) show ?thesis unfolding hash_law_def by blast
qed

text \<open>
  C23: The generated \<open>__eq__\<close> and \<open>__hash__\<close> belong together, for a class that is decorated with \<open>eq\<close> and with \<open>frozen\<close> or \<open>unsafe_hash\<close>,
  defines neither method itself and has no field with the name of one, and in which no field counts for the hash but not for the
  comparison: if two instances are equal and both can be hashed, their hashes are the same. The values of the fields may be equal without being
  the same; it is asked of them only that tuples of equal values, if they can be hashed, have the same hash.
\<close>
theorem equal_instances_hash:
  assumes "process_class mods opts klass0 = Inr klass" and "op_eq opts" and "op_frozen opts \<or> op_unsafe_hash opts"
    and "own_attr klass0 ''__eq__'' = None" and "own_attr klass0 ''__hash__'' = None"
    and "pc_fields klass = Some d" and "set (dkeys d) \<inter> {''__eq__'', ''__hash__''} = {}"
    and "list_all (\<lambda>f. f_hash f = Some True \<longrightarrow> f_compare f) (map snd d)" and "hash_law rt"
  shows "\<exists>ns ms. class_attr klass ''__eq__'' = Some (MadeAttr (MadeCmp ''=='' ns)) \<and> class_attr klass ''__hash__'' = Some (MadeAttr (MadeHash ms))
    \<and> (\<forall>x y h k. call_cmp rt ''=='' ns x y = Inr (Some True) \<and> call_hash rt ms x = Inr h \<and> call_hash rt ms y = Inr k \<longrightarrow> h = k)"
proof -
  have "h = k" if "call_cmp rt ''=='' (compare_names d) x y = Inr (Some True)"
    "call_hash rt (hash_names d) x = Inr h" "call_hash rt (hash_names d) y = Inr k" for x y h k
    using assms(9) hash_names_compared [OF assms(8)] that by (rule equal_same_hash)
  with generated_eq_hash [OF assms(1-7)] show ?thesis by blast
qed

text \<open>If the operators on the values of fields are those of an order, tuples are compared in the order of words.\<close>

definition order_op :: "string \<Rightarrow> ('a \<times> 'a) set \<Rightarrow> 'a \<Rightarrow> 'a \<Rightarrow> bool" where
  "order_op op R v u \<longleftrightarrow> (if op = ''<'' then (v, u) \<in> R else if op = ''<='' then (v, u) \<in> R \<or> v = u
     else if op = ''>'' then (u, v) \<in> R else (u, v) \<in> R \<or> v = u)"

lemma tuple_order_lexord:
  assumes "rt_equal rt = (=)" and "\<And>op v u. rt_order rt op v u = Inr (order_op op R v u)" and "irrefl R"
    and "op \<in> {''<'', ''<='', ''>'', ''>=''}"
  shows "tuple_order rt op vs us = Inr (order_op op (lexord R) vs us)"
  using assms(1,2,4)
proof (induction rt op vs us rule: tuple_order.induct)
  case (4 rt op v vs u us)
  have "(v, v) \<notin> R" using assms(3) by (simp add: irrefl_def)
  with 4 show ?case by (auto simp: order_op_def)
qed (auto simp: order_op_def)

text \<open>A comparison that returns true, an instance of the class from which all fields can be read, and their values.\<close>

definition holds_cmp :: "runtime \<Rightarrow> string \<Rightarrow> string list \<Rightarrow> pyval \<Rightarrow> pyval \<Rightarrow> bool" where
  "holds_cmp rt op ns x y \<longleftrightarrow> call_cmp rt op ns x y = Inr (Some True)"

definition has_fields :: "runtime \<Rightarrow> string \<Rightarrow> string list \<Rightarrow> pyval \<Rightarrow> bool" where
  "has_fields rt c ns x \<longleftrightarrow> (case x of VInst c' attrs \<Rightarrow> c' = c \<and> is_ok (read_all rt c attrs ns) | _ \<Rightarrow> False)"

definition field_values :: "runtime \<Rightarrow> string list \<Rightarrow> pyval \<Rightarrow> pyval list" where
  "field_values rt ns x = (case x of VInst c attrs \<Rightarrow> (case read_all rt c attrs ns of Inr vs \<Rightarrow> vs | _ \<Rightarrow> []) | _ \<Rightarrow> [])"

lemma holds_cmp_values:
  assumes "rt_equal rt = (=)" and "\<And>op v u. rt_order rt op v u = Inr (order_op op R v u)" and "irrefl R"
    and "has_fields rt c ns x" and "has_fields rt c ns y"
  defines "vs \<equiv> field_values rt ns x" and "us \<equiv> field_values rt ns y"
  shows "holds_cmp rt ''=='' ns x y \<longleftrightarrow> vs = us" and "holds_cmp rt ''<'' ns x y \<longleftrightarrow> (vs, us) \<in> lexord R"
    and "holds_cmp rt ''<='' ns x y \<longleftrightarrow> (vs, us) \<in> lexord R \<or> vs = us"
    and "holds_cmp rt ''>'' ns x y \<longleftrightarrow> (us, vs) \<in> lexord R" and "holds_cmp rt ''>='' ns x y \<longleftrightarrow> (us, vs) \<in> lexord R \<or> us = vs"
proof -
  from assms(4) obtain a where x: "x = VInst c a" "read_all rt c a ns = Inr vs"
    unfolding vs_def by (auto simp: has_fields_def field_values_def is_ok_iff split: pyval.splits)
  from assms(5) obtain b where y: "y = VInst c b" "read_all rt c b ns = Inr us"
    unfolding us_def by (auto simp: has_fields_def field_values_def is_ok_iff split: pyval.splits)
  note order = tuple_order_lexord [OF assms(1-3)]
  show "holds_cmp rt ''=='' ns x y \<longleftrightarrow> vs = us" "holds_cmp rt ''<'' ns x y \<longleftrightarrow> (vs, us) \<in> lexord R"
    "holds_cmp rt ''<='' ns x y \<longleftrightarrow> (vs, us) \<in> lexord R \<or> vs = us"
    "holds_cmp rt ''>'' ns x y \<longleftrightarrow> (us, vs) \<in> lexord R" "holds_cmp rt ''>='' ns x y \<longleftrightarrow> (us, vs) \<in> lexord R \<or> us = vs"
    using x y by (auto simp: holds_cmp_def call_cmp_def tuple_compare_def order tuple_equal_iff [OF assms(1)] order_op_def)
qed

text \<open>
  The generated comparisons order the instances of a class, if the values of the fields are ordered: of two instances one
  is less, or they are equal; being less is transitive and excludes being greater; and the four methods fit together.
\<close>
theorem instances_ordered:
  assumes "process_class mods opts klass0 = Inr klass" and "op_order opts" and "pc_fields klass = Some d"
    and "set (dkeys d) \<inter> {''__lt__'', ''__le__'', ''__gt__'', ''__ge__''} = {}"
    and "rt_equal rt = (=)" and "\<And>op v u. rt_order rt op v u = Inr (order_op op R v u)" and "irrefl R" and "trans R" and "total R"
    and "has_fields rt c (compare_names d) x" and "has_fields rt c (compare_names d) y" and "has_fields rt c (compare_names d) z"
  shows "class_attr klass ''__lt__'' = Some (MadeAttr (MadeCmp ''<'' (compare_names d)))
    \<and> (let lt = holds_cmp rt ''<'' (compare_names d); eq = holds_cmp rt ''=='' (compare_names d) in
       (lt x y \<or> eq x y \<or> lt y x) \<and> \<not> (lt x y \<and> (eq x y \<or> lt y x)) \<and> (lt x y \<and> lt y z \<longrightarrow> lt x z)
       \<and> (holds_cmp rt ''<='' (compare_names d) x y \<longleftrightarrow> lt x y \<or> eq x y)
       \<and> (holds_cmp rt ''>'' (compare_names d) x y \<longleftrightarrow> lt y x)
       \<and> (holds_cmp rt ''>='' (compare_names d) x y \<longleftrightarrow> \<not> lt x y))"
proof -
  let ?v = "field_values rt (compare_names d)"
  note xy = holds_cmp_values [OF assms(5-7,10,11)] and yx = holds_cmp_values [OF assms(5-7,11,10)]
    and yz = holds_cmp_values [OF assms(5-7,11,12)] and xz = holds_cmp_values [OF assms(5-7,10,12)]
  have tri: "(?v x, ?v y) \<in> lexord R \<or> ?v x = ?v y \<or> (?v y, ?v x) \<in> lexord R"
    by (rule lexord_linear) (use assms(9) in \<open>auto simp: total_on_def\<close>)
  have irr: "(vs, vs) \<notin> lexord R" for vs
    by (rule lexord_irreflexive) (use assms(7) in \<open>auto simp: irrefl_def\<close>)
  have trans: "(vs, us) \<in> lexord R \<Longrightarrow> (us, ws) \<in> lexord R \<Longrightarrow> (vs, ws) \<in> lexord R" for vs us ws
    using lexord_trans assms(8) by blast
  have "class_attr klass ''__lt__'' = Some (MadeAttr (MadeCmp ''<'' (compare_names d)))"
    using generated_order [OF assms(1-4)] by (simp add: order_methods_def)
  moreover have "?v x = ?v y \<longleftrightarrow> ?v y = ?v x" by auto
  ultimately show ?thesis unfolding xy yx yz xz Let_def using tri irr trans by metis
qed

section \<open>asdict and astuple\<close>

text \<open>No instance of a dataclass within lists, tuples and dictionaries.\<close>

fun free :: "runtime \<Rightarrow> pyval \<Rightarrow> bool" where
  "free rt (VInst c attrs) \<longleftrightarrow> class_fields rt c = None"
| "free rt (VList vs) \<longleftrightarrow> list_all (free rt) vs"
| "free rt (VTuple vs) \<longleftrightarrow> list_all (free rt) vs"
| "free rt (VNamed t vs) \<longleftrightarrow> list_all (free rt) vs"
| "free rt (VDict kvs) \<longleftrightarrow> list_all (\<lambda>kv. free rt (fst kv) \<and> free rt (snd kv)) kvs"
| "free rt _ \<longleftrightarrow> True"

lemma free_dset: "free rt k \<Longrightarrow> free rt v \<Longrightarrow> free rt (VDict d) \<Longrightarrow> free rt (VDict (dset k v d))"
  by (induction d) auto

lemma free_dict_of: "dict_of kvs d = Inr y \<Longrightarrow> list_all (\<lambda>kv. free rt (fst kv) \<and> free rt (snd kv)) kvs \<Longrightarrow> free rt (VDict d) \<Longrightarrow> free rt y"
proof (induction kvs d rule: dict_of.induct)
  case (2 k v kvs d)
  then show ?case using free_dset [of rt k v d] by (auto split: if_splits)
qed auto

lemma convert_free:
  assumes "\<And>nvs. list_all (\<lambda>nv. free rt (snd nv)) nvs \<Longrightarrow> free rt (factory nvs)"
  shows "convert n rt factory x = Inr y \<Longrightarrow> free rt y"
proof (induction n arbitrary: x y)
  case (Suc n)
  have parts: "map_res (convert n rt factory) vs = Inr us \<Longrightarrow> list_all (free rt) us" for vs us
    by (erule map_res_all) (rule Suc.IH)
  have pairs: "map_res (map_pair (convert n rt factory)) vs = Inr us \<Longrightarrow> list_all (\<lambda>kv. free rt (fst kv) \<and> free rt (snd kv)) us" for vs us
    by (erule map_res_all) (auto simp: map_pair_def bindR_eq_Inr dest: Suc.IH)
  show ?case
  proof (cases x)
    case (VInst c attrs)
    show ?thesis
    proof (cases "dc_fields rt c")
      case (Inl e)
      with VInst Suc.prems show ?thesis by (auto simp: dc_fields_def split: option.splits)
    next
      case (Inr fs)
      with VInst Suc.prems obtain nvs where nvs: "map_res (\<lambda>f. bindR (read_attr rt c attrs (f_name f)) (\<lambda>v.
          bindR (convert n rt factory v) (\<lambda>v'. Inr (f_name f, v')))) fs = Inr nvs" "y = factory nvs"
        by (auto simp: bindR_eq_Inr)
      have "list_all (\<lambda>nv. free rt (snd nv)) nvs" using nvs(1)
        by (rule map_res_all) (auto simp: bindR_eq_Inr dest: Suc.IH)
      with nvs(2) assms show ?thesis by simp
    qed
  next
    case (VDict kvs)
    with Suc.prems obtain us where "map_res (map_pair (convert n rt factory)) kvs = Inr us" "dict_of us [] = Inr y"
      by (auto simp: bindR_eq_Inr)
    with pairs show ?thesis using free_dict_of [of us "[]" y rt] by simp
  qed (use Suc.prems parts in \<open>auto simp: bindR_eq_Inr\<close>)
qed simp

text \<open>
  \<open>asdict\<close> and \<open>astuple\<close> leave no instance of a dataclass within the lists, tuples and dictionaries of what they return.
\<close>
theorem converted_free:
  assumes "asdict limit rt x = Inr y \<or> astuple limit rt x = Inr y"
  shows "free rt y \<and> is_dataclass_instance rt x"
proof -
  have "free rt (make_dict nvs)" "free rt (make_tuple nvs)" if "list_all (\<lambda>nv. free rt (snd nv)) nvs" for nvs
    using that by (auto simp: make_dict_def make_tuple_def list_all_iff)
  with assms convert_free [of rt make_dict limit x y] convert_free [of rt make_tuple limit x y] show ?thesis
    by (auto simp: asdict_def astuple_def split: if_splits)
qed

end
