(* ===== verification/DataExamples.thy ===== *)
theory DataExamples
  imports DataInstanceLaws
begin

text \<open>
  Classes on which the laws of dataclasses are applied, and classes on which the code does what its comments do not say.
\<close>

section \<open>A class with a base\<close>

definition sample_mods :: modules where
  "sample_mods = \<lparr>md_modules = [(''app'', [(''dc'', BModule ''dataclasses'')]),
     (''dataclasses'', [(''KW_ONLY'', BAnnot KwOnlyT), (''InitVar'', BAnnot InitVarT)]), (''typing'', [(''ClassVar'', BAnnot ClassVarT)])],
     md_self = ''dataclasses''\<rparr>"

definition sample_opts :: options where
  "sample_opts = \<lparr>op_init = True, op_repr = True, op_eq = True, op_order = True, op_unsafe_hash = False, op_frozen = True,
     op_match_args = True, op_kw_only = False, op_slots = False\<rparr>"

definition sample_field :: "string \<Rightarrow> pyval option \<Rightarrow> dc_field" where
  "sample_field n v = \<lparr>f_name = n, f_type = OtherT ''int'', f_default = v, f_factory = None, f_init = True, f_repr = True,
     f_hash = None, f_compare = True, f_metadata = [], f_kw_only = Some False, f_kind = FIELD\<rparr>"

text \<open>The base has the fields \<open>x\<close> and \<open>y = 1\<close>; the class gives \<open>y\<close> another default and has keyword-only fields, one not compared.\<close>

definition sample_base :: base_class where
  "sample_base = \<lparr>bs_dict = [(''y'', ValAttr (VInt 1))],
     bs_fields = Some [(''x'', sample_field ''x'' None), (''y'', sample_field ''y'' (Some (VInt 1)))], bs_frozen = True\<rparr>"

definition sample_class :: pyclass where
  "sample_class = \<lparr>pc_name = ''Point'', pc_module = ''app'', pc_dict = [(''y'', ValAttr (VInt 2)),
       (''z'', FieldAttr (sample_field ''z'' None \<lparr>f_compare := False, f_kw_only := None\<rparr>))],
     pc_annotations = [(''y'', OtherT ''int''), (''_'', TextT ''dc.KW_ONLY''), (''z'', OtherT ''int'')],
     pc_bases = [sample_base], pc_fields = None, pc_frozen = False, pc_remade = False\<rparr>"

definition sample_point :: pyclass where
  "sample_point = (case process_class sample_mods sample_opts sample_class of Inr k \<Rightarrow> k | Inl _ \<Rightarrow> sample_class)"

definition sample_fields :: "(string, dc_field) dict" where
  "sample_fields = (case pc_fields sample_point of Some d \<Rightarrow> d | None \<Rightarrow> [])"

definition sample_runtime :: runtime where
  "sample_runtime = \<lparr>rt_classes = [(''Point'', sample_point)], rt_factory = (\<lambda>n. Inl NameError), rt_post_init = (\<lambda>c d vs. Inr d),
     rt_new = (\<lambda>c d. Inl TypeError), rt_equal = (=), rt_order = (\<lambda>op v u. Inl TypeError), rt_hash = (\<lambda>vs. Inr (int (length vs)))\<rparr>"

lemma sample_processed: "process_class sample_mods sample_opts sample_class = Inr sample_point"
  by code_simp

lemma sample_has_fields: "pc_fields sample_point = Some sample_fields"
  by code_simp

lemma sample_names: "dkeys sample_fields = [''x'', ''y'', ''z'']"
  by code_simp

lemma sample_rt [simp]: "rt_classes sample_runtime = [(''Point'', sample_point)]" "rt_equal sample_runtime = (=)"
  by (simp_all add: sample_runtime_def)

section \<open>The laws applied\<close>

lemma class_fields_in_order_witness:
  "\<exists>fs d. pc_fields sample_point = Some d
    \<and> own_fields sample_mods (sample_class \<lparr>pc_frozen := op_frozen sample_opts\<rparr>) (pc_annotations sample_class) False (op_kw_only sample_opts) = Inr fs
    \<and> map f_name fs = map fst (filter (\<lambda>(n, a). annotates sample_mods sample_class a (md_self sample_mods) KwOnlyT = Inr False) (pc_annotations sample_class))
    \<and> dkeys d = firsts (map f_name (field_sequence sample_class fs))
    \<and> (\<forall>n. dget d n = List.find (\<lambda>f. f_name f = n) (rev (field_sequence sample_class fs)))
    \<and> (op_init sample_opts \<longrightarrow> list_all has_default (dropWhile (\<lambda>f. \<not> has_default f) (fst (fields_in_init_order (init_fields d)))))"
  by (rule class_fields_in_order [OF sample_processed])

lemma replace_changes_named_witness:
  "dc_replace sample_runtime (VInst ''Point'' [(''x'', VInt 1), (''y'', VInt 2), (''z'', VInt 3)]) [(''z'', VInt 7)]
     = Inr (VInst ''Point'' [(''x'', VInt 1), (''y'', VInt 2), (''z'', VInt 7)])"
proof -
  have d: "set (dkeys sample_fields) \<inter> {''__init__'', ''__post_init__''} = {}"
    "list_all (\<lambda>f. f_kind f \<noteq> FIELD_INITVAR \<and> (f_kind f = FIELD \<longrightarrow> f_init f
       \<and> dget [(''x'', VInt 1), (''y'', VInt 2), (''z'', VInt 3)] (f_name f) \<noteq> None)) (map snd sample_fields)"
    "set (dkeys [(''z'', VInt 7)]) \<subseteq> set (map f_name (real_fields sample_fields))"
    "op_init sample_opts" "own_init sample_class"
    "map (\<lambda>f. (f_name f, case dget [(''z'', VInt 7)] (f_name f) of Some v \<Rightarrow> v
       | None \<Rightarrow> the (dget [(''x'', VInt 1), (''y'', VInt 2), (''z'', VInt 3)] (f_name f)))) (real_fields sample_fields)
     = [(''x'', VInt 1), (''y'', VInt 2), (''z'', VInt 7)]"
    by code_simp+
  have "dget (rt_classes sample_runtime) ''Point'' = Some sample_point" by simp
  from replace_changes_named [OF sample_processed d(4,5) sample_has_fields d(1) this d(2,3)] show ?thesis by (simp only: d(6))
qed

lemma equal_instances_hash_witness:
  "\<exists>ns ms. class_attr sample_point ''__eq__'' = Some (MadeAttr (MadeCmp ''=='' ns)) \<and> class_attr sample_point ''__hash__'' = Some (MadeAttr (MadeHash ms))
    \<and> (\<forall>x y h k. call_cmp sample_runtime ''=='' ns x y = Inr (Some True) \<and> call_hash sample_runtime ms x = Inr h
         \<and> call_hash sample_runtime ms y = Inr k \<longrightarrow> h = k)"
proof -
  have o: "op_eq sample_opts" "op_frozen sample_opts \<or> op_unsafe_hash sample_opts"
    "own_attr sample_class ''__eq__'' = None" "own_attr sample_class ''__hash__'' = None"
    "set (dkeys sample_fields) \<inter> {''__eq__'', ''__hash__''} = {}"
    "list_all (\<lambda>f. f_hash f = Some True \<longrightarrow> f_compare f) (map snd sample_fields)"
    by code_simp+
  have "hash_law sample_runtime"
    by (auto simp: hash_law_def tuple_equal_iff)
  then show ?thesis by (rule equal_instances_hash [OF sample_processed o(1-4) sample_has_fields o(5,6)])
qed

lemma process_class_errors_witness:
  "usual (process_class sample_mods (sample_opts \<lparr>op_frozen := False\<rparr>) sample_class)
    \<and> \<not> is_ok (process_class sample_mods (sample_opts \<lparr>op_frozen := False\<rparr>) sample_class)"
proof -
  have o: "modules_known sample_mods sample_class" "bases_clean sample_class"
    "check_frozen (op_frozen (sample_opts \<lparr>op_frozen := False\<rparr>)) sample_class \<noteq> Inr ()"
    by code_simp+
  from process_class_errors [OF o(1,2), of "sample_opts \<lparr>op_frozen := False\<rparr>"] o(3) show ?thesis by blast
qed

lemma converted_free_witness:
  "let x = VInst ''Point'' [(''x'', VInt 1), (''y'', VInt 2), (''z'', VInt 3)]; p = VInst ''Point'' [(''x'', VList [x]), (''y'', x), (''z'', VInt 3)]
   in \<exists>y. asdict 100 sample_runtime p = Inr y \<and> free sample_runtime y"
proof -
  let ?x = "VInst ''Point'' [(''x'', VInt 1), (''y'', VInt 2), (''z'', VInt 3)]"
  let ?p = "VInst ''Point'' [(''x'', VList [?x]), (''y'', ?x), (''z'', VInt 3)]"
  have "is_ok (asdict 100 sample_runtime ?p)" by code_simp
  then obtain y where "asdict 100 sample_runtime ?p = Inr y" by (auto simp: is_ok_iff)
  with converted_free [OF disjI1] show ?thesis by (auto simp: Let_def)
qed

section \<open>What the comments do not say\<close>

text \<open>
  A class of a module that is not loaded: the comment in \<open>_process_class\<close> says that it still works. With an annotation
  that is a text it does not: \<open>_is_type\<close> asks \<open>None\<close> for its names.
\<close>
lemma unknown_module_fails:
  "process_class sample_mods sample_opts (sample_class \<lparr>pc_module := ''gone'', pc_annotations := [(''y'', TextT ''int'')], pc_dict := []\<rparr>)
     = Inl AttributeError
   \<and> is_ok (process_class sample_mods sample_opts (sample_class \<lparr>pc_module := ''gone'', pc_annotations := [(''y'', OtherT ''int'')], pc_dict := []\<rparr>))"
  by code_simp

text \<open>\<open>InitVar\<close> with \<open>init=False\<close> and \<open>__post_init__\<close>: the class is made, and every instantiation fails, since the generated
  \<open>__init__\<close> passes on a name that it does not have.\<close>
lemma init_var_unbound:
  "let f = sample_field ''v'' (Some (VInt 1)) \<lparr>f_init := False, f_kw_only := None\<rparr>;
       r = process_class sample_mods (sample_opts \<lparr>op_frozen := False\<rparr>) \<lparr>pc_name = ''P'', pc_module = ''app'', pc_dict = [(''v'', FieldAttr f), (''__post_init__'', ValAttr (VOther ''f''))],
         pc_annotations = [(''v'', InitVarT)], pc_bases = [], pc_fields = None, pc_frozen = False, pc_remade = False\<rparr>
   in case r of Inl _ \<Rightarrow> False | Inr k \<Rightarrow> new_instance (sample_runtime \<lparr>rt_classes := [(''P'', k)]\<rparr>) ''P'' [] [] = Inl NameError"
  by code_simp

text \<open>A field object that a base keeps, being no dataclass: the class that annotates it cannot be processed.\<close>
lemma inherited_field_object_fails:
  "process_class sample_mods sample_opts \<lparr>pc_name = ''P'', pc_module = ''app'', pc_dict = [], pc_annotations = [(''v'', OtherT ''int'')],
     pc_bases = [\<lparr>bs_dict = [(''v'', FieldAttr (sample_field [] None))], bs_fields = None, bs_frozen = False\<rparr>], pc_fields = None, pc_frozen = False, pc_remade = False\<rparr>
     = Inl AttributeError"
  by code_simp

text \<open>
  Slots make another class than the one that the methods of a frozen class know. A new attribute of an instance is refused by
  \<open>super\<close>, not as \<open>FrozenInstanceError\<close>, which is what happens without slots.
\<close>
lemma slots_change_the_error:
  "let set_new = \<lambda>slots. (case process_class sample_mods (sample_opts \<lparr>op_slots := slots\<rparr>) sample_class of
         Inl _ \<Rightarrow> Inl NameError
       | Inr k \<Rightarrow> (case class_attr k ''__setattr__'' of
           Some (MadeAttr (MadeSetattr c ns)) \<Rightarrow>
             call_setattr (sample_runtime \<lparr>rt_classes := [(''Point'', k)]\<rparr>) c ns ''w'' VNone (VInst ''Point'' [])
         | _ \<Rightarrow> Inl NameError))
   in set_new False = Inl AttributeError \<and> set_new True = Inl TypeError"
  by code_simp

text \<open>A dictionary whose keys are instances can be a field, and not be converted.\<close>
lemma asdict_instance_keys:
  "let p = VInst ''Point'' [(''x'', VInt 1), (''y'', VInt 2), (''z'', VInt 3)]
   in asdict 100 sample_runtime (VInst ''Point'' [(''x'', VDict [(p, VInt 1)]), (''y'', VInt 2), (''z'', VInt 3)]) = Inl TypeError
     \<and> is_ok (astuple 100 sample_runtime (VInst ''Point'' [(''x'', VDict [(p, VInt 1)]), (''y'', VInt 2), (''z'', VInt 3)]))"
  by code_simp

end
