(* ===== verification/Spec2Isabelle.thy ===== *)
theory Spec2Isabelle
  imports SemVerLaws WsServerLaws ObserverApi InotifyLaws InotifyEmitter Polling Kqueue EmitterContract Tricks Glob
    AppServer Timeout EnviumLaws ThreadExecutor AsgiLocal PkgExamples PkgEntryPointsLaws DataExamples
begin

text \<open>
  A model of the Python code that ships with reloadium, under \<open>src\<close>.

  \<^bold>\<open>The program.\<close> Reloadium reloads Python code while it runs. Its core is distributed in compiled form and is not in
  the repository; what is here are the libraries it is built from, in versions of its own: \<open>watchdog\<close> tells it
  which files changed, \<open>globmatch\<close> decides which of them matter, \<open>websocket_server\<close> tells browsers to reload,
  \<open>asgiref\<close> carries calls between threads and event loops, \<open>semantic_version\<close> orders releases, \<open>envium\<close> holds the
  configuration, \<open>pkg_resources\<close> with its \<open>packaging\<close> finds the distributions that are installed, and its data classes
  come from back-ports of \<open>dataclasses\<close>.

  \<^bold>\<open>Conventions.\<close> \<open>Prelude\<close> has Python's exceptions as values (an exception that can leave a function is the left of
  a sum, or comes beside the changed state where the code changes state before raising) and dictionaries in
  insertion order as association lists. \<open>PyText\<close> has the operations of \<open>str\<close> and \<open>os.path\<close> (POSIX) on lists of
  characters. The states a component reaches are \<open>reach\<close> of its start and its step relation; that a predicate holds in
  all of them is the locale \<open>invariant\<close>, interpreted by the delayed queue, Inotify, the observer, the WebSocket server,
  the pool, the timeout, the executor, environments and working sets of distributions. Texts are ASCII where the code does not decode bytes itself; the texts of exceptions and log lines are
  left out; names that Windows reports are their UTF-8. A Python set is a list without repeats, in one of its possible orders. Calls into the kernel or the
  standard library that ask about the world (\<open>os.stat\<close>, \<open>os.walk\<close>, the clock, starting a thread, compiling a
  user's regular expression) are parameters.

  \<^bold>\<open>The theories.\<close>

  \<^item> \<open>SemVer\<close>, \<open>SemVerLaws\<close>: \<open>semantic_version.py\<close>. Parsing with both regular expressions, printing, coercion, the
    next versions and all comparisons. Which texts are versions, printing and reading back, the order of precedence
    (through the locale \<open>keyed_order\<close>), the next versions as least ones.
  \<^item> \<open>WsFrame\<close>, \<open>WsFrameLaws\<close>: the wire format of \<open>websocket_server.py\<close> on words of 8 bits, with UTF-8, and the
    message loop; against a reference decoder of RFC 6455 frames.
  \<^item> \<open>WsServer\<close>, \<open>WsServerLaws\<close>: the list of clients, broadcasts, shutting down, and the handshake with SHA-1 and
    Base64 written out; a connection from its request to its end.
  \<^item> \<open>Patterns\<close>, \<open>Events\<close>: \<open>watchdog/utils/patterns.py\<close> and \<open>watchdog/events.py\<close>: event classes, keys, dispatching
    handlers, synthetic events of moved and created directories.
  \<^item> \<open>Bricks\<close>: the event queue of \<open>watchdog/utils/bricks.py\<close>, which drops repeats. Its contract is the locale
    \<open>repeat_dropping\<close>.
  \<^item> \<open>ObserverApi\<close>: \<open>watchdog/observers/api.py\<close>: scheduling, starting, stopping, the tables of emitters and handlers
    and their invariant, the dispatching of one event.
  \<^item> \<open>DelayedQueue\<close>, \<open>InotifyBuffer\<close>, \<open>Inotify\<close>, \<open>InotifyLaws\<close>, \<open>InotifyEmitter\<close>: the Linux side, from the kernel's
    bytes over the two maps of watch descriptors and the pairing of moves to the events. The delayed queue is a
    step relation in which producers and the phases of the consumer interleave.
  \<^item> \<open>DirSnapshot\<close>, \<open>Polling\<close>: \<open>watchdog/utils/dirsnapshot.py\<close> and the emitter that compares snapshots.
  \<^item> \<open>Kqueue\<close>: \<open>watchdog/observers/kqueue.py\<close>, the emitter of the BSDs with its table of descriptors.
  \<^item> \<open>WinApi\<close>: \<open>winapi.py\<close> and \<open>read_directory_changes.py\<close>, from the kernel's bytes with UTF-16 to the events.
  \<^item> \<open>FsEvents\<close>, \<open>FsEvents2\<close>: the two macOS emitters. \<open>EmitterContract\<close> states what the observers rely on in an emitter
    as the locale \<open>emitter\<close> (a batch that tells some changes queues their events), interprets it on the macOS and
    Windows emitters, and follows the events over many batches and through the event queue.
  \<^item> \<open>Tricks\<close>: the shell command and auto-restart handlers of \<open>watchdog/tricks\<close>.
  \<^item> \<open>Glob\<close>: \<open>globmatch\<close>: globs to regular expressions, the meaning of these, and matching by path components.
  \<^item> \<open>AppServer\<close>, \<open>Timeout\<close>, \<open>ThreadExecutor\<close>, \<open>AsgiLocal\<close>: of \<open>asgiref\<close>, the pool of application instances with the
    coroutine that cleans it up, interleaved with the requests, the timeout, the executor of the waiting thread (with submissions of other threads interleaved), and the locals that
    follow calls between synchronous and asynchronous code, with the choice of executors.
  \<^item> \<open>Envium\<close>, \<open>EnviumLaws\<close>: \<open>envium\<close>: trees of typed variables, their validation, writing to and reading from
    the environment, computed variables, copying.

  \<^item> \<open>PyRegex\<close>, \<open>PyParsing\<close>: what the packaging code uses of Python's \<open>re\<close> (a backtracking matcher with the rest of the
    pattern as a continuation, and the texts a pattern can match) and of \<open>pyparsing\<close> (parsers from the text that is
    left to tokens and rest).
  \<^item> \<open>PkgVersion\<close>, \<open>PkgSpecifiers\<close>, \<open>PkgSpecifierText\<close> and their laws: \<open>version.py\<close>, \<open>_structures.py\<close>, \<open>utils.py\<close> and
    \<open>specifiers.py\<close> of \<open>packaging\<close>. The order of versions is a linear order, canonical texts decide equality, what each
    operator accepts, which texts are specifiers.
  \<^item> \<open>PkgMarkers\<close>, \<open>PkgRequirements\<close> and their laws: \<open>markers.py\<close>, \<open>requirements.py\<close> and the requirements of
    \<open>pkg_resources/__init__.py\<close>. Printing and reading back, the meaning of markers, errors.
  \<^item> \<open>PkgDistributions\<close>, \<open>PkgWorkingSet\<close>, \<open>PkgEntryPoints\<close>: distributions with what they require, environments, working
    sets with the resolution of requirements, and entry points, of \<open>pkg_resources/__init__.py\<close>. \<open>PkgEnvironmentLaws\<close>:
    the lists of an environment stay sorted, so the best match is the newest; places on a path. \<open>PkgWorkingSetLaws\<close>:
    a working set can be iterated. \<open>PkgResolveLaws\<close>: the resolution gives a solution, ends, and its errors are true.
    \<open>PkgEntryPointsLaws\<close>: the round trip of entry points. \<open>PkgExamples\<close>: concrete projects, and where the code errs.
  \<^item> \<open>Dataclasses\<close>, \<open>DataInstances\<close>: \<open>dataclasses310.py\<close>, the decorator as a function on classes, the methods that it
    generates as data that is interpreted on instances, \<open>replace\<close>, \<open>asdict\<close>, \<open>astuple\<close> and \<open>make_dataclass\<close>. \<open>DataLaws\<close>:
    the fields in their order, which methods a class gets, which errors it can meet. \<open>DataInstanceLaws\<close>: what \<open>replace\<close>
    makes, equal instances have equal hashes, the comparisons are those of an order, what conversions leave.
    \<open>DataExamples\<close>: a class with a base, and where the code errs.

  \<^bold>\<open>What the lemmas show.\<close> Invariants that every operation keeps (the tables of the observer, the two maps of
  Inotify, the list of clients, the pool of instances, the kqueue descriptors); exact functional behaviour, errors
  included; round trips (versions, frames, kernel buffers, environment variables); equivalence with a reference
  (glob matching, RFC 6455 frames, the inodes of a snapshot); what a queue or an emitter refines; and places where
  the code does not do what its comments say, each as a theorem.

  \<^bold>\<open>Bounds and fuel.\<close> Nothing is cut off by fuel of the model's own. Three recursions count Python's recursion limit
  down, because the code meets it: the walk of a directory snapshot and the conversions of \<open>asdict\<close> and \<open>astuple\<close> (beyond it
  Python raises), and the loop that resolves a context in \<open>local.py\<close> (which raises after that many hops); theorems about
  the first and the last ask for a depth below the limit. The grammar of markers is unfolded as often as the text has characters, which \<open>marker_grammar_ends\<close> shows
  to be enough; the removal of duplicates on a path as often as the path is long. The loop of the resolution is a
  \<open>partial_function\<close>, and \<open>resolve_terminates\<close> shows that it ends. All other loops are structural or have a measure:
  the length of the batch, buffer, text or pool that is left. The depth of parentheses that Python's stack allows in a
  marker is not modelled. Lengths of frames and flags are words or are compared with powers of two; Python's integers are \<open>int\<close>.

  \<^bold>\<open>Not modelled.\<close> Threads, locks, sockets, TLS, processes and event loops as such: where their order matters it is
  a step relation or a parameter. The command line of \<open>watchmedo\<close>, logging and tracing (\<open>echo.py\<close>), the choice of an
  observer by import, the ctypes prototypes and handles, creating FSEvents streams, errors while an emitter is stopped. Of \<open>pkg_resources\<close> the
  providers of metadata and resources, the finders (what they find is a parameter), namespace packages, \<open>appdirs\<close> and the
  tags of platforms; of \<open>pyparsing\<close> what the two grammars do not use. Code that is a copy of other projects'
  (\<open>typing_extensions\<close>, the other back-ports of \<open>dataclasses\<close>, \<open>types.py\<close>) and the editor plugins. In \<open>envium\<close>, values other than booleans, integers and strings.
\<close>

end
